(* ===== verification/Prelude.thy ===== *)
theory Prelude
  imports Main "HOL-Library.Sublist" "HOL-Library.Char_ord" "HOL-Library.List_Lexorder" "HOL-Library.Product_Lexorder"
begin

text \<open>
  Shared vocabulary of the development: the result type of fallible operations, the
  string operations of the Rust standard library that the sources call, SQL statements
  on tables kept as lists of rows, and the list lemmas that the component theories share.

  A Rust \<^verbatim>\<open>String\<close> is modelled as a list of characters, each character being one of the
  code points below 256. The code points from 128 up take two bytes in UTF-8, which
  matters where the sources compute byte offsets (\<open>char_utf8_len\<close>).
\<close>

named_theorems table_simps \<open>unfolding the SQL statements of a component\<close>
named_theorems inv_intros \<open>an operation keeps its component's invariant\<close>
named_theorems inv_dests \<open>what a component's invariant gives\<close>

type_synonym ('e, 'a) result = "'e + 'a"

abbreviation Err :: "'e \<Rightarrow> ('e, 'a) result" where
  "Err \<equiv> Inl"

abbreviation Ok :: "'a \<Rightarrow> ('e, 'a) result" where
  "Ok \<equiv> Inr"

section \<open>Strings\<close>

text \<open>White space as \<^verbatim>\<open>char::is_whitespace\<close> has it below code point 256.\<close>

definition is_whitespace :: "char \<Rightarrow> bool" where
  "is_whitespace c \<longleftrightarrow> (let n = (of_char c :: nat) in (9 \<le> n \<and> n \<le> 13) \<or> n = 32 \<or> n = 133 \<or> n = 160)"

definition is_ascii_digit :: "char \<Rightarrow> bool" where
  "is_ascii_digit c \<longleftrightarrow> (let n = (of_char c :: nat) in 48 \<le> n \<and> n \<le> 57)"

definition to_ascii_lower_char :: "char \<Rightarrow> char" where
  "to_ascii_lower_char c = (let n = (of_char c :: nat) in if 65 \<le> n \<and> n \<le> 90 then char_of (n + 32) else c)"

definition to_ascii_lowercase :: "string \<Rightarrow> string" where
  "to_ascii_lowercase s = map to_ascii_lower_char s"

text \<open>\<^verbatim>\<open>str::to_lowercase\<close> below code point 256: the ASCII letters and the accented capitals.\<close>

definition to_lower_char :: "char \<Rightarrow> char" where
  "to_lower_char c = (let n = (of_char c :: nat) in
     if (65 \<le> n \<and> n \<le> 90) \<or> (192 \<le> n \<and> n \<le> 222 \<and> n \<noteq> 215) then char_of (n + 32) else c)"

definition to_lowercase :: "string \<Rightarrow> string" where
  "to_lowercase s = map to_lower_char s"

definition char_utf8_len :: "char \<Rightarrow> nat" where
  "char_utf8_len c = (if (of_char c :: nat) < 128 then 1 else 2)"

definition utf8_len :: "string \<Rightarrow> nat" where
  "utf8_len s = sum_list (map char_utf8_len s)"

definition trim_start :: "string \<Rightarrow> string" where
  "trim_start s = dropWhile is_whitespace s"

definition trim_end :: "string \<Rightarrow> string" where
  "trim_end s = rev (dropWhile is_whitespace (rev s))"

definition trim :: "string \<Rightarrow> string" where
  "trim s = trim_end (trim_start s)"

text \<open>\<^verbatim>\<open>str::split_once\<close>: the parts before and after the first separator.\<close>

fun split_once :: "char \<Rightarrow> string \<Rightarrow> (string \<times> string) option" where
  "split_once sep [] = None"
| "split_once sep (c # cs) =
     (if c = sep then Some ([], cs)
      else map_option (\<lambda>(a, b). (c # a, b)) (split_once sep cs))"

text \<open>\<^verbatim>\<open>str::split\<close> with a predicate: always at least one part.\<close>

fun split_on :: "(char \<Rightarrow> bool) \<Rightarrow> string \<Rightarrow> string list" where
  "split_on p [] = [[]]"
| "split_on p (c # cs) =
     (if p c then [] # split_on p cs
      else (case split_on p cs of [] \<Rightarrow> [[c]] | w # ws \<Rightarrow> (c # w) # ws))"

lemma split_on_not_Nil [simp]: "split_on p s \<noteq> []"
  by (induction s) (auto split: list.splits)

lemma split_on_no_sep:
  "(\<And>c. c \<in> set s \<Longrightarrow> \<not> p c) \<Longrightarrow> split_on p s = [s]"
  by (induction s) auto

lemma split_on_append_sep:
  "(\<And>c. c \<in> set s \<Longrightarrow> \<not> p c) \<Longrightarrow> p d \<Longrightarrow> split_on p (s @ d # t) = s # split_on p t"
  by (induction s) auto

lemma split_once_Some_append:
  "split_once sep s = Some (a, b) \<Longrightarrow> s = a @ sep # b \<and> sep \<notin> set a"
  by (induction s arbitrary: a b) (auto split: if_splits)

lemma split_once_append:
  "sep \<notin> set a \<Longrightarrow> split_once sep (a @ sep # b) = Some (a, b)"
  by (induction a) auto

lemma split_once_None: "split_once sep s = None \<longleftrightarrow> sep \<notin> set s"
  by (induction s) auto

text \<open>\<^verbatim>\<open>slice::join\<close>.\<close>

fun join_with :: "string \<Rightarrow> string list \<Rightarrow> string" where
  "join_with sep [] = []"
| "join_with sep [w] = w"
| "join_with sep (w # v # ws) = w @ sep @ join_with sep (v # ws)"

section \<open>Tables\<close>

text \<open>
  A table is the list of its rows in rowid order. An \<^verbatim>\<open>UPDATE ... WHERE\<close> maps the rows
  that satisfy the condition, a \<^verbatim>\<open>DELETE ... WHERE\<close> drops them, and an \<^verbatim>\<open>INSERT\<close> without a
  rowid takes one more than the largest rowid in the table (SQLite's rule for an
  \<^verbatim>\<open>INTEGER PRIMARY KEY\<close>). \<^verbatim>\<open>execute\<close> returns the number of rows changed.
\<close>

definition sql_update :: "('r \<Rightarrow> bool) \<Rightarrow> ('r \<Rightarrow> 'r) \<Rightarrow> 'r list \<Rightarrow> 'r list" where
  "sql_update p f rows = map (\<lambda>r. if p r then f r else r) rows"

definition sql_delete :: "('r \<Rightarrow> bool) \<Rightarrow> 'r list \<Rightarrow> 'r list" where
  "sql_delete p rows = filter (\<lambda>r. \<not> p r) rows"

definition sql_count :: "('r \<Rightarrow> bool) \<Rightarrow> 'r list \<Rightarrow> nat" where
  "sql_count p rows = length (filter p rows)"

definition next_rowid :: "('r \<Rightarrow> int) \<Rightarrow> 'r list \<Rightarrow> int" where
  "next_rowid key rows = foldr (\<lambda>r m. max (key r) m) rows 0 + 1"

lemma next_rowid_greater: "r \<in> set rows \<Longrightarrow> key r < next_rowid key rows"
  by (induction rows) (auto simp: next_rowid_def)

lemma next_rowid_pos: "0 < next_rowid key rows"
proof -
  have "0 \<le> foldr (\<lambda>r m. max (key r) m) rows 0"
    by (induction rows) auto
  then show ?thesis by (simp add: next_rowid_def)
qed

lemma set_sql_update: "set (sql_update p f rows) = {if p r then f r else r | r. r \<in> set rows}"
  by (auto simp: sql_update_def)

lemma in_sql_update: "x \<in> set (sql_update p f rows) \<Longrightarrow> \<exists>r \<in> set rows. x = (if p r then f r else r)"
  by (auto simp: sql_update_def)

lemma in_sql_updateI: "r \<in> set rows \<Longrightarrow> p r \<Longrightarrow> f r \<in> set (sql_update p f rows)"
  by (force simp: sql_update_def)

lemma set_sql_delete [simp]: "set (sql_delete p rows) = {r \<in> set rows. \<not> p r}"
  by (simp add: sql_delete_def)

lemma sql_update_append [simp]:
  "sql_update p f (xs @ ys) = sql_update p f xs @ sql_update p f ys"
  by (simp add: sql_update_def)

lemma sql_delete_append [simp]:
  "sql_delete p (xs @ ys) = sql_delete p xs @ sql_delete p ys"
  by (simp add: sql_delete_def)

lemma sql_update_none: "(\<And>r. r \<in> set rows \<Longrightarrow> \<not> p r) \<Longrightarrow> sql_update p f rows = rows"
  by (auto simp: sql_update_def intro: map_idI)

lemma sql_update_twice:
  "(\<And>r. p r \<Longrightarrow> p (f r)) \<Longrightarrow> sql_update p g (sql_update p f rows) = sql_update p (\<lambda>r. g (f r)) rows"
  by (induction rows) (auto simp: sql_update_def)

lemma find_Some_in: "List.find p xs = Some x \<Longrightarrow> x \<in> set xs \<and> p x"
  by (auto simp: find_Some_iff)

lemma find_append: "List.find P (xs @ ys) = (case List.find P xs of None \<Rightarrow> List.find P ys | Some x \<Rightarrow> Some x)"
  by (induction xs) auto

lemma find_split:
  "List.find P xs = Some x \<Longrightarrow> \<exists>ys zs. xs = ys @ x # zs \<and> (\<forall>y \<in> set ys. \<not> P y) \<and> P x"
proof (induction xs)
  case (Cons a xs)
  show ?case
  proof (cases "P a")
    case True
    with Cons.prems show ?thesis by (intro exI [of _ "[]"] exI [of _ xs]) simp
  next
    case False
    with Cons obtain ys zs where "xs = ys @ x # zs" "\<forall>y \<in> set ys. \<not> P y" "P x" by auto
    with False show ?thesis by (intro exI [of _ "a # ys"] exI [of _ zs]) simp
  qed
qed simp

lemma find_distinct_map:
  "distinct (map f xs) \<Longrightarrow> x \<in> set xs \<Longrightarrow> List.find (\<lambda>y. f y = f x) xs = Some x"
  by (induction xs) auto

text \<open>
  The contract of a table whose rows carry a unique integer key: the updates of the
  component keep the key, so keys stay distinct and looking a key up commutes with
  updates, deletions and inserts.
\<close>

locale keyed_table =
  fixes key :: "'r \<Rightarrow> int"
    and keeps_key :: "('r \<Rightarrow> 'r) \<Rightarrow> bool"
  assumes keeps_key: "keeps_key f \<Longrightarrow> key (f r) = key r"
begin

lemma keys_update: "keeps_key f \<Longrightarrow> map key (sql_update p f rows) = map key rows"
  by (simp add: sql_update_def keeps_key)

lemma distinct_update: "keeps_key f \<Longrightarrow> distinct (map key rows) \<Longrightarrow> distinct (map key (sql_update p f rows))"
  by (simp add: keys_update)

lemma distinct_delete: "distinct (map key rows) \<Longrightarrow> distinct (map key (sql_delete p rows))"
  by (simp add: sql_delete_def distinct_map_filter)

lemma distinct_insert:
  "distinct (map key rows) \<Longrightarrow> key r = next_rowid key rows \<Longrightarrow> distinct (map key (rows @ [r]))"
  using next_rowid_greater [where key = key] by fastforce

lemma sorted_insert:
  "sorted (map key rows) \<Longrightarrow> key r = next_rowid key rows \<Longrightarrow> sorted (map key (rows @ [r]))"
  using next_rowid_greater [where key = key] by (fastforce simp: sorted_append less_imp_le)

lemma sorted_delete: "sorted (map key rows) \<Longrightarrow> sorted (map key (sql_delete p rows))"
  by (simp add: sql_delete_def sorted_filter)

lemma key_unique:
  "distinct (map key rows) \<Longrightarrow> r \<in> set rows \<Longrightarrow> r' \<in> set rows \<Longrightarrow> key r = key r' \<Longrightarrow> r = r'"
  by (simp add: distinct_map inj_on_def)

lemma find_key:
  "distinct (map key rows) \<Longrightarrow> r \<in> set rows \<Longrightarrow> List.find (\<lambda>x. key x = key r) rows = Some r"
  by (rule find_distinct_map)

lemma count_key:
  "distinct (map key rows) \<Longrightarrow> r \<in> set rows \<Longrightarrow> p r \<Longrightarrow> (\<And>x. p x \<Longrightarrow> key x = key r) \<Longrightarrow> sql_count p rows = 1"
proof -
  assume rows: "distinct (map key rows)" "r \<in> set rows" and p: "p r" "\<And>x. p x \<Longrightarrow> key x = key r"
  have "set (filter p rows) = {r}"
    using rows p by (auto simp: distinct_map inj_on_def)
  moreover have "distinct (filter p rows)" using rows(1) by (simp add: distinct_map)
  ultimately show ?thesis
    unfolding sql_count_def by (metis One_nat_def card.empty card.insert distinct_card empty_iff finite.emptyI)
qed

lemma find_key_iff:
  "distinct (map key rows) \<Longrightarrow>
   List.find (\<lambda>x. key x = k) rows = Some r \<longleftrightarrow> r \<in> set rows \<and> key r = k"
  using find_key [of rows r] by (auto dest: find_Some_in)

end

section \<open>Ordered maps\<close>

text \<open>A \<^verbatim>\<open>BTreeMap\<close> as the list of its entries in key order.\<close>

fun btree_insert :: "'k::linorder \<Rightarrow> 'v \<Rightarrow> ('k \<times> 'v) list \<Rightarrow> ('k \<times> 'v) list" where
  "btree_insert k v [] = [(k, v)]"
| "btree_insert k v ((k', v') # es) =
     (if k < k' then (k, v) # (k', v') # es
      else if k = k' then (k, v) # es
      else (k', v') # btree_insert k v es)"

lemma btree_insert_keys: "fst ` set (btree_insert k v es) = insert k (fst ` set es)"
  by (induction k v es rule: btree_insert.induct) auto

lemma btree_insert_sorted:
  "sorted_wrt (<) (map fst es) \<Longrightarrow> sorted_wrt (<) (map fst (btree_insert k v es))"
proof (induction k v es rule: btree_insert.induct)
  case (2 k v k' v' es)
  have "fst ` set (btree_insert k v es) = insert k (fst ` set es)" by (rule btree_insert_keys)
  with 2 show ?case by auto
qed simp

lemma btree_insert_lookup: "map_of (btree_insert k v es) x = (if x = k then Some v else map_of es x)"
  by (induction k v es rule: btree_insert.induct) auto

text \<open>\<^verbatim>\<open>entry(k).or_default().push(v)\<close>.\<close>

fun btree_push :: "'k::linorder \<Rightarrow> 'v \<Rightarrow> ('k \<times> 'v list) list \<Rightarrow> ('k \<times> 'v list) list" where
  "btree_push k v [] = [(k, [v])]"
| "btree_push k v ((k', vs) # es) =
     (if k < k' then (k, [v]) # (k', vs) # es
      else if k = k' then (k, vs @ [v]) # es
      else (k', vs) # btree_push k v es)"

section \<open>Lists\<close>

text \<open>\<^verbatim>\<open>slice::chunks\<close>: pieces of \<open>n\<close> elements, the last possibly shorter.\<close>

function chunks :: "nat \<Rightarrow> 'a list \<Rightarrow> 'a list list" where
  "chunks n xs = (if n = 0 \<or> xs = [] then [] else take n xs # chunks n (drop n xs))"
  by pat_completeness auto
termination by (relation "measure (\<lambda>(n, xs). length xs)") auto

declare chunks.simps [simp del]

lemma concat_chunks: "0 < n \<Longrightarrow> concat (chunks n xs) = xs"
proof (induction n xs rule: chunks.induct)
  case (1 n xs)
  then show ?case by (subst chunks.simps) auto
qed

lemma chunks_length: "c \<in> set (chunks n xs) \<Longrightarrow> 0 < length c \<and> length c \<le> n"
proof (induction n xs rule: chunks.induct)
  case (1 n xs)
  from "1.prems" have "\<not> (n = 0 \<or> xs = [])" by (subst (asm) chunks.simps) (auto split: if_splits)
  moreover from this "1.prems" have "c = take n xs \<or> c \<in> set (chunks n (drop n xs))"
    by (subst (asm) chunks.simps) simp
  ultimately show ?case using "1.IH" by auto
qed

lemma filter_sorted_wrt: "sorted_wrt R xs \<Longrightarrow> sorted_wrt R (filter p xs)"
  by (induction xs) auto

lemma dropWhile_sorted_filter:
  "sorted xs \<Longrightarrow> dropWhile (\<lambda>t. (t::'a::linorder) \<le> b) xs = filter (\<lambda>t. b < t) xs"
proof (induction xs)
  case (Cons x xs)
  show ?case
  proof (cases "x \<le> b")
    case True
    with Cons show ?thesis by simp
  next
    case False
    with Cons.prems have "\<And>t. t \<in> set (x # xs) \<Longrightarrow> b < t"
      by (auto simp: not_le)
    then have "filter (\<lambda>t. b < t) (x # xs) = x # xs"
      by (intro filter_True) blast
    with False show ?thesis by simp
  qed
qed simp

lemma set_map_filter: "x \<in> set (List.map_filter f xs) \<longleftrightarrow> (\<exists>y \<in> set xs. f y = Some x)"
  by (force simp: List.map_filter_def)

lemma last_take: "0 < n \<Longrightarrow> n \<le> length xs \<Longrightarrow> last (take n xs) = xs ! (n - 1)"
  by (subst last_conv_nth) auto

lemma length_filter_mono:
  "(\<And>x. x \<in> set xs \<Longrightarrow> p x \<Longrightarrow> q x) \<Longrightarrow> length (filter p xs) \<le> length (filter q xs)"
  by (induction xs) (auto simp: le_SucI)

end
