(* ===== verification/Domain.thy ===== *)
theory Domain
  imports Prelude
begin

text \<open>
  The plain types of the crate \<^verbatim>\<open>mail-domain\<close>: identifiers, the canonical system labels,
  addresses, labels, mailboxes, the message and thread records that the store serves, and
  the calendar arithmetic of \<^verbatim>\<open>time.rs\<close>. Identifiers are newtypes over strings in the
  source and type synonyms here; times are milliseconds since the epoch as integers.
\<close>

section \<open>Identifiers\<close>

type_synonym account_id = string
type_synonym thread_id = string
type_synonym message_id = string
type_synonym label_id = string
type_synonym attachment_id = string
type_synonym draft_id = string
type_synonym millis = int

section \<open>System labels\<close>

definition INBOX :: label_id where "INBOX = ''INBOX''"
definition SENT :: label_id where "SENT = ''SENT''"
definition DRAFT :: label_id where "DRAFT = ''DRAFT''"
definition SPAM :: label_id where "SPAM = ''SPAM''"
definition TRASH :: label_id where "TRASH = ''TRASH''"
definition STARRED :: label_id where "STARRED = ''STARRED''"
definition IMPORTANT :: label_id where "IMPORTANT = ''IMPORTANT''"
definition UNREAD :: label_id where "UNREAD = ''UNREAD''"

definition PROTECTED :: "label_id list" where
  "PROTECTED = [SPAM, TRASH, DRAFT, SENT]"

lemmas system_label_defs =
  INBOX_def SENT_def DRAFT_def SPAM_def TRASH_def STARRED_def IMPORTANT_def UNREAD_def

section \<open>Addresses\<close>

record email_address =
  ea_name :: "string option"
  ea_email :: string

definition email_address_new :: "string option \<Rightarrow> string \<Rightarrow> email_address" where
  "email_address_new name email =
     \<lparr>ea_name = (case map_option trim name of
                   None \<Rightarrow> None
                 | Some n \<Rightarrow> if n = [] then None else Some n),
      ea_email = trim email\<rparr>"

definition normalized :: "email_address \<Rightarrow> string" where
  "normalized a = to_lowercase (ea_email a)"

definition display :: "email_address \<Rightarrow> string" where
  "display a = (case ea_name a of Some n \<Rightarrow> n | None \<Rightarrow> ea_email a)"

section \<open>List headers, labels, mailboxes\<close>

record list_headers =
  lh_id :: "string option"
  lh_name :: "string option"
  lh_unsubscribe :: "string option"
  lh_unsubscribe_post :: "string option"

definition list_headers_is_empty :: "list_headers \<Rightarrow> bool" where
  "list_headers_is_empty h \<longleftrightarrow>
     lh_id h = None \<and> lh_unsubscribe h = None \<and> lh_unsubscribe_post h = None"

datatype label_kind = SystemLabel | UserLabel

record label_color =
  lc_background :: string
  lc_text :: string

record label =
  lb_id :: label_id
  lb_name :: string
  lb_kind :: label_kind
  lb_color :: "label_color option"
  lb_visible :: bool

definition is_protected :: "label \<Rightarrow> bool" where
  "is_protected l \<longleftrightarrow> lb_id l \<in> set PROTECTED"

datatype mailbox_kind =
    MkInbox | MkStarred | MkImportant | MkSent | MkDrafts | MkArchive | MkSpam | MkTrash | MkLabel

fun system_label :: "mailbox_kind \<Rightarrow> label_id option" where
  "system_label MkInbox = Some INBOX"
| "system_label MkStarred = Some STARRED"
| "system_label MkImportant = Some IMPORTANT"
| "system_label MkSent = Some SENT"
| "system_label MkDrafts = Some DRAFT"
| "system_label MkSpam = Some SPAM"
| "system_label MkTrash = Some TRASH"
| "system_label MkArchive = None"
| "system_label MkLabel = None"

datatype body_state = Metadata | Full

record body =
  bd_text_plain :: "string option"
  bd_html_sanitized :: "string option"
  bd_has_remote_images :: bool

section \<open>Calendar arithmetic\<close>

text \<open>
  \<^verbatim>\<open>civil_from_days\<close>: year, month and day of a day number counted from 1970-01-01. Every
  dividend of a truncating \<^verbatim>\<open>/\<close> in the source is non-negative, so \<open>div\<close> agrees with it;
  \<^verbatim>\<open>div_euclid\<close> by a positive number is \<open>div\<close>.
\<close>

definition civil_from_days :: "int \<Rightarrow> int \<times> int \<times> int" where
  "civil_from_days z0 =
     (let z = z0 + 719468;
          era = z div 146097;
          doe = z - era * 146097;
          yoe = (doe - doe div 1460 + doe div 36524 - doe div 146096) div 365;
          doy = doe - (365 * yoe + yoe div 4 - yoe div 100);
          mp = (5 * doy + 2) div 153;
          d = doy - (153 * mp + 2) div 5 + 1;
          m = (if mp < 10 then mp + 3 else mp - 9)
      in (yoe + era * 400 + (if m \<le> 2 then 1 else 0), m, d))"

text \<open>The decimal digits of a non-negative number, padded with zeros to a width.\<close>

fun digits_rev :: "nat \<Rightarrow> string" where
  "digits_rev n = (if n < 10 then [char_of (48 + n)] else char_of (48 + n mod 10) # digits_rev (n div 10))"

declare digits_rev.simps [simp del]

definition show_nat :: "nat \<Rightarrow> string" where
  "show_nat n = rev (digits_rev n)"

definition zero_pad :: "nat \<Rightarrow> string \<Rightarrow> string" where
  "zero_pad w s = replicate (w - length s) (CHR ''0'') @ s"

text \<open>\<^verbatim>\<open>{y:04}\<close> of a signed integer: the sign counts towards the width.\<close>

definition show_padded :: "nat \<Rightarrow> int \<Rightarrow> string" where
  "show_padded w i =
     (if i < 0 then CHR ''-'' # zero_pad (w - 1) (show_nat (nat (- i)))
      else zero_pad w (show_nat (nat i)))"

definition iso8601_utc :: "millis \<Rightarrow> string" where
  "iso8601_utc at =
     (let secs = at div 1000;
          (y, m, d) = civil_from_days (secs div 86400);
          s = secs mod 86400
      in show_padded 4 y @ ''-'' @ show_padded 2 m @ ''-'' @ show_padded 2 d @ ''T'' @
         show_padded 2 (s div 3600) @ '':'' @ show_padded 2 (s mod 3600 div 60) @ '':'' @
         show_padded 2 (s mod 60) @ ''Z'')"

section \<open>Lemmas\<close>

lemma normalized_idem: "to_lowercase (to_lowercase s) = to_lowercase s"
proof -
  have "to_lower_char (to_lower_char c) = to_lower_char c" for c
    by (auto simp: to_lower_char_def Let_def of_char_of)
  then show ?thesis by (simp add: to_lowercase_def)
qed

end
