(* ===== verification/Store.thy ===== *)
theory Store
  imports Domain
begin

text \<open>
  The mail store of one account and its only writer, \<^verbatim>\<open>crates/mail-store/src/write.rs\<close>. The
  SQLite tables are lists of rows; labels are named by their provider id, which is unique
  in the source, so the join tables \<^verbatim>\<open>message_labels\<close>, \<^verbatim>\<open>participants\<close>, \<^verbatim>\<open>bodies\<close> and
  \<^verbatim>\<open>attachments\<close> become fields of the message row they cascade with. The full-text index is
  the list of the rowids it covers.

  A \<open>mail_writer\<close> carries the store and the threads it touched; \<open>finish\<close> recomputes their
  aggregates, their mailbox rows and, by deltas, the counters of the sidebar.
\<close>

section \<open>Errors and rows\<close>

datatype store_error =
    Sqlite string | Migration string | NotFoundRow string | InvalidData string | IoFailed string | Closed
  | VersionMismatch string

definition ARCHIVE_LABEL :: label_id where "ARCHIVE_LABEL = ''@archive''"
definition LOCAL_PREFIX :: string where "LOCAL_PREFIX = ''local-''"
definition MAX_THREAD_PARTICIPANTS :: nat where "MAX_THREAD_PARTICIPANTS = 10"

definition CATEGORIES :: "label_id list" where
  "CATEGORIES = [''CATEGORY_PROMOTIONS'', ''CATEGORY_SOCIAL'', ''CATEGORY_UPDATES'', ''CATEGORY_FORUMS'']"

definition PRIMARY :: label_id where "PRIMARY = ''CATEGORY_PERSONAL''"

datatype row_kind = KSystem | KUser | KVirtual

record label_row =
  lr_gmail_id :: label_id
  lr_name :: string
  lr_kind :: row_kind
  lr_color_bg :: "string option"
  lr_color_fg :: "string option"
  lr_visible :: bool

record incoming_attachment =
  at_part_id :: "string option"
  at_provider_attachment_id :: "string option"
  at_filename :: string
  at_mime_type :: string
  at_size :: nat
  at_content_id :: "string option"
  at_is_inline :: bool
  at_data :: "nat list option"

record incoming_message =
  im_id :: message_id
  im_thread_id :: thread_id
  im_rfc822_message_id :: "string option"
  im_in_reply_to :: "string option"
  im_references :: "string list"
  im_from :: "email_address option"
  im_to :: "email_address list"
  im_cc :: "email_address list"
  im_bcc :: "email_address list"
  im_reply_to :: "email_address list"
  im_subject :: string
  im_date :: millis
  im_internal_date :: millis
  im_snippet :: string
  im_label_ids :: "label_id list"
  im_size_estimate :: nat
  im_body :: "body option"
  im_attachments :: "incoming_attachment list"
  im_list :: list_headers
  im_headers_json :: "string option"

record message_head =
  mh_rfc822 :: "string option"
  mh_in_reply_to :: "string option"
  mh_references :: "string list"
  mh_from_name :: "string option"
  mh_from_email :: "string option"
  mh_subject :: string
  mh_snippet :: string
  mh_date :: millis
  mh_internal_date :: millis
  mh_size_estimate :: nat
  mh_headers_json :: "string option"
  mh_list :: list_headers

datatype role = RFrom | RTo | RCc | RBcc | RReplyTo

record message_row =
  m_id :: int
  m_thread :: int
  m_gmail_id :: message_id
  m_head :: message_head
  m_body_state :: body_state
  m_is_read :: bool
  m_is_starred :: bool
  m_is_draft :: bool
  m_is_sent_by_me :: bool
  m_has_attachments :: bool
  m_labels :: "label_id list"
  m_participants :: "(role \<times> nat \<times> email_address) list"
  m_body :: "body option"
  m_attachments :: "incoming_attachment list"

record thread_row =
  t_id :: int
  t_gmail_id :: thread_id
  t_subject :: string
  t_snippet :: string
  t_first_message_at :: millis
  t_last_message_at :: millis
  t_message_count :: int
  t_unread_count :: int
  t_has_attachments :: bool
  t_is_starred :: bool
  t_participants :: "email_address list"
  t_label_ids :: "label_id list"

record contact_row =
  c_email :: string
  c_name :: "string option"
  c_sent_count :: int
  c_received_count :: int
  c_last_seen :: millis

record mail_store =
  labels :: "label_row list"
  threads :: "thread_row list"
  messages :: "message_row list"
  thread_labels :: "(label_id \<times> millis \<times> int) list"
  label_stats :: "label_id \<rightharpoonup> int \<times> int"
  inbox_category_stats :: "label_id \<rightharpoonup> int \<times> int"
  contacts :: "contact_row list"
  messages_fts :: "int list"

text \<open>A new store: the migrations leave only the virtual Archive label.\<close>

definition empty_store :: mail_store where
  "empty_store = \<lparr>
     labels = [\<lparr>lr_gmail_id = ARCHIVE_LABEL, lr_name = ''Archive'', lr_kind = KVirtual,
                lr_color_bg = None, lr_color_fg = None, lr_visible = True\<rparr>],
     threads = [], messages = [], thread_labels = [], label_stats = Map.empty,
     inbox_category_stats = Map.empty, contacts = [], messages_fts = []\<rparr>"

section \<open>What changed, per mailbox\<close>

record mailbox_change =
  mc_inserted :: "thread_id set"
  mc_updated :: "thread_id set"
  mc_removed :: "thread_id set"

type_synonym thread_changes = "label_id \<rightharpoonup> mailbox_change"

definition no_change :: mailbox_change where
  "no_change = \<lparr>mc_inserted = {}, mc_updated = {}, mc_removed = {}\<rparr>"

definition change_entry :: "thread_changes \<Rightarrow> label_id \<Rightarrow> mailbox_change" where
  "change_entry ch l = (case ch l of None \<Rightarrow> no_change | Some c \<Rightarrow> c)"

definition note_inserted :: "thread_id \<Rightarrow> label_id \<Rightarrow> thread_changes \<Rightarrow> thread_changes" where
  "note_inserted g l ch = ch(l \<mapsto> (change_entry ch l)\<lparr>mc_inserted := insert g (mc_inserted (change_entry ch l))\<rparr>)"

definition note_updated :: "thread_id \<Rightarrow> label_id \<Rightarrow> thread_changes \<Rightarrow> thread_changes" where
  "note_updated g l ch = ch(l \<mapsto> (change_entry ch l)\<lparr>mc_updated := insert g (mc_updated (change_entry ch l))\<rparr>)"

definition note_removed :: "thread_id \<Rightarrow> label_id \<Rightarrow> thread_changes \<Rightarrow> thread_changes" where
  "note_removed g l ch = ch(l \<mapsto> (change_entry ch l)\<lparr>mc_removed := insert g (mc_removed (change_entry ch l))\<rparr>)"

section \<open>Counters and mailbox rows\<close>

definition inbox_category :: "label_id list \<Rightarrow> label_id option" where
  "inbox_category ls =
     (if INBOX \<notin> set ls then None
      else Some (case List.find (\<lambda>c. c \<in> set ls) CATEGORIES of Some c \<Rightarrow> c | None \<Rightarrow> PRIMARY))"

definition count_inbox_category :: "mail_store \<Rightarrow> label_id \<Rightarrow> int \<Rightarrow> int \<Rightarrow> mail_store" where
  "count_inbox_category db c n u =
     db\<lparr>inbox_category_stats := (inbox_category_stats db)(c \<mapsto>
        (case inbox_category_stats db c of None \<Rightarrow> (n, u) | Some (n0, u0) \<Rightarrow> (n0 + n, u0 + u)))\<rparr>"

definition add_thread_label :: "mail_store \<Rightarrow> label_id \<Rightarrow> millis \<Rightarrow> int \<Rightarrow> bool \<Rightarrow> mail_store" where
  "add_thread_label db l at t unread =
     db\<lparr>thread_labels := thread_labels db @ [(l, at, t)],
        label_stats := (label_stats db)(l \<mapsto>
          (case label_stats db l of None \<Rightarrow> (1, of_bool unread)
                                  | Some (n, u) \<Rightarrow> (n + 1, u + of_bool unread)))\<rparr>"

definition remove_thread_label :: "mail_store \<Rightarrow> label_id \<Rightarrow> int \<Rightarrow> bool \<Rightarrow> mail_store" where
  "remove_thread_label db l t unread =
     db\<lparr>thread_labels := sql_delete (\<lambda>(l', at, t'). l' = l \<and> t' = t) (thread_labels db),
        label_stats := (case label_stats db l of
            None \<Rightarrow> label_stats db
          | Some (n, u) \<Rightarrow> (label_stats db)(l \<mapsto> (n - 1, u - of_bool unread)))\<rparr>"

definition wholly_spam_or_trash :: "mail_store \<Rightarrow> int \<Rightarrow> bool" where
  "wholly_spam_or_trash db t \<longleftrightarrow>
     sql_count (\<lambda>m. m_thread m = t \<and> \<not> (\<exists>l \<in> set (m_labels m). l = SPAM \<or> l = TRASH)) (messages db) = 0"

section \<open>Recomputing a thread\<close>

definition thread_messages :: "mail_store \<Rightarrow> int \<Rightarrow> message_row list" where
  "thread_messages db t =
     sort_key (\<lambda>m. (mh_internal_date (m_head m), m_id m)) (filter (\<lambda>m. m_thread m = t) (messages db))"

definition message_from :: "message_row \<Rightarrow> email_address option" where
  "message_from m = map_option (email_address_new (mh_from_name (m_head m))) (mh_from_email (m_head m))"

text \<open>The distinct senders, oldest first, at most \<open>MAX_THREAD_PARTICIPANTS\<close>.\<close>

fun gather_participants :: "string set \<Rightarrow> email_address list \<Rightarrow> email_address list \<Rightarrow> email_address list" where
  "gather_participants seen acc [] = acc"
| "gather_participants seen acc (f # fs) =
     (if normalized f \<notin> seen \<and> length acc < MAX_THREAD_PARTICIPANTS
      then gather_participants (insert (normalized f) seen) (acc @ [f]) fs
      else gather_participants (insert (normalized f) seen) acc fs)"

definition is_virtual :: "mail_store \<Rightarrow> label_id \<Rightarrow> bool" where
  "is_virtual db l \<longleftrightarrow> (\<exists>r \<in> set (labels db). lr_gmail_id r = l \<and> lr_kind r = KVirtual)"

definition thread_label_ids :: "mail_store \<Rightarrow> int \<Rightarrow> label_id list" where
  "thread_label_ids db t =
     sort (remdups (filter (\<lambda>l. \<not> is_virtual db l)
       (concat (map m_labels (filter (\<lambda>m. m_thread m = t) (messages db))))))"

text \<open>The \<^verbatim>\<open>UPDATE threads\<close> with the aggregates of the thread's messages.\<close>

definition thread_aggregates :: "message_row list \<Rightarrow> label_id list \<Rightarrow> thread_row \<Rightarrow> thread_row" where
  "thread_aggregates msgs label_ids r =
     (let non_draft = filter (\<lambda>m. \<not> m_is_draft m) msgs;
          counted = (if non_draft = [] then msgs else non_draft);
          fst_m = hd counted;
          lst_m = last counted
      in r\<lparr>t_subject := mh_subject (m_head fst_m),
           t_snippet := mh_snippet (m_head lst_m),
           t_first_message_at := mh_internal_date (m_head fst_m),
           t_last_message_at := mh_internal_date (m_head lst_m),
           t_message_count := int (length counted),
           t_unread_count := int (length (filter (\<lambda>m. \<not> m_is_read m) msgs)),
           t_has_attachments := list_ex m_has_attachments msgs,
           t_is_starred := list_ex m_is_starred msgs,
           t_participants := gather_participants {} [] (List.map_filter message_from msgs),
           t_label_ids := label_ids\<rparr>)"

definition last_counted_at :: "message_row list \<Rightarrow> millis" where
  "last_counted_at msgs =
     (let non_draft = filter (\<lambda>m. \<not> m_is_draft m) msgs
      in mh_internal_date (m_head (last (if non_draft = [] then msgs else non_draft))))"

definition find_thread :: "mail_store \<Rightarrow> int \<Rightarrow> thread_row option" where
  "find_thread db t = List.find (\<lambda>r. t_id r = t) (threads db)"

text \<open>The mailboxes of a thread: its labels, and Archive outside the Inbox unless wholly spam or trash.\<close>

definition thread_mailboxes :: "mail_store \<Rightarrow> int \<Rightarrow> label_id list" where
  "thread_mailboxes db t =
     (let label_ids = thread_label_ids db t
      in if INBOX \<notin> set label_ids \<and> \<not> wholly_spam_or_trash db t
         then label_ids @ [ARCHIVE_LABEL] else label_ids)"

text \<open>The mailboxes the thread is stored in, and the counters taken back for them.\<close>

definition old_mailboxes :: "mail_store \<Rightarrow> int \<Rightarrow> label_id list" where
  "old_mailboxes db t = map fst (filter (\<lambda>(l, at, t'). t' = t) (thread_labels db))"

definition old_thread_state :: "mail_store \<Rightarrow> int \<Rightarrow> bool \<times> label_id list" where
  "old_thread_state db t =
     (case find_thread db t of None \<Rightarrow> (False, []) | Some r \<Rightarrow> (0 < t_unread_count r, t_label_ids r))"

definition withdraw_thread :: "mail_store \<Rightarrow> int \<Rightarrow> mail_store" where
  "withdraw_thread db t =
     (let (old_unread, old_label_ids) = old_thread_state db t;
          db1 = foldl (\<lambda>d l. remove_thread_label d l t old_unread) db (old_mailboxes db t)
      in case inbox_category old_label_ids of
           None \<Rightarrow> db1
         | Some c \<Rightarrow> count_inbox_category db1 c (- 1) (- of_bool old_unread))"

definition enter_thread :: "mail_store \<Rightarrow> int \<Rightarrow> label_id list \<Rightarrow> label_id list \<Rightarrow> millis \<Rightarrow> bool \<Rightarrow> mail_store" where
  "enter_thread db t new_labels label_ids at new_unread =
     (let db1 = foldl (\<lambda>d l. add_thread_label d l at t new_unread) db new_labels
      in case inbox_category label_ids of
           None \<Rightarrow> db1
         | Some c \<Rightarrow> count_inbox_category db1 c 1 (of_bool new_unread))"

definition delete_thread_row :: "mail_store \<Rightarrow> int \<Rightarrow> mail_store" where
  "delete_thread_row db t =
     db\<lparr>threads := sql_delete (\<lambda>r. t_id r = t) (threads db),
        messages := sql_delete (\<lambda>m. m_thread m = t) (messages db),
        thread_labels := sql_delete (\<lambda>(l, at, t'). t' = t) (thread_labels db)\<rparr>"

definition transitions :: "thread_id \<Rightarrow> label_id list \<Rightarrow> label_id list \<Rightarrow> thread_changes \<Rightarrow> thread_changes" where
  "transitions g old new ch =
     (let ch1 = foldl (\<lambda>c l. if l \<in> set new then note_updated g l c else note_removed g l c) ch old
      in foldl (\<lambda>c l. if l \<in> set old then c else note_inserted g l c) ch1 new)"

definition recompute_thread ::
    "mail_store \<Rightarrow> int \<Rightarrow> thread_id \<Rightarrow> thread_changes \<Rightarrow> (store_error, mail_store \<times> thread_changes) result" where
  "recompute_thread db t g ch =
     (let old_labels = old_mailboxes db t;
          msgs = thread_messages db t;
          db1 = withdraw_thread db t
      in if msgs = [] then
           Ok (delete_thread_row db1 t, foldl (\<lambda>c l. note_removed g l c) ch old_labels)
         else
           let label_ids = thread_label_ids db1 t;
               db2 = db1\<lparr>threads := sql_update (\<lambda>r. t_id r = t) (thread_aggregates msgs label_ids) (threads db1)\<rparr>;
               new_labels = thread_mailboxes db2 t;
               new_unread = (0 < length (filter (\<lambda>m. \<not> m_is_read m) msgs))
           in if ARCHIVE_LABEL \<in> set new_labels \<and> ARCHIVE_LABEL \<notin> lr_gmail_id ` set (labels db2)
              then Err (Sqlite ''Query returned no rows'')
              else Ok (enter_thread db2 t new_labels label_ids (last_counted_at msgs) new_unread,
                       transitions g old_labels new_labels ch))"

section \<open>The writer\<close>

datatype stored_labels = ReplaceLabels | KeepLabels | MergeLabels "label_id list \<Rightarrow> label_id list \<Rightarrow> label_id list"

record mail_writer =
  w_db :: mail_store
  w_dirty :: "(int \<times> thread_id) list"
  w_stored_labels :: stored_labels

definition writer_new :: "mail_store \<Rightarrow> mail_writer" where
  "writer_new db = \<lparr>w_db = db, w_dirty = [], w_stored_labels = ReplaceLabels\<rparr>"

definition with_stored_labels :: "mail_writer \<Rightarrow> stored_labels \<Rightarrow> mail_writer" where
  "with_stored_labels w s = w\<lparr>w_stored_labels := s\<rparr>"

definition mark_thread_rowid :: "mail_writer \<Rightarrow> int \<Rightarrow> mail_writer" where
  "mark_thread_rowid w t =
     (if t \<in> fst ` set (w_dirty w) then w
      else case find_thread (w_db w) t of
             None \<Rightarrow> w
           | Some r \<Rightarrow> w\<lparr>w_dirty := btree_insert t (t_gmail_id r) (w_dirty w)\<rparr>)"

definition mark_threads_with_label :: "mail_writer \<Rightarrow> label_id \<Rightarrow> mail_writer" where
  "mark_threads_with_label w l =
     foldl mark_thread_rowid w
       (map (\<lambda>(l', at, t). t) (filter (\<lambda>(l', at, t). l' = l) (thread_labels (w_db w))))"

definition find_message :: "mail_store \<Rightarrow> message_id \<Rightarrow> message_row option" where
  "find_message db g = List.find (\<lambda>m. m_gmail_id m = g) (messages db)"

definition kind_of_unlisted :: "label_id \<Rightarrow> row_kind" where
  "kind_of_unlisted l =
     (if list_all (\<lambda>c. (65 \<le> (of_char c :: nat) \<and> (of_char c :: nat) \<le> 90) \<or> c = CHR ''_'') l
      then KSystem else KUser)"

definition label_rowid :: "label_row list \<Rightarrow> label_id \<Rightarrow> label_row list" where
  "label_rowid rows l =
     (if l \<in> lr_gmail_id ` set rows then rows
      else rows @ [\<lparr>lr_gmail_id = l, lr_name = l, lr_kind = kind_of_unlisted l,
                    lr_color_bg = None, lr_color_fg = None, lr_visible = False\<rparr>])"

text \<open>
  \<^verbatim>\<open>replace_message_labels\<close>: the labels table (which may gain placeholders) and the rows of
  \<^verbatim>\<open>message_labels\<close> inserted so far; \<^verbatim>\<open>INSERT OR IGNORE\<close> keeps the first of two equal labels.
\<close>

fun insert_message_labels ::
    "label_row list \<Rightarrow> label_id list \<Rightarrow> label_id list \<Rightarrow> (store_error, label_row list \<times> label_id list) result" where
  "insert_message_labels rows acc [] = Ok (rows, acc)"
| "insert_message_labels rows acc (l # ls) =
     (if l = ARCHIVE_LABEL then Err (InvalidData ''@archive is virtual and cannot be applied'')
      else insert_message_labels (label_rowid rows l) (if l \<in> set acc then acc else acc @ [l]) ls)"

definition replace_message_labels ::
    "mail_store \<Rightarrow> int \<Rightarrow> label_id list \<Rightarrow> (store_error, mail_store) result" where
  "replace_message_labels db rowid ls =
     (case insert_message_labels (labels db) [] ls of
        Inl e \<Rightarrow> Err e
      | Inr (rows, acc) \<Rightarrow>
          Ok (db\<lparr>labels := rows,
                 messages := sql_update (\<lambda>m. m_id m = rowid) (\<lambda>m. m\<lparr>m_labels := acc\<rparr>) (messages db)\<rparr>))"

definition label_flags :: "label_id list \<Rightarrow> message_row \<Rightarrow> message_row" where
  "label_flags ls m =
     m\<lparr>m_is_read := UNREAD \<notin> set ls, m_is_starred := STARRED \<in> set ls,
       m_is_draft := DRAFT \<in> set ls, m_is_sent_by_me := SENT \<in> set ls\<rparr>"

definition changed_labels :: "label_id list \<Rightarrow> label_id list \<Rightarrow> label_id list \<Rightarrow> label_id list" where
  "changed_labels current add remove =
     sort (remdups (filter (\<lambda>l. l \<notin> set remove) current @ add))"

definition modify_message_labels ::
    "mail_writer \<Rightarrow> message_id \<Rightarrow> label_id list \<Rightarrow> label_id list \<Rightarrow> (store_error, mail_writer \<times> bool) result" where
  "modify_message_labels w g add remove =
     (case find_message (w_db w) g of
        None \<Rightarrow> Ok (w, False)
      | Some m \<Rightarrow>
          let ls = changed_labels (m_labels m) add remove
          in (case replace_message_labels (w_db w) (m_id m) ls of
                Inl e \<Rightarrow> Err e
              | Inr db \<Rightarrow>
                  Ok (mark_thread_rowid
                        (w\<lparr>w_db := db\<lparr>messages :=
                             sql_update (\<lambda>r. m_id r = m_id m) (label_flags ls) (messages db)\<rparr>\<rparr>)
                        (m_thread m), True)))"

definition delete_message :: "mail_writer \<Rightarrow> message_id \<Rightarrow> mail_writer \<times> bool" where
  "delete_message w g =
     (case find_message (w_db w) g of
        None \<Rightarrow> (w, False)
      | Some m \<Rightarrow>
          (mark_thread_rowid
             (w\<lparr>w_db := (w_db w)\<lparr>messages_fts := sql_delete (\<lambda>r. r = m_id m) (messages_fts (w_db w)),
                                 messages := sql_delete (\<lambda>r. m_id r = m_id m) (messages (w_db w))\<rparr>\<rparr>)
             (m_thread m), True))"

definition adopt_local_copy :: "mail_writer \<Rightarrow> message_id \<Rightarrow> message_id \<Rightarrow> mail_writer" where
  "adopt_local_copy w loc sent =
     (if find_message (w_db w) sent \<noteq> None then fst (delete_message w loc)
      else case find_message (w_db w) loc of
             None \<Rightarrow> w
           | Some m \<Rightarrow>
               mark_thread_rowid
                 (w\<lparr>w_db := (w_db w)\<lparr>messages :=
                      sql_update (\<lambda>r. m_gmail_id r = loc) (\<lambda>r. r\<lparr>m_gmail_id := sent\<rparr>) (messages (w_db w))\<rparr>\<rparr>)
                 (m_thread m))"

fun upsert_label :: "label_row list \<Rightarrow> label \<Rightarrow> label_row list" where
  "upsert_label rows l =
     (let row = \<lparr>lr_gmail_id = lb_id l, lr_name = lb_name l,
                 lr_kind = (case lb_kind l of SystemLabel \<Rightarrow> KSystem | UserLabel \<Rightarrow> KUser),
                 lr_color_bg = map_option lc_background (lb_color l),
                 lr_color_fg = map_option lc_text (lb_color l),
                 lr_visible = lb_visible l\<rparr>
      in if lb_id l \<in> lr_gmail_id ` set rows
         then sql_update (\<lambda>r. lr_gmail_id r = lb_id l) (\<lambda>r. row) rows
         else rows @ [row])"

definition upsert_labels :: "mail_writer \<Rightarrow> label list \<Rightarrow> mail_writer" where
  "upsert_labels w ls = w\<lparr>w_db := (w_db w)\<lparr>labels := foldl upsert_label (labels (w_db w)) ls\<rparr>\<rparr>"

text \<open>\<^verbatim>\<open>DELETE FROM labels\<close> cascades to the label's rows in the other tables.\<close>

definition delete_label :: "mail_store \<Rightarrow> label_id \<Rightarrow> mail_store" where
  "delete_label db l =
     db\<lparr>labels := sql_delete (\<lambda>r. lr_gmail_id r = l) (labels db),
        messages := map (\<lambda>m. m\<lparr>m_labels := filter (\<lambda>x. x \<noteq> l) (m_labels m)\<rparr>) (messages db),
        thread_labels := sql_delete (\<lambda>(l', at, t). l' = l) (thread_labels db),
        label_stats := (label_stats db)(l := None)\<rparr>"

definition drop_label :: "mail_writer \<Rightarrow> label_id \<Rightarrow> mail_writer" where
  "drop_label w l =
     (let w1 = mark_threads_with_label w l in w1\<lparr>w_db := delete_label (w_db w1) l\<rparr>)"

definition retain_labels :: "mail_writer \<Rightarrow> label_id list \<Rightarrow> mail_writer" where
  "retain_labels w keep =
     foldl drop_label w
       (filter (\<lambda>l. l \<notin> set keep)
          (map lr_gmail_id (filter (\<lambda>r. lr_kind r \<noteq> KVirtual) (labels (w_db w)))))"

section \<open>Inserting and updating messages\<close>

definition ensure_thread :: "mail_store \<Rightarrow> thread_id \<Rightarrow> mail_store \<times> int" where
  "ensure_thread db g =
     (case List.find (\<lambda>r. t_gmail_id r = g) (threads db) of
        Some r \<Rightarrow> (db, t_id r)
      | None \<Rightarrow>
          let t = next_rowid t_id (threads db)
          in (db\<lparr>threads := threads db @
                [\<lparr>t_id = t, t_gmail_id = g, t_subject = [], t_snippet = [], t_first_message_at = 0,
                  t_last_message_at = 0, t_message_count = 0, t_unread_count = 0, t_has_attachments = False,
                  t_is_starred = False, t_participants = [], t_label_ids = []\<rparr>]\<rparr>, t))"

definition coalesce :: "'a option \<Rightarrow> 'a option \<Rightarrow> 'a option" where
  "coalesce a b = (case a of None \<Rightarrow> b | Some x \<Rightarrow> Some x)"

definition incoming_head :: "incoming_message \<Rightarrow> message_head" where
  "incoming_head m =
     \<lparr>mh_rfc822 = im_rfc822_message_id m, mh_in_reply_to = im_in_reply_to m, mh_references = im_references m,
      mh_from_name = Option.bind (im_from m) ea_name, mh_from_email = map_option ea_email (im_from m),
      mh_subject = im_subject m, mh_snippet = im_snippet m, mh_date = im_date m,
      mh_internal_date = im_internal_date m, mh_size_estimate = im_size_estimate m,
      mh_headers_json = im_headers_json m, mh_list = im_list m\<rparr>"

definition updated_head :: "incoming_message \<Rightarrow> message_head \<Rightarrow> message_head" where
  "updated_head m old =
     (incoming_head m)\<lparr>
       mh_snippet := (if im_body m \<noteq> None \<or> im_snippet m \<noteq> [] then im_snippet m else mh_snippet old),
       mh_headers_json := coalesce (im_headers_json m) (mh_headers_json old),
       mh_list := \<lparr>lh_id = coalesce (lh_id (im_list m)) (lh_id (mh_list old)),
                   lh_name = coalesce (lh_name (im_list m)) (lh_name (mh_list old)),
                   lh_unsubscribe = coalesce (lh_unsubscribe (im_list m)) (lh_unsubscribe (mh_list old)),
                   lh_unsubscribe_post =
                     coalesce (lh_unsubscribe_post (im_list m)) (lh_unsubscribe_post (mh_list old))\<rparr>\<rparr>"

definition eq_nocase :: "string \<Rightarrow> string \<Rightarrow> bool" where
  "eq_nocase a b \<longleftrightarrow> to_ascii_lowercase a = to_ascii_lowercase b"

fun upsert_contact :: "contact_row list \<Rightarrow> email_address \<Rightarrow> int \<Rightarrow> int \<Rightarrow> millis \<Rightarrow> contact_row list" where
  "upsert_contact cs a sent received at =
     (if list_ex (\<lambda>c. eq_nocase (c_email c) (ea_email a)) cs
      then sql_update (\<lambda>c. eq_nocase (c_email c) (ea_email a))
             (\<lambda>c. c\<lparr>c_name := coalesce (ea_name a) (c_name c), c_sent_count := c_sent_count c + sent,
                    c_received_count := c_received_count c + received, c_last_seen := max (c_last_seen c) at\<rparr>) cs
      else cs @ [\<lparr>c_email = ea_email a, c_name = ea_name a, c_sent_count = sent,
                  c_received_count = received, c_last_seen = at\<rparr>])"

definition record_contacts :: "mail_store \<Rightarrow> incoming_message \<Rightarrow> bool \<Rightarrow> mail_store" where
  "record_contacts db m sent_by_me =
     db\<lparr>contacts :=
       (if sent_by_me
        then foldl (\<lambda>cs a. upsert_contact cs a 1 0 (im_internal_date m)) (contacts db) (im_to m @ im_cc m @ im_bcc m)
        else (case im_from m of None \<Rightarrow> contacts db
                              | Some a \<Rightarrow> upsert_contact (contacts db) a 0 1 (im_internal_date m)))\<rparr>"

text \<open>SQLite's \<^verbatim>\<open>LIKE 'local-%'\<close> ignores the case of ASCII letters.\<close>

definition like_local :: "message_id \<Rightarrow> bool" where
  "like_local g \<longleftrightarrow> prefix LOCAL_PREFIX (to_ascii_lowercase g)"

definition replace_local_copies :: "mail_writer \<Rightarrow> incoming_message \<Rightarrow> mail_writer" where
  "replace_local_copies w m =
     (case im_rfc822_message_id m of
        None \<Rightarrow> w
      | Some rfc \<Rightarrow>
          if prefix LOCAL_PREFIX (im_id m) then w
          else foldl (\<lambda>w g. fst (delete_message w g)) w
                 (map m_gmail_id (filter (\<lambda>r. mh_rfc822 (m_head r) = Some rfc \<and> like_local (m_gmail_id r))
                    (messages (w_db w)))))"

definition enumerate_role :: "role \<Rightarrow> email_address list \<Rightarrow> (role \<times> nat \<times> email_address) list" where
  "enumerate_role r as = map (\<lambda>(i, a). (r, i, a)) (enumerate 0 as)"

definition incoming_participants :: "incoming_message \<Rightarrow> (role \<times> nat \<times> email_address) list" where
  "incoming_participants m =
     enumerate_role RFrom (case im_from m of None \<Rightarrow> [] | Some a \<Rightarrow> [a]) @
     enumerate_role RTo (im_to m) @ enumerate_role RCc (im_cc m) @
     enumerate_role RBcc (im_bcc m) @ enumerate_role RReplyTo (im_reply_to m)"

definition incoming_attachments :: "incoming_message \<Rightarrow> incoming_attachment list" where
  "incoming_attachments m =
     map (\<lambda>a. a\<lparr>at_mime_type := (if at_mime_type a = [] then ''application/octet-stream'' else at_mime_type a)\<rparr>)
       (im_attachments m)"

definition index_message :: "mail_store \<Rightarrow> int \<Rightarrow> mail_store" where
  "index_message db rowid =
     db\<lparr>messages_fts := sql_delete (\<lambda>r. r = rowid) (messages_fts db) @ [rowid]\<rparr>"

definition upsert_label_ids :: "mail_writer \<Rightarrow> message_row option \<Rightarrow> incoming_message \<Rightarrow> label_id list" where
  "upsert_label_ids w existing m =
     (case existing of
        None \<Rightarrow> im_label_ids m
      | Some old \<Rightarrow>
          (case w_stored_labels w of
             ReplaceLabels \<Rightarrow> im_label_ids m
           | KeepLabels \<Rightarrow> m_labels old
           | MergeLabels merge \<Rightarrow> merge (m_labels old) (im_label_ids m)))"

definition upsert_body_state :: "message_row option \<Rightarrow> incoming_message \<Rightarrow> body_state" where
  "upsert_body_state existing m =
     (case (im_body m, existing) of
        (Some _, _) \<Rightarrow> Full
      | (None, Some old) \<Rightarrow> m_body_state old
      | (None, None) \<Rightarrow> Metadata)"

definition has_real_attachment :: "incoming_message \<Rightarrow> bool" where
  "has_real_attachment m = list_ex (\<lambda>a. \<not> at_is_inline a) (im_attachments m)"

text \<open>The existing row updated in place, after its old thread was marked when it moved.\<close>

definition upsert_update :: "mail_writer \<Rightarrow> message_row \<Rightarrow> int \<Rightarrow> label_id list \<Rightarrow> incoming_message \<Rightarrow> mail_writer" where
  "upsert_update w old t ls m =
     (let w1 = (if m_thread old \<noteq> t then mark_thread_rowid w (m_thread old) else w)
      in w1\<lparr>w_db := (w_db w1)\<lparr>messages :=
           sql_update (\<lambda>r. m_id r = m_id old)
             (\<lambda>r. label_flags ls (r\<lparr>m_thread := t, m_head := updated_head m (m_head r),
                     m_body_state := upsert_body_state (Some old) m,
                     m_has_attachments := (if im_body m \<noteq> None then has_real_attachment m else m_has_attachments r)\<rparr>))
             (messages (w_db w1))\<rparr>\<rparr>)"

definition upsert_insert :: "mail_writer \<Rightarrow> int \<Rightarrow> label_id list \<Rightarrow> incoming_message \<Rightarrow> mail_writer \<times> int" where
  "upsert_insert w t ls m =
     (let rowid = next_rowid m_id (messages (w_db w));
          row = label_flags ls
            \<lparr>m_id = rowid, m_thread = t, m_gmail_id = im_id m, m_head = incoming_head m,
             m_body_state = upsert_body_state None m, m_is_read = False, m_is_starred = False,
             m_is_draft = False, m_is_sent_by_me = False, m_has_attachments = has_real_attachment m,
             m_labels = [], m_participants = [], m_body = None, m_attachments = []\<rparr>;
          db = (w_db w)\<lparr>messages := messages (w_db w) @ [row]\<rparr>
      in (replace_local_copies (w\<lparr>w_db := record_contacts db m (SENT \<in> set ls)\<rparr>) m, rowid))"

text \<open>
  What follows for both: participants, labels, body and attachments, the index, and the
  thread marked. A row that is gone by then (a provider id that only \<^verbatim>\<open>LIKE\<close> takes for a local
  copy) violates the foreign key of the tables below it.
\<close>

definition upsert_rest ::
    "mail_writer \<Rightarrow> int \<Rightarrow> int \<Rightarrow> label_id list \<Rightarrow> incoming_message \<Rightarrow> (store_error, mail_writer) result" where
  "upsert_rest w rowid t ls m =
     (if rowid \<notin> m_id ` set (messages (w_db w)) then Err (Sqlite ''FOREIGN KEY constraint failed'')
      else let db1 = (w_db w)\<lparr>messages := sql_update (\<lambda>r. m_id r = rowid)
                        (\<lambda>r. r\<lparr>m_participants := incoming_participants m\<rparr>) (messages (w_db w))\<rparr>
      in (case replace_message_labels db1 rowid ls of
            Inl e \<Rightarrow> Err e
          | Inr db2 \<Rightarrow>
              let db3 = (case im_body m of
                           None \<Rightarrow> db2
                         | Some b \<Rightarrow> db2\<lparr>messages := sql_update (\<lambda>r. m_id r = rowid)
                             (\<lambda>r. r\<lparr>m_body := Some b, m_attachments := incoming_attachments m\<rparr>) (messages db2)\<rparr>)
              in Ok (w\<lparr>w_db := index_message db3 rowid,
                       w_dirty := btree_insert t (im_thread_id m) (w_dirty w)\<rparr>)))"

definition upsert_message :: "mail_writer \<Rightarrow> incoming_message \<Rightarrow> (store_error, mail_writer) result" where
  "upsert_message w m =
     (let (db, t) = ensure_thread (w_db w) (im_thread_id m);
          w0 = w\<lparr>w_db := db\<rparr>;
          existing = find_message db (im_id m);
          ls = upsert_label_ids w0 existing m
      in case existing of
           Some old \<Rightarrow> upsert_rest (upsert_update w0 old t ls m) (m_id old) t ls m
         | None \<Rightarrow> (let (w1, rowid) = upsert_insert w0 t ls m in upsert_rest w1 rowid t ls m))"

fun recompute_all ::
    "mail_store \<Rightarrow> (int \<times> thread_id) list \<Rightarrow> thread_changes \<Rightarrow> (store_error, mail_store \<times> thread_changes) result" where
  "recompute_all db [] ch = Ok (db, ch)"
| "recompute_all db ((t, g) # ds) ch =
     (case recompute_thread db t g ch of
        Inl e \<Rightarrow> Err e
      | Inr (db', ch') \<Rightarrow> recompute_all db' ds ch')"

definition finish :: "mail_writer \<Rightarrow> (store_error, mail_store \<times> thread_changes) result" where
  "finish w = recompute_all (w_db w) (w_dirty w) Map.empty"

end
