(* ===== verification/Consistency.thy ===== *)
theory Consistency
  imports Store
begin

text \<open>
  The invariant of the mail store and that its writer keeps it. The denormalised data
  (thread aggregates, mailbox rows, sidebar counters, the index) always agrees with the base
  tables, up to the threads a writer has marked; recomputing a marked thread settles it
  and keeps the counters exact, so \<open>finish\<close> returns a store in which \<^verbatim>\<open>consistency.rs\<close> finds
  nothing to report.
\<close>

section \<open>Counting\<close>

definition tally :: "(int \<Rightarrow> bool) \<Rightarrow> label_id \<Rightarrow> (label_id \<times> millis \<times> int) list \<Rightarrow> int" where
  "tally P l rows = int (length (filter (\<lambda>(l', at, t). l' = l \<and> P t) rows))"

definition cat_tally :: "(thread_row \<Rightarrow> bool) \<Rightarrow> label_id \<Rightarrow> thread_row list \<Rightarrow> int" where
  "cat_tally P c rows = int (length (filter (\<lambda>r. inbox_category (t_label_ids r) = Some c \<and> P r) rows))"

definition thread_unread :: "mail_store \<Rightarrow> int \<Rightarrow> bool" where
  "thread_unread db t = fst (old_thread_state db t)"

definition stats_of :: "mail_store \<Rightarrow> label_id \<Rightarrow> int \<times> int" where
  "stats_of db l = (case label_stats db l of None \<Rightarrow> (0, 0) | Some p \<Rightarrow> p)"

definition category_of :: "mail_store \<Rightarrow> label_id \<Rightarrow> int \<times> int" where
  "category_of db c = (case inbox_category_stats db c of None \<Rightarrow> (0, 0) | Some p \<Rightarrow> p)"

definition stats_ok :: "mail_store \<Rightarrow> bool" where
  "stats_ok db \<longleftrightarrow> (\<forall>l. stats_of db l =
     (tally (\<lambda>_. True) l (thread_labels db), tally (thread_unread db) l (thread_labels db)))"

definition categories_ok :: "mail_store \<Rightarrow> bool" where
  "categories_ok db \<longleftrightarrow> (\<forall>c. category_of db c =
     (cat_tally (\<lambda>_. True) c (threads db), cat_tally (\<lambda>r. 0 < t_unread_count r) c (threads db)))"

section \<open>The invariants\<close>

abbreviation label_thread :: "label_id \<times> millis \<times> int \<Rightarrow> label_id \<times> int" where
  "label_thread \<equiv> \<lambda>(l, at, t). (l, t)"

definition thread_rows :: "mail_store \<Rightarrow> int \<Rightarrow> (label_id \<times> millis \<times> int) list" where
  "thread_rows db t = filter (\<lambda>(l, at, t'). t' = t) (thread_labels db)"

definition message_ok :: "mail_store \<Rightarrow> message_row \<Rightarrow> bool" where
  "message_ok db m \<longleftrightarrow>
     m_thread m \<in> t_id ` set (threads db) \<and> distinct (m_labels m) \<and>
     ARCHIVE_LABEL \<notin> set (m_labels m) \<and> set (m_labels m) \<subseteq> lr_gmail_id ` set (labels db)"

definition labels_ok :: "label_row list \<Rightarrow> bool" where
  "labels_ok rows \<longleftrightarrow>
     distinct (map lr_gmail_id rows) \<and> ARCHIVE_LABEL \<in> lr_gmail_id ` set rows \<and>
     (\<forall>r \<in> set rows. lr_kind r = KVirtual \<longleftrightarrow> lr_gmail_id r = ARCHIVE_LABEL)"

definition struct_ok :: "mail_store \<Rightarrow> bool" where
  "struct_ok db \<longleftrightarrow>
     labels_ok (labels db) \<and>
     distinct (map t_id (threads db)) \<and> distinct (map t_gmail_id (threads db)) \<and>
     distinct (map m_id (messages db)) \<and> distinct (map m_gmail_id (messages db)) \<and>
     (\<forall>m \<in> set (messages db). message_ok db m) \<and>
     distinct (map label_thread (thread_labels db)) \<and>
     (\<forall>(l, at, t) \<in> set (thread_labels db). t \<in> t_id ` set (threads db) \<and> l \<in> lr_gmail_id ` set (labels db))"

text \<open>The index covers the messages, except the rows of \<open>F\<close> still to be indexed.\<close>

definition index_ok :: "int set \<Rightarrow> mail_store \<Rightarrow> bool" where
  "index_ok F db \<longleftrightarrow> distinct (messages_fts db) \<and> set (messages_fts db) = m_id ` set (messages db) - F"

definition thread_ok :: "mail_store \<Rightarrow> int \<Rightarrow> bool" where
  "thread_ok db t \<longleftrightarrow>
     (\<exists>r. find_thread db t = Some r \<and> thread_messages db t \<noteq> [] \<and>
          r = thread_aggregates (thread_messages db t) (thread_label_ids db t) r \<and>
          set (thread_rows db t) = (\<lambda>l. (l, t_last_message_at r, t)) ` set (thread_mailboxes db t))"

definition store_ok :: "mail_store \<Rightarrow> bool" where
  "store_ok db \<longleftrightarrow> struct_ok db \<and> index_ok {} db \<and> stats_ok db \<and> categories_ok db \<and> (\<forall>r \<in> set (threads db). thread_ok db (t_id r))"

text \<open>
  The invariant while a writer is at work: the threads outside \<open>X\<close> that are not marked in
  \<open>ds\<close> are settled. Between operations \<open>X\<close> and \<open>F\<close> are empty.
\<close>

definition pending_ok :: "int set \<Rightarrow> int set \<Rightarrow> mail_store \<Rightarrow> (int \<times> thread_id) list \<Rightarrow> bool" where
  "pending_ok X F db ds \<longleftrightarrow>
     struct_ok db \<and> index_ok F db \<and> stats_ok db \<and> categories_ok db \<and> sorted_wrt (<) (map fst ds) \<and>
     (\<forall>(t, g) \<in> set ds. \<exists>r \<in> set (threads db). t_id r = t \<and> t_gmail_id r = g) \<and>
     (\<forall>r \<in> set (threads db). t_id r \<notin> X \<union> fst ` set ds \<longrightarrow> thread_ok db (t_id r))"

definition writer_ok :: "mail_writer \<Rightarrow> bool" where
  "writer_ok w \<longleftrightarrow> pending_ok {} {} (w_db w) (w_dirty w)"

interpretation threads_table: keyed_table t_id "\<lambda>f. \<forall>r. t_id (f r) = t_id r"
  by unfold_locales simp

interpretation messages_table: keyed_table m_id "\<lambda>f. \<forall>r. m_id (f r) = m_id r"
  by unfold_locales simp

section \<open>Counting lemmas\<close>

lemma tally_Nil [simp]: "tally P l [] = 0"
  by (simp add: tally_def)

lemma tally_append [simp]: "tally P l (xs @ ys) = tally P l xs + tally P l ys"
  by (simp add: tally_def)

lemma tally_split:
  "tally P l rows = tally P l (filter (\<lambda>(l, at, t'). t' \<noteq> t) rows) + tally P l (filter (\<lambda>(l, at, t'). t' = t) rows)"
  by (induction rows) (auto simp: tally_def)

lemma tally_own:
  "distinct (map label_thread rows) \<Longrightarrow>
   tally P l (filter (\<lambda>(l, at, t'). t' = t) rows) =
     of_bool (l \<in> fst ` set (filter (\<lambda>(l, at, t'). t' = t) rows) \<and> P t)"
proof (induction rows)
  case (Cons row rows)
  obtain l' at t' where row: "row = (l', at, t')" by (cases row)
  have notin: "l' \<notin> fst ` set (filter (\<lambda>(l, at, t'). t' = t) rows)" if "t' = t"
    using Cons.prems that by (force simp: row)
  from Cons row notin show ?case
    by (cases "t' = t"; cases "l' = l") (auto simp: tally_def)
qed simp

lemma tally_cong:
  "(\<And>l at t. (l, at, t) \<in> set rows \<Longrightarrow> P t = Q t) \<Longrightarrow> tally P l rows = tally Q l rows"
  unfolding tally_def by (intro arg_cong [where f = int] arg_cong [where f = length] filter_cong) auto

lemma cat_tally_append [simp]: "cat_tally P c (xs @ ys) = cat_tally P c xs + cat_tally P c ys"
  by (simp add: cat_tally_def)

lemma cat_tally_split:
  "distinct (map t_id rows) \<Longrightarrow> r \<in> set rows \<Longrightarrow>
   cat_tally P c rows = cat_tally P c (filter (\<lambda>x. t_id x \<noteq> t_id r) rows) +
     of_bool (inbox_category (t_label_ids r) = Some c \<and> P r)"
proof (induction rows)
  case (Cons x rows)
  show ?case
  proof (cases "x = r")
    case True
    with Cons.prems have "t_id r \<notin> t_id ` set rows" by auto
    then have "filter (\<lambda>x. t_id x \<noteq> t_id r) rows = rows"
      by (intro filter_True) (metis image_eqI)
    with True show ?thesis by (simp add: cat_tally_def)
  next
    case False
    with Cons.prems have "t_id x \<noteq> t_id r" and "r \<in> set rows" by auto
    with Cons show ?thesis by (auto simp: cat_tally_def)
  qed
qed simp

section \<open>Withdrawing and entering a thread\<close>

lemma remove_thread_label_frame [simp]:
  "threads (remove_thread_label db l t u) = threads db"
  "messages (remove_thread_label db l t u) = messages db"
  "labels (remove_thread_label db l t u) = labels db"
  "inbox_category_stats (remove_thread_label db l t u) = inbox_category_stats db"
  "messages_fts (remove_thread_label db l t u) = messages_fts db"
  "contacts (remove_thread_label db l t u) = contacts db"
  by (simp_all add: remove_thread_label_def)

lemma add_thread_label_frame [simp]:
  "threads (add_thread_label db l at t u) = threads db"
  "messages (add_thread_label db l at t u) = messages db"
  "labels (add_thread_label db l at t u) = labels db"
  "inbox_category_stats (add_thread_label db l at t u) = inbox_category_stats db"
  "messages_fts (add_thread_label db l at t u) = messages_fts db"
  "contacts (add_thread_label db l at t u) = contacts db"
  by (simp_all add: add_thread_label_def)

lemma count_inbox_category_frame [simp]:
  "threads (count_inbox_category db c n u) = threads db"
  "messages (count_inbox_category db c n u) = messages db"
  "labels (count_inbox_category db c n u) = labels db"
  "thread_labels (count_inbox_category db c n u) = thread_labels db"
  "label_stats (count_inbox_category db c n u) = label_stats db"
  "messages_fts (count_inbox_category db c n u) = messages_fts db"
  "contacts (count_inbox_category db c n u) = contacts db"
  by (simp_all add: count_inbox_category_def)

lemma foldl_remove_frame [simp]:
  "threads (foldl (\<lambda>d l. remove_thread_label d l t u) db ls) = threads db"
  "messages (foldl (\<lambda>d l. remove_thread_label d l t u) db ls) = messages db"
  "labels (foldl (\<lambda>d l. remove_thread_label d l t u) db ls) = labels db"
  "inbox_category_stats (foldl (\<lambda>d l. remove_thread_label d l t u) db ls) = inbox_category_stats db"
  "messages_fts (foldl (\<lambda>d l. remove_thread_label d l t u) db ls) = messages_fts db"
  by (induction ls arbitrary: db) simp_all

lemma foldl_add_frame [simp]:
  "threads (foldl (\<lambda>d l. add_thread_label d l at t u) db ls) = threads db"
  "messages (foldl (\<lambda>d l. add_thread_label d l at t u) db ls) = messages db"
  "labels (foldl (\<lambda>d l. add_thread_label d l at t u) db ls) = labels db"
  "inbox_category_stats (foldl (\<lambda>d l. add_thread_label d l at t u) db ls) = inbox_category_stats db"
  "messages_fts (foldl (\<lambda>d l. add_thread_label d l at t u) db ls) = messages_fts db"
  by (induction ls arbitrary: db) simp_all

lemma foldl_remove_rows:
  "thread_labels (foldl (\<lambda>d l. remove_thread_label d l t u) db ls) =
     filter (\<lambda>(l, at, t'). \<not> (l \<in> set ls \<and> t' = t)) (thread_labels db)"
proof (induction ls arbitrary: db)
  case (Cons a ls)
  have "thread_labels (remove_thread_label db a t u) =
      filter (\<lambda>(l, at, t'). \<not> (l = a \<and> t' = t)) (thread_labels db)"
    by (auto simp: remove_thread_label_def sql_delete_def intro!: filter_cong)
  then show ?case
    by (auto simp: Cons.IH intro!: filter_cong)
qed simp

lemma remove_all_rows:
  "thread_labels (foldl (\<lambda>d l. remove_thread_label d l t u) db (old_mailboxes db t)) =
     filter (\<lambda>(l, at, t'). t' \<noteq> t) (thread_labels db)"
proof -
  have "filter (\<lambda>(l, at, t'). \<not> (l \<in> set (old_mailboxes db t) \<and> t' = t)) (thread_labels db) =
      filter (\<lambda>(l, at, t'). t' \<noteq> t) (thread_labels db)"
    by (rule filter_cong) (force simp: old_mailboxes_def)+
  then show ?thesis by (simp add: foldl_remove_rows)
qed

lemma stats_of_remove:
  "label_stats db l \<noteq> None \<Longrightarrow>
   stats_of (remove_thread_label db l t u) x =
     (if x = l then (fst (stats_of db x) - 1, snd (stats_of db x) - of_bool u) else stats_of db x)"
  by (auto simp: stats_of_def remove_thread_label_def)

lemma label_stats_remove_None:
  "label_stats (remove_thread_label db l t u) x = None \<longleftrightarrow> label_stats db x = None"
  by (auto simp: remove_thread_label_def split: option.splits)

lemma stats_of_foldl_remove:
  "distinct ls \<Longrightarrow> (\<And>l. l \<in> set ls \<Longrightarrow> label_stats db l \<noteq> None) \<Longrightarrow>
   stats_of (foldl (\<lambda>d l. remove_thread_label d l t u) db ls) x =
     (if x \<in> set ls then (fst (stats_of db x) - 1, snd (stats_of db x) - of_bool u) else stats_of db x)"
proof (induction ls arbitrary: db)
  case (Cons a ls)
  have "label_stats (remove_thread_label db a t u) l \<noteq> None" if "l \<in> set ls" for l
    using Cons.prems(2) [of l] that by (simp add: label_stats_remove_None)
  with Cons.prems Cons.IH [of "remove_thread_label db a t u"] show ?case
    by (auto simp: stats_of_remove)
qed simp

lemma stats_of_foldl_add:
  "distinct ls \<Longrightarrow>
   stats_of (foldl (\<lambda>d l. add_thread_label d l at t u) db ls) x =
     (if x \<in> set ls then (fst (stats_of db x) + 1, snd (stats_of db x) + of_bool u) else stats_of db x)"
proof (induction ls arbitrary: db)
  case (Cons a ls)
  have "stats_of (add_thread_label db a at t u) x =
      (if x = a then (fst (stats_of db x) + 1, snd (stats_of db x) + of_bool u) else stats_of db x)"
    by (auto simp: stats_of_def add_thread_label_def split: option.splits)
  with Cons show ?case by auto
qed simp

lemma foldl_add_rows:
  "thread_labels (foldl (\<lambda>d l. add_thread_label d l at t u) db ls) =
     thread_labels db @ map (\<lambda>l. (l, at, t)) ls"
  by (induction ls arbitrary: db) (simp_all add: add_thread_label_def)

lemma category_of_count:
  "category_of (count_inbox_category db c n u) x =
     (if x = c then (fst (category_of db x) + n, snd (category_of db x) + u) else category_of db x)"
  by (auto simp: category_of_def count_inbox_category_def split: option.splits)

lemma stats_of_count [simp]: "stats_of (count_inbox_category db c n u) = stats_of db"
  by (rule ext) (simp add: stats_of_def)

lemma old_mailboxes_alt: "old_mailboxes db t = map fst (thread_rows db t)"
  by (simp add: old_mailboxes_def thread_rows_def)

lemma distinct_own_labels:
  "distinct (map label_thread rows) \<Longrightarrow> distinct (map fst (filter (\<lambda>(l, at, t'). t' = t) rows))"
proof (induction rows)
  case (Cons row rows)
  then show ?case by (cases row) (auto, force)
qed simp

lemma distinct_old_mailboxes:
  "distinct (map label_thread (thread_labels db)) \<Longrightarrow> distinct (old_mailboxes db t)"
  unfolding old_mailboxes_def by (rule distinct_own_labels)

lemma stored_mailbox_counted:
  assumes "stats_ok db" "l \<in> set (old_mailboxes db t)"
  shows "label_stats db l \<noteq> None"
proof
  assume "label_stats db l = None"
  with assms(1) have "tally (\<lambda>_. True) l (thread_labels db) = 0"
    by (simp add: stats_ok_def stats_of_def) (metis fst_conv option.simps(4))
  with assms(2) show False
    by (auto simp: tally_def old_mailboxes_def filter_empty_conv)
qed

lemma withdraw_frame [simp]:
  "threads (withdraw_thread db t) = threads db"
  "messages (withdraw_thread db t) = messages db"
  "labels (withdraw_thread db t) = labels db"
  "messages_fts (withdraw_thread db t) = messages_fts db"
  by (simp_all add: withdraw_thread_def Let_def split_beta split: option.split)

lemma withdraw_rows [simp]:
  "thread_labels (withdraw_thread db t) = filter (\<lambda>(l, at, t'). t' \<noteq> t) (thread_labels db)"
  by (simp add: withdraw_thread_def Let_def split_beta remove_all_rows split: option.split)

lemma withdraw_stats:
  assumes "stats_ok db" "distinct (map label_thread (thread_labels db))"
  shows "stats_of (withdraw_thread db t) l =
    (tally (\<lambda>_. True) l (filter (\<lambda>(l, at, t'). t' \<noteq> t) (thread_labels db)),
     tally (thread_unread db) l (filter (\<lambda>(l, at, t'). t' \<noteq> t) (thread_labels db)))"
proof -
  let ?u = "fst (old_thread_state db t)"
  let ?own = "filter (\<lambda>(l, at, t'). t' = t) (thread_labels db)"
  have "stats_of (withdraw_thread db t) l =
      stats_of (foldl (\<lambda>d l. remove_thread_label d l t ?u) db (old_mailboxes db t)) l"
    by (cases "inbox_category (snd (old_thread_state db t))") (simp_all add: withdraw_thread_def Let_def split_beta)
  also have "\<dots> = (if l \<in> set (old_mailboxes db t)
      then (fst (stats_of db l) - 1, snd (stats_of db l) - of_bool ?u) else stats_of db l)"
    using assms by (intro stats_of_foldl_remove distinct_old_mailboxes stored_mailbox_counted)
  also have "set (old_mailboxes db t) = fst ` set ?own" by (simp add: old_mailboxes_def)
  finally show ?thesis
    using assms(1) tally_split [of "\<lambda>_. True" l "thread_labels db" t]
      tally_split [of "thread_unread db" l "thread_labels db" t]
      tally_own [OF assms(2), of "\<lambda>_. True" l t] tally_own [OF assms(2), of "thread_unread db" l t]
    by (simp add: stats_ok_def thread_unread_def)
qed

lemma withdraw_categories:
  assumes "categories_ok db" "distinct (map t_id (threads db))" "r \<in> set (threads db)"
  shows "category_of (withdraw_thread db (t_id r)) c =
    (cat_tally (\<lambda>_. True) c (filter (\<lambda>x. t_id x \<noteq> t_id r) (threads db)),
     cat_tally (\<lambda>r. 0 < t_unread_count r) c (filter (\<lambda>x. t_id x \<noteq> t_id r) (threads db)))"
proof -
  have old: "old_thread_state db (t_id r) = (0 < t_unread_count r, t_label_ids r)"
    using threads_table.find_key [OF assms(2,3)] by (simp add: old_thread_state_def find_thread_def)
  have "category_of (foldl (\<lambda>d l. remove_thread_label d l (t_id r) u) db ls) x = category_of db x" for u ls x
    by (simp add: category_of_def)
  with assms(1) show ?thesis
    using cat_tally_split [OF assms(2,3), of "\<lambda>_. True" c]
      cat_tally_split [OF assms(2,3), of "\<lambda>r. 0 < t_unread_count r" c]
    by (auto simp: withdraw_thread_def Let_def old category_of_count categories_ok_def split: option.split)
qed

lemma enter_frame [simp]:
  "threads (enter_thread db t new ls at u) = threads db"
  "messages (enter_thread db t new ls at u) = messages db"
  "labels (enter_thread db t new ls at u) = labels db"
  "messages_fts (enter_thread db t new ls at u) = messages_fts db"
  "thread_labels (enter_thread db t new ls at u) = thread_labels db @ map (\<lambda>l. (l, at, t)) new"
  by (simp_all add: enter_thread_def Let_def foldl_add_rows split: option.split)

lemma enter_stats:
  "distinct new \<Longrightarrow>
   stats_of (enter_thread db t new ls at u) l =
     (if l \<in> set new then (fst (stats_of db l) + 1, snd (stats_of db l) + of_bool u) else stats_of db l)"
  by (simp add: stats_of_foldl_add [symmetric, where at = at and t = t])
     (cases "inbox_category ls"; simp add: enter_thread_def Let_def)

lemma enter_categories:
  "category_of (enter_thread db t new ls at u) c =
     (if inbox_category ls = Some c then (fst (category_of db c) + 1, snd (category_of db c) + of_bool u)
      else category_of db c)"
proof -
  have "category_of (foldl (\<lambda>d l. add_thread_label d l at t u) db new) x = category_of db x" for x
    by (simp add: category_of_def)
  then show ?thesis
    by (auto simp: enter_thread_def Let_def category_of_count split: option.split)
qed

section \<open>Recomputing a thread settles it\<close>

lemma filter_others_update:
  "(\<And>r. t_id (f r) = t_id r) \<Longrightarrow>
   filter (\<lambda>x. t_id x \<noteq> t) (sql_update (\<lambda>x. t_id x = t) f rows) = filter (\<lambda>x. t_id x \<noteq> t) rows"
  by (induction rows) (auto simp: sql_update_def)

lemma thread_aggregates_frame [simp]:
  "t_id (thread_aggregates ms ls r) = t_id r"
  "t_gmail_id (thread_aggregates ms ls r) = t_gmail_id r"
  "t_label_ids (thread_aggregates ms ls r) = ls"
  "t_unread_count (thread_aggregates ms ls r) = int (length (filter (\<lambda>m. \<not> m_is_read m) ms))"
  "t_last_message_at (thread_aggregates ms ls r) = last_counted_at ms"
  by (simp_all add: thread_aggregates_def last_counted_at_def Let_def)

lemma thread_aggregates_idem [simp]:
  "thread_aggregates ms ls (thread_aggregates ms ls r) = thread_aggregates ms ls r"
  by (simp add: thread_aggregates_def Let_def)

text \<open>What the derived lists of a thread read of the store.\<close>

lemma thread_reads_cong:
  "messages db' = messages db \<Longrightarrow> labels db' = labels db \<Longrightarrow>
   thread_messages db' t = thread_messages db t \<and> thread_label_ids db' t = thread_label_ids db t \<and>
   thread_mailboxes db' t = thread_mailboxes db t"
  by (simp add: thread_messages_def thread_label_ids_def thread_mailboxes_def wholly_spam_or_trash_def is_virtual_def)

lemma thread_ok_cong:
  assumes "thread_ok db t" "find_thread db' t = find_thread db t"
    and "thread_messages db' t = thread_messages db t" "thread_label_ids db' t = thread_label_ids db t"
    and "thread_mailboxes db' t = thread_mailboxes db t" "thread_rows db' t = thread_rows db t"
  shows "thread_ok db' t"
  using assms by (simp add: thread_ok_def)

text \<open>What recomputing thread \<open>t\<close> leaves alone.\<close>

definition others_kept :: "mail_store \<Rightarrow> mail_store \<Rightarrow> int \<Rightarrow> bool" where
  "others_kept db db' t \<longleftrightarrow>
     messages db' = messages db \<and> labels db' = labels db \<and> messages_fts db' = messages_fts db \<and>
     (\<forall>x. x \<noteq> t \<longrightarrow> find_thread db' x = find_thread db x \<and> thread_rows db' x = thread_rows db x)"

lemma others_kept_thread_ok: "others_kept db db' t \<Longrightarrow> x \<noteq> t \<Longrightarrow> thread_ok db x \<Longrightarrow> thread_ok db' x"
  by (rule thread_ok_cong) (use thread_reads_cong [of db' db x] in \<open>auto simp: others_kept_def\<close>)

definition settled :: "mail_store \<Rightarrow> mail_store \<Rightarrow> int \<Rightarrow> bool" where
  "settled db db' t \<longleftrightarrow>
     struct_ok db' \<and> stats_ok db' \<and> categories_ok db' \<and> others_kept db db' t \<and>
     (\<forall>r \<in> set (threads db'). \<exists>r0 \<in> set (threads db). t_id r0 = t_id r \<and> t_gmail_id r0 = t_gmail_id r) \<and>
     (\<forall>r \<in> set (threads db). t_id r \<noteq> t \<longrightarrow> r \<in> set (threads db')) \<and>
     (if thread_messages db t = [] then t \<notin> t_id ` set (threads db') else thread_ok db' t)"

lemma find_sql_update_other:
  "x \<noteq> t \<Longrightarrow> (\<And>r. t_id (f r) = t_id r) \<Longrightarrow>
   List.find (\<lambda>r. t_id r = x) (sql_update (\<lambda>r. t_id r = t) f rows) = List.find (\<lambda>r. t_id r = x) rows"
  by (induction rows) (auto simp: sql_update_def)

lemma find_sql_delete_other:
  "x \<noteq> t \<Longrightarrow>
   List.find (\<lambda>r. t_id r = x) (sql_delete (\<lambda>r. t_id r = t) rows) = List.find (\<lambda>r. t_id r = x) rows"
  by (induction rows) (auto simp: sql_delete_def)

lemma struct_ok_facts [inv_dests]:
  assumes "struct_ok db"
  shows "labels_ok (labels db)" "distinct (map t_id (threads db))" "distinct (map t_gmail_id (threads db))"
    "distinct (map m_id (messages db))" "distinct (map m_gmail_id (messages db))"
    "\<And>m. m \<in> set (messages db) \<Longrightarrow> message_ok db m"
    "distinct (map label_thread (thread_labels db))"
    "\<And>l at t. (l, at, t) \<in> set (thread_labels db) \<Longrightarrow> t \<in> t_id ` set (threads db)"
    "\<And>l at t. (l, at, t) \<in> set (thread_labels db) \<Longrightarrow> l \<in> lr_gmail_id ` set (labels db)"
  using assms by (auto simp: struct_ok_def)

lemma thread_rows_delete [simp]:
  "thread_rows (delete_thread_row db t) x = (if x = t then [] else thread_rows db x)"
  by (auto simp: thread_rows_def delete_thread_row_def sql_delete_def filter_empty_conv intro!: filter_cong)

lemma thread_unread_cong: "find_thread db' t = find_thread db t \<Longrightarrow> thread_unread db' t = thread_unread db t"
  by (simp add: thread_unread_def old_thread_state_def)

lemma thread_messages_Nil_iff: "thread_messages db t = [] \<longleftrightarrow> (\<forall>m \<in> set (messages db). m_thread m \<noteq> t)"
proof -
  have "thread_messages db t = [] \<longleftrightarrow> set (thread_messages db t) = {}" by simp
  then show ?thesis by (auto simp: thread_messages_def simp del: set_empty)
qed

lemma delete_settles:
  assumes ok: "struct_ok db" "stats_ok db" "categories_ok db" and r: "r \<in> set (threads db)"
    and empty: "thread_messages db (t_id r) = []"
  shows "settled db (delete_thread_row (withdraw_thread db (t_id r)) (t_id r)) (t_id r)"
    (is "settled db ?db' ?t")
proof -
  note s = struct_ok_facts [OF ok(1)]
  have rows: "thread_labels ?db' = filter (\<lambda>(l, at, t'). t' \<noteq> ?t) (thread_labels db)"
    by (auto simp: delete_thread_row_def sql_delete_def intro!: filter_cong)
  have msgs: "messages ?db' = messages db"
    using empty by (simp add: delete_thread_row_def sql_delete_def thread_messages_Nil_iff filter_id_conv)
  have thr: "threads ?db' = filter (\<lambda>x. t_id x \<noteq> ?t) (threads db)"
    by (simp add: delete_thread_row_def sql_delete_def)
  have frame: "labels ?db' = labels db" "messages_fts ?db' = messages_fts db"
    "stats_of ?db' = stats_of (withdraw_thread db ?t)" "category_of ?db' = category_of (withdraw_thread db ?t)"
    by (simp_all add: delete_thread_row_def stats_of_def category_of_def fun_eq_iff)
  have find: "find_thread ?db' x = find_thread db x" if "x \<noteq> ?t" for x
    using that by (simp add: find_thread_def delete_thread_row_def find_sql_delete_other)
  have kept: "t' \<in> t_id ` set (threads ?db')" if "t' \<in> t_id ` set (threads db)" "t' \<noteq> ?t" for t'
    using that by (auto simp: thr)
  have "message_ok ?db' m" if "m \<in> set (messages db)" for m
    using s(6) [OF that] empty that kept [of "m_thread m"]
    by (auto simp: message_ok_def thread_messages_Nil_iff frame(1))
  moreover have "distinct (map t_id (threads ?db'))" "distinct (map t_gmail_id (threads ?db'))"
    "distinct (map label_thread (thread_labels ?db'))"
    using s(2,3,7) by (simp_all add: thr rows distinct_map_filter)
  moreover have "t \<in> t_id ` set (threads ?db') \<and> l \<in> lr_gmail_id ` set (labels db)"
    if "(l, at, t) \<in> set (thread_labels ?db')" for l at t
    using that s(8,9) [of l at t] kept [of t] by (auto simp: rows)
  ultimately have "struct_ok ?db'"
    using s unfolding struct_ok_def msgs frame(1,2) by blast
  moreover have "stats_ok ?db'"
    unfolding stats_ok_def frame withdraw_stats [OF ok(2) s(7)] rows
    by (auto intro!: tally_cong thread_unread_cong simp: find)
  moreover have "categories_ok ?db'"
    unfolding categories_ok_def frame thr using withdraw_categories [OF ok(3) s(2) r] by simp
  moreover have "others_kept db ?db' ?t"
    by (auto simp: others_kept_def msgs frame find thread_rows_def rows intro!: filter_cong)
  ultimately show ?thesis
    using empty by (auto simp: settled_def thr)
qed

lemma set_thread_label_ids:
  "set (thread_label_ids db t) =
     {l. \<not> is_virtual db l \<and> (\<exists>m \<in> set (messages db). m_thread m = t \<and> l \<in> set (m_labels m))}"
  by (auto simp: thread_label_ids_def)

lemma archive_not_applied: "struct_ok db \<Longrightarrow> ARCHIVE_LABEL \<notin> set (thread_label_ids db t)"
  by (auto simp: set_thread_label_ids struct_ok_def message_ok_def)

lemma distinct_mailboxes: "struct_ok db \<Longrightarrow> distinct (thread_mailboxes db t)"
  using archive_not_applied [of db t] by (simp add: thread_mailboxes_def Let_def) (simp add: thread_label_ids_def)

lemma mailboxes_stored: "struct_ok db \<Longrightarrow> set (thread_mailboxes db t) \<subseteq> lr_gmail_id ` set (labels db)"
  by (auto simp: thread_mailboxes_def Let_def set_thread_label_ids struct_ok_def message_ok_def labels_ok_def)

lemma distinct_rows_enter:
  "distinct (map label_thread rows) \<Longrightarrow> distinct new \<Longrightarrow>
   distinct (map label_thread (filter (\<lambda>(l, at, t'). t' \<noteq> t) rows @ map (\<lambda>l. (l, at, t)) new))"
  by (auto simp: distinct_map_filter distinct_map inj_on_def)

lemma tally_new_rows:
  "distinct new \<Longrightarrow> tally P l (map (\<lambda>l. (l, at, t)) new) = of_bool (l \<in> set new \<and> P t)"
  by (induction new) (auto simp: tally_def)

lemma sql_update_row:
  "distinct (map t_id rows) \<Longrightarrow> r \<in> set rows \<Longrightarrow> (\<And>r. t_id (f r) = t_id r) \<Longrightarrow>
   f r \<in> set (sql_update (\<lambda>x. t_id x = t_id r) f rows) \<and>
   distinct (map t_id (sql_update (\<lambda>x. t_id x = t_id r) f rows))"
  by (auto simp: set_sql_update threads_table.keys_update)

lemma enter_settles:
  assumes ok: "struct_ok db" "stats_ok db" "categories_ok db" and r: "r \<in> set (threads db)"
    and msgs: "thread_messages db (t_id r) = ms" "ms \<noteq> []" and lids: "thread_label_ids db (t_id r) = ls"
    and boxes: "thread_mailboxes db (t_id r) = new" and u: "u = (0 < length (filter (\<lambda>m. \<not> m_is_read m) ms))"
  defines "db2 \<equiv> (withdraw_thread db (t_id r))\<lparr>threads :=
      sql_update (\<lambda>x. t_id x = t_id r) (thread_aggregates ms ls) (threads db)\<rparr>"
  shows "settled db (enter_thread db2 (t_id r) new ls (last_counted_at ms) u) (t_id r)"
    (is "settled db ?db' ?t")
proof -
  note s = struct_ok_facts [OF ok(1)]
  have u': "filter (\<lambda>m. \<not> m_is_read m) ms = [] \<longleftrightarrow> \<not> u" using u by simp
  let ?r' = "thread_aggregates ms ls r"
  have rows: "thread_labels ?db' = filter (\<lambda>(l, at, t'). t' \<noteq> ?t) (thread_labels db) @
      map (\<lambda>l. (l, last_counted_at ms, ?t)) new"
    by (simp add: db2_def)
  have frame: "messages ?db' = messages db" "labels ?db' = labels db" "messages_fts ?db' = messages_fts db"
    "threads ?db' = sql_update (\<lambda>x. t_id x = ?t) (thread_aggregates ms ls) (threads db)"
    "stats_of db2 = stats_of (withdraw_thread db ?t)" "category_of db2 = category_of (withdraw_thread db ?t)"
    by (simp_all add: db2_def stats_of_def category_of_def fun_eq_iff)
  have thr2: "threads db2 = sql_update (\<lambda>x. t_id x = ?t) (thread_aggregates ms ls) (threads db)"
    by (simp add: db2_def)
  have upd: "?r' \<in> set (threads ?db')" "distinct (map t_id (threads ?db'))"
    using sql_update_row [OF s(2) r, of "thread_aggregates ms ls"] by (simp_all add: thr2)
  have keys: "map t_id (threads ?db') = map t_id (threads db)" "map t_gmail_id (threads ?db') = map t_gmail_id (threads db)"
    by (simp_all add: thr2 sql_update_def)
  then have ids: "t_id ` set (threads ?db') = t_id ` set (threads db)" by (metis list.set_map)
  have find: "find_thread ?db' x = (if x = ?t then Some ?r' else find_thread db x)" for x
    using find_sql_update_other [of x ?t "thread_aggregates ms ls"] threads_table.find_key [OF upd(2,1)]
    by (simp add: find_thread_def thr2)
  have new: "distinct new" "set new \<subseteq> lr_gmail_id ` set (labels db)"
    using distinct_mailboxes [OF ok(1)] mailboxes_stored [OF ok(1)] boxes by blast+
  have "message_ok ?db' m" if "m \<in> set (messages db)" for m
    using s(6) [OF that] unfolding message_ok_def ids frame(2) .
  moreover have "t \<in> t_id ` set (threads db) \<and> l \<in> lr_gmail_id ` set (labels db)"
    if "(l, at, t) \<in> set (thread_labels ?db')" for l at t
    using that s(8,9) [of l at t] new(2) r unfolding rows by auto
  moreover have "distinct (map label_thread (thread_labels ?db'))"
    unfolding rows using distinct_rows_enter [OF s(7) new(1)] .
  ultimately have "struct_ok ?db'"
    using s unfolding struct_ok_def keys frame(1-3) ids by blast
  moreover have "stats_ok ?db'"
  proof -
    have "tally (thread_unread ?db') l (filter (\<lambda>(l, at, t'). t' \<noteq> ?t) (thread_labels db)) =
        tally (thread_unread db) l (filter (\<lambda>(l, at, t'). t' \<noteq> ?t) (thread_labels db))" for l
      by (rule tally_cong) (auto intro!: thread_unread_cong simp: find)
    moreover have "thread_unread ?db' ?t = u"
      by (simp add: thread_unread_def old_thread_state_def find u')
    ultimately show ?thesis
      unfolding stats_ok_def enter_stats [OF new(1)] frame withdraw_stats [OF ok(2) s(7)] rows
      by (simp add: tally_new_rows [OF new(1)])
  qed
  moreover have "categories_ok ?db'"
    unfolding categories_ok_def enter_categories frame(6) withdraw_categories [OF ok(3) s(2) r]
    using cat_tally_split [OF upd(2,1)] by (auto simp: thr2 filter_others_update u')
  moreover have "others_kept db ?db' ?t"
    unfolding others_kept_def frame(1-3) thread_rows_def rows
    by (auto simp: find filter_empty_conv intro!: filter_cong)
  moreover have "thread_rows ?db' ?t = map (\<lambda>l. (l, last_counted_at ms, ?t)) new"
    unfolding thread_rows_def rows by (auto simp: filter_empty_conv filter_id_conv)
  then have "thread_ok ?db' ?t"
    using thread_reads_cong [OF frame(1,2), of ?t] msgs(2)
    by (simp only: thread_ok_def find msgs(1) lids boxes) simp
  ultimately show ?thesis
    using msgs keys by (auto simp: settled_def thr2 set_sql_update)
qed

lemma recompute_settles:
  assumes ok: "struct_ok db" "stats_ok db" "categories_ok db" and r: "r \<in> set (threads db)"
  shows "\<exists>db' ch'. recompute_thread db (t_id r) g ch = Ok (db', ch') \<and> settled db db' (t_id r)"
proof (cases "thread_messages db (t_id r) = []")
  case True
  then show ?thesis
    using delete_settles [OF assms] by (simp add: recompute_thread_def)
next
  case False
  let ?db1 = "withdraw_thread db (t_id r)"
  let ?db2 = "?db1\<lparr>threads := sql_update (\<lambda>x. t_id x = t_id r)
      (thread_aggregates (thread_messages db (t_id r)) (thread_label_ids db (t_id r))) (threads db)\<rparr>"
  have "thread_label_ids ?db1 (t_id r) = thread_label_ids db (t_id r)"
    "thread_mailboxes ?db2 (t_id r) = thread_mailboxes db (t_id r)"
    using thread_reads_cong [of ?db1 db "t_id r"] thread_reads_cong [of ?db2 db "t_id r"] by simp_all
  moreover have "ARCHIVE_LABEL \<in> lr_gmail_id ` set (labels db)"
    using ok(1) by (simp add: struct_ok_def labels_ok_def)
  ultimately show ?thesis
    using enter_settles [OF assms refl False refl refl refl] False
    by (simp add: recompute_thread_def Let_def)
qed

section \<open>Finishing a write\<close>

lemma pending_ok_facts [inv_dests]:
  assumes "pending_ok X F db ds"
  shows "struct_ok db" "index_ok F db" "stats_ok db" "categories_ok db" "sorted_wrt (<) (map fst ds)"
    "\<And>t g. (t, g) \<in> set ds \<Longrightarrow> \<exists>r \<in> set (threads db). t_id r = t \<and> t_gmail_id r = g"
    "\<And>t. t \<in> t_id ` set (threads db) \<Longrightarrow> t \<notin> X \<Longrightarrow> t \<notin> fst ` set ds \<Longrightarrow> thread_ok db t"
  using assms by (auto simp: pending_ok_def)

lemma pending_ok_step:
  assumes ok: "pending_ok {} {} db ((t, g) # ds)" and step: "settled db db' t"
  shows "pending_ok {} {} db' ds"
proof -
  have others: "x \<noteq> t" if "(x, g') \<in> set ds" for x g'
    using ok that by (force simp: pending_ok_def)
  have "thread_ok db' (t_id r)" if r: "r \<in> set (threads db')" "t_id r \<notin> fst ` set ds" for r
  proof (cases "t_id r = t")
    case True
    with step r show ?thesis by (auto simp: settled_def split: if_splits)
  next
    case False
    from step r(1) have "t_id r \<in> t_id ` set (threads db)" unfolding settled_def by (metis image_eqI)
    with False r(2) have "thread_ok db (t_id r)" by (intro pending_ok_facts(7) [OF ok]) auto
    with step False show ?thesis by (auto simp: settled_def intro: others_kept_thread_ok)
  qed
  moreover have "\<exists>r \<in> set (threads db'). t_id r = x \<and> t_gmail_id r = g'" if "(x, g') \<in> set ds" for x g'
  proof -
    from ok that obtain r where "r \<in> set (threads db)" "t_id r = x" "t_gmail_id r = g'"
      by (auto simp: pending_ok_def)
    with step others [OF that] show ?thesis by (auto simp: settled_def)
  qed
  ultimately show ?thesis
    using ok step by (auto simp: pending_ok_def settled_def others_kept_def index_ok_def)
qed

lemma recompute_all_ok:
  "pending_ok {} {} db ds \<Longrightarrow> \<exists>db' ch'. recompute_all db ds ch = Ok (db', ch') \<and> store_ok db' \<and>
     messages db' = messages db \<and> labels db' = labels db"
proof (induction ds arbitrary: db ch)
  case Nil
  then show ?case by (simp add: pending_ok_def store_ok_def)
next
  case (Cons d ds)
  obtain t g where d: "d = (t, g)" by (cases d)
  with Cons.prems obtain r where r: "r \<in> set (threads db)" "t_id r = t"
    by (auto simp: pending_ok_def)
  with Cons.prems recompute_settles [of db r g ch] obtain db1 ch1 where
    step: "recompute_thread db t g ch = Ok (db1, ch1)" "settled db db1 t"
    by (auto simp: pending_ok_def)
  moreover from step have "messages db1 = messages db" "labels db1 = labels db"
    by (simp_all add: settled_def others_kept_def)
  ultimately show ?case
    using Cons.IH [OF pending_ok_step, of db t g db1 ch1] Cons.prems d by simp
qed

end
