(* ===== verification/Writer.thy ===== *)
theory Writer
  imports Consistency
begin

text \<open>
  Every operation of \<open>MailWriter\<close> keeps the writer's invariant, so any sequence of them
  closed by \<open>finish\<close> takes a consistent store to a consistent store.
\<close>

section \<open>Changing messages under the invariant\<close>

lemma virtual_is_archive: "struct_ok db \<Longrightarrow> is_virtual db l \<longleftrightarrow> l = ARCHIVE_LABEL"
  by (force simp: struct_ok_def labels_ok_def is_virtual_def)

definition messages_of :: "mail_store \<Rightarrow> int \<Rightarrow> message_row list" where
  "messages_of db t = filter (\<lambda>m. m_thread m = t) (messages db)"

lemma wholly_spam_alt:
  "wholly_spam_or_trash db t \<longleftrightarrow>
     (\<forall>m \<in> set (messages_of db t). \<exists>l \<in> set (m_labels m). l = SPAM \<or> l = TRASH)"
  by (auto simp: wholly_spam_or_trash_def sql_count_def messages_of_def filter_empty_conv)

lemma same_messages_thread_ok:
  assumes "struct_ok db" "struct_ok db'" "messages_of db' t = messages_of db t"
    and "find_thread db' t = find_thread db t" "thread_rows db' t = thread_rows db t" "thread_ok db t"
  shows "thread_ok db' t"
proof -
  have ids: "thread_label_ids db' t = thread_label_ids db t"
    using assms(1-3) by (simp add: thread_label_ids_def messages_of_def virtual_is_archive)
  moreover have "thread_mailboxes db' t = thread_mailboxes db t"
    by (simp add: thread_mailboxes_def ids wholly_spam_alt assms(3))
  ultimately show ?thesis
    using assms by (intro thread_ok_cong [OF assms(6)]) (simp_all add: thread_messages_def messages_of_def)
qed

lemma pending_ok_change:
  assumes ok: "pending_ok X F db ds" and db': "struct_ok db'" "index_ok F' db'" "stats_ok db'" "categories_ok db'"
    and thr: "threads db' = threads db" and X: "X \<subseteq> X'"
    and same: "\<And>x. x \<notin> X' \<union> fst ` set ds \<Longrightarrow> messages_of db' x = messages_of db x \<and> thread_rows db' x = thread_rows db x"
  shows "pending_ok X' F' db' ds"
proof -
  have "thread_ok db' (t_id r)" if "r \<in> set (threads db)" "t_id r \<notin> X' \<union> fst ` set ds" for r
  proof (rule same_messages_thread_ok [OF pending_ok_facts(1) [OF ok] db'(1)])
    show "thread_ok db (t_id r)"
      using that X by (intro pending_ok_facts(7) [OF ok]) auto
  qed (use same [OF that(2)] thr in \<open>simp_all add: find_thread_def\<close>)
  with ok db' show ?thesis by (simp add: pending_ok_def thr)
qed

lemma stats_ok_same:
  "stats_ok db \<Longrightarrow> threads db' = threads db \<Longrightarrow> thread_labels db' = thread_labels db \<Longrightarrow>
   label_stats db' = label_stats db \<Longrightarrow> stats_ok db'"
  by (simp add: stats_ok_def stats_of_def thread_unread_def [abs_def] old_thread_state_def find_thread_def)

lemma categories_ok_same:
  "categories_ok db \<Longrightarrow> threads db' = threads db \<Longrightarrow> inbox_category_stats db' = inbox_category_stats db \<Longrightarrow>
   categories_ok db'"
  by (simp add: categories_ok_def category_of_def)

text \<open>The common case: only messages, labels and the index change.\<close>

lemma pending_ok_messages:
  assumes ok: "pending_ok X F db ds" and db': "struct_ok db'" "index_ok F' db'"
    and same: "threads db' = threads db" "thread_labels db' = thread_labels db"
      "label_stats db' = label_stats db" "inbox_category_stats db' = inbox_category_stats db"
    and X: "X \<subseteq> X'" and msgs: "\<And>x. x \<notin> X' \<union> fst ` set ds \<Longrightarrow> messages_of db' x = messages_of db x"
  shows "pending_ok X' F' db' ds"
proof (rule pending_ok_change [OF ok db' _ _ same(1) X])
  show "stats_ok db'" "categories_ok db'"
    using ok stats_ok_same [OF _ same(1-3)] categories_ok_same [OF _ same(1,4)] by (auto simp: pending_ok_def)
qed (simp add: msgs thread_rows_def same)

lemma pending_ok_mark:
  assumes ok: "pending_ok (insert t X) F db ds" and r: "r \<in> set (threads db)" "t_id r = t" "t_gmail_id r = g"
  shows "pending_ok X F db (btree_insert t g ds)"
proof -
  have "\<exists>r \<in> set (threads db). t_id r = t' \<and> t_gmail_id r = g'" if "(t', g') \<in> set (btree_insert t g ds)" for t' g'
  proof -
    have "sorted_wrt (<) (map fst (btree_insert t g ds))"
      using ok by (auto simp: pending_ok_def intro: btree_insert_sorted)
    then have "map_of (btree_insert t g ds) t' = Some g'"
      using that by (simp add: strict_sorted_iff)
    then show ?thesis
      using ok r by (auto simp: btree_insert_lookup pending_ok_def dest!: map_of_SomeD split: if_splits)
  qed
  with ok show ?thesis
    by (auto simp: pending_ok_def btree_insert_keys intro: btree_insert_sorted)
qed

lemma find_thread_in: "t \<in> t_id ` set (threads db) \<Longrightarrow> \<exists>r. find_thread db t = Some r \<and> r \<in> set (threads db) \<and> t_id r = t"
  by (cases "find_thread db t") (auto simp: find_thread_def find_None_iff dest: find_Some_in)

lemma mark_ok:
  assumes ok: "pending_ok (insert t X) F (w_db w) (w_dirty w)" and t: "t \<in> t_id ` set (threads (w_db w))"
  shows "pending_ok X F (w_db (mark_thread_rowid w t)) (w_dirty (mark_thread_rowid w t))"
proof (cases "t \<in> fst ` set (w_dirty w)")
  case True
  with ok show ?thesis by (auto simp: mark_thread_rowid_def pending_ok_def)
next
  case False
  from find_thread_in [OF t] obtain r where "find_thread (w_db w) t = Some r" "r \<in> set (threads (w_db w))" "t_id r = t"
    by blast
  with pending_ok_mark [OF ok] False show ?thesis by (simp add: mark_thread_rowid_def)
qed

lemma mark_frame [simp]:
  "w_db (mark_thread_rowid w t) = w_db w"
  "w_stored_labels (mark_thread_rowid w t) = w_stored_labels w"
  by (auto simp: mark_thread_rowid_def split: option.split)

section \<open>Operations on stored messages\<close>

lemma struct_ok_messages:
  assumes "struct_ok db" "threads db' = threads db" "thread_labels db' = thread_labels db" "labels_ok (labels db')"
    and "lr_gmail_id ` set (labels db) \<subseteq> lr_gmail_id ` set (labels db')"
    and "distinct (map m_id (messages db'))" "distinct (map m_gmail_id (messages db'))"
    and "\<And>m. m \<in> set (messages db') \<Longrightarrow> message_ok db' m"
  shows "struct_ok db'"
  unfolding struct_ok_def assms(2,3)
  using assms(4-8) struct_ok_facts(2,3,7-9) [OF assms(1)] by (intro conjI) (simp, simp, simp, simp, simp, simp, simp, fast)

lemma find_message_in: "find_message db g = Some m \<Longrightarrow> m \<in> set (messages db) \<and> m_gmail_id m = g"
  unfolding find_message_def by (drule find_Some_in)

lemma message_of_thread:
  "struct_ok db \<Longrightarrow> m \<in> set (messages db) \<Longrightarrow> m_thread m \<in> t_id ` set (threads db)"
  by (auto simp: struct_ok_def message_ok_def)

lemma delete_message_ok:
  assumes ok: "pending_ok X F (w_db w) (w_dirty w)"
  shows "pending_ok X F (w_db (fst (delete_message w g))) (w_dirty (fst (delete_message w g)))"
proof (cases "find_message (w_db w) g")
  case None
  with ok show ?thesis by (simp add: delete_message_def)
next
  case (Some m)
  let ?db = "(w_db w)\<lparr>messages_fts := sql_delete (\<lambda>r. r = m_id m) (messages_fts (w_db w)),
      messages := sql_delete (\<lambda>r. m_id r = m_id m) (messages (w_db w))\<rparr>"
  note s = pending_ok_facts [OF ok] and m = find_message_in [OF Some]
  have "struct_ok ?db"
    using s(1) struct_ok_facts(1,4,5) [OF s(1)] struct_ok_facts(6) [OF s(1)]
    by (intro struct_ok_messages [OF s(1)]) (simp_all add: message_ok_def sql_delete_def distinct_map_filter)
  moreover have "index_ok F ?db"
    using s(2) by (auto simp: index_ok_def sql_delete_def)
  moreover have "messages_of ?db x = messages_of (w_db w) x" if "x \<noteq> m_thread m" for x
    using that messages_table.key_unique [OF struct_ok_facts(4) [OF s(1)] _ conjunct1 [OF m]]
    by (auto simp: messages_of_def sql_delete_def intro!: filter_cong)
  ultimately have "pending_ok (insert (m_thread m) X) F ?db (w_dirty w)"
    by (intro pending_ok_messages [OF ok]) auto
  moreover have "m_thread m \<in> t_id ` set (threads ?db)"
    using message_of_thread [OF s(1)] m by simp
  ultimately show ?thesis
    using mark_ok [of "m_thread m" X F "w\<lparr>w_db := ?db\<rparr>"] Some by (simp add: delete_message_def)
qed

text \<open>Adding the labels of a message: the labels table may gain placeholders, never a virtual one.\<close>

lemma label_rowid_ok:
  "labels_ok rows \<Longrightarrow> l \<noteq> ARCHIVE_LABEL \<Longrightarrow>
   labels_ok (label_rowid rows l) \<and> lr_gmail_id ` set (label_rowid rows l) = insert l (lr_gmail_id ` set rows)"
  by (auto simp: labels_ok_def label_rowid_def kind_of_unlisted_def)

lemma insert_message_labels_ok:
  "insert_message_labels rows acc ls = Ok (rows', acc') \<Longrightarrow> labels_ok rows \<Longrightarrow> distinct acc \<Longrightarrow>
   labels_ok rows' \<and> lr_gmail_id ` set rows' = set ls \<union> lr_gmail_id ` set rows \<and>
   distinct acc' \<and> set acc' = set acc \<union> set ls \<and> ARCHIVE_LABEL \<notin> set ls"
proof (induction rows acc ls rule: insert_message_labels.induct)
  case (2 rows acc l ls)
  then show ?case
    using label_rowid_ok [of rows l] by (auto split: if_splits)
qed auto

lemma insert_message_labels_total:
  "ARCHIVE_LABEL \<notin> set ls \<Longrightarrow> \<exists>r. insert_message_labels rows acc ls = Ok r"
  by (induction rows acc ls rule: insert_message_labels.induct) auto

lemma messages_of_update:
  assumes "distinct (map m_id (messages db))" "m \<in> set (messages db)" "x \<noteq> m_thread m" "x \<noteq> m_thread (f m)"
    and "messages db' = sql_update (\<lambda>r. m_id r = m_id m) f (messages db)"
  shows "messages_of db' x = messages_of db x"
proof -
  have "filter (\<lambda>m. m_thread m = x) (sql_update (\<lambda>r. m_id r = m_id m) f rows) = filter (\<lambda>m. m_thread m = x) rows"
    if "\<And>r. r \<in> set rows \<Longrightarrow> m_id r = m_id m \<Longrightarrow> r = m" for rows
    using that by (induction rows) (use assms(3,4) in \<open>auto simp: sql_update_def\<close>)
  with messages_table.key_unique [OF assms(1) _ assms(2)] show ?thesis
    by (simp add: messages_of_def assms(5))
qed

text \<open>One message row rewritten, the labels table possibly extended.\<close>

lemma row_pending:
  assumes ok: "pending_ok X F db ds" and m: "m \<in> set (messages db)"
    and f: "\<And>r. m_id (f r) = m_id r" "\<And>r. m_gmail_id (f r) = m_gmail_id r" "message_ok db' (f m)"
    and db': "messages db' = sql_update (\<lambda>r. m_id r = m_id m) f (messages db)"
      "threads db' = threads db" "thread_labels db' = thread_labels db"
      "label_stats db' = label_stats db" "inbox_category_stats db' = inbox_category_stats db" "messages_fts db' = messages_fts db"
    and labs: "labels_ok (labels db')" "lr_gmail_id ` set (labels db) \<subseteq> lr_gmail_id ` set (labels db')"
    and X: "X \<subseteq> X'" "m_thread m \<in> X' \<union> fst ` set ds" "m_thread (f m) \<in> X' \<union> fst ` set ds"
  shows "pending_ok X' F db' ds"
proof (rule pending_ok_messages [OF ok _ _ db'(2-5) X(1)])
  note s = pending_ok_facts(1) [OF ok]
  note unique = messages_table.key_unique [OF struct_ok_facts(4) [OF s] _ m]
  have ids: "map m_id (messages db') = map m_id (messages db)" "map m_gmail_id (messages db') = map m_gmail_id (messages db)"
    by (simp_all add: db'(1) sql_update_def f(1,2))
  show "struct_ok db'"
  proof (rule struct_ok_messages [OF s db'(2,3) labs])
    show "distinct (map m_id (messages db'))" "distinct (map m_gmail_id (messages db'))"
      using struct_ok_facts(4,5) [OF s] by (simp_all add: ids)
    show "message_ok db' x" if x: "x \<in> set (messages db')" for x
    proof -
      from x obtain r where r: "r \<in> set (messages db)" "x = (if m_id r = m_id m then f r else r)"
        by (auto simp: db'(1) set_sql_update)
      have "message_ok db' r"
        using struct_ok_facts(6) [OF s r(1)] labs(2) unfolding message_ok_def db'(2) by blast
      with r unique [of r] f(3) show ?thesis by auto
    qed
  qed
  have "m_id ` set (messages db') = m_id ` set (messages db)" using ids(1) by (metis list.set_map)
  with pending_ok_facts(2) [OF ok] show "index_ok F db'"
    by (simp add: index_ok_def db'(6))
  show "messages_of db' x = messages_of db x" if "x \<notin> X' \<union> fst ` set ds" for x
    using that X by (intro messages_of_update [OF struct_ok_facts(4) [OF s] m _ _ db'(1)]) auto
qed

lemma modify_message_labels_ok:
  assumes ok: "pending_ok X F (w_db w) (w_dirty w)" and run: "modify_message_labels w g add remove = Ok (w', b)"
  shows "pending_ok X F (w_db w') (w_dirty w')"
proof (cases "find_message (w_db w) g")
  case None
  with assms show ?thesis by (simp add: modify_message_labels_def)
next
  case (Some m)
  let ?ls = "changed_labels (m_labels m) add remove"
  note m = find_message_in [OF Some] and s = pending_ok_facts(1) [OF ok]
  from run Some obtain rows acc where ins: "insert_message_labels (labels (w_db w)) [] ?ls = Ok (rows, acc)"
    by (cases "insert_message_labels (labels (w_db w)) [] ?ls")
      (auto simp: modify_message_labels_def replace_message_labels_def Let_def)
  let ?db = "(w_db w)\<lparr>labels := rows, messages := sql_update (\<lambda>r. m_id r = m_id m)
      (\<lambda>r. label_flags ?ls (r\<lparr>m_labels := acc\<rparr>)) (messages (w_db w))\<rparr>"
  have w': "w' = mark_thread_rowid (w\<lparr>w_db := ?db\<rparr>) (m_thread m)"
    using run Some ins by (simp add: modify_message_labels_def replace_message_labels_def sql_update_twice Let_def)
  have t: "m_thread m \<in> t_id ` set (threads (w_db w))" using message_of_thread [OF s] m by blast
  have "pending_ok (insert (m_thread m) X) F ?db (w_dirty w)"
    by (rule row_pending [OF ok conjunct1 [OF m], where f = "\<lambda>r. label_flags ?ls (r\<lparr>m_labels := acc\<rparr>)"])
      (use t insert_message_labels_ok [OF ins struct_ok_facts(1) [OF s]] in \<open>auto simp: label_flags_def message_ok_def\<close>)
  with t show ?thesis
    unfolding w' using mark_ok [of "m_thread m" X F "w\<lparr>w_db := ?db\<rparr>"] by simp
qed

lemma adopt_local_copy_ok:
  assumes ok: "pending_ok X F (w_db w) (w_dirty w)"
  shows "pending_ok X F (w_db (adopt_local_copy w loc sent)) (w_dirty (adopt_local_copy w loc sent))"
proof (cases "find_message (w_db w) sent = None \<and> find_message (w_db w) loc \<noteq> None")
  case False
  with ok delete_message_ok [OF ok, of loc] show ?thesis by (auto simp: adopt_local_copy_def)
next
  case True
  then obtain m where Some: "find_message (w_db w) loc = Some m" by blast
  note m = find_message_in [OF Some] and s = pending_ok_facts(1) [OF ok]
  let ?db = "(w_db w)\<lparr>messages := sql_update (\<lambda>r. m_gmail_id r = loc) (\<lambda>r. r\<lparr>m_gmail_id := sent\<rparr>) (messages (w_db w))\<rparr>"
  have fresh: "sent \<notin> m_gmail_id ` set (messages (w_db w))"
    using True by (auto simp: find_message_def find_None_iff)
  have gids: "distinct (map m_gmail_id (sql_update (\<lambda>r. m_gmail_id r = loc) (\<lambda>r. r\<lparr>m_gmail_id := sent\<rparr>) rows))"
    if "distinct (map m_gmail_id rows)" "sent \<notin> m_gmail_id ` set rows" for rows
    using that by (induction rows) (auto simp: sql_update_def split: if_splits, metis image_eqI)
  have ids: "map m_id (messages ?db) = map m_id (messages (w_db w))"
    by (simp add: sql_update_def)
  then have ids': "m_id ` set (messages ?db) = m_id ` set (messages (w_db w))" by (metis list.set_map)
  have "message_ok ?db r" if "r \<in> set (messages ?db)" for r
  proof -
    from that obtain r0 where "r0 \<in> set (messages (w_db w))" "r = (if m_gmail_id r0 = loc then r0\<lparr>m_gmail_id := sent\<rparr> else r0)"
      by (auto simp: set_sql_update)
    with struct_ok_facts(6) [OF s, of r0] show ?thesis by (simp add: message_ok_def)
  qed
  then have "struct_ok ?db"
    using struct_ok_facts(1,4,5) [OF s] gids [OF struct_ok_facts(5) [OF s] fresh] ids
    by (intro struct_ok_messages [OF s]) simp_all
  moreover have "index_ok F ?db"
    using pending_ok_facts(2) [OF ok] ids' by (simp add: index_ok_def)
  moreover have upd: "filter (\<lambda>m. m_thread m = x) (sql_update (\<lambda>r. m_gmail_id r = loc) (\<lambda>r. r\<lparr>m_gmail_id := sent\<rparr>) rows) =
      filter (\<lambda>m. m_thread m = x) rows"
    if "\<And>r. r \<in> set rows \<Longrightarrow> m_gmail_id r = loc \<Longrightarrow> m_thread r \<noteq> x" for x rows
    using that by (induction rows) (auto simp: sql_update_def)
  have "messages_of ?db x = messages_of (w_db w) x" if "x \<noteq> m_thread m" for x
  proof -
    have "r = m" if "r \<in> set (messages (w_db w))" "m_gmail_id r = loc" for r
      using that m struct_ok_facts(5) [OF s] by (simp add: distinct_map inj_on_def)
    with that show ?thesis by (simp add: messages_of_def) (rule upd, blast)
  qed
  ultimately have "pending_ok (insert (m_thread m) X) F ?db (w_dirty w)"
    by (intro pending_ok_messages [OF ok]) auto
  with message_of_thread [OF s] m True Some show ?thesis
    using mark_ok [of "m_thread m" X F "w\<lparr>w_db := ?db\<rparr>"] by (simp add: adopt_local_copy_def)
qed

section \<open>Labels\<close>

lemma upsert_label_labels_ok:
  assumes "labels_ok rows" "lb_id l \<noteq> ARCHIVE_LABEL"
  shows "labels_ok (upsert_label rows l) \<and> lr_gmail_id ` set (upsert_label rows l) = insert (lb_id l) (lr_gmail_id ` set rows)"
proof (cases "lb_id l \<in> lr_gmail_id ` set rows")
  case True
  let ?row = "\<lparr>lr_gmail_id = lb_id l, lr_name = lb_name l,
                 lr_kind = (case lb_kind l of SystemLabel \<Rightarrow> KSystem | UserLabel \<Rightarrow> KUser),
                 lr_color_bg = map_option lc_background (lb_color l),
                 lr_color_fg = map_option lc_text (lb_color l), lr_visible = lb_visible l\<rparr>"
  have upd: "upsert_label rows l = sql_update (\<lambda>r. lr_gmail_id r = lb_id l) (\<lambda>r. ?row) rows"
    using True by (simp add: Let_def)
  have keys: "map lr_gmail_id (upsert_label rows l) = map lr_gmail_id rows"
    unfolding upd by (simp add: sql_update_def)
  then have "lr_gmail_id ` set (upsert_label rows l) = lr_gmail_id ` set rows" by (metis list.set_map)
  moreover have "\<forall>r \<in> set (upsert_label rows l). lr_kind r = KVirtual \<longleftrightarrow> lr_gmail_id r = ARCHIVE_LABEL"
    unfolding upd using assms by (auto simp: set_sql_update labels_ok_def split: label_kind.splits)
  ultimately show ?thesis
    using assms(1) True keys by (auto simp: labels_ok_def simp del: upsert_label.simps)
next
  case False
  with assms show ?thesis
    by (auto simp: labels_ok_def Let_def split: label_kind.splits)
qed

lemma upsert_labels_labels_ok:
  "labels_ok rows \<Longrightarrow> (\<And>l. l \<in> set ls \<Longrightarrow> lb_id l \<noteq> ARCHIVE_LABEL) \<Longrightarrow>
   labels_ok (foldl upsert_label rows ls) \<and> lr_gmail_id ` set rows \<subseteq> lr_gmail_id ` set (foldl upsert_label rows ls)"
proof (induction ls arbitrary: rows)
  case (Cons l ls)
  then show ?case
    using upsert_label_labels_ok [of rows l] Cons.IH [of "upsert_label rows l"]
    by (auto simp del: upsert_label.simps)
qed simp

lemma upsert_labels_ok:
  assumes ok: "pending_ok X F (w_db w) (w_dirty w)" and ls: "\<And>l. l \<in> set ls \<Longrightarrow> lb_id l \<noteq> ARCHIVE_LABEL"
  shows "pending_ok X F (w_db (upsert_labels w ls)) (w_dirty (upsert_labels w ls))"
proof -
  note s = pending_ok_facts(1) [OF ok]
  let ?db = "(w_db w)\<lparr>labels := foldl upsert_label (labels (w_db w)) ls\<rparr>"
  have lab: "labels_ok (labels ?db)" "lr_gmail_id ` set (labels (w_db w)) \<subseteq> lr_gmail_id ` set (labels ?db)"
    using upsert_labels_labels_ok [OF struct_ok_facts(1) [OF s] ls] by simp_all
  have "message_ok ?db m" if "m \<in> set (messages (w_db w))" for m
    using struct_ok_facts(6) [OF s that] lab(2) unfolding message_ok_def by (auto simp del: upsert_label.simps)
  with lab have "struct_ok ?db"
    using struct_ok_facts(4,5) [OF s] by (intro struct_ok_messages [OF s]) simp_all
  moreover have "index_ok F ?db" using pending_ok_facts(2) [OF ok] by (simp add: index_ok_def)
  ultimately have "pending_ok X F ?db (w_dirty w)"
    by (intro pending_ok_messages [OF ok]) (auto simp: messages_of_def)
  then show ?thesis by (simp add: upsert_labels_def)
qed

lemma mark_all_ok:
  "pending_ok X F (w_db w) (w_dirty w) \<Longrightarrow> set ts \<subseteq> t_id ` set (threads (w_db w)) \<Longrightarrow>
   pending_ok X F (w_db w) (w_dirty (foldl mark_thread_rowid w ts)) \<and>
   w_db (foldl mark_thread_rowid w ts) = w_db w \<and>
   set ts \<union> fst ` set (w_dirty w) \<subseteq> fst ` set (w_dirty (foldl mark_thread_rowid w ts))"
proof (induction ts arbitrary: w)
  case (Cons t ts)
  have ins: "pending_ok (insert t X) F (w_db w) (w_dirty w)"
    using Cons.prems(1) by (auto simp: pending_ok_def)
  moreover have t: "t \<in> t_id ` set (threads (w_db w))" using Cons.prems(2) by simp
  ultimately have marked: "pending_ok X F (w_db w) (w_dirty (mark_thread_rowid w t))"
    using mark_ok [of t X F w] by simp
  moreover have "insert t (fst ` set (w_dirty w)) \<subseteq> fst ` set (w_dirty (mark_thread_rowid w t))"
  proof (cases "t \<in> fst ` set (w_dirty w)")
    case False
    with find_thread_in [OF t] show ?thesis
      by (elim exE) (simp add: mark_thread_rowid_def btree_insert_keys)
  qed (auto simp: mark_thread_rowid_def)
  moreover have "pending_ok X F (w_db w) (w_dirty (foldl mark_thread_rowid (mark_thread_rowid w t) ts)) \<and>
      w_db (foldl mark_thread_rowid (mark_thread_rowid w t) ts) = w_db w \<and>
      set ts \<union> fst ` set (w_dirty (mark_thread_rowid w t)) \<subseteq>
        fst ` set (w_dirty (foldl mark_thread_rowid (mark_thread_rowid w t) ts))"
    using Cons.IH [of "mark_thread_rowid w t"] marked Cons.prems(2) by simp
  ultimately show ?case
    by (simp add: subset_iff del: Un_subset_iff)
qed simp

lemma delete_label_struct:
  assumes s: "struct_ok db" and l: "l \<noteq> ARCHIVE_LABEL"
  shows "struct_ok (delete_label db l)" (is "struct_ok ?db")
proof -
  note f = struct_ok_facts [OF s]
  have labs: "lr_gmail_id ` set (labels ?db) = lr_gmail_id ` set (labels db) - {l}"
    by (auto simp: delete_label_def)
  have "labels_ok (labels ?db)"
    using f(1) l labs by (auto simp: labels_ok_def delete_label_def sql_delete_def distinct_map_filter)
  moreover have "message_ok ?db m" if "m \<in> set (messages ?db)" for m
  proof -
    from that obtain m0 where "m0 \<in> set (messages db)" "m = m0\<lparr>m_labels := filter (\<lambda>x. x \<noteq> l) (m_labels m0)\<rparr>"
      by (auto simp: delete_label_def)
    moreover have "threads ?db = threads db" by (simp add: delete_label_def)
    ultimately show ?thesis
      using f(6) [of m0] unfolding message_ok_def labs by auto
  qed
  moreover have "map m_id (messages ?db) = map m_id (messages db)" "map m_gmail_id (messages ?db) = map m_gmail_id (messages db)"
    "threads ?db = threads db"
    by (simp_all add: delete_label_def)
  moreover have "distinct (map label_thread (thread_labels ?db))"
    using f(7) by (simp add: delete_label_def sql_delete_def distinct_map_filter)
  moreover have "t \<in> t_id ` set (threads db) \<and> x \<in> lr_gmail_id ` set (labels ?db)"
    if "(x, at, t) \<in> set (thread_labels ?db)" for x at t
    using that f(8,9) [of x at t] labs by (auto simp: delete_label_def)
  ultimately show ?thesis
    using f unfolding struct_ok_def by (simp only: simp_thms) fast
qed

lemma delete_label_stats:
  assumes "stats_ok db"
  shows "stats_ok (delete_label db l)"
proof -
  have un: "thread_unread (delete_label db l) = thread_unread db"
    by (simp add: thread_unread_def [abs_def] old_thread_state_def find_thread_def delete_label_def)
  have "tally P x (thread_labels (delete_label db l)) = (if x = l then 0 else tally P x (thread_labels db))" for P x
    by (auto simp: tally_def delete_label_def sql_delete_def filter_empty_conv intro!: arg_cong [where f = length] filter_cong)
  with assms show ?thesis
    by (auto simp: stats_ok_def un) (auto simp: stats_of_def delete_label_def)
qed

lemma unlabelled_thread_kept:
  assumes s: "struct_ok db" and l: "l \<noteq> ARCHIVE_LABEL" and x: "x \<in> t_id ` set (threads db) \<Longrightarrow> thread_ok db x"
    and none: "\<And>at. (l, at, x) \<notin> set (thread_labels db)"
  shows "messages_of (delete_label db l) x = messages_of db x \<and> thread_rows (delete_label db l) x = thread_rows db x"
proof
  have no: "l \<notin> set (m_labels m)" if m: "m \<in> set (messages db)" "m_thread m = x" for m
  proof
    assume "l \<in> set (m_labels m)"
    with m l have "l \<in> set (thread_label_ids db x)"
      by (auto simp: set_thread_label_ids virtual_is_archive [OF s])
    then have "l \<in> set (thread_mailboxes db x)" by (auto simp: thread_mailboxes_def Let_def)
    moreover have "thread_ok db x" using x message_of_thread [OF s m(1)] m(2) by simp
    ultimately have "\<exists>at. (l, at, x) \<in> set (thread_rows db x)" by (auto simp: thread_ok_def)
    with none show False by (auto simp: thread_rows_def)
  qed
  have keep: "filter (\<lambda>m. m_thread m = x) (map (\<lambda>m. m\<lparr>m_labels := filter (\<lambda>y. y \<noteq> l) (m_labels m)\<rparr>) ms) =
      filter (\<lambda>m. m_thread m = x) ms" if "\<And>m. m \<in> set ms \<Longrightarrow> m_thread m = x \<Longrightarrow> l \<notin> set (m_labels m)" for ms
    using that
  proof (induction ms)
    case (Cons m ms)
    have "filter (\<lambda>y. y \<noteq> l) (m_labels m) = m_labels m" if "m_thread m = x"
      using Cons.prems [of m] that by (auto simp: filter_id_conv)
    with Cons show ?case by simp
  qed simp
  show "messages_of (delete_label db l) x = messages_of db x"
    unfolding messages_of_def delete_label_def using keep [of "messages db"] no by simp
  show "thread_rows (delete_label db l) x = thread_rows db x"
    using none by (auto simp: thread_rows_def delete_label_def sql_delete_def intro!: filter_cong)
qed

lemma drop_label_ok:
  assumes ok: "pending_ok {} F (w_db w) (w_dirty w)" and l: "l \<noteq> ARCHIVE_LABEL"
  shows "pending_ok {} F (w_db (drop_label w l)) (w_dirty (drop_label w l))"
proof -
  let ?db = "w_db w"
  let ?w1 = "mark_threads_with_label w l"
  note s = pending_ok_facts [OF ok]
  let ?ts = "map (\<lambda>(l', at, t). t) (filter (\<lambda>(l', at, t). l' = l) (thread_labels ?db))"
  have "set ?ts \<subseteq> t_id ` set (threads ?db)" using struct_ok_facts(8) [OF s(1)] by auto
  from mark_all_ok [OF ok this] have w1: "pending_ok {} F ?db (w_dirty ?w1)" "w_db ?w1 = ?db"
    "set ?ts \<subseteq> fst ` set (w_dirty ?w1)"
    by (simp_all add: mark_threads_with_label_def)
  have "pending_ok {} F (delete_label ?db l) (w_dirty ?w1)"
  proof (rule pending_ok_change [OF w1(1) delete_label_struct [OF s(1) l] _ delete_label_stats [OF s(3)]])
    have "map m_id (messages (delete_label ?db l)) = map m_id (messages ?db)" by (simp add: delete_label_def)
    then have "m_id ` set (messages (delete_label ?db l)) = m_id ` set (messages ?db)" by (metis list.set_map)
    with s(2) show "index_ok F (delete_label ?db l)" by (simp add: index_ok_def) (simp add: delete_label_def)
    show "categories_ok (delete_label ?db l)"
      by (rule categories_ok_same [OF s(4)]) (simp_all add: delete_label_def)
    show "threads (delete_label ?db l) = threads ?db" by (simp add: delete_label_def)
    fix x assume x: "x \<notin> {} \<union> fst ` set (w_dirty ?w1)"
    show "messages_of (delete_label ?db l) x = messages_of ?db x \<and> thread_rows (delete_label ?db l) x = thread_rows ?db x"
    proof (rule unlabelled_thread_kept [OF s(1) l])
      show "thread_ok ?db x" if "x \<in> t_id ` set (threads ?db)"
        using pending_ok_facts(7) [OF w1(1) that] x by simp
      show "(l, at, x) \<notin> set (thread_labels ?db)" for at
        using w1(3) x by force
    qed
  qed simp
  with w1(2) show ?thesis by (simp add: drop_label_def Let_def)
qed

lemma retain_labels_ok:
  assumes ok: "pending_ok {} F (w_db w) (w_dirty w)"
  shows "pending_ok {} F (w_db (retain_labels w keep)) (w_dirty (retain_labels w keep))"
proof -
  let ?gone = "filter (\<lambda>l. l \<notin> set keep) (map lr_gmail_id (filter (\<lambda>r. lr_kind r \<noteq> KVirtual) (labels (w_db w))))"
  have "ARCHIVE_LABEL \<notin> set ?gone"
    using struct_ok_facts(1) [OF pending_ok_facts(1) [OF ok]] unfolding labels_ok_def by fastforce
  moreover have "pending_ok {} F (w_db (foldl drop_label w ls)) (w_dirty (foldl drop_label w ls))"
    if "pending_ok {} F (w_db w) (w_dirty w)" "ARCHIVE_LABEL \<notin> set ls" for w ls
    using that
  proof (induction ls arbitrary: w)
    case (Cons l ls)
    from Cons.prems(2) have "l \<noteq> ARCHIVE_LABEL" by auto
    from Cons.IH [OF drop_label_ok [OF Cons.prems(1) this]] Cons.prems(2) show ?case by simp
  qed simp
  ultimately show ?thesis using ok by (simp add: retain_labels_def)
qed

section \<open>Upserting a message\<close>

lemma ensure_thread_ok:
  assumes ok: "pending_ok {} F db ds" and run: "ensure_thread db g = (db', t)"
  shows "pending_ok {t} F db' ds \<and> (\<exists>r \<in> set (threads db'). t_id r = t \<and> t_gmail_id r = g) \<and>
    messages db' = messages db \<and> labels db' = labels db"
proof (cases "List.find (\<lambda>r. t_gmail_id r = g) (threads db)")
  case (Some r)
  with run have "db' = db" "t = t_id r" by (simp_all add: ensure_thread_def)
  with ok find_Some_in [OF Some] show ?thesis by (auto simp: pending_ok_def)
next
  case None
  define r where "r = \<lparr>t_id = next_rowid t_id (threads db), t_gmail_id = g, t_subject = [], t_snippet = [],
    t_first_message_at = 0, t_last_message_at = 0, t_message_count = 0, t_unread_count = 0, t_has_attachments = False,
    t_is_starred = False, t_participants = [], t_label_ids = []\<rparr>"
  have t: "t = t_id r" and thr: "threads db' = threads db @ [r]"
    and frame: "messages db' = messages db" "labels db' = labels db" "thread_labels db' = thread_labels db"
      "label_stats db' = label_stats db" "inbox_category_stats db' = inbox_category_stats db" "messages_fts db' = messages_fts db"
    using run None by (auto simp: ensure_thread_def Let_def r_def)
  note s = pending_ok_facts [OF ok]
  note f = struct_ok_facts [OF s(1)]
  have fresh: "t_id r \<notin> t_id ` set (threads db)"
    using next_rowid_greater [of _ "threads db" t_id] by (force simp: r_def)
  have g: "g \<notin> t_gmail_id ` set (threads db)" using None by (auto simp: find_None_iff)
  have "struct_ok db'"
    unfolding struct_ok_def thr frame
    using f fresh g by (auto simp: message_ok_def frame thr r_def)
  have find: "find_thread db' x = find_thread db x" if "x \<noteq> t_id r" for x
  proof -
    have "List.find (\<lambda>y. t_id y = x) (rows @ [r]) = List.find (\<lambda>y. t_id y = x) rows" for rows
      using that by (induction rows) auto
    then show ?thesis by (simp add: find_thread_def thr)
  qed
  have own: "t' \<noteq> t_id r" if "(l, at, t') \<in> set (thread_labels db)" for l at t'
    using f(8) [OF that] fresh by metis
  have "stats_of db' = stats_of db" "category_of db' = category_of db"
    by (simp_all add: stats_of_def category_of_def frame fun_eq_iff)
  moreover have "tally (thread_unread db') l (thread_labels db) = tally (thread_unread db) l (thread_labels db)" for l
    by (rule tally_cong) (auto intro!: thread_unread_cong find own)
  ultimately have "stats_ok db'" using s(3) by (simp add: stats_ok_def frame)
  have "inbox_category (t_label_ids r) = None" by (simp add: r_def inbox_category_def)
  then have "cat_tally P c (threads db') = cat_tally P c (threads db)" for P c
    by (simp add: thr cat_tally_def)
  with s(4) \<open>category_of db' = category_of db\<close> have "categories_ok db'" by (simp add: categories_ok_def)
  have "thread_ok db' (t_id x)" if "x \<in> set (threads db)" "t_id x \<notin> fst ` set ds" for x
  proof (rule same_messages_thread_ok [OF s(1) \<open>struct_ok db'\<close>])
    have "t_id x \<noteq> t_id r" using that(1) fresh by (metis image_eqI)
    then show "find_thread db' (t_id x) = find_thread db (t_id x)" by (rule find)
  qed (use that s(7) in \<open>auto simp: messages_of_def thread_rows_def frame\<close>)
  with s \<open>struct_ok db'\<close> \<open>stats_ok db'\<close> \<open>categories_ok db'\<close> show ?thesis
    by (auto simp: pending_ok_def thr frame index_ok_def t) (auto simp: r_def)
qed

lemma upsert_update_ok:
  assumes ok: "pending_ok {t} F (w_db w) (w_dirty w)" and old: "old \<in> set (messages (w_db w))"
    and t: "t \<in> t_id ` set (threads (w_db w))"
    and w': "w' = upsert_update w old t ls m"
  shows "pending_ok {t} F (w_db w') (w_dirty w') \<and> threads (w_db w') = threads (w_db w) \<and>
    (\<forall>r \<in> set (messages (w_db w')). m_id r = m_id old \<longrightarrow> m_thread r = t)"
proof -
  note s = pending_ok_facts(1) [OF ok]
  let ?w1 = "if m_thread old \<noteq> t then mark_thread_rowid w (m_thread old) else w"
  let ?f = "\<lambda>r. label_flags ls (r\<lparr>m_thread := t, m_head := updated_head m (m_head r),
      m_body_state := upsert_body_state (Some old) m,
      m_has_attachments := (if im_body m \<noteq> None then has_real_attachment m else m_has_attachments r)\<rparr>)"
  have told: "m_thread old \<in> t_id ` set (threads (w_db w))" by (rule message_of_thread [OF s old])
  have w1: "pending_ok {t} F (w_db w) (w_dirty ?w1)" "w_db ?w1 = w_db w" "m_thread old \<in> {t} \<union> fst ` set (w_dirty ?w1)"
    using ok mark_all_ok [OF ok, of "[m_thread old]"] told by auto
  have db': "w_db w' = (w_db w)\<lparr>messages := sql_update (\<lambda>r. m_id r = m_id old) ?f (messages (w_db w))\<rparr>"
    "w_dirty w' = w_dirty ?w1"
    unfolding w' upsert_update_def Let_def using w1(2) by simp_all
  have "pending_ok {t} F (w_db w') (w_dirty ?w1)"
  proof (rule row_pending [OF w1(1) old, where f = ?f])
    show "message_ok (w_db w') (?f old)"
      using t struct_ok_facts(6) [OF s old] by (simp add: db' label_flags_def message_ok_def)
  qed (use w1(3) struct_ok_facts(1) [OF s] in \<open>simp_all add: db' label_flags_def\<close>)
  moreover have "m_thread r = t" if "r \<in> set (messages (w_db w'))" "m_id r = m_id old" for r
  proof -
    from that(1) have "r \<in> set (sql_update (\<lambda>r. m_id r = m_id old) ?f (messages (w_db w)))"
      by (simp add: db')
    then obtain r0 where r0: "r = (if m_id r0 = m_id old then ?f r0 else r0)"
      by (blast dest: in_sql_update)
    with that(2) have "m_id r0 = m_id old" by (cases "m_id r0 = m_id old") simp_all
    with r0 show ?thesis by (simp add: label_flags_def)
  qed
  ultimately show ?thesis by (simp add: db')
qed

lemma delete_message_frame:
  "threads (w_db (fst (delete_message w g))) = threads (w_db w)"
  "set (messages (w_db (fst (delete_message w g)))) \<subseteq> set (messages (w_db w))"
  by (auto simp: delete_message_def split: option.split)

lemma delete_messages_ok:
  "pending_ok X F (w_db w) (w_dirty w) \<Longrightarrow>
   pending_ok X F (w_db (foldl (\<lambda>w g. fst (delete_message w g)) w gs)) (w_dirty (foldl (\<lambda>w g. fst (delete_message w g)) w gs)) \<and>
   threads (w_db (foldl (\<lambda>w g. fst (delete_message w g)) w gs)) = threads (w_db w) \<and>
   set (messages (w_db (foldl (\<lambda>w g. fst (delete_message w g)) w gs))) \<subseteq> set (messages (w_db w))"
proof (induction gs arbitrary: w)
  case (Cons g gs)
  from Cons.IH [OF delete_message_ok [OF Cons.prems, of g]] delete_message_frame [of w g] show ?case
    by auto
qed simp

lemma replace_local_copies_ok:
  "pending_ok X F (w_db w) (w_dirty w) \<Longrightarrow>
   pending_ok X F (w_db (replace_local_copies w m)) (w_dirty (replace_local_copies w m)) \<and>
   threads (w_db (replace_local_copies w m)) = threads (w_db w) \<and>
   set (messages (w_db (replace_local_copies w m))) \<subseteq> set (messages (w_db w))"
  using delete_messages_ok by (simp add: replace_local_copies_def split: option.split)

lemma upsert_insert_ok:
  assumes ok: "pending_ok {t} {} (w_db w) (w_dirty w)" and new: "find_message (w_db w) (im_id m) = None"
    and t: "t \<in> t_id ` set (threads (w_db w))" and run: "upsert_insert w t ls m = (w', rowid)"
  shows "pending_ok {t} {rowid} (w_db w') (w_dirty w') \<and> threads (w_db w') = threads (w_db w) \<and>
    (\<forall>r \<in> set (messages (w_db w')). m_id r = rowid \<longrightarrow> m_thread r = t)"
proof -
  note s = pending_ok_facts [OF ok]
  note f = struct_ok_facts [OF s(1)]
  define row where "row = label_flags ls
            \<lparr>m_id = rowid, m_thread = t, m_gmail_id = im_id m, m_head = incoming_head m,
             m_body_state = upsert_body_state None m, m_is_read = False, m_is_starred = False,
             m_is_draft = False, m_is_sent_by_me = False, m_has_attachments = has_real_attachment m,
             m_labels = [], m_participants = [], m_body = None, m_attachments = []\<rparr>"
  let ?db = "record_contacts ((w_db w)\<lparr>messages := messages (w_db w) @ [row]\<rparr>) m (SENT \<in> set ls)"
  have rowid: "rowid = next_rowid m_id (messages (w_db w))" and w': "w' = replace_local_copies (w\<lparr>w_db := ?db\<rparr>) m"
    using run by (auto simp: upsert_insert_def Let_def row_def)
  have row: "m_id row = rowid" "m_gmail_id row = im_id m" "m_thread row = t" "m_labels row = []"
    by (simp_all add: row_def label_flags_def)
  have db: "messages ?db = messages (w_db w) @ [row]" "labels ?db = labels (w_db w)" "threads ?db = threads (w_db w)"
    "thread_labels ?db = thread_labels (w_db w)" "label_stats ?db = label_stats (w_db w)"
    "inbox_category_stats ?db = inbox_category_stats (w_db w)" "messages_fts ?db = messages_fts (w_db w)"
    by (simp_all add: record_contacts_def)
  have fresh: "rowid \<notin> m_id ` set (messages (w_db w))"
    using next_rowid_greater [of _ "messages (w_db w)" m_id] by (force simp: rowid)
  have gid: "im_id m \<notin> m_gmail_id ` set (messages (w_db w))"
    using new by (auto simp: find_message_def find_None_iff)
  have "message_ok ?db x" if "x \<in> set (messages ?db)" for x
    using that f(6) [of x] t row unfolding message_ok_def db by auto
  then have "struct_ok ?db"
    using f(1,4,5) fresh gid row by (intro struct_ok_messages [OF s(1)]) (simp_all add: db)
  moreover have "index_ok {rowid} ?db"
    using s(2) fresh row unfolding index_ok_def db by auto
  moreover have "messages_of ?db x = messages_of (w_db w) x" if "x \<noteq> t" for x
    using that row by (simp add: messages_of_def db)
  ultimately have "pending_ok {t} {rowid} ?db (w_dirty w)"
    by (intro pending_ok_messages [OF ok]) (auto simp: db)
  then have "pending_ok {t} {rowid} (w_db w') (w_dirty w') \<and> threads (w_db w') = threads (w_db w) \<and>
      set (messages (w_db w')) \<subseteq> insert row (set (messages (w_db w)))"
    using replace_local_copies_ok [of "{t}" "{rowid}" "w\<lparr>w_db := ?db\<rparr>" m] by (simp add: w' db)
  moreover have "m_id r \<noteq> rowid" if "r \<in> set (messages (w_db w))" for r
    using fresh that by blast
  ultimately show ?thesis using row(3) by blast
qed

lemma index_message_ok: "index_ok F db \<Longrightarrow> F \<subseteq> {i} \<Longrightarrow> i \<in> m_id ` set (messages db) \<Longrightarrow> index_ok {} (index_message db i)"
  by (auto simp: index_ok_def index_message_def sql_delete_def)

lemma upsert_rest_ok:
  assumes ok: "pending_ok {t} F (w_db w) (w_dirty w)" and F: "F \<subseteq> {rowid}"
    and t: "r \<in> set (threads (w_db w))" "t_id r = t" "t_gmail_id r = im_thread_id m"
    and own: "\<And>x. x \<in> set (messages (w_db w)) \<Longrightarrow> m_id x = rowid \<Longrightarrow> m_thread x = t"
    and run: "upsert_rest w rowid t ls m = Ok w'"
  shows "writer_ok w'"
proof -
  let ?db = "w_db w"
  note s = pending_ok_facts [OF ok]
  from run have "rowid \<in> m_id ` set (messages ?db)"
    by (auto simp: upsert_rest_def Let_def split: if_splits)
  then obtain x where x: "x \<in> set (messages ?db)" "m_id x = rowid" by auto
  from run obtain rows acc where ins: "insert_message_labels (labels ?db) [] ls = Ok (rows, acc)"
    by (cases "insert_message_labels (labels ?db) [] ls")
      (auto simp: upsert_rest_def replace_message_labels_def Let_def split: if_splits)
  define f :: "message_row \<Rightarrow> message_row" where "f r = (let r1 = r\<lparr>m_participants := incoming_participants m, m_labels := acc\<rparr>
    in case im_body m of None \<Rightarrow> r1 | Some b \<Rightarrow> r1\<lparr>m_body := Some b, m_attachments := incoming_attachments m\<rparr>)" for r
  let ?db3 = "?db\<lparr>labels := rows, messages := sql_update (\<lambda>r. m_id r = rowid) f (messages ?db)\<rparr>"
  have w': "w_db w' = index_message ?db3 rowid" "w_dirty w' = btree_insert t (im_thread_id m) (w_dirty w)"
    using run x ins by (cases "im_body m"; auto simp: upsert_rest_def replace_message_labels_def Let_def
        sql_update_twice f_def [abs_def] split: if_splits)+
  note lab = insert_message_labels_ok [OF ins struct_ok_facts(1) [OF s(1)] distinct.simps(1) [THEN iffD2, OF TrueI]]
  have f: "m_id (f r) = m_id r" "m_gmail_id (f r) = m_gmail_id r" "m_thread (f r) = m_thread r" "m_labels (f r) = acc" for r
    by (simp_all add: f_def Let_def split: option.split)
  have db3: "pending_ok {t} F ?db3 (w_dirty w)"
  proof (rule row_pending [OF ok x(1), where f = f])
    show "message_ok ?db3 (f x)"
      using lab struct_ok_facts(6) [OF s(1) x(1)] by (auto simp: message_ok_def f)
  qed (use lab f own [OF x] x(2) in auto)
  have "f x \<in> set (messages ?db3)"
    using in_sql_updateI [of x "messages ?db" "\<lambda>r. m_id r = rowid" f] x by simp
  then have "rowid \<in> m_id ` set (messages ?db3)"
    by (rule rev_image_eqI) (simp only: f x(2))
  with index_message_ok [OF pending_ok_facts(2) [OF db3] F] have "index_ok {} (w_db w')" by (simp add: w')
  moreover have "struct_ok (w_db w')"
    by (rule struct_ok_messages [OF pending_ok_facts(1) [OF db3]])
      (use struct_ok_facts [OF pending_ok_facts(1) [OF db3]] in \<open>simp_all add: w' index_message_def message_ok_def\<close>)
  ultimately have "pending_ok {t} {} (w_db w') (w_dirty w)"
    by (intro pending_ok_messages [OF db3]) (simp_all add: w' index_message_def messages_of_def)
  then show ?thesis
    using pending_ok_mark [of t "{}" "{}" "w_db w'" "w_dirty w" r "im_thread_id m"] t
    by (simp add: writer_ok_def w' index_message_def)
qed

lemma upsert_message_ok:
  assumes ok: "writer_ok w" and run: "upsert_message w m = Ok w'"
  shows "writer_ok w'"
proof -
  obtain db t where e: "ensure_thread (w_db w) (im_thread_id m) = (db, t)" by fastforce
  with ensure_thread_ok [of "{}" "w_db w" "w_dirty w"] ok have
    ens: "pending_ok {t} {} db (w_dirty w)" "\<exists>r \<in> set (threads db). t_id r = t \<and> t_gmail_id r = im_thread_id m"
    by (auto simp: writer_ok_def)
  then obtain r where r: "r \<in> set (threads db)" "t_id r = t" "t_gmail_id r = im_thread_id m" by blast
  then have t: "t \<in> t_id ` set (threads db)" by blast
  let ?w0 = "w\<lparr>w_db := db\<rparr>" and ?ls = "upsert_label_ids (w\<lparr>w_db := db\<rparr>) (find_message db (im_id m)) m"
  show ?thesis
  proof (cases "find_message db (im_id m)")
    case (Some old)
    note up = upsert_update_ok [of t "{}" ?w0 old, OF _ _ _ refl, of ?ls m]
    have "upsert_rest (upsert_update ?w0 old t ?ls m) (m_id old) t ?ls m = Ok w'"
      using run e Some by (simp add: upsert_message_def Let_def)
    with up ens(1) t find_message_in [OF Some] r show ?thesis
      by (intro upsert_rest_ok [where F = "{}" and r = r]) auto
  next
    case None
    obtain w1 rowid where ins: "upsert_insert ?w0 t ?ls m = (w1, rowid)" by fastforce
    have "upsert_rest w1 rowid t ?ls m = Ok w'"
      using run e None ins by (simp add: upsert_message_def Let_def)
    moreover note upsert_insert_ok [OF _ _ _ ins]
    ultimately show ?thesis
      using ens(1) t None r by (intro upsert_rest_ok [where F = "{rowid}" and r = r]) auto
  qed
qed

lemma delete_message_rows:
  assumes "distinct (map m_id (messages (w_db w)))" "distinct (map m_gmail_id (messages (w_db w)))"
  shows "messages (w_db (fst (delete_message w g))) = filter (\<lambda>r. m_gmail_id r \<noteq> g) (messages (w_db w))"
proof (cases "find_message (w_db w) g")
  case None
  then have "\<forall>r \<in> set (messages (w_db w)). m_gmail_id r \<noteq> g" by (auto simp: find_message_def find_None_iff)
  with None show ?thesis by (simp add: delete_message_def)
next
  case (Some m)
  from find_Some_in [OF Some [unfolded find_message_def]] have m: "m \<in> set (messages (w_db w))" "m_gmail_id m = g" by simp_all
  have "m_id r = m_id m \<longleftrightarrow> m_gmail_id r = g" if "r \<in> set (messages (w_db w))" for r
    using that m assms by (metis distinct_map inj_onD)
  then have "sql_delete (\<lambda>r. m_id r = m_id m) (messages (w_db w)) = filter (\<lambda>r. m_gmail_id r \<noteq> g) (messages (w_db w))"
    by (auto simp: sql_delete_def intro: filter_cong)
  with Some show ?thesis by (simp add: delete_message_def)
qed

end
