(* ===== verification/Numbers.thy ===== *)
theory Numbers
  imports Domain
begin

text \<open>
  Decimal numbers as the sources print and parse them: \<^verbatim>\<open>format!("{i}")\<close>, \<^verbatim>\<open>str::parse\<close> into a
  signed or unsigned integer of a width (a sign is accepted, an empty digit string and an
  overflow are errors), and the casts \<^verbatim>\<open>as u32\<close> of a clamped count.
\<close>

definition digit_val :: "char \<Rightarrow> nat" where
  "digit_val c = of_char c - 48"

definition digits_val :: "string \<Rightarrow> nat" where
  "digits_val s = foldl (\<lambda>a c. 10 * a + digit_val c) 0 s"

definition show_int :: "int \<Rightarrow> string" where
  "show_int i = (if i < 0 then CHR ''-'' # show_nat (nat (- i)) else show_nat (nat i))"

text \<open>The digits after the sign: at least one, and nothing else.\<close>

definition parse_digits :: "string \<Rightarrow> nat option" where
  "parse_digits s = (if s \<noteq> [] \<and> list_all is_ascii_digit s then Some (digits_val s) else None)"

definition parse_int :: "string \<Rightarrow> int option" where
  "parse_int s =
     (case s of
        [] \<Rightarrow> None
      | c # cs \<Rightarrow>
          if c = CHR ''+'' then map_option int (parse_digits cs)
          else if c = CHR ''-'' then map_option (\<lambda>n. - int n) (parse_digits cs)
          else map_option int (parse_digits s))"

definition in_i64 :: "int \<Rightarrow> bool" where
  "in_i64 i \<longleftrightarrow> - (2 ^ 63) \<le> i \<and> i < 2 ^ 63"

definition parse_i64 :: "string \<Rightarrow> int option" where
  "parse_i64 s = (case parse_int s of Some i \<Rightarrow> (if in_i64 i then Some i else None) | None \<Rightarrow> None)"

text \<open>\<^verbatim>\<open>x.max(0) as u32\<close>.\<close>

definition clamp_u32 :: "int \<Rightarrow> nat" where
  "clamp_u32 i = nat (max 0 i) mod 2 ^ 32"

section \<open>Printing and parsing are inverse\<close>

lemma digit_char: "n < 10 \<Longrightarrow> digit_val (char_of (48 + n)) = n" "n < 10 \<Longrightarrow> is_ascii_digit (char_of (48 + n))"
  by (simp_all add: digit_val_def is_ascii_digit_def of_char_of)

lemma digits_val_snoc [simp]: "digits_val (s @ [c]) = 10 * digits_val s + digit_val c"
  by (simp add: digits_val_def)

lemma digits_val_Nil [simp]: "digits_val [] = 0"
  by (simp add: digits_val_def)

lemma digits_val_show_nat [simp]: "digits_val (show_nat n) = n"
  unfolding show_nat_def
proof (induction n rule: digits_rev.induct)
  case (1 n)
  show ?case
  proof (cases "n < 10")
    case True
    then show ?thesis by (simp add: digits_rev.simps [of n] digit_char digits_val_def)
  next
    case False
    with 1 show ?thesis by (simp add: digits_rev.simps [of n] digit_char)
  qed
qed

lemma show_nat_digits: "list_all is_ascii_digit (show_nat n)"
  unfolding show_nat_def list_all_rev
proof (induction n rule: digits_rev.induct)
  case (1 n)
  then show ?case by (cases "n < 10") (simp_all add: digits_rev.simps [of n] digit_char)
qed

lemma show_nat_not_Nil [simp]: "show_nat n \<noteq> []"
  by (simp add: show_nat_def digits_rev.simps [of n])

lemma parse_digits_show_nat [simp]: "parse_digits (show_nat n) = Some n"
  by (simp add: parse_digits_def show_nat_digits)

lemma digit_not_sign: "is_ascii_digit c \<Longrightarrow> c \<noteq> CHR ''+'' \<and> c \<noteq> CHR ''-'' \<and> c \<noteq> CHR '':''"
  by (auto simp: is_ascii_digit_def)

lemma parse_int_show_int [simp]: "parse_int (show_int i) = Some i"
proof (cases "i < 0")
  case True
  then show ?thesis by (simp add: parse_int_def show_int_def)
next
  case False
  obtain c cs where s: "show_nat (nat i) = c # cs" by (cases "show_nat (nat i)") auto
  then have "is_ascii_digit c" using show_nat_digits [of "nat i"] by simp
  from digit_not_sign [OF this] False s show ?thesis
    using parse_digits_show_nat [of "nat i"] by (simp add: parse_int_def show_int_def)
qed

lemma parse_i64_show_int: "in_i64 i \<Longrightarrow> parse_i64 (show_int i) = Some i"
  by (simp add: parse_i64_def)

lemma colon_not_in_show_int: "CHR '':'' \<notin> set (show_int i)"
proof -
  have "CHR '':'' \<notin> set (show_nat n)" for n
    using show_nat_digits [of n] digit_not_sign by (auto simp: list_all_iff)
  then show ?thesis by (simp add: show_int_def)
qed

lemma clamp_u32_nat: "0 \<le> i \<Longrightarrow> i < 2 ^ 32 \<Longrightarrow> int (clamp_u32 i) = i"
  by (simp add: clamp_u32_def)

end
