(* ===== verification/Read.thy ===== *)
theory Read
  imports Consistency Numbers
begin

text \<open>
  The read queries of \<^verbatim>\<open>crates/mail-store/src/read.rs\<close> that the mail window runs: the sidebar,
  the Inbox's category tabs and the keyset-paged thread list of a mailbox with its
  narrowings.
\<close>

section \<open>Pages\<close>

definition DEFAULT_PAGE_SIZE :: nat where "DEFAULT_PAGE_SIZE = 100"
definition MAX_PAGE_SIZE :: nat where "MAX_PAGE_SIZE = 500"
definition MAX_NARROWINGS :: nat where "MAX_NARROWINGS = 7"
definition FILTER_UNREAD :: string where "FILTER_UNREAD = ''@unread''"
definition FILTER_STARRED :: string where "FILTER_STARRED = ''@starred''"
definition FILTER_ATTACHMENTS :: string where "FILTER_ATTACHMENTS = ''@attachments''"

record thread_summary =
  ts_id :: thread_id
  ts_subject :: string
  ts_snippet :: string
  ts_last_message_at :: millis
  ts_message_count :: nat
  ts_unread_count :: nat
  ts_has_attachments :: bool
  ts_is_starred :: bool
  ts_participants :: "email_address list"
  ts_label_ids :: "label_id list"
  ts_replied :: bool

record thread_page =
  pg_rows :: "thread_summary list"
  pg_next_cursor :: "string option"

text \<open>Whether you replied: a message you sent is later than the thread's first.\<close>

definition replied :: "mail_store \<Rightarrow> int \<Rightarrow> bool" where
  "replied db t \<longleftrightarrow>
     (let ms = filter (\<lambda>m. m_thread m = t) (messages db)
      in list_ex (\<lambda>m. m_is_sent_by_me m \<and>
           list_ex (\<lambda>f. mh_internal_date (m_head f) < mh_internal_date (m_head m)) ms) ms)"

definition thread_summary_row :: "mail_store \<Rightarrow> thread_row \<Rightarrow> thread_summary" where
  "thread_summary_row db r =
     \<lparr>ts_id = t_gmail_id r, ts_subject = t_subject r, ts_snippet = t_snippet r,
      ts_last_message_at = t_last_message_at r, ts_message_count = clamp_u32 (t_message_count r),
      ts_unread_count = clamp_u32 (t_unread_count r), ts_has_attachments = t_has_attachments r,
      ts_is_starred = t_is_starred r, ts_participants = t_participants r, ts_label_ids = t_label_ids r,
      ts_replied = replied db (t_id r)\<rparr>"

definition encode_cursor :: "int \<Rightarrow> int \<Rightarrow> string" where
  "encode_cursor at i = show_int at @ '':'' @ show_int i"

definition decode_cursor :: "string \<Rightarrow> (store_error, int \<times> int) result" where
  "decode_cursor c =
     (case split_once (CHR '':'') c of
        None \<Rightarrow> Err (InvalidData (''bad cursor '' @ c))
      | Some (a, b) \<Rightarrow>
          (case (parse_i64 a, parse_i64 b) of
             (Some x, Some y) \<Rightarrow> Ok (x, y)
           | _ \<Rightarrow> Err (InvalidData (''bad cursor '' @ c))))"

definition carries :: "mail_store \<Rightarrow> int \<Rightarrow> label_id \<Rightarrow> bool" where
  "carries db t l \<longleftrightarrow> list_ex (\<lambda>(l', at, t'). t' = t \<and> l' = l) (thread_labels db)"

text \<open>The condition that \<^verbatim>\<open>narrowing_clause\<close> appends to the query.\<close>

definition narrowing_clause :: "mail_store \<Rightarrow> string \<Rightarrow> thread_row \<Rightarrow> bool" where
  "narrowing_clause db label r \<longleftrightarrow>
     (if label = FILTER_UNREAD then 0 < t_unread_count r
      else if label = FILTER_STARRED then t_is_starred r
      else if label = FILTER_ATTACHMENTS then t_has_attachments r
      else case label of
             CHR ''!'' # excluded \<Rightarrow> \<not> carries db (t_id r) excluded
           | _ \<Rightarrow> if label = PRIMARY then \<not> list_ex (carries db (t_id r)) CATEGORIES
                  else carries db (t_id r) label)"

text \<open>The mailbox rows joined with their threads: the sort key and the thread.\<close>

definition mailbox_rows :: "mail_store \<Rightarrow> label_id \<Rightarrow> string list \<Rightarrow> ((int \<times> int) \<times> thread_row) list" where
  "mailbox_rows db label narrowings =
     List.map_filter (\<lambda>(l, at, t).
        if l = label then
          (case find_thread db t of
             None \<Rightarrow> None
           | Some r \<Rightarrow> if list_all (\<lambda>n. narrowing_clause db n r) narrowings then Some ((at, t), r) else None)
        else None) (thread_labels db)"

definition list_threads ::
    "mail_store \<Rightarrow> string \<Rightarrow> string option \<Rightarrow> nat \<Rightarrow> (store_error, thread_page) result" where
  "list_threads db mailbox cursor limit0 =
     (let limit = max 1 (min MAX_PAGE_SIZE limit0)
      in case (case cursor of None \<Rightarrow> Ok (2 ^ 63 - 1, 2 ^ 63 - 1) | Some c \<Rightarrow> decode_cursor c) of
           Inl e \<Rightarrow> Err e
         | Inr after \<Rightarrow>
             let parts = split_on (\<lambda>c. c = CHR ''+'') mailbox;
                 label = hd parts;
                 narrowings = tl parts
             in if length narrowings > MAX_NARROWINGS
                then Err (InvalidData (''mailbox narrows too many times: '' @ mailbox))
                else let found = take (limit + 1) (rev (sort_key fst
                                   (filter (\<lambda>(key, r). key < after) (mailbox_rows db label narrowings))));
                         page = take limit found
                     in Ok \<lparr>pg_rows = map (\<lambda>(key, r). thread_summary_row db r) page,
                            pg_next_cursor =
                              (if length found > limit
                               then Some (encode_cursor (fst (fst (last page))) (snd (fst (last page)))) else None)\<rparr>)"

section \<open>Category tabs\<close>

record category_count =
  cc_id :: label_id
  cc_total :: nat
  cc_unread :: nat

definition category_counts :: "(label_id option \<times> int \<times> int) list \<Rightarrow> category_count list" where
  "category_counts rows =
     map (\<lambda>i. let (total, unread) =
                (case List.find (\<lambda>row. (case fst row of None \<Rightarrow> PRIMARY | Some c \<Rightarrow> c) = i) rows of
                   None \<Rightarrow> (0, 0) | Some row \<Rightarrow> snd row)
              in \<lparr>cc_id = i, cc_total = clamp_u32 total, cc_unread = clamp_u32 unread\<rparr>) (PRIMARY # CATEGORIES)"

text \<open>
  The rows of \<^verbatim>\<open>inbox_category_stats\<close>; only those of the tabs matter to \<^verbatim>\<open>category_counts\<close>, and
  their order does not, the category being the table's key.
\<close>

definition stored_inbox_categories :: "mail_store \<Rightarrow> category_count list" where
  "stored_inbox_categories db =
     category_counts (List.map_filter (\<lambda>c. map_option (\<lambda>counts. (Some c, counts)) (inbox_category_stats db c))
       (PRIMARY # CATEGORIES))"

definition thread_category :: "mail_store \<Rightarrow> int \<Rightarrow> label_id option" where
  "thread_category db t = List.find (carries db t) CATEGORIES"

text \<open>The Inbox's threads grouped by category, each group with its threads and unread threads.\<close>

definition count_inbox_categories :: "mail_store \<Rightarrow> string list \<Rightarrow> category_count list" where
  "count_inbox_categories db also =
     (let rows = map snd (mailbox_rows db INBOX also);
          cats = remdups (map (\<lambda>r. thread_category db (t_id r)) rows)
      in category_counts (map (\<lambda>c.
           let grp = filter (\<lambda>r. thread_category db (t_id r) = c) rows
           in (c, int (length grp), int (length (filter (\<lambda>r. 0 < t_unread_count r) grp)))) cats))"

definition inbox_categories :: "mail_store \<Rightarrow> string list \<Rightarrow> category_count list" where
  "inbox_categories db also =
     (if also = [] then stored_inbox_categories db else count_inbox_categories db also)"

section \<open>The sidebar\<close>

record mailbox =
  mb_kind :: mailbox_kind
  mb_label_id :: "label_id option"
  mb_name :: string
  mb_unread_count :: nat
  mb_total_count :: nat

definition SYSTEM_MAILBOXES :: "(mailbox_kind \<times> label_id \<times> string) list" where
  "SYSTEM_MAILBOXES =
     [(MkInbox, ''INBOX'', ''Inbox''), (MkStarred, ''STARRED'', ''Starred''),
      (MkImportant, ''IMPORTANT'', ''Important''), (MkSent, ''SENT'', ''Sent''),
      (MkDrafts, ''DRAFT'', ''Drafts''), (MkArchive, ARCHIVE_LABEL, ''Archive''),
      (MkSpam, ''SPAM'', ''Spam''), (MkTrash, ''TRASH'', ''Trash'')]"

definition label_counts :: "mail_store \<Rightarrow> label_id \<Rightarrow> int \<times> int" where
  "label_counts db l =
     (if l \<in> lr_gmail_id ` set (labels db)
      then (case label_stats db l of None \<Rightarrow> (0, 0) | Some p \<Rightarrow> p) else (0, 0))"

definition system_mailbox :: "mail_store \<Rightarrow> mailbox_kind \<times> label_id \<times> string \<Rightarrow> mailbox" where
  "system_mailbox db entry =
     (let (kind, l, name) = entry;
          (total, unread0) = label_counts db l;
          cats = inbox_categories db [];
          unread = (if kind = MkInbox \<and> list_ex (\<lambda>c. cc_id c \<noteq> PRIMARY \<and> 0 < cc_total c) cats
                    then (case List.find (\<lambda>c. cc_id c = PRIMARY) cats of None \<Rightarrow> 0 | Some c \<Rightarrow> int (cc_unread c))
                    else unread0)
      in \<lparr>mb_kind = kind, mb_label_id = (if kind \<noteq> MkArchive then Some l else None), mb_name = name,
          mb_unread_count = clamp_u32 unread, mb_total_count = clamp_u32 total\<rparr>)"

definition user_mailbox :: "mail_store \<Rightarrow> label_row \<Rightarrow> mailbox" where
  "user_mailbox db r =
     (let (total, unread) = label_counts db (lr_gmail_id r)
      in \<lparr>mb_kind = MkLabel, mb_label_id = Some (lr_gmail_id r), mb_name = lr_name r,
          mb_unread_count = clamp_u32 unread, mb_total_count = clamp_u32 total\<rparr>)"

definition list_mailboxes :: "mail_store \<Rightarrow> mailbox list" where
  "list_mailboxes db =
     map (system_mailbox db) SYSTEM_MAILBOXES @
     map (user_mailbox db)
       (sort_key (\<lambda>r. to_ascii_lowercase (lr_name r)) (filter (\<lambda>r. lr_kind r = KUser \<and> lr_visible r) (labels db)))"

definition mailbox_label :: "mailbox \<Rightarrow> label_id" where
  "mailbox_label m = (case mb_label_id m of Some l \<Rightarrow> l | None \<Rightarrow> ARCHIVE_LABEL)"

fun kind_rank :: "row_kind \<Rightarrow> nat" where
  "kind_rank KVirtual = 0"
| "kind_rank KUser = 1"
| "kind_rank KSystem = 2"

definition list_labels :: "mail_store \<Rightarrow> label list" where
  "list_labels db =
     map (\<lambda>r. \<lparr>lb_id = lr_gmail_id r, lb_name = lr_name r,
               lb_kind = (if lr_kind r = KUser then UserLabel else SystemLabel),
               lb_color = (case (lr_color_bg r, lr_color_fg r) of
                             (Some b, Some f) \<Rightarrow> Some \<lparr>lc_background = b, lc_text = f\<rparr> | _ \<Rightarrow> None),
               lb_visible = lr_visible r\<rparr>)
       (sort_key (\<lambda>r. (kind_rank (lr_kind r), to_ascii_lowercase (lr_name r)))
          (filter (\<lambda>r. lr_kind r \<noteq> KVirtual) (labels db)))"

section \<open>Keyset paging\<close>

text \<open>
  The contract of a keyset-paged query: rows in strictly descending key order, a page being
  the first \<open>n\<close> rows below a key. Following the last key of each full page visits every row once.
\<close>

locale keyset =
  fixes rows :: "'q \<Rightarrow> ('k::linorder \<times> 'r) list"
    and valid :: "'q \<Rightarrow> bool"
  assumes strict: "valid q \<Longrightarrow> sorted_wrt (>) (map fst (rows q))"
begin

lemma after_nth:
  assumes "valid q" "i < length (rows q)"
  shows "filter (\<lambda>(key, r). key < fst (rows q ! i)) (rows q) = drop (Suc i) (rows q)"
proof -
  have lt: "fst (rows q ! j) < fst (rows q ! i) \<longleftrightarrow> i < j" if "j < length (rows q)" for j
    using strict [OF assms(1)] assms(2) that by (cases i j rule: linorder_cases) (auto simp: sorted_wrt_iff_nth_less dest: less_not_sym)
  have "\<not> fst x < fst (rows q ! i)" if "x \<in> set (take (Suc i) (rows q))" for x
    using that assms(2) lt by (auto simp: in_set_conv_nth)
  then have "filter (\<lambda>(key, r). key < fst (rows q ! i)) (take (Suc i) (rows q)) = []"
    by (fastforce simp: filter_empty_conv)
  moreover have "fst x < fst (rows q ! i)" if "x \<in> set (drop (Suc i) (rows q))" for x
    using that assms(2) lt by (auto simp: in_set_conv_nth)
  then have "filter (\<lambda>(key, r). key < fst (rows q ! i)) (drop (Suc i) (rows q)) = drop (Suc i) (rows q)"
    by (fastforce simp: filter_id_conv)
  ultimately show ?thesis
    by (metis append_Nil append_take_drop_id filter_append)
qed

lemma after_position:
  assumes "valid q" "0 < n" "n \<le> length (rows q)"
  shows "filter (\<lambda>(key, r). key < fst (last (take n (rows q)))) (rows q) = drop n (rows q)"
  using after_nth [OF assms(1), of "n - 1"] assms(2,3) by (simp add: last_take)

end

text \<open>What a client of \<^verbatim>\<open>list_threads\<close> gathers by following the cursors, in at most \<open>fuel\<close> pages.\<close>

fun read_all :: "nat \<Rightarrow> mail_store \<Rightarrow> string \<Rightarrow> nat \<Rightarrow> string option \<Rightarrow> thread_summary list option" where
  "read_all 0 db mailbox limit cursor = None"
| "read_all (Suc fuel) db mailbox limit cursor =
     (case list_threads db mailbox cursor limit of
        Inl e \<Rightarrow> None
      | Inr p \<Rightarrow>
          (case pg_next_cursor p of
             None \<Rightarrow> Some (pg_rows p)
           | Some c \<Rightarrow> map_option (\<lambda>rest. pg_rows p @ rest) (read_all fuel db mailbox limit (Some c))))"

abbreviation mailbox_label_part :: "string \<Rightarrow> label_id" where
  "mailbox_label_part mailbox \<equiv> hd (split_on (\<lambda>c. c = CHR ''+'') mailbox)"

abbreviation mailbox_narrowings :: "string \<Rightarrow> string list" where
  "mailbox_narrowings mailbox \<equiv> tl (split_on (\<lambda>c. c = CHR ''+'') mailbox)"

definition newest_first :: "mail_store \<Rightarrow> string \<Rightarrow> ((int \<times> int) \<times> thread_row) list" where
  "newest_first db mailbox =
     rev (sort_key fst (mailbox_rows db (mailbox_label_part mailbox) (mailbox_narrowings mailbox)))"

lemma filter_newest_first:
  "rev (sort_key fst (filter (\<lambda>(key, r). key < k) rows)) = filter (\<lambda>(key, r). key < k) (rev (sort_key fst rows))"
  by (simp add: filter_sort [symmetric] rev_filter [symmetric])

lemma decode_encode: "in_i64 a \<Longrightarrow> in_i64 b \<Longrightarrow> decode_cursor (encode_cursor a b) = Ok (a, b)"
proof -
  assume *: "in_i64 a" "in_i64 b"
  have "split_once (CHR '':'') (encode_cursor a b) = Some (show_int a, show_int b)"
    using split_once_append [OF colon_not_in_show_int, of a "show_int b"] by (simp add: encode_cursor_def)
  with * show ?thesis by (simp add: decode_cursor_def parse_i64_show_int)
qed

lemma distinct_mailbox_keys:
  assumes "distinct (map label_thread (thread_labels db))"
  shows "distinct (map fst (mailbox_rows db l ns))"
proof -
  have "distinct (map fst (List.map_filter (\<lambda>(l', at, t). if l' = l then
          (case find_thread db t of None \<Rightarrow> None
           | Some r \<Rightarrow> if list_all (\<lambda>n. narrowing_clause db n r) ns then Some ((at, t), r) else None)
        else None) rows)) " (is "distinct (map fst (List.map_filter ?f rows))")
    if "distinct (map label_thread rows)" for rows
    using that
  proof (induction rows)
    case (Cons row rows)
    have "fst x \<noteq> fst y" if "?f row = Some x" "y \<in> set (List.map_filter ?f rows)" for x y
    proof
      assume same: "fst x = fst y"
      obtain l1 a1 t1 where row: "row = (l1, a1, t1)" by (cases row)
      from that(2) obtain l2 a2 t2 where "(l2, a2, t2) \<in> set rows" "?f (l2, a2, t2) = Some y"
        by (auto simp: set_map_filter)
      with same that(1) row have "(l1, a1, t1) = row" "(l1, t1) = (l2, t2)" "(l2, a2, t2) \<in> set rows"
        by (auto split: if_splits option.splits)
      with Cons.prems show False by force
    qed
    then have "fst x \<notin> fst ` set (List.map_filter ?f rows)" if "?f row = Some x" for x
      using that by blast
    with Cons show ?case by (cases "?f row") (simp_all add: map_filter_simps)
  qed (simp add: map_filter_simps)
  then show ?thesis using assms by (simp add: mailbox_rows_def)
qed

interpretation pager: keyset "\<lambda>(db, mailbox). newest_first db mailbox" "\<lambda>(db, mailbox). struct_ok db"
proof (unfold_locales, clarify)
  fix db mailbox assume "struct_ok db"
  then have "distinct (map fst (mailbox_rows db (mailbox_label_part mailbox) (mailbox_narrowings mailbox)))"
    by (intro distinct_mailbox_keys struct_ok_facts(7))
  then have "sorted_wrt (<) (map fst (sort_key fst (mailbox_rows db (mailbox_label_part mailbox) (mailbox_narrowings mailbox))))"
    by (simp add: strict_sorted_iff) (metis distinct_map distinct_sort set_sort)
  then show "sorted_wrt (>) (map fst (newest_first db mailbox))"
    by (simp add: newest_first_def rev_map [symmetric] sorted_wrt_rev)
qed

lemma list_threads_page:
  assumes "length (mailbox_narrowings mailbox) \<le> MAX_NARROWINGS"
    and "cursor = None \<and> after = (2 ^ 63 - 1, 2 ^ 63 - 1) \<or> (\<exists>c. cursor = Some c \<and> decode_cursor c = Ok after)"
    and "limit = max 1 (min MAX_PAGE_SIZE limit0)"
    and "found = filter (\<lambda>(key, r). key < after) (newest_first db mailbox)"
  shows "list_threads db mailbox cursor limit0 =
    Ok \<lparr>pg_rows = map (\<lambda>(key, r). thread_summary_row db r) (take limit found),
        pg_next_cursor = (if length found > limit
          then Some (encode_cursor (fst (fst (last (take limit found)))) (snd (fst (last (take limit found))))) else None)\<rparr>"
proof -
  have "(case cursor of None \<Rightarrow> Ok (2 ^ 63 - 1, 2 ^ 63 - 1) | Some c \<Rightarrow> decode_cursor c) = Ok after"
    using assms(2) by auto
  then show ?thesis
    using assms(1,3,4)
    by (simp add: list_threads_def Let_def filter_newest_first newest_first_def [symmetric] take_take)
qed

lemma read_all_from:
  assumes ok: "struct_ok db" "length (mailbox_narrowings mailbox) \<le> MAX_NARROWINGS"
    and i64: "\<And>k r. (k, r) \<in> set (newest_first db mailbox) \<Longrightarrow> in_i64 (fst k) \<and> in_i64 (snd k)"
    and start: "cursor = None \<and> after = (2 ^ 63 - 1, 2 ^ 63 - 1) \<or> (\<exists>c. cursor = Some c \<and> decode_cursor c = Ok after)"
    and pos: "filter (\<lambda>(key, r). key < after) (newest_first db mailbox) = drop n (newest_first db mailbox)"
    and fuel: "length (newest_first db mailbox) < fuel + n" and n: "n \<le> length (newest_first db mailbox)"
  shows "read_all fuel db mailbox limit0 cursor =
    Some (map (\<lambda>(key, r). thread_summary_row db r) (drop n (newest_first db mailbox)))"
  using start pos fuel n
proof (induction fuel arbitrary: cursor after n)
  case 0
  then show ?case by simp
next
  case (Suc fuel)
  let ?L = "newest_first db mailbox"
  obtain limit where limit: "limit = max 1 (min MAX_PAGE_SIZE limit0)" "0 < limit" by simp
  note page = list_threads_page [OF ok(2) Suc.prems(1) limit(1) Suc.prems(2) [symmetric]]
  show ?case
  proof (cases "limit < length (drop n ?L)")
    case False
    with page show ?thesis by simp
  next
    case True
    let ?k = "fst (last (take limit (drop n ?L)))"
    have last: "last (take limit (drop n ?L)) = last (take (n + limit) ?L)"
      using True limit(2) by (subst last_take; simp add: last_take)
    have "last (take (n + limit) ?L) \<in> set ?L"
      using True by (intro set_mp [OF set_take_subset last_in_set]) (use limit(2) in auto)
    then have "in_i64 (fst ?k)" "in_i64 (snd ?k)"
      using i64 [of ?k "snd (last (take (n + limit) ?L))"] by (simp_all add: last)
    then have dec: "decode_cursor (encode_cursor (fst ?k) (snd ?k)) = Ok ?k" by (simp add: decode_encode)
    have "filter (\<lambda>(key, r). key < ?k) ?L = drop (n + limit) ?L"
      unfolding last using pager.after_position [of "(db, mailbox)" "n + limit"] ok(1) True limit(2) by simp
    then have "read_all fuel db mailbox limit0 (Some (encode_cursor (fst ?k) (snd ?k))) =
        Some (map (\<lambda>(key, r). thread_summary_row db r) (drop (n + limit) ?L))"
      using Suc.prems(3) True dec limit(2) by (intro Suc.IH [where after = ?k]) auto
    with True page show ?thesis
      by (simp add: map_append [symmetric] add.commute [of n] drop_drop [symmetric] del: map_append drop_drop)
  qed
qed

section \<open>What paging returns\<close>

text \<open>SQLite integers are signed 64-bit; the first page asks for keys below the largest pair.\<close>

definition keys_fit :: "mail_store \<Rightarrow> bool" where
  "keys_fit db \<longleftrightarrow> (\<forall>(l, at, t) \<in> set (thread_labels db). in_i64 at \<and> in_i64 t \<and> (at, t) < (2 ^ 63 - 1, 2 ^ 63 - 1))"

lemma mailbox_rows_iff:
  assumes "struct_ok db"
  shows "(k, r) \<in> set (mailbox_rows db l ns) \<longleftrightarrow>
    r \<in> set (threads db) \<and> snd k = t_id r \<and> (l, fst k, t_id r) \<in> set (thread_labels db) \<and>
    (\<forall>n \<in> set ns. narrowing_clause db n r)"
proof -
  have find: "find_thread db t = Some r \<longleftrightarrow> r \<in> set (threads db) \<and> t_id r = t" for t
    using threads_table.find_key_iff [OF struct_ok_facts(2) [OF assms]] by (simp add: find_thread_def)
  have "(k, r) \<in> set (mailbox_rows db l ns) \<longleftrightarrow>
      (l, fst k, snd k) \<in> set (thread_labels db) \<and> find_thread db (snd k) = Some r \<and> (\<forall>n \<in> set ns. narrowing_clause db n r)"
    unfolding mailbox_rows_def set_map_filter
    by (cases k) (auto simp: list_all_iff split: if_splits option.splits intro: rev_bexI)
  then show ?thesis unfolding find by (cases k) auto
qed

lemma newest_first_threads:
  assumes "struct_ok db"
  shows "set (map snd (newest_first db mailbox)) =
    {r \<in> set (threads db). carries db (t_id r) (mailbox_label_part mailbox) \<and>
       (\<forall>n \<in> set (mailbox_narrowings mailbox). narrowing_clause db n r)}"
proof (rule set_eqI)
  fix r
  have "r \<in> set (map snd (newest_first db mailbox)) \<longleftrightarrow>
      (\<exists>k. (k, r) \<in> set (mailbox_rows db (mailbox_label_part mailbox) (mailbox_narrowings mailbox)))"
    unfolding newest_first_def set_map set_rev set_sort image_iff by (metis snd_conv surj_pair)
  also have "\<dots> \<longleftrightarrow> r \<in> {r \<in> set (threads db). carries db (t_id r) (mailbox_label_part mailbox) \<and>
       (\<forall>n \<in> set (mailbox_narrowings mailbox). narrowing_clause db n r)}"
    unfolding mailbox_rows_iff [OF assms] carries_def list_ex_iff by auto
  finally show "r \<in> set (map snd (newest_first db mailbox)) \<longleftrightarrow> \<dots>" .
qed

lemma newest_first_distinct:
  assumes "struct_ok db"
  shows "distinct (map (t_id \<circ> snd) (newest_first db mailbox))"
proof -
  let ?rows = "mailbox_rows db (mailbox_label_part mailbox) (mailbox_narrowings mailbox)"
  have "k = k' \<and> r = r'" if "(k, r) \<in> set ?rows" "(k', r') \<in> set ?rows" "t_id r = t_id r'" for k r k' r'
  proof -
    have "(fst k, t_id r) = (fst k', t_id r')"
      using that struct_ok_facts(7) [OF assms] unfolding mailbox_rows_iff [OF assms]
      by (force simp: distinct_map inj_on_def)
    moreover have "r = r'"
      using that threads_table.key_unique [OF struct_ok_facts(2) [OF assms]] unfolding mailbox_rows_iff [OF assms] by blast
    ultimately show ?thesis using that unfolding mailbox_rows_iff [OF assms] by (simp add: prod_eq_iff)
  qed
  then have "inj_on (t_id \<circ> snd) (set ?rows)" by (auto simp: inj_on_def)
  moreover have "distinct ?rows"
    using distinct_mailbox_keys [OF struct_ok_facts(7) [OF assms]] by (simp add: distinct_map)
  ultimately show ?thesis
    by (simp add: newest_first_def distinct_map)
qed

text \<open>
  Claim C3: Reading a mailbox page by page, following \<open>next_cursor\<close> from the start with any page
  size, ends and returns exactly the threads of the mailbox that satisfy the narrowings, each
  once, newest first. The store is well formed, its keys are signed 64-bit integers and the
  mailbox has at most seven narrowings; one page per thread and one more are always enough.
\<close>

theorem paging_visits_every_thread_once:
  assumes "struct_ok db" "keys_fit db" "length (mailbox_narrowings mailbox) \<le> MAX_NARROWINGS"
    and "length (thread_labels db) < fuel"
  shows "\<exists>rows. read_all fuel db mailbox limit None = Some (map (thread_summary_row db) rows) \<and>
    set rows = {r \<in> set (threads db). carries db (t_id r) (mailbox_label_part mailbox) \<and>
       (\<forall>n \<in> set (mailbox_narrowings mailbox). narrowing_clause db n r)} \<and>
    distinct (map t_id rows) \<and>
    (\<exists>ats. length ats = length rows \<and> sorted_wrt (>) (zip ats (map t_id rows)) \<and>
      (\<forall>(at, r) \<in> set (zip ats rows). (mailbox_label_part mailbox, at, t_id r) \<in> set (thread_labels db)))"
proof -
  let ?L = "newest_first db mailbox"
  have fit: "in_i64 (fst k) \<and> in_i64 (snd k) \<and> k < (2 ^ 63 - 1, 2 ^ 63 - 1) \<and> snd k = t_id r \<and>
      (mailbox_label_part mailbox, fst k, t_id r) \<in> set (thread_labels db)" if "(k, r) \<in> set ?L" for k r
    using that assms(2) unfolding newest_first_def set_rev set_sort mailbox_rows_iff [OF assms(1)] keys_fit_def
    by (cases k) auto
  have "length (List.map_filter f xs) \<le> length xs" for f :: "label_id \<times> int \<times> int \<Rightarrow> ((int \<times> int) \<times> thread_row) option" and xs
    by (simp add: List.map_filter_def)
  then have "length ?L \<le> length (thread_labels db)" by (simp add: newest_first_def mailbox_rows_def)
  moreover have "filter (\<lambda>(key, r). key < (2 ^ 63 - 1, 2 ^ 63 - 1)) ?L = drop 0 ?L"
    using fit by (auto simp: filter_id_conv)
  ultimately have "read_all fuel db mailbox limit None = Some (map (thread_summary_row db) (map snd ?L))"
    using read_all_from [OF assms(1,3) _ disjI1, of None "(2 ^ 63 - 1, 2 ^ 63 - 1)" 0 fuel limit] fit assms(4)
    by (auto simp: comp_def split_beta)
  moreover have "sorted_wrt (>) (zip (map (fst \<circ> fst) ?L) (map t_id (map snd ?L)))"
  proof -
    have "zip (map (fst \<circ> fst) ?L) (map t_id (map snd ?L)) = map fst ?L"
      using fit by (auto simp: zip_map_map zip_same_conv_map prod_eq_iff split_beta intro!: map_cong)
    then show ?thesis using pager.strict [of "(db, mailbox)"] assms(1) by simp
  qed
  moreover have "\<forall>(at, r) \<in> set (zip (map (fst \<circ> fst) ?L) (map snd ?L)).
      (mailbox_label_part mailbox, at, t_id r) \<in> set (thread_labels db)"
    using fit by (auto simp: zip_map_map zip_same_conv_map)
  ultimately show ?thesis
    using newest_first_threads [OF assms(1), of mailbox] newest_first_distinct [OF assms(1), of mailbox]
    by (intro exI [of _ "map snd ?L"] conjI exI [of _ "map (fst \<circ> fst) ?L"]) simp_all
qed

text \<open>A store with two Inbox threads, read one row at a time.\<close>

definition two_inbox_threads :: mail_store where
  "two_inbox_threads = empty_store\<lparr>
     labels := labels empty_store @ [\<lparr>lr_gmail_id = INBOX, lr_name = ''Inbox'', lr_kind = KSystem,
                                     lr_color_bg = None, lr_color_fg = None, lr_visible = True\<rparr>],
     threads := map (\<lambda>i. \<lparr>t_id = i, t_gmail_id = show_int i, t_subject = [], t_snippet = [], t_first_message_at = i,
        t_last_message_at = 10 * i, t_message_count = 1, t_unread_count = 0, t_has_attachments = False,
        t_is_starred = False, t_participants = [], t_label_ids = [INBOX]\<rparr>) [1, 2],
     thread_labels := [(INBOX, 10, 1), (INBOX, 20, 2)]\<rparr>"

lemma two_inbox_threads_ok: "struct_ok two_inbox_threads" "keys_fit two_inbox_threads"
  by (auto simp: two_inbox_threads_def struct_ok_def labels_ok_def empty_store_def keys_fit_def in_i64_def
      ARCHIVE_LABEL_def INBOX_def show_int_def show_nat_def digits_rev.simps char_of_eq_iff)

theorem paging_visits_every_thread_once_witness:
  "\<exists>rows. read_all 3 two_inbox_threads ''INBOX'' 1 None = Some (map (thread_summary_row two_inbox_threads) rows) \<and>
    t_id ` set rows = {1, 2}"
proof -
  have split: "split_on (\<lambda>c. c = CHR ''+'') ''INBOX'' = [''INBOX'']" by simp
  have ids: "t_id ` set (threads two_inbox_threads) = {1, 2}" by (auto simp: two_inbox_threads_def)
  have "carries two_inbox_threads i ''INBOX''" if "i \<in> {1, 2}" for i
    using that by (auto simp: carries_def two_inbox_threads_def INBOX_def)
  then have "{r \<in> set (threads two_inbox_threads). carries two_inbox_threads (t_id r) ''INBOX''} = set (threads two_inbox_threads)"
    using ids by blast
  moreover have "length (thread_labels two_inbox_threads) < 3" by (simp add: two_inbox_threads_def)
  ultimately show ?thesis
    using paging_visits_every_thread_once [OF two_inbox_threads_ok, of "''INBOX''" 3 1] ids unfolding split
    by (simp add: MAX_NARROWINGS_def) metis
qed

end
