(* ===== verification/Transactions.thy ===== *)
theory Transactions
  imports Writer Read
begin

text \<open>
  Write transactions on the mail store (\<^verbatim>\<open>db.rs\<close> with \<^verbatim>\<open>write.rs\<close>), the change report that a
  transaction returns to the user interface, and the checker of \<^verbatim>\<open>consistency.rs\<close>.
\<close>

section \<open>Transactions\<close>

text \<open>One call on the writer. A caller composes any of them and calls \<open>finish\<close>.\<close>

datatype write_op =
    UpsertMessage incoming_message
  | ModifyLabels message_id "label_id list" "label_id list"
  | DeleteMessage message_id
  | AdoptLocalCopy message_id message_id
  | UpsertLabels "label list"
  | RetainLabels "label_id list"

fun write_step :: "mail_writer \<Rightarrow> write_op \<Rightarrow> (store_error, mail_writer) result" where
  "write_step w (UpsertMessage m) = upsert_message w m"
| "write_step w (ModifyLabels g add remove) = map_sum id fst (modify_message_labels w g add remove)"
| "write_step w (DeleteMessage g) = Ok (fst (delete_message w g))"
| "write_step w (AdoptLocalCopy loc sent) = Ok (adopt_local_copy w loc sent)"
| "write_step w (UpsertLabels ls) = Ok (upsert_labels w ls)"
| "write_step w (RetainLabels keep) = Ok (retain_labels w keep)"

fun write_steps :: "mail_writer \<Rightarrow> write_op list \<Rightarrow> (store_error, mail_writer) result" where
  "write_steps w [] = Ok w"
| "write_steps w (p # ps) = (case write_step w p of Inl e \<Rightarrow> Err e | Inr w' \<Rightarrow> write_steps w' ps)"

text \<open>
  \<^verbatim>\<open>Db::submit\<close> around such a closure: the transaction commits when every call and \<open>finish\<close>
  succeed, and is rolled back otherwise.
\<close>

definition write_transaction ::
    "mail_store \<Rightarrow> stored_labels \<Rightarrow> write_op list \<Rightarrow> mail_store \<times> (store_error, thread_changes) result" where
  "write_transaction db stored ps =
     (case write_steps (with_stored_labels (writer_new db) stored) ps of
        Inl e \<Rightarrow> (db, Err e)
      | Inr w \<Rightarrow>
          (case finish w of
             Inl e \<Rightarrow> (db, Err e)
           | Inr (db', ch) \<Rightarrow> (db', Ok ch)))"

text \<open>No provider lists a label under the id of the store's own virtual label.\<close>

fun op_fits :: "write_op \<Rightarrow> bool" where
  "op_fits (UpsertLabels ls) = list_all (\<lambda>l. lb_id l \<noteq> ARCHIVE_LABEL) ls"
| "op_fits _ = True"

text \<open>
  The contract between a batch of steps and the store it is opened on: opening gives a
  writer that is well formed, every step keeps it so, and closing always succeeds.
\<close>

locale batch_writer =
  fixes opened :: "'db \<Rightarrow> 'o \<Rightarrow> 'w"
    and step :: "'w \<Rightarrow> 'p \<Rightarrow> ('e, 'w) result"
    and close :: "'w \<Rightarrow> ('e, 'db \<times> 'c) result"
    and db_ok :: "'db \<Rightarrow> bool"
    and batch_ok :: "'w \<Rightarrow> bool"
    and fits :: "'p \<Rightarrow> bool"
  assumes opened_ok: "db_ok db \<Longrightarrow> batch_ok (opened db opts)"
    and step_ok: "batch_ok w \<Longrightarrow> fits p \<Longrightarrow> step w p = Ok w' \<Longrightarrow> batch_ok w'"
    and close_ok: "batch_ok w \<Longrightarrow> \<exists>db' c. close w = Ok (db', c) \<and> db_ok db'"
begin

fun steps :: "'w \<Rightarrow> 'p list \<Rightarrow> ('e, 'w) result" where
  "steps w [] = Ok w"
| "steps w (p # ps) = (case step w p of Inl e \<Rightarrow> Err e | Inr w' \<Rightarrow> steps w' ps)"

lemma steps_ok: "batch_ok w \<Longrightarrow> list_all fits ps \<Longrightarrow> steps w ps = Ok w' \<Longrightarrow> batch_ok w'"
  by (induction ps arbitrary: w) (auto split: sum.splits intro: step_ok)

lemma committed_ok:
  assumes "db_ok db" "list_all fits ps" "steps (opened db opts) ps = Ok w"
  shows "\<exists>db' c. close w = Ok (db', c) \<and> db_ok db'"
  using steps_ok [OF opened_ok [OF assms(1)] assms(2,3)] by (rule close_ok)

end

lemma step_keeps_writer_ok:
  assumes "writer_ok w" "op_fits p" "write_step w p = Ok w'"
  shows "writer_ok w'"
  using assms
proof (cases p)
  case (UpsertMessage m)
  with assms show ?thesis using upsert_message_ok by simp
next
  case (ModifyLabels g add remove)
  with assms obtain b where "modify_message_labels w g add remove = Ok (w', b)"
    by (cases "modify_message_labels w g add remove") auto
  with assms(1) show ?thesis unfolding writer_ok_def by (rule modify_message_labels_ok)
next
  case (DeleteMessage g)
  with assms show ?thesis unfolding writer_ok_def using delete_message_ok by auto
next
  case (AdoptLocalCopy loc sent)
  with assms show ?thesis unfolding writer_ok_def using adopt_local_copy_ok by auto
next
  case (UpsertLabels ls)
  with assms show ?thesis
    unfolding writer_ok_def using upsert_labels_ok [of "{}" "{}" w ls] by (auto simp: list_all_iff)
next
  case (RetainLabels keep)
  with assms show ?thesis unfolding writer_ok_def using retain_labels_ok by auto
qed

lemma finish_ok:
  "writer_ok w \<Longrightarrow> \<exists>db' ch. finish w = Ok (db', ch) \<and> store_ok db'"
  unfolding writer_ok_def finish_def using recompute_all_ok by blast

lemma writer_new_ok: "store_ok db \<Longrightarrow> writer_ok (with_stored_labels (writer_new db) stored)"
  by (auto simp: store_ok_def writer_ok_def pending_ok_def with_stored_labels_def writer_new_def)

interpretation mail_batch: batch_writer
  "\<lambda>db stored. with_stored_labels (writer_new db) stored" write_step finish store_ok writer_ok op_fits
  by unfold_locales (use writer_new_ok step_keeps_writer_ok finish_ok in blast)+

lemma mail_batch_steps: "mail_batch.steps = write_steps"
proof (intro ext)
  show "mail_batch.steps w ps = write_steps w ps" for w ps
    by (induction ps arbitrary: w) (auto split: sum.split)
qed

section \<open>The consistency checker\<close>

text \<open>A problem that the checker reports, with the ids and numbers of its message.\<close>

datatype problem =
    EmptyThread thread_id
  | UnreadCount thread_id int int
  | IsStarred thread_id
  | LabelMissing thread_id label_id
  | LabelExtra thread_id label_id
  | SortKey thread_id
  | ArchiveMembership thread_id
  | LabelStats label_id "int \<times> int" "int \<times> int"
  | CategoryStats label_id "nat \<times> nat" "nat \<times> nat"
  | UnknownCategory label_id
  | IndexRows nat nat

definition own_messages :: "mail_store \<Rightarrow> thread_row \<Rightarrow> message_row list" where
  "own_messages db r = filter (\<lambda>m. m_thread m = t_id r) (messages db)"

definition empty_thread_problems :: "mail_store \<Rightarrow> problem list" where
  "empty_thread_problems db =
     map (\<lambda>r. EmptyThread (t_gmail_id r)) (filter (\<lambda>r. own_messages db r = []) (threads db))"

definition unread_count_problems :: "mail_store \<Rightarrow> problem list" where
  "unread_count_problems db =
     concat (map (\<lambda>r. let n = int (sql_count (\<lambda>m. \<not> m_is_read m) (own_messages db r))
       in if own_messages db r \<noteq> [] \<and> t_unread_count r \<noteq> n then [UnreadCount (t_gmail_id r) (t_unread_count r) n] else [])
       (threads db))"

definition starred_problems :: "mail_store \<Rightarrow> problem list" where
  "starred_problems db =
     map (\<lambda>r. IsStarred (t_gmail_id r))
       (filter (\<lambda>r. own_messages db r \<noteq> [] \<and> t_is_starred r \<noteq> list_ex m_is_starred (own_messages db r)) (threads db))"

definition missing_problems :: "mail_store \<Rightarrow> problem list" where
  "missing_problems db =
     concat (map (\<lambda>r. map (LabelMissing (t_gmail_id r))
       (filter (\<lambda>l. \<not> carries db (t_id r) l) (remdups (concat (map m_labels (own_messages db r)))))) (threads db))"

definition extra_problems :: "mail_store \<Rightarrow> problem list" where
  "extra_problems db =
     concat (map (\<lambda>(l, at, t). case find_thread db t of
         None \<Rightarrow> []
       | Some r \<Rightarrow> if l \<noteq> ARCHIVE_LABEL \<and> \<not> list_ex (\<lambda>m. l \<in> set (m_labels m)) (own_messages db r)
                   then [LabelExtra (t_gmail_id r) l] else []) (thread_labels db))"

definition sort_key_problems :: "mail_store \<Rightarrow> problem list" where
  "sort_key_problems db =
     concat (map (\<lambda>(l, at, t). case find_thread db t of
         None \<Rightarrow> []
       | Some r \<Rightarrow> if at \<noteq> t_last_message_at r then [SortKey (t_gmail_id r)] else []) (thread_labels db))"

definition archive_problems :: "mail_store \<Rightarrow> problem list" where
  "archive_problems db =
     map (\<lambda>r. ArchiveMembership (t_gmail_id r))
       (filter (\<lambda>r. carries db (t_id r) ARCHIVE_LABEL \<noteq>
          (\<not> list_ex (\<lambda>m. INBOX \<in> set (m_labels m)) (own_messages db r) \<and>
           list_ex (\<lambda>m. \<not> list_ex (\<lambda>l. l \<in> {SPAM, TRASH}) (m_labels m)) (own_messages db r))) (threads db))"

definition actual_stats :: "mail_store \<Rightarrow> label_id \<Rightarrow> int \<times> int" where
  "actual_stats db l =
     (let rows = List.map_filter (\<lambda>(l', at, t). if l' = l then find_thread db t else None) (thread_labels db)
      in (int (length rows), int (sql_count (\<lambda>r. 0 < t_unread_count r) rows)))"

definition stats_problems :: "mail_store \<Rightarrow> problem list" where
  "stats_problems db =
     concat (map (\<lambda>r. let stored = (case label_stats db (lr_gmail_id r) of None \<Rightarrow> (0, 0) | Some p \<Rightarrow> p);
                          actual = actual_stats db (lr_gmail_id r)
       in if stored \<noteq> actual then [LabelStats (lr_gmail_id r) stored actual] else []) (labels db))"

definition category_problems :: "mail_store \<Rightarrow> problem list" where
  "category_problems db =
     concat (map (\<lambda>(s, c). if (cc_total s, cc_unread s) \<noteq> (cc_total c, cc_unread c)
         then [CategoryStats (cc_id s) (cc_total s, cc_unread s) (cc_total c, cc_unread c)] else [])
       (zip (stored_inbox_categories db) (count_inbox_categories db [])))"

definition stray_categories :: "mail_store \<Rightarrow> label_id set" where
  "stray_categories db =
     {c. (\<exists>n u. inbox_category_stats db c = Some (n, u) \<and> (n \<noteq> 0 \<or> u \<noteq> 0)) \<and> c \<noteq> PRIMARY \<and> c \<notin> set CATEGORIES}"

definition index_problems :: "mail_store \<Rightarrow> problem list" where
  "index_problems db =
     (if length (messages_fts db) \<noteq> length (messages db)
      then [IndexRows (length (messages_fts db)) (length (messages db))] else [])"

text \<open>Everything \<^verbatim>\<open>check\<close> reports, as a set: the order of the report carries no information.\<close>

definition check :: "mail_store \<Rightarrow> problem set" where
  "check db =
     set (empty_thread_problems db) \<union> set (unread_count_problems db) \<union> set (starred_problems db) \<union>
     set (missing_problems db) \<union> set (extra_problems db) \<union> set (sort_key_problems db) \<union>
     set (archive_problems db) \<union> set (stats_problems db) \<union> set (category_problems db) \<union>
     UnknownCategory ` stray_categories db \<union> set (index_problems db)"

section \<open>A consistent store passes the checker\<close>

lemma thread_ok_row:
  assumes ok: "store_ok db" and r: "r \<in> set (threads db)"
  shows "own_messages db r \<noteq> []" "t_unread_count r = int (sql_count (\<lambda>m. \<not> m_is_read m) (own_messages db r))"
    "t_is_starred r = list_ex m_is_starred (own_messages db r)"
    "t_label_ids r = thread_label_ids db (t_id r)"
    "set (thread_rows db (t_id r)) = (\<lambda>l. (l, t_last_message_at r, t_id r)) ` set (thread_mailboxes db (t_id r))"
proof -
  have "thread_ok db (t_id r)" and s: "struct_ok db" using ok r by (simp_all add: store_ok_def)
  moreover have "find_thread db (t_id r) = Some r"
    using threads_table.find_key [OF struct_ok_facts(2) [OF s] r] by (simp add: find_thread_def)
  ultimately have ne: "thread_messages db (t_id r) \<noteq> []"
    and agg: "r = thread_aggregates (thread_messages db (t_id r)) (thread_label_ids db (t_id r)) r"
    and rows: "set (thread_rows db (t_id r)) = (\<lambda>l. (l, t_last_message_at r, t_id r)) ` set (thread_mailboxes db (t_id r))"
    by (simp_all add: thread_ok_def)
  have tm: "thread_messages db (t_id r) = sort_key (\<lambda>m. (mh_internal_date (m_head m), m_id m)) (own_messages db r)"
    by (simp add: thread_messages_def own_messages_def)
  have cnt: "length (filter p (sort_key f xs)) = length (filter p xs)" for p and f :: "message_row \<Rightarrow> int \<times> int" and xs
    by (metis filter_sort length_sort)
  have ex: "list_ex p (sort_key f xs) = list_ex p xs" for p and f :: "message_row \<Rightarrow> int \<times> int" and xs
    by (simp add: list_ex_iff)
  show "own_messages db r \<noteq> []" using ne by (auto simp: tm)
  show "t_unread_count r = int (sql_count (\<lambda>m. \<not> m_is_read m) (own_messages db r))"
    by (subst agg) (simp add: tm cnt sql_count_def)
  have "t_is_starred r = list_ex m_is_starred (thread_messages db (t_id r))"
    by (subst agg) (simp add: thread_aggregates_def Let_def)
  then show "t_is_starred r = list_ex m_is_starred (own_messages db r)" by (simp add: tm ex)
  show "t_label_ids r = thread_label_ids db (t_id r)" by (subst agg) simp
  show "set (thread_rows db (t_id r)) = (\<lambda>l. (l, t_last_message_at r, t_id r)) ` set (thread_mailboxes db (t_id r))"
    by (rule rows)
qed

lemma carries_iff: "carries db t l \<longleftrightarrow> (\<exists>at. (l, at, t) \<in> set (thread_rows db t))"
  by (auto simp: carries_def list_ex_iff thread_rows_def)

lemma carries_mailbox:
  assumes "store_ok db" "r \<in> set (threads db)"
  shows "carries db (t_id r) l \<longleftrightarrow> l \<in> set (thread_mailboxes db (t_id r))"
  unfolding carries_iff thread_ok_row(5) [OF assms] by auto

lemma set_own_labels:
  "struct_ok db \<Longrightarrow> set (thread_label_ids db (t_id r)) = (\<Union>m \<in> set (own_messages db r). set (m_labels m))"
  by (auto simp: set_thread_label_ids virtual_is_archive own_messages_def struct_ok_def message_ok_def)

lemma find_thread_iff: "struct_ok db \<Longrightarrow> find_thread db t = Some r \<longleftrightarrow> r \<in> set (threads db) \<and> t_id r = t"
  using threads_table.find_key_iff [OF struct_ok_facts(2)] by (simp add: find_thread_def)

lemma mailbox_or_archive:
  assumes "store_ok db"
  shows "l \<in> set (thread_mailboxes db t) \<longleftrightarrow> l \<in> set (thread_label_ids db t) \<or>
    l = ARCHIVE_LABEL \<and> INBOX \<notin> set (thread_label_ids db t) \<and> \<not> wholly_spam_or_trash db t"
  by (auto simp: thread_mailboxes_def Let_def)

lemma thread_problems_none:
  assumes ok: "store_ok db"
  shows "empty_thread_problems db = []" "unread_count_problems db = []" "starred_problems db = []"
  using thread_ok_row [OF ok]
  by (auto simp: empty_thread_problems_def unread_count_problems_def starred_problems_def filter_empty_conv Let_def)

lemma missing_problems_none:
  assumes ok: "store_ok db"
  shows "missing_problems db = []"
proof -
  have s: "struct_ok db" using ok by (simp add: store_ok_def)
  have "carries db (t_id r) l" if "r \<in> set (threads db)" "l \<in> set (m_labels m)" "m \<in> set (own_messages db r)" for r l m
    using that set_own_labels [OF s, of r] unfolding carries_mailbox [OF ok that(1)] mailbox_or_archive [OF ok] by blast
  then show ?thesis by (auto simp: missing_problems_def filter_empty_conv)
qed

lemma row_of_thread:
  assumes ok: "store_ok db" and row: "(l, at, t) \<in> set (thread_labels db)" and r: "find_thread db t = Some r"
  shows "r \<in> set (threads db)" "t = t_id r" "at = t_last_message_at r" "l \<in> set (thread_mailboxes db (t_id r))"
proof -
  have s: "struct_ok db" using ok by (simp add: store_ok_def)
  show "r \<in> set (threads db)" "t = t_id r" using r by (simp_all add: find_thread_iff [OF s])
  with row have "(l, at, t_id r) \<in> set (thread_rows db (t_id r))" by (simp add: thread_rows_def)
  then show "at = t_last_message_at r" "l \<in> set (thread_mailboxes db (t_id r))"
    using thread_ok_row(5) [OF ok \<open>r \<in> set (threads db)\<close>] by auto
qed

lemma row_problems_none:
  assumes ok: "store_ok db"
  shows "extra_problems db = []" "sort_key_problems db = []"
proof -
  have s: "struct_ok db" using ok by (simp add: store_ok_def)
  have "list_ex (\<lambda>m. l \<in> set (m_labels m)) (own_messages db r)"
    if "(l, at, t) \<in> set (thread_labels db)" "find_thread db t = Some r" "l \<noteq> ARCHIVE_LABEL" for l at t r
    using row_of_thread [OF ok that(1,2)] that(3) set_own_labels [OF s, of r]
    by (auto simp: mailbox_or_archive [OF ok] list_ex_iff)
  then show "extra_problems db = []"
    by (auto simp: extra_problems_def split: option.split)
  show "sort_key_problems db = []"
    using row_of_thread(3) [OF ok] by (auto simp: sort_key_problems_def split: option.split)
qed

lemma archive_problems_none:
  assumes ok: "store_ok db"
  shows "archive_problems db = []"
proof -
  have s: "struct_ok db" using ok by (simp add: store_ok_def)
  have "carries db (t_id r) ARCHIVE_LABEL \<longleftrightarrow>
      \<not> list_ex (\<lambda>m. INBOX \<in> set (m_labels m)) (own_messages db r) \<and>
      list_ex (\<lambda>m. \<not> list_ex (\<lambda>l. l \<in> {SPAM, TRASH}) (m_labels m)) (own_messages db r)"
    if r: "r \<in> set (threads db)" for r
    unfolding carries_mailbox [OF ok r] mailbox_or_archive [OF ok]
    using archive_not_applied [OF s] set_own_labels [OF s, of r]
    by (auto simp: list_ex_iff wholly_spam_alt messages_of_def own_messages_def)
  then show ?thesis by (simp add: archive_problems_def filter_empty_conv)
qed

lemma stats_problems_none:
  assumes ok: "store_ok db"
  shows "stats_problems db = []"
proof -
  have s: "struct_ok db" and st: "stats_ok db" using ok by (simp_all add: store_ok_def)
  have counts: "length (List.map_filter (\<lambda>(l', at, t). if l' = l then find_thread db t else None) rows) =
        length (filter (\<lambda>(l', at, t). l' = l) rows) \<and>
      sql_count (\<lambda>r. 0 < t_unread_count r) (List.map_filter (\<lambda>(l', at, t). if l' = l then find_thread db t else None) rows) =
        length (filter (\<lambda>(l', at, t). l' = l \<and> thread_unread db t) rows)"
    if "\<And>l at t. (l, at, t) \<in> set rows \<Longrightarrow> t \<in> t_id ` set (threads db)" for l rows
    using that
  proof (induction rows)
    case (Cons row rows)
    obtain l' at t where row: "row = (l', at, t)" by (cases row)
    from find_thread_in [OF Cons.prems [of l' at t]] row obtain r where "find_thread db t = Some r" by auto
    with Cons row show ?case
      by (auto simp: map_filter_simps sql_count_def thread_unread_def old_thread_state_def)
  qed (simp add: map_filter_simps sql_count_def)
  have "stats_of db l = actual_stats db l" for l
    using counts [of "thread_labels db" l] struct_ok_facts(8) [OF s] st
    by (simp add: actual_stats_def stats_ok_def tally_def)
  then show ?thesis by (simp add: stats_problems_def stats_of_def Let_def)
qed

lemma tabs_distinct: "PRIMARY \<notin> set CATEGORIES" "distinct CATEGORIES" "ARCHIVE_LABEL \<notin> set CATEGORIES"
    "ARCHIVE_LABEL \<noteq> INBOX"
  by (simp_all add: PRIMARY_def CATEGORIES_def ARCHIVE_LABEL_def INBOX_def)

lemma find_tab:
  "distinct tabs \<Longrightarrow> i \<in> set tabs \<Longrightarrow>
   List.find (\<lambda>row. (case fst row of None \<Rightarrow> PRIMARY | Some c \<Rightarrow> c) = i)
     (List.map_filter (\<lambda>c. map_option (\<lambda>counts. (Some c, counts)) (f c)) tabs) =
   map_option (\<lambda>counts. (Some i, counts)) (f i)"
proof (induction tabs)
  case (Cons c tabs)
  show ?case
  proof (cases "c = i \<and> f i = None")
    case True
    with Cons.prems have "i \<notin> set tabs" by simp
    then have "List.find (\<lambda>row. (case fst row of None \<Rightarrow> PRIMARY | Some c \<Rightarrow> c) = i)
        (List.map_filter (\<lambda>c. map_option (\<lambda>counts. (Some c, counts)) (f c)) tabs) = None"
      by (auto simp: find_None_iff set_map_filter)
    with True show ?thesis by (simp add: map_filter_simps)
  next
    case False
    with Cons show ?thesis by (cases "f c") (auto simp: map_filter_simps)
  qed
qed simp

lemma category_counts_stored:
  "stored_inbox_categories db =
     map (\<lambda>i. \<lparr>cc_id = i, cc_total = clamp_u32 (fst (category_of db i)), cc_unread = clamp_u32 (snd (category_of db i))\<rparr>)
       (PRIMARY # CATEGORIES)"
  unfolding stored_inbox_categories_def category_counts_def
proof (rule map_cong [OF refl])
  fix i assume i: "i \<in> set (PRIMARY # CATEGORIES)"
  have "distinct (PRIMARY # CATEGORIES)" using tabs_distinct by simp
  from find_tab [OF this i, of "inbox_category_stats db"] show
    "(let (total, unread) = (case List.find (\<lambda>row. (case fst row of None \<Rightarrow> PRIMARY | Some c \<Rightarrow> c) = i)
         (List.map_filter (\<lambda>c. map_option (\<lambda>counts. (Some c, counts)) (inbox_category_stats db c)) (PRIMARY # CATEGORIES)) of
           None \<Rightarrow> (0, 0) | Some row \<Rightarrow> snd row)
      in \<lparr>cc_id = i, cc_total = clamp_u32 total, cc_unread = clamp_u32 unread\<rparr>) =
     \<lparr>cc_id = i, cc_total = clamp_u32 (fst (category_of db i)), cc_unread = clamp_u32 (snd (category_of db i))\<rparr>"
    by (cases "inbox_category_stats db i") (auto simp: category_of_def)
qed

text \<open>The tab of an Inbox thread: its first category, or Primary.\<close>

definition thread_tab :: "mail_store \<Rightarrow> int \<Rightarrow> label_id" where
  "thread_tab db t = (case thread_category db t of None \<Rightarrow> PRIMARY | Some c \<Rightarrow> c)"

lemma thread_category_cases: "thread_category db t = None \<or> (\<exists>c \<in> set CATEGORIES. thread_category db t = Some c)"
  unfolding thread_category_def by (cases "List.find (carries db t) CATEGORIES") (auto dest: find_Some_in)

lemma same_tab: "thread_tab db t = thread_tab db t' \<longleftrightarrow> thread_category db t = thread_category db t'"
  using thread_category_cases [of db t] thread_category_cases [of db t'] tabs_distinct(1)
  by (auto simp: thread_tab_def)

lemma find_group:
  assumes inj: "\<And>c c'. c \<in> set cats \<Longrightarrow> c' \<in> set cats \<Longrightarrow> tab c = tab c' \<Longrightarrow> c = c'"
    and grp: "\<And>c. g c = (int (length (filter (\<lambda>r. cat r = c) rows)), int (length (filter P (filter (\<lambda>r. cat r = c) rows))))"
    and cats: "set cats = cat ` set rows"
  shows "(case List.find (\<lambda>row. tab (fst row) = i) (map (\<lambda>c. (c, g c)) cats) of None \<Rightarrow> (0, 0) | Some row \<Rightarrow> snd row) =
    (int (length (filter (\<lambda>r. tab (cat r) = i) rows)), int (length (filter P (filter (\<lambda>r. tab (cat r) = i) rows))))"
proof (cases "\<exists>c \<in> set cats. tab c = i")
  case False
  then have "List.find (\<lambda>row. tab (fst row) = i) (map (\<lambda>c. (c, g c)) cats) = None"
    by (auto simp: find_None_iff)
  moreover have "filter (\<lambda>r. tab (cat r) = i) rows = []" using False cats by (auto simp: filter_empty_conv)
  ultimately show ?thesis by simp
next
  case True
  then obtain c where c: "c \<in> set cats" "tab c = i" by blast
  have "\<exists>p. List.find (\<lambda>row. tab (fst row) = i) (map (\<lambda>c. (c, g c)) cats) = Some p"
    using c by (cases "List.find (\<lambda>row. tab (fst row) = i) (map (\<lambda>c. (c, g c)) cats)") (auto simp: find_None_iff split_beta)
  then obtain p where p: "List.find (\<lambda>row. tab (fst row) = i) (map (\<lambda>c. (c, g c)) cats) = Some p" by blast
  from find_Some_in [OF p] obtain c' where c': "c' \<in> set cats" "p = (c', g c')" "tab c' = i" by auto
  with inj [OF c'(1) c(1)] c have "p = (c, g c)" by simp
  moreover have "filter (\<lambda>r. tab (cat r) = i) rows = filter (\<lambda>r. cat r = c) rows"
    using inj c cats by (intro filter_cong) auto
  ultimately show ?thesis using p by (simp add: grp)
qed

lemma category_counts_counted:
  assumes rows: "rows = map snd (mailbox_rows db INBOX [])"
  shows "count_inbox_categories db [] =
      map (\<lambda>i. \<lparr>cc_id = i,
        cc_total = clamp_u32 (int (length (filter (\<lambda>r. thread_tab db (t_id r) = i) rows))),
        cc_unread = clamp_u32 (int (length (filter (\<lambda>r. 0 < t_unread_count r) (filter (\<lambda>r. thread_tab db (t_id r) = i) rows))))\<rparr>)
       (PRIMARY # CATEGORIES)"
proof -
  let ?tab = "\<lambda>c. case c of None \<Rightarrow> PRIMARY | Some c \<Rightarrow> c"
  let ?cat = "\<lambda>r. thread_category db (t_id r)"
  let ?g = "\<lambda>c. (int (length (filter (\<lambda>r. ?cat r = c) rows)), int (length (filter (\<lambda>r. 0 < t_unread_count r) (filter (\<lambda>r. ?cat r = c) rows))))"
  have inj: "c = c'" if "c \<in> set (remdups (map ?cat rows))" "c' \<in> set (remdups (map ?cat rows))" "?tab c = ?tab c'" for c c'
    using that same_tab by (auto simp: thread_tab_def)
  have grp: "(case List.find (\<lambda>row. ?tab (fst row) = i) (map (\<lambda>c. (c, ?g c)) (remdups (map ?cat rows))) of
       None \<Rightarrow> (0, 0) | Some row \<Rightarrow> snd row) =
      (int (length (filter (\<lambda>r. thread_tab db (t_id r) = i) rows)),
       int (length (filter (\<lambda>r. 0 < t_unread_count r) (filter (\<lambda>r. thread_tab db (t_id r) = i) rows))))" for i
    unfolding thread_tab_def by (rule find_group [OF inj]) simp_all
  show ?thesis
    unfolding count_inbox_categories_def category_counts_def Let_def rows [symmetric] grp by simp
qed

lemma inbox_category_tab:
  assumes ok: "store_ok db" and r: "r \<in> set (threads db)"
  shows "inbox_category (t_label_ids r) = Some i \<longleftrightarrow> carries db (t_id r) INBOX \<and> thread_tab db (t_id r) = i"
proof -
  have ids: "t_label_ids r = thread_label_ids db (t_id r)" by (rule thread_ok_row(4) [OF ok r])
  have same: "carries db (t_id r) l \<longleftrightarrow> l \<in> set (t_label_ids r)" if "l \<noteq> ARCHIVE_LABEL" for l
    unfolding carries_mailbox [OF ok r] mailbox_or_archive [OF ok] ids using that by blast
  have "List.find (carries db (t_id r)) CATEGORIES = List.find (\<lambda>c. c \<in> set (t_label_ids r)) CATEGORIES"
    using tabs_distinct(3) by (intro find_cong refl) (metis same)
  with same [of INBOX] tabs_distinct(4) show ?thesis
    by (auto simp: inbox_category_def thread_tab_def thread_category_def)
qed

lemma inbox_rows:
  assumes ok: "store_ok db"
  shows "distinct (map snd (mailbox_rows db INBOX []))"
    "set (map snd (mailbox_rows db INBOX [])) = {r \<in> set (threads db). carries db (t_id r) INBOX}"
proof -
  have s: "struct_ok db" using ok by (simp add: store_ok_def)
  have "split_on (\<lambda>c. c = CHR ''+'') INBOX = [INBOX]" by (simp add: INBOX_def)
  then have L: "newest_first db INBOX = rev (sort_key fst (mailbox_rows db INBOX []))"
    by (simp add: newest_first_def)
  show "set (map snd (mailbox_rows db INBOX [])) = {r \<in> set (threads db). carries db (t_id r) INBOX}"
    using newest_first_threads [OF s, of INBOX] by (simp add: L \<open>split_on _ INBOX = [INBOX]\<close>)
  have "distinct (map t_id (map snd (newest_first db INBOX)))" using newest_first_distinct [OF s, of INBOX] by simp
  then have "distinct (map snd (newest_first db INBOX))" unfolding distinct_map by blast
  then show "distinct (map snd (mailbox_rows db INBOX []))"
    by (auto simp: L distinct_map rev_map)
qed

lemma category_problems_none:
  assumes ok: "store_ok db"
  shows "category_problems db = []"
proof -
  let ?rows = "map snd (mailbox_rows db INBOX [])"
  have dist: "distinct (threads db)" and cat: "categories_ok db"
    using ok by (auto simp: store_ok_def struct_ok_def distinct_map)
  have "int (length (filter P (filter (\<lambda>r. thread_tab db (t_id r) = i) ?rows))) = cat_tally P i (threads db)" for P i
    unfolding cat_tally_def filter_filter
    using distinct_length_filter [OF inbox_rows(1) [OF ok], of "\<lambda>r. thread_tab db (t_id r) = i \<and> P r"]
      distinct_length_filter [OF dist, of "\<lambda>r. inbox_category (t_label_ids r) = Some i \<and> P r"]
      inbox_rows(2) [OF ok] inbox_category_tab [OF ok]
    by (auto intro!: arg_cong [where f = card])
  from this [of "\<lambda>_. True"] this have "stored_inbox_categories db = count_inbox_categories db []"
    unfolding category_counts_counted [OF refl] category_counts_stored
    using cat by (simp add: categories_ok_def)
  then show ?thesis by (auto simp: category_problems_def in_set_zip)
qed

lemma stray_categories_none:
  assumes ok: "store_ok db"
  shows "stray_categories db = {}"
proof -
  have "inbox_category ls \<noteq> Some c" if "c \<noteq> PRIMARY" "c \<notin> set CATEGORIES" for ls c
    using that by (auto simp: inbox_category_def split: option.splits dest: find_Some_in)
  then have "category_of db c = (0, 0)" if "c \<noteq> PRIMARY" "c \<notin> set CATEGORIES" for c
    using ok that by (simp add: store_ok_def categories_ok_def cat_tally_def)
  then show ?thesis by (force simp: stray_categories_def category_of_def)
qed

lemma index_problems_none:
  assumes ok: "store_ok db"
  shows "index_problems db = []"
proof -
  have "distinct (messages_fts db)" "set (messages_fts db) = set (map m_id (messages db))"
    "distinct (map m_id (messages db))"
    using ok by (auto simp: store_ok_def index_ok_def struct_ok_def)
  then have "length (messages_fts db) = length (messages db)"
    by (metis distinct_card length_map)
  then show ?thesis by (simp add: index_problems_def)
qed

lemma check_finds_nothing: "store_ok db \<Longrightarrow> check db = {}"
  by (simp add: check_def thread_problems_none missing_problems_none row_problems_none archive_problems_none
      stats_problems_none category_problems_none stray_categories_none index_problems_none)

lemma empty_store_ok: "store_ok empty_store"
  by (auto simp: store_ok_def struct_ok_def labels_ok_def empty_store_def index_ok_def stats_ok_def categories_ok_def
      stats_of_def category_of_def cat_tally_def)

text \<open>The stores that write transactions produce, from the one the migrations create.\<close>

inductive reachable_store :: "mail_store \<Rightarrow> bool" where
  fresh: "reachable_store empty_store"
| transaction: "reachable_store db \<Longrightarrow> list_all op_fits ps \<Longrightarrow> reachable_store (fst (write_transaction db stored ps))"

lemma transaction_keeps_store_ok:
  assumes "store_ok db" "list_all op_fits ps"
  shows "store_ok (fst (write_transaction db stored ps))"
proof (cases "write_steps (with_stored_labels (writer_new db) stored) ps")
  case (Inl e)
  with assms(1) show ?thesis by (simp add: write_transaction_def)
next
  case (Inr w)
  with mail_batch.committed_ok [OF assms, of stored w] show ?thesis
    by (auto simp: write_transaction_def mail_batch_steps)
qed

text \<open>
  Claim C1: Every store that write transactions can produce is consistent: whatever calls a
  transaction makes on the writer and in whatever order, whether it commits or rolls back,
  the thread aggregates, the mailbox rows, the sidebar counters, the category counters and
  the search index agree with the messages, and the checker reports nothing. No provider
  lists a label under the store's own \<open>@archive\<close>.
\<close>

theorem reachable_stores_are_consistent:
  "reachable_store db \<Longrightarrow> store_ok db \<and> check db = {}"
proof (induction rule: reachable_store.induct)
  case fresh
  then show ?case using empty_store_ok check_finds_nothing by blast
next
  case (transaction db ps stored)
  then show ?case using transaction_keeps_store_ok check_finds_nothing by blast
qed

text \<open>A message of the Inbox, synced and then archived.\<close>

definition sample_message :: incoming_message where
  "sample_message = \<lparr>im_id = ''m1'', im_thread_id = ''t1'', im_rfc822_message_id = None, im_in_reply_to = None,
     im_references = [], im_from = Some (email_address_new None ''a@x''), im_to = [], im_cc = [], im_bcc = [],
     im_reply_to = [], im_subject = ''Hi'', im_date = 5, im_internal_date = 5, im_snippet = ''hi'',
     im_label_ids = [''INBOX'', ''UNREAD''], im_size_estimate = 10, im_body = None, im_attachments = [],
     im_list = \<lparr>lh_id = None, lh_name = None, lh_unsubscribe = None, lh_unsubscribe_post = None\<rparr>, im_headers_json = None\<rparr>"

definition sample_store :: mail_store where
  "sample_store = fst (write_transaction empty_store ReplaceLabels [UpsertMessage sample_message])"

lemma sample_store_reachable: "reachable_store sample_store"
  unfolding sample_store_def by (rule reachable_store.transaction [OF reachable_store.fresh]) simp

theorem reachable_stores_are_consistent_witness:
  "thread_labels sample_store = [(''INBOX'', 5, 1), (''UNREAD'', 5, 1)] \<and> label_stats sample_store ''INBOX'' = Some (1, 1) \<and>
   store_ok sample_store \<and> check sample_store = {}"
proof (intro conjI)
  show "thread_labels sample_store = [(''INBOX'', 5, 1), (''UNREAD'', 5, 1)]" by code_simp
  show "label_stats sample_store ''INBOX'' = Some (1, 1)" by code_simp
  show "store_ok sample_store" "check sample_store = {}"
    using reachable_stores_are_consistent [OF sample_store_reachable] by blast+
qed

end
