(* ===== verification/Changes.thy ===== *)
theory Changes
  imports Transactions
begin

text \<open>
  The change report of a write. The user interface moves rows between its mailboxes by this
  report alone, so it has to name exactly the threads that entered, left or changed in each
  mailbox.
\<close>

section \<open>What one thread contributes\<close>

lemma change_entry_notes:
  "change_entry (note_inserted g l ch) x =
     (if x = l then (change_entry ch x)\<lparr>mc_inserted := insert g (mc_inserted (change_entry ch x))\<rparr> else change_entry ch x)"
  "change_entry (note_updated g l ch) x =
     (if x = l then (change_entry ch x)\<lparr>mc_updated := insert g (mc_updated (change_entry ch x))\<rparr> else change_entry ch x)"
  "change_entry (note_removed g l ch) x =
     (if x = l then (change_entry ch x)\<lparr>mc_removed := insert g (mc_removed (change_entry ch x))\<rparr> else change_entry ch x)"
  by (simp_all add: note_inserted_def note_updated_def note_removed_def change_entry_def)

definition add_report :: "thread_id \<Rightarrow> bool \<Rightarrow> bool \<Rightarrow> mailbox_change \<Rightarrow> mailbox_change" where
  "add_report g before after c =
     \<lparr>mc_inserted = (if \<not> before \<and> after then insert g (mc_inserted c) else mc_inserted c),
      mc_updated = (if before \<and> after then insert g (mc_updated c) else mc_updated c),
      mc_removed = (if before \<and> \<not> after then insert g (mc_removed c) else mc_removed c)\<rparr>"

lemma removed_entry:
  "change_entry (foldl (\<lambda>c l. note_removed g l c) ch ls) x = add_report g (x \<in> set ls) False (change_entry ch x)"
proof (induction ls arbitrary: ch)
  case (Cons l ls)
  then show ?case by (auto simp: change_entry_notes add_report_def)
qed (simp add: add_report_def)

lemma transitions_entry:
  "change_entry (transitions g old new ch) x = add_report g (x \<in> set old) (x \<in> set new) (change_entry ch x)"
proof -
  have fst_part: "change_entry (foldl (\<lambda>c l. if l \<in> set new then note_updated g l c else note_removed g l c) ch ls) x =
      (if x \<in> set ls then add_report g True (x \<in> set new) (change_entry ch x) else change_entry ch x)" for ls ch
  proof (induction ls arbitrary: ch)
    case (Cons l ls)
    then show ?case by (auto simp: change_entry_notes add_report_def)
  qed simp
  have snd_part: "change_entry (foldl (\<lambda>c l. if l \<in> set old then c else note_inserted g l c) ch ls) x =
      (if x \<in> set ls \<and> x \<notin> set old then add_report g False True (change_entry ch x) else change_entry ch x)" for ls ch
  proof (induction ls arbitrary: ch)
    case (Cons l ls)
    then show ?case by (auto simp: change_entry_notes add_report_def)
  qed simp
  show ?thesis
    by (auto simp: transitions_def Let_def fst_part snd_part add_report_def)
qed

text \<open>The thread is in the mailbox, before or after.\<close>

definition listed :: "mail_store \<Rightarrow> label_id \<Rightarrow> int \<Rightarrow> bool" where
  "listed db l t \<longleftrightarrow> l \<in> set (old_mailboxes db t)"

lemma recompute_report:
  assumes ok: "struct_ok db" "stats_ok db" "categories_ok db" and r: "r \<in> set (threads db)"
    and run: "recompute_thread db (t_id r) g ch = Ok (db', ch')"
  shows "change_entry ch' l = add_report g (listed db l (t_id r)) (listed db' l (t_id r)) (change_entry ch l)"
proof (cases "thread_messages db (t_id r) = []")
  case True
  with run have "db' = delete_thread_row (withdraw_thread db (t_id r)) (t_id r)"
    "ch' = foldl (\<lambda>c l. note_removed g l c) ch (old_mailboxes db (t_id r))"
    by (auto simp: recompute_thread_def)
  then show ?thesis
    by (simp add: removed_entry listed_def old_mailboxes_alt)
next
  case False
  let ?db1 = "withdraw_thread db (t_id r)"
  let ?db2 = "?db1\<lparr>threads := sql_update (\<lambda>x. t_id x = t_id r)
      (thread_aggregates (thread_messages db (t_id r)) (thread_label_ids db (t_id r))) (threads db)\<rparr>"
  have reads: "thread_label_ids ?db1 (t_id r) = thread_label_ids db (t_id r)"
    "thread_mailboxes ?db2 (t_id r) = thread_mailboxes db (t_id r)"
    using thread_reads_cong [of ?db1 db "t_id r"] thread_reads_cong [of ?db2 db "t_id r"] by simp_all
  from run False reads have "ch' = transitions g (old_mailboxes db (t_id r)) (thread_mailboxes db (t_id r)) ch"
    and rows: "thread_labels db' = filter (\<lambda>(l, at, t'). t' \<noteq> t_id r) (thread_labels db) @
      map (\<lambda>l. (l, last_counted_at (thread_messages db (t_id r)), t_id r)) (thread_mailboxes db (t_id r))"
    by (auto simp: recompute_thread_def Let_def split: if_splits)
  moreover have "set (old_mailboxes db' (t_id r)) = set (thread_mailboxes db (t_id r))"
    by (force simp: old_mailboxes_def rows)
  ultimately show ?thesis
    by (simp add: transitions_entry listed_def)
qed

lemma others_listed: "settled db db' t \<Longrightarrow> x \<noteq> t \<Longrightarrow> listed db' l x = listed db l x"
  by (simp add: settled_def others_kept_def listed_def old_mailboxes_alt)

section \<open>What a write reports\<close>

lemma recompute_all_report:
  "pending_ok {} {} db ds \<Longrightarrow> recompute_all db ds ch = Ok (db', ch') \<Longrightarrow>
   mc_inserted (change_entry ch' l) = mc_inserted (change_entry ch l) \<union> {g. \<exists>t. (t, g) \<in> set ds \<and> \<not> listed db l t \<and> listed db' l t} \<and>
   mc_updated (change_entry ch' l) = mc_updated (change_entry ch l) \<union> {g. \<exists>t. (t, g) \<in> set ds \<and> listed db l t \<and> listed db' l t} \<and>
   mc_removed (change_entry ch' l) = mc_removed (change_entry ch l) \<union> {g. \<exists>t. (t, g) \<in> set ds \<and> listed db l t \<and> \<not> listed db' l t} \<and>
   (\<forall>x. x \<notin> fst ` set ds \<longrightarrow> listed db' l x = listed db l x)"
proof (induction ds arbitrary: db ch)
  case (Cons d ds)
  obtain t g where d: "d = (t, g)" by (cases d)
  note ok = pending_ok_facts [OF Cons.prems(1)]
  from ok(6) [of t g] d obtain r where r: "r \<in> set (threads db)" "t_id r = t" by auto
  from recompute_settles [OF ok(1,3,4) r(1), of g ch] obtain db1 ch1 where
    step: "recompute_thread db t g ch = Ok (db1, ch1)" "settled db db1 t" using r(2) by auto
  note report = recompute_report [OF ok(1,3,4) r(1), of g ch db1 ch1 l, unfolded r(2), OF step(1)]
  have p1: "pending_ok {} {} db1 ds" using pending_ok_step [OF Cons.prems(1) [unfolded d] step(2)] .
  have p2: "recompute_all db1 ds ch1 = Ok (db', ch')" using Cons.prems(2) d step(1) by simp
  note IH = Cons.IH [OF p1 p2]
  have new: "t \<notin> fst ` set ds" using ok(5) d by auto
  have other: "listed db1 l x = listed db l x" if "(x, y) \<in> set ds" for x y
    using others_listed [OF step(2)] new that by force
  have fin: "listed db' l t = listed db1 l t"
    using IH new by blast
  have rest: "listed db' l x = listed db l x" if "x \<notin> fst ` set (d # ds)" for x
    using IH that others_listed [OF step(2), of x l] d by auto
  from IH rest show ?case
    unfolding report d using fin other by (auto simp: add_report_def)
qed simp

text \<open>
  Claim C2: A finished write reports exactly what it did to the mailboxes. For every
  mailbox, the threads reported as inserted are the marked ones that were not in it and now
  are, the removed ones those that were and no longer are, the updated ones those that stay,
  and the membership of a thread that is not marked does not change. The report always comes:
  \<open>finish\<close> does not fail on a well-formed writer.
\<close>

theorem finish_reports_mailbox_changes:
  assumes "writer_ok w"
  shows "\<exists>db' ch. finish w = Ok (db', ch) \<and>
    (\<forall>l. mc_inserted (change_entry ch l) = {g. \<exists>t. (t, g) \<in> set (w_dirty w) \<and> \<not> listed (w_db w) l t \<and> listed db' l t} \<and>
         mc_updated (change_entry ch l) = {g. \<exists>t. (t, g) \<in> set (w_dirty w) \<and> listed (w_db w) l t \<and> listed db' l t} \<and>
         mc_removed (change_entry ch l) = {g. \<exists>t. (t, g) \<in> set (w_dirty w) \<and> listed (w_db w) l t \<and> \<not> listed db' l t} \<and>
         (\<forall>t. t \<notin> fst ` set (w_dirty w) \<longrightarrow> listed db' l t = listed (w_db w) l t))"
proof -
  from finish_ok [OF assms] obtain db' ch where run: "finish w = Ok (db', ch)" by blast
  have none: "change_entry Map.empty l = no_change" for l by (simp add: change_entry_def)
  from recompute_all_report [of "w_db w" "w_dirty w" Map.empty db' ch] assms run show ?thesis
    unfolding writer_ok_def finish_def none by (auto simp: no_change_def)
qed

text \<open>Archiving the sample message: it leaves the Inbox, enters Archive and stays in Unread.\<close>

definition archiving_writer :: mail_writer where
  "archiving_writer = (case modify_message_labels (writer_new sample_store) ''m1'' [] [''INBOX''] of
     Inr (w, b) \<Rightarrow> w | Inl e \<Rightarrow> writer_new sample_store)"

lemma archiving_writer_ok: "writer_ok archiving_writer"
proof -
  have w: "writer_ok (writer_new sample_store)"
    using transaction_keeps_store_ok [OF empty_store_ok, of "[UpsertMessage sample_message]" ReplaceLabels]
    by (auto simp: sample_store_def store_ok_def writer_ok_def pending_ok_def writer_new_def)
  have "op_fits (ModifyLabels ''m1'' [] [''INBOX''])" by simp
  from step_keeps_writer_ok [OF w this] w show ?thesis
    by (auto simp: archiving_writer_def split: sum.split)
qed

theorem finish_reports_mailbox_changes_witness:
  "(\<exists>db' ch. finish archiving_writer = Ok (db', ch) \<and>
     mc_removed (change_entry ch ''INBOX'') = {g. \<exists>t. (t, g) \<in> set (w_dirty archiving_writer) \<and>
        listed (w_db archiving_writer) ''INBOX'' t \<and> \<not> listed db' ''INBOX'' t}) \<and>
   w_dirty archiving_writer = [(1, ''t1'')] \<and> listed (w_db archiving_writer) ''INBOX'' 1"
proof (intro conjI)
  show "w_dirty archiving_writer = [(1, ''t1'')]" by code_simp
  show "listed (w_db archiving_writer) ''INBOX'' 1" by code_simp
next
  from finish_reports_mailbox_changes [OF archiving_writer_ok] obtain db' ch where
    run: "finish archiving_writer = Ok (db', ch)" and
    report: "mc_removed (change_entry ch ''INBOX'') = {g. \<exists>t. (t, g) \<in> set (w_dirty archiving_writer) \<and>
      listed (w_db archiving_writer) ''INBOX'' t \<and> \<not> listed db' ''INBOX'' t}"
    by (elim exE conjE) (drule spec [of _ "''INBOX''"], blast)
  then show "\<exists>db' ch. finish archiving_writer = Ok (db', ch) \<and>
     mc_removed (change_entry ch ''INBOX'') = {g. \<exists>t. (t, g) \<in> set (w_dirty archiving_writer) \<and>
        listed (w_db archiving_writer) ''INBOX'' t \<and> \<not> listed db' ''INBOX'' t}"
    by (intro exI conjI)
qed

end
