(* ===== verification/Outbox.thy ===== *)
theory Outbox
  imports Changes
begin

text \<open>
  Local drafts and the outbox of one account: \<^verbatim>\<open>crates/mail-store/src/drafts.rs\<close>, \<^verbatim>\<open>outbox.rs\<close> and
  the three functions of \<^verbatim>\<open>compositions.rs\<close> they call. The payload of an outbox row is the op
  itself; its \<^verbatim>\<open>kind\<close> column is determined by it. The lock files that tell whether a claimant
  is gone belong to the operating system and are a parameter of \<open>is_gone\<close>.
\<close>

section \<open>Tables\<close>

datatype draft_state = Editing | Sending | FailedDraft

record draft_attachment =
  da_path :: string
  da_filename :: string
  da_mime_type :: string
  da_size :: nat

record draft_record =
  dr_id :: int
  dr_gmail_draft_id :: "string option"
  dr_thread_id :: "string option"
  dr_in_reply_to :: "string option"
  dr_to :: "email_address list"
  dr_cc :: "email_address list"
  dr_bcc :: "email_address list"
  dr_subject :: string
  dr_body_html :: string
  dr_quoted_html :: string
  dr_attachments :: "draft_attachment list"
  dr_updated_at :: millis
  dr_state :: draft_state
  dr_last_error :: "string option"

text \<open>The row: the record without its quote, and the columns that only the store reads.\<close>

record draft_row =
  dw_record :: draft_record
  dw_dirty :: bool
  dw_rfc822_message_id :: "string option"

abbreviation dw_id :: "draft_row \<Rightarrow> int" where
  "dw_id r \<equiv> dr_id (dw_record r)"

datatype composition_status = CsWaiting | CsMatched | CsUnmatched | CsDiscarded | CsReviewed

record composition_row =
  co_id :: int
  co_draft_id :: "int option"
  co_status :: composition_status
  co_rfc822_message_id :: "string option"
  co_updated_at :: millis

datatype outbox_op =
    OpModifyLabels "message_id list" "label_id list" "label_id list"
  | OpTrash "message_id list" "(message_id \<times> label_id list) list"
  | OpUntrash "message_id list"
  | OpSend int string "thread_id option" message_id
  | OpSyncDraft int email_address
  | OpDeleteDraft string

datatype outbox_state = Pending | InFlight | Failed

record outbox_row =
  ob_id :: int
  ob_op :: outbox_op
  ob_created_at :: millis
  ob_attempts :: int
  ob_next_attempt_at :: "millis option"
  ob_state :: outbox_state
  ob_last_error :: "string option"
  ob_claimed_by :: "string option"
  ob_lease_until :: "millis option"

record message_diff =
  md_message :: message_id
  md_added :: "label_id list"
  md_removed :: "label_id list"

record undo_action =
  ua_id :: int
  ua_kind :: string
  ua_diffs :: "message_diff list"

record queue_row =
  qr_seq :: int
  qr_priority :: nat
  qr_gmail_id :: message_id

record account_db =
  db_mail :: mail_store
  db_outbox :: "outbox_row list"
  db_drafts :: "draft_row list"
  db_server_drafts :: "(string \<times> string) list"
  db_compositions :: "composition_row list"
  db_undo :: "undo_action list"
  db_undo_seq :: int
  db_queue :: "queue_row list"
  db_queue_seq :: int

definition new_account_db :: account_db where
  "new_account_db = \<lparr>db_mail = empty_store, db_outbox = [], db_drafts = [], db_server_drafts = [],
     db_compositions = [], db_undo = [], db_undo_seq = 0, db_queue = [], db_queue_seq = 0\<rparr>"

record queued_op =
  qo_id :: int
  qo_op :: outbox_op
  qo_attempts :: nat

record outbox_counts =
  oc_pending :: nat
  oc_failed :: nat

fun is_send :: "outbox_op \<Rightarrow> bool" where
  "is_send (OpSend d raw t l) = True"
| "is_send _ = False"

fun op_draft_id :: "outbox_op \<Rightarrow> int option" where
  "op_draft_id (OpSend d raw t l) = Some d"
| "op_draft_id (OpSyncDraft d f) = Some d"
| "op_draft_id _ = None"

section \<open>Compositions\<close>

definition draft_sent :: "account_db \<Rightarrow> int \<Rightarrow> string \<Rightarrow> account_db" where
  "draft_sent db d rfc = db\<lparr>db_compositions :=
     sql_update (\<lambda>c. co_draft_id c = Some d \<and> co_status c = CsWaiting) (\<lambda>c. c\<lparr>co_rfc822_message_id := Some rfc\<rparr>)
       (db_compositions db)\<rparr>"

definition draft_unsent :: "account_db \<Rightarrow> int \<Rightarrow> account_db" where
  "draft_unsent db d = db\<lparr>db_compositions :=
     sql_update (\<lambda>c. co_draft_id c = Some d \<and> co_status c = CsWaiting) (\<lambda>c. c\<lparr>co_rfc822_message_id := None\<rparr>)
       (db_compositions db)\<rparr>"

definition draft_gone :: "account_db \<Rightarrow> int \<Rightarrow> bool \<Rightarrow> millis \<Rightarrow> account_db" where
  "draft_gone db d sent now =
     (let cs = (if sent then db_compositions db
                else sql_update (\<lambda>c. co_draft_id c = Some d \<and> co_status c = CsWaiting \<and> co_rfc822_message_id c = None)
                       (\<lambda>c. c\<lparr>co_status := CsDiscarded, co_updated_at := now\<rparr>) (db_compositions db))
      in db\<lparr>db_compositions := sql_update (\<lambda>c. co_draft_id c = Some d) (\<lambda>c. c\<lparr>co_draft_id := None\<rparr>) cs\<rparr>)"

section \<open>Queueing\<close>

definition enqueue_held :: "account_db \<Rightarrow> outbox_op \<Rightarrow> millis \<Rightarrow> millis option \<Rightarrow> account_db \<times> int" where
  "enqueue_held db p now not_before =
     (let i = next_rowid ob_id (db_outbox db)
      in (db\<lparr>db_outbox := db_outbox db @
            [\<lparr>ob_id = i, ob_op = p, ob_created_at = now, ob_attempts = 0, ob_next_attempt_at = not_before,
              ob_state = Pending, ob_last_error = None, ob_claimed_by = None, ob_lease_until = None\<rparr>]\<rparr>, i))"

definition enqueue :: "account_db \<Rightarrow> outbox_op \<Rightarrow> millis \<Rightarrow> account_db \<times> int" where
  "enqueue db p now = enqueue_held db p now None"

section \<open>Drafts\<close>

definition save_draft :: "account_db \<Rightarrow> draft_record \<Rightarrow> millis \<Rightarrow> (store_error, account_db \<times> int) result" where
  "save_draft db d now =
     (let body_html = dr_body_html d @ dr_quoted_html d
      in if dr_id d = 0 then
           let i = next_rowid dw_id (db_drafts db);
               row = \<lparr>dw_record = \<lparr>dr_id = i, dr_gmail_draft_id = None, dr_thread_id = dr_thread_id d,
                        dr_in_reply_to = dr_in_reply_to d, dr_to = dr_to d, dr_cc = dr_cc d, dr_bcc = dr_bcc d,
                        dr_subject = dr_subject d, dr_body_html = body_html, dr_quoted_html = [],
                        dr_attachments = dr_attachments d, dr_updated_at = now, dr_state = Editing, dr_last_error = None\<rparr>,
                      dw_dirty = True, dw_rfc822_message_id = None\<rparr>
           in Ok (db\<lparr>db_drafts := db_drafts db @ [row]\<rparr>, i)
         else
           (case List.find (\<lambda>r. dw_id r = dr_id d) (db_drafts db) of
              None \<Rightarrow> Err (NotFoundRow (''draft '' @ show_int (dr_id d)))
            | Some r \<Rightarrow>
                if dr_state (dw_record r) = Sending then Err (InvalidData ''this draft is being sent'')
                else Ok (db\<lparr>db_drafts := sql_update (\<lambda>r. dw_id r = dr_id d)
                  (\<lambda>r. r\<lparr>dw_record := (dw_record r)\<lparr>dr_to := dr_to d, dr_cc := dr_cc d, dr_bcc := dr_bcc d,
                            dr_subject := dr_subject d, dr_body_html := body_html, dr_attachments := dr_attachments d,
                            dr_updated_at := now, dr_state := Editing, dr_last_error := None\<rparr>,
                          dw_dirty := True\<rparr>) (db_drafts db)\<rparr>, dr_id d)))"

definition get_draft :: "account_db \<Rightarrow> int \<Rightarrow> draft_record option" where
  "get_draft db i = map_option dw_record (List.find (\<lambda>r. dw_id r = i) (db_drafts db))"

definition list_drafts :: "account_db \<Rightarrow> draft_record list" where
  "list_drafts db =
     rev (sort_key (\<lambda>d. (dr_updated_at d, dr_id d))
       (filter (\<lambda>d. dr_state d \<noteq> Sending) (map dw_record (db_drafts db))))"

definition delete_draft_row :: "account_db \<Rightarrow> int \<Rightarrow> account_db" where
  "delete_draft_row db i = db\<lparr>db_drafts := sql_delete (\<lambda>r. dw_id r = i) (db_drafts db)\<rparr>"

definition discard :: "account_db \<Rightarrow> int \<Rightarrow> millis \<Rightarrow> account_db" where
  "discard db i now =
     (case get_draft db i of
        None \<Rightarrow> db
      | Some d \<Rightarrow>
          let db1 = delete_draft_row (draft_gone db i (dr_state d = Sending) now) i
          in (case dr_gmail_draft_id d of
                None \<Rightarrow> db1
              | Some g \<Rightarrow> fst (enqueue db1 (OpDeleteDraft g) now)))"

definition take_dirty :: "account_db \<Rightarrow> account_db \<times> int list" where
  "take_dirty db =
     (let dirty = (\<lambda>r. dw_dirty r \<and> dr_state (dw_record r) \<noteq> Sending)
      in (db\<lparr>db_drafts := sql_update dirty (\<lambda>r. r\<lparr>dw_dirty := False\<rparr>) (db_drafts db)\<rparr>,
          sort (map dw_id (filter dirty (db_drafts db)))))"

definition set_gmail_draft_id :: "account_db \<Rightarrow> int \<Rightarrow> string option \<Rightarrow> account_db" where
  "set_gmail_draft_id db i g = db\<lparr>db_drafts :=
     sql_update (\<lambda>r. dw_id r = i) (\<lambda>r. r\<lparr>dw_record := (dw_record r)\<lparr>dr_gmail_draft_id := g\<rparr>\<rparr>) (db_drafts db)\<rparr>"

definition set_state :: "account_db \<Rightarrow> int \<Rightarrow> draft_state \<Rightarrow> string option \<Rightarrow> account_db" where
  "set_state db i s e = db\<lparr>db_drafts :=
     sql_update (\<lambda>r. dw_id r = i) (\<lambda>r. r\<lparr>dw_record := (dw_record r)\<lparr>dr_state := s, dr_last_error := e\<rparr>\<rparr>) (db_drafts db)\<rparr>"

definition set_rfc822_id :: "account_db \<Rightarrow> int \<Rightarrow> string \<Rightarrow> account_db" where
  "set_rfc822_id db i rfc =
     draft_sent (db\<lparr>db_drafts := sql_update (\<lambda>r. dw_id r = i) (\<lambda>r. r\<lparr>dw_rfc822_message_id := Some rfc\<rparr>) (db_drafts db)\<rparr>) i rfc"

definition replace_server_drafts :: "account_db \<Rightarrow> (string \<times> string) list \<Rightarrow> account_db" where
  "replace_server_drafts db ds = db\<lparr>db_server_drafts :=
     foldl (\<lambda>rows (d, m). sql_delete (\<lambda>(d', m'). d' = d) rows @ [(d, m)]) [] ds\<rparr>"

definition set_clean :: "account_db \<Rightarrow> int \<Rightarrow> account_db" where
  "set_clean db i = db\<lparr>db_drafts := sql_update (\<lambda>r. dw_id r = i) (\<lambda>r. r\<lparr>dw_dirty := False\<rparr>) (db_drafts db)\<rparr>"

definition server_draft_for_message :: "account_db \<Rightarrow> string \<Rightarrow> string option" where
  "server_draft_for_message db m = map_option fst (List.find (\<lambda>(d, m'). m' = m) (db_server_drafts db))"

definition local_for_server :: "account_db \<Rightarrow> string \<Rightarrow> int option" where
  "local_for_server db g =
     map_option dw_id (List.find (\<lambda>r. dr_gmail_draft_id (dw_record r) = Some g) (db_drafts db))"

section \<open>Claims\<close>

definition LEASE_MS :: millis where "LEASE_MS = 60000"
definition LEASE_RENEW_MS :: millis where "LEASE_RENEW_MS = 15000"
definition NO_LOCK :: string where "NO_LOCK = ''nolock-''"

record claimant =
  cl_id :: string
  cl_has_dir :: bool

text \<open>
  What opening and trying to lock \<open><id>.lock\<close> finds: no file, an open error, a file another
  process holds, a free file that the name still means, or a free file whose name now means
  another file or none.
\<close>

datatype lock_file = LockMissing | LockUnreadable | LockHeld | LockFree | LockRenamed | LockUnlinked

definition contains_dots :: "string \<Rightarrow> bool" where
  "contains_dots s \<longleftrightarrow> sublist ''..'' s"

definition is_gone :: "claimant \<Rightarrow> (string \<Rightarrow> lock_file) \<Rightarrow> string \<Rightarrow> bool" where
  "is_gone me locks other =
     (if \<not> cl_has_dir me then False
      else if prefix NO_LOCK other \<or> other = [] \<or> CHR ''/'' \<in> set other \<or> CHR 0x5C \<in> set other \<or> contains_dots other
      then False
      else (case locks other of
              LockMissing \<Rightarrow> True
            | LockUnreadable \<Rightarrow> False
            | LockHeld \<Rightarrow> False
            | LockFree \<Rightarrow> True
            | LockRenamed \<Rightarrow> False
            | LockUnlinked \<Rightarrow> True))"

datatype claim = Ready queued_op | Idle | Busy

definition held_at :: "millis \<Rightarrow> outbox_row \<Rightarrow> bool" where
  "held_at now r \<longleftrightarrow> is_send (ob_op r) \<and> ob_state r = Pending \<and> ob_attempts r = 0 \<and>
     (case ob_next_attempt_at r of None \<Rightarrow> False | Some at \<Rightarrow> at > now)"

definition next_ready :: "account_db \<Rightarrow> millis \<Rightarrow> queued_op option" where
  "next_ready db now =
     (case List.find (\<lambda>r. ob_state r = Pending \<and> \<not> held_at now r) (sort_key ob_id (db_outbox db)) of
        None \<Rightarrow> None
      | Some r \<Rightarrow>
          (case ob_next_attempt_at r of
             Some at \<Rightarrow> if at > now then None
                        else Some \<lparr>qo_id = ob_id r, qo_op = ob_op r, qo_attempts = clamp_u32 (ob_attempts r)\<rparr>
           | None \<Rightarrow> Some \<lparr>qo_id = ob_id r, qo_op = ob_op r, qo_attempts = clamp_u32 (ob_attempts r)\<rparr>))"

definition in_flight :: "account_db \<Rightarrow> bool" where
  "in_flight db \<longleftrightarrow> list_ex (\<lambda>r. ob_state r = InFlight) (db_outbox db)"

definition claim_next :: "account_db \<Rightarrow> string \<Rightarrow> millis \<Rightarrow> millis \<Rightarrow> account_db \<times> claim" where
  "claim_next db claimant now lease_until =
     (if in_flight db then (db, Busy)
      else case next_ready db now of
             None \<Rightarrow> (db, Idle)
           | Some q \<Rightarrow>
               let p = (\<lambda>r. ob_id r = qo_id q \<and> ob_state r = Pending);
                   db' = db\<lparr>db_outbox := sql_update p
                     (\<lambda>r. r\<lparr>ob_state := InFlight, ob_claimed_by := Some claimant, ob_lease_until := Some lease_until\<rparr>)
                     (db_outbox db)\<rparr>
               in (db', if sql_count p (db_outbox db) = 1 then Ready q else Idle))"

definition claim_row :: "int \<Rightarrow> string \<Rightarrow> outbox_row \<Rightarrow> bool" where
  "claim_row i claimant r \<longleftrightarrow> ob_id r = i \<and> ob_state r = InFlight \<and> ob_claimed_by r = Some claimant"

definition renew :: "account_db \<Rightarrow> int \<Rightarrow> string \<Rightarrow> millis \<Rightarrow> account_db \<times> bool" where
  "renew db i claimant lease_until =
     (db\<lparr>db_outbox := sql_update (claim_row i claimant) (\<lambda>r. r\<lparr>ob_lease_until := Some lease_until\<rparr>) (db_outbox db)\<rparr>,
      sql_count (claim_row i claimant) (db_outbox db) = 1)"

definition holds :: "account_db \<Rightarrow> int \<Rightarrow> string \<Rightarrow> bool" where
  "holds db i claimant \<longleftrightarrow> list_ex (claim_row i claimant) (db_outbox db)"

definition released :: "claimant \<Rightarrow> (string \<Rightarrow> lock_file) \<Rightarrow> millis \<Rightarrow> outbox_row \<Rightarrow> bool" where
  "released me locks now r \<longleftrightarrow>
     ob_state r = InFlight \<and>
     (case ob_claimed_by r of
        None \<Rightarrow> True
      | Some b \<Rightarrow> b = cl_id me \<or> (case ob_lease_until r of None \<Rightarrow> True | Some l \<Rightarrow> l \<le> now) \<or> is_gone me locks b)"

definition recover_in_flight :: "account_db \<Rightarrow> claimant \<Rightarrow> (string \<Rightarrow> lock_file) \<Rightarrow> millis \<Rightarrow> account_db \<times> nat" where
  "recover_in_flight db me locks now =
     (db\<lparr>db_outbox := sql_update (released me locks now)
        (\<lambda>r. r\<lparr>ob_state := Pending, ob_claimed_by := None, ob_lease_until := None,
               ob_attempts := ob_attempts r + of_bool (is_send (ob_op r))\<rparr>) (db_outbox db)\<rparr>,
      sql_count (released me locks now) (db_outbox db))"

section \<open>Held sends\<close>

definition update_mail :: "account_db \<Rightarrow> mail_store \<Rightarrow> account_db" where
  "update_mail db m = db\<lparr>db_mail := m\<rparr>"

definition cancel_send ::
    "account_db \<Rightarrow> int \<Rightarrow> millis \<Rightarrow> (store_error, account_db \<times> thread_changes option) result" where
  "cancel_send db draft now =
     (case List.find (\<lambda>r. held_at now r \<and> op_draft_id (ob_op r) = Some draft) (db_outbox db) of
        None \<Rightarrow> Ok (db, None)
      | Some r \<Rightarrow>
          (case ob_op r of
             OpSend d raw t local_message_id \<Rightarrow>
               let db1 = db\<lparr>db_outbox := sql_delete (\<lambda>x. ob_id x = ob_id r) (db_outbox db)\<rparr>;
                   w = fst (delete_message (writer_new (db_mail db1)) local_message_id)
               in (case finish w of
                     Inl e \<Rightarrow> Err e
                   | Inr (m, ch) \<Rightarrow>
                       Ok (draft_unsent (set_state (update_mail db1 m) draft Editing None) draft, Some ch))
           | _ \<Rightarrow> Ok (db, None)))"

definition send_held_until :: "account_db \<Rightarrow> int \<Rightarrow> millis \<Rightarrow> millis option" where
  "send_held_until db draft now =
     (case List.find (\<lambda>r. held_at now r \<and> op_draft_id (ob_op r) = Some draft) (db_outbox db) of
        None \<Rightarrow> None | Some r \<Rightarrow> ob_next_attempt_at r)"

definition held_sends :: "account_db \<Rightarrow> millis \<Rightarrow> nat" where
  "held_sends db now = clamp_u32 (int (sql_count (held_at now) (db_outbox db)))"

definition unsent_sends :: "account_db \<Rightarrow> nat" where
  "unsent_sends db = clamp_u32 (int (sql_count (\<lambda>r. is_send (ob_op r) \<and>
     (ob_state r = Pending \<and> ob_attempts r = 0 \<or> ob_state r = InFlight)) (db_outbox db)))"

definition release_held_sends :: "account_db \<Rightarrow> millis \<Rightarrow> account_db \<times> nat" where
  "release_held_sends db now =
     (db\<lparr>db_outbox := sql_update (held_at now) (\<lambda>r. r\<lparr>ob_next_attempt_at := None\<rparr>) (db_outbox db)\<rparr>,
      sql_count (held_at now) (db_outbox db))"

definition next_retry_at :: "account_db \<Rightarrow> millis option" where
  "next_retry_at db =
     (case List.map_filter ob_next_attempt_at (filter (\<lambda>r. ob_state r = Pending) (db_outbox db)) of
        [] \<Rightarrow> None | t # ts \<Rightarrow> Some (fold min ts t))"

section \<open>Outcomes\<close>

definition complete :: "account_db \<Rightarrow> int \<Rightarrow> account_db" where
  "complete db i =
     (let db1 = (case List.find (\<lambda>r. ob_id r = i) (db_outbox db) of
                   None \<Rightarrow> db
                 | Some r \<Rightarrow> (case ob_op r of OpSend d raw t l \<Rightarrow> discard db d (ob_created_at r) | _ \<Rightarrow> db))
      in db1\<lparr>db_outbox := sql_delete (\<lambda>r. ob_id r = i) (db_outbox db1)\<rparr>)"

definition retry_later :: "account_db \<Rightarrow> int \<Rightarrow> millis \<Rightarrow> string \<Rightarrow> account_db" where
  "retry_later db i next_attempt_at error =
     db\<lparr>db_outbox := sql_update (\<lambda>r. ob_id r = i)
       (\<lambda>r. r\<lparr>ob_state := Pending, ob_attempts := ob_attempts r + 1, ob_next_attempt_at := Some next_attempt_at,
              ob_last_error := Some error, ob_claimed_by := None, ob_lease_until := None\<rparr>) (db_outbox db)\<rparr>"

definition current_labels :: "mail_store \<Rightarrow> message_id \<Rightarrow> label_id list" where
  "current_labels m g = (case find_message m g of None \<Rightarrow> [] | Some r \<Rightarrow> m_labels r)"

text \<open>A loop of label changes, stopped by the first error.\<close>

fun modify_each ::
    "(mail_writer \<Rightarrow> 'a \<Rightarrow> (store_error, mail_writer \<times> bool) result) \<Rightarrow> mail_writer \<Rightarrow> 'a list \<Rightarrow> (store_error, mail_writer) result"
  where
  "modify_each f w [] = Ok w"
| "modify_each f w (x # xs) = (case f w x of Inl e \<Rightarrow> Err e | Inr (w', b) \<Rightarrow> modify_each f w' xs)"

text \<open>The local effect of an op taken back; the second component is the draft that failed.\<close>

fun undo_op :: "mail_writer \<Rightarrow> outbox_op \<Rightarrow> (store_error, mail_writer \<times> int option) result" where
  "undo_op w (OpModifyLabels ids add remove) =
     map_sum id (\<lambda>w. (w, None)) (modify_each (\<lambda>w m. modify_message_labels w m remove add) w ids)"
| "undo_op w (OpTrash ids previous) =
     map_sum id (\<lambda>w. (w, None))
       (modify_each (\<lambda>w (m, ls). modify_message_labels w m ls (current_labels (w_db w) m)) w previous)"
| "undo_op w (OpUntrash ids) =
     map_sum id (\<lambda>w. (w, None)) (modify_each (\<lambda>w m. modify_message_labels w m [TRASH] []) w ids)"
| "undo_op w (OpSend d raw t l) = Ok (fst (delete_message w l), Some d)"
| "undo_op w (OpSyncDraft d f) = Ok (w, None)"
| "undo_op w (OpDeleteDraft g) = Ok (w, None)"

definition fail :: "account_db \<Rightarrow> int \<Rightarrow> string \<Rightarrow> (store_error, account_db \<times> thread_changes) result" where
  "fail db i error =
     (case List.find (\<lambda>r. ob_id r = i) (db_outbox db) of
        None \<Rightarrow> Err (Sqlite ''Query returned no rows'')
      | Some r \<Rightarrow>
          (case undo_op (writer_new (db_mail db)) (ob_op r) of
             Inl e \<Rightarrow> Err e
           | Inr (w, draft) \<Rightarrow>
               (case finish w of
                  Inl e \<Rightarrow> Err e
                | Inr (m, ch) \<Rightarrow>
                    let db1 = (case draft of None \<Rightarrow> db | Some d \<Rightarrow> set_state db d FailedDraft (Some error))
                    in Ok (db1\<lparr>db_mail := m,
                             db_outbox := sql_update (\<lambda>r. ob_id r = i)
                               (\<lambda>r. r\<lparr>ob_state := Failed, ob_last_error := Some error, ob_claimed_by := None,
                                      ob_lease_until := None\<rparr>) (db_outbox db1)\<rparr>, ch))))"

definition has_pending_draft_sync :: "account_db \<Rightarrow> int \<Rightarrow> bool" where
  "has_pending_draft_sync db draft \<longleftrightarrow>
     list_ex (\<lambda>r. (case ob_op r of OpSyncDraft d f \<Rightarrow> d = draft | _ \<Rightarrow> False) \<and> ob_state r = Pending) (db_outbox db)"

definition outbox_counts_of :: "account_db \<Rightarrow> outbox_counts" where
  "outbox_counts_of db =
     \<lparr>oc_pending = clamp_u32 (int (sql_count (\<lambda>r. ob_state r = Pending) (db_outbox db))),
      oc_failed = clamp_u32 (int (sql_count (\<lambda>r. ob_state r = Failed) (db_outbox db)))\<rparr>"

definition clear_failed :: "account_db \<Rightarrow> account_db \<times> nat" where
  "clear_failed db =
     (db\<lparr>db_outbox := sql_delete (\<lambda>r. ob_state r = Failed) (db_outbox db)\<rparr>,
      sql_count (\<lambda>r. ob_state r = Failed) (db_outbox db))"

definition thread_message_ids :: "mail_store \<Rightarrow> thread_id \<Rightarrow> message_id list" where
  "thread_message_ids m t =
     map m_gmail_id (sort_key m_id (filter (\<lambda>r. \<exists>x \<in> set (threads m). t_id x = m_thread r \<and> t_gmail_id x = t) (messages m)))"

definition affected_messages ::
    "mail_store \<Rightarrow> thread_id list \<Rightarrow> label_id list \<Rightarrow> label_id list \<Rightarrow> (message_id \<times> label_id list) list" where
  "affected_messages m ts add remove =
     concat (map (\<lambda>t. filter (\<lambda>(g, ls). list_ex (\<lambda>l. l \<notin> set ls) add \<or> list_ex (\<lambda>l. l \<in> set ls) remove)
       (map (\<lambda>g. (g, current_labels m g)) (thread_message_ids m t))) ts)"

section \<open>The invariant of the queue\<close>

definition row_ok :: "outbox_row \<Rightarrow> bool" where
  "row_ok r \<longleftrightarrow> (ob_state r \<noteq> InFlight \<longrightarrow> ob_claimed_by r = None \<and> ob_lease_until r = None) \<and>
     (ob_state r = InFlight \<longrightarrow> ob_claimed_by r \<noteq> None \<and> ob_lease_until r \<noteq> None) \<and> 0 \<le> ob_attempts r"

definition outbox_ok :: "account_db \<Rightarrow> bool" where
  "outbox_ok db \<longleftrightarrow>
     sorted_wrt (<) (map ob_id (db_outbox db)) \<and>
     (\<forall>r \<in> set (db_outbox db). row_ok r) \<and>
     length (filter (\<lambda>r. ob_state r = InFlight) (db_outbox db)) \<le> 1"

interpretation outbox_table: keyed_table ob_id "\<lambda>f. \<forall>r. ob_id (f r) = ob_id r"
  by unfold_locales simp

interpretation drafts_table: keyed_table dw_id "\<lambda>f. \<forall>r. dw_id (f r) = dw_id r"
  by unfold_locales simp

lemma outbox_ok_sorted: "outbox_ok db \<Longrightarrow> sort_key ob_id (db_outbox db) = db_outbox db"
  by (simp add: outbox_ok_def strict_sorted_iff sort_key_id_if_sorted)

lemma outbox_ok_distinct: "outbox_ok db \<Longrightarrow> distinct (map ob_id (db_outbox db))"
  by (simp add: outbox_ok_def strict_sorted_iff)

lemma sorted_wrt_filter_map: "sorted_wrt R (map f xs) \<Longrightarrow> sorted_wrt R (map f (filter p xs))"
  by (induction xs) auto

text \<open>Deleting rows, and rewriting rows without putting another one in flight, keep the invariant.\<close>

lemma outbox_ok_delete: "outbox_ok db \<Longrightarrow> outbox_ok (db\<lparr>db_outbox := sql_delete p (db_outbox db)\<rparr>)"
proof -
  assume ok: "outbox_ok db"
  have "length (filter (\<lambda>r. ob_state r = InFlight) (filter (\<lambda>r. \<not> p r) (db_outbox db))) \<le>
      length (filter (\<lambda>r. ob_state r = InFlight) (db_outbox db))"
    by (simp add: filter_filter) (rule length_filter_mono, simp)
  with ok show ?thesis
    by (auto simp: outbox_ok_def sql_delete_def intro: sorted_wrt_filter_map)
qed

lemma length_filter_update_le:
  "(\<And>r. r \<in> set rows \<Longrightarrow> p r \<Longrightarrow> q (f r) \<Longrightarrow> q r) \<Longrightarrow> length (filter q (sql_update p f rows)) \<le> length (filter q rows)"
  by (induction rows) (auto simp: sql_update_def intro: le_SucI)

lemma outbox_ok_update:
  assumes ok: "outbox_ok db" and id: "\<And>r. ob_id (f r) = ob_id r"
    and row: "\<And>r. r \<in> set (db_outbox db) \<Longrightarrow> p r \<Longrightarrow> row_ok (f r) \<and> (ob_state (f r) = InFlight \<longrightarrow> ob_state r = InFlight)"
  shows "outbox_ok (db\<lparr>db_outbox := sql_update p f (db_outbox db)\<rparr>)"
proof -
  have "map ob_id (sql_update p f (db_outbox db)) = map ob_id (db_outbox db)"
    by (simp add: sql_update_def id)
  moreover have "length (filter (\<lambda>r. ob_state r = InFlight) (sql_update p f (db_outbox db))) \<le>
      length (filter (\<lambda>r. ob_state r = InFlight) (db_outbox db))"
    using row by (intro length_filter_update_le) blast
  moreover have "row_ok x" if "x \<in> set (sql_update p f (db_outbox db))" for x
    using in_sql_update [OF that] ok row by (auto simp: outbox_ok_def split: if_splits)
  ultimately show ?thesis using ok by (auto simp: outbox_ok_def)
qed

lemma outbox_ok_same: "outbox_ok db \<Longrightarrow> db_outbox db' = db_outbox db \<Longrightarrow> outbox_ok db'"
  by (simp add: outbox_ok_def)

lemma enqueue_held_ok: "outbox_ok db \<Longrightarrow> outbox_ok (fst (enqueue_held db p now nb))"
proof -
  assume ok: "outbox_ok db"
  have "ob_id r < next_rowid ob_id (db_outbox db)" if "r \<in> set (db_outbox db)" for r
    using next_rowid_greater [OF that] .
  with ok show ?thesis
    by (auto simp: enqueue_held_def Let_def outbox_ok_def sorted_wrt_append row_ok_def)
qed

lemma enqueue_ok: "outbox_ok db \<Longrightarrow> outbox_ok (fst (enqueue db p now))"
  by (simp add: enqueue_def enqueue_held_ok)

lemma draft_gone_outbox [simp]: "db_outbox (draft_gone db d s now) = db_outbox db" "db_mail (draft_gone db d s now) = db_mail db"
  "db_drafts (draft_gone db d s now) = db_drafts db"
  by (simp_all add: draft_gone_def Let_def)

lemma discard_ok:
  assumes ok: "outbox_ok db"
  shows "outbox_ok (discard db i now)"
proof (cases "get_draft db i")
  case (Some d)
  let ?db1 = "delete_draft_row (draft_gone db i (dr_state d = Sending) now) i"
  have "outbox_ok ?db1" by (rule outbox_ok_same [OF ok]) (simp add: delete_draft_row_def)
  with Some show ?thesis by (auto simp: discard_def Let_def enqueue_ok split: option.split)
qed (simp add: discard_def ok)

lemma retry_later_ok: "outbox_ok db \<Longrightarrow> outbox_ok (retry_later db i at e)"
  unfolding retry_later_def by (rule outbox_ok_update) (auto simp: row_ok_def outbox_ok_def)

lemma renew_ok: "outbox_ok db \<Longrightarrow> outbox_ok (fst (renew db i c l))"
  unfolding renew_def fst_conv by (rule outbox_ok_update) (auto simp: row_ok_def outbox_ok_def claim_row_def)

lemma recover_in_flight_ok: "outbox_ok db \<Longrightarrow> outbox_ok (fst (recover_in_flight db me locks now))"
  unfolding recover_in_flight_def fst_conv by (rule outbox_ok_update) (auto simp: row_ok_def outbox_ok_def)

lemma release_held_sends_ok: "outbox_ok db \<Longrightarrow> outbox_ok (fst (release_held_sends db now))"
  unfolding release_held_sends_def fst_conv by (rule outbox_ok_update) (auto simp: row_ok_def outbox_ok_def held_at_def)

lemma clear_failed_ok: "outbox_ok db \<Longrightarrow> outbox_ok (fst (clear_failed db))"
  by (simp add: clear_failed_def outbox_ok_delete)

lemma complete_ok: "outbox_ok db \<Longrightarrow> outbox_ok (complete db i)"
  by (auto simp: complete_def Let_def split: option.split outbox_op.split intro!: outbox_ok_delete discard_ok)

text \<open>Claiming: the oldest ready op, only when none is in flight.\<close>

lemma next_ready_Some:
  assumes ok: "outbox_ok db" and q: "next_ready db now = Some q"
  obtains before r after where "db_outbox db = before @ r # after" "ob_state r = Pending" "\<not> held_at now r"
    "\<And>x. x \<in> set before \<Longrightarrow> ob_state x = Pending \<Longrightarrow> held_at now x"
    "q = \<lparr>qo_id = ob_id r, qo_op = ob_op r, qo_attempts = clamp_u32 (ob_attempts r)\<rparr>"
    "case ob_next_attempt_at r of None \<Rightarrow> True | Some at \<Rightarrow> at \<le> now"
proof -
  let ?P = "\<lambda>r. ob_state r = Pending \<and> \<not> held_at now r"
  from q obtain r where r: "List.find ?P (db_outbox db) = Some r"
    and q': "q = \<lparr>qo_id = ob_id r, qo_op = ob_op r, qo_attempts = clamp_u32 (ob_attempts r)\<rparr>"
    and at: "case ob_next_attempt_at r of None \<Rightarrow> True | Some at \<Rightarrow> at \<le> now"
    by (auto simp: next_ready_def outbox_ok_sorted [OF ok] split: option.splits if_splits)
  from find_split [OF r] obtain before after where "db_outbox db = before @ r # after" "\<forall>x \<in> set before. \<not> ?P x" "?P r"
    by blast
  with q' at that show ?thesis by blast
qed

lemma claim_next_cases:
  assumes ok: "outbox_ok db"
  shows "claim_next db c now lease = (db, Busy) \<and> in_flight db \<or>
    claim_next db c now lease = (db, Idle) \<and> \<not> in_flight db \<and> next_ready db now = None \<or>
    (\<exists>before r after. \<not> in_flight db \<and> db_outbox db = before @ r # after \<and> ob_state r = Pending \<and> \<not> held_at now r \<and>
       (\<forall>x \<in> set before. ob_state x = Pending \<longrightarrow> held_at now x) \<and>
       (case ob_next_attempt_at r of None \<Rightarrow> True | Some at \<Rightarrow> at \<le> now) \<and>
       claim_next db c now lease =
         (db\<lparr>db_outbox := before @ r\<lparr>ob_state := InFlight, ob_claimed_by := Some c, ob_lease_until := Some lease\<rparr> # after\<rparr>,
          Ready \<lparr>qo_id = ob_id r, qo_op = ob_op r, qo_attempts = clamp_u32 (ob_attempts r)\<rparr>))"
proof (cases "in_flight db")
  case False
  show ?thesis
  proof (cases "next_ready db now")
    case (Some q)
    from next_ready_Some [OF ok Some] obtain before r after where rows: "db_outbox db = before @ r # after"
      and r: "ob_state r = Pending" "\<not> held_at now r" "\<And>x. x \<in> set before \<Longrightarrow> ob_state x = Pending \<Longrightarrow> held_at now x"
      and q: "q = \<lparr>qo_id = ob_id r, qo_op = ob_op r, qo_attempts = clamp_u32 (ob_attempts r)\<rparr>"
      and at: "case ob_next_attempt_at r of None \<Rightarrow> True | Some at \<Rightarrow> at \<le> now" by blast
    have other: "ob_id x \<noteq> ob_id r" if "x \<in> set before \<union> set after" for x
      using outbox_ok_distinct [OF ok] that by (auto simp: rows) (metis image_eqI)+
    let ?p = "\<lambda>x. ob_id x = qo_id q \<and> ob_state x = Pending"
    have none: "filter ?p before = []" "filter ?p after = []"
      using other by (auto simp: filter_empty_conv q)
    have upd: "sql_update ?p f before = before" "sql_update ?p f after = after" for f
      using other by (auto simp: q intro!: sql_update_none)
    have "sql_update ?p f (db_outbox db) = before @ f r # after" for f
      using upd [of f] r(1) by (simp add: rows q) (simp add: sql_update_def)
    moreover have "sql_count ?p (db_outbox db) = 1"
      using none r(1) by (simp add: sql_count_def rows q)
    moreover have "claim_next db c now lease = (db\<lparr>db_outbox := sql_update ?p
        (\<lambda>r. r\<lparr>ob_state := InFlight, ob_claimed_by := Some c, ob_lease_until := Some lease\<rparr>) (db_outbox db)\<rparr>,
        if sql_count ?p (db_outbox db) = 1 then Ready q else Idle)"
      by (simp add: claim_next_def False Some Let_def)
    ultimately have "claim_next db c now lease =
        (db\<lparr>db_outbox := before @ r\<lparr>ob_state := InFlight, ob_claimed_by := Some c, ob_lease_until := Some lease\<rparr> # after\<rparr>, Ready q)"
      by simp
    with False r at rows q show ?thesis by blast
  qed (simp add: claim_next_def False)
qed (simp add: claim_next_def)

lemma claim_next_ok: "outbox_ok db \<Longrightarrow> outbox_ok (fst (claim_next db c now lease))"
proof -
  assume ok: "outbox_ok db"
  have none: "filter (\<lambda>r. ob_state r = InFlight) xs = []" if "\<not> in_flight db" "set xs \<subseteq> set (db_outbox db)" for xs
    using that by (auto simp: in_flight_def filter_empty_conv list_ex_iff)
  from claim_next_cases [OF ok, of c now lease] show ?thesis
  proof (elim disjE exE conjE)
    fix before r after
    assume run: "\<not> in_flight db" "db_outbox db = before @ r # after"
      "claim_next db c now lease =
         (db\<lparr>db_outbox := before @ r\<lparr>ob_state := InFlight, ob_claimed_by := Some c, ob_lease_until := Some lease\<rparr> # after\<rparr>,
          Ready \<lparr>qo_id = ob_id r, qo_op = ob_op r, qo_attempts = clamp_u32 (ob_attempts r)\<rparr>)"
    with ok none [of before] none [of after] show ?thesis
      by (auto simp: outbox_ok_def row_ok_def)
  qed (use ok in simp_all)
qed

section \<open>Undo Send\<close>

lemma cancel_send_run:
  assumes mail: "store_ok (db_mail db)"
    and r: "List.find (\<lambda>r. held_at now r \<and> op_draft_id (ob_op r) = Some d) (db_outbox db) = Some r"
  obtains raw t l m ch where "ob_op r = OpSend d raw t l"
    "finish (fst (delete_message (writer_new (db_mail db)) l)) = Ok (m, ch)" "store_ok m"
    "cancel_send db d now = Ok (draft_unsent (set_state (db\<lparr>db_outbox := sql_delete (\<lambda>x. ob_id x = ob_id r) (db_outbox db),
       db_mail := m\<rparr>) d Editing None) d, Some ch)"
proof -
  from find_Some_in [OF r] obtain raw t l where op: "ob_op r = OpSend d raw t l"
    by (cases "ob_op r") (auto simp: held_at_def)
  have "writer_ok (writer_new (db_mail db))"
    using writer_new_ok [OF mail, of ReplaceLabels] by (simp add: with_stored_labels_def writer_new_def)
  then have "writer_ok (fst (delete_message (writer_new (db_mail db)) l))"
    using delete_message_ok by (simp add: writer_ok_def)
  from finish_ok [OF this] obtain m ch where fin: "finish (fst (delete_message (writer_new (db_mail db)) l)) = Ok (m, ch)" "store_ok m"
    by blast
  have "cancel_send db d now = Ok (draft_unsent (set_state (db\<lparr>db_outbox := sql_delete (\<lambda>x. ob_id x = ob_id r) (db_outbox db),
       db_mail := m\<rparr>) d Editing None) d, Some ch)"
    using r fin by (simp add: cancel_send_def op Let_def update_mail_def)
  with op fin show ?thesis by (rule that)
qed

lemma set_state_frame [simp]: "db_outbox (set_state db i s e) = db_outbox db" "db_mail (set_state db i s e) = db_mail db"
  by (simp_all add: set_state_def)

lemma draft_unsent_frame [simp]: "db_outbox (draft_unsent db d) = db_outbox db" "db_mail (draft_unsent db d) = db_mail db"
    "db_drafts (draft_unsent db d) = db_drafts db"
  by (simp_all add: draft_unsent_def)

lemma recompute_all_messages:
  "pending_ok {} {} db ds \<Longrightarrow> recompute_all db ds ch = Ok (db', ch') \<Longrightarrow> messages db' = messages db"
  using recompute_all_ok [of db ds ch] by auto

definition taken_back :: "account_db \<Rightarrow> int \<Rightarrow> int \<Rightarrow> message_id \<Rightarrow> account_db \<Rightarrow> bool" where
  "taken_back db d i l db' \<longleftrightarrow>
     db_outbox db' = filter (\<lambda>x. ob_id x \<noteq> i) (db_outbox db) \<and> store_ok (db_mail db') \<and>
     (\<forall>m \<in> set (messages (db_mail db')). m_gmail_id m \<noteq> l) \<and>
     (\<forall>x \<in> set (db_drafts db'). dw_id x = d \<longrightarrow> dr_state (dw_record x) = Editing \<and> dr_last_error (dw_record x) = None)"

text \<open>
  Claim C6: Undo Send takes a send back exactly while it is held. When the draft has a send that
  was never tried and whose time has not come, \<open>cancel_send\<close> succeeds: that op leaves the
  queue and no other does, so no drainer can claim it, the optimistic Sent copy leaves the store
  (which stays consistent) and the draft is back in editing with no error. Otherwise nothing
  changes.
\<close>

theorem undo_send_takes_back_only_held_sends:
  assumes "store_ok (db_mail db)"
  shows "(\<exists>r \<in> set (db_outbox db). \<exists>raw t l db' ch. held_at now r \<and> ob_op r = OpSend d raw t l \<and>
      cancel_send db d now = Ok (db', Some ch) \<and> taken_back db d (ob_id r) l db') \<or>
    (\<forall>r \<in> set (db_outbox db). \<not> (held_at now r \<and> op_draft_id (ob_op r) = Some d)) \<and> cancel_send db d now = Ok (db, None)"
proof (cases "List.find (\<lambda>r. held_at now r \<and> op_draft_id (ob_op r) = Some d) (db_outbox db)")
  case None
  then have "\<forall>r \<in> set (db_outbox db). \<not> (held_at now r \<and> op_draft_id (ob_op r) = Some d)"
    by (auto simp: find_None_iff)
  with None show ?thesis by (simp add: cancel_send_def)
next
  case (Some r)
  from cancel_send_run [OF assms Some] obtain raw t l m ch where
    op: "ob_op r = OpSend d raw t l"
    and fin: "finish (fst (delete_message (writer_new (db_mail db)) l)) = Ok (m, ch)" "store_ok m"
    and run: "cancel_send db d now = Ok (draft_unsent (set_state (db\<lparr>db_outbox := sql_delete (\<lambda>x. ob_id x = ob_id r) (db_outbox db),
       db_mail := m\<rparr>) d Editing None) d, Some ch)" by blast
  define db' where "db' = draft_unsent (set_state (db\<lparr>db_outbox := sql_delete (\<lambda>x. ob_id x = ob_id r) (db_outbox db), db_mail := m\<rparr>) d Editing None) d"
  have gone: "m_gmail_id x \<noteq> l" if "x \<in> set (messages m)" for x
  proof -
    have w: "pending_ok {} {} (w_db (writer_new (db_mail db))) (w_dirty (writer_new (db_mail db)))"
      using writer_new_ok [OF assms, of ReplaceLabels] by (simp add: with_stored_labels_def writer_new_def writer_ok_def)
    from delete_message_ok [OF this, of l] fin(1) have
      "messages m = messages (w_db (fst (delete_message (writer_new (db_mail db)) l)))"
      unfolding finish_def by (rule recompute_all_messages)
    moreover have "distinct (map m_gmail_id (messages (db_mail db)))" "distinct (map m_id (messages (db_mail db)))"
      using assms by (simp_all add: store_ok_def struct_ok_def)
    ultimately show ?thesis using that
      by (auto simp: delete_message_def writer_new_def find_message_def find_None_iff distinct_map inj_on_def
          split: option.splits dest!: find_Some_in)
  qed
  have restored: "dr_state (dw_record x) = Editing \<and> dr_last_error (dw_record x) = None"
    if "x \<in> set (db_drafts db')" "dw_id x = d" for x
  proof -
    from that(1) have "x \<in> set (sql_update (\<lambda>r. dw_id r = d)
        (\<lambda>r. r\<lparr>dw_record := (dw_record r)\<lparr>dr_state := Editing, dr_last_error := None\<rparr>\<rparr>) (db_drafts db))"
      by (simp add: db'_def set_state_def)
    from in_sql_update [OF this] obtain y where y: "x = (if dw_id y = d
        then y\<lparr>dw_record := (dw_record y)\<lparr>dr_state := Editing, dr_last_error := None\<rparr>\<rparr> else y)" by blast
    with that(2) have "dw_id y = d" by (cases "dw_id y = d") simp_all
    with y show ?thesis by simp
  qed
  have "db_outbox db' = filter (\<lambda>x. ob_id x \<noteq> ob_id r) (db_outbox db)" "db_mail db' = m"
    by (simp_all add: db'_def sql_delete_def)
  with fin(2) gone restored have "taken_back db d (ob_id r) l db'"
    by (simp add: taken_back_def)
  with find_Some_in [OF Some] op run [folded db'_def] show ?thesis by blast
qed

text \<open>A send held until time 10 for draft 1, and a label change behind it.\<close>

definition held_send_db :: account_db where
  "held_send_db = fst (enqueue (fst (enqueue_held new_account_db (OpSend 1 ''raw'' None ''local-1'') 0 (Some 10)))
     (OpModifyLabels [''m1''] [] [''INBOX'']) 1)"

lemma held_send_db_ok: "store_ok (db_mail held_send_db)" "outbox_ok held_send_db"
proof -
  show "store_ok (db_mail held_send_db)"
    by (simp add: held_send_db_def enqueue_def enqueue_held_def Let_def new_account_db_def empty_store_ok)
  have "outbox_ok new_account_db" by (simp add: outbox_ok_def new_account_db_def)
  then show "outbox_ok held_send_db" unfolding held_send_db_def by (intro enqueue_ok enqueue_held_ok)
qed

lemma held_send_rows: "db_outbox held_send_db = [\<lparr>ob_id = 1, ob_op = OpSend 1 ''raw'' None ''local-1'', ob_created_at = 0, ob_attempts = 0,
      ob_next_attempt_at = Some 10, ob_state = Pending, ob_last_error = None, ob_claimed_by = None, ob_lease_until = None\<rparr>,
    \<lparr>ob_id = 2, ob_op = OpModifyLabels [''m1''] [] [''INBOX''], ob_created_at = 1, ob_attempts = 0,
      ob_next_attempt_at = None, ob_state = Pending, ob_last_error = None, ob_claimed_by = None, ob_lease_until = None\<rparr>]"
  by (simp add: held_send_db_def enqueue_def enqueue_held_def new_account_db_def next_rowid_def)

theorem undo_send_takes_back_only_held_sends_witness:
  "(\<exists>db' ch. cancel_send held_send_db 1 5 = Ok (db', Some ch) \<and> map ob_id (db_outbox db') = [2]) \<and>
   cancel_send held_send_db 1 10 = Ok (held_send_db, None)"
proof
  note rows = held_send_rows
  show "\<exists>db' ch. cancel_send held_send_db 1 5 = Ok (db', Some ch) \<and> map ob_id (db_outbox db') = [2]"
    using undo_send_takes_back_only_held_sends [OF held_send_db_ok(1), of 5 1]
    by (auto simp: rows held_at_def taken_back_def)
  show "cancel_send held_send_db 1 10 = Ok (held_send_db, None)"
    using undo_send_takes_back_only_held_sends [OF held_send_db_ok(1), of 10 1]
    by (auto simp: rows held_at_def)
qed

section \<open>Order and exclusivity of claims\<close>

text \<open>
  Claim C4: An op is claimed only when no op is in flight, and it is the oldest pending one:
  every pending op before it is a send still held for Undo Send, and its own retry time has
  come. The claim names the claimant, the claimed op is then the only one in flight, and any
  drainer that asks next finds the outbox busy.
\<close>

theorem claims_go_one_at_a_time_in_order:
  assumes ok: "outbox_ok db" and run: "claim_next db c now lease = (db', Ready q)"
  shows "\<not> in_flight db \<and>
    (\<exists>r \<in> set (db_outbox db). ob_id r = qo_id q \<and> ob_op r = qo_op q \<and> ob_state r = Pending \<and> \<not> held_at now r \<and>
       (\<forall>at. ob_next_attempt_at r = Some at \<longrightarrow> at \<le> now) \<and>
       (\<forall>x \<in> set (db_outbox db). ob_id x < qo_id q \<and> ob_state x = Pending \<longrightarrow> held_at now x)) \<and>
    (\<forall>x \<in> set (db_outbox db'). ob_state x = InFlight \<longleftrightarrow> ob_id x = qo_id q) \<and> holds db' (qo_id q) c \<and>
    claim_next db' c2 now2 lease2 = (db', Busy)"
proof -
  from claim_next_cases [OF ok, of c now lease] run obtain before r after where
    free: "\<not> in_flight db" and rows: "db_outbox db = before @ r # after" and r: "ob_state r = Pending" "\<not> held_at now r"
    and earlier: "\<forall>x \<in> set before. ob_state x = Pending \<longrightarrow> held_at now x"
    and at: "case ob_next_attempt_at r of None \<Rightarrow> True | Some at \<Rightarrow> at \<le> now"
    and res: "db' = db\<lparr>db_outbox := before @ r\<lparr>ob_state := InFlight, ob_claimed_by := Some c, ob_lease_until := Some lease\<rparr> # after\<rparr>"
      "q = \<lparr>qo_id = ob_id r, qo_op = ob_op r, qo_attempts = clamp_u32 (ob_attempts r)\<rparr>"
    by auto
  have order: "x \<in> set before" if "x \<in> set (db_outbox db)" "ob_id x < ob_id r" for x
    using ok that by (auto simp: outbox_ok_def rows sorted_wrt_append)
  have others: "ob_state x \<noteq> InFlight" if "x \<in> set before \<union> set after" for x
    using free that by (auto simp: in_flight_def list_ex_iff rows)
  have ids: "ob_id x \<noteq> ob_id r" if "x \<in> set before \<union> set after" for x
    using outbox_ok_distinct [OF ok] that by (auto simp: rows) (metis image_eqI)+
  have "in_flight db'" by (simp add: res in_flight_def)
  then have "claim_next db' c2 now2 lease2 = (db', Busy)" by (simp add: claim_next_def)
  moreover have "\<forall>x \<in> set (db_outbox db'). ob_state x = InFlight \<longleftrightarrow> ob_id x = qo_id q"
    using others ids by (auto simp: res)
  moreover have "holds db' (qo_id q) c" by (simp add: res holds_def claim_row_def)
  moreover have "\<forall>x \<in> set (db_outbox db). ob_id x < qo_id q \<and> ob_state x = Pending \<longrightarrow> held_at now x"
    using order earlier by (auto simp: res)
  moreover have "r \<in> set (db_outbox db)" "ob_id r = qo_id q" "ob_op r = qo_op q" by (simp_all add: rows res)
  moreover have "\<forall>t. ob_next_attempt_at r = Some t \<longrightarrow> t \<le> now" using at by auto
  ultimately show ?thesis using free r by blast
qed

theorem claims_go_one_at_a_time_in_order_witness:
  "\<exists>db' q. claim_next held_send_db ''A'' 5 60005 = (db', Ready q) \<and> qo_id q = 2 \<and> holds db' 2 ''A'' \<and>
     claim_next db' ''B'' 20 60020 = (db', Busy)"
proof -
  obtain db' cl where run: "claim_next held_send_db ''A'' 5 60005 = (db', cl)" by fastforce
  have "snd (claim_next held_send_db ''A'' 5 60005) =
      Ready \<lparr>qo_id = 2, qo_op = OpModifyLabels [''m1''] [] [''INBOX''], qo_attempts = 0\<rparr>"
    by (simp add: claim_next_def in_flight_def next_ready_def held_send_rows held_at_def sql_count_def clamp_u32_def)
  with run have "claim_next held_send_db ''A'' 5 60005 =
      (db', Ready \<lparr>qo_id = 2, qo_op = OpModifyLabels [''m1''] [] [''INBOX''], qo_attempts = 0\<rparr>)" by simp
  from claims_go_one_at_a_time_in_order [OF held_send_db_ok(2) this, of "''B''" 20 60020] this show ?thesis by auto
qed

text \<open>
  Claim C5: A drainer that is alive and renews its lease keeps its op. While its lease has
  not run out and its lock file is not free, another drainer's recovery leaves the claim as it
  is, the holder can still renew it, and nobody can claim any op meanwhile.
\<close>

theorem live_claimant_keeps_its_op:
  assumes ok: "outbox_ok db" and held: "holds db i c"
    and lease: "\<forall>r \<in> set (db_outbox db). \<forall>l. ob_id r = i \<longrightarrow> ob_lease_until r = Some l \<longrightarrow> now < l"
    and other: "cl_id me \<noteq> c" and alive: "\<not> is_gone me locks c"
  shows "let db' = fst (recover_in_flight db me locks now) in
    holds db' i c \<and> snd (renew db' i c until) \<and> claim_next db' d now2 lease2 = (db', Busy)"
proof -
  let ?db' = "fst (recover_in_flight db me locks now)"
  from held obtain r where r: "r \<in> set (db_outbox db)" "claim_row i c r" by (auto simp: holds_def list_ex_iff)
  from ok r have "ob_lease_until r \<noteq> None" by (auto simp: outbox_ok_def row_ok_def claim_row_def)
  with lease r other alive have "\<not> released me locks now r"
    by (auto simp: released_def claim_row_def)
  then have r': "r \<in> set (db_outbox ?db')" using r(1) by (force simp: recover_in_flight_def sql_update_def)
  with r(2) have h: "holds ?db' i c" by (auto simp: holds_def list_ex_iff)
  have "in_flight ?db'" using r' r(2) by (auto simp: in_flight_def list_ex_iff claim_row_def)
  then have "claim_next ?db' d now2 lease2 = (?db', Busy)" by (simp add: claim_next_def)
  moreover have "sql_count (claim_row i c) (db_outbox ?db') = 1"
  proof -
    have "distinct (map ob_id (db_outbox ?db'))" using recover_in_flight_ok [OF ok] by (rule outbox_ok_distinct)
    then show ?thesis
      by (rule outbox_table.count_key [where r = r]) (use r' r(2) in \<open>auto simp: claim_row_def\<close>)
  qed
  ultimately show ?thesis using h by (simp add: Let_def renew_def)
qed

theorem live_claimant_keeps_its_op_witness:
  "\<exists>db. holds db 2 ''A'' \<and> (let db' = fst (recover_in_flight db \<lparr>cl_id = ''B'', cl_has_dir = True\<rparr> (\<lambda>_. LockHeld) 20) in
     holds db' 2 ''A'' \<and> snd (renew db' 2 ''A'' 60020) \<and> claim_next db' ''B'' 20 60020 = (db', Busy))"
proof -
  let ?db = "fst (claim_next held_send_db ''A'' 5 60005)"
  have ok: "outbox_ok ?db" by (rule claim_next_ok [OF held_send_db_ok(2)])
  have h: "holds ?db 2 ''A''" and l: "\<forall>r \<in> set (db_outbox ?db). \<forall>l. ob_id r = 2 \<longrightarrow> ob_lease_until r = Some l \<longrightarrow> 20 < l"
    by (auto simp: claim_next_def in_flight_def next_ready_def held_send_rows held_at_def sql_count_def sql_update_def
        holds_def claim_row_def)
  have "\<not> is_gone \<lparr>cl_id = ''B'', cl_has_dir = True\<rparr> (\<lambda>_. LockHeld) ''A''" by (simp add: is_gone_def)
  from live_claimant_keeps_its_op [OF ok h l, of "\<lparr>cl_id = ''B'', cl_has_dir = True\<rparr>" "\<lambda>_. LockHeld" 60020 "''B''" 20 60020] this h
  show ?thesis by (intro exI [of _ ?db]) simp
qed

end
