(* ===== verification/Queue.thy ===== *)
theory Queue
  imports Outbox
begin

text \<open>
  The backfill queue, \<^verbatim>\<open>crates/mail-store/src/queue.rs\<close>: message ids waiting for a full fetch
  or, from priority \<open>HEADERS_ONLY\<close> up, for their headers. The rows are kept in \<^verbatim>\<open>seq\<close> order;
  \<open>db_queue_seq\<close> is the table's \<^verbatim>\<open>AUTOINCREMENT\<close> counter, the largest \<^verbatim>\<open>seq\<close> ever given out.
  A priority is a \<^verbatim>\<open>u8\<close> in the source and a natural number here; nothing adds to one.
\<close>

section \<open>Operations\<close>

definition HEADERS_ONLY :: nat where "HEADERS_ONLY = 10"
definition INBOX_PRIORITIES :: nat where "INBOX_PRIORITIES = 2"

definition has_row :: "account_db \<Rightarrow> message_id \<Rightarrow> bool" where
  "has_row db g = (\<exists>r \<in> set (messages (db_mail db)). m_gmail_id r = g)"

definition has_full_row :: "account_db \<Rightarrow> message_id \<Rightarrow> bool" where
  "has_full_row db g = (\<exists>r \<in> set (messages (db_mail db)). m_gmail_id r = g \<and> m_body_state r = Full)"

definition queue_insert :: "account_db \<Rightarrow> nat \<Rightarrow> message_id \<Rightarrow> account_db" where
  "queue_insert db p g =
     (let s = db_queue_seq db + 1
      in db\<lparr>db_queue := db_queue db @ [\<lparr>qr_seq = s, qr_priority = p, qr_gmail_id = g\<rparr>], db_queue_seq := s\<rparr>)"

definition queue_remove :: "account_db \<Rightarrow> message_id \<Rightarrow> account_db" where
  "queue_remove db g = db\<lparr>db_queue := sql_delete (\<lambda>r. qr_gmail_id r = g) (db_queue db)\<rparr>"

definition already_stored :: "account_db \<Rightarrow> nat \<Rightarrow> message_id \<Rightarrow> bool" where
  "already_stored db p g = (if HEADERS_ONLY \<le> p then has_row db g else has_full_row db g)"

fun enqueue_ids :: "account_db \<Rightarrow> nat \<Rightarrow> message_id list \<Rightarrow> bool \<Rightarrow> account_db \<times> nat" where
  "enqueue_ids db p [] refetch = (db, 0)"
| "enqueue_ids db p (g # gs) refetch =
     (if \<not> refetch \<and> already_stored db p g then enqueue_ids db p gs refetch
      else case List.find (\<lambda>r. qr_gmail_id r = g) (db_queue db) of
        None \<Rightarrow> (let (db', n) = enqueue_ids (queue_insert db p g) p gs refetch in (db', n + 1))
      | Some r \<Rightarrow>
          if p < qr_priority r
          then enqueue_ids (db\<lparr>db_queue := sql_update (\<lambda>r. qr_gmail_id r = g) (\<lambda>r. r\<lparr>qr_priority := p\<rparr>) (db_queue db)\<rparr>)
                 p gs refetch
          else enqueue_ids db p gs refetch)"

definition queue_push_front :: "account_db \<Rightarrow> message_id \<Rightarrow> account_db" where
  "queue_push_front db g =
     (let s = (case db_queue db of [] \<Rightarrow> 0 | r # rs \<Rightarrow> Min (qr_seq ` set (r # rs))) - 1
      in db\<lparr>db_queue := insort_key qr_seq \<lparr>qr_seq = s, qr_priority = 0, qr_gmail_id = g\<rparr> (db_queue db),
            db_queue_seq := max s (db_queue_seq db)\<rparr>)"

text \<open>The loop of \<^verbatim>\<open>enqueue_urgent\<close> runs over the ids last to first.\<close>

fun urgent_loop :: "account_db \<Rightarrow> message_id list \<Rightarrow> account_db \<times> nat" where
  "urgent_loop db [] = (db, 0)"
| "urgent_loop db (g # gs) =
     (if has_full_row db g then urgent_loop db gs
      else (let (db', n) = urgent_loop (queue_push_front (queue_remove db g) g) gs in (db', n + 1)))"

definition enqueue_urgent :: "account_db \<Rightarrow> message_id list \<Rightarrow> account_db \<times> nat" where
  "enqueue_urgent db ids = urgent_loop db (rev ids)"

definition queue_order :: "queue_row list \<Rightarrow> queue_row list" where
  "queue_order rows = sort_key (\<lambda>r. (qr_priority r, qr_seq r)) rows"

definition peek :: "account_db \<Rightarrow> nat \<Rightarrow> message_id list" where
  "peek db limit =
     take limit (map qr_gmail_id (queue_order (filter (\<lambda>r. qr_priority r < HEADERS_ONLY) (db_queue db))))"

definition for_headers :: "account_db \<Rightarrow> nat \<Rightarrow> message_id list" where
  "for_headers db limit =
     take limit (map qr_gmail_id
       (queue_order (filter (\<lambda>r. HEADERS_ONLY \<le> qr_priority r \<or> \<not> has_row db (qr_gmail_id r)) (db_queue db))))"

fun remove_headers_only :: "account_db \<Rightarrow> message_id list \<Rightarrow> account_db \<times> nat" where
  "remove_headers_only db [] = (db, 0)"
| "remove_headers_only db (g # gs) =
     (let p = (\<lambda>r. qr_gmail_id r = g \<and> HEADERS_ONLY \<le> qr_priority r);
          (db', n) = remove_headers_only (db\<lparr>db_queue := sql_delete p (db_queue db)\<rparr>) gs
      in (db', sql_count p (db_queue db) + n))"

definition promote_headers_only :: "account_db \<Rightarrow> account_db \<times> nat" where
  "promote_headers_only db =
     (db\<lparr>db_queue := sql_update (\<lambda>r. HEADERS_ONLY \<le> qr_priority r)
            (\<lambda>r. r\<lparr>qr_priority := qr_priority r - HEADERS_ONLY\<rparr>) (db_queue db)\<rparr>,
      sql_count (\<lambda>r. HEADERS_ONLY \<le> qr_priority r) (db_queue db))"

definition remove_ids :: "account_db \<Rightarrow> message_id list \<Rightarrow> account_db" where
  "remove_ids db ids = foldl queue_remove db ids"

definition clear_from_priority :: "account_db \<Rightarrow> nat \<Rightarrow> account_db \<times> nat" where
  "clear_from_priority db p =
     (db\<lparr>db_queue := sql_delete (\<lambda>r. p \<le> qr_priority r) (db_queue db)\<rparr>,
      sql_count (\<lambda>r. p \<le> qr_priority r) (db_queue db))"

definition inbox_filling :: "account_db \<Rightarrow> bool" where
  "inbox_filling db = (\<exists>r \<in> set (db_queue db). qr_priority r < INBOX_PRIORITIES \<and> \<not> has_row db (qr_gmail_id r))"

definition queue_len :: "account_db \<Rightarrow> nat" where
  "queue_len db = length (db_queue db)"

definition queue_counts :: "account_db \<Rightarrow> nat \<times> nat" where
  "queue_counts db =
     (sql_count (\<lambda>r. qr_priority r < HEADERS_ONLY) (db_queue db),
      sql_count (\<lambda>r. HEADERS_ONLY \<le> qr_priority r) (db_queue db))"

definition missing :: "account_db \<Rightarrow> message_id list \<Rightarrow> message_id list" where
  "missing db ids = filter (\<lambda>g. \<not> has_full_row db g) ids"

section \<open>Well-formedness\<close>

definition queue_ok :: "account_db \<Rightarrow> bool" where
  "queue_ok db \<longleftrightarrow>
     distinct (map qr_gmail_id (db_queue db)) \<and>
     sorted_wrt (<) (map qr_seq (db_queue db)) \<and>
     (\<forall>r \<in> set (db_queue db). qr_seq r \<le> db_queue_seq db) \<and> 0 \<le> db_queue_seq db"


text \<open>The row queued for an id, and the ids waiting for bodies, most urgent first.\<close>

definition priority_of :: "account_db \<Rightarrow> message_id \<Rightarrow> nat option" where
  "priority_of db g = map_option qr_priority (List.find (\<lambda>r. qr_gmail_id r = g) (db_queue db))"

definition body_order :: "account_db \<Rightarrow> message_id list" where
  "body_order db = map qr_gmail_id (queue_order (filter (\<lambda>r. qr_priority r < HEADERS_ONLY) (db_queue db)))"

lemma peek_body_order: "peek db n = take n (body_order db)"
  by (simp add: peek_def body_order_def)

lemma queue_okI:
  "distinct (map qr_gmail_id (db_queue db)) \<Longrightarrow> sorted_wrt (<) (map qr_seq (db_queue db)) \<Longrightarrow>
   (\<And>r. r \<in> set (db_queue db) \<Longrightarrow> qr_seq r \<le> db_queue_seq db) \<Longrightarrow> 0 \<le> db_queue_seq db \<Longrightarrow> queue_ok db"
  by (simp add: queue_ok_def)

lemma sorted_wrt_map_filter: "sorted_wrt R (map f xs) \<Longrightarrow> sorted_wrt R (map f (filter p xs))"
  by (induction xs) auto

lemma queue_ok_update:
  assumes "queue_ok db" "\<And>r. qr_seq (f r) = qr_seq r" "\<And>r. qr_gmail_id (f r) = qr_gmail_id r"
  shows "queue_ok (db\<lparr>db_queue := sql_update p f (db_queue db)\<rparr>)"
proof -
  have "map qr_seq (sql_update p f rows) = map qr_seq rows"
    and "map qr_gmail_id (sql_update p f rows) = map qr_gmail_id rows" for rows
    using assms(2,3) by (simp_all add: sql_update_def)
  moreover have "qr_seq r \<le> db_queue_seq db" if "r \<in> set (sql_update p f (db_queue db))" for r
    using in_sql_update [OF that] assms by (auto simp: queue_ok_def)
  ultimately show ?thesis using assms(1) by (simp add: queue_ok_def)
qed

lemma queue_ok_delete: "queue_ok db \<Longrightarrow> queue_ok (db\<lparr>db_queue := sql_delete p (db_queue db)\<rparr>)"
  by (simp add: queue_ok_def sql_delete_def distinct_map_filter sorted_wrt_map_filter)

lemma queue_ok_insert:
  "queue_ok db \<Longrightarrow> g \<notin> qr_gmail_id ` set (db_queue db) \<Longrightarrow> queue_ok (queue_insert db p g)"
  by (fastforce simp: queue_ok_def queue_insert_def Let_def sorted_wrt_append)

lemma queue_ok_remove: "queue_ok db \<Longrightarrow> queue_ok (queue_remove db g)"
  by (simp add: queue_remove_def queue_ok_delete)

text \<open>The row that \<open>queue_push_front\<close> inserts has the smallest \<^verbatim>\<open>seq\<close>, so it comes first.\<close>

lemma push_front_rows:
  assumes "queue_ok db"
  obtains s where "db_queue (queue_push_front db g) = \<lparr>qr_seq = s, qr_priority = 0, qr_gmail_id = g\<rparr> # db_queue db"
    and "\<And>r. r \<in> set (db_queue db) \<Longrightarrow> s < qr_seq r"
    and "db_queue_seq (queue_push_front db g) = max s (db_queue_seq db)"
proof -
  define s where "s = (case db_queue db of [] \<Rightarrow> 0 | r # rs \<Rightarrow> Min (qr_seq ` set (r # rs))) - 1"
  have lt: "s < qr_seq r" if r: "r \<in> set (db_queue db)" for r
  proof -
    obtain a rs where rows: "db_queue db = a # rs" using r by (cases "db_queue db") auto
    have "Min (qr_seq ` set (a # rs)) \<le> qr_seq r" using r rows by (intro Min_le) auto
    with rows show ?thesis by (simp add: s_def)
  qed
  have "insort_key qr_seq \<lparr>qr_seq = s, qr_priority = 0, qr_gmail_id = g\<rparr> (db_queue db) =
      \<lparr>qr_seq = s, qr_priority = 0, qr_gmail_id = g\<rparr> # db_queue db"
    using lt by (intro insort_is_Cons) (auto simp: less_imp_le)
  with that lt show thesis by (simp add: queue_push_front_def s_def Let_def)
qed

lemma queue_ok_push_front:
  assumes "queue_ok db" "g \<notin> qr_gmail_id ` set (db_queue db)"
  shows "queue_ok (queue_push_front db g)"
  using assms(1)
proof (rule push_front_rows [where g = g])
  fix s assume "db_queue (queue_push_front db g) = \<lparr>qr_seq = s, qr_priority = 0, qr_gmail_id = g\<rparr> # db_queue db"
    and "\<And>r. r \<in> set (db_queue db) \<Longrightarrow> s < qr_seq r"
    and "db_queue_seq (queue_push_front db g) = max s (db_queue_seq db)"
  with assms show ?thesis by (intro queue_okI) (auto simp: queue_ok_def max_def)
qed

lemma removed_id: "g \<notin> qr_gmail_id ` set (db_queue (queue_remove db g))"
  by (auto simp: queue_remove_def)

lemma mail_kept [simp]:
  "db_mail (queue_insert db p g) = db_mail db" "db_mail (queue_remove db g) = db_mail db"
  "db_mail (queue_push_front db g) = db_mail db"
  by (simp_all add: queue_insert_def queue_remove_def queue_push_front_def Let_def)

lemma has_full_row_cong: "db_mail db' = db_mail db \<Longrightarrow> has_full_row db' g = has_full_row db g"
  by (simp add: has_full_row_def)

lemma already_stored_cong: "db_mail db' = db_mail db \<Longrightarrow> already_stored db' p g = already_stored db p g"
  by (simp add: already_stored_def has_full_row_def has_row_def)

lemma not_queued: "List.find (\<lambda>r. qr_gmail_id r = g) rows = None \<longleftrightarrow> g \<notin> qr_gmail_id ` set rows"
  by (auto simp: find_None_iff)

lemma queue_ok_enqueue: "queue_ok db \<Longrightarrow> queue_ok (fst (enqueue_ids db p ids refetch))"
  by (induction db p ids refetch rule: enqueue_ids.induct)
    (auto simp: queue_ok_insert queue_ok_update not_queued split: option.splits prod.splits)

lemma queue_ok_urgent_loop: "queue_ok db \<Longrightarrow> queue_ok (fst (urgent_loop db ids))"
  by (induction db ids rule: urgent_loop.induct)
    (auto simp: queue_ok_push_front queue_ok_remove removed_id split: prod.splits)

lemma queue_ok_remove_headers_only: "queue_ok db \<Longrightarrow> queue_ok (fst (remove_headers_only db ids))"
  by (induction db ids rule: remove_headers_only.induct)
    (auto simp: queue_ok_delete Let_def split: prod.splits)

lemma queue_ok_remove_ids: "queue_ok db \<Longrightarrow> queue_ok (remove_ids db ids)"
  unfolding remove_ids_def by (induction ids arbitrary: db) (simp_all add: queue_ok_remove)


lemma queue_ok_promote: "queue_ok db \<Longrightarrow> queue_ok (fst (promote_headers_only db))"
  by (simp add: promote_headers_only_def queue_ok_update)

lemma queue_ok_clear: "queue_ok db \<Longrightarrow> queue_ok (fst (clear_from_priority db p))"
  by (simp add: clear_from_priority_def queue_ok_delete)

lemmas queue_ok_intros = queue_ok_enqueue queue_ok_urgent_loop queue_ok_remove_headers_only
  queue_ok_remove_ids queue_ok_promote queue_ok_clear

section \<open>The order of the queue\<close>

text \<open>The first occurrence of every element.\<close>

fun first_occurrences :: "'a list \<Rightarrow> 'a list" where
  "first_occurrences [] = []"
| "first_occurrences (x # xs) = x # filter (\<lambda>y. y \<noteq> x) (first_occurrences xs)"

lemma set_first_occurrences [simp]: "set (first_occurrences xs) = set xs"
  by (induction xs) auto

lemma distinct_first_occurrences: "distinct (first_occurrences xs)"
  by (induction xs) auto

lemma body_order_remove: "body_order (queue_remove db g) = filter (\<lambda>x. x \<noteq> g) (body_order db)"
proof -
  let ?k = "\<lambda>r. (qr_priority r, qr_seq r)" and ?keep = "\<lambda>r. qr_gmail_id r \<noteq> g"
  let ?rows = "filter (\<lambda>r. qr_priority r < HEADERS_ONLY) (db_queue db)"
  have "filter (\<lambda>r. qr_priority r < HEADERS_ONLY) (filter ?keep (db_queue db)) = filter ?keep ?rows"
    by (simp add: conj_commute)
  then have "body_order (queue_remove db g) = map qr_gmail_id (sort_key ?k (filter ?keep ?rows))"
    by (simp add: body_order_def queue_order_def queue_remove_def sql_delete_def del: filter_filter)
  also have "\<dots> = map qr_gmail_id (filter ?keep (sort_key ?k ?rows))"
    by (simp only: filter_sort)
  finally show ?thesis by (simp add: body_order_def queue_order_def filter_map o_def)
qed

lemma body_order_push_front:
  assumes "queue_ok db"
  shows "body_order (queue_push_front db g) = g # body_order db"
  using assms
proof (rule push_front_rows [where g = g])
  fix s assume rows: "db_queue (queue_push_front db g) = \<lparr>qr_seq = s, qr_priority = 0, qr_gmail_id = g\<rparr> # db_queue db"
    and lt: "\<And>r. r \<in> set (db_queue db) \<Longrightarrow> s < qr_seq r"
  let ?r = "\<lparr>qr_seq = s, qr_priority = 0, qr_gmail_id = g\<rparr>"
  let ?rows = "filter (\<lambda>r. qr_priority r < HEADERS_ONLY) (db_queue db)"
  have "insort_key (\<lambda>r. (qr_priority r, qr_seq r)) ?r (queue_order ?rows) = ?r # queue_order ?rows"
    using lt by (intro insort_is_Cons) (fastforce simp: queue_order_def less_eq_prod_def less_imp_le)
  then show ?thesis by (simp add: body_order_def queue_order_def rows HEADERS_ONLY_def)
qed

lemma urgent_loop_append:
  "fst (urgent_loop db (xs @ ys)) = fst (urgent_loop (fst (urgent_loop db xs)) ys)"
  by (induction db xs rule: urgent_loop.induct) (auto simp: Let_def split: prod.splits)

lemma urgent_loop_mail: "db_mail (fst (urgent_loop db ids)) = db_mail db"
  by (induction db ids rule: urgent_loop.induct) (auto simp: Let_def split: prod.splits)

lemma urgent_order:
  "queue_ok db \<Longrightarrow>
   body_order (fst (enqueue_urgent db ids)) =
     first_occurrences (missing db ids) @ filter (\<lambda>g. g \<notin> set (missing db ids)) (body_order db)"
proof (induction ids)
  case Nil
  then show ?case by (simp add: enqueue_urgent_def missing_def)
next
  case (Cons g ids)
  let ?db = "fst (urgent_loop db (rev ids))"
  have step: "fst (enqueue_urgent db (g # ids)) = fst (urgent_loop ?db [g])"
    by (simp add: enqueue_urgent_def urgent_loop_append)
  have full: "has_full_row ?db g = has_full_row db g"
    by (rule has_full_row_cong) (rule urgent_loop_mail)
  show ?case
  proof (cases "has_full_row db g")
    case True
    then have "fst (urgent_loop ?db [g]) = ?db" by (simp add: full)
    with Cons True show ?thesis unfolding step by (simp add: missing_def enqueue_urgent_def)
  next
    case False
    then have "body_order (fst (urgent_loop ?db [g])) = g # filter (\<lambda>x. x \<noteq> g) (body_order ?db)"
      using Cons.prems by (simp add: full body_order_push_front body_order_remove queue_ok_remove queue_ok_urgent_loop)
    moreover have "body_order ?db = first_occurrences (missing db ids) @
        filter (\<lambda>x. x \<notin> set (missing db ids)) (body_order db)"
      using Cons by (simp add: enqueue_urgent_def)
    ultimately show ?thesis using False
      by (auto simp: step missing_def intro: filter_cong)
  qed
qed


section \<open>Priorities\<close>

lemma find_map_update:
  "(\<And>r. qr_gmail_id (f r) = qr_gmail_id r) \<Longrightarrow>
   List.find (\<lambda>r. qr_gmail_id r = x) (sql_update (\<lambda>r. qr_gmail_id r = g) f rows) =
     (if x = g then map_option f (List.find (\<lambda>r. qr_gmail_id r = g) rows)
      else List.find (\<lambda>r. qr_gmail_id r = x) rows)"
  by (induction rows) (auto simp: sql_update_def)

lemma priority_of_insert:
  "g \<notin> qr_gmail_id ` set (db_queue db) \<Longrightarrow>
   priority_of (queue_insert db p g) x = (if x = g then Some p else priority_of db x)"
  by (auto simp: priority_of_def queue_insert_def Let_def find_append not_queued [symmetric] split: option.splits)

lemma priority_of_raise:
  "priority_of (db\<lparr>db_queue := sql_update (\<lambda>r. qr_gmail_id r = g) (\<lambda>r. r\<lparr>qr_priority := p\<rparr>) (db_queue db)\<rparr>) x =
   (if x = g then map_option (\<lambda>_. p) (priority_of db g) else priority_of db x)"
  by (simp add: priority_of_def find_map_update option.map_comp comp_def)

text \<open>What queueing an id at a priority means for the row it has, if any.\<close>

definition queued_at :: "nat \<Rightarrow> nat option \<Rightarrow> nat option" where
  "queued_at p q = Some (case q of None \<Rightarrow> p | Some q' \<Rightarrow> min p q')"

lemma enqueue_priorities:
  "priority_of (fst (enqueue_ids db p ids refetch)) g =
     (if g \<in> set ids \<and> (refetch \<or> \<not> already_stored db p g) then queued_at p (priority_of db g) else priority_of db g)"
proof (induction db p ids refetch rule: enqueue_ids.induct)
  case (2 db p h ids refetch)
  have mail: "db_mail (db\<lparr>db_queue := q\<rparr>) = db_mail db" for q by simp
  show ?case
  proof (cases "\<not> refetch \<and> already_stored db p h")
    case True
    with 2(1) show ?thesis by auto
  next
    case False
    show ?thesis
    proof (cases "List.find (\<lambda>r. qr_gmail_id r = h) (db_queue db)")
      case None
      with False have "fst (enqueue_ids db p (h # ids) refetch) = fst (enqueue_ids (queue_insert db p h) p ids refetch)"
        by (auto simp: Let_def split: prod.splits)
      moreover have "priority_of db h = None" using None by (simp add: priority_of_def)
      moreover have "h \<notin> qr_gmail_id ` set (db_queue db)" using None by (simp add: not_queued)
      ultimately show ?thesis using 2(2) False None
        by (auto simp: priority_of_insert queued_at_def already_stored_cong [of "queue_insert db p h" db])
    next
      case (Some r)
      then have pr: "priority_of db h = Some (qr_priority r)" by (simp add: priority_of_def)
      show ?thesis
      proof (cases "p < qr_priority r")
        case True
        with 2(3) False Some pr show ?thesis
          by (auto simp: priority_of_raise queued_at_def already_stored_cong [OF mail])
      next
        case no: False
        with 2(4) False Some pr show ?thesis by (auto simp: queued_at_def min_def)
      qed
    qed
  qed
qed simp

lemma enqueue_count:
  "length (db_queue (fst (enqueue_ids db p ids refetch))) = length (db_queue db) + snd (enqueue_ids db p ids refetch)"
  by (induction db p ids refetch rule: enqueue_ids.induct)
    (auto simp: Let_def queue_insert_def sql_update_def split: option.splits prod.splits)

lemma remove_ids_order: "body_order (remove_ids db ids) = filter (\<lambda>g. g \<notin> set ids) (body_order db)"
  unfolding remove_ids_def
  by (induction ids arbitrary: db) (auto simp: body_order_remove conj_commute intro: filter_cong)

lemma distinct_body_order: "queue_ok db \<Longrightarrow> distinct (body_order db)"
  by (simp add: body_order_def queue_order_def queue_ok_def distinct_map_filter distinct_map inj_on_def)

section \<open>Emptying a queue in batches\<close>

text \<open>
  The contract between a queue and a loop that takes the first \<open>n\<close> elements, works on them
  and drops them: the engine's body backfill is such a loop.
\<close>

locale batch_queue =
  fixes waiting :: "'s \<Rightarrow> 'a list" and front :: "'s \<Rightarrow> nat \<Rightarrow> 'a list" and dropped :: "'s \<Rightarrow> 'a list \<Rightarrow> 's"
    and ok :: "'s \<Rightarrow> bool"
  assumes front: "front s n = take n (waiting s)"
    and dropped: "waiting (dropped s xs) = filter (\<lambda>x. x \<notin> set xs) (waiting s)"
    and distinct: "ok s \<Longrightarrow> distinct (waiting s)"
    and ok: "ok s \<Longrightarrow> ok (dropped s xs)"
begin

lemma after_batch: "ok s \<Longrightarrow> waiting (dropped s (front s n)) = drop n (waiting s)"
proof -
  assume "ok s"
  then have "distinct (take n (waiting s) @ drop n (waiting s))" by (simp add: distinct)
  then have disj: "set (take n (waiting s)) \<inter> set (drop n (waiting s)) = {}" by (simp only: distinct_append)
  have "filter (\<lambda>x. x \<notin> set (take n (waiting s))) (take n (waiting s) @ drop n (waiting s)) = drop n (waiting s)"
    using disj by (simp only: filter_append) (auto simp: filter_empty_conv intro!: filter_True)
  then show ?thesis by (simp add: dropped front)
qed

lemma batch_progress: "ok s \<Longrightarrow> 0 < n \<Longrightarrow> front s n \<noteq> [] \<Longrightarrow>
  length (waiting (dropped s (front s n))) < length (waiting s)"
  using after_batch [of s n] by (auto simp: front)

lemma batch_count: "ok s \<Longrightarrow> length (front s n) + length (waiting (dropped s (front s n))) = length (waiting s)"
  by (simp add: after_batch, simp add: front)

lemma empty_batch: "0 < n \<Longrightarrow> front s n = [] \<Longrightarrow> waiting s = []"
  by (simp add: front)

end

interpretation bodies: batch_queue body_order peek remove_ids "\<lambda>a. distinct (body_order a)"
  by unfold_locales (simp_all add: peek_body_order remove_ids_order)

section \<open>The queue as a map from ids to priorities\<close>

lemma priority_of_remove: "priority_of (queue_remove db g) x = (if x = g then None else priority_of db x)"
proof -
  have "List.find (\<lambda>r. qr_gmail_id r = x) (filter (\<lambda>r. qr_gmail_id r \<noteq> g) rows) =
      (if x = g then None else List.find (\<lambda>r. qr_gmail_id r = x) rows)" for rows
    by (induction rows) auto
  from this [of "db_queue db"] show ?thesis by (auto simp: priority_of_def queue_remove_def sql_delete_def)
qed

lemma priority_of_push_front:
  assumes "queue_ok db"
  shows "priority_of (queue_push_front db g) x = (if x = g then Some 0 else priority_of db x)"
  using assms by (rule push_front_rows [where g = g]) (simp add: priority_of_def)

lemma urgent_priorities:
  "queue_ok db \<Longrightarrow>
   priority_of (fst (urgent_loop db ids)) g = (if g \<in> set ids \<and> \<not> has_full_row db g then Some 0 else priority_of db g)"
proof (induction db ids rule: urgent_loop.induct)
  case (2 db h ids)
  show ?case
  proof (cases "has_full_row db h")
    case True
    with 2 show ?thesis by auto
  next
    case False
    let ?db = "queue_push_front (queue_remove db h) h"
    have "queue_ok ?db" using 2(3) by (simp add: queue_ok_push_front queue_ok_remove removed_id)
    with 2(2) False have "priority_of (fst (urgent_loop ?db ids)) g =
        (if g \<in> set ids \<and> \<not> has_full_row ?db g then Some 0 else priority_of ?db g)" by simp
    with False 2(3) show ?thesis
      by (auto simp: has_full_row_cong [of ?db db] priority_of_push_front priority_of_remove queue_ok_remove split: prod.splits)
  qed
qed simp

lemma priority_of_remove_ids: "priority_of (remove_ids db ids) g = (if g \<in> set ids then None else priority_of db g)"
  unfolding remove_ids_def by (induction ids arbitrary: db) (simp_all add: priority_of_remove)

text \<open>Rows are found by their id alone, so a row dropped or changed for its priority is dropped or changed there.\<close>

lemma find_delete:
  "distinct (map qr_gmail_id rows) \<Longrightarrow>
   map_option qr_priority (List.find (\<lambda>r. qr_gmail_id r = g) (filter (\<lambda>r. keep (qr_gmail_id r) (qr_priority r)) rows)) =
   (case map_option qr_priority (List.find (\<lambda>r. qr_gmail_id r = g) rows) of
      None \<Rightarrow> None | Some p \<Rightarrow> if keep g p then Some p else None)"
proof (induction rows)
  case (Cons r rows)
  have "List.find (\<lambda>r. qr_gmail_id r = g) (filter P rows) = None" if "qr_gmail_id r = g" for P
    using Cons.prems that by (auto simp: find_None_iff) (metis image_eqI)
  with Cons show ?case by auto
qed simp

lemma priority_of_clear:
  assumes "queue_ok db"
  shows "priority_of (fst (clear_from_priority db p)) g =
    (case priority_of db g of None \<Rightarrow> None | Some q \<Rightarrow> if p \<le> q then None else Some q)"
  using find_delete [of "db_queue db" g "\<lambda>_ q. \<not> p \<le> q"] assms
  by (auto simp: priority_of_def clear_from_priority_def sql_delete_def queue_ok_def not_le [symmetric] split: option.splits if_splits)

lemma priority_of_remove_headers:
  "queue_ok db \<Longrightarrow> priority_of (fst (remove_headers_only db ids)) g =
    (case priority_of db g of None \<Rightarrow> None | Some q \<Rightarrow> if g \<in> set ids \<and> HEADERS_ONLY \<le> q then None else Some q)"
proof (induction db ids rule: remove_headers_only.induct)
  case (2 db h ids)
  let ?p = "\<lambda>r. qr_gmail_id r = h \<and> HEADERS_ONLY \<le> qr_priority r"
  let ?db = "db\<lparr>db_queue := sql_delete ?p (db_queue db)\<rparr>"
  have one: "priority_of ?db g = (case priority_of db g of None \<Rightarrow> None
      | Some q \<Rightarrow> if g = h \<and> HEADERS_ONLY \<le> q then None else Some q)"
    using find_delete [of "db_queue db" g "\<lambda>g q. \<not> (g = h \<and> HEADERS_ONLY \<le> q)"] 2(2)
    by (auto simp: priority_of_def sql_delete_def queue_ok_def split: option.splits if_splits)
  have "fst (remove_headers_only db (h # ids)) = fst (remove_headers_only ?db ids)"
    by (simp add: Let_def split: prod.split)
  with one 2(1) [OF refl queue_ok_delete [OF 2(2)]] show ?case by (auto split: option.splits)
qed (simp split: option.split)

lemma priority_of_promote:
  "priority_of (fst (promote_headers_only db)) g =
     map_option (\<lambda>q. if HEADERS_ONLY \<le> q then q - HEADERS_ONLY else q) (priority_of db g)"
proof -
  have "List.find (\<lambda>r. qr_gmail_id r = g) (sql_update P f rows) =
      map_option (\<lambda>r. if P r then f r else r) (List.find (\<lambda>r. qr_gmail_id r = g) rows)"
    if "\<And>r. qr_gmail_id (f r) = qr_gmail_id r" for P f rows
    using that by (induction rows) (auto simp: sql_update_def)
  from this [of "\<lambda>r. r\<lparr>qr_priority := qr_priority r - HEADERS_ONLY\<rparr>" "\<lambda>r. HEADERS_ONLY \<le> qr_priority r" "db_queue db"]
  show ?thesis by (simp add: priority_of_def promote_headers_only_def option.map_comp comp_def if_distrib [of qr_priority] cong: if_cong)
qed

text \<open>
  Claim C17: the queue is a map from message ids to priorities. Queueing lowers an id's number
  and never raises it; ids made urgent go to 0; widening the bodies moves every headers-only
  id to the priority of its phase; and the ids handed out for bodies are queued ones below the
  headers-only tier. Every operation acts on the map as written, with nothing else changed.
\<close>

theorem queue_refines_priority_map:
  assumes ok: "queue_ok db"
  shows "priority_of (fst (enqueue_ids db p ids refetch)) =
      (\<lambda>g. if g \<in> set ids \<and> (refetch \<or> \<not> already_stored db p g) then queued_at p (priority_of db g) else priority_of db g) \<and>
    priority_of (fst (enqueue_urgent db ids)) = (\<lambda>g. if g \<in> set (missing db ids) then Some 0 else priority_of db g) \<and>
    priority_of (remove_ids db ids) = (\<lambda>g. if g \<in> set ids then None else priority_of db g) \<and>
    priority_of (fst (clear_from_priority db p)) =
      (\<lambda>g. case priority_of db g of None \<Rightarrow> None | Some r \<Rightarrow> if p \<le> r then None else Some r) \<and>
    priority_of (fst (remove_headers_only db ids)) =
      (\<lambda>g. case priority_of db g of None \<Rightarrow> None | Some r \<Rightarrow> if g \<in> set ids \<and> HEADERS_ONLY \<le> r then None else Some r) \<and>
    priority_of (fst (promote_headers_only db)) =
      (\<lambda>g. map_option (\<lambda>r. if HEADERS_ONLY \<le> r then r - HEADERS_ONLY else r) (priority_of db g)) \<and>
    set (peek db n) \<subseteq> {g. \<exists>r < HEADERS_ONLY. priority_of db g = Some r}"
proof (intro conjI ext)
  show "set (peek db n) \<subseteq> {g. \<exists>r < HEADERS_ONLY. priority_of db g = Some r}"
  proof
    fix g assume "g \<in> set (peek db n)"
    then obtain r where r: "r \<in> set (db_queue db)" "qr_priority r < HEADERS_ONLY" "qr_gmail_id r = g"
      by (auto simp: peek_def queue_order_def dest!: in_set_takeD)
    then obtain r' where f: "List.find (\<lambda>r. qr_gmail_id r = g) (db_queue db) = Some r'"
      by (cases "List.find (\<lambda>r. qr_gmail_id r = g) (db_queue db)") (auto simp: find_None_iff)
    with find_Some_in [OF f] r ok have "r' = r" unfolding queue_ok_def by (metis distinct_map inj_onD)
    with f r show "g \<in> {g. \<exists>r < HEADERS_ONLY. priority_of db g = Some r}" by (simp add: priority_of_def)
  qed
qed (use ok in \<open>simp_all add: enqueue_priorities enqueue_urgent_def urgent_priorities missing_def priority_of_remove_ids
    priority_of_clear priority_of_remove_headers priority_of_promote\<close>)

text \<open>
  messages made urgent are the next to be fetched, in the order given, each once;
  the others keep their order behind them.
\<close>

theorem urgent_messages_come_first:
  assumes "queue_ok db"
  shows "peek (fst (enqueue_urgent db ids)) n =
    take n (first_occurrences (missing db ids) @ filter (\<lambda>g. g \<notin> set (missing db ids)) (body_order db))"
  using urgent_order [OF assms, of ids] by (simp add: peek_body_order)

definition sample_queue :: account_db where
  "sample_queue = fst (enqueue_ids (fst (enqueue_ids new_account_db 3 [''m1'', ''m2''] False)) 12 [''m3''] False)"

lemma sample_queue_ok: "queue_ok sample_queue"
proof -
  have "queue_ok new_account_db" by (simp add: queue_ok_def new_account_db_def)
  then show ?thesis unfolding sample_queue_def by (intro queue_ok_enqueue)
qed

theorem queue_refines_priority_map_witness:
  "priority_of (fst (promote_headers_only sample_queue)) ''m3'' = Some 2 \<and>
   priority_of (fst (enqueue_urgent sample_queue [''m2''])) ''m2'' = Some 0"
proof -
  note all = queue_refines_priority_map [OF sample_queue_ok, of 0 "[''m2'']" False 5]
  have start: "priority_of sample_queue ''m3'' = Some 12" "missing sample_queue [''m2''] = [''m2'']" by code_simp+
  from all have "priority_of (fst (promote_headers_only sample_queue)) ''m3'' =
      map_option (\<lambda>r. if HEADERS_ONLY \<le> r then r - HEADERS_ONLY else r) (priority_of sample_queue ''m3'')"
    and "priority_of (fst (enqueue_urgent sample_queue [''m2''])) ''m2'' =
      (if ''m2'' \<in> set (missing sample_queue [''m2'']) then Some 0 else priority_of sample_queue ''m2'')" by meson+
  then show ?thesis by (simp add: start HEADERS_ONLY_def)
qed

theorem urgent_messages_come_first_witness:
  "peek (fst (enqueue_urgent sample_queue [''m3'', ''m2'', ''m3''])) 2 = [''m3'', ''m2'']"
proof -
  have "missing sample_queue [''m3'', ''m2'', ''m3''] = [''m3'', ''m2'', ''m3'']" by code_simp
  then show ?thesis using urgent_messages_come_first [OF sample_queue_ok, of "[''m3'', ''m2'', ''m3'']" 2] by simp
qed

end
