(* ===== verification/Windows.thy ===== *)
theory Windows
  imports Queue
begin

text \<open>
  How far back an account downloads mail, the first part of \<^verbatim>\<open>crates/mail-sync/src/engine.rs\<close>:
  the sync and body windows, the phases of a window and the priority each is queued at, and
  the stored writes of Clean Up's "load every header". The \<^verbatim>\<open>sync_state\<close> table is a map from its
  primary key; \<open>sync_db\<close> puts it beside the tables of \<open>account_db\<close>.
\<close>

section \<open>Windows\<close>

datatype sync_window = SwMonth | SwHalfYear | SwYear | SwEverything

definition default_sync_window :: sync_window where "default_sync_window = SwHalfYear"

definition all_sync_windows :: "sync_window list" where
  "all_sync_windows = [SwMonth, SwHalfYear, SwYear, SwEverything]"

fun sync_window_str :: "sync_window \<Rightarrow> string" where
  "sync_window_str SwMonth = ''1m''"
| "sync_window_str SwHalfYear = ''6m''"
| "sync_window_str SwYear = ''1y''"
| "sync_window_str SwEverything = ''all''"

definition parse_sync_window :: "string \<Rightarrow> sync_window option" where
  "parse_sync_window s = List.find (\<lambda>w. sync_window_str w = s) all_sync_windows"

datatype body_window = BwMonth | BwHalfYear | BwYear | BwWindow

definition default_body_window :: body_window where "default_body_window = BwMonth"

definition all_body_windows :: "body_window list" where
  "all_body_windows = [BwMonth, BwHalfYear, BwYear, BwWindow]"

fun body_window_str :: "body_window \<Rightarrow> string" where
  "body_window_str BwMonth = ''30d''"
| "body_window_str BwHalfYear = ''6m''"
| "body_window_str BwYear = ''1y''"
| "body_window_str BwWindow = ''window''"

definition parse_body_window :: "string \<Rightarrow> body_window option" where
  "parse_body_window s = List.find (\<lambda>w. body_window_str w = s) all_body_windows"

fun headers_from_priority :: "body_window \<Rightarrow> nat option" where
  "headers_from_priority BwMonth = Some 3"
| "headers_from_priority BwHalfYear = Some 4"
| "headers_from_priority BwYear = Some 5"
| "headers_from_priority BwWindow = None"

fun kept_from :: "body_window \<Rightarrow> sync_window \<Rightarrow> body_window" where
  "kept_from BwWindow SwMonth = BwMonth"
| "kept_from BwWindow SwHalfYear = BwHalfYear"
| "kept_from BwWindow SwYear = BwYear"
| "kept_from body w = body"

lemma parse_sync_window_str [simp]: "parse_sync_window (sync_window_str w) = Some w"
  by (cases w) (simp_all add: parse_sync_window_def all_sync_windows_def)

lemma parse_body_window_str [simp]: "parse_body_window (body_window_str w) = Some w"
  by (cases w) (simp_all add: parse_body_window_def all_body_windows_def)

section \<open>Phases\<close>

record phase =
  ph_priority :: nat
  ph_labels :: "label_id list"
  ph_query :: "string option"

definition half_phase :: phase where
  "half_phase = \<lparr>ph_priority = 3, ph_labels = [], ph_query = Some ''newer_than:180d''\<rparr>"

definition year_phase :: phase where
  "year_phase = \<lparr>ph_priority = 4, ph_labels = [], ph_query = Some ''newer_than:365d''\<rparr>"

definition shared_phases :: "phase list" where
  "shared_phases =
     [\<lparr>ph_priority = 0, ph_labels = [''INBOX''], ph_query = Some ''is:unread''\<rparr>,
      \<lparr>ph_priority = 1, ph_labels = [''INBOX''], ph_query = None\<rparr>,
      \<lparr>ph_priority = 2, ph_labels = [], ph_query = Some ''newer_than:30d''\<rparr>,
      \<lparr>ph_priority = 2, ph_labels = [''SPAM''], ph_query = None\<rparr>,
      \<lparr>ph_priority = 2, ph_labels = [''TRASH''], ph_query = None\<rparr>]"

definition everything_phase :: phase where
  "everything_phase = \<lparr>ph_priority = 5, ph_labels = [], ph_query = None\<rparr>"

definition phases_for :: "sync_window \<Rightarrow> phase list" where
  "phases_for w =
     shared_phases @
     (case w of
        SwMonth \<Rightarrow> []
      | SwHalfYear \<Rightarrow> [half_phase]
      | SwYear \<Rightarrow> [half_phase, year_phase]
      | SwEverything \<Rightarrow> [half_phase, year_phase, everything_phase])"

definition queue_priority :: "phase \<Rightarrow> nat option \<Rightarrow> nat" where
  "queue_priority p headers_from =
     (case headers_from of
        Some prio \<Rightarrow> if prio \<le> ph_priority p then ph_priority p + HEADERS_ONLY else ph_priority p
      | None \<Rightarrow> ph_priority p)"

definition tiers_tag :: "nat option \<Rightarrow> string" where
  "tiers_tag headers_from =
     (case headers_from of None \<Rightarrow> ''flat'' | Some prio \<Rightarrow> ''headers-from-'' @ show_nat prio)"

text \<open>\<^verbatim>\<open>[String]::join\<close>.\<close>

fun join :: "string \<Rightarrow> string list \<Rightarrow> string" where
  "join sep [] = []"
| "join sep [s] = s"
| "join sep (s # ss) = s @ sep @ join sep ss"

definition phase_search :: "phase \<Rightarrow> string" where
  "phase_search p =
     join '' '' (map (\<lambda>l. ''in:'' @ to_ascii_lowercase l) (ph_labels p) @
                 (case ph_query p of Some q \<Rightarrow> [q] | None \<Rightarrow> []))"

definition INBOX_PHASES :: nat where "INBOX_PHASES = 2"
definition FIXED_PHASES :: nat where "FIXED_PHASES = 5"
definition WINDOW_PRIORITY :: nat where "WINDOW_PRIORITY = 3"
definition BACKFILL_BATCH :: nat where "BACKFILL_BATCH = 50"

section \<open>Stored settings\<close>

record sync_db =
  sd_account :: account_db
  sd_state :: "string \<rightharpoonup> string"

definition sync_state :: "sync_db \<Rightarrow> string \<Rightarrow> string option" where
  "sync_state d key = sd_state d key"

definition set_sync_state :: "sync_db \<Rightarrow> string \<Rightarrow> string \<Rightarrow> sync_db" where
  "set_sync_state d key value = d\<lparr>sd_state := (sd_state d)(key \<mapsto> value)\<rparr>"

definition KEY_CURSOR :: string where "KEY_CURSOR = ''history_cursor''"
definition KEY_BOOTSTRAPPED :: string where "KEY_BOOTSTRAPPED = ''bootstrap_listed''"
definition KEY_EMAIL :: string where "KEY_EMAIL = ''account_email''"
definition KEY_WINDOW :: string where "KEY_WINDOW = ''sync_window''"
definition KEY_BODY_WINDOW :: string where "KEY_BODY_WINDOW = ''body_window''"
definition KEY_TIERS :: string where "KEY_TIERS = ''queue_tiers''"
definition KEY_CLEANUP_HEADERS :: string where "KEY_CLEANUP_HEADERS = ''cleanup_headers_only''"
definition CLEANUP_ASK :: string where "CLEANUP_ASK = ''ask''"
definition CLEANUP_NO :: string where "CLEANUP_NO = ''no''"

lemmas key_defs = KEY_CURSOR_def KEY_BOOTSTRAPPED_def KEY_EMAIL_def KEY_WINDOW_def KEY_BODY_WINDOW_def
  KEY_TIERS_def KEY_CLEANUP_HEADERS_def

definition cleanup_tier_waits :: "sync_db \<Rightarrow> bool" where
  "cleanup_tier_waits d \<longleftrightarrow> sync_state d KEY_CLEANUP_HEADERS = Some CLEANUP_ASK"

definition cleanup_headers_paused :: "sync_db \<Rightarrow> bool \<Rightarrow> bool" where
  "cleanup_headers_paused d cheap_headers \<longleftrightarrow>
     \<not> cheap_headers \<and> cleanup_tier_waits d \<and> 0 < snd (queue_counts (sd_account d))"

text \<open>A queue operation of the transaction, on the account part of the database.\<close>

definition on_account :: "sync_db \<Rightarrow> account_db \<times> 'a \<Rightarrow> sync_db \<times> 'a" where
  "on_account d r = (d\<lparr>sd_account := fst r\<rparr>, snd r)"

definition load_waiting_headers_stored :: "sync_db \<Rightarrow> sync_db \<times> nat" where
  "load_waiting_headers_stored d =
     (let d1 = set_sync_state d KEY_CLEANUP_HEADERS CLEANUP_NO
      in on_account d1 (promote_headers_only (sd_account d1)))"

definition stored_window :: "sync_db \<Rightarrow> sync_window" where
  "stored_window d =
     (case Option.bind (sync_state d KEY_WINDOW) parse_sync_window of Some w \<Rightarrow> w | None \<Rightarrow> default_sync_window)"

definition stored_body_window :: "sync_db \<Rightarrow> body_window" where
  "stored_body_window d =
     (case Option.bind (sync_state d KEY_BODY_WINDOW) parse_body_window of
        Some w \<Rightarrow> w | None \<Rightarrow> default_body_window)"

datatype every_header = HeadersUnchanged | Widened "body_window option" | NeedsAsk

definition widen_stored :: "sync_db \<Rightarrow> bool \<Rightarrow> bool \<Rightarrow> sync_db \<times> every_header" where
  "widen_stored d cheap expect_cheap =
     (let window = stored_window d in
      if window = SwEverything then (d, HeadersUnchanged)
      else if expect_cheap \<and> \<not> cheap then (d, NeedsAsk)
      else
        let body = stored_body_window d;
            kept = (if cheap then kept_from body window else body);
            d1 = (if kept \<noteq> body then set_sync_state d KEY_BODY_WINDOW (body_window_str kept) else d);
            d2 = set_sync_state d1 KEY_WINDOW (sync_window_str SwEverything);
            d3 = set_sync_state d2 KEY_CLEANUP_HEADERS (if cheap then CLEANUP_ASK else CLEANUP_NO)
        in (d3, Widened (if kept \<noteq> body then Some kept else None)))"

definition load_every_header_stored :: "sync_db \<Rightarrow> bool \<Rightarrow> bool \<Rightarrow> sync_db \<times> every_header" where
  "load_every_header_stored d cheap_headers expect_cheap =
     (let (d1, outcome) = widen_stored d cheap_headers expect_cheap
      in (case outcome of
            Widened b \<Rightarrow> (set_sync_state d1 KEY_TIERS ''stale'', outcome)
          | _ \<Rightarrow> (d1, outcome)))"

section \<open>Widening never starts body downloads\<close>

text \<open>Whether a phase of a window comes down as whole messages.\<close>

definition wants_bodies :: "body_window \<Rightarrow> bool \<Rightarrow> phase \<Rightarrow> bool" where
  "wants_bodies body cheap p \<longleftrightarrow>
     queue_priority p (if cheap then headers_from_priority body else None) < HEADERS_ONLY"

lemma sync_state_set: "sync_state (set_sync_state d k v) k' = (if k' = k then Some v else sync_state d k')"
  by (simp add: sync_state_def set_sync_state_def)

lemma stored_window_set:
  "stored_window (set_sync_state d k v) =
     (if k = KEY_WINDOW then (case parse_sync_window v of Some w \<Rightarrow> w | None \<Rightarrow> default_sync_window) else stored_window d)"
  by (simp add: stored_window_def sync_state_set)

lemma stored_body_window_set:
  "stored_body_window (set_sync_state d k v) =
     (if k = KEY_BODY_WINDOW then (case parse_body_window v of Some w \<Rightarrow> w | None \<Rightarrow> default_body_window)
      else stored_body_window d)"
  by (simp add: stored_body_window_def sync_state_set)

lemma parse_all [simp]: "parse_sync_window ''all'' = Some SwEverything"
  using parse_sync_window_str [of SwEverything] by simp

lemma widened_windows:
  assumes "widen_stored d cheap expect_cheap = (d', Widened b)"
  shows "stored_window d' = SwEverything"
    and "stored_body_window d' = (if cheap then kept_from (stored_body_window d) (stored_window d) else stored_body_window d)"
    and "cleanup_tier_waits d' \<longleftrightarrow> cheap"
  using assms
  by (auto simp: widen_stored_def Let_def stored_window_set stored_body_window_set sync_state_set key_defs
      cleanup_tier_waits_def CLEANUP_ASK_def CLEANUP_NO_def split: if_splits)

lemma wants_bodies_below:
  "wants_bodies body True p \<longleftrightarrow>
     ph_priority p < HEADERS_ONLY \<and> (case headers_from_priority body of Some c \<Rightarrow> ph_priority p < c | None \<Rightarrow> True)"
  by (auto simp: wants_bodies_def queue_priority_def split: option.splits)

lemma phases_below:
  "p \<in> set (phases_for SwEverything) \<Longrightarrow>
   p \<in> set shared_phases \<or> p = half_phase \<and> ph_priority p = 3 \<or> p = year_phase \<and> ph_priority p = 4 \<or>
   p = everything_phase \<and> ph_priority p = 5"
  by (auto simp: phases_for_def half_phase_def year_phase_def everything_phase_def)

lemma shared_priority: "p \<in> set shared_phases \<Longrightarrow> ph_priority p < 3"
  by (auto simp: shared_phases_def)

lemma headers_from_shared: "headers_from_priority body = Some c \<Longrightarrow> 3 \<le> c"
  by (cases body) auto

text \<open>The body window does not reach past the sync window.\<close>

fun within :: "body_window \<Rightarrow> sync_window \<Rightarrow> bool" where
  "within BwHalfYear SwMonth = False"
| "within BwYear SwMonth = False"
| "within BwYear SwHalfYear = False"
| "within body window = True"

lemma kept_from_bodies:
  assumes "p \<in> set (phases_for SwEverything)" "window \<noteq> SwEverything" "within body window"
    "wants_bodies (kept_from body window) True p"
  shows "p \<in> set (phases_for window) \<and> wants_bodies body True p"
proof (cases "p \<in> set shared_phases")
  case True
  from shared_priority [OF this] have "wants_bodies body True p"
    by (auto simp: wants_bodies_below HEADERS_ONLY_def split: option.splits dest: headers_from_shared)
  with True show ?thesis by (simp add: phases_for_def)
next
  case False
  with phases_below [OF assms(1)] assms(2,3,4) show ?thesis
    by (cases window; cases body) (auto simp: phases_for_def wants_bodies_below)
qed

text \<open>
  when Clean Up widens the window to everything with cheap headers, and the body
  window did not reach past the sync window, every phase of the wider window that wants
  whole messages was a phase of the old window that wanted them: only headers are added.
  When the caller counted on cheap headers and they are not cheap, nothing is stored.
\<close>

theorem widening_adds_no_bodies:
  "(widen_stored d True expect_cheap = (d', Widened b) \<and> within (stored_body_window d) (stored_window d) \<longrightarrow>
      stored_window d' = SwEverything \<and>
      (\<forall>p \<in> set (phases_for SwEverything). wants_bodies (stored_body_window d') True p \<longrightarrow>
         p \<in> set (phases_for (stored_window d)) \<and> wants_bodies (stored_body_window d) True p)) \<and>
   (stored_window d \<noteq> SwEverything \<longrightarrow> widen_stored d False True = (d, NeedsAsk))"
proof (intro conjI impI)
  assume run: "widen_stored d True expect_cheap = (d', Widened b) \<and> within (stored_body_window d) (stored_window d)"
  then have "stored_window d \<noteq> SwEverything" by (auto simp: widen_stored_def Let_def)
  with run show "\<forall>p \<in> set (phases_for SwEverything). wants_bodies (stored_body_window d') True p \<longrightarrow>
      p \<in> set (phases_for (stored_window d)) \<and> wants_bodies (stored_body_window d) True p"
    using kept_from_bodies [of _ "stored_window d" "stored_body_window d"] widened_windows(2) [of d True expect_cheap d' b]
    by auto
  show "stored_window d' = SwEverything" using run widened_windows(1) by blast
next
  assume "stored_window d \<noteq> SwEverything"
  then show "widen_stored d False True = (d, NeedsAsk)" by (simp add: widen_stored_def)
qed

definition window_db :: "sync_window \<Rightarrow> body_window \<Rightarrow> sync_db" where
  "window_db w b = \<lparr>sd_account = new_account_db,
     sd_state = [KEY_WINDOW \<mapsto> sync_window_str w, KEY_BODY_WINDOW \<mapsto> body_window_str b]\<rparr>"

lemma window_db: "stored_window (window_db w b) = w" "stored_body_window (window_db w b) = b"
  by (simp_all add: window_db_def stored_window_def stored_body_window_def sync_state_def KEY_WINDOW_def KEY_BODY_WINDOW_def)

theorem widening_adds_no_bodies_witness:
  "snd (widen_stored (window_db SwHalfYear BwWindow) True True) = Widened (Some BwHalfYear) \<and>
   {p \<in> set (phases_for SwEverything).
      wants_bodies (stored_body_window (fst (widen_stored (window_db SwHalfYear BwWindow) True True))) True p} \<subseteq>
      {p \<in> set (phases_for SwHalfYear). wants_bodies BwWindow True p} \<and>
   widen_stored (window_db SwHalfYear BwWindow) False True = (window_db SwHalfYear BwWindow, NeedsAsk)"
proof -
  let ?d = "window_db SwHalfYear BwWindow"
  have run: "snd (widen_stored ?d True True) = Widened (Some BwHalfYear)"
    by (simp add: widen_stored_def window_db Let_def)
  then have "widen_stored ?d True True = (fst (widen_stored ?d True True), Widened (Some BwHalfYear))"
    by (metis prod.collapse)
  with widening_adds_no_bodies [of ?d True "fst (widen_stored ?d True True)" "Some BwHalfYear"] run
  show ?thesis by (simp add: window_db) blast
qed

text \<open>
  a body window that reaches past the sync window is not kept where it was: with
  bodies for six months and a sync window of one month, widening for headers turns the mail
  between one and six months old into whole downloads.
\<close>

theorem widening_can_add_bodies:
  "let d = window_db SwMonth BwHalfYear; d' = fst (widen_stored d True True)
   in half_phase \<notin> set (phases_for (stored_window d)) \<and> half_phase \<in> set (phases_for (stored_window d')) \<and>
      wants_bodies (stored_body_window d') True half_phase"
proof -
  let ?d = "window_db SwMonth BwHalfYear"
  have "snd (widen_stored ?d True True) = Widened None"
    by (simp add: widen_stored_def window_db Let_def)
  then have run: "widen_stored ?d True True = (fst (widen_stored ?d True True), Widened None)"
    by (metis prod.collapse)
  have "half_phase \<notin> set shared_phases" using shared_priority by (force simp: half_phase_def)
  then show ?thesis
    using widened_windows(1,2) [OF run]
    by (simp add: window_db phases_for_def wants_bodies_below half_phase_def HEADERS_ONLY_def)
qed

end
