(* ===== verification/Transport.thy ===== *)
theory Transport
  imports Domain
begin

text \<open>
  Which transport serves a sync job, \<^verbatim>\<open>crates/mail-sync/src/transport.rs\<close>: a breaker that pauses
  IMAP after failures in a row, and the bounded list of finished operations. The mutex of the
  source guards one record, which every operation here takes and returns whole. The failure
  counter is a \<^verbatim>\<open>u32\<close> that only the failures of tries already under way can push past
  \<open>BREAKER_FAILURES\<close>; it is a natural number here. Reading the clock is an argument.
\<close>

section \<open>Records and the breaker\<close>

datatype job = JobList | JobHeaders | JobBodies | JobChanges | JobDrafts | JobSearch | JobWrite | JobPush | JobCategories

definition all_jobs :: "job list" where
  "all_jobs = [JobList, JobHeaders, JobBodies, JobChanges, JobDrafts, JobSearch, JobWrite, JobPush, JobCategories]"

fun job_name :: "job \<Rightarrow> string" where
  "job_name JobList = ''list''"
| "job_name JobHeaders = ''headers''"
| "job_name JobBodies = ''bodies''"
| "job_name JobChanges = ''changes''"
| "job_name JobDrafts = ''drafts''"
| "job_name JobSearch = ''search''"
| "job_name JobWrite = ''write''"
| "job_name JobPush = ''push''"
| "job_name JobCategories = ''categories''"

datatype via = Imap | Api

fun via_name :: "via \<Rightarrow> string" where
  "via_name Imap = ''imap''"
| "via_name Api = ''api''"

record op_record =
  or_job :: job
  or_via :: via
  or_reason :: "string option"
  or_at :: millis
  or_millis :: nat
  or_items :: nat
  or_ok :: bool

definition BREAKER_FAILURES :: nat where "BREAKER_FAILURES = 3"
definition BREAKER_OPEN_MS :: millis where "BREAKER_OPEN_MS = 15 * 60 * 1000"
definition RECORDS_KEPT :: nat where "RECORDS_KEPT = 200"

record transport =
  tr_failures :: nat
  tr_open_until :: "millis option"
  tr_last_error :: "string option"
  tr_records :: "op_record list"

definition new_transport :: transport where
  "new_transport = \<lparr>tr_failures = 0, tr_open_until = None, tr_last_error = None, tr_records = []\<rparr>"

record transport_snapshot =
  ts_breaker_open_until :: "millis option"
  ts_consecutive_failures :: nat
  ts_last_imap_error :: "string option"
  ts_recent :: "op_record list"

definition latest_by_job :: "transport_snapshot \<Rightarrow> op_record list" where
  "latest_by_job s = List.map_filter (\<lambda>j. List.find (\<lambda>r. or_job r = j) (ts_recent s)) all_jobs"

definition imap_allowed :: "transport \<Rightarrow> millis \<Rightarrow> transport \<times> bool" where
  "imap_allowed s now =
     (case tr_open_until s of
        Some until \<Rightarrow>
          if now < until then (s, False)
          else (s\<lparr>tr_open_until := None, tr_failures := BREAKER_FAILURES - 1\<rparr>, True)
      | None \<Rightarrow> (s, True))"

definition imap_succeeded :: "transport \<Rightarrow> transport" where
  "imap_succeeded s = s\<lparr>tr_failures := 0, tr_open_until := None\<rparr>"

definition imap_failed :: "transport \<Rightarrow> string \<Rightarrow> millis \<Rightarrow> transport \<times> string" where
  "imap_failed s error now =
     (let s1 = s\<lparr>tr_failures := tr_failures s + 1, tr_last_error := Some error\<rparr>;
          s2 = (if BREAKER_FAILURES \<le> tr_failures s1 then s1\<lparr>tr_open_until := Some (now + BREAKER_OPEN_MS)\<rparr> else s1)
      in (s2, ''IMAP failed: '' @ error))"

definition breaker_reason :: "transport \<Rightarrow> string" where
  "breaker_reason s = (case tr_last_error s of
     Some e \<Rightarrow> ''IMAP paused after repeated failures ('' @ e @ '')''
   | None \<Rightarrow> ''IMAP paused after repeated failures'')"

definition reset_transport :: "transport \<Rightarrow> transport" where
  "reset_transport s = s\<lparr>tr_failures := 0, tr_open_until := None\<rparr>"

definition record_op :: "transport \<Rightarrow> op_record \<Rightarrow> transport" where
  "record_op s r =
     (let kept = (if length (tr_records s) = RECORDS_KEPT then butlast (tr_records s) else tr_records s)
      in s\<lparr>tr_records := r # kept\<rparr>)"

definition snapshot :: "transport \<Rightarrow> transport_snapshot" where
  "snapshot s = \<lparr>ts_breaker_open_until = tr_open_until s, ts_consecutive_failures = tr_failures s,
     ts_last_imap_error = tr_last_error s, ts_recent = tr_records s\<rparr>"

section \<open>The breaker as a state machine\<close>

text \<open>
  What can happen to the breaker: a caller asks whether it may try, a try that was allowed
  succeeds or fails, the user asks for a refresh, an operation is recorded.
\<close>

datatype breaker_event =
    Ask millis
  | Succeeded
  | FailedAt string millis
  | Refresh
  | Recorded op_record

fun breaker_step :: "transport \<Rightarrow> breaker_event \<Rightarrow> transport" where
  "breaker_step s (Ask t) = fst (imap_allowed s t)"
| "breaker_step s Succeeded = imap_succeeded s"
| "breaker_step s (FailedAt e t) = fst (imap_failed s e t)"
| "breaker_step s Refresh = reset_transport s"
| "breaker_step s (Recorded r) = record_op s r"

definition breaker_run :: "transport \<Rightarrow> breaker_event list \<Rightarrow> transport" where
  "breaker_run s es = foldl breaker_step s es"

text \<open>The well-formedness of the bookkeeping: an open breaker has seen enough failures.\<close>

definition transport_ok :: "transport \<Rightarrow> bool" where
  "transport_ok s \<longleftrightarrow>
     (tr_open_until s = None \<longrightarrow> tr_failures s < BREAKER_FAILURES) \<and>
     (tr_open_until s \<noteq> None \<longrightarrow> BREAKER_FAILURES \<le> tr_failures s) \<and>
     length (tr_records s) \<le> RECORDS_KEPT"

lemma transport_ok_new: "transport_ok new_transport"
  by (simp add: transport_ok_def new_transport_def BREAKER_FAILURES_def)

lemma transport_ok_step: "transport_ok s \<Longrightarrow> transport_ok (breaker_step s e)"
  by (cases e)
    (auto simp: transport_ok_def imap_allowed_def imap_succeeded_def imap_failed_def reset_transport_def
      record_op_def BREAKER_FAILURES_def RECORDS_KEPT_def Let_def split: option.splits)

lemma transport_ok_run: "transport_ok s \<Longrightarrow> transport_ok (breaker_run s es)"
  unfolding breaker_run_def by (induction es arbitrary: s) (simp_all add: transport_ok_step)

text \<open>
  A caller that uses IMAP whenever it may and fails every time: the times at which IMAP was
  really tried, of the times at which the caller had work.
\<close>

fun failing_tries :: "transport \<Rightarrow> string \<Rightarrow> millis list \<Rightarrow> millis list" where
  "failing_tries s e [] = []"
| "failing_tries s e (t # ts) =
     (let (s', ok) = imap_allowed s t
      in if ok then t # failing_tries (fst (imap_failed s' e t)) e ts else failing_tries s' e ts)"

text \<open>Consecutive elements at least \<open>d\<close> apart.\<close>

definition spaced :: "int \<Rightarrow> int list \<Rightarrow> bool" where
  "spaced d ts \<longleftrightarrow> (\<forall>i. Suc i < length ts \<longrightarrow> ts ! i + d \<le> ts ! Suc i)"

lemma spaced_Cons: "spaced d (t # ts) \<longleftrightarrow> (ts \<noteq> [] \<longrightarrow> t + d \<le> hd ts) \<and> spaced d ts"
  by (cases ts) (auto simp: spaced_def less_Suc_eq_0_disj nth_Cons split: nat.splits)

lemma open_breaker_tries:
  "tr_open_until s = Some u \<Longrightarrow> sorted ts \<Longrightarrow>
   (\<forall>t \<in> set (failing_tries s e ts). u \<le> t) \<and> spaced BREAKER_OPEN_MS (failing_tries s e ts)"
proof (induction ts arbitrary: s u)
  case (Cons t ts)
  show ?case
  proof (cases "t < u")
    case True
    with Cons show ?thesis by (auto simp: imap_allowed_def)
  next
    case False
    define s' where "s' = fst (imap_failed (s\<lparr>tr_open_until := None, tr_failures := BREAKER_FAILURES - 1\<rparr>) e t)"
    have tries: "failing_tries s e (t # ts) = t # failing_tries s' e ts"
      using False Cons.prems by (simp add: imap_allowed_def s'_def)
    have opened: "tr_open_until s' = Some (t + BREAKER_OPEN_MS)"
      by (simp add: s'_def imap_failed_def BREAKER_FAILURES_def Let_def)
    have later: "\<forall>x \<in> set (failing_tries s' e ts). t + BREAKER_OPEN_MS \<le> x"
      and rest: "spaced BREAKER_OPEN_MS (failing_tries s' e ts)"
      using Cons.IH [OF opened] Cons.prems by auto
    have "0 \<le> BREAKER_OPEN_MS" by (simp add: BREAKER_OPEN_MS_def)
    with later rest False show ?thesis unfolding tries
      by (auto simp: spaced_Cons intro: order_trans [of _ "t + BREAKER_OPEN_MS"] dest: bspec [OF _ hd_in_set])
  qed
qed (simp add: spaced_def)

lemma closed_breaker_try:
  "tr_open_until s = None \<Longrightarrow>
   failing_tries s e (t # ts) = t # failing_tries (fst (imap_failed s e t)) e ts"
  by (simp add: imap_allowed_def)

lemma failed_state:
  "tr_open_until s = None \<Longrightarrow> tr_failures (fst (imap_failed s e t)) = tr_failures s + 1 \<and>
   tr_open_until (fst (imap_failed s e t)) =
     (if BREAKER_FAILURES \<le> tr_failures s + 1 then Some (t + BREAKER_OPEN_MS) else None)"
  by (simp add: imap_failed_def Let_def)

text \<open>A run of failures that starts with the breaker closed: the tries after the ones that open it are spaced.\<close>

lemma closed_breaker_tries:
  "transport_ok s \<Longrightarrow> tr_open_until s = None \<Longrightarrow> sorted ts \<Longrightarrow>
   spaced BREAKER_OPEN_MS (drop (BREAKER_FAILURES - 1 - tr_failures s) (failing_tries s e ts))"
proof (induction ts arbitrary: s)
  case (Cons t ts)
  let ?s = "fst (imap_failed s e t)"
  have ok: "transport_ok ?s" using transport_ok_step [OF Cons.prems(1), of "FailedAt e t"] by simp
  have tries: "failing_tries s e (t # ts) = t # failing_tries ?s e ts"
    by (rule closed_breaker_try) (rule Cons.prems(2))
  have less: "tr_failures s < BREAKER_FAILURES" using Cons.prems by (simp add: transport_ok_def)
  show ?case
  proof (cases "BREAKER_FAILURES \<le> tr_failures s + 1")
    case True
    then have "tr_open_until ?s = Some (t + BREAKER_OPEN_MS)" by (simp add: failed_state Cons.prems)
    with open_breaker_tries Cons.prems have
      "\<forall>x \<in> set (failing_tries ?s e ts). t + BREAKER_OPEN_MS \<le> x" "spaced BREAKER_OPEN_MS (failing_tries ?s e ts)"
      by auto
    with True show ?thesis unfolding tries by (auto simp: spaced_Cons dest: bspec [OF _ hd_in_set])
  next
    case False
    with less have "BREAKER_FAILURES - 1 - tr_failures s = Suc (BREAKER_FAILURES - 1 - tr_failures ?s)"
      by (simp add: failed_state Cons.prems)
    with Cons.IH [of ?s] Cons.prems False ok show ?thesis unfolding tries
      by (simp add: failed_state)
  qed
qed (simp add: spaced_def)

text \<open>
  Claim C12: while IMAP keeps failing, the first three tries are the only ones made without a
  pause: from the third on, consecutive tries are at least 15 minutes apart, whenever and
  however often the engine has work for it.
\<close>

theorem failing_imap_is_tried_rarely:
  "sorted ts \<Longrightarrow> spaced BREAKER_OPEN_MS (drop 2 (failing_tries new_transport e ts))"
  using closed_breaker_tries [OF transport_ok_new, of ts e]
  by (simp add: new_transport_def BREAKER_FAILURES_def numeral_2_eq_2)

theorem failing_imap_is_tried_rarely_witness:
  "failing_tries new_transport ''timeout'' [0, 1, 2, 3, 1000, 900001, 900002, 900003, 1800001, 1800002] = [0, 1, 2, 900002, 1800002] \<and>
   spaced BREAKER_OPEN_MS (drop 2 (failing_tries new_transport ''timeout'' [0, 1, 2, 3, 1000, 900001, 900002, 900003, 1800001, 1800002]))"
proof
  show "failing_tries new_transport ''timeout'' [0, 1, 2, 3, 1000, 900001, 900002, 900003, 1800001, 1800002] = [0, 1, 2, 900002, 1800002]"
    by (simp add: new_transport_def imap_allowed_def imap_failed_def BREAKER_FAILURES_def BREAKER_OPEN_MS_def)
  show "spaced BREAKER_OPEN_MS (drop 2 (failing_tries new_transport ''timeout''
      [0, 1, 2, 3, 1000, 900001, 900002, 900003, 1800001, 1800002]))"
    by (rule failing_imap_is_tried_rarely) simp
qed

end
