(* ===== verification/Provider.thy ===== *)
theory Provider
  imports Numbers Store
begin

text \<open>
  What sync is written against: the types and the trait of \<^verbatim>\<open>crates/provider-api/src/lib.rs\<close>, the
  errors of \<^verbatim>\<open>error.rs\<close> and the conversion of a fetched message, \<^verbatim>\<open>crates/mail-sync/src/convert.rs\<close>.

  A provider is the record of its trait's methods. Each method takes the outside world (the
  mailbox on the server, the network, whatever the implementation keeps) and returns its answer
  and the world after it, so two calls with the same arguments may answer differently. The
  world's type \<open>'w\<close> is a parameter of the whole sync engine.
\<close>

section \<open>Errors\<close>

datatype provider_error =
    Unauthorized
  | CursorExpired
  | NotFoundAt string
  | RateLimited "nat option"
  | Network string
  | Server nat string
  | Decode string
  | Invalid string
  | Forbidden string
  | Unavailable string

fun is_transient :: "provider_error \<Rightarrow> bool" where
  "is_transient (RateLimited d) = True"
| "is_transient (Network m) = True"
| "is_transient (Server s m) = True"
| "is_transient (Decode m) = True"
| "is_transient _ = False"

text \<open>The \<^verbatim>\<open>Display\<close> text; a retry time is kept in milliseconds and shown in whole seconds.\<close>

fun provider_error_text :: "provider_error \<Rightarrow> string" where
  "provider_error_text Unauthorized = ''not authorized; sign in again''"
| "provider_error_text CursorExpired = ''sync cursor expired''"
| "provider_error_text (NotFoundAt m) = ''not found: '' @ m"
| "provider_error_text (RateLimited d) = ''rate limited'' @
     (case d of None \<Rightarrow> [] | Some ms \<Rightarrow> ''; retry after '' @ show_nat (ms div 1000) @ ''s'')"
| "provider_error_text (Network m) = ''network error: '' @ m"
| "provider_error_text (Server s m) = ''server error '' @ show_nat s @ '': '' @ m"
| "provider_error_text (Decode m) = ''undecodable response: '' @ m"
| "provider_error_text (Invalid m) = ''unexpected response: '' @ m"
| "provider_error_text (Forbidden m) = ''permission denied: '' @ m"
| "provider_error_text (Unavailable m) = ''unavailable: '' @ m"

datatype sync_error =
    StoreFailed store_error
  | ProviderFailed provider_error
  | NotBootstrapped
  | ResyncStarted

fun sync_is_transient :: "sync_error \<Rightarrow> bool" where
  "sync_is_transient (ProviderFailed p) = is_transient p"
| "sync_is_transient _ = False"

section \<open>Messages, changes, listings\<close>

datatype priority = Interactive | Background

record profile =
  pf_email :: string
  pf_messages_total :: nat
  pf_cursor :: string

record list_filter =
  lf_label_ids :: "label_id list"
  lf_query :: "string option"
  lf_include_spam_trash :: bool

record id_page =
  ip_ids :: "(message_id \<times> thread_id) list"
  ip_next :: "string option"
  ip_estimated_total :: "nat option"

record fetched_attachment =
  fa_part_id :: "string option"
  fa_attachment_id :: "string option"
  fa_filename :: string
  fa_mime_type :: string
  fa_size :: nat
  fa_content_id :: "string option"
  fa_is_inline :: bool
  fa_data :: "nat list option"

record fetched_body =
  fb_text :: "string option"
  fb_html :: "string option"
  fb_attachments :: "fetched_attachment list"

record fetched_message =
  fm_id :: message_id
  fm_thread_id :: thread_id
  fm_label_ids :: "label_id list"
  fm_snippet :: string
  fm_internal_date :: millis
  fm_size_estimate :: nat
  fm_message_id_header :: "string option"
  fm_in_reply_to :: "string option"
  fm_references :: "string list"
  fm_from :: "email_address option"
  fm_to :: "email_address list"
  fm_cc :: "email_address list"
  fm_bcc :: "email_address list"
  fm_reply_to :: "email_address list"
  fm_subject :: string
  fm_date :: "millis option"
  fm_list :: list_headers
  fm_body :: "fetched_body option"

datatype change =
    MessageAdded message_id thread_id "label_id list"
  | MessageDeleted message_id
  | LabelsAdded message_id "label_id list"
  | LabelsRemoved message_id "label_id list"

record change_set =
  cs_changes :: "change list"
  cs_cursor :: string

text \<open>Whose labels a message has. The names are those of the source with a prefix.\<close>

datatype label_sync =
    LsProvider
  | LsLocal
  | LsBoth "label_id list \<Rightarrow> label_id list \<Rightarrow> label_id list"

fun keeps_user_labels :: "label_sync \<Rightarrow> bool" where
  "keeps_user_labels LsProvider = False"
| "keeps_user_labels _ = True"

record label_op =
  lo_message_ids :: "message_id list"
  lo_add :: "label_id list"
  lo_remove :: "label_id list"

section \<open>The provider and the download source\<close>

type_synonym ('w, 'a) answer = "(provider_error, 'a) result \<times> 'w"

record 'w mail_provider =
  mp_profile :: "'w \<Rightarrow> ('w, profile) answer"
  mp_list_labels :: "'w \<Rightarrow> ('w, label list) answer"
  mp_list_message_ids :: "list_filter \<Rightarrow> string option \<Rightarrow> 'w \<Rightarrow> ('w, id_page) answer"
  mp_fetch_messages :: "message_id list \<Rightarrow> priority \<Rightarrow> 'w \<Rightarrow> ('w, fetched_message list) answer"
  mp_changes_since :: "string \<Rightarrow> 'w \<Rightarrow> ('w, change_set) answer"
  mp_modify_labels :: "label_op \<Rightarrow> 'w \<Rightarrow> ('w, unit) answer"
  mp_move_to_trash :: "message_id \<Rightarrow> 'w \<Rightarrow> ('w, unit) answer"
  mp_restore_from_trash :: "message_id \<Rightarrow> 'w \<Rightarrow> ('w, unit) answer"
  mp_send :: "string \<Rightarrow> thread_id option \<Rightarrow> 'w \<Rightarrow> ('w, message_id) answer"
  mp_already_sent :: "string \<Rightarrow> 'w \<Rightarrow> ('w, message_id option) answer"
  mp_save_draft :: "string option \<Rightarrow> string \<Rightarrow> thread_id option \<Rightarrow> 'w \<Rightarrow> ('w, string) answer"
  mp_delete_draft :: "string \<Rightarrow> 'w \<Rightarrow> ('w, unit) answer"
  mp_list_drafts :: "'w \<Rightarrow> ('w, (string \<times> message_id) list option) answer"
  mp_create_label :: "string \<Rightarrow> (string \<times> string) option \<Rightarrow> 'w \<Rightarrow> ('w, label) answer"
  mp_label_sync :: label_sync
  mp_adopts_sent_copies :: bool

record 'w backfill_source =
  bs_fetch :: "message_id list \<Rightarrow> 'w \<Rightarrow> ('w, fetched_message list) answer"
  bs_fetch_headers :: "message_id list \<Rightarrow> 'w \<Rightarrow> ('w, fetched_message list option) answer"
  bs_list :: "string \<Rightarrow> 'w \<Rightarrow> ('w, message_id list option) answer"
  bs_watch :: "nat \<Rightarrow> 'w \<Rightarrow> ('w, bool option) answer"
  bs_cheap_headers :: bool
  bs_name :: string

text \<open>\<^verbatim>\<open>RestBackfill\<close>: the provider's own fetch, and the trait's default for everything else.\<close>

definition rest_backfill :: "'w mail_provider \<Rightarrow> 'w backfill_source" where
  "rest_backfill p = \<lparr>
     bs_fetch = (\<lambda>ids. mp_fetch_messages p ids Background),
     bs_fetch_headers = (\<lambda>ids w. (Ok None, w)),
     bs_list = (\<lambda>q w. (Ok None, w)),
     bs_watch = (\<lambda>d w. (Ok None, w)),
     bs_cheap_headers = False,
     bs_name = ''rest''\<rparr>"

section \<open>Converting a fetched message\<close>

text \<open>The two functions of \<^verbatim>\<open>mail-mime\<close> that the conversion calls are its parameters.\<close>

record mime_tools =
  mt_sanitize_html :: "string \<Rightarrow> string \<times> bool"
  mt_html_to_text :: "string \<Rightarrow> string"

definition to_incoming_attachment :: "fetched_attachment \<Rightarrow> incoming_attachment" where
  "to_incoming_attachment a = \<lparr>
     at_part_id = fa_part_id a, at_provider_attachment_id = fa_attachment_id a, at_filename = fa_filename a,
     at_mime_type = fa_mime_type a, at_size = fa_size a, at_content_id = fa_content_id a,
     at_is_inline = fa_is_inline a, at_data = fa_data a\<rparr>"

definition to_body :: "mime_tools \<Rightarrow> fetched_body \<Rightarrow> body" where
  "to_body mt b =
     (let sanitized = map_option (mt_sanitize_html mt) (fb_html b)
      in \<lparr>bd_text_plain = (case fb_text b of Some t \<Rightarrow> Some t | None \<Rightarrow> map_option (mt_html_to_text mt) (fb_html b)),
          bd_html_sanitized = map_option fst sanitized,
          bd_has_remote_images = (case sanitized of Some s \<Rightarrow> snd s | None \<Rightarrow> False)\<rparr>)"

definition to_incoming :: "mime_tools \<Rightarrow> fetched_message \<Rightarrow> incoming_message" where
  "to_incoming mt m = \<lparr>
     im_id = fm_id m, im_thread_id = fm_thread_id m, im_rfc822_message_id = fm_message_id_header m,
     im_in_reply_to = fm_in_reply_to m, im_references = fm_references m, im_from = fm_from m,
     im_to = fm_to m, im_cc = fm_cc m, im_bcc = fm_bcc m, im_reply_to = fm_reply_to m,
     im_subject = fm_subject m,
     im_date = (case fm_date m of Some d \<Rightarrow> d | None \<Rightarrow> fm_internal_date m),
     im_internal_date = fm_internal_date m, im_snippet = fm_snippet m, im_label_ids = fm_label_ids m,
     im_size_estimate = fm_size_estimate m, im_body = map_option (to_body mt) (fm_body m),
     im_attachments = (case fm_body m of Some b \<Rightarrow> map to_incoming_attachment (fb_attachments b) | None \<Rightarrow> []),
     im_list = fm_list m, im_headers_json = None\<rparr>"

lemma to_incoming_id [simp]: "im_id (to_incoming mt m) = fm_id m"
  by (simp add: to_incoming_def)

lemma to_incoming_body [simp]: "im_body (to_incoming mt m) = None \<longleftrightarrow> fm_body m = None"
  by (simp add: to_incoming_def)

text \<open>
  A message keeps its HTML only in sanitized form: what the store is given never holds the
  HTML as the provider sent it.
\<close>

lemma to_incoming_sanitized:
  "im_body (to_incoming mt m) = Some b \<Longrightarrow> bd_html_sanitized b = Some h \<Longrightarrow>
   \<exists>html. h = fst (mt_sanitize_html mt html)"
  by (auto simp: to_incoming_def to_body_def Let_def) (metis fst_conv)

end
