(* ===== verification/Calendar.thy ===== *)
theory Calendar
  imports Domain
begin

text \<open>
  Calendar dates as day numbers from 1970-01-01 and back (\<^verbatim>\<open>civil_from_days\<close> of \<^verbatim>\<open>mail-domain\<close> and the
  \<^verbatim>\<open>days_from_civil\<close> that the search language and Clean Up share), against the calendar itself: months of 28 to
  31 days, a leap year every four years but for the centuries that 400 does not divide.
\<close>

definition days_from_civil :: "int \<Rightarrow> int \<Rightarrow> int \<Rightarrow> int" where
  "days_from_civil y0 m d =
     (let y = (if m \<le> 2 then y0 - 1 else y0);
          era = y div 400;
          yoe = y - era * 400;
          mp = (m + 9) mod 12;
          doy = (153 * mp + 2) div 5 + d - 1;
          doe = yoe * 365 + yoe div 4 - yoe div 100 + doy
      in era * 146097 + doe - 719468)"

section \<open>The calendar\<close>

definition leap :: "int \<Rightarrow> bool" where
  "leap y \<longleftrightarrow> y mod 4 = 0 \<and> (y mod 100 \<noteq> 0 \<or> y mod 400 = 0)"

definition days_in_month :: "int \<Rightarrow> int \<Rightarrow> int" where
  "days_in_month y m = (if m = 2 then (if leap y then 29 else 28) else if m \<in> {4, 6, 9, 11} then 30 else 31)"

definition next_date :: "int \<times> int \<times> int \<Rightarrow> int \<times> int \<times> int" where
  "next_date = (\<lambda>(y, m, d).
     if d < days_in_month y m then (y, m, d + 1) else if m < 12 then (y, m + 1, 1) else (y + 1, 1, 1))"

section \<open>Years of an era\<close>

text \<open>Years count from March. The days before a year of an era of 400, the length of that year, and the year of a day.\<close>

definition days_before :: "int \<Rightarrow> int" where "days_before y = 365 * y + y div 4 - y div 100"
definition year_length :: "int \<Rightarrow> int" where "year_length y = (if leap (y + 1) then 366 else 365)"
definition shifted_day :: "int \<Rightarrow> int" where "shifted_day doe = doe - doe div 1460 + doe div 36524 - doe div 146096"

lemma weigh_steps: "a' \<le> a + 1 \<Longrightarrow> b \<le> b' \<Longrightarrow> c' \<le> c \<Longrightarrow> x - a + b - c \<le> x + 1 - a' + b' - (c' :: int)"
  by linarith

lemma shifted_day_step:
  assumes "0 \<le> x" "x < 146096"
  shows "shifted_day x \<le> shifted_day (x + 1)"
proof (cases "x + 1 = 146096")
  case False
  have "(x + 1) div 1460 \<le> (x + 1460) div 1460" by (rule zdiv_mono1) simp_all
  moreover have "(x + 1460) div 1460 = x div 1460 + 1" by simp
  ultimately have "(x + 1) div 1460 \<le> x div 1460 + 1" by (simp only:)
  moreover have "x div 36524 \<le> (x + 1) div 36524" by (rule zdiv_mono1) simp_all
  moreover have "x div 146096 = 0" "(x + 1) div 146096 = 0" using assms False by (auto intro: div_pos_pos_trivial)
  then have "(x + 1) div 146096 \<le> x div 146096" by (simp only: order_refl)
  ultimately show ?thesis unfolding shifted_day_def by (rule weigh_steps)
next
  case True
  then have "x = 146095" by simp
  then show ?thesis by (simp add: shifted_day_def)
qed

lemma shifted_day_mono: "shifted_day x \<le> shifted_day (x + int n)" if "0 \<le> x" "x + int n \<le> 146096"
  using that
proof (induction n)
  case (Suc n)
  then have "shifted_day (x + int n) \<le> shifted_day (x + int n + 1)" by (intro shifted_day_step) auto
  with Suc show ?case by (simp add: algebra_simps)
qed simp

lemma years_of_an_era:
  "list_all (\<lambda>y. shifted_day (days_before y) div 365 = y \<and> shifted_day (days_before y + year_length y - 1) div 365 = y \<and>
     days_before y + year_length y = (if y = 399 then 146097 else days_before (y + 1)) \<and> 0 \<le> days_before y \<and>
     days_before y + year_length y \<le> 146097) [0..399]"
  by code_simp

lemma year_table:
  assumes "0 \<le> y" "y < 400"
  shows "shifted_day (days_before y) div 365 = y" "shifted_day (days_before y + year_length y - 1) div 365 = y"
    "days_before y + year_length y = (if y = 399 then 146097 else days_before (y + 1))"
    "0 \<le> days_before y" "days_before y + year_length y \<le> 146097"
proof -
  have "y \<in> set [0..399]" using assms by simp
  from years_of_an_era [unfolded list_all_iff, rule_format, OF this]
  show "shifted_day (days_before y) div 365 = y" "shifted_day (days_before y + year_length y - 1) div 365 = y"
    "days_before y + year_length y = (if y = 399 then 146097 else days_before (y + 1))"
    "0 \<le> days_before y" "days_before y + year_length y \<le> 146097" by blast+
qed

lemma year_of_day:
  assumes "0 \<le> y" "y < 400" "0 \<le> doy" "doy < year_length y"
  shows "shifted_day (days_before y + doy) div 365 = y"
proof -
  note y = year_table [OF assms(1,2)]
  from assms y(4,5) have "shifted_day (days_before y) \<le> shifted_day (days_before y + doy)"
    "shifted_day (days_before y + doy) \<le> shifted_day (days_before y + year_length y - 1)"
    using shifted_day_mono [of "days_before y" "nat doy"] shifted_day_mono [of "days_before y + doy" "nat (year_length y - 1 - doy)"]
    by (auto simp: add_diff_eq)
  with y(1,2) show ?thesis by (metis zdiv_mono1 order_antisym zero_less_numeral)
qed

lemma days_before_next:
  assumes "0 \<le> y" "y < 399"
  shows "days_before (y + 1) = days_before y + year_length y"
  using year_table(3) [of y] assms by simp

lemma day_of_an_era:
  assumes "0 \<le> doe" "doe < 146097"
  shows "\<exists>y doy. 0 \<le> y \<and> y < 400 \<and> 0 \<le> doy \<and> doy < year_length y \<and> doe = days_before y + doy"
proof -
  have "\<exists>y doy. 0 \<le> y \<and> y \<le> int n \<and> 0 \<le> doy \<and> doy < year_length y \<and> doe = days_before y + doy"
    if "n < 400" "0 \<le> doe" "doe < days_before (int n) + year_length (int n)" for n :: nat and doe
    using that
  proof (induction n arbitrary: doe)
    case 0
    then show ?case by (intro exI [of _ 0] exI [of _ doe]) (auto simp: days_before_def)
  next
    case (Suc n)
    have nx: "days_before (int (Suc n)) = days_before (int n) + year_length (int n)"
      using days_before_next [of "int n"] Suc.prems by (simp add: algebra_simps)
    show ?case
    proof (cases "doe < days_before (int (Suc n))")
      case True
      with Suc.IH [of doe] Suc.prems nx show ?thesis by fastforce
    next
      case False
      with Suc.prems show ?thesis by (intro exI [of _ "int (Suc n)"] exI [of _ "doe - days_before (int (Suc n))"]) auto
    qed
  qed
  from this [of 399 doe] assms show ?thesis by (fastforce simp: days_before_def year_length_def leap_def)
qed

section \<open>Days of a year\<close>

definition month_day :: "int \<Rightarrow> int \<times> int" where
  "month_day doy = (let mp = (5 * doy + 2) div 153 in (if mp < 10 then mp + 3 else mp - 9, doy - (153 * mp + 2) div 5 + 1))"

definition year_date :: "int \<Rightarrow> int \<Rightarrow> int \<Rightarrow> int \<times> int \<times> int" where
  "year_date era y doy = (case month_day doy of (m, d) \<Rightarrow> (y + era * 400 + (if m \<le> 2 then 1 else 0), m, d))"

lemma days_of_a_year:
  "list_all (\<lambda>doy. case month_day doy of (m, d) \<Rightarrow>
     1 \<le> m \<and> m \<le> 12 \<and> 1 \<le> d \<and> (153 * ((m + 9) mod 12) + 2) div 5 + d - 1 = doy \<and>
     (if m = 2 then doy = 336 + d else d \<le> days_in_month 1 m) \<and>
     (if doy = 365 then m = 2
      else month_day (doy + 1) =
        (if m = 2 \<or> d < days_in_month 1 m then (m, d + 1) else if m = 12 then (1, 1) else (m + 1, 1)))) [0..365]"
  by code_simp

lemma month_day_facts:
  assumes "month_day doy = (m, d)" "0 \<le> doy" "doy \<le> 365"
  shows "1 \<le> m" "m \<le> 12" "1 \<le> d" "(153 * ((m + 9) mod 12) + 2) div 5 + d - 1 = doy"
    "if m = 2 then doy = 336 + d else d \<le> days_in_month 1 m"
    "if doy = 365 then m = 2 else month_day (doy + 1) =
       (if m = 2 \<or> d < days_in_month 1 m then (m, d + 1) else if m = 12 then (1, 1) else (m + 1, 1))"
proof -
  have "doy \<in> set [0..365]" using assms(2,3) by simp
  from days_of_a_year [unfolded list_all_iff, rule_format, OF this, unfolded assms(1), simplified]
  show "1 \<le> m" "m \<le> 12" "1 \<le> d" "(153 * ((m + 9) mod 12) + 2) div 5 + d - 1 = doy"
    "if m = 2 then doy = 336 + d else d \<le> days_in_month 1 m"
    "if doy = 365 then m = 2 else month_day (doy + 1) =
       (if m = 2 \<or> d < days_in_month 1 m then (m, d + 1) else if m = 12 then (1, 1) else (m + 1, 1))" by simp_all
qed

lemma leap_era: "leap (y + era * 400) = leap y"
proof -
  have "(y + era * 400) mod k = y mod k" if "k dvd 400" for k :: int
    using that by (auto simp: mod_add_right_eq elim!: dvdE) (metis mod_mult_self2 mult.commute mult.assoc)
  from this [of 4] this [of 100] this [of 400] show ?thesis by (simp add: leap_def)
qed

lemma days_in_month_2: "m \<noteq> 2 \<Longrightarrow> days_in_month y m = days_in_month y' m"
  by (simp add: days_in_month_def)

lemma civil_from_era:
  assumes "0 \<le> y" "y < 400" "0 \<le> doy" "doy < year_length y"
  shows "civil_from_days (era * 146097 + days_before y + doy - 719468) = year_date era y doy"
proof -
  define doe where "doe = days_before y + doy"
  have doe: "0 \<le> doe" "doe < 146097" using year_table(4,5) [OF assms(1,2)] assms(3,4) unfolding doe_def by linarith+
  then have e: "(era * 146097 + doe) div 146097 = era" by simp
  have yd: "(doe - doe div 1460 + doe div 36524 - doe div 146096) div 365 = y"
    using year_of_day [OF assms] by (simp only: shifted_day_def doe_def)
  have r: "doe - (365 * y + y div 4 - y div 100) = doy" by (simp add: doe_def days_before_def)
  have z: "era * 146097 + days_before y + doy - 719468 + 719468 = era * 146097 + doe" by (simp add: doe_def)
  have d: "era * 146097 + doe - era * 146097 = doe" by simp
  show ?thesis
    by (simp only: civil_from_days_def year_date_def month_day_def Let_def z e d yd r prod.case)
qed


section \<open>Every day has its date\<close>

lemma era_of_day:
  obtains era y doy where "0 \<le> y" "y < 400" "0 \<le> doy" "doy < year_length y" "z = era * 146097 + days_before y + doy - 719468"
proof -
  define doe where "doe = (z + 719468) mod 146097"
  have "0 \<le> doe" "doe < 146097" by (simp_all add: doe_def)
  from day_of_an_era [OF this] obtain y doy where
    y: "0 \<le> y" "y < 400" "0 \<le> doy" "doy < year_length y" "doe = days_before y + doy" by blast
  have "(z + 719468) div 146097 * 146097 + doe = z + 719468" unfolding doe_def by (rule div_mult_mod_eq)
  with y(5) have "z = (z + 719468) div 146097 * 146097 + days_before y + doy - 719468" by linarith
  with y that show thesis by blast
qed

lemma year_length_cases: "doy < year_length y \<Longrightarrow> 0 \<le> doy \<Longrightarrow> doy \<le> 365 \<and> (doy = 365 \<longrightarrow> leap (y + 1))"
  by (auto simp: year_length_def split: if_splits)

lemma days_from_year_date:
  assumes "0 \<le> y" "y < 400" "0 \<le> doy" "doy < year_length y" "year_date era y doy = (Y, m, d)"
  shows "days_from_civil Y m d = era * 146097 + days_before y + doy - 719468"
proof -
  obtain md: "month_day doy = (m, d)" "Y = y + era * 400 + (if m \<le> 2 then 1 else 0)"
    using assms(5) by (auto simp: year_date_def split: prod.splits)
  note f = month_day_facts [OF md(1)]
  have "(y + era * 400) div 400 = era" using assms(1,2) by simp
  then show ?thesis
    using f(4) year_length_cases [OF assms(4,3)] assms(3) md(2)
    by (cases "m \<le> 2") (simp_all add: days_from_civil_def Let_def days_before_def)
qed

lemma next_year_date:
  assumes "0 \<le> doy" "doy < year_length y" "year_date era y doy = (Y, m, d)"
  shows "1 \<le> m \<and> m \<le> 12 \<and> 1 \<le> d \<and> d \<le> days_in_month Y m \<and>
    next_date (Y, m, d) = (if doy + 1 = year_length y then (y + era * 400 + 1, 3, 1) else year_date era y (doy + 1))"
proof -
  obtain md: "month_day doy = (m, d)" "Y = y + era * 400 + (if m \<le> 2 then 1 else 0)"
    using assms(3) by (auto simp: year_date_def split: prod.splits)
  have doy: "doy \<le> 365" "doy = 365 \<longrightarrow> leap (y + 1)" using year_length_cases [OF assms(2,1)] by auto
  note f = month_day_facts [OF md(1) assms(1) doy(1)]
  show ?thesis
  proof (cases "m = 2")
    case True
    then have Y: "days_in_month Y m = (if leap (y + 1) then 29 else 28)" "Y = y + era * 400 + 1"
      using leap_era [of "y + 1" era] md(2) by (simp_all add: days_in_month_def algebra_simps)
    have doy2: "doy = 336 + d" using f(5) True by simp
    show ?thesis
    proof (cases "doy + 1 = year_length y")
      case fin: True
      then have "d = days_in_month Y m" using doy2 Y(1) by (simp add: year_length_def split: if_splits)
      with fin True Y f(3) show ?thesis by (simp add: next_date_def)
    next
      case False
      with assms(2) have lt: "doy + 1 < year_length y" by simp
      then have "d < days_in_month Y m" "doy \<noteq> 365" using doy2 Y(1) by (auto simp: year_length_def split: if_splits)
      moreover from this(2) f(6) True have "month_day (doy + 1) = (2, d + 1)" by simp
      ultimately show ?thesis using False True Y f(3) by (simp add: next_date_def year_date_def)
    qed
  next
    case False
    then have L: "days_in_month Y m = days_in_month 1 m" by (rule days_in_month_2)
    have "month_day 364 = (2, 28)" "month_day 365 = (2, 29)" by code_simp+
    with md(1) False have "doy \<noteq> 364" "doy \<noteq> 365" by auto
    then have "doy + 1 \<noteq> year_length y" by (simp add: year_length_def)
    moreover have "month_day (doy + 1) = (if d < days_in_month 1 m then (m, d + 1) else if m = 12 then (1, 1) else (m + 1, 1))"
      using f(6) False \<open>doy \<noteq> 365\<close> by simp
    moreover have "m = 1 \<Longrightarrow> days_in_month 1 m = 31" by (simp add: days_in_month_def)
    ultimately show ?thesis
      using f(1-3,5) False L md(2) by (auto simp: next_date_def year_date_def)
  qed
qed

lemma civil_of_next_day:
  "civil_from_days (z + 1) = next_date (civil_from_days z) \<and>
   (case civil_from_days z of (y, m, d) \<Rightarrow>
      days_from_civil y m d = z \<and> 1 \<le> m \<and> m \<le> 12 \<and> 1 \<le> d \<and> d \<le> days_in_month y m)"
proof -
  obtain era y doy where e: "0 \<le> y" "y < 400" "0 \<le> doy" "doy < year_length y" "z = era * 146097 + days_before y + doy - 719468"
    by (rule era_of_day)
  obtain Y m d where ymd: "year_date era y doy = (Y, m, d)" using prod_cases3 by blast
  have civ: "civil_from_days z = (Y, m, d)" using civil_from_era [OF e(1-4), of era] e(5) ymd by simp
  note nx = next_year_date [OF e(3,4) ymd]
  have march: "month_day 0 = (3, 1)" by code_simp
  have "civil_from_days (z + 1) = next_date (Y, m, d)"
  proof (cases "doy + 1 = year_length y")
    case True
    have z1: "z + 1 = (if y = 399 then (era + 1) * 146097 + days_before 0 + 0 - 719468 else era * 146097 + days_before (y + 1) + 0 - 719468)"
      using year_table(3) [OF e(1,2)] True e(5) by (simp add: days_before_def algebra_simps split: if_splits)
    show ?thesis
    proof (cases "y = 399")
      case y: True
      have "civil_from_days ((era + 1) * 146097 + days_before 0 + 0 - 719468) = year_date (era + 1) 0 0"
        by (rule civil_from_era) (simp_all add: year_length_def)
      then have "civil_from_days (z + 1) = year_date (era + 1) 0 0" by (simp only: z1 y refl if_True)
      with y True nx march show ?thesis by (simp add: year_date_def algebra_simps)
    next
      case False
      have "civil_from_days (era * 146097 + days_before (y + 1) + 0 - 719468) = year_date era (y + 1) 0"
        by (rule civil_from_era) (use e False in \<open>simp_all add: year_length_def\<close>)
      then have "civil_from_days (z + 1) = year_date era (y + 1) 0" by (simp only: z1 False if_False)
      with True nx march show ?thesis by (simp add: year_date_def algebra_simps)
    qed
  next
    case False
    have "civil_from_days (era * 146097 + days_before y + (doy + 1) - 719468) = year_date era y (doy + 1)"
      by (rule civil_from_era) (use e False in simp_all)
    moreover have "z + 1 = era * 146097 + days_before y + (doy + 1) - 719468" using e(5) by simp
    ultimately have "civil_from_days (z + 1) = year_date era y (doy + 1)" by (simp only:)
    with False nx show ?thesis by simp
  qed
  then show ?thesis using civ days_from_year_date [OF e(1-4) ymd] e(5) nx by simp
qed

lemma civil_date:
  assumes "civil_from_days z = (y, m, d)"
  shows "days_from_civil y m d = z" "1 \<le> m" "m \<le> 12" "1 \<le> d" "d \<le> days_in_month y m"
  using civil_of_next_day [of z] assms by auto

section \<open>Every date has its day\<close>

lemma days_from_civil_day: "days_from_civil y m d = days_from_civil y m 1 + d - 1"
  by (simp add: days_from_civil_def Let_def)

lemma firsts_of_months:
  "list_all (\<lambda>m. let doy = (153 * ((m + 9) mod 12) + 2) div 5 in month_day doy = (m, 1) \<and> 0 \<le> doy \<and> doy \<le> 364) [1..12]"
  by code_simp

lemma civil_first:
  assumes "1 \<le> m" "m \<le> 12"
  shows "civil_from_days (days_from_civil y m 1) = (y, m, 1)"
proof -
  define doy where "doy = (153 * ((m + 9) mod 12) + 2) div 5"
  have "m \<in> set [1..12]" using assms by simp
  from firsts_of_months [unfolded list_all_iff Let_def, rule_format, OF this]
  have doy: "month_day doy = (m, 1)" "0 \<le> doy" "doy \<le> 364" unfolding doy_def by blast+
  define y1 where "y1 = (if m \<le> 2 then y - 1 else y)"
  have yoe: "y1 - y1 div 400 * 400 = y1 mod 400" by (simp add: minus_div_mult_eq_mod)
  have "days_from_civil y m 1 = y1 div 400 * 146097 + days_before (y1 mod 400) + doy - 719468"
    unfolding days_from_civil_def Let_def doy_def y1_def [symmetric] yoe days_before_def by simp
  also have "civil_from_days \<dots> = year_date (y1 div 400) (y1 mod 400) doy"
    by (rule civil_from_era) (use doy in \<open>simp_all add: year_length_def\<close>)
  also have "\<dots> = (y, m, 1)"
    using doy(1) mod_div_mult_eq [of y1 400] by (simp add: year_date_def y1_def)
  finally show ?thesis .
qed

lemma civil_walk:
  assumes "1 \<le> m" "m \<le> 12"
  shows "int i < days_in_month y m \<Longrightarrow> civil_from_days (days_from_civil y m 1 + int i) = (y, m, 1 + int i)"
proof (induction i)
  case 0
  show ?case using civil_first [OF assms] by simp
next
  case (Suc i)
  then have "civil_from_days (days_from_civil y m 1 + int i + 1) = next_date (y, m, 1 + int i)"
    using civil_of_next_day by simp
  with Suc.prems show ?case by (simp add: next_date_def algebra_simps)
qed

lemma civil_of_date:
  assumes "1 \<le> m" "m \<le> 12" "1 \<le> d" "d \<le> days_in_month y m"
  shows "civil_from_days (days_from_civil y m d) = (y, m, d)"
  using civil_walk [OF assms(1,2), of "nat (d - 1)" y] assms(3,4) days_from_civil_day [of y m d] by (simp add: add_diff_eq)

text \<open>A month is the range of days from its first to the first of the next.\<close>

definition next_month :: "int \<Rightarrow> int \<Rightarrow> int \<times> int" where
  "next_month y m = (if m = 12 then (y + 1, 1) else (y, m + 1))"

lemma days_in_month_pos: "0 < days_in_month y m" by (simp add: days_in_month_def)

lemma next_month_start:
  assumes "1 \<le> m" "m \<le> 12" "next_month y m = (y', m')"
  shows "days_from_civil y' m' 1 = days_from_civil y m 1 + days_in_month y m"
proof -
  let ?last = "days_from_civil y m 1 + days_in_month y m - 1"
  have "civil_from_days ?last = (y, m, days_in_month y m)"
    using civil_walk [OF assms(1,2), of "nat (days_in_month y m - 1)" y] days_in_month_pos [of y m] by (simp add: add_diff_eq)
  then have "civil_from_days (?last + 1) = next_date (y, m, days_in_month y m)" using civil_of_next_day [of ?last] by simp
  also have "\<dots> = (y', m', 1)" using assms by (auto simp: next_date_def next_month_def split: if_splits)
  finally show ?thesis using civil_date(1) [of "?last + 1"] by simp
qed

lemma month_range:
  assumes "1 \<le> m" "m \<le> 12" "next_month y m = (y', m')"
  shows "(\<exists>d. civil_from_days z = (y, m, d)) \<longleftrightarrow> days_from_civil y m 1 \<le> z \<and> z < days_from_civil y' m' 1"
proof
  assume "\<exists>d. civil_from_days z = (y, m, d)"
  then obtain d where "civil_from_days z = (y, m, d)" by blast
  from civil_date [OF this] next_month_start [OF assms] days_from_civil_day [of y m d]
  show "days_from_civil y m 1 \<le> z \<and> z < days_from_civil y' m' 1" by linarith
next
  assume z: "days_from_civil y m 1 \<le> z \<and> z < days_from_civil y' m' 1"
  then show "\<exists>d. civil_from_days z = (y, m, d)"
    using civil_walk [OF assms(1,2), of "nat (z - days_from_civil y m 1)" y] next_month_start [OF assms] by auto
qed

text \<open>
  Claim C30: The day arithmetic is the calendar. Day 0 is 1 January 1970, and \<^verbatim>\<open>civil_from_days\<close> of the next day is the
  next date, by the lengths of the months and the rule of leap years, for every day before and after; its
  results are dates that exist, and \<^verbatim>\<open>days_from_civil\<close> turns each back into the day it came from.
\<close>

theorem day_arithmetic_is_the_calendar:
  "civil_from_days 0 = (1970, 1, 1) \<and> civil_from_days (z + 1) = next_date (civil_from_days z) \<and>
   (case civil_from_days z of (y, m, d) \<Rightarrow>
      days_from_civil y m d = z \<and> 1 \<le> m \<and> m \<le> 12 \<and> 1 \<le> d \<and> d \<le> days_in_month y m)"
  using civil_of_next_day [of z] by (auto, code_simp)

end
