(* ===== verification/CleanupGroups.thy ===== *)
theory CleanupGroups
  imports Store Numbers Calendar
begin

text \<open>
  Clean Up's groups (\<^verbatim>\<open>mail-store/src/cleanup.rs\<close>): the messages of a scope grouped by sender, subject, list, time,
  category or size, and the messages that the keys of groups select. A grouping query counts the rows with each
  value of its columns; a selection is a condition on a row. SQLite's \<^verbatim>\<open>lower\<close> and \<^verbatim>\<open>NOCASE\<close> change ASCII letters only.
\<close>

section \<open>Queries\<close>

datatype cleanup_view = CvSender | CvPeople | CvSubject | CvMailingList | CvTime | CvSocial | CvPromotions | CvSize

datatype cleanup_scope = ScInbox | ScAllMail

record cleanup_query =
  cq_view :: cleanup_view
  cq_scope :: cleanup_scope
  cq_now :: millis
  cq_offset :: int

record cleanup_group =
  cg_key :: string
  cg_title :: string
  cg_aka :: "string list"
  cg_detail :: "string option"
  cg_count :: nat
  cg_unsubscribed :: bool

definition MAX_AKA :: nat where "MAX_AKA = 5"
definition SENDERS_SHOWN :: nat where "SENDERS_SHOWN = 3"
definition SOCIAL :: label_id where "SOCIAL = ''CATEGORY_SOCIAL''"
definition PROMOTIONS :: label_id where "PROMOTIONS = ''CATEGORY_PROMOTIONS''"
definition DAY_MS :: int where "DAY_MS = 86400000"
definition I64_MAX :: int where "I64_MAX = 9223372036854775807"

definition SIZE_BUCKETS :: "(string \<times> string \<times> int \<times> string) list" where
  "SIZE_BUCKETS =
     [(''tiny'', ''Tiny'', 0, ''Less than 1 KB''), (''small'', ''Small'', 1000, ''1 KB to 10 KB''),
      (''medium'', ''Medium'', 10000, ''10 KB to 100 KB''), (''large'', ''Large'', 100000, ''100 KB to 1 MB''),
      (''extra_large'', ''Extra Large'', 1000000, ''1 MB to 10 MB''), (''jumbo'', ''Jumbo'', 10000000, ''More than 10 MB'')]"

text \<open>The scope; a local copy of sent mail is in none.\<close>

definition in_scope :: "cleanup_scope \<Rightarrow> message_row \<Rightarrow> bool" where
  "in_scope sc r \<longleftrightarrow>
     (case sc of
        ScInbox \<Rightarrow> INBOX \<in> set (m_labels r)
      | ScAllMail \<Rightarrow> SPAM \<notin> set (m_labels r) \<and> TRASH \<notin> set (m_labels r) \<and> DRAFT \<notin> set (m_labels r)) \<and>
     \<not> (LOCAL_PREFIX \<le> m_gmail_id r \<and> m_gmail_id r < ''local.'')"

definition from_of :: "message_row \<Rightarrow> string option" where "from_of r = mh_from_email (m_head r)"

text \<open>What follows the first at sign, or the whole address.\<close>

definition email_domain :: "string \<Rightarrow> string" where
  "email_domain e = to_ascii_lowercase (case split_once (CHR ''@'') e of Some (a, d) \<Rightarrow> d | None \<Rightarrow> e)"

definition has_written_to :: "mail_store \<Rightarrow> string \<Rightarrow> bool" where
  "has_written_to m e = list_ex (\<lambda>c. eq_nocase (c_email c) e \<and> 0 < c_sent_count c) (contacts m)"

section \<open>Times and sizes\<close>

record day_bounds =
  db_today :: int
  db_yesterday :: int
  db_this_week :: int
  db_last_week :: int

definition days_of :: "cleanup_query \<Rightarrow> day_bounds" where
  "days_of q =
     (let offset = cq_offset q * 1000;
          day = (cq_now q + offset) div DAY_MS;
          today = day * DAY_MS - offset;
          this_week = today - (day + 3) mod 7 * DAY_MS
      in \<lparr>db_today = today, db_yesterday = today - DAY_MS, db_this_week = this_week, db_last_week = this_week - 7 * DAY_MS\<rparr>)"

definition month_range_of :: "cleanup_query \<Rightarrow> day_bounds \<Rightarrow> string \<Rightarrow> (int \<times> int) option" where
  "month_range_of q b key =
     (case split_once (CHR ''-'') key of
        None \<Rightarrow> None
      | Some (ys, ms) \<Rightarrow>
          (case (parse_i64 ys, parse_i64 ms) of
             (Some y, Some m) \<Rightarrow>
               if m < 1 \<or> 12 < m then None
               else (let (y2, m2) = next_month y m;
                         offset = cq_offset q * 1000
                     in Some (days_from_civil y m 1 * DAY_MS - offset,
                              min (days_from_civil y2 m2 1 * DAY_MS - offset) (db_last_week b)))
           | _ \<Rightarrow> None))"

definition time_range :: "cleanup_query \<Rightarrow> string \<Rightarrow> (int \<times> int) option" where
  "time_range q key =
     (let b = days_of q
      in if key = ''today'' then Some (db_today b, I64_MAX)
         else if key = ''yesterday'' then Some (db_yesterday b, db_today b)
         else if key = ''this_week'' then Some (db_this_week b, db_yesterday b)
         else if key = ''last_week'' then Some (db_last_week b, min (db_this_week b) (db_yesterday b))
         else month_range_of q b key)"

fun size_range_in :: "(string \<times> string \<times> int \<times> string) list \<Rightarrow> string \<Rightarrow> (int \<times> int) option" where
  "size_range_in [] key = None"
| "size_range_in ((k, t, low, d) # bs) key =
     (if k = key then Some (low, case bs of (k2, t2, high, d2) # _ \<Rightarrow> high | [] \<Rightarrow> I64_MAX) else size_range_in bs key)"

definition in_ranges :: "int \<Rightarrow> (int \<times> int) list \<Rightarrow> bool" where
  "in_ranges x rs = list_ex (\<lambda>(a, b). a < b \<and> a \<le> x \<and> x < b) rs"

section \<open>Selections\<close>

definition keyed :: "string option \<Rightarrow> string list \<Rightarrow> bool" where
  "keyed c keys = (case c of Some v \<Rightarrow> v \<in> set keys | None \<Rightarrow> False)"

definition keyed_nocase :: "string option \<Rightarrow> string list \<Rightarrow> bool" where
  "keyed_nocase c keys = (case c of Some v \<Rightarrow> list_ex (eq_nocase v) keys | None \<Rightarrow> False)"

definition written_to :: "mail_store \<Rightarrow> message_row \<Rightarrow> bool" where
  "written_to m r = (case from_of r of Some e \<Rightarrow> has_written_to m e | None \<Rightarrow> False)"

definition in_groups :: "mail_store \<Rightarrow> cleanup_query \<Rightarrow> string list \<Rightarrow> message_row \<Rightarrow> bool" where
  "in_groups m q keys r =
     (case cq_view q of
        CvSender \<Rightarrow> keyed_nocase (from_of r) keys
      | CvPeople \<Rightarrow> keyed_nocase (from_of r) keys \<and> written_to m r
      | CvSubject \<Rightarrow> mh_subject (m_head r) \<in> set keys
      | CvMailingList \<Rightarrow> keyed (lh_id (mh_list (m_head r))) keys
      | CvSocial \<Rightarrow> SOCIAL \<in> set (m_labels r) \<and> keyed (map_option email_domain (from_of r)) keys
      | CvPromotions \<Rightarrow> PROMOTIONS \<in> set (m_labels r) \<and> keyed (map_option email_domain (from_of r)) keys
      | CvTime \<Rightarrow> in_ranges (mh_date (m_head r)) (List.map_filter (time_range q) keys)
      | CvSize \<Rightarrow> in_ranges (int (mh_size_estimate (m_head r))) (List.map_filter (size_range_in SIZE_BUCKETS) keys))"

definition selected :: "mail_store \<Rightarrow> cleanup_query \<Rightarrow> string list \<Rightarrow> message_row \<Rightarrow> bool" where
  "selected m q keys r \<longleftrightarrow> in_scope (cq_scope q) r \<and> in_groups m q keys r"

definition cleanup_count :: "mail_store \<Rightarrow> cleanup_query \<Rightarrow> string list \<Rightarrow> nat" where
  "cleanup_count m q keys = sql_count (selected m q keys) (messages m)"

definition cleanup_message_ids :: "mail_store \<Rightarrow> cleanup_query \<Rightarrow> string list \<Rightarrow> message_id list" where
  "cleanup_message_ids m q keys = map m_gmail_id (filter (selected m q keys) (messages m))"

text \<open>A page of the selected messages, newest first.\<close>

definition cleanup_messages :: "mail_store \<Rightarrow> cleanup_query \<Rightarrow> string list \<Rightarrow> nat \<Rightarrow> nat \<Rightarrow> message_row list" where
  "cleanup_messages m q keys offset limit =
     take limit (drop offset (sort_key (\<lambda>r. (- mh_date (m_head r), - m_id r)) (filter (selected m q keys) (messages m))))"

section \<open>Unsubscribed groups\<close>

datatype unsubscribe_kind = UkList | UkSender

fun unsubscribe_kind_of :: "cleanup_view \<Rightarrow> unsubscribe_kind option" where
  "unsubscribe_kind_of CvMailingList = Some UkList"
| "unsubscribe_kind_of CvSender = Some UkSender"
| "unsubscribe_kind_of CvPeople = Some UkSender"
| "unsubscribe_kind_of _ = None"

fun unsubscribe_identity :: "unsubscribe_kind \<Rightarrow> string \<Rightarrow> string" where
  "unsubscribe_identity UkList key = ''list:'' @ to_lowercase key"
| "unsubscribe_identity UkSender key = ''from:'' @ to_lowercase key"

definition UNSUBSCRIBED_PREFIX :: string where "UNSUBSCRIBED_PREFIX = ''unsubscribed:''"

definition record_unsubscribed :: "string list \<Rightarrow> millis \<Rightarrow> (string \<rightharpoonup> string) \<Rightarrow> string \<rightharpoonup> string" where
  "record_unsubscribed ids at meta = foldl (\<lambda>m i. m(UNSUBSCRIBED_PREFIX @ i \<mapsto> show_int at)) meta ids"

definition unsubscribed :: "(string \<rightharpoonup> string) \<Rightarrow> string \<Rightarrow> bool" where
  "unsubscribed meta i \<longleftrightarrow> meta (UNSUBSCRIBED_PREFIX @ i) \<noteq> None"

section \<open>Groups\<close>

text \<open>\<^verbatim>\<open>SELECT key, COUNT(*) ... GROUP BY key\<close>.\<close>

definition sql_groups :: "('r \<Rightarrow> 'k) \<Rightarrow> 'r list \<Rightarrow> ('k \<times> nat) list" where
  "sql_groups key rows = map (\<lambda>k. (k, sql_count (\<lambda>r. key r = k) rows)) (remdups (map key rows))"

text \<open>\<^verbatim>\<open>entry(k).or_insert(d)\<close>, changed by \<open>f\<close>.\<close>

fun btree_entry :: "'k::linorder \<Rightarrow> 'v \<Rightarrow> ('v \<Rightarrow> 'v) \<Rightarrow> ('k \<times> 'v) list \<Rightarrow> ('k \<times> 'v) list" where
  "btree_entry k d f [] = [(k, f d)]"
| "btree_entry k d f ((k', v) # es) =
     (if k < k' then (k, f d) # (k', v) # es
      else if k = k' then (k, f v) # es
      else (k', v) # btree_entry k d f es)"

definition used_name :: "string option \<Rightarrow> string option" where
  "used_name n = (case n of Some s \<Rightarrow> if trim s = [] then None else Some (trim s) | None \<Rightarrow> None)"

definition add_named ::
    "(string \<times> nat \<times> (string \<times> nat) list) list \<Rightarrow> (string \<times> string option) \<times> nat \<Rightarrow> (string \<times> nat \<times> (string \<times> nat) list) list" where
  "add_named es = (\<lambda>((key, name), n).
     btree_entry key (0, [])
       (\<lambda>(c, names). (c + n, case used_name name of Some s \<Rightarrow> btree_entry s 0 (\<lambda>x. x + n) names | None \<Rightarrow> names)) es)"

datatype titled = ByName | ByKey

definition senders_line :: "string list \<Rightarrow> string option" where
  "senders_line names =
     (let shown = join_with '', '' (take SENDERS_SHOWN names); n = length names
      in if n = 0 then None
         else if n \<le> SENDERS_SHOWN then Some shown
         else Some (shown @ '' and '' @ show_nat (n - SENDERS_SHOWN) @ '' more''))"

definition named_group :: "titled \<Rightarrow> string \<times> nat \<times> (string \<times> nat) list \<Rightarrow> cleanup_group" where
  "named_group titled = (\<lambda>(key, count, uses).
     let names = map fst (sort_key (\<lambda>(n, c). (- int c, n)) uses)
     in case titled of
          ByName \<Rightarrow> \<lparr>cg_key = key, cg_title = (case names of n # _ \<Rightarrow> n | [] \<Rightarrow> key), cg_aka = take MAX_AKA (tl names),
                      cg_detail = Some key, cg_count = count, cg_unsubscribed = False\<rparr>
        | ByKey \<Rightarrow> \<lparr>cg_key = key, cg_title = key, cg_aka = [], cg_detail = senders_line names, cg_count = count,
                     cg_unsubscribed = False\<rparr>)"

definition named :: "titled \<Rightarrow> ((string \<times> string option) \<times> nat) list \<Rightarrow> cleanup_group list" where
  "named titled rows = map (named_group titled) (foldl add_named [] rows)"

definition plain_group :: "string \<Rightarrow> string \<Rightarrow> nat \<Rightarrow> cleanup_group" where
  "plain_group key title n =
     \<lparr>cg_key = key, cg_title = title, cg_aka = [], cg_detail = None, cg_count = n, cg_unsubscribed = False\<rparr>"

definition subject_group :: "string \<times> nat \<Rightarrow> cleanup_group" where
  "subject_group = (\<lambda>(s, n). plain_group s (if trim s = [] then ''(no subject)'' else s) n)"

text \<open>Integer division of SQL, and \<^verbatim>\<open>strftime('%Y-%m', ..., 'unixepoch')\<close>, which is NULL outside the years 0 to 9999.\<close>

definition sql_div :: "int \<Rightarrow> int \<Rightarrow> int" where
  "sql_div a b = (if 0 \<le> a then a div b else - (- a div b))"

definition month_key :: "int \<Rightarrow> string option" where
  "month_key secs =
     (case civil_from_days (secs div 86400) of (y, m, d) \<Rightarrow>
        if 0 \<le> y \<and> y \<le> 9999 then Some (show_padded 4 y @ ''-'' @ show_padded 2 m) else None)"

definition time_key :: "cleanup_query \<Rightarrow> int \<Rightarrow> string option" where
  "time_key q at =
     (let b = days_of q
      in if db_today b \<le> at then Some ''today''
         else if db_yesterday b \<le> at then Some ''yesterday''
         else if db_this_week b \<le> at then Some ''this_week''
         else if db_last_week b \<le> at then Some ''last_week''
         else month_key (sql_div at 1000 + cq_offset q))"

definition FIXED_TIMES :: "(string \<times> string) list" where
  "FIXED_TIMES = [(''today'', ''Today''), (''yesterday'', ''Yesterday''), (''this_week'', ''This Week''), (''last_week'', ''Last Week'')]"

definition MONTHS :: "string list" where
  "MONTHS = [''January'', ''February'', ''March'', ''April'', ''May'', ''June'', ''July'', ''August'', ''September'',
             ''October'', ''November'', ''December'']"

definition month_title :: "string \<Rightarrow> string" where
  "month_title key =
     (case split_once (CHR ''-'') key of
        Some (y, ms) \<Rightarrow>
          (case parse_digits (case ms of c # cs \<Rightarrow> if c = CHR ''+'' then cs else ms | [] \<Rightarrow> []) of
             Some m \<Rightarrow> if 1 \<le> m \<and> m \<le> 12 then MONTHS ! (m - 1) @ '' '' @ y else key
           | None \<Rightarrow> key)
      | None \<Rightarrow> key)"

definition time_groups :: "cleanup_query \<Rightarrow> message_row list \<Rightarrow> (store_error, cleanup_group list) result" where
  "time_groups q rows =
     (let keys = map (\<lambda>r. time_key q (mh_date (m_head r))) rows
      in if None \<in> set keys then Err (Sqlite ''Invalid column type Null at index: 0, name: k'')
         else (let counts = sql_groups id (map the keys);
                   fixed = List.map_filter (\<lambda>(k, t). map_option (plain_group k t) (map_of counts k)) FIXED_TIMES;
                   months = rev (sort_key fst (filter (\<lambda>(k, n). k \<notin> fst ` set FIXED_TIMES) counts))
               in Ok (fixed @ map (\<lambda>(k, n). plain_group k (month_title k) n) months)))"

definition size_bucket :: "int \<Rightarrow> nat" where
  "size_bucket n =
     (case List.find (\<lambda>(i, k, t, low, d). low \<le> n) (rev (enumerate 0 SIZE_BUCKETS)) of Some (i, b) \<Rightarrow> i | None \<Rightarrow> 0)"

definition size_group :: "nat \<times> nat \<Rightarrow> cleanup_group" where
  "size_group = (\<lambda>(b, n). case SIZE_BUCKETS ! min b 5 of (key, title, low, span) \<Rightarrow> (plain_group key title n)\<lparr>cg_detail := Some span\<rparr>)"

definition size_groups :: "message_row list \<Rightarrow> cleanup_group list" where
  "size_groups rows = map size_group (sort_key fst (sql_groups (\<lambda>r. size_bucket (int (mh_size_estimate (m_head r)))) rows))"

definition sender_rows :: "message_row list \<Rightarrow> message_row list" where
  "sender_rows rows = filter (\<lambda>r. from_of r \<noteq> None \<and> from_of r \<noteq> Some []) rows"

definition by_sender :: "message_row \<Rightarrow> string \<times> string option" where
  "by_sender r = (to_ascii_lowercase (the (from_of r)), mh_from_name (m_head r))"

definition by_list :: "message_row \<Rightarrow> string \<times> string option" where
  "by_list r = (the (lh_id (mh_list (m_head r))), lh_name (mh_list (m_head r)))"

definition by_domain :: "message_row \<Rightarrow> string \<times> string option" where
  "by_domain r = (email_domain (the (from_of r)), mh_from_name (m_head r))"

definition category_rows :: "label_id \<Rightarrow> message_row list \<Rightarrow> message_row list" where
  "category_rows l rows = filter (\<lambda>r. l \<in> set (m_labels r) \<and> (case from_of r of Some e \<Rightarrow> CHR ''@'' \<in> set e | None \<Rightarrow> False)) rows"

definition groups_of_view :: "mail_store \<Rightarrow> cleanup_query \<Rightarrow> (store_error, cleanup_group list) result" where
  "groups_of_view m q =
     (let rows = filter (in_scope (cq_scope q)) (messages m)
      in case cq_view q of
           CvSender \<Rightarrow> Ok (named ByName (sql_groups by_sender (sender_rows rows)))
         | CvPeople \<Rightarrow> Ok (named ByName (sql_groups by_sender (filter (written_to m) (sender_rows rows))))
         | CvMailingList \<Rightarrow> Ok (named ByName (sql_groups by_list (filter (\<lambda>r. lh_id (mh_list (m_head r)) \<noteq> None) rows)))
         | CvSocial \<Rightarrow> Ok (named ByKey (sql_groups by_domain (category_rows SOCIAL rows)))
         | CvPromotions \<Rightarrow> Ok (named ByKey (sql_groups by_domain (category_rows PROMOTIONS rows)))
         | CvSubject \<Rightarrow> Ok (map subject_group (sql_groups (\<lambda>r. mh_subject (m_head r)) rows))
         | CvTime \<Rightarrow> time_groups q rows
         | CvSize \<Rightarrow> Ok (size_groups rows))"

definition order_groups :: "cleanup_view \<Rightarrow> cleanup_group list \<Rightarrow> cleanup_group list" where
  "order_groups view gs =
     (if view \<in> {CvTime, CvSize} then gs else sort_key (\<lambda>g. (- int (cg_count g), to_lowercase (cg_title g), cg_key g)) gs)"

definition mark_unsubscribed :: "cleanup_view \<Rightarrow> (string \<rightharpoonup> string) \<Rightarrow> cleanup_group \<Rightarrow> cleanup_group" where
  "mark_unsubscribed view meta g =
     (case unsubscribe_kind_of view of
        Some kind \<Rightarrow> g\<lparr>cg_unsubscribed := unsubscribed meta (unsubscribe_identity kind (cg_key g))\<rparr>
      | None \<Rightarrow> g)"

definition group_hit :: "string \<Rightarrow> cleanup_group \<Rightarrow> bool" where
  "group_hit needle g \<longleftrightarrow>
     list_ex (\<lambda>s. sublist needle (to_lowercase s))
       ([cg_title g, cg_key g] @ (case cg_detail g of Some d \<Rightarrow> [d] | None \<Rightarrow> []) @ cg_aka g)"

definition cleanup_groups ::
    "mail_store \<Rightarrow> (string \<rightharpoonup> string) \<Rightarrow> cleanup_query \<Rightarrow> string \<Rightarrow> (store_error, cleanup_group list) result" where
  "cleanup_groups m meta q filtered =
     (case groups_of_view m q of
        Inl e \<Rightarrow> Err e
      | Inr gs \<Rightarrow>
          let gs1 = map (mark_unsubscribed (cq_view q) meta) (order_groups (cq_view q) gs);
              needle = to_lowercase (trim filtered)
          in Ok (if needle = [] then gs1 else filter (group_hit needle) gs1))"


end
