(* ===== verification/Undo.thy ===== *)
theory Undo
  imports Outbox CleanupGroups
begin

text \<open>
  Local changes and their undo: \<^verbatim>\<open>crates/mail-store/src/undo.rs\<close> and the first half of
  \<^verbatim>\<open>crates/mail-sync/src/outbox.rs\<close>. A change is applied to the store, queued for the provider and
  recorded per message in one transaction; undoing it replays the inverse diffs.
\<close>

section \<open>Undo records\<close>

definition KEEP :: int where "KEEP = 50"
definition BATCH :: nat where "BATCH = 1000"

definition inverse_diff :: "message_diff \<Rightarrow> message_diff" where
  "inverse_diff d = \<lparr>md_message = md_message d, md_added = md_removed d, md_removed = md_added d\<rparr>"

definition record_undo :: "account_db \<Rightarrow> string \<Rightarrow> message_diff list \<Rightarrow> account_db \<times> int" where
  "record_undo db kind diffs =
     (let i = db_undo_seq db + 1;
          rows = db_undo db @ [\<lparr>ua_id = i, ua_kind = kind, ua_diffs = diffs\<rparr>]
      in (db\<lparr>db_undo := sql_delete (\<lambda>r. ua_id r \<le> i - KEEP) rows, db_undo_seq := i\<rparr>, i))"

definition get_undo :: "account_db \<Rightarrow> int \<Rightarrow> undo_action option" where
  "get_undo db i = List.find (\<lambda>r. ua_id r = i) (db_undo db)"

definition diff_changes :: "message_diff \<Rightarrow> bool" where
  "diff_changes d \<longleftrightarrow> md_added d \<noteq> [] \<or> md_removed d \<noteq> []"

definition diff_groups :: "message_diff list \<Rightarrow> ((label_id list \<times> label_id list) \<times> message_id list) list" where
  "diff_groups diffs =
     foldl (\<lambda>es d. btree_push (md_added d, md_removed d) (md_message d) es) [] (filter diff_changes diffs)"

definition group_ops :: "mail_store \<Rightarrow> (label_id list \<times> label_id list) \<times> message_id list \<Rightarrow> outbox_op list" where
  "group_ops m grp =
     (let ((add0, remove0), ids) = grp;
          untrash = TRASH \<in> set remove0;
          remove1 = (if untrash then filter (\<lambda>l. l \<noteq> TRASH) remove0 else remove0);
          trash = TRASH \<in> set add0;
          add2 = (if trash then filter (\<lambda>l. l \<noteq> TRASH) add0 else add0);
          remove2 = (if trash then filter (\<lambda>l. l \<noteq> INBOX) remove1 else remove1)
      in (if untrash then [OpUntrash ids] else []) @
         (if trash then [OpTrash ids (map (\<lambda>g. (g, current_labels m g)) ids)] else []) @
         (if add2 \<noteq> [] \<or> remove2 \<noteq> [] then [OpModifyLabels ids add2 remove2] else []))"

definition provider_ops :: "mail_store \<Rightarrow> message_diff list \<Rightarrow> outbox_op list" where
  "provider_ops m diffs = concat (map (group_ops m) (diff_groups diffs))"

definition batched_ops :: "message_diff list \<Rightarrow> outbox_op list" where
  "batched_ops diffs =
     concat (map (\<lambda>((add, remove), ids). map (\<lambda>c. OpModifyLabels c add remove) (chunks BATCH ids)) (diff_groups diffs))"

section \<open>Clean Up\<close>

text \<open>
  The labels a clean-up adds to and removes from one message; none when it is as wanted, or when mail of the
  user's own would be marked as spam.
\<close>

definition clean_diff :: "label_id list \<Rightarrow> label_id list \<Rightarrow> message_id \<Rightarrow> label_id list \<Rightarrow> message_diff option" where
  "clean_diff add remove g before =
     (let added = filter (\<lambda>l. l \<notin> set before) add;
          removed = filter (\<lambda>l. l \<in> set before \<and> l \<notin> set add) remove
      in if SPAM \<in> set add \<and> SENT \<in> set before then None
         else if added = [] \<and> removed = [] then None
         else Some \<lparr>md_message = g, md_added = added, md_removed = removed\<rparr>)"

fun cleanup_each ::
    "label_id list \<Rightarrow> label_id list \<Rightarrow> mail_writer \<Rightarrow> message_id list \<Rightarrow> (store_error, mail_writer \<times> message_diff list) result" where
  "cleanup_each add remove w [] = Ok (w, [])"
| "cleanup_each add remove w (g # gs) =
     (case clean_diff add remove g (current_labels (w_db w) g) of
        None \<Rightarrow> cleanup_each add remove w gs
      | Some d \<Rightarrow>
          (case modify_message_labels w g (md_added d) (md_removed d) of
             Inl e \<Rightarrow> Err e
           | Inr (w', found) \<Rightarrow> map_sum id (\<lambda>(w'', ds). (w'', d # ds)) (cleanup_each add remove w' gs)))"

text \<open>The ops to queue are label changes in batches, Trash included.\<close>

definition cleanup_apply ::
    "mail_store \<Rightarrow> cleanup_query \<Rightarrow> string list \<Rightarrow> label_id list \<Rightarrow> label_id list \<Rightarrow>
       (store_error, mail_store \<times> outbox_op list \<times> message_diff list \<times> thread_changes) result" where
  "cleanup_apply m q keys add remove =
     (case cleanup_each add remove (writer_new m) (cleanup_message_ids m q keys) of
        Inl e \<Rightarrow> Err e
      | Inr (w, ds) \<Rightarrow> map_sum id (\<lambda>(m', ch). (m', batched_ops ds, ds, ch)) (finish w))"

section \<open>Local changes\<close>

datatype local_change =
    ChangeLabels "thread_id list" "label_id list" "label_id list"
  | ChangeTrash "thread_id list"
  | ChangeExact "message_diff list" bool
  | ChangeCleanup cleanup_query "string list" "label_id list" "label_id list"

definition archive :: "thread_id list \<Rightarrow> local_change" where "archive ts = ChangeLabels ts [] [INBOX]"
definition move_to_inbox :: "thread_id list \<Rightarrow> local_change" where "move_to_inbox ts = ChangeLabels ts [INBOX] []"
definition mark_junk :: "thread_id list \<Rightarrow> local_change" where "mark_junk ts = ChangeLabels ts [SPAM] [INBOX]"
definition not_junk :: "thread_id list \<Rightarrow> local_change" where "not_junk ts = ChangeLabels ts [INBOX] [SPAM]"

definition set_read :: "thread_id list \<Rightarrow> bool \<Rightarrow> local_change" where
  "set_read ts read = (if read then ChangeLabels ts [] [UNREAD] else ChangeLabels ts [UNREAD] [])"

definition set_starred :: "thread_id list \<Rightarrow> bool \<Rightarrow> local_change" where
  "set_starred ts starred = (if starred then ChangeLabels ts [STARRED] [] else ChangeLabels ts [] [STARRED])"

record applied_change =
  ac_changes :: thread_changes
  ac_action :: "int option"
  ac_messages :: nat

definition diff_for :: "message_id \<Rightarrow> label_id list \<Rightarrow> label_id list \<Rightarrow> label_id list \<Rightarrow> message_diff" where
  "diff_for g before add remove =
     \<lparr>md_message = g, md_added = filter (\<lambda>l. l \<notin> set before) add, md_removed = filter (\<lambda>l. l \<in> set before) remove\<rparr>"

text \<open>The loop over recorded diffs: a message gone since is skipped.\<close>

fun apply_exact :: "mail_writer \<Rightarrow> message_diff list \<Rightarrow> (store_error, mail_writer \<times> message_diff list) result" where
  "apply_exact w [] = Ok (w, [])"
| "apply_exact w (d # ds) =
     (case modify_message_labels w (md_message d) (md_added d) (md_removed d) of
        Inl e \<Rightarrow> Err e
      | Inr (w', found) \<Rightarrow>
          (case apply_exact w' ds of
             Inl e \<Rightarrow> Err e
           | Inr (w'', ds') \<Rightarrow> Ok (w'', if found then d # ds' else ds')))"

definition keep_ids :: "message_id set \<Rightarrow> message_id list \<Rightarrow> message_id list" where
  "keep_ids kept ids = filter (\<lambda>g. g \<in> kept) ids"

fun retain_messages :: "message_id set \<Rightarrow> outbox_op \<Rightarrow> outbox_op option" where
  "retain_messages kept (OpModifyLabels ids add remove) =
     (if keep_ids kept ids = [] then None else Some (OpModifyLabels (keep_ids kept ids) add remove))"
| "retain_messages kept (OpUntrash ids) =
     (if keep_ids kept ids = [] then None else Some (OpUntrash (keep_ids kept ids)))"
| "retain_messages kept (OpTrash ids previous) =
     (if keep_ids kept ids = [] then None
      else Some (OpTrash (keep_ids kept ids) (filter (\<lambda>(g, ls). g \<in> kept) previous)))"
| "retain_messages kept op = Some op"

text \<open>The store part of a change: the ops to queue, the diffs to record, what the views show.\<close>

definition change_store ::
    "mail_store \<Rightarrow> local_change \<Rightarrow> (store_error, mail_store \<times> outbox_op list \<times> message_diff list \<times> thread_changes) result" where
  "change_store m change =
     (case change of
        ChangeLabels ts add remove \<Rightarrow>
          let affected = affected_messages m ts add remove
          in (case modify_each (\<lambda>w (g, b). modify_message_labels w g add remove) (writer_new m) affected of
                Inl e \<Rightarrow> Err e
              | Inr w \<Rightarrow>
                  map_sum id (\<lambda>(m', ch). (m',
                      if affected \<noteq> [] then [OpModifyLabels (map fst affected) add remove] else [],
                      map (\<lambda>(g, before). diff_for g before add remove) affected, ch)) (finish w))
      | ChangeTrash ts \<Rightarrow>
          let affected = affected_messages m ts [TRASH] []
          in (case modify_each (\<lambda>w (g, b). modify_message_labels w g [TRASH] [INBOX]) (writer_new m) affected of
                Inl e \<Rightarrow> Err e
              | Inr w \<Rightarrow>
                  map_sum id (\<lambda>(m', ch). (m',
                      if affected \<noteq> [] then [OpTrash (map fst affected) affected] else [],
                      map (\<lambda>(g, before). diff_for g before [TRASH] [INBOX]) affected, ch)) (finish w))
      | ChangeExact diffs batched \<Rightarrow>
          let ops = (if batched then batched_ops diffs else provider_ops m diffs)
          in (case apply_exact (writer_new m) diffs of
                Inl e \<Rightarrow> Err e
              | Inr (w, applied) \<Rightarrow>
                  map_sum id (\<lambda>(m', ch). (m',
                      List.map_filter (retain_messages (md_message ` set applied)) ops, applied, ch)) (finish w))
      | ChangeCleanup q keys add remove \<Rightarrow> cleanup_apply m q keys add remove)"

definition apply_local_change_recorded ::
    "account_db \<Rightarrow> local_change \<Rightarrow> bool \<Rightarrow> string option \<Rightarrow> millis \<Rightarrow> (store_error, account_db \<times> applied_change) result" where
  "apply_local_change_recorded db change queue record_as now =
     (case change_store (db_mail db) change of
        Inl e \<Rightarrow> Err e
      | Inr (m, ops, diffs, ch) \<Rightarrow>
          let db1 = db\<lparr>db_mail := m\<rparr>;
              db2 = (if queue then foldl (\<lambda>d p. fst (enqueue d p now)) db1 ops else db1);
              n = length (filter diff_changes diffs)
          in (case record_as of
                Some kind \<Rightarrow>
                  if n > 0 then
                    let (db3, i) = record_undo db2 kind diffs
                    in Ok (db3, \<lparr>ac_changes = ch, ac_action = Some i, ac_messages = n\<rparr>)
                  else Ok (db2, \<lparr>ac_changes = ch, ac_action = None, ac_messages = n\<rparr>)
              | None \<Rightarrow> Ok (db2, \<lparr>ac_changes = ch, ac_action = None, ac_messages = n\<rparr>)))"

section \<open>What a label change does to the messages\<close>

text \<open>The abstract view of the store: the labels of each message.\<close>

definition label_sets :: "mail_store \<Rightarrow> message_id \<Rightarrow> label_id set option" where
  "label_sets m g = map_option (\<lambda>r. set (m_labels r)) (find_message m g)"

definition relabel :: "label_id list \<Rightarrow> label_id list \<Rightarrow> label_id set \<Rightarrow> label_id set" where
  "relabel add remove S = (S - set remove) \<union> set add"

lemma insert_message_labels_set:
  "insert_message_labels rows acc ls = Ok (rows', acc') \<Longrightarrow> set acc' = set acc \<union> set ls"
  by (induction rows acc ls rule: insert_message_labels.induct) (auto split: if_splits)

lemma set_changed_labels: "set (changed_labels ls add remove) = relabel add remove (set ls)"
  by (auto simp: changed_labels_def relabel_def)

lemma find_message_update:
  assumes "distinct (map m_id rows)" "distinct (map m_gmail_id rows)" "m \<in> set rows"
    and "\<And>r. m_gmail_id (f r) = m_gmail_id r"
  shows "List.find (\<lambda>r. m_gmail_id r = x) (sql_update (\<lambda>r. m_id r = m_id m) f rows) =
    (if x = m_gmail_id m then Some (f m) else List.find (\<lambda>r. m_gmail_id r = x) rows)"
  using assms(1-3)
proof (induction rows)
  case (Cons r rows)
  have upd: "sql_update p f (a # rows) = (if p a then f a else a) # sql_update p f rows" for p f a
    by (simp add: sql_update_def)
  show ?case
  proof (cases "r = m")
    case True
    then have "sql_update (\<lambda>r. m_id r = m_id m) f rows = rows"
      using Cons.prems(1) by (intro sql_update_none) (auto, metis image_eqI)
    with True show ?thesis by (simp add: upd assms(4))
  next
    case False
    with Cons.prems(3) have m: "m \<in> set rows" by simp
    have "m_id m \<in> m_id ` set rows" "m_gmail_id m \<in> m_gmail_id ` set rows" using m by blast+
    with Cons.prems(1,2) have "m_id r \<noteq> m_id m" "m_gmail_id r \<noteq> m_gmail_id m" by auto
    with m Cons show ?thesis by (cases "x = m_gmail_id m") (simp_all add: upd)
  qed
qed simp

lemma modify_refines:
  assumes s: "struct_ok (w_db w)" and run: "modify_message_labels w g add remove = Ok (w', found)"
  shows "found = (label_sets (w_db w) g \<noteq> None) \<and>
    label_sets (w_db w') = (label_sets (w_db w))(g := map_option (relabel add remove) (label_sets (w_db w) g))"
proof (cases "find_message (w_db w) g")
  case None
  with run have "w' = w" "\<not> found" by (simp_all add: modify_message_labels_def)
  with None show ?thesis by (auto simp: label_sets_def fun_eq_iff)
next
  case (Some m)
  let ?ls = "changed_labels (m_labels m) add remove"
  note m = find_message_in [OF Some]
  from run Some obtain rows acc where ins: "insert_message_labels (labels (w_db w)) [] ?ls = Ok (rows, acc)"
    by (cases "insert_message_labels (labels (w_db w)) [] ?ls")
      (auto simp: modify_message_labels_def replace_message_labels_def Let_def)
  let ?f = "\<lambda>r. label_flags ?ls (r\<lparr>m_labels := acc\<rparr>)"
  have "found \<and> w' = mark_thread_rowid (w\<lparr>w_db := (w_db w)\<lparr>labels := rows,
      messages := sql_update (\<lambda>r. m_id r = m_id m) ?f (messages (w_db w))\<rparr>\<rparr>) (m_thread m)"
    using run Some ins by (simp add: modify_message_labels_def replace_message_labels_def sql_update_twice Let_def)
  then have res: "found" "messages (w_db w') = sql_update (\<lambda>r. m_id r = m_id m) ?f (messages (w_db w))"
    by simp_all
  have "find_message (w_db w') x = (if x = g then Some (?f m) else find_message (w_db w) x)" for x
    unfolding find_message_def res(2)
    using find_message_update [OF struct_ok_facts(4,5) [OF s], of m ?f x] m by (simp add: label_flags_def)
  then show ?thesis
    using insert_message_labels_set [OF ins] res(1) Some
    by (auto simp: label_sets_def fun_eq_iff label_flags_def set_changed_labels)
qed

lemma modify_succeeds:
  assumes "struct_ok (w_db w)" "ARCHIVE_LABEL \<notin> set add"
  shows "\<exists>w' found. modify_message_labels w g add remove = Ok (w', found)"
proof (cases "find_message (w_db w) g")
  case None
  then have "modify_message_labels w g add remove = Ok (w, False)" by (simp add: modify_message_labels_def)
  then show ?thesis by blast
next
  case (Some m)
  with find_message_in [OF Some] struct_ok_facts(6) [OF assms(1), of m] assms(2)
  have "ARCHIVE_LABEL \<notin> set (changed_labels (m_labels m) add remove)"
    by (auto simp: set_changed_labels relabel_def message_ok_def)
  from insert_message_labels_total [OF this, of "labels (w_db w)" "[]"] Some show ?thesis
    by (auto simp: modify_message_labels_def replace_message_labels_def Let_def)
qed

lemma modify_writer_ok:
  "writer_ok w \<Longrightarrow> modify_message_labels w g add remove = Ok (w', b) \<Longrightarrow> writer_ok w'"
  unfolding writer_ok_def by (rule modify_message_labels_ok)

lemma writer_ok_struct: "writer_ok w \<Longrightarrow> struct_ok (w_db w)"
  by (simp add: writer_ok_def pending_ok_def)

text \<open>Messages changed one by one, the same message always in the same way.\<close>

lemma modify_each_refines:
  assumes "writer_ok w" "\<And>g b. (g, b) \<in> set xs \<Longrightarrow> ARCHIVE_LABEL \<notin> set (A g)"
    and f: "\<And>w g b. (g, b) \<in> set xs \<Longrightarrow> f w (g, b) = modify_message_labels w g (A g) (R g)"
  shows "\<exists>w'. modify_each f w xs = Ok w' \<and> writer_ok w' \<and>
    (\<forall>x. label_sets (w_db w') x =
       (if x \<in> fst ` set xs then map_option (relabel (A x) (R x)) (label_sets (w_db w) x) else label_sets (w_db w) x))"
  using assms
proof (induction xs arbitrary: w)
  case (Cons x xs)
  obtain g b where x: "x = (g, b)" by (cases x)
  from modify_succeeds [OF writer_ok_struct [OF Cons.prems(1)], of "A g" g "R g"] Cons.prems(2) [of g b] x
  obtain w1 fnd where run: "modify_message_labels w g (A g) (R g) = Ok (w1, fnd)" by auto
  note w1 = modify_writer_ok [OF Cons.prems(1) run]
  note ref = modify_refines [OF writer_ok_struct [OF Cons.prems(1)] run]
  from Cons.IH [OF w1] Cons.prems(2,3) obtain w' where w': "modify_each f w1 xs = Ok w'" "writer_ok w'"
    "\<forall>x. label_sets (w_db w') x =
       (if x \<in> fst ` set xs then map_option (relabel (A x) (R x)) (label_sets (w_db w1) x) else label_sets (w_db w1) x)"
    by (metis list.set_intros(2))
  have idem: "relabel (A y) (R y) (relabel (A y) (R y) S) = relabel (A y) (R y) S" for y S
    by (auto simp: relabel_def)
  have "modify_each f w (x # xs) = Ok w'" using run w'(1) Cons.prems(3) [of g b w] x by simp
  with w' ref show ?case
    by (auto simp: x idem option.map_comp comp_def)
qed simp

lemma finish_keeps_labels:
  assumes "writer_ok w"
  shows "\<exists>m ch. finish w = Ok (m, ch) \<and> store_ok m \<and> label_sets m = label_sets (w_db w)"
proof -
  from recompute_all_ok [of "w_db w" "w_dirty w" Map.empty] assms obtain m ch where
    "finish w = Ok (m, ch)" "store_ok m" "messages m = messages (w_db w)"
    by (auto simp: writer_ok_def finish_def)
  then show ?thesis by (auto simp: label_sets_def find_message_def)
qed

lemma apply_exact_refines:
  assumes "writer_ok w" "\<And>d. d \<in> set ds \<Longrightarrow> ARCHIVE_LABEL \<notin> set (md_added d)"
    and "\<And>d. d \<in> set ds \<Longrightarrow> md_added d = A (md_message d) \<and> md_removed d = R (md_message d)"
  shows "\<exists>w' ds'. apply_exact w ds = Ok (w', ds') \<and> writer_ok w' \<and>
    ds' = filter (\<lambda>d. label_sets (w_db w) (md_message d) \<noteq> None) ds \<and>
    (\<forall>x. label_sets (w_db w') x =
       (if x \<in> md_message ` set ds then map_option (relabel (A x) (R x)) (label_sets (w_db w) x) else label_sets (w_db w) x))"
  using assms
proof (induction ds arbitrary: w)
  case (Cons d ds)
  let ?g = "md_message d"
  have d: "md_added d = A ?g" "md_removed d = R ?g" using Cons.prems(3) [of d] by simp_all
  from modify_succeeds [OF writer_ok_struct [OF Cons.prems(1)], of "A ?g" ?g "R ?g"] Cons.prems(2) [of d] d
  obtain w1 fnd where run: "modify_message_labels w ?g (A ?g) (R ?g) = Ok (w1, fnd)" by auto
  note w1 = modify_writer_ok [OF Cons.prems(1) run]
  note ref = modify_refines [OF writer_ok_struct [OF Cons.prems(1)] run]
  have same: "label_sets (w_db w1) x = None \<longleftrightarrow> label_sets (w_db w) x = None" for x using ref by auto
  from Cons.IH [OF w1] Cons.prems(2,3) obtain w' where w': "apply_exact w1 ds = Ok (w', filter (\<lambda>d. label_sets (w_db w1) (md_message d) \<noteq> None) ds)"
    "writer_ok w'" "\<forall>x. label_sets (w_db w') x =
       (if x \<in> md_message ` set ds then map_option (relabel (A x) (R x)) (label_sets (w_db w1) x) else label_sets (w_db w1) x)"
    by (metis list.set_intros(2))
  have idem: "relabel (A y) (R y) (relabel (A y) (R y) S) = relabel (A y) (R y) S" for y S
    by (auto simp: relabel_def)
  have fnd: "fnd = (label_sets (w_db w) ?g \<noteq> None)" using ref by blast
  have "apply_exact w (d # ds) = Ok (w', filter (\<lambda>d. label_sets (w_db w) (md_message d) \<noteq> None) (d # ds))"
    using run w'(1) [unfolded same] d fnd by simp
  with w' ref show ?case
    by (auto simp: idem option.map_comp comp_def)
qed simp

text \<open>A change of labels on threads, Trash included, as the labels it adds and removes.\<close>

fun change_labels :: "local_change \<Rightarrow> (thread_id list \<times> label_id list \<times> label_id list) option" where
  "change_labels (ChangeLabels ts add remove) = Some (ts, add, remove)"
| "change_labels (ChangeTrash ts) = Some (ts, [TRASH], [INBOX])"
| "change_labels (ChangeExact ds b) = None"
| "change_labels (ChangeCleanup q keys add remove) = None"

definition affected_by :: "mail_store \<Rightarrow> local_change \<Rightarrow> (message_id \<times> label_id list) list" where
  "affected_by m change =
     (case change of ChangeLabels ts add remove \<Rightarrow> affected_messages m ts add remove
                   | ChangeTrash ts \<Rightarrow> affected_messages m ts [TRASH] [] | _ \<Rightarrow> [])"

lemma affected_current: "(g, ls) \<in> set (affected_by m change) \<Longrightarrow> ls = current_labels m g"
  by (auto simp: affected_by_def affected_messages_def split: local_change.splits)

lemma writer_new_store_ok: "store_ok m \<Longrightarrow> writer_ok (writer_new m)"
  using writer_new_ok [of m ReplaceLabels] by (simp add: with_stored_labels_def writer_new_def)

lemma change_store_run:
  assumes ok: "store_ok m" and parts: "change_labels change = Some (ts, add, remove)" and add: "ARCHIVE_LABEL \<notin> set add"
  shows "\<exists>m' ops ch. change_store m change =
      Ok (m', ops, map (\<lambda>(g, before). diff_for g before add remove) (affected_by m change), ch) \<and> store_ok m' \<and>
    (\<forall>x. label_sets m' x = (if x \<in> fst ` set (affected_by m change)
       then map_option (relabel add remove) (label_sets m x) else label_sets m x))"
proof -
  let ?f = "\<lambda>w (g, b). modify_message_labels w g add remove"
  obtain w where w: "modify_each ?f (writer_new m) (affected_by m change) = Ok w" "writer_ok w"
    "\<forall>x. label_sets (w_db w) x = (if x \<in> fst ` set (affected_by m change)
       then map_option (relabel add remove) (label_sets m x) else label_sets m x)"
    using modify_each_refines [OF writer_new_store_ok [OF ok], of "affected_by m change" "\<lambda>_. add" ?f "\<lambda>_. remove"] add
    by (auto simp: writer_new_def)
  from finish_keeps_labels [OF w(2)] obtain m' ch where
    fin: "finish w = Ok (m', ch)" "store_ok m'" "label_sets m' = label_sets (w_db w)" by blast
  from parts w(1) fin(1) have "\<exists>ops. change_store m change =
      Ok (m', ops, map (\<lambda>(g, before). diff_for g before add remove) (affected_by m change), ch)"
    by (cases change) (auto simp: change_store_def affected_by_def Let_def)
  with w(3) fin show ?thesis by auto
qed

lemma relabel_undone:
  "relabel (filter (\<lambda>l. l \<in> S) remove) (filter (\<lambda>l. l \<notin> S) add) (relabel add remove S) = S"
  by (auto simp: relabel_def)

lemma current_label_sets: "label_sets m g = Some S \<Longrightarrow> set (current_labels m g) = S"
  by (auto simp: label_sets_def current_labels_def)

lemma current_no_archive:
  assumes "store_ok m"
  shows "ARCHIVE_LABEL \<notin> set (current_labels m g)"
  using assms find_message_in [of m g]
  by (auto simp: current_labels_def store_ok_def struct_ok_def message_ok_def split: option.splits)

lemma undo_store_run:
  assumes ok: "store_ok m" and parts: "change_labels change = Some (ts, add, remove)"
    and run: "store_ok m'" "\<forall>x. label_sets m' x = (if x \<in> fst ` set (affected_by m change)
       then map_option (relabel add remove) (label_sets m x) else label_sets m x)"
  shows "\<exists>m'' ops ds ch. change_store m' (ChangeExact (map inverse_diff
       (map (\<lambda>(g, before). diff_for g before add remove) (affected_by m change))) b) = Ok (m'', ops, ds, ch) \<and>
     store_ok m'' \<and> label_sets m'' = label_sets m"
proof -
  let ?ds = "map inverse_diff (map (\<lambda>(g, before). diff_for g before add remove) (affected_by m change))"
  let ?A = "\<lambda>g. filter (\<lambda>l. l \<in> set (current_labels m g)) remove" and ?R = "\<lambda>g. filter (\<lambda>l. l \<notin> set (current_labels m g)) add"
  have ds: "md_added d = ?A (md_message d) \<and> md_removed d = ?R (md_message d) \<and> md_message d \<in> fst ` set (affected_by m change)"
    if "d \<in> set ?ds" for d
    using that affected_current by (force simp: inverse_diff_def diff_for_def)
  have "ARCHIVE_LABEL \<notin> set (md_added d)" if "d \<in> set ?ds" for d
    using ds [OF that] current_no_archive [OF ok] by simp
  from apply_exact_refines [OF writer_new_store_ok [OF run(1)], of ?ds ?A ?R, OF this] ds obtain w ds' where
    w: "apply_exact (writer_new m') ?ds = Ok (w, ds')" "writer_ok w"
      "\<forall>x. label_sets (w_db w) x = (if x \<in> md_message ` set ?ds then map_option (relabel (?A x) (?R x)) (label_sets m' x) else label_sets m' x)"
    by (auto simp: writer_new_def)
  have img: "md_message ` set ?ds = fst ` set (affected_by m change)"
    by (force simp: inverse_diff_def diff_for_def)
  have "label_sets (w_db w) x = label_sets m x" for x
    using w(3) run(2) unfolding img
    by (cases "label_sets m x") (auto simp: relabel_undone current_label_sets)
  then have "label_sets (w_db w) = label_sets m" by blast
  moreover from finish_keeps_labels [OF w(2)] obtain m'' ch where
    "finish w = Ok (m'', ch)" "store_ok m''" "label_sets m'' = label_sets (w_db w)" by blast
  ultimately show ?thesis using w(1) by (simp add: change_store_def Let_def)
qed

definition undo_ok :: "account_db \<Rightarrow> bool" where
  "undo_ok db \<longleftrightarrow> (\<forall>r \<in> set (db_undo db). ua_id r \<le> db_undo_seq db)"

lemma enqueue_all_frame:
  "db_mail (foldl (\<lambda>d p. fst (enqueue d p now)) db ops) = db_mail db"
  "db_undo (foldl (\<lambda>d p. fst (enqueue d p now)) db ops) = db_undo db"
  "db_undo_seq (foldl (\<lambda>d p. fst (enqueue d p now)) db ops) = db_undo_seq db"
  by (induction ops arbitrary: db) (simp_all add: enqueue_def enqueue_held_def Let_def)

lemma get_recorded:
  assumes "undo_ok db" "record_undo db kind ds = (db', i)"
  shows "get_undo db' i = Some \<lparr>ua_id = i, ua_kind = kind, ua_diffs = ds\<rparr> \<and> db_mail db' = db_mail db \<and> undo_ok db'"
proof -
  have "List.find (\<lambda>r. ua_id r = i) (xs @ [\<lparr>ua_id = i, ua_kind = kind, ua_diffs = ds\<rparr>]) =
      Some \<lparr>ua_id = i, ua_kind = kind, ua_diffs = ds\<rparr>" if "\<forall>r \<in> set xs. ua_id r \<noteq> i" for xs
    using that by (induction xs) auto
  moreover have "i = db_undo_seq db + 1" and rows: "db_undo db' = sql_delete (\<lambda>r. ua_id r \<le> i - KEEP)
      (db_undo db @ [\<lparr>ua_id = i, ua_kind = kind, ua_diffs = ds\<rparr>])" and "db_mail db' = db_mail db" "db_undo_seq db' = i"
    using assms(2) by (auto simp: record_undo_def Let_def)
  moreover have "\<forall>r \<in> set (sql_delete (\<lambda>r. ua_id r \<le> i - KEEP) (db_undo db)). ua_id r \<noteq> i"
    using assms(1) \<open>i = db_undo_seq db + 1\<close> by (auto simp: undo_ok_def)
  moreover have "sql_delete (\<lambda>r. ua_id r \<le> i - KEEP) [\<lparr>ua_id = i, ua_kind = kind, ua_diffs = ds\<rparr>] =
      [\<lparr>ua_id = i, ua_kind = kind, ua_diffs = ds\<rparr>]"
    by (simp add: sql_delete_def KEEP_def)
  ultimately show ?thesis
    using assms(1) by (auto simp: get_undo_def undo_ok_def)
qed

lemma recorded_run:
  assumes "change_store (db_mail db) change = Ok (m, ops, ds, ch)" and "undo_ok db"
  shows "\<exists>db' a. apply_local_change_recorded db change queue rec now = Ok (db', a) \<and> db_mail db' = m \<and> undo_ok db' \<and> ac_changes a = ch \<and>
    (case ac_action a of
       None \<Rightarrow> rec = None \<or> filter diff_changes ds = []
     | Some i \<Rightarrow> \<exists>act kind. get_undo db' i = Some act \<and> rec = Some kind \<and> ua_kind act = kind \<and> ua_diffs act = ds)"
proof -
  let ?db2 = "if queue then foldl (\<lambda>d p. fst (enqueue d p now)) (db\<lparr>db_mail := m\<rparr>) ops else db\<lparr>db_mail := m\<rparr>"
  have db2: "db_mail ?db2 = m" "undo_ok ?db2"
    using assms(2) by (auto simp: undo_ok_def enqueue_all_frame)
  show ?thesis
  proof (cases "rec = None \<or> filter diff_changes ds = []")
    case True
    then show ?thesis using assms(1) db2
      by (auto simp: apply_local_change_recorded_def Let_def split: option.splits)
  next
    case False
    then obtain kind where kind: "rec = Some kind" by auto
    obtain db3 i where r: "record_undo ?db2 kind ds = (db3, i)" by fastforce
    from get_recorded [OF db2(2) r] db2(1) False assms(1) kind r show ?thesis
      by (intro exI [of _ db3] exI [of _ "\<lparr>ac_changes = ch, ac_action = Some i, ac_messages = length (filter diff_changes ds)\<rparr>"])
        (simp add: apply_local_change_recorded_def Let_def)
  qed
qed

text \<open>
  Claim C7: Undoing a recorded change gives every message back exactly the labels it had. For
  any change of labels on threads (archive, read, star, junk, a label, Trash), recording it
  and then replaying the inverse of the recorded diffs restores the label set of every message of
  the store, whatever the change added to messages that already had it or removed from messages
  that did not; the store stays consistent. An action is not recorded only when nothing changed.
\<close>

theorem undo_restores_every_message:
  assumes ok: "store_ok (db_mail db)" "undo_ok db"
    and parts: "change_labels change = Some (ts, add, remove)" and add: "ARCHIVE_LABEL \<notin> set add"
  shows "\<exists>db1 a. apply_local_change_recorded db change queue (Some kind) now = Ok (db1, a) \<and>
    (case ac_action a of
       None \<Rightarrow> label_sets (db_mail db1) = label_sets (db_mail db)
     | Some i \<Rightarrow> \<exists>act db2 a2. get_undo db1 i = Some act \<and> ua_kind act = kind \<and>
         apply_local_change_recorded db1 (ChangeExact (map inverse_diff (ua_diffs act)) batched) queue2 rec2 now2 = Ok (db2, a2) \<and>
         store_ok (db_mail db2) \<and> label_sets (db_mail db2) = label_sets (db_mail db))"
proof -
  let ?ds = "map (\<lambda>(g, before). diff_for g before add remove) (affected_by (db_mail db) change)"
  from change_store_run [OF ok(1) parts add] obtain m' ops ch where
    m': "change_store (db_mail db) change = Ok (m', ops, ?ds, ch)" "store_ok m'"
      "\<forall>x. label_sets m' x = (if x \<in> fst ` set (affected_by (db_mail db) change)
         then map_option (relabel add remove) (label_sets (db_mail db) x) else label_sets (db_mail db) x)" by blast
  from recorded_run [OF m'(1) ok(2), of queue "Some kind" now] obtain db1 a where
    db1: "apply_local_change_recorded db change queue (Some kind) now = Ok (db1, a)" "db_mail db1 = m'" "undo_ok db1"
      "case ac_action a of None \<Rightarrow> Some kind = None \<or> filter diff_changes ?ds = []
       | Some i \<Rightarrow> \<exists>act kind'. get_undo db1 i = Some act \<and> Some kind = Some kind' \<and> ua_kind act = kind' \<and> ua_diffs act = ?ds"
    by blast
  show ?thesis
  proof (cases "ac_action a")
    case None
    with db1(4) have none: "filter diff_changes ?ds = []" by simp
    have "relabel add remove S = S" if g: "g \<in> fst ` set (affected_by (db_mail db) change)" "label_sets (db_mail db) g = Some S" for g S
    proof -
      from g(1) obtain ls where "(g, ls) \<in> set (affected_by (db_mail db) change)" by auto
      moreover from affected_current [OF this] current_label_sets [OF g(2)] have "set ls = S" by simp
      ultimately have "\<not> diff_changes (diff_for g ls add remove)" using none by (auto simp: filter_empty_conv)
      with \<open>set ls = S\<close> show ?thesis by (auto simp: diff_changes_def diff_for_def relabel_def filter_empty_conv)
    qed
    then have "label_sets m' = label_sets (db_mail db)"
      using m'(3) by (intro ext) (auto simp: option.map_ident_strong intro!: option.map_ident_strong)
    with db1 None show ?thesis by auto
  next
    case (Some i)
    with db1(4) obtain act where act: "get_undo db1 i = Some act" "ua_kind act = kind" "ua_diffs act = ?ds" by auto
    from undo_store_run [OF ok(1) parts m'(2,3), of batched] obtain m'' ops2 ds2 ch2 where
      m'': "change_store m' (ChangeExact (map inverse_diff ?ds) batched) = Ok (m'', ops2, ds2, ch2)" "store_ok m''"
        "label_sets m'' = label_sets (db_mail db)" by blast
    from recorded_run [OF m''(1) [folded db1(2)] db1(3), of queue2 rec2 now2] obtain db2 a2 where
      "apply_local_change_recorded db1 (ChangeExact (map inverse_diff ?ds) batched) queue2 rec2 now2 = Ok (db2, a2)" "db_mail db2 = m''"
      by blast
    with Some db1(1) act m'' show ?thesis by (intro exI [of _ db1] exI [of _ a]) auto
  qed
qed

definition sample_db :: account_db where
  "sample_db = new_account_db\<lparr>db_mail := sample_store\<rparr>"

lemma sample_db_ok: "store_ok (db_mail sample_db)" "undo_ok sample_db" "outbox_ok sample_db"
  using transaction_keeps_store_ok [OF empty_store_ok, of "[UpsertMessage sample_message]" ReplaceLabels]
  by (simp_all add: sample_db_def sample_store_def undo_ok_def new_account_db_def outbox_ok_def)

theorem undo_restores_every_message_witness:
  "\<exists>db1 a act db2 a2. apply_local_change_recorded sample_db (archive [''t1'']) True (Some ''archive'') 7 = Ok (db1, a) \<and>
     ac_action a = Some 1 \<and> label_sets (db_mail db1) ''m1'' = Some {''UNREAD''} \<and> get_undo db1 1 = Some act \<and>
     apply_local_change_recorded db1 (ChangeExact (map inverse_diff (ua_diffs act)) False) True None 9 = Ok (db2, a2) \<and>
     label_sets (db_mail db2) = label_sets (db_mail sample_db)"
proof -
  have run: "case apply_local_change_recorded sample_db (archive [''t1'']) True (Some ''archive'') 7 of
      Inr (db1, a) \<Rightarrow> ac_action a = Some 1 \<and> label_sets (db_mail db1) ''m1'' = Some {''UNREAD''} | Inl e \<Rightarrow> False"
    by code_simp
  have parts: "change_labels (archive [''t1'']) = Some ([''t1''], [], [INBOX])" by (simp add: archive_def)
  show ?thesis
    using undo_restores_every_message [OF sample_db_ok(1,2) parts, of True "''archive''" 7 False True None 9] run by auto
qed

end
