(* ===== verification/Engine.thy ===== *)
theory Engine
  imports Windows Transport Provider Undo
begin

text \<open>
  The sync engine, \<^verbatim>\<open>crates/mail-sync/src/engine.rs\<close>: its state, how a job chooses between IMAP
  and the API, the listing of phases into the queue, bootstrap and the change of windows.

  An operation takes the engine and returns its result and the engine after it. A transaction
  of the store either returns the database it leaves or an error, and then changes nothing
  (\<open>db_write\<close>). An operation that follows the pages of a listing need not return, since the
  provider decides when the listing ends: such an operation has an optional result, \<open>None\<close>
  when it never returns. What the engine tells its observer is logged in \<open>en_told\<close>.
\<close>

section \<open>State\<close>

datatype sync_phase = Listing | Backfilling | Incremental | IdlePhase

record sync_progress =
  sp_phase :: sync_phase
  sp_queued :: nat
  sp_headers :: nat

datatype told =
    ThreadsChanged thread_changes
  | Progress sync_progress
  | OutboxProgress outbox_counts

record own_change =
  oc_message :: message_id
  oc_label :: label_id
  oc_added :: bool
  oc_at :: millis

record 'w engine =
  en_world :: 'w
  en_db :: sync_db
  en_source :: "'w backfill_source"
  en_own :: "own_change list"
  en_missed :: "message_id set"
  en_headers_waiting :: bool
  en_transport :: transport
  en_told :: "told list"

text \<open>
  What the engine is built with: the provider, the clock, the two functions of \<^verbatim>\<open>mail-mime\<close>, this
  engine as a drainer of the outbox with what it finds of other drainers' lock files, and the
  two functions of \<^verbatim>\<open>compose.rs\<close> that turn a queued or a stored draft into raw bytes.
\<close>

record 'w sync_env =
  se_provider :: "'w mail_provider"
  se_clock :: "'w \<Rightarrow> millis"
  se_mime :: mime_tools
  se_me :: claimant
  se_locks :: "'w \<Rightarrow> string \<Rightarrow> lock_file"
  se_decode_raw :: "string \<Rightarrow> string option"
  se_draft_raw :: "draft_record \<Rightarrow> email_address \<Rightarrow> 'w \<Rightarrow> (string, string) result \<times> 'w"

definition new_engine :: "'w sync_env \<Rightarrow> sync_db \<Rightarrow> 'w \<Rightarrow> 'w engine" where
  "new_engine q d w = \<lparr>en_world = w, en_db = d, en_source = rest_backfill (se_provider q), en_own = [],
     en_missed = {}, en_headers_waiting = False, en_transport = new_transport, en_told = []\<rparr>"

section \<open>Sequencing\<close>

text \<open>The operator \<^verbatim>\<open>?\<close>: an error ends the operation with the state as it is.\<close>

definition and_then ::
    "('e, 'a) result \<times> 's \<Rightarrow> ('a \<Rightarrow> 's \<Rightarrow> ('e, 'b) result \<times> 's) \<Rightarrow> ('e, 'b) result \<times> 's" where
  "and_then r k = (case r of (Inl e, s) \<Rightarrow> (Err e, s) | (Inr x, s) \<Rightarrow> k x s)"

definition run_then ::
    "(('e, 'a) result \<times> 's) option \<Rightarrow> ('a \<Rightarrow> 's \<Rightarrow> (('e, 'b) result \<times> 's) option) \<Rightarrow> (('e, 'b) result \<times> 's) option" where
  "run_then r k = (case r of None \<Rightarrow> None | Some (Inl e, s) \<Rightarrow> Some (Err e, s) | Some (Inr x, s) \<Rightarrow> k x s)"

fun for_each :: "('p \<Rightarrow> 's \<Rightarrow> (('e, unit) result \<times> 's) option) \<Rightarrow> 'p list \<Rightarrow> 's \<Rightarrow> (('e, unit) result \<times> 's) option" where
  "for_each f [] s = Some (Ok (), s)"
| "for_each f (p # ps) s = run_then (f p s) (\<lambda>_ s'. for_each f ps s')"

definition call_world :: "('w \<Rightarrow> 'r \<times> 'w) \<Rightarrow> 'w engine \<Rightarrow> 'r \<times> 'w engine" where
  "call_world f e = (let (r, w) = f (en_world e) in (r, e\<lparr>en_world := w\<rparr>))"

definition now_of :: "'w sync_env \<Rightarrow> 'w engine \<Rightarrow> millis" where
  "now_of q e = se_clock q (en_world e)"

text \<open>An error of the provider as an error of the engine (\<^verbatim>\<open>From\<close>).\<close>

definition lift_provider :: "(provider_error, 'a) result \<times> 's \<Rightarrow> (sync_error, 'a) result \<times> 's" where
  "lift_provider r = (map_sum ProviderFailed id (fst r), snd r)"

definition db_write ::
    "(sync_db \<Rightarrow> (store_error, sync_db \<times> 'a) result) \<Rightarrow> 'w engine \<Rightarrow> (sync_error, 'a) result \<times> 'w engine" where
  "db_write f e =
     (case f (en_db e) of
        Inl x \<Rightarrow> (Err (StoreFailed x), e)
      | Inr (d, a) \<Rightarrow> (Ok a, e\<lparr>en_db := d\<rparr>))"

definition db_set :: "(sync_db \<Rightarrow> sync_db) \<Rightarrow> 'w engine \<Rightarrow> 'w engine" where
  "db_set f e = e\<lparr>en_db := f (en_db e)\<rparr>"

definition queue_tx :: "(account_db \<Rightarrow> account_db \<times> 'a) \<Rightarrow> 'w engine \<Rightarrow> 'a \<times> 'w engine" where
  "queue_tx f e = (let (a, x) = f (sd_account (en_db e)) in (x, e\<lparr>en_db := (en_db e)\<lparr>sd_account := a\<rparr>\<rparr>))"

text \<open>
  A transaction on the mail: the calls on the writer, then the queue operation of the same
  transaction (which sees the rows as written so far), then \<^verbatim>\<open>finish\<close>.
\<close>

definition mail_tx ::
    "stored_labels \<Rightarrow> write_op list \<Rightarrow> (account_db \<Rightarrow> account_db \<times> 'a) \<Rightarrow> sync_db \<Rightarrow> (store_error, sync_db \<times> thread_changes \<times> 'a) result" where
  "mail_tx stored ps queued d =
     (case write_steps (with_stored_labels (writer_new (db_mail (sd_account d))) stored) ps of
        Inl x \<Rightarrow> Err x
      | Inr w \<Rightarrow>
          let (a, r) = queued ((sd_account d)\<lparr>db_mail := w_db w\<rparr>)
          in (case finish w of
                Inl x \<Rightarrow> Err x
              | Inr (m, ch) \<Rightarrow> Ok (d\<lparr>sd_account := a\<lparr>db_mail := m\<rparr>\<rparr>, ch, r)))"

section \<open>Telling the observer\<close>

definition tell :: "told \<Rightarrow> 'w engine \<Rightarrow> 'w engine" where
  "tell t e = e\<lparr>en_told := en_told e @ [t]\<rparr>"

definition publish :: "thread_changes \<Rightarrow> 'w engine \<Rightarrow> 'w engine" where
  "publish ch e = (if ch \<noteq> Map.empty then tell (ThreadsChanged ch) e else e)"

definition cheap_headers :: "'w engine \<Rightarrow> bool" where
  "cheap_headers e = bs_cheap_headers (en_source e)"

definition report :: "sync_phase \<Rightarrow> 'w engine \<Rightarrow> 'w engine" where
  "report phase e =
     (let (queued, headers) = queue_counts (sd_account (en_db e));
          waiting = queued = 0 \<and> 0 < headers \<and> \<not> cheap_headers e \<and> cleanup_tier_waits (en_db e);
          shown = (if (queued + headers = 0 \<or> waiting) \<and> phase = Backfilling then IdlePhase else phase)
      in tell (Progress \<lparr>sp_phase = shown, sp_queued = queued, sp_headers = headers\<rparr>) e)"

section \<open>Transports\<close>

definition record_done ::
    "'w sync_env \<Rightarrow> millis \<Rightarrow> job \<Rightarrow> via \<Rightarrow> string option \<Rightarrow> nat \<Rightarrow> bool \<Rightarrow> 'w engine \<Rightarrow> 'w engine" where
  "record_done q start j v reason items success e =
     e\<lparr>en_transport := record_op (en_transport e)
        \<lparr>or_job = j, or_via = v, or_reason = reason, or_at = start, or_millis = nat (now_of q e - start),
         or_items = items, or_ok = success\<rparr>\<rparr>"

definition record_api :: "'w sync_env \<Rightarrow> millis \<Rightarrow> job \<Rightarrow> string \<Rightarrow> nat \<Rightarrow> bool \<Rightarrow> 'w engine \<Rightarrow> 'w engine" where
  "record_api q start j reason items success e = record_done q start j Api (Some reason) items success e"

definition imap_gate :: "'w sync_env \<Rightarrow> 'w engine \<Rightarrow> (string, unit) result \<times> 'w engine" where
  "imap_gate q e =
     (if bs_name (en_source e) = ''rest'' then (Err ''IMAP is not set up for this account'', e)
      else if bs_name (en_source e) = ''imap-refused'' then (Err ''IMAP sign-in was refused for this account'', e)
      else
        let (t, allowed) = imap_allowed (en_transport e) (now_of q e);
            e1 = e\<lparr>en_transport := t\<rparr>
        in (if allowed then Ok () else Err (breaker_reason t), e1))"

definition imap_error :: "'w sync_env \<Rightarrow> provider_error \<Rightarrow> 'w engine \<Rightarrow> string \<times> 'w engine" where
  "imap_error q x e =
     (case x of
        Unavailable why \<Rightarrow> (why, e)
      | _ \<Rightarrow> let (t, reason) = imap_failed (en_transport e) (provider_error_text x) (now_of q e)
             in (reason, e\<lparr>en_transport := t\<rparr>))"

definition imap_ok :: "'w engine \<Rightarrow> 'w engine" where
  "imap_ok e = e\<lparr>en_transport := imap_succeeded (en_transport e)\<rparr>"

definition result_len :: "(provider_error, 'a list) result \<Rightarrow> nat" where
  "result_len r = (case r of Inl _ \<Rightarrow> 0 | Inr xs \<Rightarrow> length xs)"

definition fetch_api ::
    "'w sync_env \<Rightarrow> message_id list \<Rightarrow> priority \<Rightarrow> string \<Rightarrow> 'w engine \<Rightarrow> (sync_error, fetched_message list) result \<times> 'w engine" where
  "fetch_api q ids prio reason e =
     (let start = now_of q e;
          (r, e1) = call_world (mp_fetch_messages (se_provider q) ids prio) e;
          e2 = record_done q start JobBodies Api (Some reason) (result_len r) (\<not> isl r) e1
      in lift_provider (r, e2))"

definition fetch_bodies ::
    "'w sync_env \<Rightarrow> message_id list \<Rightarrow> priority \<Rightarrow> 'w engine \<Rightarrow> (sync_error, fetched_message list) result \<times> 'w engine" where
  "fetch_bodies q ids prio e =
     (case imap_gate q e of
        (Inl reason, e1) \<Rightarrow> fetch_api q ids prio reason e1
      | (Inr _, e1) \<Rightarrow>
          let start = now_of q e1
          in (case call_world (bs_fetch (en_source e1) ids) e1 of
                (Inr v, e2) \<Rightarrow> (Ok v, record_done q start JobBodies Imap None (length v) True (imap_ok e2))
              | (Inl x, e2) \<Rightarrow> let (reason, e3) = imap_error q x e2 in fetch_api q ids prio reason e3))"

definition fetch_headers ::
    "'w sync_env \<Rightarrow> message_id list \<Rightarrow> 'w engine \<Rightarrow> fetched_message list option \<times> 'w engine" where
  "fetch_headers q ids e =
     (case imap_gate q e of
        (Inl _, e1) \<Rightarrow> (None, e1)
      | (Inr _, e1) \<Rightarrow>
          let start = now_of q e1
          in (case call_world (bs_fetch_headers (en_source e1) ids) e1 of
                (Inr (Some v), e2) \<Rightarrow> (Some v, record_done q start JobHeaders Imap None (length v) True (imap_ok e2))
              | (Inr None, e2) \<Rightarrow> (None, e2)
              | (Inl x, e2) \<Rightarrow>
                  let (reason, e3) = imap_error q x e2
                  in (None, record_done q start JobHeaders Imap (Some reason) 0 False e3)))"

definition list_via_imap ::
    "'w sync_env \<Rightarrow> string \<Rightarrow> job \<Rightarrow> 'w engine \<Rightarrow> (string, message_id list) result \<times> 'w engine" where
  "list_via_imap q query j e =
     (case imap_gate q e of
        (Inl reason, e1) \<Rightarrow> (Err reason, e1)
      | (Inr _, e1) \<Rightarrow>
          let start = now_of q e1
          in (case call_world (bs_list (en_source e1) query) e1 of
                (Inr (Some ids), e2) \<Rightarrow> (Ok ids, record_done q start j Imap None (length ids) True (imap_ok e2))
              | (Inr None, e2) \<Rightarrow> (Err ''this download source cannot list'', e2)
              | (Inl x, e2) \<Rightarrow> let (reason, e3) = imap_error q x e2 in (Err reason, e3)))"

text \<open>IMAP IDLE: a failure is recorded but does not count towards the breaker.\<close>

definition wait_for_push :: "'w sync_env \<Rightarrow> nat \<Rightarrow> 'w engine \<Rightarrow> bool option \<times> 'w engine" where
  "wait_for_push q dur e =
     (case imap_gate q e of
        (Inl _, e1) \<Rightarrow> (None, e1)
      | (Inr _, e1) \<Rightarrow>
          let start = now_of q e1
          in (case call_world (bs_watch (en_source e1) dur) e1 of
                (Inr (Some changed), e2) \<Rightarrow>
                  (Some changed, record_done q start JobPush Imap None (if changed then 1 else 0) True e2)
              | (Inr None, e2) \<Rightarrow> (None, e2)
              | (Inl x, e2) \<Rightarrow> (None, record_done q start JobPush Imap (Some (provider_error_text x)) 0 False e2)))"

definition set_backfill_source :: "'w backfill_source \<Rightarrow> 'w engine \<Rightarrow> 'w engine" where
  "set_backfill_source s e = e\<lparr>en_source := s\<rparr>"

definition use_rest_backfill :: "'w sync_env \<Rightarrow> 'w engine \<Rightarrow> 'w engine" where
  "use_rest_backfill q e = set_backfill_source (rest_backfill (se_provider q)) e"

definition reset_breaker :: "'w engine \<Rightarrow> 'w engine" where
  "reset_breaker e = e\<lparr>en_transport := reset_transport (en_transport e)\<rparr>"

section \<open>Windows and listing\<close>

definition window :: "'w engine \<Rightarrow> sync_window" where
  "window e = stored_window (en_db e)"

definition body_window_of :: "'w engine \<Rightarrow> body_window" where
  "body_window_of e = stored_body_window (en_db e)"

definition headers_from :: "'w engine \<Rightarrow> nat option" where
  "headers_from e =
     (if cheap_headers e \<or> cleanup_tier_waits (en_db e) then headers_from_priority (body_window_of e) else None)"

definition headers_paused :: "'w engine \<Rightarrow> bool" where
  "headers_paused e \<longleftrightarrow> cleanup_headers_paused (en_db e) (cheap_headers e)"

definition needs_bootstrap :: "'w engine \<Rightarrow> bool" where
  "needs_bootstrap e \<longleftrightarrow> sync_state (en_db e) KEY_BOOTSTRAPPED = None"

definition account_email :: "'w engine \<Rightarrow> string option" where
  "account_email e = sync_state (en_db e) KEY_EMAIL"

definition phase_filter :: "phase \<Rightarrow> list_filter" where
  "phase_filter p = \<lparr>lf_label_ids = ph_labels p, lf_query = ph_query p,
     lf_include_spam_trash = list_ex (\<lambda>l. l = ''SPAM'' \<or> l = ''TRASH'') (ph_labels p)\<rparr>"

text \<open>One page of a listing over the API, recorded under its job.\<close>

definition list_page ::
    "'w sync_env \<Rightarrow> job \<Rightarrow> list_filter \<Rightarrow> string \<Rightarrow> string option \<Rightarrow> 'w engine \<Rightarrow> (sync_error, id_page) result \<times> 'w engine" where
  "list_page q j flt reason page e =
     (let start = now_of q e;
          (r, e1) = call_world (mp_list_message_ids (se_provider q) flt page) e;
          n = (case r of Inl _ \<Rightarrow> 0 | Inr p \<Rightarrow> length (ip_ids p))
      in lift_provider (r, record_api q start j reason n (\<not> isl r) e1))"

partial_function (option) list_pages ::
    "'w sync_env \<Rightarrow> list_filter \<Rightarrow> nat \<Rightarrow> bool \<Rightarrow> string \<Rightarrow> string option \<Rightarrow> 'w engine \<Rightarrow>
     ((sync_error, unit) result \<times> 'w engine) option" where
  "list_pages q flt prio refetch reason page e =
     (case list_page q JobList flt reason page e of
        (Inl x, e1) \<Rightarrow> Some (Err x, e1)
      | (Inr p, e1) \<Rightarrow>
          (case ip_next p of
             None \<Rightarrow> Some (Ok (), snd (queue_tx (\<lambda>a. enqueue_ids a prio (map fst (ip_ids p)) refetch) e1))
           | Some next \<Rightarrow> list_pages q flt prio refetch reason (Some next)
               (snd (queue_tx (\<lambda>a. enqueue_ids a prio (map fst (ip_ids p)) refetch) e1))))"

definition list_phase_with ::
    "'w sync_env \<Rightarrow> bool \<Rightarrow> nat option \<Rightarrow> phase \<Rightarrow> 'w engine \<Rightarrow> ((sync_error, unit) result \<times> 'w engine) option" where
  "list_phase_with q refetch hf p e =
     (let prio = queue_priority p hf
      in (case list_via_imap q (phase_search p) JobList e of
            (Inr ids, e1) \<Rightarrow> Some (Ok (), snd (queue_tx (\<lambda>a. enqueue_ids a prio ids refetch) e1))
          | (Inl reason, e1) \<Rightarrow> list_pages q (phase_filter p) prio refetch reason None e1))"

definition relist_window :: "'w sync_env \<Rightarrow> 'w engine \<Rightarrow> ((sync_error, unit) result \<times> 'w engine) option" where
  "relist_window q e =
     (let e1 = snd (queue_tx (\<lambda>a. clear_from_priority a WINDOW_PRIORITY) e)
      in if sync_state (en_db e1) KEY_BOOTSTRAPPED = None then Some (Ok (), e1)
         else
           let hf = headers_from e1
           in run_then (for_each (list_phase_with q False hf) (drop FIXED_PHASES (phases_for (window e1))) e1)
                (\<lambda>_ e2. Some (Ok (), report Backfilling (db_set (\<lambda>d. set_sync_state d KEY_TIERS (tiers_tag hf)) e2))))"

definition ensure_tiers :: "'w sync_env \<Rightarrow> 'w engine \<Rightarrow> ((sync_error, unit) result \<times> 'w engine) option" where
  "ensure_tiers q e =
     (let want = tiers_tag (headers_from e);
          have = (case sync_state (en_db e) KEY_TIERS of Some t \<Rightarrow> t | None \<Rightarrow> ''flat'')
      in run_then (if have \<noteq> want then relist_window q e else Some (Ok (), e))
           (\<lambda>_ e1. Some (Ok (), db_set (\<lambda>d. set_sync_state d KEY_TIERS want) e1)))"

definition set_window :: "'w sync_env \<Rightarrow> sync_window \<Rightarrow> 'w engine \<Rightarrow> ((sync_error, unit) result \<times> 'w engine) option" where
  "set_window q w e = relist_window q
     (db_set (\<lambda>d. set_sync_state (set_sync_state d KEY_WINDOW (sync_window_str w)) KEY_CLEANUP_HEADERS CLEANUP_NO) e)"

definition ensure_window :: "'w sync_env \<Rightarrow> 'w engine \<Rightarrow> ((sync_error, unit) result \<times> 'w engine) option" where
  "ensure_window q e =
     (if sync_state (en_db e) KEY_WINDOW = None then set_window q default_sync_window e else Some (Ok (), e))"

definition set_body_window :: "'w sync_env \<Rightarrow> body_window \<Rightarrow> 'w engine \<Rightarrow> ((sync_error, unit) result \<times> 'w engine) option" where
  "set_body_window q b e = ensure_tiers q (db_set (\<lambda>d. set_sync_state d KEY_BODY_WINDOW (body_window_str b)) e)"

definition load_every_header ::
    "'w sync_env \<Rightarrow> bool \<Rightarrow> 'w engine \<Rightarrow> ((sync_error, every_header) result \<times> 'w engine) option" where
  "load_every_header q expect_cheap e =
     (let (d, outcome) = widen_stored (en_db e) (cheap_headers e) expect_cheap;
          e1 = e\<lparr>en_db := d\<rparr>
      in (case outcome of
            Widened b \<Rightarrow> run_then (relist_window q e1) (\<lambda>_ e2. Some (Ok outcome, e2))
          | _ \<Rightarrow> Some (Ok outcome, e1)))"

definition load_waiting_headers :: "'w engine \<Rightarrow> nat \<times> 'w engine" where
  "load_waiting_headers e =
     (let (d, promoted) = load_waiting_headers_stored (en_db e)
      in (promoted, report Backfilling (e\<lparr>en_db := d, en_headers_waiting := False\<rparr>)))"

section \<open>Labels and bootstrap\<close>

text \<open>Where the provider's list is not the truth, the store's own user labels are kept as they are.\<close>

definition refresh_ops :: "bool \<Rightarrow> mail_store \<Rightarrow> label list \<Rightarrow> write_op list" where
  "refresh_ops local m ls =
     (let user = map lb_id (filter (\<lambda>l. lb_kind l = UserLabel) (list_labels m));
          ls' = (if local then filter (\<lambda>l. lb_id l \<notin> set user) ls else ls);
          keep = map lb_id ls @ (if local then user else [])
      in [UpsertLabels ls', RetainLabels keep])"

definition refresh_labels :: "'w sync_env \<Rightarrow> 'w engine \<Rightarrow> (sync_error, unit) result \<times> 'w engine" where
  "refresh_labels q e =
     (let local = keeps_user_labels (mp_label_sync (se_provider q))
      in and_then (lift_provider (call_world (mp_list_labels (se_provider q)) e))
           (\<lambda>ls e1. and_then
              (db_write (\<lambda>d. mail_tx ReplaceLabels (refresh_ops local (db_mail (sd_account d)) ls) (\<lambda>a. (a, ())) d) e1)
              (\<lambda>(ch, _) e2. (Ok (), publish ch e2))))"

definition store_profile :: "profile \<Rightarrow> sync_db \<Rightarrow> sync_db" where
  "store_profile p d =
     (let d1 = set_sync_state d KEY_EMAIL (pf_email p)
      in if sync_state d1 KEY_CURSOR = None then set_sync_state d1 KEY_CURSOR (pf_cursor p) else d1)"

definition bootstrap_prepare :: "'w sync_env \<Rightarrow> 'w engine \<Rightarrow> ((sync_error, unit) result \<times> 'w engine) option" where
  "bootstrap_prepare q e =
     run_then (Some (refresh_labels q e)) (\<lambda>_ e1.
     run_then (Some (lift_provider (call_world (mp_profile (se_provider q)) e1))) (\<lambda>p e2.
       let e3 = db_set (store_profile p) e2;
           w = window e3;
           hf = headers_from e3;
           e4 = db_set (\<lambda>d. set_sync_state (set_sync_state d KEY_WINDOW (sync_window_str w)) KEY_TIERS (tiers_tag hf)) e3
       in run_then (for_each (list_phase_with q False hf) (take INBOX_PHASES (phases_for w)) e4)
            (\<lambda>_ e5. Some (Ok (), report Listing e5))))"

definition bootstrap_list_rest :: "'w sync_env \<Rightarrow> 'w engine \<Rightarrow> ((sync_error, unit) result \<times> 'w engine) option" where
  "bootstrap_list_rest q e =
     (let hf = headers_from e
      in run_then (for_each (list_phase_with q False hf) (drop INBOX_PHASES (phases_for (window e))) e)
           (\<lambda>_ e1. Some (Ok (), report Backfilling (db_set (\<lambda>d. set_sync_state d KEY_BOOTSTRAPPED ''1'') e1))))"

definition refetch_all :: "'w sync_env \<Rightarrow> 'w engine \<Rightarrow> ((sync_error, nat) result \<times> 'w engine) option" where
  "refetch_all q e =
     (let hf = headers_from e
      in run_then (for_each (list_phase_with q True hf) (phases_for (window e)) e)
           (\<lambda>_ e1. Some (Ok (queue_len (sd_account (en_db e1))), report Backfilling e1)))"

text \<open>The expired cursor: a fresh one first, then everything is listed again.\<close>

definition start_resync :: "'w sync_env \<Rightarrow> 'w engine \<Rightarrow> ((sync_error, unit) result \<times> 'w engine) option" where
  "start_resync q e =
     run_then (Some (lift_provider (call_world (mp_profile (se_provider q)) e))) (\<lambda>p e1.
       let e2 = db_set (\<lambda>d. let d1 = set_sync_state d KEY_CURSOR (pf_cursor p)
                            in d1\<lparr>sd_state := (sd_state d1)(KEY_BOOTSTRAPPED := None)\<rparr>) e1;
           hf = headers_from e2
       in run_then (for_each (list_phase_with q True hf) (phases_for (window e2)) e2)
            (\<lambda>_ e3. Some (Ok (), db_set (\<lambda>d. set_sync_state d KEY_BOOTSTRAPPED ''1'') e3)))"

section \<open>What every operation keeps\<close>

definition account_ok :: "account_db \<Rightarrow> bool" where
  "account_ok a \<longleftrightarrow> store_ok (db_mail a) \<and> queue_ok a \<and> outbox_ok a"

definition engine_ok :: "'w engine \<Rightarrow> bool" where
  "engine_ok e \<longleftrightarrow> account_ok (sd_account (en_db e)) \<and> transport_ok (en_transport e)"

text \<open>An operation that returns leaves a state with the property \<open>I\<close>.\<close>

definition settles :: "('s \<Rightarrow> bool) \<Rightarrow> (('e, 'a) result \<times> 's) option \<Rightarrow> bool" where
  "settles I r = (case r of None \<Rightarrow> True | Some (_, s) \<Rightarrow> I s)"

lemma settles_simps [simp]: "settles I None" "settles I (Some (x, s)) = I s"
  by (simp_all add: settles_def)

lemma settles_Some: "settles I (Some r) = I (snd r)"
  by (cases r) simp

lemma settles_run_then:
  "settles I r \<Longrightarrow> (\<And>x s. I s \<Longrightarrow> settles I (k x s)) \<Longrightarrow> settles I (run_then r k)"
  unfolding run_then_def by (cases r) (auto split: sum.splits prod.splits)

lemma settles_for_each:
  "(\<And>p s. p \<in> set ps \<Longrightarrow> I s \<Longrightarrow> settles I (f p s)) \<Longrightarrow> I s \<Longrightarrow> settles I (for_each f ps s)"
  by (induction ps arbitrary: s) (auto intro!: settles_run_then)

lemma and_then_keeps:
  "I (snd r) \<Longrightarrow> (\<And>x s. I s \<Longrightarrow> I (snd (k x s))) \<Longrightarrow> I (snd (and_then r k))"
  by (auto simp: and_then_def split: prod.splits sum.splits)

text \<open>Operations that leave the database and the breaker's well-formedness alone.\<close>

lemma engine_ok_cong:
  "engine_ok e \<Longrightarrow> en_db e' = en_db e \<Longrightarrow> en_transport e' = en_transport e \<Longrightarrow> engine_ok e'"
  by (simp add: engine_ok_def)

lemma engine_ok_call: "engine_ok e \<Longrightarrow> engine_ok (snd (call_world f e))"
  by (auto simp: call_world_def engine_ok_def split: prod.splits)

lemma engine_ok_lift: "engine_ok (snd r) \<Longrightarrow> engine_ok (snd (lift_provider r))"
  by (simp add: lift_provider_def)

lemma engine_ok_record_done: "engine_ok e \<Longrightarrow> engine_ok (record_done q t j v r n s e)"
  using transport_ok_step [of "en_transport e" "Recorded _"]
  by (simp add: engine_ok_def record_done_def)

lemma engine_ok_imap_ok: "engine_ok e \<Longrightarrow> engine_ok (imap_ok e)"
  using transport_ok_step [of "en_transport e" Succeeded] by (simp add: engine_ok_def imap_ok_def)

lemma engine_ok_gate: "engine_ok e \<Longrightarrow> engine_ok (snd (imap_gate q e))"
  using transport_ok_step [of "en_transport e" "Ask (now_of q e)"]
  by (auto simp: engine_ok_def imap_gate_def Let_def split: prod.splits)

lemma engine_ok_imap_error: "engine_ok e \<Longrightarrow> engine_ok (snd (imap_error q x e))"
  using transport_ok_step [of "en_transport e" "FailedAt (provider_error_text x) (now_of q e)"]
  by (auto simp: engine_ok_def imap_error_def Let_def split: prod.splits provider_error.splits)

lemma engine_ok_tell: "engine_ok e \<Longrightarrow> engine_ok (tell t e)"
  by (simp add: engine_ok_def tell_def)

lemma engine_ok_publish: "engine_ok e \<Longrightarrow> engine_ok (publish ch e)"
  by (simp add: publish_def engine_ok_tell)

lemma engine_ok_report: "engine_ok e \<Longrightarrow> engine_ok (report p e)"
  by (auto simp: report_def Let_def engine_ok_tell split: prod.splits)

lemmas engine_ok_basics = engine_ok_call engine_ok_lift engine_ok_record_done engine_ok_imap_ok engine_ok_gate
  engine_ok_imap_error engine_ok_tell engine_ok_publish engine_ok_report

lemma engine_ok_fetch_api: "engine_ok e \<Longrightarrow> engine_ok (snd (fetch_api q ids prio reason e))"
  using engine_ok_call [of e "mp_fetch_messages (se_provider q) ids prio"]
  by (auto simp: fetch_api_def Let_def intro!: engine_ok_lift engine_ok_record_done split: prod.splits)

lemma engine_ok_afterD:
  "imap_gate q e = (g, e1) \<Longrightarrow> engine_ok e \<Longrightarrow> engine_ok e1"
  "call_world f e = (r, e1) \<Longrightarrow> engine_ok e \<Longrightarrow> engine_ok e1"
  "imap_error q x e = (m, e1) \<Longrightarrow> engine_ok e \<Longrightarrow> engine_ok e1"
  using engine_ok_gate [of e q] engine_ok_call [of e f] engine_ok_imap_error [of e q x] by simp_all

lemma engine_ok_fetch_bodies: "engine_ok e \<Longrightarrow> engine_ok (snd (fetch_bodies q ids prio e))"
  unfolding fetch_bodies_def Let_def
  by (auto intro!: engine_ok_record_done engine_ok_imap_ok engine_ok_fetch_api intro: engine_ok_afterD
      split: prod.split sum.split) (blast intro: engine_ok_afterD)

lemma engine_ok_fetch_headers: "engine_ok e \<Longrightarrow> engine_ok (snd (fetch_headers q ids e))"
  unfolding fetch_headers_def Let_def
  by (auto intro!: engine_ok_record_done engine_ok_imap_ok intro: engine_ok_afterD
      split: prod.split sum.split option.split) (blast intro: engine_ok_afterD)

lemma engine_ok_list_via_imap: "engine_ok e \<Longrightarrow> engine_ok (snd (list_via_imap q s j e))"
  unfolding list_via_imap_def Let_def
  by (auto intro!: engine_ok_record_done engine_ok_imap_ok intro: engine_ok_afterD
      split: prod.split sum.split option.split) (blast intro: engine_ok_afterD)

text \<open>Operations on the queue and the settings.\<close>

lemma queue_frame [simp]:
  "db_mail (fst (enqueue_ids a p ids r)) = db_mail a" "db_outbox (fst (enqueue_ids a p ids r)) = db_outbox a"
  by (induction a p ids r rule: enqueue_ids.induct)
    (auto simp: Let_def queue_insert_def split: option.splits prod.splits)

lemma account_ok_queue:
  "account_ok a \<Longrightarrow> db_mail a' = db_mail a \<Longrightarrow> db_outbox a' = db_outbox a \<Longrightarrow> queue_ok a' \<Longrightarrow> account_ok a'"
  by (auto simp: account_ok_def intro: outbox_ok_same)

lemma account_ok_enqueue: "account_ok a \<Longrightarrow> account_ok (fst (enqueue_ids a p ids r))"
  by (rule account_ok_queue) (simp_all add: account_ok_def queue_ok_enqueue)

lemma account_ok_clear: "account_ok a \<Longrightarrow> account_ok (fst (clear_from_priority a p))"
  by (rule account_ok_queue) (simp_all add: account_ok_def queue_ok_clear clear_from_priority_def queue_ok_delete)

lemma promote_frame:
  "db_mail (fst (promote_headers_only a)) = db_mail a" "db_outbox (fst (promote_headers_only a)) = db_outbox a"
  by (simp_all add: promote_headers_only_def)

lemma account_ok_promote: "account_ok a \<Longrightarrow> account_ok (fst (promote_headers_only a))"
  by (rule account_ok_queue) (simp_all add: account_ok_def queue_ok_promote promote_frame)

lemma engine_ok_queue_tx:
  "engine_ok e \<Longrightarrow> (\<And>a. account_ok a \<Longrightarrow> account_ok (fst (f a))) \<Longrightarrow> engine_ok (snd (queue_tx f e))"
  by (auto simp: queue_tx_def engine_ok_def split: prod.splits) (metis fst_conv)

lemma engine_ok_db_set:
  "engine_ok e \<Longrightarrow> (\<And>d. account_ok (sd_account d) \<Longrightarrow> account_ok (sd_account (f d))) \<Longrightarrow> engine_ok (db_set f e)"
  by (simp add: db_set_def engine_ok_def)

lemma set_sync_state_account [simp]: "sd_account (set_sync_state d k v) = sd_account d"
  by (simp add: set_sync_state_def)

text \<open>Transactions on the mail.\<close>

lemma write_ops_ok:
  assumes "store_ok m" "list_all op_fits ps" "write_steps (with_stored_labels (writer_new m) s) ps = Ok w"
  shows "writer_ok w"
  using mail_batch.steps_ok [of "with_stored_labels (writer_new m) s" ps w] assms writer_new_ok
  by (simp add: mail_batch_steps)

lemma mail_tx_ok:
  assumes run: "mail_tx s ps f d = Ok (d', ch, r)" and ok: "account_ok (sd_account d)" and fits: "list_all op_fits ps"
    and f: "\<And>a. queue_ok a \<Longrightarrow> outbox_ok a \<Longrightarrow> queue_ok (fst (f a)) \<and> outbox_ok (fst (f a))"
  shows "account_ok (sd_account d')"
proof -
  obtain w where w: "write_steps (with_stored_labels (writer_new (db_mail (sd_account d))) s) ps = Ok w"
    using run by (auto simp: mail_tx_def split: sum.splits)
  have "store_ok (db_mail (sd_account d))" using ok by (simp add: account_ok_def)
  then have "writer_ok w" using fits w by (rule write_ops_ok)
  from finish_ok [OF this] obtain m ch' where fin: "finish w = Ok (m, ch')" "store_ok m" by blast
  let ?a = "(sd_account d)\<lparr>db_mail := w_db w\<rparr>"
  have "queue_ok ?a" "outbox_ok ?a" using ok by (simp_all add: account_ok_def queue_ok_def outbox_ok_def)
  with f have "queue_ok (fst (f ?a))" "outbox_ok (fst (f ?a))" by blast+
  then have "account_ok ((fst (f ?a))\<lparr>db_mail := m\<rparr>)"
    using fin by (simp add: account_ok_def queue_ok_def outbox_ok_def)
  moreover have "sd_account d' = (fst (f ?a))\<lparr>db_mail := m\<rparr>"
    using run w fin by (auto simp: mail_tx_def Let_def split: prod.splits)
  ultimately show ?thesis by simp
qed

lemma engine_ok_db_write:
  "engine_ok e \<Longrightarrow> (\<And>d d' x. account_ok (sd_account d) \<Longrightarrow> f d = Ok (d', x) \<Longrightarrow> account_ok (sd_account d')) \<Longrightarrow>
   engine_ok (snd (db_write f e))"
  by (auto simp: db_write_def engine_ok_def split: sum.splits)

text \<open>The listing operations.\<close>

lemma engine_ok_list_page: "list_page q j flt reason page e = (r, e1) \<Longrightarrow> engine_ok e \<Longrightarrow> engine_ok e1"
  by (auto simp: list_page_def record_api_def Let_def lift_provider_def
      intro!: engine_ok_record_done intro: engine_ok_afterD split: prod.splits)

lemma engine_ok_enqueue: "engine_ok e \<Longrightarrow> engine_ok (snd (queue_tx (\<lambda>a. enqueue_ids a prio ids refetch) e))"
  by (intro engine_ok_queue_tx account_ok_enqueue)

lemma list_pages_ok:
  assumes "list_pages q flt prio refetch reason page e = Some y"
  shows "engine_ok e \<longrightarrow> engine_ok (snd y)"
  using _ assms
proof (rule list_pages.raw_induct [where P = "\<lambda>_ _ _ _ _ _ e y. engine_ok e \<longrightarrow> engine_ok (snd y)"])
qed (auto split: prod.splits sum.splits option.splits dest!: engine_ok_list_page, (metis engine_ok_enqueue snd_conv)+)

lemma settles_list_pages: "engine_ok e \<Longrightarrow> settles engine_ok (list_pages q flt prio refetch reason page e)"
  using list_pages_ok [of q flt prio refetch reason page e]
  by (cases "list_pages q flt prio refetch reason page e") (auto simp: settles_Some)

lemma settles_list_phase: "engine_ok e \<Longrightarrow> settles engine_ok (list_phase_with q refetch hf p e)"
  using engine_ok_list_via_imap [of e q "phase_search p" JobList]
  by (auto simp: list_phase_with_def Let_def settles_Some split: prod.split sum.split
      intro!: engine_ok_queue_tx account_ok_enqueue settles_list_pages)

lemma settles_phases: "engine_ok e \<Longrightarrow> settles engine_ok (for_each (list_phase_with q refetch hf) ps e)"
  by (rule settles_for_each) (rule settles_list_phase)

lemma engine_ok_settings:
  "engine_ok e \<Longrightarrow> (\<And>d. sd_account (f d) = sd_account d) \<Longrightarrow> engine_ok (db_set f e)"
  by (rule engine_ok_db_set) simp_all

lemma settles_relist_window: "engine_ok e \<Longrightarrow> settles engine_ok (relist_window q e)"
  unfolding relist_window_def Let_def
  by (auto intro!: settles_run_then settles_phases engine_ok_queue_tx account_ok_clear engine_ok_report
      engine_ok_settings)

lemma settles_ensure_tiers: "engine_ok e \<Longrightarrow> settles engine_ok (ensure_tiers q e)"
  unfolding ensure_tiers_def Let_def
  by (auto intro!: settles_run_then settles_relist_window engine_ok_settings)

lemma settles_set_window: "engine_ok e \<Longrightarrow> settles engine_ok (set_window q w e)"
  unfolding set_window_def by (intro settles_relist_window engine_ok_settings) auto

lemma engine_ok_refresh_labels:
  assumes "engine_ok e" and fits: "\<And>w ls w'. mp_list_labels (se_provider q) w = (Ok ls, w') \<Longrightarrow> list_all (\<lambda>l. lb_id l \<noteq> ARCHIVE_LABEL) ls"
  shows "engine_ok (snd (refresh_labels q e))"
proof (cases "call_world (mp_list_labels (se_provider q)) e")
  case (Pair r e1)
  have e1: "engine_ok e1" using engine_ok_afterD(2) [OF Pair assms(1)] .
  show ?thesis
  proof (cases r)
    case (Inl x)
    with Pair e1 show ?thesis by (simp add: refresh_labels_def and_then_def lift_provider_def)
  next
    case (Inr ls)
    have "list_all (\<lambda>l. lb_id l \<noteq> ARCHIVE_LABEL) ls"
      using Pair Inr fits by (auto simp: call_world_def split: prod.splits)
    then have ops: "list_all op_fits (refresh_ops local m ls)" for local m
      by (auto simp: refresh_ops_def Let_def list_all_iff)
    have "engine_ok (snd (db_write (\<lambda>d. mail_tx ReplaceLabels (refresh_ops local (db_mail (sd_account d)) ls) (\<lambda>a. (a, ())) d) e1))"
      for local
      using e1 by (rule engine_ok_db_write) (auto elim!: mail_tx_ok simp: ops)
    then have written: "engine_ok (snd (db_write (\<lambda>d. mail_tx ReplaceLabels
        (refresh_ops (keeps_user_labels (mp_label_sync (se_provider q))) (db_mail (sd_account d)) ls) (\<lambda>a. (a, ())) d) e1))"
      by blast
    have eq: "refresh_labels q e =
        and_then (db_write (\<lambda>d. mail_tx ReplaceLabels
            (refresh_ops (keeps_user_labels (mp_label_sync (se_provider q))) (db_mail (sd_account d)) ls) (\<lambda>a. (a, ())) d) e1)
          (\<lambda>(ch, _) e2. (Ok (), publish ch e2))"
      using Pair Inr by (simp add: refresh_labels_def lift_provider_def and_then_def [of "(Inr ls, e1)"])
    show ?thesis unfolding eq
      by (rule and_then_keeps [where I = engine_ok, OF written]) (auto intro: engine_ok_publish)
  qed
qed

end
