(* ===== verification/Listing.thy ===== *)
theory Listing
  imports Engine
begin

text \<open>
  What listing a phase does to the queue. The pages a provider gives for a filter are followed
  by a relation, so that the theorems say what is queued when the listing ends, and that the
  engine's loop returns whenever it does.
\<close>

section \<open>The pages of a listing\<close>

inductive pages_end :: "'w mail_provider \<Rightarrow> list_filter \<Rightarrow> string option \<Rightarrow> 'w \<Rightarrow> message_id list \<Rightarrow> 'w \<Rightarrow> bool"
  for P flt where
  last_page: "mp_list_message_ids P flt page w = (Ok p, w') \<Longrightarrow> ip_next p = None \<Longrightarrow>
     pages_end P flt page w (map fst (ip_ids p)) w'"
| more_pages: "mp_list_message_ids P flt page w = (Ok p, w1) \<Longrightarrow> ip_next p = Some next \<Longrightarrow>
     pages_end P flt (Some next) w1 ids w' \<Longrightarrow> pages_end P flt page w (map fst (ip_ids p) @ ids) w'"

inductive phases_end :: "'w mail_provider \<Rightarrow> phase list \<Rightarrow> 'w \<Rightarrow> message_id list list \<Rightarrow> 'w \<Rightarrow> bool"
  for P where
  no_phase: "phases_end P [] w [] w"
| one_phase: "pages_end P (phase_filter p) None w ids w1 \<Longrightarrow> phases_end P ps w1 idss w' \<Longrightarrow>
     phases_end P (p # ps) w (ids # idss) w'"

inductive_cases pages_endE: "pages_end P flt page w ids w'"
inductive_cases phases_endE: "phases_end P (p # ps) w idss w'"
inductive_simps phases_end_Nil [simp]: "phases_end P [] w idss w'"

section \<open>One phase\<close>

lemma enqueue_append:
  "fst (enqueue_ids a p (xs @ ys) r) = fst (enqueue_ids (fst (enqueue_ids a p xs r)) p ys r)"
  by (induction a p xs r rule: enqueue_ids.induct) (auto simp: Let_def split: option.splits prod.splits)

text \<open>What a listing leaves alone: the settings, the download source, the breaker and the log.\<close>

definition same_but_queue :: "'w engine \<Rightarrow> 'w engine \<Rightarrow> bool" where
  "same_but_queue e e' \<longleftrightarrow>
     sd_state (en_db e') = sd_state (en_db e) \<and> en_source e' = en_source e \<and> en_own e' = en_own e \<and>
     en_missed e' = en_missed e \<and> en_told e' = en_told e \<and>
     tr_open_until (en_transport e') = tr_open_until (en_transport e)"

lemma same_but_queue_trans: "same_but_queue e e1 \<Longrightarrow> same_but_queue e1 e2 \<Longrightarrow> same_but_queue e e2"
  by (simp add: same_but_queue_def)

lemma list_page_step:
  assumes "mp_list_message_ids (se_provider q) flt page (en_world e) = (Ok p, w1)"
  obtains e1 where "list_page q j flt reason page e = (Ok p, e1)" "en_db e1 = en_db e" "en_world e1 = w1"
    "same_but_queue e e1"
  using assms that
  by (auto simp: list_page_def call_world_def record_api_def record_done_def lift_provider_def same_but_queue_def
      record_op_def Let_def)

lemma list_pages_run:
  assumes "pages_end (se_provider q) flt page w ids w'" "en_world e = w"
  shows "\<exists>e'. list_pages q flt prio refetch reason page e = Some (Ok (), e') \<and> en_world e' = w' \<and> same_but_queue e e' \<and>
    sd_account (en_db e') = fst (enqueue_ids (sd_account (en_db e)) prio ids refetch)"
  using assms
proof (induction arbitrary: e rule: pages_end.induct)
  case (last_page page w p w')
  then have "mp_list_message_ids (se_provider q) flt page (en_world e) = (Ok p, w')" by simp
  from list_page_step [OF this] obtain e1 where
    e1: "list_page q JobList flt reason page e = (Ok p, e1)" "en_db e1 = en_db e" "en_world e1 = w'" "same_but_queue e e1"
    by metis
  then show ?case using last_page(2)
    by (subst list_pages.simps) (auto simp: queue_tx_def same_but_queue_def split: prod.split)
next
  case (more_pages page w p w1 nxt ids w')
  then have "mp_list_message_ids (se_provider q) flt page (en_world e) = (Ok p, w1)" by simp
  from list_page_step [OF this] obtain e1 where
    e1: "list_page q JobList flt reason page e = (Ok p, e1)" "en_db e1 = en_db e" "en_world e1 = w1" "same_but_queue e e1"
    by metis
  let ?e2 = "snd (queue_tx (\<lambda>a. enqueue_ids a prio (map fst (ip_ids p)) refetch) e1)"
  have e2: "en_world ?e2 = w1" "same_but_queue e ?e2"
    "sd_account (en_db ?e2) = fst (enqueue_ids (sd_account (en_db e)) prio (map fst (ip_ids p)) refetch)"
    using e1 by (auto simp: queue_tx_def same_but_queue_def split: prod.split)
  from more_pages.IH [OF e2(1)] obtain e' where
    "list_pages q flt prio refetch reason (Some nxt) ?e2 = Some (Ok (), e')" "en_world e' = w'" "same_but_queue ?e2 e'"
    "sd_account (en_db e') = fst (enqueue_ids (sd_account (en_db ?e2)) prio ids refetch)" by blast
  with e1(1) e2 more_pages(2) show ?case
    by (subst list_pages.simps) (auto simp: enqueue_append intro: same_but_queue_trans)
qed

text \<open>Listing over the API: the source is the provider's own, or IMAP was refused.\<close>

definition over_api :: "'w engine \<Rightarrow> bool" where
  "over_api e \<longleftrightarrow> bs_name (en_source e) = ''rest'' \<or> bs_name (en_source e) = ''imap-refused''"

lemma list_phase_run:
  assumes "over_api e" "pages_end (se_provider q) (phase_filter p) None (en_world e) ids w'"
  shows "\<exists>e'. list_phase_with q refetch hf p e = Some (Ok (), e') \<and> en_world e' = w' \<and> same_but_queue e e' \<and>
    sd_account (en_db e') = fst (enqueue_ids (sd_account (en_db e)) (queue_priority p hf) ids refetch)"
proof -
  have "\<exists>reason. list_via_imap q (phase_search p) JobList e = (Err reason, e)"
    using assms(1) by (auto simp: over_api_def list_via_imap_def imap_gate_def)
  with list_pages_run [OF assms(2) refl] show ?thesis
    by (auto simp: list_phase_with_def Let_def)
qed

section \<open>All the phases\<close>

text \<open>The row an id gets from being listed at each of a list of priorities.\<close>

definition queued_from :: "(nat \<times> message_id list) list \<Rightarrow> message_id \<Rightarrow> nat option \<Rightarrow> nat option" where
  "queued_from qs g row = foldl (\<lambda>r (p, ids). if g \<in> set ids then queued_at p r else r) row qs"

definition phase_lists :: "nat option \<Rightarrow> phase list \<Rightarrow> message_id list list \<Rightarrow> (nat \<times> message_id list) list" where
  "phase_lists hf ps idss = zip (map (\<lambda>p. queue_priority p hf) ps) idss"

lemma already_stored_enqueue: "already_stored (fst (enqueue_ids a p ids r)) p' g = already_stored a p' g"
  by (rule already_stored_cong) simp

lemma over_api_same: "same_but_queue e e' \<Longrightarrow> over_api e' = over_api e"
  by (simp add: same_but_queue_def over_api_def)

lemma phases_run:
  assumes "phases_end (se_provider q) ps w idss w'" "en_world e = w" "over_api e"
  shows "\<exists>e'. for_each (list_phase_with q refetch hf) ps e = Some (Ok (), e') \<and> en_world e' = w' \<and> same_but_queue e e' \<and>
    db_mail (sd_account (en_db e')) = db_mail (sd_account (en_db e)) \<and>
    (\<forall>g. priority_of (sd_account (en_db e')) g =
       queued_from (filter (\<lambda>(p, _). refetch \<or> \<not> already_stored (sd_account (en_db e)) p g) (phase_lists hf ps idss)) g
         (priority_of (sd_account (en_db e)) g))"
  using assms
proof (induction arbitrary: e rule: phases_end.induct)
  case (no_phase w)
  then show ?case by (simp add: phase_lists_def queued_from_def same_but_queue_def)
next
  case (one_phase p w ids w1 ps idss w')
  from one_phase.prems one_phase.hyps have "pages_end (se_provider q) (phase_filter p) None (en_world e) ids w1" by simp
  from list_phase_run [OF one_phase.prems(2) this] obtain e1 where
    run1: "list_phase_with q refetch hf p e = Some (Ok (), e1)" "en_world e1 = w1" "same_but_queue e e1"
    and acc: "sd_account (en_db e1) = fst (enqueue_ids (sd_account (en_db e)) (queue_priority p hf) ids refetch)"
    by blast
  from one_phase.IH [OF run1(2)] run1(3) one_phase.prems(2) obtain e' where
    run2: "for_each (list_phase_with q refetch hf) ps e1 = Some (Ok (), e')" "en_world e' = w'" "same_but_queue e1 e'"
      "db_mail (sd_account (en_db e')) = db_mail (sd_account (en_db e1))"
    and prio: "\<And>g. priority_of (sd_account (en_db e')) g =
       queued_from (filter (\<lambda>(p, _). refetch \<or> \<not> already_stored (sd_account (en_db e1)) p g) (phase_lists hf ps idss)) g
         (priority_of (sd_account (en_db e1)) g)"
    by (auto simp: over_api_same)
  have "priority_of (sd_account (en_db e')) g =
      queued_from (filter (\<lambda>(p, _). refetch \<or> \<not> already_stored (sd_account (en_db e)) p g) (phase_lists hf (p # ps) (ids # idss))) g
        (priority_of (sd_account (en_db e)) g)" for g
    unfolding prio acc enqueue_priorities
    by (auto simp: already_stored_enqueue phase_lists_def queued_from_def)
  with run1 run2 acc show ?case by (auto simp: run_then_def intro: same_but_queue_trans)
qed

lemma queued_from_Some: "(\<exists>r. row = Some r \<and> r \<le> b) \<Longrightarrow> \<exists>r. queued_from qs g row = Some r \<and> r \<le> b"
  unfolding queued_from_def
proof (induction qs arbitrary: row)
  case (Cons l qs)
  then have "\<exists>r. (case l of (p, ids) \<Rightarrow> if g \<in> set ids then queued_at p row else row) = Some r \<and> r \<le> b"
    by (auto simp: queued_at_def split: prod.splits)
  from Cons.IH [OF this] show ?case by simp
qed simp

lemma queued_from_listed:
  "(p, ids) \<in> set qs \<Longrightarrow> g \<in> set ids \<Longrightarrow> \<exists>r. queued_from qs g row = Some r \<and> r \<le> p"
proof (induction qs arbitrary: row)
  case (Cons l qs)
  show ?case
  proof (cases "l = (p, ids)")
    case True
    then have "queued_from (l # qs) g row = queued_from qs g (queued_at p row)"
      using Cons.prems by (simp add: queued_from_def)
    moreover have "\<exists>r. queued_at p row = Some r \<and> r \<le> p" by (auto simp: queued_at_def split: option.splits)
    ultimately show ?thesis using queued_from_Some by metis
  next
    case False
    with Cons show ?thesis by (simp add: queued_from_def split: prod.splits)
  qed
qed simp

lemma queued_from_unlisted: "\<forall>(p, ids) \<in> set qs. g \<notin> set ids \<Longrightarrow> queued_from qs g row = row"
  unfolding queued_from_def by (induction qs) auto


section \<open>A provider to run the engine on\<close>

text \<open>
  A provider whose world counts the calls. Every listing has two pages, no message is found,
  nothing has changed, and every write succeeds.
\<close>

definition quiet_provider :: "nat mail_provider" where
  "quiet_provider = \<lparr>
     mp_profile = (\<lambda>w. (Ok \<lparr>pf_email = ''me@example.com'', pf_messages_total = 2, pf_cursor = ''c1''\<rparr>, w + 1)),
     mp_list_labels = (\<lambda>w. (Ok [], w + 1)),
     mp_list_message_ids = (\<lambda>flt page w.
        (Ok \<lparr>ip_ids = (if page = None then [(''m1'', ''t1'')] else [(''m2'', ''t1'')]),
             ip_next = (if page = None then Some ''2'' else None), ip_estimated_total = None\<rparr>, w + 1)),
     mp_fetch_messages = (\<lambda>ids prio w. (Ok [], w + 1)),
     mp_changes_since = (\<lambda>c w. (Ok \<lparr>cs_changes = [], cs_cursor = c\<rparr>, w + 1)),
     mp_modify_labels = (\<lambda>op w. (Ok (), w + 1)),
     mp_move_to_trash = (\<lambda>m w. (Ok (), w + 1)),
     mp_restore_from_trash = (\<lambda>m w. (Ok (), w + 1)),
     mp_send = (\<lambda>raw t w. (Ok ''sent'', w + 1)),
     mp_already_sent = (\<lambda>raw w. (Ok None, w + 1)),
     mp_save_draft = (\<lambda>x raw t w. (Ok ''d1'', w + 1)),
     mp_delete_draft = (\<lambda>d w. (Ok (), w + 1)),
     mp_list_drafts = (\<lambda>w. (Ok None, w + 1)),
     mp_create_label = (\<lambda>n c w. (Err Unauthorized, w)), mp_label_sync = LsProvider,
     mp_adopts_sent_copies = False\<rparr>"

definition quiet_env :: "nat sync_env" where
  "quiet_env = \<lparr>se_provider = quiet_provider, se_clock = int,
     se_mime = \<lparr>mt_sanitize_html = (\<lambda>h. (h, False)), mt_html_to_text = (\<lambda>h. h)\<rparr>,
     se_me = \<lparr>cl_id = ''me'', cl_has_dir = True\<rparr>, se_locks = (\<lambda>w c. LockMissing), se_decode_raw = Some,
     se_draft_raw = (\<lambda>d f w. (Ok ''raw'', w))\<rparr>"

definition new_sync_db :: sync_db where
  "new_sync_db = \<lparr>sd_account = new_account_db, sd_state = Map.empty\<rparr>"

lemma quiet_pages: "pages_end quiet_provider flt None w [''m1'', ''m2''] (w + 2)"
proof -
  have "pages_end quiet_provider flt (Some ''2'') (w + 1) [''m2''] (w + 2)"
    using last_page [of quiet_provider flt "Some ''2''" "w + 1" "\<lparr>ip_ids = [(''m2'', ''t1'')], ip_next = None, ip_estimated_total = None\<rparr>" "w + 2"]
    by (simp add: quiet_provider_def)
  with more_pages [of quiet_provider flt None w "\<lparr>ip_ids = [(''m1'', ''t1'')], ip_next = Some ''2'', ip_estimated_total = None\<rparr>" "w + 1" "''2''" "[''m2'']" "w + 2"]
  show ?thesis by (simp add: quiet_provider_def)
qed

lemma quiet_phases: "phases_end quiet_provider ps w (replicate (length ps) [''m1'', ''m2'']) (w + 2 * length ps)"
proof (induction ps arbitrary: w)
  case (Cons p ps)
  from one_phase [OF quiet_pages Cons.IH] show ?case by simp
qed (simp add: no_phase)


end
