(* ===== verification/Fetching.thy ===== *)
theory Fetching
  imports Listing
begin

text \<open>
  Downloading mail, the second part of \<^verbatim>\<open>crates/mail-sync/src/engine.rs\<close>: the body backfill, the
  headers pass, bodies on demand, server search, drafts and the Inbox categories.
\<close>

section \<open>Operations\<close>

definition stored_labels_of :: "'w sync_env \<Rightarrow> stored_labels" where
  "stored_labels_of q = (case mp_label_sync (se_provider q) of
     LsProvider \<Rightarrow> ReplaceLabels | LsLocal \<Rightarrow> KeepLabels | LsBoth merge \<Rightarrow> MergeLabels merge)"

definition upserts :: "'w sync_env \<Rightarrow> fetched_message list \<Rightarrow> write_op list" where
  "upserts q ms = map (\<lambda>m. UpsertMessage (to_incoming (se_mime q) m)) ms"

definition backfill_batch :: "'w sync_env \<Rightarrow> nat \<Rightarrow> 'w engine \<Rightarrow> (sync_error, nat) result \<times> 'w engine" where
  "backfill_batch q mx e =
     (let ids = peek (sd_account (en_db e)) mx in
      if ids = [] then (Ok 0, e)
      else and_then (fetch_bodies q ids Background e) (\<lambda>fetched e1.
           and_then (db_write (mail_tx (stored_labels_of q) (upserts q fetched) (\<lambda>a. (remove_ids a ids, ()))) e1)
             (\<lambda>(ch, _) e2. (Ok (length ids), report Backfilling (publish ch e2)))))"

definition headers_pass :: "'w sync_env \<Rightarrow> nat \<Rightarrow> 'w engine \<Rightarrow> (sync_error, nat) result \<times> 'w engine" where
  "headers_pass q mx e =
     (let ids = take mx (filter (\<lambda>g. g \<notin> en_missed e) (for_headers (sd_account (en_db e)) (mx + card (en_missed e)))) in
      if ids = [] then (Ok 0, e)
      else (case fetch_headers q ids e of
        (None, e1) \<Rightarrow>
          if \<not> cheap_headers e1 then
            if cleanup_tier_waits (en_db e1) then
              (Ok 0, if en_headers_waiting e1 then e1 else report Backfilling (e1\<lparr>en_headers_waiting := True\<rparr>))
            else (Ok 0, snd (queue_tx promote_headers_only e1))
          else (Ok 0, e1)
      | (Some headers, e1) \<Rightarrow>
          let e2 = e1\<lparr>en_headers_waiting := False\<rparr>
          in and_then (db_write (mail_tx (stored_labels_of q) (upserts q headers) (\<lambda>a. remove_headers_only a ids)) e2)
               (\<lambda>(ch, dropped) e3.
                  let e4 = e3\<lparr>en_missed := en_missed e3 \<union> (set ids - fm_id ` set headers)\<rparr>
                  in (Ok (length headers + dropped), report Backfilling (publish ch e4)))))"

definition ensure_bodies :: "'w sync_env \<Rightarrow> message_id list \<Rightarrow> 'w engine \<Rightarrow> (sync_error, nat) result \<times> 'w engine" where
  "ensure_bodies q ids e =
     (let wanted = missing (sd_account (en_db e)) ids in
      if wanted = [] then (Ok 0, e)
      else and_then (fetch_bodies q wanted Interactive e) (\<lambda>fetched e1.
           let full = filter (\<lambda>m. fm_body m \<noteq> None) fetched
           in and_then (db_write (mail_tx (stored_labels_of q) (upserts q full) (\<lambda>a. (remove_ids a (map fm_id full), ()))) e1)
                (\<lambda>(ch, _) e2. (Ok (length full), report Backfilling (publish ch e2)))))"

definition search_server :: "'w sync_env \<Rightarrow> string \<Rightarrow> nat \<Rightarrow> 'w engine \<Rightarrow> (sync_error, nat) result \<times> 'w engine" where
  "search_server q query mx e =
     (case list_via_imap q query JobSearch e of
        (Inr ids, e1) \<Rightarrow> ensure_bodies q (take mx ids) e1
      | (Inl reason, e1) \<Rightarrow>
          and_then (list_page q JobSearch \<lparr>lf_label_ids = [], lf_query = Some query, lf_include_spam_trash = False\<rparr> reason None e1)
            (\<lambda>p e2. ensure_bodies q (take mx (map fst (ip_ids p))) e2))"

definition prioritize :: "message_id list \<Rightarrow> 'w engine \<Rightarrow> 'w engine" where
  "prioritize ids e = snd (queue_tx (\<lambda>a. enqueue_urgent a ids) e)"

text \<open>The drafts list: its messages in full, draft messages whose draft is gone removed.\<close>

definition stale_drafts :: "account_db \<Rightarrow> message_id list \<Rightarrow> message_id list" where
  "stale_drafts a held = filter (\<lambda>g. g \<notin> set held) (map m_gmail_id (filter m_is_draft (messages (db_mail a))))"

definition store_drafts ::
    "'w sync_env \<Rightarrow> (string \<times> message_id) list \<Rightarrow> fetched_message list \<Rightarrow> message_id list \<Rightarrow> sync_db \<Rightarrow>
     (store_error, sync_db \<times> thread_changes) result" where
  "store_drafts q pairs fetched stale d =
     (case mail_tx (stored_labels_of q) (upserts q fetched @ map DeleteMessage stale) (\<lambda>a. (a, ())) d of
        Inl x \<Rightarrow> Err x
      | Inr (d1, ch, _) \<Rightarrow> Ok (d1\<lparr>sd_account := replace_server_drafts (sd_account d1) pairs\<rparr>, ch))"

definition sync_drafts :: "'w sync_env \<Rightarrow> 'w engine \<Rightarrow> (sync_error, nat) result \<times> 'w engine" where
  "sync_drafts q e =
     (let start = now_of q e;
          (r, e1) = call_world (mp_list_drafts (se_provider q)) e;
          n = (case r of Inr (Some ds) \<Rightarrow> length ds | _ \<Rightarrow> 0);
          e2 = record_api q start JobDrafts ''draft ids come only from the API'' n (\<not> isl r) e1
      in and_then (lift_provider (r, e2)) (\<lambda>drafts e2.
           case drafts of
             None \<Rightarrow> (Ok 0, e2)
           | Some pairs \<Rightarrow>
               let held = map snd pairs;
                   wanted = missing (sd_account (en_db e2)) held;
                   stale = stale_drafts (sd_account (en_db e2)) held
               in and_then (if wanted = [] then (Ok [], e2) else fetch_bodies q wanted Background e2) (\<lambda>fetched e3.
                    and_then (db_write (store_drafts q pairs fetched stale) e3)
                      (\<lambda>ch e4. (Ok (length fetched), publish ch e4)))))"

section \<open>Inbox categories\<close>

text \<open>\<^verbatim>\<open>str::trim_start_matches\<close>: the prefix as often as it repeats.\<close>

function trim_start_matches :: "string \<Rightarrow> string \<Rightarrow> string" where
  "trim_start_matches p s = (if p \<noteq> [] \<and> take (length p) s = p then trim_start_matches p (drop (length p) s) else s)"
  by pat_completeness auto
termination
proof (relation "measure (\<lambda>(p, s). length s)")
  fix p s :: string
  assume "p \<noteq> [] \<and> take (length p) s = p"
  then have "0 < length p" "length p \<le> length s" by (auto, metis length_take min.cobounded1)
  then have "length s - length p < length s" by linarith
  then show "((p, drop (length p) s), p, s) \<in> measure (\<lambda>(p, s). length s)" by simp
qed simp

declare trim_start_matches.simps [simp del]

definition category_search :: "label_id \<Rightarrow> string" where
  "category_search c = ''in:inbox category:'' @ to_ascii_lowercase (trim_start_matches ''CATEGORY_'' c)"

partial_function (option) collect_pages ::
    "'w sync_env \<Rightarrow> list_filter \<Rightarrow> string \<Rightarrow> string option \<Rightarrow> message_id list \<Rightarrow> 'w engine \<Rightarrow>
     ((sync_error, message_id list) result \<times> 'w engine) option" where
  "collect_pages q flt reason page acc e =
     (case list_page q JobCategories flt reason page e of
        (Inl x, e1) \<Rightarrow> Some (Err x, e1)
      | (Inr p, e1) \<Rightarrow>
          (case ip_next p of
             None \<Rightarrow> Some (Ok (acc @ map fst (ip_ids p)), e1)
           | Some next \<Rightarrow> collect_pages q flt reason (Some next) (acc @ map fst (ip_ids p)) e1))"

definition list_category ::
    "'w sync_env \<Rightarrow> label_id \<Rightarrow> 'w engine \<Rightarrow> ((sync_error, message_id list) result \<times> 'w engine) option" where
  "list_category q c e =
     (case list_via_imap q (category_search c) JobCategories e of
        (Inr ids, e1) \<Rightarrow> Some (Ok ids, e1)
      | (Inl reason, e1) \<Rightarrow>
          collect_pages q \<lparr>lf_label_ids = [INBOX, c], lf_query = None, lf_include_spam_trash = False\<rparr> reason None [] e1)"

fun list_categories ::
    "'w sync_env \<Rightarrow> label_id list \<Rightarrow> 'w engine \<Rightarrow> ((sync_error, (label_id \<times> message_id list) list) result \<times> 'w engine) option" where
  "list_categories q [] e = Some (Ok [], e)"
| "list_categories q (c # cs) e =
     run_then (list_category q c e) (\<lambda>ids e1.
     run_then (list_categories q cs e1) (\<lambda>rest e2. Some (Ok ((c, ids) # rest), e2)))"

definition inbox_messages_missing :: "mail_store \<Rightarrow> message_id list \<Rightarrow> label_id \<Rightarrow> message_id list" where
  "inbox_messages_missing m ids l =
     filter (\<lambda>g. \<exists>r \<in> set (messages m). m_gmail_id r = g \<and> INBOX \<in> set (m_labels r) \<and> l \<notin> set (m_labels r)) ids"

definition category_ops :: "mail_store \<Rightarrow> (label_id \<times> message_id list) list \<Rightarrow> write_op list" where
  "category_ops m listings =
     concat (map (\<lambda>(c, ids). map (\<lambda>g. ModifyLabels g [c] (filter (\<lambda>x. x \<noteq> c) CATEGORIES)) (inbox_messages_missing m ids c))
       listings)"

definition sync_categories :: "'w sync_env \<Rightarrow> 'w engine \<Rightarrow> ((sync_error, nat) result \<times> 'w engine) option" where
  "sync_categories q e =
     run_then (list_categories q CATEGORIES e) (\<lambda>listings e1.
       let ops = category_ops (db_mail (sd_account (en_db e1))) listings
       in Some (and_then (db_write (mail_tx ReplaceLabels ops (\<lambda>a. (a, ()))) e1)
                  (\<lambda>(ch, _) e2. (Ok (length ops), publish ch e2))))"

section \<open>The backfill loop ends\<close>

lemma frame_db [simp]:
  "en_db (record_done q t j v r n s e) = en_db e" "en_db (imap_ok e) = en_db e"
  "en_db (snd (lift_provider x)) = en_db (snd x)" "en_db (publish ch e) = en_db e" "en_db (report p e) = en_db e"
  "en_db (snd (call_world f e)) = en_db e" "en_db (snd (imap_gate q e)) = en_db e" "en_db (snd (imap_error q perr e)) = en_db e"
  by (auto simp: record_done_def record_api_def imap_ok_def lift_provider_def publish_def tell_def report_def call_world_def imap_gate_def
      imap_error_def Let_def split: prod.split provider_error.split)

lemma frame_db_afterD:
  "imap_gate q e = (g, e1) \<Longrightarrow> en_db e1 = en_db e"
  "call_world f e = (r, e1) \<Longrightarrow> en_db e1 = en_db e"
  "imap_error q x e = (m, e1) \<Longrightarrow> en_db e1 = en_db e"
  using frame_db by (metis snd_conv)+

lemma fetch_bodies_db: "en_db (snd (fetch_bodies q ids prio e)) = en_db e"
  unfolding fetch_bodies_def fetch_api_def Let_def
  by (auto split: prod.split sum.split dest!: frame_db_afterD)

lemma body_order_mail [simp]: "body_order (a\<lparr>db_mail := m\<rparr>) = body_order a"
  by (simp add: body_order_def)

lemma mail_tx_queue:
  assumes "mail_tx s ps (\<lambda>a. (remove_ids a ids, ())) d = Ok (d', ch, r)"
  shows "body_order (sd_account d') = filter (\<lambda>g. g \<notin> set ids) (body_order (sd_account d))"
  using assms by (auto simp: mail_tx_def remove_ids_order split: sum.splits)

lemma backfill_batch_cases:
  assumes "backfill_batch q mx e = (Ok n, e')"
  shows "n = length (peek (sd_account (en_db e)) mx)"
    and "body_order (sd_account (en_db e')) =
      filter (\<lambda>g. g \<notin> set (peek (sd_account (en_db e)) mx)) (body_order (sd_account (en_db e)))"
proof -
  let ?ids = "peek (sd_account (en_db e)) mx"
  have "n = length ?ids \<and> body_order (sd_account (en_db e')) = filter (\<lambda>g. g \<notin> set ?ids) (body_order (sd_account (en_db e)))"
  proof (cases "?ids = []")
    case True
    with assms show ?thesis by (simp add: backfill_batch_def)
  next
    case False
    with assms obtain fetched e1 d' ch where
      fetch: "fetch_bodies q ?ids Background e = (Ok fetched, e1)"
      and tx: "mail_tx (stored_labels_of q) (upserts q fetched) (\<lambda>a. (remove_ids a ?ids, ())) (en_db e1) = Ok (d', ch, ())"
      and e': "n = length ?ids" "e' = report Backfilling (publish ch (e1\<lparr>en_db := d'\<rparr>))"
      by (auto simp: backfill_batch_def and_then_def db_write_def Let_def split: prod.splits sum.splits)
    have "en_db e1 = en_db e" using fetch_bodies_db [of q ?ids Background e] fetch by simp
    with mail_tx_queue [OF tx] e' show ?thesis by simp
  qed
  then show "n = length ?ids" and "body_order (sd_account (en_db e')) = filter (\<lambda>g. g \<notin> set ?ids) (body_order (sd_account (en_db e)))"
    by blast+
qed

lemma backfill_batch_progress:
  assumes "backfill_batch q mx e = (Ok n, e')" "n \<noteq> 0"
  shows "length (body_order (sd_account (en_db e'))) < length (body_order (sd_account (en_db e)))"
proof -
  obtain g gs where ids: "peek (sd_account (en_db e)) mx = g # gs"
    using backfill_batch_cases(1) [OF assms(1)] assms(2) by (cases "peek (sd_account (en_db e)) mx") auto
  then have "g \<in> set (body_order (sd_account (en_db e)))"
    using in_set_takeD [of g mx "body_order (sd_account (en_db e))"] by (simp add: peek_body_order)
  then show ?thesis
    unfolding backfill_batch_cases(2) [OF assms(1)] ids by (intro length_filter_less [of g]) auto
qed

function backfill_all :: "'w sync_env \<Rightarrow> nat \<Rightarrow> 'w engine \<Rightarrow> (sync_error, nat) result \<times> 'w engine" where
  "backfill_all q acc e =
     (case backfill_batch q BACKFILL_BATCH e of
        (Inl x, e1) \<Rightarrow> (Err x, e1)
      | (Inr n, e1) \<Rightarrow> if n = 0 then (Ok acc, e1) else backfill_all q (acc + n) e1)"
  by pat_completeness auto
termination
  by (relation "measure (\<lambda>(q, t, e). length (body_order (sd_account (en_db e))))") (auto intro: backfill_batch_progress [OF sym])

declare backfill_all.simps [simp del]

lemma backfill_all_run:
  assumes "backfill_all q acc e = (Ok n, e')" "distinct (body_order (sd_account (en_db e)))"
  shows "body_order (sd_account (en_db e')) = [] \<and> n = acc + length (body_order (sd_account (en_db e)))"
  using assms
proof (induction q acc e rule: backfill_all.induct)
  case (1 q acc e)
  obtain k e1 where batch: "backfill_batch q BACKFILL_BATCH e = (Ok k, e1)"
    using "1.prems"(1) by (subst (asm) backfill_all.simps) (auto split: prod.splits sum.splits)
  let ?ids = "peek (sd_account (en_db e)) BACKFILL_BATCH"
  have after: "body_order (sd_account (en_db e1)) = body_order (remove_ids (sd_account (en_db e)) ?ids)"
    using backfill_batch_cases(2) [OF batch] by (simp add: remove_ids_order)
  have count: "k + length (body_order (sd_account (en_db e1))) = length (body_order (sd_account (en_db e)))"
    using bodies.batch_count [of "sd_account (en_db e)" BACKFILL_BATCH] "1.prems"(2) backfill_batch_cases(1) [OF batch]
    by (simp add: after)
  show ?case
  proof (cases "k = 0")
    case True
    then have "body_order (sd_account (en_db e)) = []"
      using bodies.empty_batch [of BACKFILL_BATCH "sd_account (en_db e)"] backfill_batch_cases(1) [OF batch]
      by (simp add: BACKFILL_BATCH_def)
    with True batch count "1.prems"(1) show ?thesis by (subst (asm) backfill_all.simps) simp
  next
    case False
    then have "backfill_all q (acc + k) e1 = (Ok n, e')"
      using "1.prems"(1) batch by (subst (asm) backfill_all.simps) simp
    moreover have "distinct (body_order (sd_account (en_db e1)))"
      using "1.prems"(2) by (simp add: after remove_ids_order)
    ultimately show ?thesis using "1.IH" [OF batch [symmetric] refl] False count by simp
  qed
qed

text \<open>
  Claim C14: the body backfill always ends, whatever the provider answers; when it ends without
  an error no id waits for its body, and the count it returns is the number of ids that
  waited when it began: each was asked for in exactly one batch.
\<close>

theorem backfill_drains_the_queue:
  assumes "queue_ok (sd_account (en_db e))" "backfill_all q 0 e = (Ok n, e')"
  shows "body_order (sd_account (en_db e')) = [] \<and> n = length (body_order (sd_account (en_db e)))"
  using backfill_all_run [OF assms(2) distinct_body_order [OF assms(1)]] by simp

lemma quiet_fetch: "mp_fetch_messages (se_provider quiet_env) ids prio w = (Ok [], w + 1)"
  by (simp add: quiet_env_def quiet_provider_def)

lemma quiet_batch:
  assumes "bs_name (en_source e) = ''rest''"
  shows "\<exists>n e'. backfill_batch quiet_env mx e = (Ok n, e') \<and> en_source e' = en_source e"
proof -
  have fetch: "\<exists>e1. fetch_bodies quiet_env ids prio e = (Ok [], e1) \<and> en_source e1 = en_source e" for ids prio
    using assms
    by (simp add: fetch_bodies_def imap_gate_def fetch_api_def call_world_def lift_provider_def record_done_def Let_def
        quiet_fetch)
  have tx: "\<exists>d' ch. mail_tx s [] (\<lambda>a. (remove_ids a ids, ())) d = Ok (d', ch, ())" for s ids d
    by (simp add: mail_tx_def finish_def with_stored_labels_def writer_new_def)
  obtain e1 where e1: "fetch_bodies quiet_env (peek (sd_account (en_db e)) mx) Background e = (Ok [], e1)"
    "en_source e1 = en_source e" using fetch by blast
  obtain d' ch where "mail_tx (stored_labels_of quiet_env) [] (\<lambda>a. (remove_ids a (peek (sd_account (en_db e)) mx), ())) (en_db e1) = Ok (d', ch, ())"
    using tx by blast
  with e1 show ?thesis
    by (auto simp: backfill_batch_def upserts_def Let_def and_then_def db_write_def publish_def tell_def report_def
        split: prod.split)
qed

lemma quiet_backfill:
  "bs_name (en_source e) = ''rest'' \<Longrightarrow> \<exists>n e'. backfill_all quiet_env acc e = (Ok n, e')"
proof (induction quiet_env acc e rule: backfill_all.induct)
  case (1 acc e)
  then obtain n e1 where batch: "backfill_batch quiet_env BACKFILL_BATCH e = (Ok n, e1)" "en_source e1 = en_source e"
    using quiet_batch by blast
  then show ?case
    using 1 by (subst backfill_all.simps) (cases "n = 0", auto)
qed

definition two_waiting :: sync_db where
  "two_waiting = new_sync_db\<lparr>sd_account := fst (enqueue_ids new_account_db 2 [''m1'', ''m2''] False)\<rparr>"

theorem backfill_drains_the_queue_witness:
  "\<exists>e'. backfill_all quiet_env 0 (new_engine quiet_env two_waiting 0) = (Ok 2, e') \<and>
     body_order (sd_account (en_db e')) = []"
proof -
  let ?e = "new_engine quiet_env two_waiting 0"
  have acc: "sd_account (en_db ?e) = fst (enqueue_ids new_account_db 2 [''m1'', ''m2''] False)"
    by (simp add: new_engine_def two_waiting_def)
  have "queue_ok new_account_db" by (simp add: queue_ok_def new_account_db_def)
  then have ok: "queue_ok (sd_account (en_db ?e))" unfolding acc by (rule queue_ok_enqueue)
  have two: "body_order (sd_account (en_db ?e)) = [''m1'', ''m2'']" unfolding acc by code_simp
  obtain n e' where run: "backfill_all quiet_env 0 ?e = (Ok n, e')"
    using quiet_backfill [of ?e 0] by (auto simp: new_engine_def rest_backfill_def)
  from backfill_drains_the_queue [OF ok run] two run show ?thesis by simp
qed

end
