(* ===== verification/Drain.thy ===== *)
theory Drain
  imports Fetching
begin

text \<open>
  Draining the outbox, the second half of \<^verbatim>\<open>crates/mail-sync/src/outbox.rs\<close>: how each queued op
  becomes provider calls, how its outcome is recorded, and the loop over the ops. The lease is
  renewed while a call runs; the clock says how often. Other drainers are the subject of the
  theory \<open>Drainers\<close>; here the engine runs alone.
\<close>

section \<open>Provider calls\<close>

definition MAX_ATTEMPTS :: nat where "MAX_ATTEMPTS = 5"
definition BUSY_POLL_MS :: millis where "BUSY_POLL_MS = 2000"

text \<open>\<^verbatim>\<open>backoff\<close>, in milliseconds.\<close>

definition backoff :: "nat \<Rightarrow> millis" where
  "backoff attempts = int (min (2 ^ (attempts + 1)) 300) * 1000"

definition remember_own :: "'w sync_env \<Rightarrow> message_id list \<Rightarrow> label_id list \<Rightarrow> label_id list \<Rightarrow> 'w engine \<Rightarrow> 'w engine" where
  "remember_own q ids add remove e =
     (let at = now_of q e
      in e\<lparr>en_own := en_own e @ concat (map (\<lambda>m.
            map (\<lambda>l. \<lparr>oc_message = m, oc_label = l, oc_added = True, oc_at = at\<rparr>) add @
            map (\<lambda>l. \<lparr>oc_message = m, oc_label = l, oc_added = False, oc_at = at\<rparr>) remove) ids)\<rparr>)"

definition send_once ::
    "'w mail_provider \<Rightarrow> string \<Rightarrow> thread_id option \<Rightarrow> nat \<Rightarrow> 'w \<Rightarrow> ('w, message_id) answer" where
  "send_once P raw thread attempts w =
     (if 0 < attempts then
        (case mp_already_sent P raw w of
           (Inl x, w1) \<Rightarrow> (Err x, w1)
         | (Inr (Some sent), w1) \<Rightarrow> (Ok sent, w1)
         | (Inr None, w1) \<Rightarrow> mp_send P raw thread w1)
      else mp_send P raw thread w)"

text \<open>How many calls a label change can take when it is split down to single messages.\<close>

definition calls_of :: "label_op \<Rightarrow> nat" where
  "calls_of op = max 1 (2 * length (lo_message_ids op) - 1)"

lemma split_calls:
  assumes "1 < length (lo_message_ids op)"
  shows "calls_of (op\<lparr>lo_message_ids := take (length (lo_message_ids op) div 2) (lo_message_ids op)\<rparr>) +
    calls_of (op\<lparr>lo_message_ids := drop (length (lo_message_ids op) div 2) (lo_message_ids op)\<rparr>) < calls_of op"
proof -
  have "max 1 (2 * (n div 2) - 1) + max 1 (2 * (n - n div 2) - 1) < max 1 (2 * n - 1)" if "1 < n" for n :: nat
    using that by presburger
  from this [OF assms] show ?thesis by (simp add: calls_of_def min.absorb2)
qed

lemma calls_of_pos: "0 < calls_of op"
  by (simp add: calls_of_def)

text \<open>The stack of label changes still to send, its top first. A split pushes the second half, then the first.\<close>

function modify_labels_present :: "'w mail_provider \<Rightarrow> label_op list \<Rightarrow> 'w \<Rightarrow> ('w, unit) answer" where
  "modify_labels_present P [] w = (Ok (), w)"
| "modify_labels_present P (op # pending) w =
     (case mp_modify_labels P op w of
        (Inr _, w1) \<Rightarrow> modify_labels_present P pending w1
      | (Inl (NotFoundAt m), w1) \<Rightarrow>
          if 1 < length (lo_message_ids op) then
            let mid = length (lo_message_ids op) div 2
            in modify_labels_present P
                 (op\<lparr>lo_message_ids := take mid (lo_message_ids op)\<rparr> #
                  op\<lparr>lo_message_ids := drop mid (lo_message_ids op)\<rparr> # pending) w1
          else modify_labels_present P pending w1
      | (Inl x, w1) \<Rightarrow> (Err x, w1))"
  by pat_completeness auto
termination
  by (relation "measure (\<lambda>(P, ops, w). sum_list (map calls_of ops))")
    (auto simp: calls_of_pos add.assoc [symmetric] split_calls [simplified] Let_def)

text \<open>One call per message; a message deleted on the server does not cost the others theirs.\<close>

fun each_present :: "(message_id \<Rightarrow> 'w \<Rightarrow> ('w, unit) answer) \<Rightarrow> message_id list \<Rightarrow> 'w \<Rightarrow> ('w, unit) answer" where
  "each_present f [] w = (Ok (), w)"
| "each_present f (m # ms) w =
     (case f m w of
        (Inr _, w1) \<Rightarrow> each_present f ms w1
      | (Inl (NotFoundAt x), w1) \<Rightarrow> each_present f ms w1
      | (Inl x, w1) \<Rightarrow> (Err x, w1))"

definition is_not_found :: "provider_error \<Rightarrow> bool" where
  "is_not_found x = (case x of NotFoundAt m \<Rightarrow> True | _ \<Rightarrow> False)"

definition mirror_draft :: "'w sync_env \<Rightarrow> int \<Rightarrow> email_address \<Rightarrow> 'w engine \<Rightarrow> (provider_error, unit) result \<times> 'w engine" where
  "mirror_draft q draft sender e =
     (case get_draft (sd_account (en_db e)) draft of
        None \<Rightarrow> (Ok (), e)
      | Some d \<Rightarrow>
          if dr_state d = Sending then (Ok (), e)
          else (case call_world (se_draft_raw q d sender) e of
            (Inl m, e1) \<Rightarrow> (Err (Invalid m), e1)
          | (Inr raw, e1) \<Rightarrow>
              let existing = dr_gmail_draft_id d;
                  thread = dr_thread_id d;
                  (r, e2) = call_world (mp_save_draft (se_provider q) existing raw thread) e1;
                  (saved, e3) = (case r of
                     Inl x \<Rightarrow> if is_not_found x \<and> existing \<noteq> None
                              then call_world (mp_save_draft (se_provider q) None raw thread) e2 else (r, e2)
                   | Inr _ \<Rightarrow> (r, e2))
              in (case saved of
                    Inl x \<Rightarrow> (Err x, e3)
                  | Inr g \<Rightarrow>
                      (Ok (), snd (queue_tx (\<lambda>a.
                         if get_draft a draft \<noteq> None then (set_gmail_draft_id a draft (Some g), ())
                         else (fst (enqueue a (OpDeleteDraft g) (now_of q e3)), ())) e3)))))"

text \<open>The calls of one op, and for a send the optimistic copy with the id the provider gave it.\<close>

definition perform ::
    "'w sync_env \<Rightarrow> queued_op \<Rightarrow> 'w engine \<Rightarrow> (provider_error, (message_id \<times> message_id) option) result \<times> 'w engine" where
  "perform q queued e =
     (let P = se_provider q;
          none = (\<lambda>(r, e'). (map_sum id (\<lambda>_. None) r, e'))
      in (case qo_op queued of
            OpModifyLabels ids add remove \<Rightarrow>
              none (call_world (modify_labels_present P [\<lparr>lo_message_ids = ids, lo_add = add, lo_remove = remove\<rparr>])
                (remember_own q ids add remove e))
          | OpTrash ids previous \<Rightarrow>
              none (call_world (each_present (mp_move_to_trash P) ids) (remember_own q ids [TRASH] [INBOX] e))
          | OpUntrash ids \<Rightarrow>
              none (call_world (each_present (mp_restore_from_trash P) ids) (remember_own q ids [] [TRASH] e))
          | OpSend draft raw thread loc \<Rightarrow>
              (case se_decode_raw q raw of
                 None \<Rightarrow> (Err (Invalid ''queued message is corrupt''), e)
               | Some bytes \<Rightarrow>
                   let (r, e1) = call_world (send_once P bytes thread (qo_attempts queued)) e
                   in (map_sum id (\<lambda>sent. if mp_adopts_sent_copies P then Some (loc, sent) else None) r, e1))
          | OpSyncDraft draft sender \<Rightarrow> none (mirror_draft q draft sender e)
          | OpDeleteDraft g \<Rightarrow> none (call_world (mp_delete_draft P g) e)))"

section \<open>Outcomes\<close>

datatype outcome = WasSent | WasDropped | WillRetry | HasFailed

definition failure_text :: "provider_error \<Rightarrow> string" where
  "failure_text x = (case x of Forbidden m \<Rightarrow> m | Invalid m \<Rightarrow> m | _ \<Rightarrow> provider_error_text x)"

text \<open>
  The transaction that records what became of an op, whatever it is only while the claim is
  still the drainer's own; \<open>now\<close> is the time at which the op was claimed.
\<close>

definition record_outcome ::
    "account_db \<Rightarrow> string \<Rightarrow> queued_op \<Rightarrow> (provider_error, (message_id \<times> message_id) option) result \<Rightarrow> millis \<Rightarrow>
     (store_error, account_db \<times> thread_changes \<times> outcome) result" where
  "record_outcome db me queued r now =
     (let i = qo_id queued; held = holds db i me
      in (case r of
            Inr adopt \<Rightarrow>
              if \<not> held then Ok (db, Map.empty, WasSent)
              else
                let db1 = complete db i;
                    w = writer_new (db_mail db1);
                    w1 = (case adopt of Some (loc, sent) \<Rightarrow> adopt_local_copy w loc sent | None \<Rightarrow> w)
                in (case finish w1 of
                      Inl x \<Rightarrow> Err x
                    | Inr (m, ch) \<Rightarrow> Ok (db1\<lparr>db_mail := m\<rparr>, ch, WasSent))
          | Inl x \<Rightarrow>
              if is_not_found x \<and> \<not> is_send (qo_op queued)
              then Ok (if held then complete db i else db, Map.empty, WasDropped)
              else if is_transient x \<and> qo_attempts queued + 1 < MAX_ATTEMPTS
              then Ok (if held then retry_later db i (now + backoff (qo_attempts queued)) (provider_error_text x) else db,
                       Map.empty, WillRetry)
              else if held then (case fail db i (failure_text x) of Inl y \<Rightarrow> Err y | Inr (db', ch) \<Rightarrow> Ok (db', ch, HasFailed))
              else Ok (db, Map.empty, HasFailed)))"

section \<open>The loop\<close>

record drain_report =
  dp_sent :: nat
  dp_retrying :: nat
  dp_failed :: nat
  dp_busy :: bool

definition no_report :: drain_report where
  "no_report = \<lparr>dp_sent = 0, dp_retrying = 0, dp_failed = 0, dp_busy = False\<rparr>"

text \<open>The renewals of a call that took from \<open>t0\<close> to \<open>t1\<close>: one every \<open>LEASE_RENEW_MS\<close>.\<close>

definition renewals :: "account_db \<Rightarrow> int \<Rightarrow> string \<Rightarrow> millis \<Rightarrow> millis \<Rightarrow> account_db" where
  "renewals db i me t0 t1 =
     foldl (\<lambda>d k. fst (renew d i me (t0 + (int k + 1) * LEASE_RENEW_MS + LEASE_MS))) db
       [0..<nat ((t1 - t0) div LEASE_RENEW_MS)]"

definition leased ::
    "'w sync_env \<Rightarrow> queued_op \<Rightarrow> 'w engine \<Rightarrow> (provider_error, (message_id \<times> message_id) option) result \<times> 'w engine" where
  "leased q queued e =
     (let t0 = now_of q e;
          (r, e1) = perform q queued e
      in (r, snd (queue_tx (\<lambda>a. (renewals a (qo_id queued) (cl_id (se_me q)) t0 (now_of q e1), ())) e1)))"

definition tell_pending :: "'w engine \<Rightarrow> 'w engine" where
  "tell_pending e =
     (let counts = outbox_counts_of (sd_account (en_db e))
      in if 0 < oc_pending counts then tell (OutboxProgress counts) e else e)"

text \<open>One claimed op: its calls, the record of the operation, and the recorded outcome.\<close>

definition run_op ::
    "'w sync_env \<Rightarrow> queued_op \<Rightarrow> millis \<Rightarrow> 'w engine \<Rightarrow>
     (sync_error, outcome \<times> provider_error option) result \<times> 'w engine" where
  "run_op q queued now e =
     (let start = now_of q e;
          (r, e1) = leased q queued e;
          e2 = record_api q start JobWrite ''one API call per change, with exact undo'' 1 (\<not> isl r) e1
      in (case record_outcome (sd_account (en_db e2)) (cl_id (se_me q)) queued r now of
            Inl x \<Rightarrow> (Err (StoreFailed x), e2)
          | Inr (a, ch, out) \<Rightarrow>
              let e3 = publish ch (e2\<lparr>en_db := (en_db e2)\<lparr>sd_account := a\<rparr>\<rparr>)
              in (Ok (out, case r of Inl x \<Rightarrow> Some x | Inr _ \<Rightarrow> None), if out = WasSent then tell_pending e3 else e3)))"

partial_function (option) drain_loop ::
    "'w sync_env \<Rightarrow> drain_report \<Rightarrow> 'w engine \<Rightarrow> ((sync_error, drain_report) result \<times> 'w engine) option" where
  "drain_loop q rep e =
     (case queue_tx (\<lambda>a. claim_next a (cl_id (se_me q)) (now_of q e) (now_of q e + LEASE_MS)) e of
        (Idle, e1) \<Rightarrow> Some (Ok rep, e1)
      | (Busy, e1) \<Rightarrow> Some (Ok (rep\<lparr>dp_busy := True\<rparr>), e1)
      | (Ready queued, e1) \<Rightarrow>
          (case run_op q queued (now_of q e) e1 of
             (Inl x, e2) \<Rightarrow> Some (Err x, e2)
           | (Inr (out, err), e2) \<Rightarrow>
               (case out of
                  WasSent \<Rightarrow> drain_loop q (rep\<lparr>dp_sent := dp_sent rep + 1\<rparr>) e2
                | WasDropped \<Rightarrow> drain_loop q (rep\<lparr>dp_sent := dp_sent rep + 1\<rparr>) e2
                | WillRetry \<Rightarrow> Some (Ok (rep\<lparr>dp_retrying := dp_retrying rep + 1\<rparr>), e2)
                | HasFailed \<Rightarrow>
                    if err = Some Unauthorized then Some (Err (ProviderFailed Unauthorized), e2)
                    else drain_loop q (rep\<lparr>dp_failed := dp_failed rep + 1\<rparr>) e2)))"

definition drain_outbox :: "'w sync_env \<Rightarrow> 'w engine \<Rightarrow> ((sync_error, drain_report) result \<times> 'w engine) option" where
  "drain_outbox q e =
     drain_loop q no_report
       (snd (queue_tx (\<lambda>a. recover_in_flight a (se_me q) (se_locks q (en_world e)) (now_of q e)) e))"

definition next_outbox_retry :: "'w sync_env \<Rightarrow> 'w engine \<Rightarrow> millis option" where
  "next_outbox_retry q e =
     (let retry = next_retry_at (sd_account (en_db e));
          poll = (if in_flight (sd_account (en_db e)) then Some (now_of q e + BUSY_POLL_MS) else None)
      in (case (retry, poll) of
            (Some a, Some b) \<Rightarrow> Some (min a b)
          | (Some a, None) \<Rightarrow> Some a
          | (None, b) \<Rightarrow> b))"

definition apply_change_recorded ::
    "'w sync_env \<Rightarrow> local_change \<Rightarrow> string option \<Rightarrow> 'w engine \<Rightarrow> (sync_error, applied_change) result \<times> 'w engine" where
  "apply_change_recorded q change record_as e =
     (case apply_local_change_recorded (sd_account (en_db e)) change True record_as (now_of q e) of
        Inl x \<Rightarrow> (Err (StoreFailed x), e)
      | Inr (a, applied) \<Rightarrow>
          (Ok applied, publish (ac_changes applied) (e\<lparr>en_db := (en_db e)\<lparr>sd_account := a\<rparr>\<rparr>)))"

section \<open>Every present message is changed\<close>

text \<open>The labels of the messages a server holds, and what a label change for some of them does.\<close>

definition changed_on_server ::
    "label_op \<Rightarrow> (message_id \<rightharpoonup> label_id set) \<Rightarrow> message_id \<rightharpoonup> label_id set" where
  "changed_on_server op srv =
     (\<lambda>m. if m \<in> set (lo_message_ids op) then map_option (relabel (lo_add op) (lo_remove op)) (srv m) else srv m)"

text \<open>
  What is relied on of the provider: success means that every message of the batch it holds was
  changed; "not found" is answered only when a message of the batch is gone, and may have
  changed any part of the batch, none or all of it. Both ways a batch endpoint can treat a
  missing id are covered. Nothing is said of other errors.
\<close>

definition label_server :: "'w mail_provider \<Rightarrow> ('w \<Rightarrow> message_id \<rightharpoonup> label_id set) \<Rightarrow> bool" where
  "label_server P server \<longleftrightarrow>
     (\<forall>op w w'. mp_modify_labels P op w = (Ok (), w') \<longrightarrow> server w' = changed_on_server op (server w)) \<and>
     (\<forall>op w m w'. mp_modify_labels P op w = (Err (NotFoundAt m), w') \<longrightarrow>
        \<not> set (lo_message_ids op) \<subseteq> dom (server w) \<and>
        (\<exists>part. set part \<subseteq> set (lo_message_ids op) \<and>
           server w' = changed_on_server (op\<lparr>lo_message_ids := part\<rparr>) (server w)))"

lemma relabel_idem: "relabel a r (relabel a r S) = relabel a r S"
  by (auto simp: relabel_def)

lemma changed_twice:
  "changed_on_server (op\<lparr>lo_message_ids := ys\<rparr>) (changed_on_server (op\<lparr>lo_message_ids := xs\<rparr>) srv) =
   changed_on_server (op\<lparr>lo_message_ids := xs @ ys\<rparr>) srv"
proof
  fix m
  show "changed_on_server (op\<lparr>lo_message_ids := ys\<rparr>) (changed_on_server (op\<lparr>lo_message_ids := xs\<rparr>) srv) m =
      changed_on_server (op\<lparr>lo_message_ids := xs @ ys\<rparr>) srv m"
    by (cases "srv m") (auto simp: changed_on_server_def relabel_idem)
qed

lemma changed_same_set:
  "set xs = set (lo_message_ids op) \<Longrightarrow> changed_on_server (op\<lparr>lo_message_ids := xs\<rparr>) srv = changed_on_server op srv"
  by (auto simp: changed_on_server_def fun_eq_iff)

lemma changed_part_then_halves:
  assumes "set part \<subseteq> set (lo_message_ids op)"
  shows "changed_on_server (op\<lparr>lo_message_ids := drop n (lo_message_ids op)\<rparr>)
     (changed_on_server (op\<lparr>lo_message_ids := take n (lo_message_ids op)\<rparr>)
       (changed_on_server (op\<lparr>lo_message_ids := part\<rparr>) srv)) = changed_on_server op srv"
proof -
  have "set (take n (lo_message_ids op)) \<union> set (drop n (lo_message_ids op)) = set (lo_message_ids op)"
    by (metis append_take_drop_id set_append)
  with assms show ?thesis unfolding changed_twice by (intro changed_same_set) auto
qed

lemma changed_missing:
  assumes "length (lo_message_ids op) \<le> 1" "\<not> set (lo_message_ids op) \<subseteq> dom srv" "set part \<subseteq> set (lo_message_ids op)"
  shows "changed_on_server (op\<lparr>lo_message_ids := part\<rparr>) srv = srv" "changed_on_server op srv = srv"
proof -
  from assms(1,2) obtain m where m: "lo_message_ids op = [m]" "srv m = None"
    by (cases "lo_message_ids op") (auto simp: domIff)
  with assms(3) show "changed_on_server (op\<lparr>lo_message_ids := part\<rparr>) srv = srv" "changed_on_server op srv = srv"
    by (auto simp: changed_on_server_def fun_eq_iff)
qed

lemma modify_stack:
  assumes "label_server P server" "modify_labels_present P ops w = (Ok (), w')"
  shows "server w' = fold changed_on_server ops (server w)"
  using assms
proof (induction P ops w rule: modify_labels_present.induct)
  case (2 P op pending w)
  note srv = "2.prems"(1) [unfolded label_server_def] and run = "2.prems"(2)
  obtain r w1 where call: "mp_modify_labels P op w = (r, w1)" by fastforce
  show ?case
  proof (cases r)
    case (Inr u)
    from srv call Inr have "server w1 = changed_on_server op (server w)" by auto
    with "2.IH"(3) [OF call [symmetric] Inr "2.prems"(1)] run call Inr show ?thesis by simp
  next
    case (Inl x)
    with run call obtain m where x: "x = NotFoundAt m" by (cases x) auto
    from srv call Inl x obtain part where gone: "\<not> set (lo_message_ids op) \<subseteq> dom (server w)"
      and part: "set part \<subseteq> set (lo_message_ids op)" "server w1 = changed_on_server (op\<lparr>lo_message_ids := part\<rparr>) (server w)"
      by blast
    show ?thesis
    proof (cases "1 < length (lo_message_ids op)")
      case True
      with run call Inl x have "modify_labels_present P
          (op\<lparr>lo_message_ids := take (length (lo_message_ids op) div 2) (lo_message_ids op)\<rparr> #
           op\<lparr>lo_message_ids := drop (length (lo_message_ids op) div 2) (lo_message_ids op)\<rparr> # pending) w1 = (Ok (), w')"
        by (simp add: Let_def)
      from "2.IH"(1) [OF call [symmetric] Inl x True refl "2.prems"(1) this] show ?thesis
        by (simp add: part(2) changed_part_then_halves [OF part(1)])
    next
      case False
      with run call Inl x have "modify_labels_present P pending w1 = (Ok (), w')" by simp
      from "2.IH"(2) [OF call [symmetric] Inl x False "2.prems"(1) this] False changed_missing [OF _ gone part(1)] part(2)
      show ?thesis by simp
    qed
  qed
qed simp

lemma modify_stack_ok:
  assumes answers: "\<And>op w. fst (mp_modify_labels P op w) = Ok () \<or> (\<exists>m. fst (mp_modify_labels P op w) = Err (NotFoundAt m))"
  shows "fst (modify_labels_present P ops w) = Ok ()"
  using answers
proof (induction P ops w rule: modify_labels_present.induct)
  case (2 P op pending w)
  obtain r w1 where call: "mp_modify_labels P op w = (r, w1)" by fastforce
  with "2.prems" [of op w] have "r = Ok () \<or> (\<exists>m. r = Err (NotFoundAt m))" by simp
  then show ?case
  proof (elim disjE exE)
    assume r: "r = Ok ()"
    from "2.IH"(3) [OF call [symmetric] r "2.prems"] call r show ?thesis by simp
  next
    fix m assume r: "r = Err (NotFoundAt m)"
    show ?thesis
    proof (cases "1 < length (lo_message_ids op)")
      case True
      from "2.IH"(1) [OF call [symmetric] r refl True refl "2.prems"] call r True show ?thesis by (simp add: Let_def)
    next
      case False
      from "2.IH"(2) [OF call [symmetric] r refl False "2.prems"] call r False show ?thesis by simp
    qed
  qed
qed simp

text \<open>
  Claim C15: a label change that ends well has changed every message of its batch that the
  server holds, and nothing else, however the server treats a batch with messages that are
  gone; and messages that are gone alone never make it fail.
\<close>

theorem label_change_reaches_every_present_message:
  assumes "label_server P server"
  shows "(modify_labels_present P [op] w = (Ok (), w') \<longrightarrow> server w' = changed_on_server op (server w)) \<and>
    ((\<forall>op w. fst (mp_modify_labels P op w) = Ok () \<or> (\<exists>m. fst (mp_modify_labels P op w) = Err (NotFoundAt m))) \<longrightarrow>
       fst (modify_labels_present P [op] w) = Ok ())"
  using modify_stack [OF assms, of "[op]" w w'] modify_stack_ok [of P "[op]" w] by auto

text \<open>A server that refuses every batch with a missing id, its world the labels it holds.\<close>

definition strict_provider :: "(message_id \<rightharpoonup> label_id set) mail_provider" where
  "strict_provider = \<lparr>
     mp_profile = (\<lambda>w. (Err Unauthorized, w)),
     mp_list_labels = (\<lambda>w. (Ok [], w)),
     mp_list_message_ids = (\<lambda>flt page w. (Err Unauthorized, w)),
     mp_fetch_messages = (\<lambda>ids prio w. (Ok [], w)),
     mp_changes_since = (\<lambda>c w. (Err CursorExpired, w)),
     mp_modify_labels = (\<lambda>op w. if list_all (\<lambda>m. w m \<noteq> None) (lo_message_ids op)
        then (Ok (), changed_on_server op w) else (Err (NotFoundAt ''gone''), w)),
     mp_move_to_trash = (\<lambda>m w. (Ok (), w)),
     mp_restore_from_trash = (\<lambda>m w. (Ok (), w)),
     mp_send = (\<lambda>raw t w. (Ok ''sent'', w)),
     mp_already_sent = (\<lambda>raw w. (Ok None, w)),
     mp_save_draft = (\<lambda>x raw t w. (Ok ''d1'', w)),
     mp_delete_draft = (\<lambda>d w. (Ok (), w)),
     mp_list_drafts = (\<lambda>w. (Ok None, w)),
     mp_create_label = (\<lambda>n c w. (Err Unauthorized, w)), mp_label_sync = LsProvider,
     mp_adopts_sent_copies = False\<rparr>"

lemma strict_label_server: "label_server strict_provider (\<lambda>w. w)"
proof -
  have none: "changed_on_server (op\<lparr>lo_message_ids := []\<rparr>) srv = srv" for op srv
    by (auto simp: changed_on_server_def)
  have "\<not> set (lo_message_ids op) \<subseteq> dom w \<and> (\<exists>part. set part \<subseteq> set (lo_message_ids op) \<and>
      w' = changed_on_server (op\<lparr>lo_message_ids := part\<rparr>) w)"
    if "mp_modify_labels strict_provider op w = (Err (NotFoundAt m), w')" for op w m w'
  proof
    show "\<not> set (lo_message_ids op) \<subseteq> dom w"
      using that by (auto simp: strict_provider_def list_all_iff dom_def subset_iff split: if_splits)
    have "w' = w" using that by (simp add: strict_provider_def split: if_splits)
    then show "\<exists>part. set part \<subseteq> set (lo_message_ids op) \<and> w' = changed_on_server (op\<lparr>lo_message_ids := part\<rparr>) w"
      by (intro exI [of _ "[]"]) (simp add: none)
  qed
  then show ?thesis
    by (auto simp: label_server_def) (auto simp: strict_provider_def split: if_splits)
qed

theorem label_change_reaches_every_present_message_witness:
  "let op = \<lparr>lo_message_ids = [''a'', ''gone'', ''b''], lo_add = [''L''], lo_remove = []\<rparr>;
       srv = [''a'' \<mapsto> {}, ''b'' \<mapsto> {''X''}]
   in snd (modify_labels_present strict_provider [op] srv) = changed_on_server op srv \<and>
      fst (modify_labels_present strict_provider [op] srv) = Ok ()"
proof -
  let ?op = "\<lparr>lo_message_ids = [''a'', ''gone'', ''b''], lo_add = [''L''], lo_remove = []\<rparr> :: label_op"
  let ?srv = "[''a'' \<mapsto> {}, ''b'' \<mapsto> {''X''}] :: message_id \<rightharpoonup> label_id set"
  have "\<forall>op w. fst (mp_modify_labels strict_provider op w) = Ok () \<or>
      (\<exists>m. fst (mp_modify_labels strict_provider op w) = Err (NotFoundAt m))"
    by (simp add: strict_provider_def)
  then have ok: "fst (modify_labels_present strict_provider [?op] ?srv) = Ok ()"
    using label_change_reaches_every_present_message [OF strict_label_server, of ?op ?srv] by blast
  then have "modify_labels_present strict_provider [?op] ?srv = (Ok (), snd (modify_labels_present strict_provider [?op] ?srv))"
    by (metis prod.collapse)
  with label_change_reaches_every_present_message [OF strict_label_server, of ?op ?srv] ok
  show ?thesis by (simp add: Let_def)
qed

section \<open>The drain returns\<close>

text \<open>
  The work an outbox can still make: a sent draft and a mirrored draft may each queue the
  deletion of a server draft, nothing else queues anything.
\<close>

fun op_weight :: "outbox_op \<Rightarrow> nat" where
  "op_weight (OpSend d raw t l) = 2"
| "op_weight (OpSyncDraft d f) = 2"
| "op_weight _ = 1"

definition row_weight :: "outbox_row \<Rightarrow> nat" where
  "row_weight r = (if ob_state r = Pending then op_weight (ob_op r) else 0)"

definition pending_weight :: "account_db \<Rightarrow> nat" where
  "pending_weight a = sum_list (map row_weight (db_outbox a))"

definition claimed :: "account_db \<Rightarrow> string \<Rightarrow> queued_op \<Rightarrow> bool" where
  "claimed a me queued \<longleftrightarrow> (\<exists>r \<in> set (db_outbox a). claim_row (qo_id queued) me r \<and> ob_op r = qo_op queued)"

lemma op_weight_pos: "0 < op_weight p"
  by (cases p) simp_all

lemma sum_update_le:
  "(\<And>r. r \<in> set rows \<Longrightarrow> p r \<Longrightarrow> row_weight (f r) \<le> row_weight r) \<Longrightarrow>
   sum_list (map row_weight (sql_update p f rows)) \<le> sum_list (map row_weight rows)"
  by (induction rows) (auto simp: sql_update_def intro: add_mono)

lemma sum_delete_le: "sum_list (map row_weight (sql_delete p rows)) \<le> sum_list (map row_weight rows)"
  by (induction rows) (auto simp: sql_delete_def)

lemma claimed_row: "outbox_ok a \<Longrightarrow> claimed a me queued \<Longrightarrow>
  List.find (\<lambda>r. ob_id r = qo_id queued) (db_outbox a) = Some r \<Longrightarrow> ob_op r = qo_op queued"
  using outbox_table.key_unique [OF outbox_ok_distinct, of a r]
  by (auto simp: claimed_def claim_row_def dest: find_Some_in)

lemma claim_decreases:
  assumes "outbox_ok a" "claim_next a me now lease = (a', Ready queued)"
  shows "pending_weight a' + op_weight (qo_op queued) = pending_weight a" "outbox_ok a'" "claimed a' me queued"
proof -
  from claim_next_cases [OF assms(1), of me now lease] assms(2) obtain before r after where
    "db_outbox a = before @ r # after" "ob_state r = Pending"
    "a' = a\<lparr>db_outbox := before @ r\<lparr>ob_state := InFlight, ob_claimed_by := Some me, ob_lease_until := Some lease\<rparr> # after\<rparr>"
    "queued = \<lparr>qo_id = ob_id r, qo_op = ob_op r, qo_attempts = clamp_u32 (ob_attempts r)\<rparr>"
    by auto
  then show "pending_weight a' + op_weight (qo_op queued) = pending_weight a" "claimed a' me queued"
    by (simp_all add: pending_weight_def row_weight_def claimed_def claim_row_def)
  show "outbox_ok a'" using claim_next_ok [OF assms(1), of me now lease] assms(2) by simp
qed

lemma enqueue_weight: "pending_weight (fst (enqueue a p now)) = pending_weight a + op_weight p"
  by (simp add: pending_weight_def enqueue_def enqueue_held_def Let_def row_weight_def)

lemma enqueue_claimed: "claimed a me queued \<Longrightarrow> claimed (fst (enqueue a p now)) me queued"
  by (auto simp: claimed_def enqueue_def enqueue_held_def Let_def)

text \<open>The calls of an op change the outbox only by queueing the deletion of a draft discarded meanwhile.\<close>

definition grows_by :: "nat \<Rightarrow> string \<Rightarrow> queued_op \<Rightarrow> account_db \<Rightarrow> account_db \<Rightarrow> bool" where
  "grows_by n me queued a a' \<longleftrightarrow>
     (outbox_ok a \<and> claimed a me queued \<longrightarrow>
        outbox_ok a' \<and> claimed a' me queued \<and> pending_weight a' \<le> pending_weight a + n)"

lemma grows_same: "db_outbox a' = db_outbox a \<Longrightarrow> grows_by n me queued a a'"
  by (auto simp: grows_by_def pending_weight_def claimed_def intro: outbox_ok_same)

lemma call_db [simp]: "en_db (snd (call_world f e)) = en_db e"
  by (simp add: call_world_def split: prod.split)

lemma mirror_draft_grows:
  "grows_by (Suc 0) me queued (sd_account (en_db e)) (sd_account (en_db (snd (mirror_draft q d f e))))"
proof -
  have same: "grows_by (Suc 0) me queued a a" for a by (rule grows_same) simp
  have upd: "grows_by (Suc 0) me queued a (set_gmail_draft_id a d g)" for a g
    by (rule grows_same) (simp add: set_gmail_draft_id_def)
  have enq: "grows_by (Suc 0) me queued a (fst (enqueue a (OpDeleteDraft g) now))" for a g now
    by (simp add: grows_by_def enqueue_ok enqueue_claimed enqueue_weight)
  show ?thesis
    unfolding mirror_draft_def Let_def queue_tx_def
    by (auto simp: same upd enq split: option.split prod.split sum.split if_split dest!: frame_db_afterD)
qed

lemma remember_own_db [simp]: "en_db (remember_own q ids add remove e) = en_db e"
  by (simp add: remember_own_def Let_def)

lemma perform_grows:
  "grows_by (case qo_op queued of OpSyncDraft d f \<Rightarrow> 1 | _ \<Rightarrow> 0) me queued
     (sd_account (en_db e)) (sd_account (en_db (snd (perform q queued e))))"
proof (cases "qo_op queued")
  case (OpSyncDraft d f)
  then have "snd (perform q queued e) = snd (mirror_draft q d f e)"
    by (simp add: perform_def Let_def split: prod.split)
  with OpSyncDraft mirror_draft_grows show ?thesis by simp
qed (auto simp: perform_def Let_def dest!: frame_db_afterD intro!: grows_same split: prod.split option.split)

lemma renew_same:
  assumes "outbox_ok a" "claimed a me queued"
  shows "let a' = fst (renew a i c until) in
    outbox_ok a' \<and> claimed a' me queued \<and> pending_weight a' \<le> pending_weight a"
proof -
  from assms(2) obtain r where r: "r \<in> set (db_outbox a)" "claim_row (qo_id queued) me r" "ob_op r = qo_op queued"
    by (auto simp: claimed_def)
  let ?r = "if claim_row i c r then r\<lparr>ob_lease_until := Some until\<rparr> else r"
  have "?r \<in> set (db_outbox (fst (renew a i c until)))" using r(1) by (auto simp: renew_def sql_update_def)
  moreover have "claim_row (qo_id queued) me ?r \<and> ob_op ?r = qo_op queued" using r by (simp add: claim_row_def)
  ultimately have "claimed (fst (renew a i c until)) me queued" unfolding claimed_def by blast
  moreover have "pending_weight (fst (renew a i c until)) \<le> pending_weight a"
    unfolding pending_weight_def renew_def by (simp, rule sum_update_le) (simp add: row_weight_def)
  ultimately show ?thesis using renew_ok [OF assms(1)] by (simp add: Let_def)
qed

lemma renewals_same:
  assumes "outbox_ok a" "claimed a me queued"
  shows "outbox_ok (renewals a i c t0 t1) \<and> claimed (renewals a i c t0 t1) me queued \<and>
    pending_weight (renewals a i c t0 t1) \<le> pending_weight a"
proof -
  have "outbox_ok d \<and> claimed d me queued \<and> pending_weight d \<le> pending_weight a \<Longrightarrow>
      outbox_ok (foldl (\<lambda>d k. fst (renew d i c (g k))) d ks) \<and>
      claimed (foldl (\<lambda>d k. fst (renew d i c (g k))) d ks) me queued \<and>
      pending_weight (foldl (\<lambda>d k. fst (renew d i c (g k))) d ks) \<le> pending_weight a" for d g and ks :: "nat list"
  proof (induction ks arbitrary: d)
    case (Cons k ks)
    from renew_same [of d me queued i c "g k"] Cons.prems Cons.IH [of "fst (renew d i c (g k))"] show ?case
      by (auto simp: Let_def)
  qed simp
  with assms show ?thesis by (simp add: renewals_def)
qed

lemma leased_grows:
  "grows_by (case qo_op queued of OpSyncDraft d f \<Rightarrow> 1 | _ \<Rightarrow> 0) me queued
     (sd_account (en_db e)) (sd_account (en_db (snd (leased q queued e))))"
proof (cases "perform q queued e")
  case (Pair r e1)
  define n :: nat where "n = (case qo_op queued of OpSyncDraft d f \<Rightarrow> 1 | _ \<Rightarrow> 0)"
  define a1 where "a1 = sd_account (en_db e1)"
  define a2 where "a2 = renewals a1 (qo_id queued) (cl_id (se_me q)) (now_of q e) (now_of q e1)"
  have a2: "sd_account (en_db (snd (leased q queued e))) = a2"
    using Pair by (simp add: a1_def a2_def leased_def Let_def queue_tx_def)
  have a1: "grows_by n me queued (sd_account (en_db e)) a1"
    using perform_grows [of queued me e q] Pair by (simp add: a1_def n_def)
  have "grows_by n me queued (sd_account (en_db e)) a2"
    unfolding grows_by_def
  proof (intro impI)
    assume "outbox_ok (sd_account (en_db e)) \<and> claimed (sd_account (en_db e)) me queued"
    with a1 have g: "outbox_ok a1" "claimed a1 me queued" "pending_weight a1 \<le> pending_weight (sd_account (en_db e)) + n"
      unfolding grows_by_def by blast+
    show "outbox_ok a2 \<and> claimed a2 me queued \<and> pending_weight a2 \<le> pending_weight (sd_account (en_db e)) + n"
      using renewals_same [OF g(1,2), of "qo_id queued" "cl_id (se_me q)" "now_of q e" "now_of q e1"] g(3)
      unfolding a2_def by linarith
  qed
  then show ?thesis unfolding a2 n_def .
qed

lemma discard_weight: "pending_weight (discard a i now) \<le> pending_weight a + 1"
proof -
  have eq: "pending_weight (delete_draft_row (draft_gone a i s now) i) = pending_weight a" for s
    by (simp add: pending_weight_def delete_draft_row_def)
  then show ?thesis by (auto simp: discard_def Let_def enqueue_weight split: option.split)
qed

lemma delete_weight: "pending_weight (a\<lparr>db_outbox := sql_delete p (db_outbox a)\<rparr>) \<le> pending_weight a"
  by (simp add: pending_weight_def sum_delete_le)

lemma complete_weight:
  assumes "outbox_ok a" "claimed a me queued"
  shows "pending_weight (complete a (qo_id queued)) \<le> pending_weight a + of_bool (is_send (qo_op queued))"
proof -
  obtain r where find: "List.find (\<lambda>r. ob_id r = qo_id queued) (db_outbox a) = Some r"
    using assms(2) by (cases "List.find (\<lambda>r. ob_id r = qo_id queued) (db_outbox a)")
      (auto simp: find_None_iff claimed_def claim_row_def)
  note op = claimed_row [OF assms find]
  show ?thesis
  proof (cases "qo_op queued")
    case (OpSend d raw t l)
    with find op have "pending_weight (complete a (qo_id queued)) \<le> pending_weight (discard a d (ob_created_at r))"
      by (simp add: complete_def Let_def delete_weight)
    with discard_weight [of a d "ob_created_at r"] OpSend show ?thesis by simp
  qed (use find op delete_weight in \<open>simp_all add: complete_def Let_def\<close>)
qed

lemma fail_outbox:
  assumes "fail a i err = Ok (a', ch)"
  shows "db_outbox a' = sql_update (\<lambda>r. ob_id r = i)
    (\<lambda>r. r\<lparr>ob_state := Failed, ob_last_error := Some err, ob_claimed_by := None, ob_lease_until := None\<rparr>) (db_outbox a)"
  using assms by (auto simp: fail_def Let_def split: option.splits sum.splits prod.splits)

lemma fail_keeps:
  assumes "outbox_ok a" "fail a i err = Ok (a', ch)"
  shows "outbox_ok a'" "pending_weight a' \<le> pending_weight a"
proof -
  let ?f = "\<lambda>r. r\<lparr>ob_state := Failed, ob_last_error := Some err, ob_claimed_by := None, ob_lease_until := None\<rparr>"
  have "0 \<le> ob_attempts r" if "r \<in> set (db_outbox a)" for r
    using that assms(1) by (simp add: outbox_ok_def row_ok_def)
  then have "outbox_ok (a\<lparr>db_outbox := sql_update (\<lambda>r. ob_id r = i) ?f (db_outbox a)\<rparr>)"
    by (intro outbox_ok_update [OF assms(1)]) (auto simp: row_ok_def)
  then show "outbox_ok a'" by (rule outbox_ok_same) (simp add: fail_outbox [OF assms(2)])
  show "pending_weight a' \<le> pending_weight a"
    unfolding pending_weight_def fail_outbox [OF assms(2)] by (rule sum_update_le) (simp add: row_weight_def)
qed

lemma mail_weight [simp]: "pending_weight (a\<lparr>db_mail := m\<rparr>) = pending_weight a" "outbox_ok (a\<lparr>db_mail := m\<rparr>) = outbox_ok a"
  by (simp_all add: pending_weight_def outbox_ok_def)

lemma record_keeps:
  assumes "outbox_ok a" "claimed a me queued" "record_outcome a me queued r now = Ok (a', ch, out)"
  shows "outbox_ok a'" "out \<noteq> WillRetry \<Longrightarrow> pending_weight a' \<le> pending_weight a + of_bool (is_send (qo_op queued))"
proof -
  note weight = complete_weight [OF assms(1,2)] and ok = complete_ok [OF assms(1)] and fails = fail_keeps [OF assms(1)]
  show "outbox_ok a'"
    using assms(3) ok fails(1) retry_later_ok [OF assms(1)] assms(1)
    by (auto simp: record_outcome_def Let_def split: sum.splits prod.splits if_splits)
  show "out \<noteq> WillRetry \<Longrightarrow> pending_weight a' \<le> pending_weight a + of_bool (is_send (qo_op queued))"
    using assms(3) weight
    by (auto simp: record_outcome_def Let_def split: sum.splits prod.splits if_splits dest!: fails(2))
qed

text \<open>One op: afterwards the outbox has less left to do, unless the op is to be retried.\<close>

lemma record_api_db [simp]: "en_db (record_api q t j r n s e) = en_db e"
  by (simp add: record_api_def)

lemma tell_pending_db [simp]: "en_db (tell_pending e) = en_db e"
  by (simp add: tell_pending_def tell_def Let_def)

lemma run_op_decreases:
  assumes "outbox_ok a" "claim_next a (cl_id (se_me q)) now lease = (a', Ready queued)" "sd_account (en_db e1) = a'"
    "run_op q queued now e1 = (Ok (out, err), e2)"
  shows "outbox_ok (sd_account (en_db e2))"
    and "out \<noteq> WillRetry \<Longrightarrow> pending_weight (sd_account (en_db e2)) < pending_weight a"
proof -
  let ?me = "cl_id (se_me q)"
  note c = claim_decreases [OF assms(1,2)]
  define n :: nat where "n = (case qo_op queued of OpSyncDraft d f \<Rightarrow> 1 | _ \<Rightarrow> 0)"
  obtain r e' where l: "leased q queued e1 = (r, e')" by fastforce
  define a1 where "a1 = sd_account (en_db e')"
  have "grows_by n ?me queued a' a1"
    using leased_grows [of queued ?me e1 q] l assms(3) by (simp add: a1_def n_def)
  with c have a1: "outbox_ok a1" "claimed a1 ?me queued" "pending_weight a1 \<le> pending_weight a' + n"
    by (simp_all add: grows_by_def)
  obtain a2 ch where rec: "record_outcome a1 ?me queued r now = Ok (a2, ch, out)" and e2: "sd_account (en_db e2) = a2"
    using assms(4) l by (auto simp: run_op_def Let_def a1_def split: sum.splits prod.splits if_splits)
  note k = record_keeps [OF a1(1,2) rec]
  show "outbox_ok (sd_account (en_db e2))" using k(1) e2 by simp
  have "n + of_bool (is_send (qo_op queued)) < op_weight (qo_op queued)"
    by (cases "qo_op queued") (simp_all add: n_def)
  with k(2) a1(3) c(1) show "out \<noteq> WillRetry \<Longrightarrow> pending_weight (sd_account (en_db e2)) < pending_weight a"
    unfolding e2 by linarith
qed

definition drained :: "'w sync_env \<Rightarrow> 'w engine \<Rightarrow> bool" where
  "drained q e \<longleftrightarrow> \<not> in_flight (sd_account (en_db e)) \<and> next_ready (sd_account (en_db e)) (now_of q e) = None"

lemma drain_loop_returns:
  assumes "outbox_ok (sd_account (en_db e))"
  shows "\<exists>r e'. drain_loop q rep e = Some (r, e') \<and> outbox_ok (sd_account (en_db e')) \<and>
    (\<forall>rep'. r = Ok rep' \<longrightarrow> dp_busy rep' \<or> dp_retrying rep < dp_retrying rep' \<or> drained q e')"
  using assms
proof (induction "pending_weight (sd_account (en_db e))" arbitrary: e rep rule: less_induct)
  case less
  let ?a = "sd_account (en_db e)" and ?me = "cl_id (se_me q)" and ?now = "now_of q e"
  obtain a' cl where claim: "claim_next ?a ?me ?now (?now + LEASE_MS) = (a', cl)" by fastforce
  let ?e1 = "e\<lparr>en_db := (en_db e)\<lparr>sd_account := a'\<rparr>\<rparr>"
  have tx: "queue_tx (\<lambda>a. claim_next a ?me ?now (?now + LEASE_MS)) e = (cl, ?e1)"
    using claim by (simp add: queue_tx_def)
  have ok': "outbox_ok a'" using claim_next_ok [OF less.prems, of ?me ?now "?now + LEASE_MS"] claim by simp
  have now1: "now_of q ?e1 = ?now" by (simp add: now_of_def)
  show ?case
  proof (cases cl)
    case Idle
    with claim_next_cases [OF less.prems, of ?me ?now "?now + LEASE_MS"] claim have "\<not> in_flight a'" "next_ready a' ?now = None" by auto
    then have "drained q ?e1" by (simp add: drained_def now1)
    with Idle tx ok' show ?thesis by (subst drain_loop.simps) simp
  next
    case Busy
    with tx ok' show ?thesis by (subst drain_loop.simps) simp
  next
    case (Ready queued)
    obtain r e2 where run: "run_op q queued ?now ?e1 = (r, e2)" by fastforce
    show ?thesis
    proof (cases r)
      case (Inl x)
      have "outbox_ok (sd_account (en_db e2))"
      proof -
        obtain r' e' where l: "leased q queued ?e1 = (r', e')" by fastforce
        have "outbox_ok (sd_account (en_db e'))"
          using leased_grows [of queued ?me ?e1 q] l claim_decreases(2,3) [OF less.prems claim [unfolded Ready]]
          by (simp add: grows_by_def)
        with run l Inl show ?thesis by (auto simp: run_op_def Let_def split: sum.splits prod.splits)
      qed
      with tx Ready run Inl show ?thesis by (subst drain_loop.simps) simp
    next
      case (Inr o1)
      obtain out err where out: "o1 = (out, err)" by fastforce
      note k = run_op_decreases [OF less.prems claim [unfolded Ready], of ?e1 out err e2]
      have ok2: "outbox_ok (sd_account (en_db e2))" using k(1) run Inr out by simp
      have step: "drain_loop q rep e = (case out of
            WasSent \<Rightarrow> drain_loop q (rep\<lparr>dp_sent := dp_sent rep + 1\<rparr>) e2
          | WasDropped \<Rightarrow> drain_loop q (rep\<lparr>dp_sent := dp_sent rep + 1\<rparr>) e2
          | WillRetry \<Rightarrow> Some (Ok (rep\<lparr>dp_retrying := dp_retrying rep + 1\<rparr>), e2)
          | HasFailed \<Rightarrow> if err = Some Unauthorized then Some (Err (ProviderFailed Unauthorized), e2)
              else drain_loop q (rep\<lparr>dp_failed := dp_failed rep + 1\<rparr>) e2)"
        using tx Ready run Inr out by (subst drain_loop.simps) simp
      show ?thesis
      proof (cases "out = WillRetry")
        case True
        with step ok2 show ?thesis by simp
      next
        case False
        with k(2) run Inr out have smaller: "pending_weight (sd_account (en_db e2)) < pending_weight ?a" by simp
        show ?thesis
          using less.hyps [OF smaller ok2, of "rep\<lparr>dp_sent := dp_sent rep + 1\<rparr>"]
            less.hyps [OF smaller ok2, of "rep\<lparr>dp_failed := dp_failed rep + 1\<rparr>"] step ok2 False
          by (cases out) (auto split: if_splits)
      qed
    qed
  qed
qed

text \<open>
  Claim C16: draining the outbox always returns, whatever the provider answers, and leaves it
  well formed. When it returns a report that names no other drainer and nothing to retry, no
  op is in flight and none is ready: everything that could be sent was.
\<close>

theorem draining_the_outbox_returns:
  assumes "outbox_ok (sd_account (en_db e))"
  shows "\<exists>r e'. drain_outbox q e = Some (r, e') \<and> outbox_ok (sd_account (en_db e')) \<and>
    (\<forall>rep. r = Ok rep \<and> \<not> dp_busy rep \<and> dp_retrying rep = 0 \<longrightarrow>
       \<not> in_flight (sd_account (en_db e')) \<and> next_ready (sd_account (en_db e')) (now_of q e') = None)"
proof -
  let ?e = "snd (queue_tx (\<lambda>a. recover_in_flight a (se_me q) (se_locks q (en_world e)) (now_of q e)) e)"
  have "outbox_ok (sd_account (en_db ?e))"
    using recover_in_flight_ok [OF assms] by (simp add: queue_tx_def split: prod.split) (metis fst_conv)
  from drain_loop_returns [OF this, of q no_report] show ?thesis
    by (auto simp: drain_outbox_def no_report_def drained_def)
qed

text \<open>A run on concrete data: the held send stays, the label change behind it goes out.\<close>

lemma quiet_modify: "mp_modify_labels (se_provider quiet_env) op w = (Ok (), w + 1)"
  by (simp add: quiet_env_def quiet_provider_def)

lemma quiet_env_simps:
  "now_of quiet_env e = int (en_world e)" "cl_id (se_me quiet_env) = ''me''"
  by (simp_all add: now_of_def quiet_env_def)

lemma finish_nothing: "finish (writer_new m) = Ok (m, Map.empty)"
  by (simp add: finish_def writer_new_def)

definition sample_drain :: "nat engine" where
  "sample_drain = new_engine quiet_env (new_sync_db\<lparr>sd_account := held_send_db\<rparr>) 5"

abbreviation sample_op :: queued_op where
  "sample_op \<equiv> \<lparr>qo_id = 2, qo_op = OpModifyLabels [''m1''] [] [''INBOX''], qo_attempts = 0\<rparr>"

lemma sample_recover:
  "snd (queue_tx (\<lambda>a. recover_in_flight a me locks now) sample_drain) = sample_drain"
  by (simp add: queue_tx_def sample_drain_def new_engine_def recover_in_flight_def sql_update_def held_send_rows released_def)

lemma sample_run:
  assumes "sd_account (en_db e) = fst (claim_next held_send_db ''me'' 5 l)" "en_world e = 5"
  shows "\<exists>e'. run_op quiet_env sample_op 5 e = (Ok (WasSent, None), e') \<and> en_world e' = 6 \<and>
    db_outbox (sd_account (en_db e')) = [hd (db_outbox held_send_db)]"
proof -
  let ?a = "fst (claim_next held_send_db ''me'' 5 l)"
  have rows: "db_outbox ?a = [hd (db_outbox held_send_db), (db_outbox held_send_db ! 1)
      \<lparr>ob_state := InFlight, ob_claimed_by := Some ''me'', ob_lease_until := Some l\<rparr>]"
    by (simp add: claim_next_def in_flight_def next_ready_def held_send_rows held_at_def sql_count_def sql_update_def clamp_u32_def)
  obtain e1 where l: "leased quiet_env sample_op e = (Ok None, e1)" "en_world e1 = 6" "sd_account (en_db e1) = ?a"
    using assms by (simp add: leased_def perform_def Let_def remember_own_def call_world_def quiet_modify queue_tx_def
        quiet_env_simps renewals_def LEASE_RENEW_MS_def)
  let ?e2 = "record_api quiet_env 5 JobWrite ''one API call per change, with exact undo'' 1 True e1"
  have e2: "en_world ?e2 = 6" "en_db ?e2 = en_db e1" by (simp_all add: record_api_def record_done_def l)
  have "record_outcome ?a ''me'' sample_op (Ok None) 5 =
      Ok ((complete ?a 2)\<lparr>db_mail := db_mail (complete ?a 2)\<rparr>, Map.empty, WasSent)"
    by (simp add: record_outcome_def holds_def rows held_send_rows claim_row_def finish_nothing Let_def)
  moreover have "db_outbox (complete ?a 2) = [hd (db_outbox held_send_db)]"
    by (simp add: complete_def rows held_send_rows sql_delete_def)
  ultimately show ?thesis using l assms e2
    by (simp add: run_op_def Let_def quiet_env_simps publish_def tell_pending_def tell_def)
qed

lemma sample_drained: "map_option fst (drain_outbox quiet_env sample_drain) = Some (Ok (no_report\<lparr>dp_sent := 1\<rparr>))"
proof -
  let ?l = "5 + LEASE_MS"
  obtain e1 where c: "queue_tx (\<lambda>a. claim_next a ''me'' 5 ?l) sample_drain = (Ready sample_op, e1)"
    and e1: "sd_account (en_db e1) = fst (claim_next held_send_db ''me'' 5 ?l)" "en_world e1 = 5"
    by (simp add: queue_tx_def sample_drain_def new_engine_def claim_next_def in_flight_def next_ready_def held_send_rows
        held_at_def sql_count_def clamp_u32_def)
  from sample_run [OF e1] obtain e2 where r: "run_op quiet_env sample_op 5 e1 = (Ok (WasSent, None), e2)"
    and e2: "en_world e2 = 6" "db_outbox (sd_account (en_db e2)) = [hd (db_outbox held_send_db)]" by blast
  obtain e3 where c2: "queue_tx (\<lambda>a. claim_next a ''me'' 6 (6 + LEASE_MS)) e2 = (Idle, e3)"
    by (simp add: queue_tx_def claim_next_def in_flight_def next_ready_def e2 held_send_rows held_at_def)
  have w: "en_world sample_drain = 5" by (simp add: sample_drain_def new_engine_def)
  have "drain_loop quiet_env rep e2 = Some (Ok rep, e3)" for rep
    by (subst drain_loop.simps) (simp add: quiet_env_simps e2(1) c2)
  then have "drain_loop quiet_env no_report sample_drain = Some (Ok (no_report\<lparr>dp_sent := 1\<rparr>), e3)"
    by (subst drain_loop.simps) (simp add: quiet_env_simps w c r no_report_def)
  then show ?thesis by (simp add: drain_outbox_def sample_recover)
qed

theorem draining_the_outbox_returns_witness:
  "\<exists>rep e'. drain_outbox quiet_env sample_drain = Some (Ok rep, e') \<and>
     rep = no_report\<lparr>dp_sent := 1\<rparr> \<and> \<not> in_flight (sd_account (en_db e')) \<and>
     next_ready (sd_account (en_db e')) (now_of quiet_env e') = None"
proof -
  have "outbox_ok (sd_account (en_db sample_drain))"
    using held_send_db_ok by (simp add: sample_drain_def new_engine_def)
  from draining_the_outbox_returns [OF this, of quiet_env] obtain r e' where
    "drain_outbox quiet_env sample_drain = Some (r, e')"
    "\<forall>rep. r = Ok rep \<and> \<not> dp_busy rep \<and> dp_retrying rep = 0 \<longrightarrow>
       \<not> in_flight (sd_account (en_db e')) \<and> next_ready (sd_account (en_db e')) (now_of quiet_env e') = None" by blast
  with sample_drained show ?thesis by (simp add: no_report_def)
qed

end
