(* ===== verification/Incremental.thy ===== *)
theory Incremental
  imports Drain
begin

text \<open>
  Incremental sync, the rest of \<^verbatim>\<open>crates/mail-sync/src/engine.rs\<close>: the provider's history since the
  stored cursor is applied in one transaction, changes made elsewhere are told apart from the
  engine's own, and an expired cursor starts a resync. The theorems say that a transaction of
  history brings every stored message to the labels the server has, and which changes are
  reported as made elsewhere.
\<close>

section \<open>What a round reports\<close>

record new_mail =
  nm_id :: message_id
  nm_thread_id :: thread_id
  nm_from :: "email_address option"
  nm_subject :: string
  nm_snippet :: string

record external_label_change =
  xl_message :: message_id
  xl_thread :: thread_id
  xl_added :: "label_id list"
  xl_removed :: "label_id list"

record incremental_report =
  ir_added :: nat
  ir_deleted :: nat
  ir_relabeled :: nat
  ir_new_mail :: "new_mail list"
  ir_external :: "external_label_change list"

definition empty_report :: incremental_report where
  "empty_report = \<lparr>ir_added = 0, ir_deleted = 0, ir_relabeled = 0, ir_new_mail = [], ir_external = []\<rparr>"

definition OWN_CHANGE_WINDOW :: millis where "OWN_CHANGE_WINDOW = 2 * 60 * 60 * 1000"

text \<open>\<^verbatim>\<open>NewMail::from_incoming\<close>.\<close>

definition new_mail_from :: "incoming_message \<Rightarrow> bool \<Rightarrow> new_mail option" where
  "new_mail_from m stored =
     (let has = (\<lambda>l. l \<in> set (im_label_ids m))
      in if \<not> stored \<and> has INBOX \<and> has UNREAD \<and> \<not> has SENT \<and> \<not> has SPAM \<and> \<not> has TRASH
         then Some \<lparr>nm_id = im_id m, nm_thread_id = im_thread_id m, nm_from = im_from m,
                    nm_subject = im_subject m, nm_snippet = im_snippet m\<rparr>
         else None)"

section \<open>The changes made elsewhere\<close>

text \<open>One label change of the history: the message, its thread, the labels, and whether they were added.\<close>

type_synonym labeled_change = "message_id \<times> thread_id \<times> label_id list \<times> bool"

definition add_external :: "external_label_change list \<Rightarrow> labeled_change \<Rightarrow> external_label_change list" where
  "add_external out c =
     (let (m, t, ls, added) = c;
          out1 = (if list_ex (\<lambda>x. xl_message x = m) out then out
                  else out @ [\<lparr>xl_message = m, xl_thread = t, xl_added = [], xl_removed = []\<rparr>])
      in map (\<lambda>x. if xl_message x = m
                  then (if added then x\<lparr>xl_added := xl_added x @ ls\<rparr> else x\<lparr>xl_removed := xl_removed x @ ls\<rparr>) else x) out1)"

fun not_ours_loop ::
    "own_change list \<Rightarrow> external_label_change list \<Rightarrow> labeled_change list \<Rightarrow> external_label_change list" where
  "not_ours_loop own out [] = out"
| "not_ours_loop own out ((m, t, ls, added) # cs) =
     (let theirs = filter (\<lambda>l. \<not> list_ex (\<lambda>c. oc_message c = m \<and> oc_label c = l \<and> oc_added c = added) own) ls
      in if theirs = [] then not_ours_loop own out cs
         else not_ours_loop own (add_external out (m, t, theirs, added)) cs)"

definition not_ours :: "'w sync_env \<Rightarrow> labeled_change list \<Rightarrow> 'w engine \<Rightarrow> external_label_change list \<times> 'w engine" where
  "not_ours q cs e =
     (let own = filter (\<lambda>c. now_of q e - oc_at c < OWN_CHANGE_WINDOW) (en_own e)
      in (not_ours_loop own [] cs, e\<lparr>en_own := own\<rparr>))"

section \<open>The transaction\<close>

definition added_ids :: "change list \<Rightarrow> message_id list" where
  "added_ids cs = List.map_filter (\<lambda>c. case c of MessageAdded g t ls \<Rightarrow> Some g | _ \<Rightarrow> None) cs"

definition deleted_ids :: "change list \<Rightarrow> message_id list" where
  "deleted_ids cs = List.map_filter (\<lambda>c. case c of MessageDeleted g \<Rightarrow> Some g | _ \<Rightarrow> None) cs"

text \<open>The set to fetch; a \<^verbatim>\<open>BTreeSet\<close> goes in the order of its ids.\<close>

definition to_fetch :: "change list \<Rightarrow> message_id list" where
  "to_fetch cs = sort (remdups (filter (\<lambda>g. g \<notin> set (deleted_ids cs)) (added_ids cs)))"

text \<open>The state of the transaction's loops; the writer holds the mail, the account the queue.\<close>

record history_state =
  hs_writer :: mail_writer
  hs_account :: account_db
  hs_report :: incremental_report
  hs_unknown :: "message_id list"
  hs_external :: "(message_id \<times> label_id list \<times> bool) list"

definition count_added :: "new_mail option \<Rightarrow> incremental_report \<Rightarrow> incremental_report" where
  "count_added nm r = r\<lparr>ir_added := ir_added r + 1, ir_new_mail := ir_new_mail r @ (case nm of None \<Rightarrow> [] | Some x \<Rightarrow> [x])\<rparr>"

fun store_fetched :: "incoming_message list \<Rightarrow> history_state \<Rightarrow> (store_error, history_state) result" where
  "store_fetched [] h = Ok h"
| "store_fetched (m # ms) h =
     (let stored = (find_message (w_db (hs_writer h)) (im_id m) \<noteq> None)
      in (case upsert_message (hs_writer h) m of
            Inl x \<Rightarrow> Err x
          | Inr w \<Rightarrow> store_fetched ms
              (h\<lparr>hs_writer := w, hs_report := count_added (new_mail_from m stored) (hs_report h)\<rparr>)))"

definition relabel_step ::
    "message_id \<Rightarrow> label_id list \<Rightarrow> bool \<Rightarrow> history_state \<Rightarrow> (store_error, history_state) result" where
  "relabel_step g ls added h =
     (case modify_message_labels (hs_writer h) g (if added then ls else []) (if added then [] else ls) of
        Inl x \<Rightarrow> Err x
      | Inr (w, found) \<Rightarrow>
          Ok (if found
              then h\<lparr>hs_writer := w, hs_report := (hs_report h)\<lparr>ir_relabeled := ir_relabeled (hs_report h) + 1\<rparr>,
                     hs_external := hs_external h @ [(g, ls, added)]\<rparr>
              else h\<lparr>hs_writer := w, hs_unknown := hs_unknown h @ [g]\<rparr>))"

fun history_step :: "message_id set \<Rightarrow> change \<Rightarrow> history_state \<Rightarrow> (store_error, history_state) result" where
  "history_step fetched (MessageAdded g t ls) h = Ok h"
| "history_step fetched (MessageDeleted g) h =
     (let (w, found) = delete_message (hs_writer h) g
      in Ok (h\<lparr>hs_writer := w, hs_account := queue_remove (hs_account h) g,
               hs_report := (hs_report h)\<lparr>ir_deleted := ir_deleted (hs_report h) + (if found then 1 else 0)\<rparr>\<rparr>))"
| "history_step fetched (LabelsAdded g ls) h = (if g \<in> fetched then Ok h else relabel_step g ls True h)"
| "history_step fetched (LabelsRemoved g ls) h = (if g \<in> fetched then Ok h else relabel_step g ls False h)"

fun history_steps :: "message_id set \<Rightarrow> change list \<Rightarrow> history_state \<Rightarrow> (store_error, history_state) result" where
  "history_steps fetched [] h = Ok h"
| "history_steps fetched (c # cs) h =
     (case history_step fetched c h of Inl x \<Rightarrow> Err x | Inr h1 \<Rightarrow> history_steps fetched cs h1)"

text \<open>The thread of a label change is looked up at the end of the loop; a message deleted since has none.\<close>

definition with_thread :: "mail_store \<Rightarrow> message_id \<times> label_id list \<times> bool \<Rightarrow> labeled_change option" where
  "with_thread m x =
     (case x of (g, ls, added) \<Rightarrow>
        Option.bind (find_message m g) (\<lambda>r. map_option (\<lambda>t. (g, t_gmail_id t, ls, added)) (find_thread m (m_thread r))))"

definition history_tx ::
    "stored_labels \<Rightarrow> incoming_message list \<Rightarrow> change_set \<Rightarrow> sync_db \<Rightarrow>
     (store_error, sync_db \<times> thread_changes \<times> incremental_report \<times> labeled_change list) result" where
  "history_tx stored ms cs d =
     (let h0 = \<lparr>hs_writer = with_stored_labels (writer_new (db_mail (sd_account d))) stored, hs_account = sd_account d,
                hs_report = empty_report, hs_unknown = [], hs_external = []\<rparr>
      in (case store_fetched ms h0 of
            Inl x \<Rightarrow> Err x
          | Inr h1 \<Rightarrow>
              (case history_steps (im_id ` set ms) (cs_changes cs) h1 of
                 Inl x \<Rightarrow> Err x
               | Inr h2 \<Rightarrow>
                   let m = w_db (hs_writer h2);
                       a = fst (enqueue_urgent ((hs_account h2)\<lparr>db_mail := m\<rparr>) (hs_unknown h2));
                       d1 = set_sync_state (d\<lparr>sd_account := a\<rparr>) KEY_CURSOR (cs_cursor cs);
                       labeled = List.map_filter (with_thread m) (hs_external h2)
                   in (case finish (hs_writer h2) of
                         Inl x \<Rightarrow> Err x
                       | Inr (m', ch) \<Rightarrow> Ok (d1\<lparr>sd_account := a\<lparr>db_mail := m'\<rparr>\<rparr>, ch, hs_report h2, labeled)))))"

section \<open>A round\<close>

definition fetch_history ::
    "'w sync_env \<Rightarrow> message_id list \<Rightarrow> 'w engine \<Rightarrow> (sync_error, fetched_message list) result \<times> 'w engine" where
  "fetch_history q ids e =
     (if ids = [] then (Ok [], e) else lift_provider (call_world (mp_fetch_messages (se_provider q) ids Background) e))"

definition apply_history ::
    "'w sync_env \<Rightarrow> change_set \<Rightarrow> 'w engine \<Rightarrow> (sync_error, incremental_report) result \<times> 'w engine" where
  "apply_history q cs e =
     and_then (fetch_history q (to_fetch (cs_changes cs)) e) (\<lambda>fetched e1.
     and_then (db_write (history_tx (stored_labels_of q) (map (to_incoming (se_mime q)) fetched) cs) e1)
       (\<lambda>(ch, r, labeled) e2.
          let (external, e3) = not_ours q labeled e2;
              e4 = publish ch e3;
              (_, e5) = sync_drafts q e4
          in (Ok (r\<lparr>ir_external := external\<rparr>), report Incremental e5)))"

text \<open>Why the history is read over the API.\<close>

definition CHANGES_REASON :: string where
  "CHANGES_REASON = ''faster over the API: Gmail'' @ [CHR 0x27] @ ''s IMAP keeps no change log''"

definition sync_incremental ::
    "'w sync_env \<Rightarrow> 'w engine \<Rightarrow> ((sync_error, incremental_report) result \<times> 'w engine) option" where
  "sync_incremental q e =
     (case sync_state (en_db e) KEY_CURSOR of
        None \<Rightarrow> Some (Err NotBootstrapped, e)
      | Some cursor \<Rightarrow>
          run_then (drain_outbox q e) (\<lambda>_ e1.
            let start = now_of q e1;
                (r, e2) = call_world (mp_changes_since (se_provider q) cursor) e1;
                n = (case r of Inl _ \<Rightarrow> 0 | Inr cs \<Rightarrow> length (cs_changes cs));
                e3 = record_api q start JobChanges CHANGES_REASON n (\<not> isl r) e2
            in (case r of
                  Inr cs \<Rightarrow> Some (apply_history q cs e3)
                | Inl CursorExpired \<Rightarrow> run_then (start_resync q e3) (\<lambda>_ e4. Some (Err ResyncStarted, e4))
                | Inl x \<Rightarrow> Some (Err (ProviderFailed x), e3))))"

section \<open>What a write does to the labels\<close>

lemma label_sets_rows:
  assumes "distinct (map m_gmail_id (messages db))"
  shows "label_sets db g = Some S \<longleftrightarrow> (\<exists>r \<in> set (messages db). m_gmail_id r = g \<and> set (m_labels r) = S)"
proof
  assume "label_sets db g = Some S"
  then show "\<exists>r \<in> set (messages db). m_gmail_id r = g \<and> set (m_labels r) = S"
    by (auto simp: label_sets_def dest!: find_message_in)
next
  assume "\<exists>r \<in> set (messages db). m_gmail_id r = g \<and> set (m_labels r) = S"
  then obtain r where r: "r \<in> set (messages db)" "m_gmail_id r = g" "set (m_labels r) = S" by blast
  then obtain r' where f: "find_message db g = Some r'" by (cases "find_message db g") (auto simp: find_message_def find_None_iff)
  with find_message_in [OF f] r assms have "r' = r" by (metis distinct_map inj_onD)
  with f r show "label_sets db g = Some S" by (simp add: label_sets_def)
qed

lemma writer_ok_distinct:
  "writer_ok w \<Longrightarrow> distinct (map m_id (messages (w_db w))) \<and> distinct (map m_gmail_id (messages (w_db w)))"
  using struct_ok_facts(4,5) [OF writer_ok_struct] by blast

lemma delete_refines:
  assumes "writer_ok w"
  shows "label_sets (w_db (fst (delete_message w g))) = (label_sets (w_db w))(g := None) \<and>
    writer_ok (fst (delete_message w g)) \<and> (snd (delete_message w g) \<longleftrightarrow> label_sets (w_db w) g \<noteq> None)"
proof -
  note d = writer_ok_distinct [OF assms]
  have ok: "writer_ok (fst (delete_message w g))"
    using delete_message_ok assms by (simp add: writer_ok_def)
  have "label_sets (w_db (fst (delete_message w g))) x = ((label_sets (w_db w))(g := None)) x" for x
  proof -
    have "label_sets (w_db (fst (delete_message w g))) x = Some S \<longleftrightarrow> ((label_sets (w_db w))(g := None)) x = Some S" for S
      using d label_sets_rows [of "w_db w" x S] label_sets_rows [of "w_db (fst (delete_message w g))" x S]
      by (auto simp: delete_message_rows distinct_map_filter)
    then show ?thesis by (metis option.exhaust)
  qed
  moreover have "snd (delete_message w g) \<longleftrightarrow> label_sets (w_db w) g \<noteq> None"
    by (simp add: delete_message_def label_sets_def split: option.split)
  ultimately show ?thesis using ok by blast
qed

lemma delete_each_rows:
  "distinct (map m_id (messages (w_db w))) \<Longrightarrow> distinct (map m_gmail_id (messages (w_db w))) \<Longrightarrow>
   messages (w_db (foldl (\<lambda>w g. fst (delete_message w g)) w gs)) = filter (\<lambda>r. m_gmail_id r \<notin> set gs) (messages (w_db w))"
proof (induction gs arbitrary: w)
  case (Cons g gs)
  then show ?case by (simp add: delete_message_rows distinct_map_filter conj_commute)
qed simp

lemma replace_local_rows:
  assumes "distinct (map m_id (messages (w_db w)))" "distinct (map m_gmail_id (messages (w_db w)))"
  shows "\<exists>gone. (\<forall>g \<in> gone. like_local g) \<and>
    messages (w_db (replace_local_copies w m)) = filter (\<lambda>r. m_gmail_id r \<notin> gone) (messages (w_db w))"
proof (cases "im_rfc822_message_id m")
  case None
  then show ?thesis by (intro exI [of _ "{}"]) (simp add: replace_local_copies_def)
next
  case (Some rfc)
  show ?thesis
  proof (cases "prefix LOCAL_PREFIX (im_id m)")
    case True
    with Some show ?thesis by (intro exI [of _ "{}"]) (simp add: replace_local_copies_def)
  next
    case False
    let ?gs = "map m_gmail_id (filter (\<lambda>r. mh_rfc822 (m_head r) = Some rfc \<and> like_local (m_gmail_id r)) (messages (w_db w)))"
    have "messages (w_db (replace_local_copies w m)) = filter (\<lambda>r. m_gmail_id r \<notin> set ?gs) (messages (w_db w))"
      using Some False delete_each_rows [OF assms, of ?gs] by (simp add: replace_local_copies_def)
    then show ?thesis by (intro exI [of _ "set ?gs"]) auto
  qed
qed

lemma upsert_rest_rows:
  assumes "upsert_rest w rowid t ls m = Ok w'"
  shows "\<exists>f. messages (w_db w') = sql_update (\<lambda>r. m_id r = rowid) f (messages (w_db w)) \<and>
    (\<forall>r. m_gmail_id (f r) = m_gmail_id r \<and> set (m_labels (f r)) = set ls) \<and> rowid \<in> m_id ` set (messages (w_db w))"
proof -
  let ?db = "w_db w"
  from assms have row: "rowid \<in> m_id ` set (messages ?db)"
    by (auto simp: upsert_rest_def Let_def split: if_splits)
  from assms obtain rows acc where ins: "insert_message_labels (labels ?db) [] ls = Ok (rows, acc)"
    by (cases "insert_message_labels (labels ?db) [] ls")
      (auto simp: upsert_rest_def replace_message_labels_def Let_def split: if_splits)
  define f :: "message_row \<Rightarrow> message_row" where "f r = (let r1 = r\<lparr>m_participants := incoming_participants m, m_labels := acc\<rparr>
    in case im_body m of None \<Rightarrow> r1 | Some b \<Rightarrow> r1\<lparr>m_body := Some b, m_attachments := incoming_attachments m\<rparr>)" for r
  have "messages (w_db w') = sql_update (\<lambda>r. m_id r = rowid) f (messages ?db)"
    using assms row ins by (cases "im_body m"; auto simp: upsert_rest_def replace_message_labels_def Let_def index_message_def
        sql_update_twice f_def [abs_def] split: if_splits)+
  moreover have "m_gmail_id (f r) = m_gmail_id r" "m_labels (f r) = acc" for r
    by (simp_all add: f_def Let_def split: option.split)
  ultimately show ?thesis using row insert_message_labels_set [OF ins] by (intro exI [of _ f]) simp
qed

text \<open>Writing a message: it has the provider's labels, and no other message's labels change.\<close>

lemma upsert_update_rows:
  "\<exists>f. messages (w_db (upsert_update w old t ls m)) = sql_update (\<lambda>r. m_id r = m_id old) f (messages (w_db w)) \<and>
     (\<forall>r. m_id (f r) = m_id r \<and> m_gmail_id (f r) = m_gmail_id r)"
  unfolding upsert_update_def Let_def
  by (rule exI [of _ "\<lambda>r. label_flags ls (r\<lparr>m_thread := t, m_head := updated_head m (m_head r),
      m_body_state := upsert_body_state (Some old) m,
      m_has_attachments := (if im_body m \<noteq> None then has_real_attachment m else m_has_attachments r)\<rparr>)"])
    (auto simp: label_flags_def)

lemma upsert_insert_rows:
  assumes "distinct (map m_id (messages (w_db w)))" "distinct (map m_gmail_id (messages (w_db w)))"
    and new: "im_id m \<notin> m_gmail_id ` set (messages (w_db w))" and run: "upsert_insert w t ls m = (w1, rowid)"
  shows "\<exists>row gone. (\<forall>g \<in> gone. like_local g) \<and> m_id row = rowid \<and> m_gmail_id row = im_id m \<and>
    rowid \<notin> m_id ` set (messages (w_db w)) \<and>
    messages (w_db w1) = filter (\<lambda>r. m_gmail_id r \<notin> gone) (messages (w_db w) @ [row])"
proof -
  define row where "row = label_flags ls
            \<lparr>m_id = rowid, m_thread = t, m_gmail_id = im_id m, m_head = incoming_head m,
             m_body_state = upsert_body_state None m, m_is_read = False, m_is_starred = False,
             m_is_draft = False, m_is_sent_by_me = False, m_has_attachments = has_real_attachment m,
             m_labels = [], m_participants = [], m_body = None, m_attachments = []\<rparr>"
  let ?db = "record_contacts ((w_db w)\<lparr>messages := messages (w_db w) @ [row]\<rparr>) m (SENT \<in> set ls)"
  have rowid: "rowid = next_rowid m_id (messages (w_db w))" and w1: "w1 = replace_local_copies (w\<lparr>w_db := ?db\<rparr>) m"
    using run by (auto simp: upsert_insert_def Let_def row_def)
  have row: "m_id row = rowid" "m_gmail_id row = im_id m" by (simp_all add: row_def label_flags_def)
  have fresh: "rowid \<notin> m_id ` set (messages (w_db w))"
    using next_rowid_greater [of _ "messages (w_db w)" m_id] by (force simp: rowid)
  have msgs: "messages ?db = messages (w_db w) @ [row]" by (simp add: record_contacts_def)
  have "distinct (map m_id (messages ?db))" "distinct (map m_gmail_id (messages ?db))"
    using assms(1,2) fresh new by (simp_all add: msgs row)
  with replace_local_rows [of "w\<lparr>w_db := ?db\<rparr>" m] obtain gone where "\<forall>g \<in> gone. like_local g"
    "messages (w_db w1) = filter (\<lambda>r. m_gmail_id r \<notin> gone) (messages ?db)" by (auto simp: w1)
  with row fresh msgs show ?thesis by (intro exI [of _ row] exI [of _ gone]) simp
qed

lemma insert_labels_kept: "w_stored_labels (replace_local_copies w m) = w_stored_labels w"
proof -
  have mark: "w_stored_labels (mark_thread_rowid w t) = w_stored_labels w" for w t
    by (simp add: mark_thread_rowid_def split: option.split)
  have del: "w_stored_labels (fst (delete_message w g)) = w_stored_labels w" for w g
    by (simp add: delete_message_def mark split: option.split)
  have "w_stored_labels (foldl (\<lambda>w g. fst (delete_message w g)) w gs) = w_stored_labels w" for gs
    by (induction gs arbitrary: w) (simp_all add: del)
  then show ?thesis by (simp add: replace_local_copies_def split: option.split)
qed

lemma upsert_stored_labels: "upsert_message w m = Ok w' \<Longrightarrow> w_stored_labels w' = w_stored_labels w"
proof -
  have mark: "w_stored_labels (mark_thread_rowid w t) = w_stored_labels w" for w t
    by (simp add: mark_thread_rowid_def split: option.split)
  have rest: "upsert_rest w rowid t ls m = Ok w' \<Longrightarrow> w_stored_labels w' = w_stored_labels w" for w rowid t ls
    by (auto simp: upsert_rest_def Let_def split: if_splits sum.splits)
  assume "upsert_message w m = Ok w'"
  then show ?thesis
    by (auto simp: upsert_message_def upsert_update_def upsert_insert_def Let_def mark insert_labels_kept
        dest!: rest split: prod.splits option.splits if_splits)
qed

lemma upsert_refines:
  assumes ok: "writer_ok w" and stored: "w_stored_labels w = ReplaceLabels" and run: "upsert_message w m = Ok w'"
  shows "label_sets (w_db w') (im_id m) = Some (set (im_label_ids m))"
    and "x \<noteq> im_id m \<Longrightarrow> label_sets (w_db w') x = label_sets (w_db w) x \<or> like_local x \<and> label_sets (w_db w') x = None"
proof -
  note d = writer_ok_distinct [OF ok] and d' = writer_ok_distinct [OF upsert_message_ok [OF ok run]]
  obtain db t where e: "ensure_thread (w_db w) (im_thread_id m) = (db, t)" by fastforce
  with ensure_thread_ok [of "{}" "w_db w" "w_dirty w"] ok have msgs: "messages db = messages (w_db w)"
    by (auto simp: writer_ok_def)
  have ls: "upsert_label_ids (w\<lparr>w_db := db\<rparr>) ex m = im_label_ids m" for ex
    by (simp add: upsert_label_ids_def stored split: option.split)
  let ?S = "set (im_label_ids m)"
  have "\<exists>gone. (\<forall>g \<in> gone. like_local g) \<and>
      (\<exists>r \<in> set (messages (w_db w')). m_gmail_id r = im_id m \<and> set (m_labels r) = ?S) \<and>
      (\<forall>x S. x \<noteq> im_id m \<longrightarrow>
         (\<exists>r \<in> set (messages (w_db w')). m_gmail_id r = x \<and> set (m_labels r) = S) =
         (x \<notin> gone \<and> (\<exists>r \<in> set (messages (w_db w)). m_gmail_id r = x \<and> set (m_labels r) = S)))"
  proof (cases "find_message db (im_id m)")
    case (Some old)
    note old = find_message_in [OF Some, unfolded msgs]
    let ?w1 = "upsert_update (w\<lparr>w_db := db\<rparr>) old t (im_label_ids m) m"
    have rest: "upsert_rest ?w1 (m_id old) t (im_label_ids m) m = Ok w'"
      using run e Some ls by (simp add: upsert_message_def Let_def)
    obtain f where f: "messages (w_db ?w1) = sql_update (\<lambda>r. m_id r = m_id old) f (messages (w_db w))"
      "\<And>r. m_id (f r) = m_id r \<and> m_gmail_id (f r) = m_gmail_id r"
      using upsert_update_rows [of "w\<lparr>w_db := db\<rparr>" old t "im_label_ids m" m] msgs by auto
    from upsert_rest_rows [OF rest] obtain h where
      h: "messages (w_db w') = sql_update (\<lambda>r. m_id r = m_id old) h (messages (w_db ?w1))"
      "\<And>r. m_gmail_id (h r) = m_gmail_id r \<and> set (m_labels (h r)) = ?S" by blast
    have rows: "messages (w_db w') = map (\<lambda>r. if m_id r = m_id old then h (f r) else r) (messages (w_db w))"
      unfolding h(1) f(1) sql_update_def by (simp add: f(2))
    have same: "m_id r = m_id old \<longleftrightarrow> m_gmail_id r = im_id m" if "r \<in> set (messages (w_db w))" for r
      using that old d by (metis distinct_map inj_onD)
    have "(\<exists>r \<in> set (messages (w_db w')). m_gmail_id r = x \<and> set (m_labels r) = S) =
        (\<exists>r \<in> set (messages (w_db w)). m_gmail_id r = x \<and> set (m_labels r) = S)" if "x \<noteq> im_id m" for x S
      unfolding rows using that same f(2) h(2) by (auto split: if_splits)
    moreover have "\<exists>r \<in> set (messages (w_db w')). m_gmail_id r = im_id m \<and> set (m_labels r) = ?S"
      using imageI [OF conjunct1 [OF old], of "\<lambda>r. if m_id r = m_id old then h (f r) else r"] old f(2) h(2)
      by (intro bexI [of _ "h (f old)"]) (auto simp: rows)
    ultimately show ?thesis by (intro exI [of _ "{}"]) simp
  next
    case None
    then have new: "im_id m \<notin> m_gmail_id ` set (messages (w_db w))"
      by (auto simp: find_message_def find_None_iff msgs)
    obtain w1 rowid where ins: "upsert_insert (w\<lparr>w_db := db\<rparr>) t (im_label_ids m) m = (w1, rowid)" by fastforce
    have rest: "upsert_rest w1 rowid t (im_label_ids m) m = Ok w'"
      using run e None ins ls by (simp add: upsert_message_def Let_def)
    from upsert_insert_rows [OF _ _ _ ins] d new obtain row gone where
      g: "\<forall>g \<in> gone. like_local g" and row: "m_id row = rowid" "m_gmail_id row = im_id m"
      and fresh: "rowid \<notin> m_id ` set (messages (w_db w))"
      and w1: "messages (w_db w1) = filter (\<lambda>r. m_gmail_id r \<notin> gone) (messages (w_db w) @ [row])"
      by (auto simp: msgs)
    from upsert_rest_rows [OF rest] obtain h where
      h: "messages (w_db w') = sql_update (\<lambda>r. m_id r = rowid) h (messages (w_db w1))"
      "\<And>r. m_gmail_id (h r) = m_gmail_id r \<and> set (m_labels (h r)) = ?S"
      and there: "rowid \<in> m_id ` set (messages (w_db w1))" by blast
    from there fresh row w1 have here: "im_id m \<notin> gone" by (auto split: if_splits)
    have rows: "set (messages (w_db w')) = insert (h row) {r \<in> set (messages (w_db w)). m_gmail_id r \<notin> gone}"
      unfolding h(1) w1 sql_update_def using fresh row here by (auto simp: image_iff)
    show ?thesis unfolding rows
      using g row h(2) here new by (intro exI [of _ gone]) (auto simp: image_iff)
  qed
  then obtain gone where gone: "\<forall>g \<in> gone. like_local g"
    and own: "\<exists>r \<in> set (messages (w_db w')). m_gmail_id r = im_id m \<and> set (m_labels r) = ?S"
    and other: "\<forall>x S. x \<noteq> im_id m \<longrightarrow>
         (\<exists>r \<in> set (messages (w_db w')). m_gmail_id r = x \<and> set (m_labels r) = S) =
         (x \<notin> gone \<and> (\<exists>r \<in> set (messages (w_db w)). m_gmail_id r = x \<and> set (m_labels r) = S))"
    by (elim exE conjE) (rule that)
  show "label_sets (w_db w') (im_id m) = Some ?S" using own label_sets_rows d' by blast
  assume x: "x \<noteq> im_id m"
  have "label_sets (w_db w') x = Some S \<longleftrightarrow> x \<notin> gone \<and> label_sets (w_db w) x = Some S" for S
    using other [rule_format, OF x, of S] label_sets_rows [of "w_db w" x S] label_sets_rows [of "w_db w'" x S] d d'
    by simp
  then have "label_sets (w_db w') x = (if x \<in> gone then None else label_sets (w_db w) x)"
    by (metis option.exhaust)
  then show "label_sets (w_db w') x = label_sets (w_db w) x \<or> like_local x \<and> label_sets (w_db w') x = None"
    using gone by (cases "x \<in> gone") simp_all
qed

section \<open>History brings the store up to date\<close>

text \<open>What a change of the history does to the labels of the stored messages.\<close>

fun replay :: "message_id set \<Rightarrow> change \<Rightarrow> (message_id \<rightharpoonup> label_id set) \<Rightarrow> (message_id \<rightharpoonup> label_id set)" where
  "replay F (MessageAdded g t ls) L = L"
| "replay F (MessageDeleted g) L = L(g := None)"
| "replay F (LabelsAdded g ls) L = (if g \<in> F then L else L(g := map_option (relabel ls []) (L g)))"
| "replay F (LabelsRemoved g ls) L = (if g \<in> F then L else L(g := map_option (relabel [] ls) (L g)))"

abbreviation stored_in :: "history_state \<Rightarrow> message_id \<rightharpoonup> label_id set" where
  "stored_in h \<equiv> label_sets (w_db (hs_writer h))"

fun relabels :: "change \<Rightarrow> message_id option" where
  "relabels (LabelsAdded g ls) = Some g"
| "relabels (LabelsRemoved g ls) = Some g"
| "relabels _ = None"

lemma relabel_step_refines:
  assumes "writer_ok (hs_writer h)" "relabel_step g ls added h = Ok h'"
  shows "writer_ok (hs_writer h') \<and>
    stored_in h' = (stored_in h)(g := map_option (relabel (if added then ls else []) (if added then [] else ls)) (stored_in h g)) \<and>
    hs_unknown h' = hs_unknown h @ (if stored_in h g = None then [g] else []) \<and> hs_account h' = hs_account h"
proof -
  let ?a = "if added then ls else []" and ?r = "if added then [] else ls"
  from assms(2) obtain w b where run: "modify_message_labels (hs_writer h) g ?a ?r = Ok (w, b)"
    and h': "h' = (if b then h\<lparr>hs_writer := w, hs_report := (hs_report h)\<lparr>ir_relabeled := ir_relabeled (hs_report h) + 1\<rparr>,
                     hs_external := hs_external h @ [(g, ls, added)]\<rparr>
              else h\<lparr>hs_writer := w, hs_unknown := hs_unknown h @ [g]\<rparr>)"
    by (auto simp: relabel_step_def split: sum.splits)
  from modify_refines [OF writer_ok_struct [OF assms(1)] run] modify_writer_ok [OF assms(1) run] h' show ?thesis by auto
qed

lemma history_step_refines:
  assumes "writer_ok (hs_writer h)" "history_step F c h = Ok h'"
  shows "writer_ok (hs_writer h') \<and> stored_in h' = replay F c (stored_in h) \<and>
    hs_unknown h' = hs_unknown h @ (case relabels c of None \<Rightarrow> []
      | Some g \<Rightarrow> if g \<notin> F \<and> stored_in h g = None then [g] else [])"
proof (cases c)
  case (MessageDeleted g)
  with assms delete_refines [OF assms(1), of g] show ?thesis by (auto simp: Let_def split: prod.splits)
qed (use assms relabel_step_refines [OF assms(1)] in \<open>auto split: if_splits\<close>)

lemma history_steps_refines:
  "writer_ok (hs_writer h) \<Longrightarrow> history_steps F cs h = Ok h' \<Longrightarrow>
   writer_ok (hs_writer h') \<and> stored_in h' = fold (replay F) cs (stored_in h)"
proof (induction F cs h rule: history_steps.induct)
  case (2 F c cs h)
  from "2.prems"(2) obtain h1 where h1: "history_step F c h = Ok h1" "history_steps F cs h1 = Ok h'" by (auto split: sum.splits)
  from history_step_refines [OF "2.prems"(1) h1(1)] "2.IH" [OF h1(1) _ h1(2)] show ?case by simp
qed simp

lemma deleted_Cons:
  "set (deleted_ids (c # cs)) = (case c of MessageDeleted g \<Rightarrow> insert g (set (deleted_ids cs)) | _ \<Rightarrow> set (deleted_ids cs))"
  by (auto simp: deleted_ids_def List.map_filter_simps split: change.split)

lemma replay_keeps: "g \<notin> set (deleted_ids cs) \<Longrightarrow> L g \<noteq> None \<Longrightarrow> fold (replay F) cs L g \<noteq> None"
proof (induction cs arbitrary: L)
  case (Cons c cs)
  have "replay F c L g \<noteq> None" using Cons.prems by (cases c) (auto simp: deleted_Cons)
  with Cons show ?case by (cases c) (auto simp: deleted_Cons)
qed simp

lemma unknown_grows: "writer_ok (hs_writer h) \<Longrightarrow> history_steps F cs h = Ok h' \<Longrightarrow> set (hs_unknown h) \<subseteq> set (hs_unknown h')"
proof (induction F cs h rule: history_steps.induct)
  case (2 F c cs h)
  from "2.prems"(2) obtain h1 where h1: "history_step F c h = Ok h1" "history_steps F cs h1 = Ok h'" by (auto split: sum.splits)
  from history_step_refines [OF "2.prems"(1) h1(1)] "2.IH" [OF h1(1) _ h1(2)] show ?case by auto
qed simp

text \<open>A label change of a message that is neither fetched nor deleted is applied or noted as unknown.\<close>

lemma relabels_applied_or_unknown:
  "writer_ok (hs_writer h) \<Longrightarrow> history_steps F cs h = Ok h' \<Longrightarrow> c \<in> set cs \<Longrightarrow> relabels c = Some g \<Longrightarrow>
   g \<notin> F \<Longrightarrow> g \<notin> set (deleted_ids cs) \<Longrightarrow> stored_in h' g \<noteq> None \<or> g \<in> set (hs_unknown h')"
proof (induction F cs h rule: history_steps.induct)
  case (2 F x cs h)
  from "2.prems"(2) obtain h1 where h1: "history_step F x h = Ok h1" "history_steps F cs h1 = Ok h'" by (auto split: sum.splits)
  note step = history_step_refines [OF "2.prems"(1) h1(1)]
  have del: "g \<notin> set (deleted_ids cs)" using "2.prems"(6) by (cases x) (auto simp: deleted_Cons)
  show ?case
  proof (cases "c \<in> set cs")
    case True
    with "2.IH" [OF h1(1) _ h1(2)] step "2.prems" del show ?thesis by blast
  next
    case False
    with "2.prems"(3) have x: "c = x" by simp
    show ?thesis
    proof (cases "stored_in h g = None")
      case True
      with step x "2.prems"(4,5) have "g \<in> set (hs_unknown h1)" by simp
      with unknown_grows [OF _ h1(2)] step show ?thesis by blast
    next
      case False
      with "2.prems"(4,5) x have "replay F x (stored_in h) g \<noteq> None" by (cases x) auto
      with replay_keeps [OF del] history_steps_refines [OF _ h1(2)] step show ?thesis by metis
    qed
  qed
qed simp

text \<open>
  The server's side: the labels of the messages it holds, and the changes as they happened.
  An id is added once.
\<close>

inductive server_log :: "change list \<Rightarrow> (message_id \<rightharpoonup> label_id set) \<Rightarrow> (message_id \<rightharpoonup> label_id set) \<Rightarrow> bool" where
  nothing: "server_log [] srv srv"
| added: "srv g = None \<Longrightarrow> server_log cs (srv(g \<mapsto> S)) srv' \<Longrightarrow> server_log (MessageAdded g t ls # cs) srv srv'"
| deleted: "server_log cs (srv(g := None)) srv' \<Longrightarrow> server_log (MessageDeleted g # cs) srv srv'"
| labels_added: "server_log cs (srv(g := map_option (relabel ls []) (srv g))) srv' \<Longrightarrow> server_log (LabelsAdded g ls # cs) srv srv'"
| labels_removed: "server_log cs (srv(g := map_option (relabel [] ls) (srv g))) srv' \<Longrightarrow> server_log (LabelsRemoved g ls # cs) srv srv'"

definition up_to_date :: "message_id \<Rightarrow> (message_id \<rightharpoonup> label_id set) \<Rightarrow> (message_id \<rightharpoonup> label_id set) \<Rightarrow> bool" where
  "up_to_date g L srv \<longleftrightarrow> L g = None \<or> L g = srv g"

lemma replay_up_to_date:
  "server_log cs srv srv' \<Longrightarrow> g \<notin> F \<Longrightarrow> up_to_date g L srv \<Longrightarrow> up_to_date g (fold (replay F) cs L) srv'"
proof (induction arbitrary: L rule: server_log.induct)
  case (added srv h cs S srv' t ls)
  show ?case using added.IH [of L] added.prems added.hyps(1) by (cases "g = h") (auto simp: up_to_date_def)
next
  case (deleted cs srv h srv')
  have "up_to_date g (replay F (MessageDeleted h) L) (srv(h := None))"
    using deleted.prems by (auto simp: up_to_date_def)
  from deleted.IH [OF deleted.prems(1) this] show ?case by (simp only: fold_simps)
next
  case (labels_added cs srv h ls srv')
  have "up_to_date g (replay F (LabelsAdded h ls) L) (srv(h := map_option (relabel ls []) (srv h)))"
    using labels_added.prems by (auto simp: up_to_date_def)
  from labels_added.IH [OF labels_added.prems(1) this] show ?case by (simp only: fold_simps)
next
  case (labels_removed cs srv h ls srv')
  have "up_to_date g (replay F (LabelsRemoved h ls) L) (srv(h := map_option (relabel [] ls) (srv h)))"
    using labels_removed.prems by (auto simp: up_to_date_def)
  from labels_removed.IH [OF labels_removed.prems(1) this] show ?case by (simp only: fold_simps)
qed simp

lemma replay_fetched: "g \<in> F \<Longrightarrow> fold (replay F) cs L g = None \<or> fold (replay F) cs L g = L g"
proof (induction cs arbitrary: L)
  case (Cons c cs)
  have "replay F c L g = None \<or> replay F c L g = L g" using Cons.prems by (cases c) auto
  with Cons.IH [OF Cons.prems, of "replay F c L"] show ?case by auto
qed simp

lemma store_fetched_refines:
  "writer_ok (hs_writer h) \<Longrightarrow> w_stored_labels (hs_writer h) = ReplaceLabels \<Longrightarrow> store_fetched ms h = Ok h' \<Longrightarrow>
   (\<And>m. m \<in> set ms \<Longrightarrow> srv (im_id m) = Some (set (im_label_ids m))) \<Longrightarrow>
   writer_ok (hs_writer h') \<and> hs_account h' = hs_account h \<and> hs_unknown h' = hs_unknown h \<and>
   (\<forall>g. \<not> like_local g \<longrightarrow> stored_in h' g = (if g \<in> im_id ` set ms then srv g else stored_in h g))"
proof (induction ms h rule: store_fetched.induct)
  case (2 m ms h)
  from "2.prems"(3) obtain w where up: "upsert_message (hs_writer h) m = Ok w"
    and rest: "store_fetched ms (h\<lparr>hs_writer := w, hs_report := count_added (new_mail_from m
      (find_message (w_db (hs_writer h)) (im_id m) \<noteq> None)) (hs_report h)\<rparr>) = Ok h'"
    by (auto simp: Let_def split: sum.splits)
  note w = upsert_message_ok [OF "2.prems"(1) up] upsert_stored_labels [OF up] upsert_refines [OF "2.prems"(1,2) up]
  have IH: "writer_ok (hs_writer h') \<and> hs_account h' = hs_account h \<and> hs_unknown h' = hs_unknown h \<and>
    (\<forall>g. \<not> like_local g \<longrightarrow> stored_in h' g = (if g \<in> im_id ` set ms then srv g else label_sets (w_db w) g))"
    using "2.IH" [OF refl up _ _ rest] w(1,2) "2.prems"(2,4) by simp
  have "label_sets (w_db w) g = (if g = im_id m then srv g else stored_in h g)" if "\<not> like_local g" for g
    using w(3) w(4) [of g] "2.prems"(4) [of m] that by (cases "g = im_id m") auto
  with IH show ?case by (auto split: if_splits)
qed simp

lemma history_steps_queue: "queue_ok (hs_account h) \<Longrightarrow> history_steps F cs h = Ok h' \<Longrightarrow> queue_ok (hs_account h')"
proof (induction F cs h rule: history_steps.induct)
  case (2 F c cs h)
  from "2.prems"(2) obtain h1 where h1: "history_step F c h = Ok h1" "history_steps F cs h1 = Ok h'" by (auto split: sum.splits)
  have "hs_account h1 = hs_account h \<or> (\<exists>g. hs_account h1 = queue_remove (hs_account h) g)"
    using h1(1) by (cases c) (auto simp: relabel_step_def split: if_splits sum.splits prod.splits)
  with "2.prems"(1) queue_ok_remove have "queue_ok (hs_account h1)" by auto
  with "2.IH" [OF h1(1) _ h1(2)] show ?case by blast
qed simp

text \<open>The parts of a transaction of history that succeeds.\<close>

lemma history_tx_parts:
  assumes run: "history_tx stored ms cs d = Ok (d', ch, rep, ls)" and store: "store_ok (db_mail (sd_account d))"
  obtains h0 h1 h2 where "hs_writer h0 = with_stored_labels (writer_new (db_mail (sd_account d))) stored"
    "hs_account h0 = sd_account d" "hs_unknown h0 = []" "writer_ok (hs_writer h0)"
    "store_fetched ms h0 = Ok h1" "history_steps (im_id ` set ms) (cs_changes cs) h1 = Ok h2"
    "sd_account d' = (fst (enqueue_urgent ((hs_account h2)\<lparr>db_mail := w_db (hs_writer h2)\<rparr>) (hs_unknown h2)))
       \<lparr>db_mail := db_mail (sd_account d')\<rparr>"
    "\<exists>c. finish (hs_writer h2) = Ok (db_mail (sd_account d'), c)"
    "sync_state d' KEY_CURSOR = Some (cs_cursor cs)"
proof -
  let ?h0 = "\<lparr>hs_writer = with_stored_labels (writer_new (db_mail (sd_account d))) stored, hs_account = sd_account d,
     hs_report = empty_report, hs_unknown = [], hs_external = []\<rparr>"
  from run obtain h1 h2 m' where h: "store_fetched ms ?h0 = Ok h1" "history_steps (im_id ` set ms) (cs_changes cs) h1 = Ok h2"
    "finish (hs_writer h2) = Ok (m', ch)"
    and d': "d' = (set_sync_state (d\<lparr>sd_account := fst (enqueue_urgent ((hs_account h2)\<lparr>db_mail := w_db (hs_writer h2)\<rparr>) (hs_unknown h2))\<rparr>)
        KEY_CURSOR (cs_cursor cs))\<lparr>sd_account := (fst (enqueue_urgent ((hs_account h2)\<lparr>db_mail := w_db (hs_writer h2)\<rparr>)
          (hs_unknown h2)))\<lparr>db_mail := m'\<rparr>\<rparr>"
    by (auto simp: history_tx_def Let_def split: sum.splits)
  show thesis
    by (rule that [of ?h0 h1 h2]) (use h d' writer_new_ok [OF store] in \<open>simp_all add: sync_state_set [unfolded sync_state_def] sync_state_def set_sync_state_def\<close>)
qed

text \<open>
  Claim C18: one transaction of history brings the store up to date. If every stored message
  had the labels the server had at the old cursor, the log says what happened since, and the
  fetched messages carry the labels they have now, then every stored message has the labels
  the server has now (optimistic local copies apart, which the server does not know). The
  cursor moves in the same transaction. No label change is lost: its message is stored, was
  deleted, or is next in line to be fetched.
\<close>

theorem history_brings_store_up_to_date:
  assumes store: "store_ok (db_mail (sd_account d))" "queue_ok (sd_account d)"
    and run: "history_tx ReplaceLabels ms cs d = Ok (d', ch, rep, ls)"
    and log: "server_log (cs_changes cs) srv srv'"
    and fetched: "\<And>m. m \<in> set ms \<Longrightarrow> srv' (im_id m) = Some (set (im_label_ids m))"
    and before: "\<And>g. \<not> like_local g \<Longrightarrow> up_to_date g (label_sets (db_mail (sd_account d))) srv"
  shows "(\<forall>g. \<not> like_local g \<longrightarrow> up_to_date g (label_sets (db_mail (sd_account d'))) srv') \<and>
    sync_state d' KEY_CURSOR = Some (cs_cursor cs) \<and>
    (\<forall>c g. c \<in> set (cs_changes cs) \<and> relabels c = Some g \<and> g \<notin> im_id ` set ms \<and> g \<notin> set (deleted_ids (cs_changes cs)) \<longrightarrow>
       label_sets (db_mail (sd_account d')) g \<noteq> None \<or> priority_of (sd_account d') g = Some 0)"
proof -
  let ?F = "im_id ` set ms"
  from history_tx_parts [OF run store(1)] obtain h0 h1 h2 where
    h0: "hs_writer h0 = with_stored_labels (writer_new (db_mail (sd_account d))) ReplaceLabels"
      "hs_account h0 = sd_account d" "writer_ok (hs_writer h0)"
    and h1: "store_fetched ms h0 = Ok h1" and h2: "history_steps ?F (cs_changes cs) h1 = Ok h2"
    and acct: "sd_account d' = (fst (enqueue_urgent ((hs_account h2)\<lparr>db_mail := w_db (hs_writer h2)\<rparr>) (hs_unknown h2)))
       \<lparr>db_mail := db_mail (sd_account d')\<rparr>"
    and fin: "\<exists>c. finish (hs_writer h2) = Ok (db_mail (sd_account d'), c)"
    and cursor: "sync_state d' KEY_CURSOR = Some (cs_cursor cs)" by metis
  have new: "w_stored_labels (hs_writer h0) = ReplaceLabels" "stored_in h0 = label_sets (db_mail (sd_account d))"
    by (simp_all add: h0(1) with_stored_labels_def writer_new_def)
  note f = store_fetched_refines [where srv = srv', OF h0(3) new(1) h1 fetched]
  have s: "writer_ok (hs_writer h2)" "stored_in h2 = fold (replay ?F) (cs_changes cs) (stored_in h1)"
    using history_steps_refines [OF _ h2] f by auto
  from finish_keeps_labels [OF s(1)] fin have labels: "label_sets (db_mail (sd_account d')) = stored_in h2" by auto
  have "up_to_date g (stored_in h2) srv'" if g: "\<not> like_local g" for g
  proof (cases "g \<in> ?F")
    case True
    with f g have "stored_in h1 g = srv' g" by simp
    with replay_fetched [OF True, of "cs_changes cs" "stored_in h1"] show ?thesis by (auto simp: s(2) up_to_date_def)
  next
    case False
    with f g new(2) before [OF g] have "up_to_date g (stored_in h1) srv" by (simp add: up_to_date_def)
    from replay_up_to_date [OF log False this] show ?thesis by (simp add: s(2))
  qed
  moreover have "stored_in h2 g \<noteq> None \<or> priority_of (sd_account d') g = Some 0"
    if "c \<in> set (cs_changes cs)" "relabels c = Some g" "g \<notin> ?F" "g \<notin> set (deleted_ids (cs_changes cs))" for c g
  proof (cases "stored_in h2 g = None")
    case True
    let ?a = "(hs_account h2)\<lparr>db_mail := w_db (hs_writer h2)\<rparr>"
    from relabels_applied_or_unknown [OF _ h2 that] True f have "g \<in> set (hs_unknown h2)" by blast
    moreover have "\<not> has_full_row ?a g"
      using True by (auto simp: label_sets_def find_message_def has_full_row_def find_None_iff)
    moreover have "queue_ok (hs_account h2)"
      using history_steps_queue [OF _ h2] f store(2) h0(2) by simp
    then have "queue_ok ?a" by (simp add: queue_ok_def)
    ultimately have "priority_of (fst (enqueue_urgent ?a (hs_unknown h2))) g = Some 0"
      by (simp add: enqueue_urgent_def urgent_priorities)
    moreover have "priority_of (sd_account d') g = priority_of (fst (enqueue_urgent ?a (hs_unknown h2))) g"
      by (subst acct) (simp add: priority_of_def)
    ultimately show ?thesis by simp
  qed simp
  ultimately show ?thesis using labels cursor by auto
qed

text \<open>A message starred and read on the server, one fetched, and a label change of one never stored.\<close>

definition sample_history :: change_set where
  "sample_history = \<lparr>cs_changes = [MessageAdded ''m2'' ''t2'' [''INBOX''], LabelsAdded ''m1'' [''STARRED''],
     LabelsRemoved ''m1'' [''UNREAD''], LabelsAdded ''m9'' [''STARRED'']], cs_cursor = ''c2''\<rparr>"

definition sample_server :: "message_id \<rightharpoonup> label_id set" where
  "sample_server = [''m1'' \<mapsto> {''INBOX'', ''UNREAD''}, ''m9'' \<mapsto> {''INBOX''}]"

definition sample_server_after :: "message_id \<rightharpoonup> label_id set" where
  "sample_server_after = sample_server(''m2'' \<mapsto> {''INBOX'', ''UNREAD''}, ''m1'' \<mapsto> {''INBOX'', ''STARRED''},
     ''m9'' \<mapsto> {''INBOX'', ''STARRED''})"

lemma sample_log: "server_log (cs_changes sample_history) sample_server sample_server_after"
proof -
  let ?s1 = "sample_server(''m2'' \<mapsto> {''INBOX'', ''UNREAD''})"
  let ?s2 = "?s1(''m1'' := map_option (relabel [''STARRED''] []) (?s1 ''m1''))"
  let ?s3 = "?s2(''m1'' := map_option (relabel [] [''UNREAD'']) (?s2 ''m1''))"
  let ?s4 = "?s3(''m9'' := map_option (relabel [''STARRED''] []) (?s3 ''m9''))"
  have after: "sample_server_after = ?s4"
    by (auto simp: sample_server_after_def sample_server_def relabel_def fun_eq_iff)
  have "sample_server ''m2'' = None" by (simp add: sample_server_def)
  then show ?thesis unfolding sample_history_def change_set.simps after
    by (rule server_log.added [where S = "{''INBOX'', ''UNREAD''}"])
      (rule server_log.labels_added, rule server_log.labels_removed, rule server_log.labels_added, rule server_log.nothing)
qed

theorem history_brings_store_up_to_date_witness:
  "\<exists>d' ch rep ls. history_tx ReplaceLabels [sample_message\<lparr>im_id := ''m2''\<rparr>] sample_history
       (new_sync_db\<lparr>sd_account := sample_db\<rparr>) = Ok (d', ch, rep, ls) \<and> ir_relabeled rep = 2 \<and>
     label_sets (db_mail (sd_account d')) ''m1'' = Some {''INBOX'', ''STARRED''} \<and>
     priority_of (sd_account d') ''m9'' = Some 0 \<and> sync_state d' KEY_CURSOR = Some ''c2''"
proof -
  let ?d = "new_sync_db\<lparr>sd_account := sample_db\<rparr>" and ?ms = "[sample_message\<lparr>im_id := ''m2''\<rparr>]"
  have "case history_tx ReplaceLabels ?ms sample_history ?d of Inl e \<Rightarrow> False
      | Inr (d', ch, rep, ls) \<Rightarrow> ir_relabeled rep = 2 \<and> label_sets (db_mail (sd_account d')) ''m1'' \<noteq> None \<and>
          label_sets (db_mail (sd_account d')) ''m9'' = None"
    by code_simp
  then obtain d' ch rep ls where run: "history_tx ReplaceLabels ?ms sample_history ?d = Ok (d', ch, rep, ls)"
    and rel: "ir_relabeled rep = 2" and m1: "label_sets (db_mail (sd_account d')) ''m1'' \<noteq> None"
    and m9: "label_sets (db_mail (sd_account d')) ''m9'' = None" by (auto split: sum.splits)
  have store: "store_ok (db_mail (sd_account ?d))" "queue_ok (sd_account ?d)"
    using sample_db_ok(1) by (simp_all add: sample_db_def new_account_db_def queue_ok_def)
  have "length (messages sample_store) = 1 \<and> map m_gmail_id (messages sample_store) = [''m1''] \<and>
      map (set \<circ> m_labels) (messages sample_store) = [{''INBOX'', ''UNREAD''}]" by code_simp
  then obtain r where "messages sample_store = [r]" "m_gmail_id r = ''m1''" "set (m_labels r) = {''INBOX'', ''UNREAD''}"
    by (cases "messages sample_store") auto
  then have "label_sets (db_mail (sd_account ?d)) g = (if g = ''m1'' then Some {''INBOX'', ''UNREAD''} else None)" for g
    by (simp add: sample_db_def label_sets_def find_message_def)
  then have before: "up_to_date g (label_sets (db_mail (sd_account ?d))) sample_server" for g
    by (simp add: up_to_date_def sample_server_def)
  have fetched: "sample_server_after (im_id m) = Some (set (im_label_ids m))" if "m \<in> set ?ms" for m
    using that by (simp add: sample_server_after_def sample_message_def)
  note all = history_brings_store_up_to_date [OF store run sample_log fetched before]
  have "\<not> like_local ''m1''" by code_simp
  with all m1 have m1': "label_sets (db_mail (sd_account d')) ''m1'' = sample_server_after ''m1''"
    by (auto simp: up_to_date_def)
  have "LabelsAdded ''m9'' [''STARRED''] \<in> set (cs_changes sample_history)" "''m9'' \<notin> set (deleted_ids (cs_changes sample_history))"
    by (simp_all add: sample_history_def deleted_ids_def List.map_filter_simps)
  moreover have "''m9'' \<notin> im_id ` set ?ms" by (simp add: sample_message_def)
  ultimately have "priority_of (sd_account d') ''m9'' = Some 0"
    using conjunct2 [OF conjunct2 [OF all], rule_format, of "LabelsAdded ''m9'' [''STARRED'']" "''m9''"] m9 by simp
  then show ?thesis using run rel m1' conjunct1 [OF conjunct2 [OF all]] by (simp add: sample_server_after_def sample_history_def)
qed

section \<open>Which label changes are reported\<close>

definition says :: "external_label_change list \<Rightarrow> message_id \<Rightarrow> bool \<Rightarrow> label_id \<Rightarrow> bool" where
  "says out m b l \<longleftrightarrow> (\<exists>x \<in> set out. xl_message x = m \<and> l \<in> set (if b then xl_added x else xl_removed x))"

definition report_ok :: "external_label_change list \<Rightarrow> bool" where
  "report_ok out \<longleftrightarrow> distinct (map xl_message out) \<and> (\<forall>x \<in> set out. xl_added x \<noteq> [] \<or> xl_removed x \<noteq> [])"

definition made_by :: "own_change list \<Rightarrow> message_id \<Rightarrow> label_id \<Rightarrow> bool \<Rightarrow> bool" where
  "made_by own m l b \<longleftrightarrow> list_ex (\<lambda>c. oc_message c = m \<and> oc_label c = l \<and> oc_added c = b) own"

lemma add_external_says:
  "says (add_external out (m, t, ls, b)) m' b' l \<longleftrightarrow> says out m' b' l \<or> m' = m \<and> b' = b \<and> l \<in> set ls"
proof -
  define f where "f x = (if xl_message x = m
      then (if b then x\<lparr>xl_added := xl_added x @ ls\<rparr> else x\<lparr>xl_removed := xl_removed x @ ls\<rparr>) else x)" for x :: external_label_change
  define out1 where "out1 = (if list_ex (\<lambda>x. xl_message x = m) out then out
      else out @ [\<lparr>xl_message = m, xl_thread = t, xl_added = [], xl_removed = []\<rparr>])"
  have f: "xl_message (f x) = xl_message x"
    "l \<in> set (if b' then xl_added (f x) else xl_removed (f x)) \<longleftrightarrow>
       l \<in> set (if b' then xl_added x else xl_removed x) \<or> xl_message x = m \<and> b' = b \<and> l \<in> set ls" for x
    by (auto simp: f_def)
  have "add_external out (m, t, ls, b) = map f out1"
    unfolding add_external_def f_def [abs_def] out1_def Let_def prod.case by (rule refl)
  then have "says (add_external out (m, t, ls, b)) m' b' l \<longleftrightarrow> (\<exists>x \<in> set out1. xl_message (f x) = m' \<and>
      l \<in> set (if b' then xl_added (f x) else xl_removed (f x)))"
    by (simp only: says_def set_map bex_simps)
  also have "\<dots> \<longleftrightarrow> says out1 m' b' l \<or> (\<exists>x \<in> set out1. xl_message x = m) \<and> m' = m \<and> b' = b \<and> l \<in> set ls"
    unfolding f says_def by blast
  finally have split: "says (add_external out (m, t, ls, b)) m' b' l \<longleftrightarrow>
      says out1 m' b' l \<or> (\<exists>x \<in> set out1. xl_message x = m) \<and> m' = m \<and> b' = b \<and> l \<in> set ls" .
  have "\<exists>x \<in> set out1. xl_message x = m" by (auto simp: out1_def list_ex_iff)
  moreover have "says out1 m' b' l = says out m' b' l" by (auto simp: out1_def says_def)
  ultimately show ?thesis unfolding split by simp
qed

lemma add_external_ok: "report_ok out \<Longrightarrow> ls \<noteq> [] \<Longrightarrow> report_ok (add_external out (m, t, ls, b))"
  by (auto simp: report_ok_def add_external_def list_ex_iff if_distrib [of xl_message] o_def cong: if_cong)

lemma not_ours_loop_says:
  "says (not_ours_loop own out cs) m b l \<longleftrightarrow>
     says out m b l \<or> (\<exists>t ls. (m, t, ls, b) \<in> set cs \<and> l \<in> set ls \<and> \<not> made_by own m l b)"
proof (induction own out cs rule: not_ours_loop.induct)
  case (2 own out m' t' ls' b' cs)
  let ?theirs = "filter (\<lambda>l. \<not> made_by own m' l b') ls'"
  have "not_ours_loop own out ((m', t', ls', b') # cs) =
      (if ?theirs = [] then not_ours_loop own out cs
       else not_ours_loop own (add_external out (m', t', ?theirs, b')) cs)"
    by (simp add: made_by_def Let_def)
  moreover have "l \<notin> set ls' \<or> made_by own m' l b'" if "?theirs = []" using that by (auto simp: filter_empty_conv)
  ultimately show ?case
    using 2 by (cases "?theirs = []") (auto simp: made_by_def add_external_says)
qed simp

lemma not_ours_loop_ok: "report_ok out \<Longrightarrow> report_ok (not_ours_loop own out cs)"
  by (induction own out cs rule: not_ours_loop.induct) (simp_all add: add_external_ok Let_def)

text \<open>
  Claim C19: the label changes reported as made elsewhere are exactly those of the history that
  the engine did not push itself within the last two hours: one entry per message, none of
  them empty, a label in it exactly when some change of the history names it and no own change
  of that message, label and direction is remembered. Older own changes are forgotten.
\<close>

theorem reported_changes_are_not_ours:
  assumes "not_ours q cs e = (out, e')"
  shows "en_own e' = filter (\<lambda>c. now_of q e - oc_at c < OWN_CHANGE_WINDOW) (en_own e) \<and> report_ok out \<and>
    (\<forall>m b l. says out m b l \<longleftrightarrow> (\<exists>t ls. (m, t, ls, b) \<in> set cs \<and> l \<in> set ls \<and> \<not> made_by (en_own e') m l b))"
proof -
  let ?own = "filter (\<lambda>c. now_of q e - oc_at c < OWN_CHANGE_WINDOW) (en_own e)"
  have run: "out = not_ours_loop ?own [] cs" "en_own e' = ?own"
    using assms by (auto simp: not_ours_def Let_def)
  have empty: "report_ok []" "\<not> says [] m b l" for m b l by (simp_all add: report_ok_def says_def)
  show ?thesis unfolding run(1) run(2) using not_ours_loop_ok [OF empty(1)] empty(2) by (simp add: not_ours_loop_says)
qed

text \<open>Starred here three hours ago and archived here just now; the history has both and a change of its own.\<close>

definition busy_engine :: "nat engine" where
  "busy_engine = (new_engine quiet_env new_sync_db 20000000)\<lparr>en_own :=
     [\<lparr>oc_message = ''m1'', oc_label = ''STARRED'', oc_added = True, oc_at = 9200000\<rparr>,
      \<lparr>oc_message = ''m1'', oc_label = ''INBOX'', oc_added = False, oc_at = 19999000\<rparr>]\<rparr>"

theorem reported_changes_are_not_ours_witness:
  "fst (not_ours quiet_env [(''m1'', ''t1'', [''STARRED''], True), (''m1'', ''t1'', [''INBOX'', ''UNREAD''], False)] busy_engine) =
     [\<lparr>xl_message = ''m1'', xl_thread = ''t1'', xl_added = [''STARRED''], xl_removed = [''UNREAD'']\<rparr>] \<and>
   report_ok (fst (not_ours quiet_env [(''m1'', ''t1'', [''STARRED''], True), (''m1'', ''t1'', [''INBOX'', ''UNREAD''], False)] busy_engine))"
proof -
  let ?cs = "[(''m1'', ''t1'', [''STARRED''], True), (''m1'', ''t1'', [''INBOX'', ''UNREAD''], False)]"
  have "fst (not_ours quiet_env ?cs busy_engine) =
     [\<lparr>xl_message = ''m1'', xl_thread = ''t1'', xl_added = [''STARRED''], xl_removed = [''UNREAD'']\<rparr>]"
    by (simp add: not_ours_def busy_engine_def quiet_env_simps new_engine_def OWN_CHANGE_WINDOW_def Let_def add_external_def)
  moreover have "not_ours quiet_env ?cs busy_engine = (fst (not_ours quiet_env ?cs busy_engine), snd (not_ours quiet_env ?cs busy_engine))"
    by simp
  from reported_changes_are_not_ours [OF this] have "report_ok (fst (not_ours quiet_env ?cs busy_engine))" by blast
  ultimately show ?thesis by blast
qed

section \<open>Rounds that fail\<close>

lemma apply_history_fails:
  assumes "apply_history q cs e = (Err x, e')"
  shows "en_db e' = en_db e"
proof -
  obtain r e1 where f: "fetch_history q (to_fetch (cs_changes cs)) e = (r, e1)" by fastforce
  then have db: "en_db e1 = en_db e"
    by (auto simp: fetch_history_def lift_provider_def call_world_def split: if_splits prod.splits)
  show ?thesis
  proof (cases r)
    case (Inl y)
    with assms f db show ?thesis by (simp add: apply_history_def and_then_def)
  next
    case (Inr fetched)
    let ?tx = "history_tx (stored_labels_of q) (map (to_incoming (se_mime q)) fetched) cs"
    from assms f Inr have "isl (fst (db_write ?tx e1)) \<and> e' = snd (db_write ?tx e1)"
      by (cases "db_write ?tx e1"; cases "fst (db_write ?tx e1)")
        (auto simp: apply_history_def and_then_def Let_def split: prod.splits)
    with db show ?thesis by (auto simp: db_write_def split: sum.splits prod.splits)
  qed
qed

text \<open>
  Claim C20: a round that fails, other than by an expired cursor, leaves the store as draining
  the outbox left it: no change of the history is stored without its cursor, and the cursor
  never moves past changes that were not stored. The next round asks for them again.
\<close>

theorem failed_round_stores_nothing:
  assumes cursor: "sync_state (en_db e) KEY_CURSOR = Some c"
    and drained: "drain_outbox q e = Some (r, e1)"
    and answer: "fst (mp_changes_since (se_provider q) c (en_world e1)) \<noteq> Err CursorExpired"
    and failed: "sync_incremental q e = Some (Err x, e')"
  shows "en_db e' = en_db e1"
proof (cases r)
  case (Inl y)
  with cursor drained failed show ?thesis by (simp add: sync_incremental_def run_then_def)
next
  case (Inr rep)
  obtain a e2 where call: "call_world (mp_changes_since (se_provider q) c) e1 = (a, e2)" by fastforce
  then have a: "a \<noteq> Err CursorExpired" and db: "en_db e2 = en_db e1"
    using answer by (auto simp: call_world_def split: prod.splits)
  let ?e3 = "\<lambda>n. record_api q (now_of q e1) JobChanges CHANGES_REASON n (\<not> isl a) e2"
  have inc: "sync_incremental q e = (case a of
      Inr cs \<Rightarrow> Some (apply_history q cs (?e3 (length (cs_changes cs))))
    | Inl CursorExpired \<Rightarrow> run_then (start_resync q (?e3 0)) (\<lambda>_ e4. Some (Err ResyncStarted, e4))
    | Inl y \<Rightarrow> Some (Err (ProviderFailed y), ?e3 0))"
    using cursor drained call Inr
    by (cases a) (simp_all add: sync_incremental_def run_then_def Let_def split: provider_error.split)
  show ?thesis
  proof (cases a)
    case (Inl y)
    with a inc have "sync_incremental q e = Some (Err (ProviderFailed y), ?e3 0)" by (cases y) simp_all
    with failed have "e' = ?e3 0" by simp
    with db show ?thesis by (simp add: record_api_def)
  next
    case (Inr cs)
    with inc failed have "apply_history q cs (?e3 (length (cs_changes cs))) = (Err x, e')" by simp
    from apply_history_fails [OF this] db show ?thesis by (simp add: record_api_def)
  qed
qed

end
