(* ===== verification/Resync.thy ===== *)
theory Resync
  imports Incremental
begin

text \<open>
  Rounds that fail and resyncs that are interrupted: a failed round is asked again in full, but
  a resync whose listing fails leaves a store that later listings do not bring up to date.
\<close>

section \<open>A round that fails\<close>

definition offline_env :: "nat sync_env" where
  "offline_env = quiet_env\<lparr>se_provider := quiet_provider\<lparr>mp_changes_since := \<lambda>c w. (Err (Network ''offline''), w + 1)\<rparr>\<rparr>"

definition synced_db :: sync_db where
  "synced_db = set_sync_state new_sync_db KEY_CURSOR ''c1''"

lemma offline_env_simps:
  "now_of offline_env e = int (en_world e)" "se_me offline_env = se_me quiet_env" "se_locks offline_env = se_locks quiet_env"
  "mp_changes_since (se_provider offline_env) c w = (Err (Network ''offline''), w + 1)"
  by (simp_all add: now_of_def offline_env_def quiet_env_def)

lemma empty_outbox_drains:
  assumes "db_outbox (sd_account (en_db e)) = []"
  shows "\<exists>e'. drain_outbox q e = Some (Ok no_report, e') \<and> en_world e' = en_world e"
proof -
  let ?e = "snd (queue_tx (\<lambda>a. recover_in_flight a (se_me q) (se_locks q (en_world e)) (now_of q e)) e)"
  have e: "db_outbox (sd_account (en_db ?e)) = []" "en_world ?e = en_world e"
    using assms by (simp_all add: queue_tx_def recover_in_flight_def sql_update_def)
  obtain e' where "queue_tx (\<lambda>a. claim_next a (cl_id (se_me q)) (now_of q ?e) (now_of q ?e + LEASE_MS)) ?e = (Idle, e')"
    "en_world e' = en_world e"
    using e by (simp add: queue_tx_def claim_next_def in_flight_def next_ready_def)
  then show ?thesis by (simp add: drain_outbox_def) (subst drain_loop.simps, simp)
qed

theorem failed_round_stores_nothing_witness:
  "\<exists>e' e1. sync_incremental offline_env (new_engine offline_env synced_db 3) = Some (Err (ProviderFailed (Network ''offline'')), e') \<and>
     drain_outbox offline_env (new_engine offline_env synced_db 3) = Some (Ok no_report, e1) \<and>
     en_db e' = en_db e1"
proof -
  let ?e = "new_engine offline_env synced_db 3"
  have cursor: "sync_state (en_db ?e) KEY_CURSOR = Some ''c1''"
    by (simp add: new_engine_def synced_db_def sync_state_set)
  have "db_outbox (sd_account (en_db ?e)) = []"
    by (simp add: new_engine_def synced_db_def new_sync_db_def new_account_db_def)
  from empty_outbox_drains [OF this] obtain e1 where
    d: "drain_outbox offline_env ?e = Some (Ok no_report, e1)" by blast
  obtain e' where run: "sync_incremental offline_env ?e = Some (Err (ProviderFailed (Network ''offline'')), e')"
    using cursor d by (simp add: sync_incremental_def run_then_def call_world_def offline_env_simps Let_def)
  have "fst (mp_changes_since (se_provider offline_env) ''c1'' (en_world e1)) \<noteq> Err CursorExpired"
    by (simp add: offline_env_simps)
  from failed_round_stores_nothing [OF cursor d this run] run d show ?thesis by blast
qed

section \<open>A resync that is interrupted\<close>

lemma phases_nonempty: "\<exists>p ps. phases_for w = p # ps"
  by (cases w) (simp_all add: phases_for_def shared_phases_def)

text \<open>
  a resync that loses its connection in the first listing has already taken the fresh
  cursor. A stored message is then not fetched again by the bootstrap that follows, though the
  resync was to refetch it: what changed on it while the cursor was expired is never seen.
\<close>

theorem interrupted_resync_forgets_to_refetch:
  assumes api: "over_api e"
    and profile: "mp_profile (se_provider q) (en_world e) = (Ok pf, w1)"
    and offline: "mp_list_message_ids (se_provider q) (phase_filter (hd (phases_for (window e)))) None w1 = (Err x, w2)"
    and stored: "has_full_row (sd_account (en_db e)) g" "priority_of (sd_account (en_db e)) g = None"
  shows "\<exists>e1. start_resync q e = Some (Err (ProviderFailed x), e1) \<and> en_world e1 = w2 \<and>
    sync_state (en_db e1) KEY_CURSOR = Some (pf_cursor pf) \<and> needs_bootstrap e1 \<and>
    (\<forall>idss w'. phases_end (se_provider q) (drop INBOX_PHASES (phases_for (window e))) w2 idss w' \<longrightarrow>
       (\<exists>e2. bootstrap_list_rest q e1 = Some (Ok (), e2) \<and> \<not> needs_bootstrap e2 \<and>
          priority_of (sd_account (en_db e2)) g = None))"
proof -
  let ?set = "\<lambda>d. let d1 = set_sync_state d KEY_CURSOR (pf_cursor pf) in d1\<lparr>sd_state := (sd_state d1)(KEY_BOOTSTRAPPED := None)\<rparr>"
  define e0 where "e0 = db_set ?set (e\<lparr>en_world := w1\<rparr>)"
  have e0: "over_api e0" "en_world e0 = w1" "sd_account (en_db e0) = sd_account (en_db e)" "window e0 = window e"
    "sync_state (en_db e0) KEY_CURSOR = Some (pf_cursor pf)" "needs_bootstrap e0"
    using api by (simp_all add: e0_def db_set_def over_api_def window_def stored_window_def sync_state_def set_sync_state_def
        needs_bootstrap_def Let_def KEY_WINDOW_def KEY_CURSOR_def KEY_BOOTSTRAPPED_def)
  obtain p ps where ps: "phases_for (window e) = p # ps" using phases_nonempty by blast
  obtain e1 where page: "list_page q JobList (phase_filter p) reason None e0 = (Err (ProviderFailed x), e1 reason)"
    "en_world (e1 reason) = w2" "en_db (e1 reason) = en_db e0" "over_api (e1 reason)" for reason
  proof -
    have "\<exists>e1. list_page q JobList (phase_filter p) reason None e0 = (Err (ProviderFailed x), e1) \<and>
        en_world e1 = w2 \<and> en_db e1 = en_db e0 \<and> over_api e1" for reason
      using offline e0(1,2) ps by (simp add: list_page_def call_world_def lift_provider_def record_api_def record_done_def over_api_def Let_def)
    then show thesis using that by metis
  qed
  have via: "\<exists>reason. list_via_imap q (phase_search p) JobList e0 = (Err reason, e0)"
    using e0(1) by (auto simp: over_api_def list_via_imap_def imap_gate_def)
  then obtain reason where "list_phase_with q True hf p e0 = Some (Err (ProviderFailed x), e1 reason)" for hf
    by (auto simp: list_phase_with_def Let_def list_pages.simps page(1))
  moreover have "start_resync q e = run_then (for_each (list_phase_with q True (headers_from e0)) (phases_for (window e0)) e0)
      (\<lambda>_ e3. Some (Ok (), db_set (\<lambda>d. set_sync_state d KEY_BOOTSTRAPPED ''1'') e3))"
    using profile by (simp add: start_resync_def run_then_def [of "Some (Ok pf, s)" for s] call_world_def lift_provider_def e0_def Let_def)
  ultimately have run: "start_resync q e = Some (Err (ProviderFailed x), e1 reason)"
    by (simp add: e0(4) ps run_then_def)
  let ?e1 = "e1 reason"
  have acc: "sd_account (en_db ?e1) = sd_account (en_db e)" "window ?e1 = window e"
    using page(3) e0(3,4) by (simp_all add: window_def)
  have full: "already_stored (sd_account (en_db ?e1)) r g" for r
    using stored(1) by (auto simp: acc already_stored_def has_full_row_def has_row_def)
  have later: "\<exists>e2. bootstrap_list_rest q ?e1 = Some (Ok (), e2) \<and> \<not> needs_bootstrap e2 \<and>
      priority_of (sd_account (en_db e2)) g = None"
    if listed: "phases_end (se_provider q) (drop INBOX_PHASES (phases_for (window e))) w2 idss w'" for idss w'
  proof -
    let ?hf = "headers_from ?e1" and ?ps = "drop INBOX_PHASES (phases_for (window e))"
    from phases_run [OF listed page(2) [of reason] page(4) [of reason], of False ?hf] obtain e2 where
      run2: "for_each (list_phase_with q False ?hf) ?ps ?e1 = Some (Ok (), e2)"
      and prio: "\<And>g. priority_of (sd_account (en_db e2)) g = queued_from (filter (\<lambda>(p, _). \<not> already_stored (sd_account (en_db ?e1)) p g)
          (phase_lists ?hf ?ps idss)) g (priority_of (sd_account (en_db ?e1)) g)" by auto
    have "filter (\<lambda>(p, _). \<not> already_stored (sd_account (en_db ?e1)) p g) xs = []" for xs :: "(nat \<times> message_id list) list"
      using full by (auto simp: filter_empty_conv)
    then have "priority_of (sd_account (en_db e2)) g = None" using prio stored(2) by (simp add: acc queued_from_def)
    with run2 show ?thesis
      by (simp add: bootstrap_list_rest_def acc(2) run_then_def report_def tell_def db_set_def Let_def
          needs_bootstrap_def sync_state_def set_sync_state_def split: prod.split)
  qed
  show ?thesis using run page(2,3) e0(5,6) later
    by (intro exI [of _ ?e1]) (simp add: needs_bootstrap_def)
qed


text \<open>A provider whose connection is gone at its second call, and a store that holds a whole message.\<close>

definition flaky_env :: "nat sync_env" where
  "flaky_env = quiet_env\<lparr>se_provider := quiet_provider\<lparr>mp_list_message_ids := \<lambda>flt page w.
     if w = 1 then (Err (Network ''offline''), 2) else mp_list_message_ids quiet_provider flt page w\<rparr>\<rparr>"

definition full_store :: mail_store where
  "full_store = fst (write_transaction empty_store ReplaceLabels
     [UpsertMessage (sample_message\<lparr>im_body := Some \<lparr>bd_text_plain = Some ''hello'', bd_html_sanitized = None, bd_has_remote_images = False\<rparr>\<rparr>)])"

definition full_db :: sync_db where
  "full_db = synced_db\<lparr>sd_account := new_account_db\<lparr>db_mail := full_store\<rparr>\<rparr>"

lemma flaky_pages:
  assumes "2 \<le> w"
  shows "pages_end (se_provider flaky_env) flt None w [''m1'', ''m2''] (w + 2)"
proof -
  note [simp] = flaky_env_def quiet_env_def quiet_provider_def
  have "pages_end (se_provider flaky_env) flt (Some ''2'') (w + 1) [''m2''] (w + 2)"
    using assms last_page [of "se_provider flaky_env" flt "Some ''2''" "w + 1"
      "\<lparr>ip_ids = [(''m2'', ''t1'')], ip_next = None, ip_estimated_total = None\<rparr>" "w + 2"] by simp
  with more_pages [of "se_provider flaky_env" flt None w
      "\<lparr>ip_ids = [(''m1'', ''t1'')], ip_next = Some ''2'', ip_estimated_total = None\<rparr>" "w + 1" "''2''" "[''m2'']" "w + 2"] assms
  show ?thesis by simp
qed

lemma flaky_phases:
  "2 \<le> w \<Longrightarrow> phases_end (se_provider flaky_env) ps w (replicate (length ps) [''m1'', ''m2'']) (w + 2 * length ps)"
proof (induction ps arbitrary: w)
  case (Cons p ps)
  from one_phase [OF flaky_pages [OF Cons.prems] Cons.IH] Cons.prems show ?case by simp
qed (simp add: no_phase)

theorem interrupted_resync_forgets_to_refetch_witness:
  "\<exists>e1 e2. start_resync flaky_env (new_engine flaky_env full_db 0) = Some (Err (ProviderFailed (Network ''offline'')), e1) \<and>
     sync_state (en_db e1) KEY_CURSOR = Some ''c1'' \<and> needs_bootstrap e1 \<and>
     bootstrap_list_rest flaky_env e1 = Some (Ok (), e2) \<and> \<not> needs_bootstrap e2 \<and>
     priority_of (sd_account (en_db e2)) ''m1'' = None"
proof -
  let ?e = "new_engine flaky_env full_db 0"
  let ?pf = "\<lparr>pf_email = ''me@example.com'', pf_messages_total = 2, pf_cursor = ''c1''\<rparr>"
  have api: "over_api ?e" by (simp add: over_api_def new_engine_def rest_backfill_def)
  have profile: "mp_profile (se_provider flaky_env) (en_world ?e) = (Ok ?pf, 1)"
    by (simp add: flaky_env_def quiet_provider_def new_engine_def)
  have offline: "mp_list_message_ids (se_provider flaky_env) (phase_filter (hd (phases_for (window ?e)))) None 1 =
      (Err (Network ''offline''), 2)" by (simp add: flaky_env_def)
  have "has_full_row (new_account_db\<lparr>db_mail := full_store\<rparr>) ''m1''" by code_simp
  then have full: "has_full_row (sd_account (en_db ?e)) ''m1''" by (simp add: new_engine_def full_db_def)
  have none: "priority_of (sd_account (en_db ?e)) ''m1'' = None"
    by (simp add: new_engine_def full_db_def priority_of_def new_account_db_def)
  note all = interrupted_resync_forgets_to_refetch [OF api profile offline full none]
  then show ?thesis using flaky_phases [of 2 "drop INBOX_PHASES (phases_for (window ?e))"] by simp blast
qed

end
