(* ===== verification/Rollback.thy ===== *)
theory Rollback
  imports Undo "HOL-Library.Multiset"
begin

text \<open>
  What happens to the store when an op fails for good, and what the batched form of a bulk
  change sends to the provider.
\<close>

section \<open>Failing an op\<close>

lemma fail_run:
  assumes r: "List.find (\<lambda>r. ob_id r = i) (db_outbox db) = Some r"
    and undo: "undo_op (writer_new (db_mail db)) (ob_op r) = Ok (w, draft)" and w: "writer_ok w"
  shows "\<exists>db' ch. fail db i e = Ok (db', ch) \<and> store_ok (db_mail db') \<and> label_sets (db_mail db') = label_sets (w_db w) \<and>
    db_outbox db' = sql_update (\<lambda>r. ob_id r = i) (\<lambda>r. r\<lparr>ob_state := Failed, ob_last_error := Some e, ob_claimed_by := None,
      ob_lease_until := None\<rparr>) (db_outbox db)"
proof -
  from finish_keeps_labels [OF w] obtain m ch where "finish w = Ok (m, ch)" "store_ok m" "label_sets m = label_sets (w_db w)"
    by blast
  with r undo show ?thesis by (auto simp: fail_def Let_def split: option.split)
qed

text \<open>Restoring what a Trash op recorded gives each message its recorded labels, whatever it has now.\<close>

lemma restore_each:
  assumes "writer_ok w" "\<And>g ls. (g, ls) \<in> set previous \<Longrightarrow> ARCHIVE_LABEL \<notin> set ls \<and> set ls = L g"
  shows "\<exists>w'. modify_each (\<lambda>w (m, ls). modify_message_labels w m ls (current_labels (w_db w) m)) w previous = Ok w' \<and> writer_ok w' \<and>
    (\<forall>x. label_sets (w_db w') x =
       (if x \<in> fst ` set previous then map_option (\<lambda>_. L x) (label_sets (w_db w) x) else label_sets (w_db w) x))"
  using assms
proof (induction previous arbitrary: w)
  case (Cons x xs)
  obtain g ls where x: "x = (g, ls)" by (cases x)
  have ls: "ARCHIVE_LABEL \<notin> set ls" "set ls = L g" using Cons.prems(2) [of g ls] x by auto
  from modify_succeeds [OF writer_ok_struct [OF Cons.prems(1)] ls(1), of g "current_labels (w_db w) g"]
  obtain w1 fnd where run: "modify_message_labels w g ls (current_labels (w_db w) g) = Ok (w1, fnd)" by auto
  note w1 = modify_writer_ok [OF Cons.prems(1) run]
  have "relabel ls (current_labels (w_db w) g) S = L g" if "label_sets (w_db w) g = Some S" for S
    using current_label_sets [OF that] ls(2) by (auto simp: relabel_def)
  then have sets: "label_sets (w_db w1) = (label_sets (w_db w))(g := map_option (\<lambda>_. L g) (label_sets (w_db w) g))"
    using modify_refines [OF writer_ok_struct [OF Cons.prems(1)] run] by (cases "label_sets (w_db w) g") auto
  have tail: "ARCHIVE_LABEL \<notin> set ls \<and> set ls = L g" if "(g, ls) \<in> set xs" for g ls
    by (rule Cons.prems(2)) (simp add: that)
  from Cons.IH [OF w1 tail] obtain w' where w':
    "modify_each (\<lambda>w (m, ls). modify_message_labels w m ls (current_labels (w_db w) m)) w1 xs = Ok w'" "writer_ok w'"
    "\<forall>x. label_sets (w_db w') x =
       (if x \<in> fst ` set xs then map_option (\<lambda>_. L x) (label_sets (w_db w1) x) else label_sets (w_db w1) x)" by blast
  have "label_sets (w_db w') y = (if y \<in> fst ` set (x # xs) then map_option (\<lambda>_. L y) (label_sets (w_db w) y) else label_sets (w_db w) y)" for y
    using w'(3) sets by (cases "y = g") (simp_all add: x option.map_comp comp_def)
  with run w'(1,2) show ?case by (intro exI [of _ w']) (simp add: x)
qed simp

lemma affected_found: "(g, ls) \<in> set (affected_by m change) \<Longrightarrow> label_sets m g \<noteq> None"
proof -
  assume "(g, ls) \<in> set (affected_by m change)"
  then have "\<exists>r \<in> set (messages m). m_gmail_id r = g"
    by (auto simp: affected_by_def affected_messages_def thread_message_ids_def split: local_change.splits)
  then show ?thesis by (auto simp: label_sets_def find_message_def find_None_iff)
qed

lemma affected_single:
  assumes "(g, ls) \<in> set (affected_by m (ChangeLabels ts add remove))" "length add + length remove = 1"
  shows "set add \<inter> set ls = {} \<and> set remove \<subseteq> set ls"
proof -
  have "list_ex (\<lambda>l. l \<notin> set ls) add \<or> list_ex (\<lambda>l. l \<in> set ls) remove"
    using assms(1) by (auto simp: affected_by_def affected_messages_def)
  with assms(2) show ?thesis
    by (cases add; cases remove) auto
qed

lemma last_enqueued:
  assumes "outbox_ok db"
  shows "List.find (\<lambda>r. ob_id r = next_rowid ob_id (db_outbox db)) (db_outbox (fst (enqueue db p now))) =
    Some \<lparr>ob_id = next_rowid ob_id (db_outbox db), ob_op = p, ob_created_at = now, ob_attempts = 0, ob_next_attempt_at = None,
      ob_state = Pending, ob_last_error = None, ob_claimed_by = None, ob_lease_until = None\<rparr>"
proof -
  have "List.find P (xs @ [y]) = Some y" if "\<forall>x \<in> set xs. \<not> P x" "P y" for P and xs :: "outbox_row list" and y
    using that by (induction xs) auto
  moreover have "\<forall>r \<in> set (db_outbox db). ob_id r \<noteq> next_rowid ob_id (db_outbox db)"
    using next_rowid_greater [of _ "db_outbox db" ob_id] by fastforce
  ultimately show ?thesis by (simp add: enqueue_def enqueue_held_def Let_def)
qed

text \<open>The op that a change queues when it affects a message.\<close>

definition queued_for :: "mail_store \<Rightarrow> local_change \<Rightarrow> outbox_op" where
  "queued_for m change =
     (case change of
        ChangeLabels ts add remove \<Rightarrow> OpModifyLabels (map fst (affected_by m change)) add remove
      | _ \<Rightarrow> OpTrash (map fst (affected_by m change)) (affected_by m change))"

lemma map_sum_Ok_iff: "map_sum id f r = Inr y \<longleftrightarrow> (\<exists>x. r = Inr x \<and> y = f x)"
  by (cases r) auto

lemma change_store_queues:
  assumes "change_store m change = Ok (m', ops, ds, ch)" "change_labels change = Some parts"
  shows "ops = (if affected_by m change \<noteq> [] then [queued_for m change] else [])"
  using assms
  by (cases change) (auto simp: change_store_def affected_by_def queued_for_def Let_def map_sum_Ok_iff split: sum.splits)

text \<open>
  Claim C8: Rolling back a permanently failed op is exact for the changes that set or clear
  one label and for Trash. When such a change affected a message and the op it queued fails,
  every message of the store has again the labels it had before the change, the store is consistent
  and the op stays visible as failed with the error.
\<close>

theorem rollback_of_single_label_change_is_exact:
  assumes ok: "store_ok (db_mail db)" "outbox_ok db" "undo_ok db"
    and kind: "(\<exists>add remove. change = ChangeLabels ts add remove \<and> length add + length remove = 1 \<and>
        ARCHIVE_LABEL \<notin> set add) \<or> change = ChangeTrash ts"
    and some: "affected_by (db_mail db) change \<noteq> []"
  shows "\<exists>db1 a i r db2 ch. apply_local_change_recorded db change True rec now = Ok (db1, a) \<and>
    r \<in> set (db_outbox db1) \<and> ob_id r = i \<and> ob_op r = queued_for (db_mail db) change \<and>
    fail db1 i e = Ok (db2, ch) \<and> label_sets (db_mail db2) = label_sets (db_mail db) \<and> store_ok (db_mail db2) \<and>
    (\<exists>r' \<in> set (db_outbox db2). ob_id r' = i \<and> ob_state r' = Failed \<and> ob_last_error r' = Some e)"
proof -
  let ?m = "db_mail db" and ?aff = "affected_by (db_mail db) change" and ?i = "next_rowid ob_id (db_outbox db)"
  obtain add remove where parts: "change_labels change = Some (ts, add, remove)" and noarch: "ARCHIVE_LABEL \<notin> set add"
    using kind by (auto simp: TRASH_def ARCHIVE_LABEL_def)
  from change_store_run [OF ok(1) parts noarch] obtain m' ops ch where
    m': "change_store ?m change = Ok (m', ops, map (\<lambda>(g, before). diff_for g before add remove) ?aff, ch)" "store_ok m'"
      "\<forall>x. label_sets m' x = (if x \<in> fst ` set ?aff then map_option (relabel add remove) (label_sets ?m x) else label_sets ?m x)"
    by blast
  from recorded_run [OF m'(1) ok(3), of True rec now] obtain db1 a where
    db1: "apply_local_change_recorded db change True rec now = Ok (db1, a)" "db_mail db1 = m'" by blast
  have "ops = [queued_for ?m change]" using change_store_queues [OF m'(1) parts] some by simp
  with db1(1) m'(1) have "db_outbox db1 = db_outbox (fst (enqueue (db\<lparr>db_mail := m'\<rparr>) (queued_for ?m change) now))"
    by (auto simp: apply_local_change_recorded_def Let_def record_undo_def split: option.splits if_splits)
  with last_enqueued [of "db\<lparr>db_mail := m'\<rparr>" "queued_for ?m change" now] ok(2) obtain r where
    r: "List.find (\<lambda>r. ob_id r = ?i) (db_outbox db1) = Some r" "ob_op r = queued_for ?m change"
    by (auto simp: outbox_ok_def)
  have cur: "set ls = S" if "(g, ls) \<in> set ?aff" "label_sets ?m g = Some S" for g ls S
    using affected_current [OF that(1)] current_label_sets [OF that(2)] by simp
  have w_new: "w_db (writer_new m') = m'" by (simp add: writer_new_def)
  have "\<exists>w draft. undo_op (writer_new m') (ob_op r) = Ok (w, draft) \<and> writer_ok w \<and> label_sets (w_db w) = label_sets ?m"
  proof (cases change)
    case (ChangeLabels ts' add' remove')
    with parts kind have eq: "add' = add" "remove' = remove" "length add + length remove = 1" by auto
    have inv: "relabel remove add (relabel add remove S) = S" if "g \<in> fst ` set ?aff" "label_sets ?m g = Some S" for g S
      using that affected_single [of g _ ?m ts' add remove] cur eq ChangeLabels by (fastforce simp: relabel_def)
    have "ARCHIVE_LABEL \<notin> set remove"
    proof
      assume "ARCHIVE_LABEL \<in> set remove"
      moreover obtain g ls where "(g, ls) \<in> set ?aff" using some by (cases ?aff) auto
      ultimately show False
        using affected_single [of g ls ?m ts' add remove] affected_current [of g ls ?m change] current_no_archive [OF ok(1), of g]
          eq(3) ChangeLabels [unfolded eq(1,2)] by blast
    qed
    with modify_each_refines [OF writer_new_store_ok [OF m'(2)], of "map (\<lambda>g. (g, ())) (map fst ?aff)" "\<lambda>_. remove"
        "\<lambda>w (g, b). modify_message_labels w g remove add" "\<lambda>_. add"]
    obtain w where w: "modify_each (\<lambda>w (g, b). modify_message_labels w g remove add) (writer_new m') (map (\<lambda>g. (g, ())) (map fst ?aff)) = Ok w"
      "writer_ok w" "\<forall>x. label_sets (w_db w) x = (if x \<in> fst ` set ?aff then map_option (relabel remove add) (label_sets m' x) else label_sets m' x)"
      by (auto simp: writer_new_def image_image)
    have "modify_each (\<lambda>w (g, b). f w g) w0 (map (\<lambda>g. (g, ())) gs) = modify_each f w0 gs" for f w0 and gs :: "message_id list"
      by (induction gs arbitrary: w0) (auto split: sum.split)
    with w(1) have "modify_each (\<lambda>w g. modify_message_labels w g remove add) (writer_new m') (map fst ?aff) = Ok w" by metis
    moreover have "label_sets (w_db w) x = label_sets ?m x" for x
      using w(3) m'(3) inv by (cases "label_sets ?m x") (auto simp: option.map_comp comp_def)
    ultimately show ?thesis using w(2) r(2) ChangeLabels eq by (auto simp: queued_for_def)
  next
    case (ChangeTrash ts')
    have prev: "ARCHIVE_LABEL \<notin> set ls \<and> set ls = the (label_sets ?m g)" if "(g, ls) \<in> set ?aff" for g ls
      using affected_current [OF that] current_no_archive [OF ok(1)] affected_found [OF that] cur [OF that] by auto
    from restore_each [where previous = ?aff and L = "\<lambda>g. the (label_sets ?m g)", OF writer_new_store_ok [OF m'(2)] prev] obtain w where
      w: "modify_each (\<lambda>w (m, ls). modify_message_labels w m ls (current_labels (w_db w) m)) (writer_new m') ?aff = Ok w" "writer_ok w"
        "\<forall>x. label_sets (w_db w) x = (if x \<in> fst ` set ?aff then map_option (\<lambda>_. the (label_sets ?m x)) (label_sets m' x) else label_sets m' x)"
      unfolding w_new by blast
    have "label_sets (w_db w) x = label_sets ?m x" for x
      using w(3) m'(3) by (cases "label_sets ?m x") auto
    then show ?thesis using w(1,2) r(2) ChangeTrash by (auto simp: queued_for_def)
  qed (use parts in simp_all)
  then obtain w draft where "undo_op (writer_new m') (ob_op r) = Ok (w, draft)" "writer_ok w" "label_sets (w_db w) = label_sets ?m"
    by blast
  with fail_run [OF r(1), of w draft e] db1(2) obtain db2 ch2 where
    db2: "fail db1 ?i e = Ok (db2, ch2)" "store_ok (db_mail db2)" "label_sets (db_mail db2) = label_sets ?m"
      "db_outbox db2 = sql_update (\<lambda>r. ob_id r = ?i) (\<lambda>r. r\<lparr>ob_state := Failed, ob_last_error := Some e, ob_claimed_by := None,
        ob_lease_until := None\<rparr>) (db_outbox db1)" by auto
  have "r\<lparr>ob_state := Failed, ob_last_error := Some e, ob_claimed_by := None, ob_lease_until := None\<rparr> \<in> set (db_outbox db2)"
    unfolding db2(4) using find_Some_in [OF r(1)] by (intro in_sql_updateI) auto
  then have "\<exists>r' \<in> set (db_outbox db2). ob_id r' = ?i \<and> ob_state r' = Failed \<and> ob_last_error r' = Some e"
    by (rule rev_bexI) (use find_Some_in [OF r(1)] in simp)
  with db1(1) r(2) db2(1-3) find_Some_in [OF r(1)] show ?thesis by blast
qed

theorem rollback_of_single_label_change_is_exact_witness:
  "\<exists>db1 a i r db2 ch. apply_local_change_recorded sample_db (archive [''t1'']) True None 7 = Ok (db1, a) \<and>
     r \<in> set (db_outbox db1) \<and> ob_op r = OpModifyLabels [''m1''] [] [''INBOX''] \<and>
     fail db1 i ''gone'' = Ok (db2, ch) \<and> label_sets (db_mail db2) ''m1'' = Some {''INBOX'', ''UNREAD''}"
proof -
  have aff: "map fst (affected_by (db_mail sample_db) (archive [''t1''])) = [''m1'']" by code_simp
  have lab: "label_sets (db_mail sample_db) ''m1'' = Some {''INBOX'', ''UNREAD''}" by code_simp
  have kind: "(\<exists>add remove. archive [''t1''] = ChangeLabels [''t1''] add remove \<and> length add + length remove = 1 \<and>
      ARCHIVE_LABEL \<notin> set add) \<or> archive [''t1''] = ChangeTrash [''t1'']"
    by (simp add: archive_def)
  have "queued_for (db_mail sample_db) (archive [''t1'']) = OpModifyLabels [''m1''] [] [''INBOX'']"
    using aff by (simp add: queued_for_def archive_def INBOX_def)
  with rollback_of_single_label_change_is_exact [OF sample_db_ok(1,3,2) kind, of None 7 "''gone''"] aff lab show ?thesis
    by (metis list.map_disc_iff list.distinct(1))
qed

text \<open>
  The rollback of a change that sets one label and clears another is not exact. A
  message that is in neither the Inbox nor Spam, marked as not junk, gains the Inbox; when the
  provider refuses the op for good, the rollback takes the Inbox away again and puts Spam on the
  message, which it never had.
\<close>

theorem rollback_of_not_junk_can_mark_spam:
  "case apply_local_change_recorded (sample_db\<lparr>db_mail := fst (write_transaction sample_store ReplaceLabels [ModifyLabels ''m1'' [] [''INBOX'']])\<rparr>)
       (not_junk [''t1'']) True None 7 of
     Inl e \<Rightarrow> False
   | Inr (db1, a) \<Rightarrow>
       (case fail db1 1 ''refused'' of
          Inl e \<Rightarrow> False
        | Inr (db2, ch) \<Rightarrow> label_sets (db_mail db1) ''m1'' = Some {''INBOX'', ''UNREAD''} \<and>
            label_sets (db_mail db2) ''m1'' = Some {''SPAM'', ''UNREAD''})"
  by code_simp

section \<open>Batches\<close>

text \<open>What a label op asks for: one label change per message.\<close>

fun op_entries :: "outbox_op \<Rightarrow> (message_id \<times> label_id list \<times> label_id list) list" where
  "op_entries (OpModifyLabels ids add remove) = map (\<lambda>g. (g, add, remove)) ids"
| "op_entries _ = []"

abbreviation group_entries ::
    "((label_id list \<times> label_id list) \<times> message_id list) list \<Rightarrow> (message_id \<times> label_id list \<times> label_id list) list" where
  "group_entries es \<equiv> concat (map (\<lambda>((add, remove), ids). map (\<lambda>g. (g, add, remove)) ids) es)"

lemma btree_push_entries:
  "mset (group_entries (btree_push (add, remove) g es)) = add_mset (g, add, remove) (mset (group_entries es))"
  by (induction "(add, remove)" g es rule: btree_push.induct) auto

lemma diff_groups_entries:
  "mset (group_entries (diff_groups ds)) = mset (map (\<lambda>d. (md_message d, md_added d, md_removed d)) (filter diff_changes ds))"
proof -
  have "mset (group_entries (foldl (\<lambda>es d. btree_push (md_added d, md_removed d) (md_message d) es) es xs)) =
      mset (group_entries es) + mset (map (\<lambda>d. (md_message d, md_added d, md_removed d)) xs)" for es xs
    by (induction xs arbitrary: es) (simp_all add: btree_push_entries)
  from this [of "[]" "filter diff_changes ds"] show ?thesis by (simp add: diff_groups_def)
qed

lemma chunk_entries: "concat (map (\<lambda>c. map f c) (chunks BATCH ids)) = map f ids"
  using concat_chunks [of BATCH ids] by (simp add: BATCH_def map_concat [symmetric])

text \<open>
  The batched form of a bulk change sends each recorded change exactly once. Over all
  its ops, each message is asked for exactly the labels its diff added and removed, as often as it
  was recorded with a change, and every op is a label change of between one and 1,000 messages.
\<close>

theorem batched_ops_send_each_change_once:
  "mset (concat (map op_entries (batched_ops ds))) =
     mset (map (\<lambda>d. (md_message d, md_added d, md_removed d)) (filter diff_changes ds)) \<and>
   (\<forall>p \<in> set (batched_ops ds). \<exists>ids add remove. p = OpModifyLabels ids add remove \<and> 0 < length ids \<and> length ids \<le> 1000)"
proof
  have "concat (map op_entries (concat (map (\<lambda>((add, remove), ids). map (\<lambda>c. OpModifyLabels c add remove) (chunks BATCH ids)) es))) =
      group_entries es" for es
  proof (induction es)
    case (Cons e es)
    obtain add remove ids where "e = ((add, remove), ids)" by (metis surj_pair)
    with Cons chunk_entries [of "\<lambda>g. (g, add, remove)" ids] show ?case by (simp add: comp_def)
  qed simp
  then show "mset (concat (map op_entries (batched_ops ds))) =
      mset (map (\<lambda>d. (md_message d, md_added d, md_removed d)) (filter diff_changes ds))"
    by (simp only: batched_ops_def diff_groups_entries)
  show "\<forall>p \<in> set (batched_ops ds). \<exists>ids add remove. p = OpModifyLabels ids add remove \<and> 0 < length ids \<and> length ids \<le> 1000"
    using chunks_length [of _ BATCH] by (auto simp: batched_ops_def BATCH_def split_beta)
qed

theorem batched_ops_send_each_change_once_witness:
  "\<exists>ids. OpModifyLabels ids [] [INBOX] \<in> set (batched_ops [diff_for ''m1'' [INBOX] [] [INBOX], diff_for ''m2'' [INBOX] [] [INBOX]]) \<and>
     0 < length ids \<and> length ids \<le> 1000"
proof -
  let ?ds = "[diff_for ''m1'' [INBOX] [] [INBOX], diff_for ''m2'' [INBOX] [] [INBOX]]"
  have "batched_ops ?ds = [OpModifyLabels [''m1'', ''m2''] [] [INBOX]]"
    by (simp add: batched_ops_def diff_groups_def diff_for_def diff_changes_def BATCH_def chunks.simps)
  with batched_ops_send_each_change_once [of ?ds] show ?thesis by auto
qed

end
