(* ===== verification/Reachable.thy ===== *)
theory Reachable
  imports Incremental Rollback
begin

text \<open>
  The engine as a state machine: its public operations as the steps of a relation, with the
  world changing in between as it likes. Every state reached keeps the stored mail consistent,
  the queue and the outbox well formed, and the breaker's state legal.
\<close>

section \<open>The account under the outbox operations\<close>

text \<open>The mail and the queue left alone.\<close>

definition same_mail_queue :: "account_db \<Rightarrow> account_db \<Rightarrow> bool" where
  "same_mail_queue a a' \<longleftrightarrow> db_mail a' = db_mail a \<and> db_queue a' = db_queue a \<and> db_queue_seq a' = db_queue_seq a"

lemma account_ok_outbox: "account_ok a \<Longrightarrow> same_mail_queue a a' \<Longrightarrow> outbox_ok a' \<Longrightarrow> account_ok a'"
  by (simp add: account_ok_def same_mail_queue_def queue_ok_def)

lemma same_mail_queue_trans: "same_mail_queue a b \<Longrightarrow> same_mail_queue b c \<Longrightarrow> same_mail_queue a c"
  by (simp add: same_mail_queue_def)

lemma draft_gone_same: "same_mail_queue a (draft_gone a d s now)"
  by (simp add: same_mail_queue_def draft_gone_def)

lemma enqueue_same: "same_mail_queue a (fst (enqueue a p now))"
  by (simp add: same_mail_queue_def enqueue_def enqueue_held_def Let_def)

lemma discard_same: "same_mail_queue a (discard a d now)"
proof -
  have "same_mail_queue (draft_gone a d s now) (delete_draft_row (draft_gone a d s now) d)" for s
    by (simp add: same_mail_queue_def delete_draft_row_def)
  with draft_gone_same have "same_mail_queue a (delete_draft_row (draft_gone a d s now) d)" for s
    by (rule same_mail_queue_trans)
  moreover note enqueue_same
  ultimately show ?thesis unfolding discard_def
    by (auto simp: same_mail_queue_def Let_def split: option.split)
qed

lemma complete_same: "same_mail_queue a (complete a i)"
  using discard_same by (auto simp: complete_def Let_def same_mail_queue_def split: option.split outbox_op.split)

lemma retry_later_same: "same_mail_queue a (retry_later a i at e)"
  by (simp add: same_mail_queue_def retry_later_def)

lemma renew_mq: "same_mail_queue a (fst (renew a i c l))"
  by (simp add: same_mail_queue_def renew_def)

lemma recover_same: "same_mail_queue a (fst (recover_in_flight a me locks now))"
  by (simp add: same_mail_queue_def recover_in_flight_def)

lemma claim_next_same: "same_mail_queue a (fst (claim_next a c now lease))"
  by (simp add: same_mail_queue_def claim_next_def Let_def split: option.split)

lemma account_ok_steps:
  assumes "account_ok a"
  shows "account_ok (fst (enqueue a p now))" "account_ok (complete a i)" "account_ok (retry_later a i at err)"
    "account_ok (fst (renew a i c l))" "account_ok (fst (recover_in_flight a me locks now))"
    "account_ok (fst (claim_next a c now l))" "account_ok (set_gmail_draft_id a j g)"
proof -
  have o: "outbox_ok a" using assms by (simp add: account_ok_def)
  note keep = account_ok_outbox [OF assms]
  show "account_ok (fst (enqueue a p now))" by (rule keep [OF enqueue_same enqueue_ok [OF o]])
  show "account_ok (complete a i)" by (rule keep [OF complete_same complete_ok [OF o]])
  show "account_ok (retry_later a i at err)" by (rule keep [OF retry_later_same retry_later_ok [OF o]])
  show "account_ok (fst (renew a i c l))" by (rule keep [OF renew_mq renew_ok [OF o]])
  show "account_ok (fst (recover_in_flight a me locks now))" by (rule keep [OF recover_same recover_in_flight_ok [OF o]])
  show "account_ok (fst (claim_next a c now l))" by (rule keep [OF claim_next_same claim_next_ok [OF o]])
  show "account_ok (set_gmail_draft_id a j g)"
    by (rule keep) (use outbox_ok_same [OF o] in \<open>auto simp: same_mail_queue_def set_gmail_draft_id_def\<close>)
qed

lemma account_ok_renewals: "account_ok a \<Longrightarrow> account_ok (renewals a i me t0 t1)"
proof -
  have "account_ok a \<Longrightarrow> account_ok (foldl (\<lambda>d k. fst (renew d i me (t0 + (int k + 1) * LEASE_RENEW_MS + LEASE_MS))) a ks)" for ks a
    by (induction ks arbitrary: a) (simp_all add: account_ok_steps)
  then show "account_ok a \<Longrightarrow> account_ok (renewals a i me t0 t1)" by (simp add: renewals_def)
qed

text \<open>Rolling an op back, and adopting a sent copy.\<close>

lemma modify_each_writer_ok:
  assumes "\<And>w x w' b. x \<in> set xs \<Longrightarrow> writer_ok w \<Longrightarrow> f w x = Ok (w', b) \<Longrightarrow> writer_ok w'"
  shows "writer_ok w \<Longrightarrow> modify_each f w xs = Ok w' \<Longrightarrow> writer_ok w'"
  using assms
proof (induction f w xs rule: modify_each.induct)
  case (2 f w x xs)
  from "2.prems"(2) obtain w1 b where "f w x = Ok (w1, b)" "modify_each f w1 xs = Ok w'" by (auto split: sum.splits)
  with 2 show ?case by (metis list.set_intros)
qed simp

lemma undo_op_writer_ok:
  assumes "writer_ok w" "undo_op w p = Ok (w', draft)"
  shows "writer_ok w'"
proof (cases p)
  case (OpSend d raw t l)
  with assms show ?thesis using delete_refines [OF assms(1)] by auto
qed (use assms in \<open>auto simp: map_sum_Ok_iff elim!: modify_each_writer_ok [rotated -1] intro: modify_writer_ok split: prod.splits\<close>)

lemma set_state_mq: "same_mail_queue a (set_state a d s e)"
  by (simp add: same_mail_queue_def set_state_def)

lemma fail_account_ok:
  assumes ok: "account_ok a" and run: "fail a i e = Ok (a', ch)"
  shows "account_ok a'"
proof -
  from run obtain r w draft where r: "List.find (\<lambda>r. ob_id r = i) (db_outbox a) = Some r"
    and u: "undo_op (writer_new (db_mail a)) (ob_op r) = Ok (w, draft)"
    by (auto simp: fail_def split: option.splits sum.splits)
  have w0: "writer_ok (writer_new (db_mail a))" using ok by (intro writer_new_store_ok) (simp add: account_ok_def)
  have w: "writer_ok w" by (rule undo_op_writer_ok [OF w0 u])
  from fail_run [OF r u w, of e] run have "store_ok (db_mail a')" by auto
  moreover have "db_queue a' = db_queue a \<and> db_queue_seq a' = db_queue_seq a"
    using run r u set_state_mq by (auto simp: fail_def Let_def same_mail_queue_def split: sum.splits option.splits)
  moreover have "outbox_ok a'" by (rule fail_keeps(1) [OF _ run]) (use ok in \<open>simp add: account_ok_def\<close>)
  ultimately show ?thesis using ok by (simp add: account_ok_def queue_ok_def)
qed

lemma record_outcome_account_ok:
  assumes ok: "account_ok a" and run: "record_outcome a me queued r now = Ok (a', ch, out)"
  shows "account_ok a'"
proof -
  note c = account_ok_steps(2) [OF ok] and l = account_ok_steps(3) [OF ok]
  have adopt: "account_ok (b\<lparr>db_mail := m\<rparr>)"
    if b: "account_ok b" and fin: "finish (case x of None \<Rightarrow> writer_new (db_mail b) | Some (loc, sent) \<Rightarrow>
        adopt_local_copy (writer_new (db_mail b)) loc sent) = Ok (m, ch')" for b x m ch'
  proof -
    have "writer_ok (writer_new (db_mail b))" using b by (intro writer_new_store_ok) (simp add: account_ok_def)
    then have "writer_ok (case x of None \<Rightarrow> writer_new (db_mail b) | Some (loc, sent) \<Rightarrow>
        adopt_local_copy (writer_new (db_mail b)) loc sent)"
      using adopt_local_copy_ok by (auto simp: writer_ok_def split: option.split)
    from finish_ok [OF this] fin have "store_ok m" by auto
    with b show ?thesis by (simp add: account_ok_def queue_ok_def outbox_ok_def)
  qed
  show ?thesis
    using run ok c l fail_account_ok [OF ok] adopt [OF c]
    by (auto simp: record_outcome_def Let_def split: sum.splits if_splits prod.splits)
qed

lemma change_store_ok:
  assumes ok: "store_ok m" and run: "change_store m change = Ok (m', ops, diffs, ch)"
  shows "store_ok m'"
proof -
  have w0: "writer_ok (writer_new m)" by (rule writer_new_store_ok [OF ok])
  have fin: "store_ok m''" if "writer_ok w" "finish w = Ok (m'', c)" for w m'' c
    using finish_ok [OF that(1)] that(2) by auto
  have each: "writer_ok w" if "modify_each (\<lambda>w (g, b). modify_message_labels w g add remove) (writer_new m) xs = Ok w"
    for add remove xs w
    by (rule modify_each_writer_ok [OF _ w0 that]) (auto intro: modify_writer_ok)
  have exact: "writer_ok w \<Longrightarrow> apply_exact w ds = Ok (w', applied) \<Longrightarrow> writer_ok w'" for w ds w' applied
  proof (induction w ds arbitrary: applied rule: apply_exact.induct)
    case (2 w d ds)
    then show ?case by (fastforce split: sum.splits prod.splits dest: modify_writer_ok)
  qed simp
  note exact0 = exact [OF w0]
  have clean: "writer_ok w \<Longrightarrow> cleanup_each add remove w gs = Ok (w', ds) \<Longrightarrow> writer_ok w'" for add remove w gs w' ds
  proof (induction add remove w gs arbitrary: ds rule: cleanup_each.induct)
    case (2 add remove w g gs)
    then show ?case by (fastforce simp: map_sum_Ok_iff split: sum.splits prod.splits option.splits dest: modify_writer_ok)
  qed simp
  note clean0 = clean [OF w0]
  show ?thesis
    using run by (cases change)
      (auto simp: change_store_def cleanup_apply_def Let_def map_sum_Ok_iff split: sum.splits prod.splits
        dest!: each exact0 clean0 dest: fin)
qed

lemma apply_change_account_ok:
  assumes ok: "account_ok a" and run: "apply_local_change_recorded a change queued record_as now = Ok (a', x)"
  shows "account_ok a'"
proof -
  from run obtain m ops diffs ch where c: "change_store (db_mail a) change = Ok (m, ops, diffs, ch)"
    by (auto simp: apply_local_change_recorded_def split: sum.splits)
  have "store_ok m" by (rule change_store_ok [OF _ c]) (use ok in \<open>simp add: account_ok_def\<close>)
  then have "account_ok (a\<lparr>db_mail := m\<rparr>)" using ok by (simp add: account_ok_def queue_ok_def outbox_ok_def)
  moreover have "account_ok b \<Longrightarrow> account_ok (foldl (\<lambda>d p. fst (enqueue d p now)) b ps)" for b ps
    by (induction ps arbitrary: b) (simp_all add: account_ok_steps)
  moreover have "account_ok b \<Longrightarrow> account_ok (fst (record_undo b kind ds))" for b kind ds
    by (simp add: record_undo_def Let_def account_ok_def queue_ok_def outbox_ok_def)
  ultimately show ?thesis
    using run c by (auto simp: apply_local_change_recorded_def Let_def split: if_splits option.splits prod.splits) (metis fst_conv)+
qed

section \<open>Draining the outbox\<close>

lemma engine_ok_remember [simp]: "engine_ok (remember_own q ids add remove e) = engine_ok e"
  by (simp add: engine_ok_def remember_own_def Let_def)

lemma engine_ok_called: "call_world f e = (r, e1) \<Longrightarrow> engine_ok e1 = engine_ok e"
  by (auto simp: call_world_def engine_ok_def split: prod.splits)

lemma engine_ok_mirror: "mirror_draft q d f e = (r, e') \<Longrightarrow> engine_ok e \<Longrightarrow> engine_ok e'"
  unfolding mirror_draft_def Let_def
  by (auto intro!: engine_ok_queue_tx intro: account_ok_steps dest!: engine_ok_called
      split: option.splits prod.splits sum.splits if_splits)

lemma engine_ok_perform: "engine_ok e \<Longrightarrow> engine_ok (snd (perform q queued e))"
  by (auto simp: perform_def Let_def split: outbox_op.split option.split prod.split dest: engine_ok_called engine_ok_mirror)

lemma engine_ok_leased: "engine_ok e \<Longrightarrow> engine_ok (snd (leased q queued e))"
  unfolding leased_def Let_def
  using engine_ok_perform [of e q queued]
  by (auto intro!: engine_ok_queue_tx account_ok_renewals split: prod.split)

lemma engine_ok_tell_pending: "engine_ok e \<Longrightarrow> engine_ok (tell_pending e)"
  by (simp add: tell_pending_def Let_def engine_ok_tell)

lemma engine_ok_record_api: "engine_ok e \<Longrightarrow> engine_ok (record_api q t j r n s e)"
  by (simp add: record_api_def engine_ok_record_done)

lemma engine_ok_account: "engine_ok e \<Longrightarrow> account_ok a \<Longrightarrow> engine_ok (e\<lparr>en_db := (en_db e)\<lparr>sd_account := a\<rparr>\<rparr>)"
  by (simp add: engine_ok_def)

lemma engine_ok_run_op:
  assumes "engine_ok e" "run_op q queued now e = (r, e')"
  shows "engine_ok e'"
proof -
  obtain x e1 where l: "leased q queued e = (x, e1)" by fastforce
  let ?e2 = "record_api q (now_of q e) JobWrite ''one API call per change, with exact undo'' 1 (\<not> isl x) e1"
  have e2: "engine_ok ?e2" using engine_ok_leased [OF assms(1), of q queued] l by (simp add: engine_ok_record_api)
  then have acc: "account_ok (sd_account (en_db ?e2))" by (simp add: engine_ok_def)
  show ?thesis
  proof (cases "record_outcome (sd_account (en_db ?e2)) (cl_id (se_me q)) queued x now")
    case (Inl y)
    with assms(2) l e2 show ?thesis by (simp add: run_op_def Let_def)
  next
    case (Inr y)
    obtain a ch out where y: "y = (a, ch, out)" by (cases y)
    with Inr record_outcome_account_ok [OF acc] have "account_ok a" by blast
    with e2 have "engine_ok (publish ch (?e2\<lparr>en_db := (en_db ?e2)\<lparr>sd_account := a\<rparr>\<rparr>))"
      by (intro engine_ok_publish engine_ok_account)
    with assms(2) l Inr y show ?thesis by (auto simp: run_op_def Let_def engine_ok_tell_pending split: if_splits)
  qed
qed

lemma engine_ok_claim: "engine_ok e \<Longrightarrow> engine_ok (snd (queue_tx (\<lambda>a. claim_next a c now l) e))"
  by (intro engine_ok_queue_tx account_ok_steps)

lemma drain_loop_ok:
  assumes "drain_loop q rep e = Some y"
  shows "engine_ok e \<longrightarrow> engine_ok (snd y)"
  using _ assms
proof (rule drain_loop.raw_induct [where P = "\<lambda>q rep e y. engine_ok e \<longrightarrow> engine_ok (snd y)"])
  fix loop :: "'a sync_env \<Rightarrow> drain_report \<Rightarrow> 'a engine \<Rightarrow> ((sync_error, drain_report) result \<times> 'a engine) option"
    and q rep e y
  assume IH: "\<And>q rep e y. loop q rep e = Some y \<Longrightarrow> engine_ok e \<longrightarrow> engine_ok (snd y)"
    and run: "(case queue_tx (\<lambda>a. claim_next a (cl_id (se_me q)) (now_of q e) (now_of q e + LEASE_MS)) e of
        (Idle, e1) \<Rightarrow> Some (Ok rep, e1)
      | (Busy, e1) \<Rightarrow> Some (Ok (rep\<lparr>dp_busy := True\<rparr>), e1)
      | (Ready queued, e1) \<Rightarrow>
          (case run_op q queued (now_of q e) e1 of
             (Inl x, e2) \<Rightarrow> Some (Err x, e2)
           | (Inr (out, err), e2) \<Rightarrow>
               (case out of
                  WasSent \<Rightarrow> loop q (rep\<lparr>dp_sent := dp_sent rep + 1\<rparr>) e2
                | WasDropped \<Rightarrow> loop q (rep\<lparr>dp_sent := dp_sent rep + 1\<rparr>) e2
                | WillRetry \<Rightarrow> Some (Ok (rep\<lparr>dp_retrying := dp_retrying rep + 1\<rparr>), e2)
                | HasFailed \<Rightarrow>
                    if err = Some Unauthorized then Some (Err (ProviderFailed Unauthorized), e2)
                    else loop q (rep\<lparr>dp_failed := dp_failed rep + 1\<rparr>) e2))) = Some y"
  obtain cl e1 where c: "queue_tx (\<lambda>a. claim_next a (cl_id (se_me q)) (now_of q e) (now_of q e + LEASE_MS)) e = (cl, e1)"
    by fastforce
  with engine_ok_claim [of e] have e1: "engine_ok e \<Longrightarrow> engine_ok e1" by (metis snd_conv)
  show "engine_ok e \<longrightarrow> engine_ok (snd y)"
  proof (cases cl)
    case (Ready queued)
    obtain r e2 where op: "run_op q queued (now_of q e) e1 = (r, e2)" by fastforce
    with engine_ok_run_op e1 have e2: "engine_ok e \<Longrightarrow> engine_ok e2" by blast
    from run c Ready op show ?thesis
      by (cases r) (auto dest!: IH simp: e2 split: outcome.splits if_splits prod.splits)
  qed (use run c e1 in auto)
qed

lemma drain_keeps: "engine_ok e \<Longrightarrow> settles engine_ok (drain_outbox q e)"
  using drain_loop_ok [of q no_report "snd (queue_tx (\<lambda>a. recover_in_flight a (se_me q) (se_locks q (en_world e)) (now_of q e)) e)"]
    engine_ok_queue_tx [of e "\<lambda>a. recover_in_flight a (se_me q) (se_locks q (en_world e)) (now_of q e)", OF _ account_ok_steps(5)]
  by (cases "drain_outbox q e") (auto simp: drain_outbox_def settles_Some)

section \<open>Fetching and history\<close>

lemma mail_tx_engine:
  assumes e: "engine_ok e" and run: "db_write (mail_tx s ps f) e = (r, e')" and fits: "list_all op_fits ps"
    and f: "\<And>a. queue_ok a \<Longrightarrow> outbox_ok a \<Longrightarrow> queue_ok (fst (f a)) \<and> outbox_ok (fst (f a))"
  shows "engine_ok e'"
proof -
  have "engine_ok (snd (db_write (mail_tx s ps f) e))"
    by (rule engine_ok_db_write [OF e]) (auto elim!: mail_tx_ok simp: fits f)
  with run show ?thesis by simp
qed

lemma category_ops_fit: "list_all op_fits (category_ops m ls)"
  by (auto simp: category_ops_def list_all_iff)

lemma upserts_fit: "list_all op_fits (upserts q ms)"
  by (simp add: upserts_def list_all_iff)

lemma remove_ids_outbox [simp]: "db_outbox (remove_ids a ids) = db_outbox a"
  unfolding remove_ids_def by (induction ids arbitrary: a) (simp_all add: queue_remove_def)

lemma remove_headers_outbox [simp]: "db_outbox (fst (remove_headers_only a ids)) = db_outbox a"
  by (induction a ids rule: remove_headers_only.induct) (auto simp: Let_def split: prod.splits)

lemma queue_removed_ok:
  "queue_ok a \<Longrightarrow> outbox_ok a \<Longrightarrow> queue_ok (remove_ids a ids) \<and> outbox_ok (remove_ids a ids)"
  "queue_ok a \<Longrightarrow> outbox_ok a \<Longrightarrow> queue_ok (fst (remove_headers_only a ids)) \<and> outbox_ok (fst (remove_headers_only a ids))"
  by (auto intro: queue_ok_remove_ids queue_ok_remove_headers_only outbox_ok_same)

lemma engine_ok_written:
  "db_write (mail_tx s (upserts q ms) (\<lambda>a. (remove_ids a ids, ()))) e = (r, e') \<Longrightarrow> engine_ok e \<Longrightarrow> engine_ok e'"
  "db_write (mail_tx s (upserts q ms) (\<lambda>a. remove_headers_only a ids)) e = (r2, e2) \<Longrightarrow> engine_ok e \<Longrightarrow> engine_ok e2"
  "db_write (mail_tx s (category_ops m ls) (\<lambda>a. (a, ()))) e = (r3, e3) \<Longrightarrow> engine_ok e \<Longrightarrow> engine_ok e3"
  by (auto elim!: mail_tx_engine [rotated] simp: upserts_fit category_ops_fit queue_removed_ok)

lemma engine_ok_fetched: "fetch_bodies q ids prio e = (r, e1) \<Longrightarrow> engine_ok e \<Longrightarrow> engine_ok e1"
  using engine_ok_fetch_bodies [of e q ids prio] by simp

lemma engine_ok_headers: "fetch_headers q ids e = (r, e1) \<Longrightarrow> engine_ok e \<Longrightarrow> engine_ok e1"
  using engine_ok_fetch_headers [of e q ids] by simp

lemma engine_ok_fields [simp]:
  "engine_ok (e\<lparr>en_headers_waiting := b\<rparr>) = engine_ok e" "engine_ok (e\<lparr>en_missed := s\<rparr>) = engine_ok e"
  "engine_ok (e\<lparr>en_own := own\<rparr>) = engine_ok e" "engine_ok (e\<lparr>en_world := w\<rparr>) = engine_ok e"
  "engine_ok (e\<lparr>en_source := src\<rparr>) = engine_ok e"
  by (simp_all add: engine_ok_def)

lemma engine_ok_backfill_batch: "engine_ok e \<Longrightarrow> engine_ok (snd (backfill_batch q mx e))"
  unfolding backfill_batch_def Let_def and_then_def
  by (auto split: sum.splits prod.splits intro!: engine_ok_report engine_ok_publish
      dest: engine_ok_fetched engine_ok_written)

lemma engine_ok_headers_pass:
  assumes e: "engine_ok e"
  shows "engine_ok (snd (headers_pass q mx e))"
proof -
  define ids where "ids = take mx (filter (\<lambda>g. g \<notin> en_missed e) (for_headers (sd_account (en_db e)) (mx + card (en_missed e))))"
  obtain r e1 where f: "fetch_headers q ids e = (r, e1)" by fastforce
  note e1 = engine_ok_headers [OF f e]
  show ?thesis
  proof (cases r)
    case None
    with e e1 f show ?thesis
      by (auto simp: headers_pass_def ids_def [symmetric] Let_def
          intro!: engine_ok_report engine_ok_queue_tx account_ok_promote)
  next
    case (Some headers)
    have "engine_ok (snd (db_write (mail_tx (stored_labels_of q) (upserts q headers) (\<lambda>a. remove_headers_only a ids))
        (e1\<lparr>en_headers_waiting := False\<rparr>)))"
      using e1 by (intro mail_tx_engine [OF _ prod.collapse [symmetric]]) (simp_all add: upserts_fit queue_removed_ok)
    with e f Some show ?thesis
      by (auto simp: headers_pass_def ids_def [symmetric] Let_def
          intro!: and_then_keeps [where I = engine_ok] engine_ok_report engine_ok_publish)
  qed
qed

lemma engine_ok_ensure_bodies: "engine_ok e \<Longrightarrow> engine_ok (snd (ensure_bodies q ids e))"
  unfolding ensure_bodies_def Let_def and_then_def
  by (auto split: sum.splits prod.splits intro!: engine_ok_report engine_ok_publish
      dest: engine_ok_fetched engine_ok_written)

lemma engine_ok_search_server: "engine_ok e \<Longrightarrow> engine_ok (snd (search_server q query mx e))"
  using engine_ok_list_via_imap [of e q query JobSearch]
  by (auto simp: search_server_def and_then_def intro!: engine_ok_ensure_bodies split: prod.split sum.split
      dest!: engine_ok_list_page)

lemma urgent_outbox [simp]: "db_outbox (fst (enqueue_urgent a ids)) = db_outbox a"
proof -
  have step: "db_outbox (queue_push_front (queue_remove a g) g) = db_outbox a" for a g
    by (simp add: queue_push_front_def queue_remove_def Let_def)
  have "db_outbox (fst (urgent_loop a ids)) = db_outbox a" for ids
    by (induction a ids rule: urgent_loop.induct) (auto simp: step split: prod.splits)
  then show ?thesis by (simp add: enqueue_urgent_def)
qed

lemma urgent_queue_ok: "queue_ok a \<Longrightarrow> queue_ok (fst (enqueue_urgent a ids))"
  by (simp add: enqueue_urgent_def queue_ok_urgent_loop)

lemma account_ok_urgent: "account_ok a \<Longrightarrow> account_ok (fst (enqueue_urgent a ids))"
  by (rule account_ok_queue) (simp_all add: urgent_queue_ok account_ok_def, simp add: enqueue_urgent_def urgent_loop_mail)

lemma engine_ok_prioritize: "engine_ok e \<Longrightarrow> engine_ok (prioritize ids e)"
  unfolding prioritize_def by (intro engine_ok_queue_tx account_ok_urgent)

lemma store_drafts_ok:
  assumes ok: "account_ok (sd_account d)" and run: "store_drafts q pairs fetched stale d = Ok (d', ch)"
  shows "account_ok (sd_account d')"
proof -
  have fits: "list_all op_fits (upserts q fetched @ map DeleteMessage stale)"
    using upserts_fit [of q fetched] by (auto simp: list_all_iff)
  from run obtain d1 c x where tx: "mail_tx (stored_labels_of q) (upserts q fetched @ map DeleteMessage stale) (\<lambda>a. (a, ())) d = Ok (d1, c, x)"
    and d': "sd_account d' = replace_server_drafts (sd_account d1) pairs"
    by (auto simp: store_drafts_def split: sum.splits)
  have "account_ok (sd_account d1)" by (rule mail_tx_ok [OF tx ok fits]) simp
  then show ?thesis unfolding d'
    by (simp add: account_ok_def replace_server_drafts_def queue_ok_def outbox_ok_def)
qed

lemma engine_ok_sync_drafts:
  assumes e: "engine_ok e"
  shows "engine_ok (snd (sync_drafts q e))"
proof -
  have written: "engine_ok (snd (db_write (store_drafts q pairs fetched stale) e1))" if "engine_ok e1" for e1 pairs fetched stale
    using engine_ok_db_write [OF that, of "store_drafts q pairs fetched stale"] store_drafts_ok by (metis surj_pair)
  obtain r e1 where l: "call_world (mp_list_drafts (se_provider q)) e = (r, e1)" by fastforce
  with e have e1: "engine_ok e1" by (simp add: engine_ok_called)
  show ?thesis
    unfolding sync_drafts_def Let_def l prod.case
    by (rule and_then_keeps [where I = engine_ok])
      (auto simp: e1 engine_ok_lift engine_ok_record_api split: option.split
        intro!: and_then_keeps [where I = engine_ok] engine_ok_fetch_bodies written engine_ok_publish)
qed

lemma collect_pages_ok:
  assumes "collect_pages q flt reason page acc e = Some y"
  shows "engine_ok e \<longrightarrow> engine_ok (snd y)"
  using _ assms
proof (rule collect_pages.raw_induct [where P = "\<lambda>_ _ _ _ _ e y. engine_ok e \<longrightarrow> engine_ok (snd y)"])
qed (auto split: prod.splits sum.splits option.splits dest!: engine_ok_list_page)

lemma settles_list_category: "engine_ok e \<Longrightarrow> settles engine_ok (list_category q c e)"
proof -
  assume e: "engine_ok e"
  obtain r e1 where l: "list_via_imap q (category_search c) JobCategories e = (r, e1)" by fastforce
  with engine_ok_list_via_imap [OF e, of q "category_search c" JobCategories] have e1: "engine_ok e1" by simp
  have "settles engine_ok (collect_pages q flt reason page acc e1)" for flt reason page acc
    using e1 collect_pages_ok [of q flt reason page acc e1]
    by (cases "collect_pages q flt reason page acc e1") (auto simp: settles_Some)
  with l e1 show ?thesis by (auto simp: list_category_def split: sum.split)
qed

lemma settles_list_categories: "engine_ok e \<Longrightarrow> settles engine_ok (list_categories q cs e)"
  by (induction q cs e rule: list_categories.induct) (auto intro!: settles_run_then settles_list_category)

lemma settles_sync_categories: "engine_ok e \<Longrightarrow> settles engine_ok (sync_categories q e)"
  unfolding sync_categories_def Let_def and_then_def
  by (auto intro!: settles_run_then settles_list_categories engine_ok_publish simp: settles_Some
      split: prod.splits sum.splits dest: engine_ok_written)

lemma history_steps_outbox: "history_steps F cs h = Ok h' \<Longrightarrow> db_outbox (hs_account h') = db_outbox (hs_account h)"
proof (induction F cs h rule: history_steps.induct)
  case (2 F c cs h)
  from "2.prems" obtain h1 where h1: "history_step F c h = Ok h1" "history_steps F cs h1 = Ok h'" by (auto split: sum.splits)
  have "db_outbox (hs_account h1) = db_outbox (hs_account h)"
    using h1(1) by (cases c) (auto simp: relabel_step_def queue_remove_def split: if_splits sum.splits prod.splits)
  with "2.IH" [OF h1(1,2)] show ?case by simp
qed simp

lemma history_tx_ok:
  assumes run: "history_tx stored ms cs d = Ok (d', x)" and ok: "account_ok (sd_account d)"
  shows "account_ok (sd_account d')"
proof -
  obtain ch rep ls where x: "x = (ch, rep, ls)" by (cases x)
  have store: "store_ok (db_mail (sd_account d))" and queue: "queue_ok (sd_account d)" and out: "outbox_ok (sd_account d)"
    using ok by (simp_all add: account_ok_def)
  from history_tx_parts [OF run [unfolded x] store] obtain h0 h1 h2 where
    h0: "hs_account h0 = sd_account d" "writer_ok (hs_writer h0)"
    and h1: "store_fetched ms h0 = Ok h1" and h2: "history_steps (im_id ` set ms) (cs_changes cs) h1 = Ok h2"
    and acct: "sd_account d' = (fst (enqueue_urgent ((hs_account h2)\<lparr>db_mail := w_db (hs_writer h2)\<rparr>) (hs_unknown h2)))
       \<lparr>db_mail := db_mail (sd_account d')\<rparr>"
    and fin: "\<exists>c. finish (hs_writer h2) = Ok (db_mail (sd_account d'), c)" by metis
  have s1: "writer_ok (hs_writer h1) \<and> hs_account h1 = hs_account h0"
    using h0(2) h1
  proof (induction ms h0 rule: store_fetched.induct)
    case (2 m ms h)
    then show ?case by (auto simp: Let_def split: sum.splits dest: upsert_message_ok)
  qed simp
  have s2: "writer_ok (hs_writer h2)" using history_steps_refines [OF _ h2] s1 by blast
  have "db_outbox (hs_account h2) = db_outbox (hs_account h1)" by (rule history_steps_outbox [OF h2])
  with s1 h0(1) out have o2: "outbox_ok (hs_account h2)" by (intro outbox_ok_same [OF out]) simp
  have q2: "queue_ok (hs_account h2)" using history_steps_queue [OF _ h2] s1 h0(1) queue by simp
  from finish_ok [OF s2] fin have m: "store_ok (db_mail (sd_account d'))" by auto
  let ?a = "(hs_account h2)\<lparr>db_mail := w_db (hs_writer h2)\<rparr>"
  have "queue_ok ?a" "outbox_ok ?a" using q2 o2 by (simp_all add: queue_ok_def outbox_ok_def)
  then have "queue_ok (fst (enqueue_urgent ?a (hs_unknown h2)))" "outbox_ok (fst (enqueue_urgent ?a (hs_unknown h2)))"
    by (auto simp: urgent_queue_ok intro: outbox_ok_same)
  with m show ?thesis by (subst acct) (simp add: account_ok_def queue_ok_def outbox_ok_def)
qed

lemma engine_ok_apply_history:
  assumes e: "engine_ok e"
  shows "engine_ok (snd (apply_history q cs e))"
proof -
  have fetched: "engine_ok (snd (fetch_history q ids e))" for ids
    using e by (simp add: fetch_history_def engine_ok_lift engine_ok_call)
  have written: "engine_ok (snd (db_write (history_tx s ms cs) e1))" if "engine_ok e1" for e1 s ms
    using engine_ok_db_write [OF that, of "history_tx s ms cs"] history_tx_ok by metis
  have ours: "engine_ok (snd (not_ours q ls e1))" if "engine_ok e1" for ls e1
    using that by (simp add: not_ours_def Let_def)
  show ?thesis
    unfolding apply_history_def
    by (auto simp: Let_def split: prod.splits intro!: and_then_keeps [where I = engine_ok] fetched written engine_ok_report)
      (metis engine_ok_sync_drafts engine_ok_publish ours snd_conv)
qed

lemma settles_start_resync: "engine_ok e \<Longrightarrow> settles engine_ok (start_resync q e)"
  unfolding start_resync_def Let_def
  by (auto intro!: settles_run_then settles_phases engine_ok_settings engine_ok_db_set engine_ok_lift engine_ok_call simp: settles_Some)

lemma settles_sync_incremental:
  assumes e: "engine_ok e"
  shows "settles engine_ok (sync_incremental q e)"
proof (cases "sync_state (en_db e) KEY_CURSOR")
  case None
  with e show ?thesis by (simp add: sync_incremental_def)
next
  case (Some c)
  show ?thesis
    unfolding sync_incremental_def Some option.case Let_def
    by (rule settles_run_then [OF drain_keeps [OF e]])
      (auto simp: settles_Some intro!: engine_ok_apply_history settles_run_then settles_start_resync engine_ok_record_api
        split: prod.split sum.split provider_error.split dest!: engine_ok_called)
qed

lemma engine_ok_apply_change:
  assumes e: "engine_ok e"
  shows "engine_ok (snd (apply_change_recorded q change rec e))"
proof -
  have "account_ok (sd_account (en_db e))" using e by (simp add: engine_ok_def)
  with e show ?thesis
    by (auto simp: apply_change_recorded_def split: sum.split prod.split
        intro!: engine_ok_publish engine_ok_account dest: apply_change_account_ok)
qed

section \<open>The state machine\<close>

text \<open>
  One public operation of the engine, and what its caller sees of the state. An operation that
  never returns makes no step.
\<close>

datatype engine_op =
    OpSetWindow sync_window
  | OpEnsureWindow
  | OpSetBodyWindow body_window
  | OpEnsureTiers
  | OpLoadEveryHeader bool
  | OpLoadWaitingHeaders
  | OpRefreshLabels
  | OpBootstrapPrepare
  | OpBootstrapListRest
  | OpRefetchAll
  | OpBackfillBatch nat
  | OpHeadersPass nat
  | OpSearchServer string nat
  | OpEnsureBodies "message_id list"
  | OpPrioritize "message_id list"
  | OpSyncDrafts
  | OpSyncCategories
  | OpSyncIncremental
  | OpDrainOutbox
  | OpApplyChange local_change "string option"
  | OpWaitForPush nat
  | OpResetTransport

fun engine_call :: "'w sync_env \<Rightarrow> engine_op \<Rightarrow> 'w engine \<Rightarrow> 'w engine option" where
  "engine_call q (OpSetWindow w) e = map_option snd (set_window q w e)"
| "engine_call q OpEnsureWindow e = map_option snd (ensure_window q e)"
| "engine_call q (OpSetBodyWindow b) e = map_option snd (set_body_window q b e)"
| "engine_call q OpEnsureTiers e = map_option snd (ensure_tiers q e)"
| "engine_call q (OpLoadEveryHeader x) e = map_option snd (load_every_header q x e)"
| "engine_call q OpLoadWaitingHeaders e = Some (snd (load_waiting_headers e))"
| "engine_call q OpRefreshLabels e = Some (snd (refresh_labels q e))"
| "engine_call q OpBootstrapPrepare e = map_option snd (bootstrap_prepare q e)"
| "engine_call q OpBootstrapListRest e = map_option snd (bootstrap_list_rest q e)"
| "engine_call q OpRefetchAll e = map_option snd (refetch_all q e)"
| "engine_call q (OpBackfillBatch n) e = Some (snd (backfill_batch q n e))"
| "engine_call q (OpHeadersPass n) e = Some (snd (headers_pass q n e))"
| "engine_call q (OpSearchServer s n) e = Some (snd (search_server q s n e))"
| "engine_call q (OpEnsureBodies ids) e = Some (snd (ensure_bodies q ids e))"
| "engine_call q (OpPrioritize ids) e = Some (prioritize ids e)"
| "engine_call q OpSyncDrafts e = Some (snd (sync_drafts q e))"
| "engine_call q OpSyncCategories e = map_option snd (sync_categories q e)"
| "engine_call q OpSyncIncremental e = map_option snd (sync_incremental q e)"
| "engine_call q OpDrainOutbox e = map_option snd (drain_outbox q e)"
| "engine_call q (OpApplyChange c r) e = Some (snd (apply_change_recorded q c r e))"
| "engine_call q (OpWaitForPush n) e = Some (snd (wait_for_push q n e))"
| "engine_call q OpResetTransport e = Some (reset_breaker e)"

text \<open>Between calls the world moves on and another download source may be set.\<close>

inductive reachable_engine :: "'w sync_env \<Rightarrow> 'w engine \<Rightarrow> bool" for q where
  started: "reachable_engine q (new_engine q new_sync_db w)"
| called: "reachable_engine q e \<Longrightarrow> engine_call q p e = Some e' \<Longrightarrow> reachable_engine q e'"
| world_moves: "reachable_engine q e \<Longrightarrow> reachable_engine q (e\<lparr>en_world := w\<rparr>)"
| source_set: "reachable_engine q e \<Longrightarrow> reachable_engine q (set_backfill_source s e)"

definition plain_labels :: "'w sync_env \<Rightarrow> bool" where
  "plain_labels q \<longleftrightarrow> (\<forall>w ls w'. mp_list_labels (se_provider q) w = (Ok ls, w') \<longrightarrow> list_all (\<lambda>l. lb_id l \<noteq> ARCHIVE_LABEL) ls)"

lemma settles_out: "settles I r \<Longrightarrow> r = Some (x, s) \<Longrightarrow> I s"
  by simp

lemma widen_account: "sd_account (fst (widen_stored d cheap x)) = sd_account d"
  by (simp add: widen_stored_def Let_def)

lemma settles_load_every_header:
  assumes e: "engine_ok e"
  shows "settles engine_ok (load_every_header q x e)"
proof -
  obtain d out where w: "widen_stored (en_db e) (cheap_headers e) x = (d, out)" by fastforce
  with widen_account [of "en_db e" "cheap_headers e" x] e have "engine_ok (e\<lparr>en_db := d\<rparr>)"
    by (simp add: engine_ok_def)
  with w show ?thesis
    by (auto simp: load_every_header_def Let_def intro!: settles_run_then settles_relist_window split: every_header.split)
qed

lemma store_profile_account [simp]: "sd_account (store_profile p d) = sd_account d"
  by (simp add: store_profile_def Let_def)

lemma engine_call_keeps:
  assumes plain: "plain_labels q" and e: "engine_ok e" and run: "engine_call q p e = Some e'"
  shows "engine_ok e'"
proof -
  have refresh: "engine_ok (snd (refresh_labels q e))"
    using plain engine_ok_refresh_labels [OF e, of q] unfolding plain_labels_def by blast
  have prepare: "settles engine_ok (bootstrap_prepare q e)"
    unfolding bootstrap_prepare_def Let_def
    by (auto intro!: settles_run_then settles_phases engine_ok_settings engine_ok_lift engine_ok_call engine_ok_report
        simp: settles_Some refresh)
  have rest: "settles engine_ok (bootstrap_list_rest q e)" "settles engine_ok (refetch_all q e)"
    unfolding bootstrap_list_rest_def refetch_all_def Let_def
    using e by (auto intro!: settles_run_then settles_phases engine_ok_settings engine_ok_report)
  have windows: "settles engine_ok (ensure_window q e)" "settles engine_ok (set_body_window q b e)" for b
    using e by (auto simp: ensure_window_def set_body_window_def intro!: settles_set_window settles_ensure_tiers engine_ok_settings)
  have waiting: "engine_ok (snd (load_waiting_headers e))"
    using e account_ok_promote [of "sd_account (en_db e)"]
    by (simp add: load_waiting_headers_def load_waiting_headers_stored_def on_account_def Let_def)
      (intro engine_ok_report, simp add: engine_ok_def)
  have push: "engine_ok (snd (wait_for_push q n e))" for n
    using e by (auto simp: wait_for_push_def Let_def intro!: engine_ok_record_done split: prod.split sum.split option.split
        dest!: engine_ok_called intro: engine_ok_afterD(1))
  have reset: "engine_ok (reset_breaker e)"
    using e transport_ok_step [of "en_transport e" Refresh] by (simp add: reset_breaker_def engine_ok_def)
  note returned = settles_out [OF prepare] settles_out [OF rest(1)] settles_out [OF rest(2)] settles_out [OF windows(1)]
    settles_out [OF windows(2)] settles_out [OF settles_set_window [OF e]] settles_out [OF settles_ensure_tiers [OF e]]
    settles_out [OF settles_load_every_header [OF e]] settles_out [OF settles_sync_categories [OF e]]
    settles_out [OF settles_sync_incremental [OF e]] settles_out [OF drain_keeps [OF e]]
  note kept = refresh waiting push reset engine_ok_backfill_batch [OF e] engine_ok_headers_pass [OF e]
    engine_ok_search_server [OF e] engine_ok_ensure_bodies [OF e] engine_ok_prioritize [OF e] engine_ok_sync_drafts [OF e]
    engine_ok_apply_change [OF e]
  show ?thesis using run by (cases p) (auto simp: kept dest: returned)
qed




end
