(* ===== verification/Messages.thy ===== *)
theory Messages
  imports Read
begin

text \<open>
  Reading one thread or message, the second half of \<^verbatim>\<open>crates/mail-store/src/read.rs\<close>: a thread with
  its messages, a message by its provider id, its body, the user's own addresses. The row id
  that the source gives an attachment is not part of the model of the store, so an attachment is
  read without it.
\<close>

section \<open>Reading\<close>

record message =
  ms_id :: message_id
  ms_thread_id :: thread_id
  ms_rfc822_message_id :: "string option"
  ms_in_reply_to :: "string option"
  ms_references :: "string list"
  ms_from :: "email_address option"
  ms_to :: "email_address list"
  ms_cc :: "email_address list"
  ms_bcc :: "email_address list"
  ms_reply_to :: "email_address list"
  ms_subject :: string
  ms_date :: millis
  ms_internal_date :: millis
  ms_snippet :: string
  ms_is_read :: bool
  ms_is_starred :: bool
  ms_is_draft :: bool
  ms_is_sent_by_me :: bool
  ms_label_ids :: "label_id list"
  ms_body_state :: body_state
  ms_size_estimate :: nat
  ms_attachments :: "incoming_attachment list"

text \<open>The participants of one role, by position.\<close>

definition with_role :: "role \<Rightarrow> (role \<times> nat \<times> email_address) list \<Rightarrow> email_address list" where
  "with_role r ps = map (\<lambda>(_, _, a). a) (sort_key (\<lambda>(_, i, _). i) (filter (\<lambda>(r', _, _). r' = r) ps))"

definition message_of_row :: "thread_id \<Rightarrow> message_row \<Rightarrow> message" where
  "message_of_row t r =
     (let h = m_head r; ps = m_participants r
      in \<lparr>ms_id = m_gmail_id r, ms_thread_id = t, ms_rfc822_message_id = mh_rfc822 h,
          ms_in_reply_to = mh_in_reply_to h, ms_references = mh_references h,
          ms_from = (case rev (with_role RFrom ps) of [] \<Rightarrow> None | a # _ \<Rightarrow> Some a),
          ms_to = with_role RTo ps, ms_cc = with_role RCc ps, ms_bcc = with_role RBcc ps,
          ms_reply_to = with_role RReplyTo ps, ms_subject = mh_subject h, ms_date = mh_date h,
          ms_internal_date = mh_internal_date h, ms_snippet = mh_snippet h, ms_is_read = m_is_read r,
          ms_is_starred = m_is_starred r, ms_is_draft = m_is_draft r, ms_is_sent_by_me = m_is_sent_by_me r,
          ms_label_ids = sort (m_labels r), ms_body_state = m_body_state r,
          ms_size_estimate = mh_size_estimate h, ms_attachments = m_attachments r\<rparr>)"

definition thread_named :: "mail_store \<Rightarrow> thread_id \<Rightarrow> thread_row option" where
  "thread_named db g = List.find (\<lambda>r. t_gmail_id r = g) (threads db)"

definition get_thread_summary :: "mail_store \<Rightarrow> thread_id \<Rightarrow> thread_summary option" where
  "get_thread_summary db g = map_option (thread_summary_row db) (thread_named db g)"

definition get_thread :: "mail_store \<Rightarrow> thread_id \<Rightarrow> (thread_summary \<times> message list) option" where
  "get_thread db g = map_option (\<lambda>r. (thread_summary_row db r, map (message_of_row g) (thread_messages db (t_id r))))
     (thread_named db g)"

text \<open>The provider id of a message's thread, and the message.\<close>

definition thread_of_message :: "mail_store \<Rightarrow> message_id \<Rightarrow> thread_id option" where
  "thread_of_message db g =
     (case find_message db g of
        None \<Rightarrow> None
      | Some m \<Rightarrow> map_option t_gmail_id (find_thread db (m_thread m)))"

definition get_message :: "mail_store \<Rightarrow> message_id \<Rightarrow> message option" where
  "get_message db g =
     (case thread_of_message db g of
        None \<Rightarrow> None
      | Some t \<Rightarrow> Option.bind (get_thread db t) (\<lambda>(_, ms). List.find (\<lambda>m. ms_id m = g) ms))"

text \<open>\<^verbatim>\<open>str::replace\<close> of a pattern that is not empty, and \<^verbatim>\<open>str::contains\<close>.\<close>

definition starts_with :: "string \<Rightarrow> string \<Rightarrow> bool" where
  "starts_with s p \<longleftrightarrow> prefix p s"

fun replace_from :: "string \<Rightarrow> string \<Rightarrow> nat \<Rightarrow> string \<Rightarrow> string" where
  "replace_from p q k [] = []"
| "replace_from p q 0 (c # cs) =
     (if prefix p (c # cs) then q @ replace_from p q (length p - 1) cs else c # replace_from p q 0 cs)"
| "replace_from p q (Suc k) (c # cs) = replace_from p q k cs"

definition str_replace :: "string \<Rightarrow> string \<Rightarrow> string \<Rightarrow> string" where
  "str_replace p q s = replace_from p q 0 s"

definition str_contains :: "string \<Rightarrow> string \<Rightarrow> bool" where
  "str_contains s p \<longleftrightarrow> sublist p s"

definition current_names :: "string \<Rightarrow> string" where
  "current_names html =
     (if \<not> str_contains html ''openagc-'' then html
      else str_replace ''class=\"openagc-quote\"'' ''class=\"kaluta-quote\"''
        (str_replace ''\"openagc-remote:'' ''\"kaluta-remote:''
          (str_replace ''\"openagc-cid:'' ''\"kaluta-cid:'' html)))"

definition get_body :: "mail_store \<Rightarrow> message_id \<Rightarrow> body option" where
  "get_body db g =
     (case find_message db g of
        None \<Rightarrow> None
      | Some m \<Rightarrow> map_option (\<lambda>b. b\<lparr>bd_html_sanitized := map_option current_names (bd_html_sanitized b)\<rparr>) (m_body m))"

text \<open>
  \<^verbatim>\<open>sent_from_addresses\<close>: the distinct addresses in lower case, in the order of the rows. SQL's
  \<^verbatim>\<open>lower\<close> changes the ASCII letters only.
\<close>

definition sent_from_addresses :: "mail_store \<Rightarrow> string list" where
  "sent_from_addresses db =
     take 50 (rev (remdups (rev (map to_ascii_lowercase (filter (\<lambda>a. a \<noteq> [])
       (List.map_filter (\<lambda>m. if m_is_sent_by_me m then mh_from_email (m_head m) else None) (messages db)))))))"

definition message_for_rfc822 :: "mail_store \<Rightarrow> string \<Rightarrow> message_id option" where
  "message_for_rfc822 db rfc =
     map_option m_gmail_id (List.find (\<lambda>m. mh_rfc822 (m_head m) = Some rfc \<and> \<not> m_is_draft m) (messages db))"

definition has_header_only :: "mail_store \<Rightarrow> bool" where
  "has_header_only db = list_ex (\<lambda>m. m_body_state m = Metadata) (messages db)"

section \<open>Lemmas\<close>

lemma find_message_named: "find_message db g = Some r \<Longrightarrow> r \<in> set (messages db) \<and> m_gmail_id r = g"
  unfolding find_message_def by (auto dest!: find_Some_in)

text \<open>On a consistent store a message is read exactly when its row is stored, with the row's own fields.\<close>

lemma get_message_stored:
  assumes ok: "struct_ok db" and row: "find_message db g = Some r"
  obtains t where "t \<in> set (threads db)" "t_id t = m_thread r"
    "thread_of_message db g = Some (t_gmail_id t)" "get_message db g = Some (message_of_row (t_gmail_id t) r)"
proof -
  from find_message_named [OF row] have r: "r \<in> set (messages db)" "m_gmail_id r = g" by simp_all
  with ok have "message_ok db r" by (simp add: struct_ok_def)
  then obtain t where t: "t \<in> set (threads db)" "t_id t = m_thread r" by (auto simp: message_ok_def)
  have dist: "distinct (map t_id (threads db))" "distinct (map t_gmail_id (threads db))"
    "distinct (map m_gmail_id (messages db))" using ok by (simp_all add: struct_ok_def)
  have th: "find_thread db (m_thread r) = Some t"
    unfolding find_thread_def t(2) [symmetric] by (rule find_distinct_map [OF dist(1) t(1)])
  have named: "thread_named db (t_gmail_id t) = Some t"
    unfolding thread_named_def by (rule find_distinct_map [OF dist(2) t(1)])
  have tm: "thread_of_message db g = Some (t_gmail_id t)" by (simp add: thread_of_message_def row th)
  have sub: "r \<in> set (thread_messages db (t_id t))" using r t by (simp add: thread_messages_def)
  have dm: "distinct (map m_gmail_id (thread_messages db (t_id t)))"
    using dist(3) by (auto simp: distinct_map thread_messages_def intro: inj_on_subset)
  have "List.find (\<lambda>m. ms_id m = g) (map (message_of_row (t_gmail_id t)) rs) =
      map_option (message_of_row (t_gmail_id t)) (List.find (\<lambda>m. m_gmail_id m = g) rs)" for rs
    by (induction rs) (simp_all add: message_of_row_def Let_def)
  moreover have "List.find (\<lambda>m. m_gmail_id m = g) (thread_messages db (t_id t)) = Some r"
    using find_distinct_map [OF dm sub] r(2) by simp
  ultimately have "get_message db g = Some (message_of_row (t_gmail_id t) r)"
    by (simp add: get_message_def tm get_thread_def named)
  with t tm show ?thesis by (rule that)
qed

lemma get_message_missing: "find_message db g = None \<Longrightarrow> get_message db g = None"
  by (simp add: get_message_def thread_of_message_def)

end
