(* ===== verification/Mime.thy ===== *)
theory Mime
  imports Messages
begin

text \<open>
  The text and address functions of \<^verbatim>\<open>crates/mail-mime\<close> that do not parse HTML: what an outgoing
  message is and which addresses it may carry, the subject, the recipients and the references of
  a reply (\<^verbatim>\<open>build.rs\<close>), plain text shown as HTML (\<^verbatim>\<open>sanitize.rs\<close>), and a body without the
  conversation quoted below it (\<^verbatim>\<open>text.rs\<close>).

  A slice of a Rust string at a byte that is inside a character panics. \<open>byte_split\<close> is such a
  slice; an operation that may panic has an optional result, \<open>None\<close> for the panic.
\<close>

section \<open>Outgoing messages\<close>

record outgoing_attachment =
  oa_filename :: string
  oa_mime_type :: string
  oa_data :: "nat list"

record outgoing_message =
  og_from :: email_address
  og_to :: "email_address list"
  og_cc :: "email_address list"
  og_bcc :: "email_address list"
  og_subject :: string
  og_html :: string
  og_text :: "string option"
  og_message_id :: string
  og_in_reply_to :: "string option"
  og_references :: "string list"
  og_attachments :: "outgoing_attachment list"
  og_date :: millis

datatype build_error = NoRecipients | InvalidAddress string | Serialize string

text \<open>One \<^verbatim>\<open>@\<close> with something on each side, no white space and no character that ends a header.\<close>

definition valid_email :: "string \<Rightarrow> bool" where
  "valid_email email \<longleftrightarrow>
     count_list email (CHR ''@'') = 1 \<and> \<not> prefix ''@'' email \<and> \<not> suffix ''@'' email \<and>
     \<not> list_ex (\<lambda>c. is_whitespace c \<or> c \<in> set ''<>,;\"'') email"

definition check_address :: "email_address \<Rightarrow> (build_error, unit) result" where
  "check_address a = (if valid_email (trim (ea_email a)) then Ok () else Err (InvalidAddress (ea_email a)))"

fun check_addresses :: "email_address list \<Rightarrow> (build_error, unit) result" where
  "check_addresses [] = Ok ()"
| "check_addresses (a # as) = (case check_address a of Inl e \<Rightarrow> Err e | Inr _ \<Rightarrow> check_addresses as)"

text \<open>
  \<^verbatim>\<open>build_draft\<close> and \<^verbatim>\<open>build\<close>: the addresses are checked in the order of the headers. What is
  written by the library \<^verbatim>\<open>mail_builder\<close>, and the plain text derived from HTML, are parameters.
\<close>

record mime_writer =
  mw_quoted_text :: "string \<Rightarrow> string"
  mw_write :: "outgoing_message \<Rightarrow> (string, nat list) result"

definition build_draft :: "mime_writer \<Rightarrow> outgoing_message \<Rightarrow> (build_error, nat list) result" where
  "build_draft mw m =
     (let text = (case og_text m of Some t \<Rightarrow> t | None \<Rightarrow> mw_quoted_text mw (og_html m))
      in case check_address (og_from m) of
           Inl e \<Rightarrow> Err e
         | Inr _ \<Rightarrow>
             (case check_addresses (og_to m @ og_cc m @ og_bcc m) of
                Inl e \<Rightarrow> Err e
              | Inr _ \<Rightarrow> map_sum Serialize id (mw_write mw (m\<lparr>og_text := Some text\<rparr>))))"

definition build :: "mime_writer \<Rightarrow> outgoing_message \<Rightarrow> (build_error, nat list) result" where
  "build mw m = (if og_to m = [] \<and> og_cc m = [] \<and> og_bcc m = [] then Err NoRecipients else build_draft mw m)"

section \<open>Subjects\<close>

text \<open>\<^verbatim>\<open>(&s[..n], &s[n..])\<close>: the split at byte \<open>n\<close>, which must be a boundary of the string.\<close>

fun byte_split :: "nat \<Rightarrow> string \<Rightarrow> (string \<times> string) option" where
  "byte_split 0 s = Some ([], s)"
| "byte_split (Suc n) [] = None"
| "byte_split (Suc n) (c # cs) =
     (if char_utf8_len c \<le> Suc n then map_option (\<lambda>(a, b). (c # a, b)) (byte_split (Suc n - char_utf8_len c) cs)
      else None)"

definition strip_prefix_ci :: "string \<Rightarrow> string \<Rightarrow> string option option" where
  "strip_prefix_ci s p =
     (if utf8_len s < utf8_len p then Some None
      else map_option (\<lambda>(a, b). if eq_nocase a p then Some b else None) (byte_split (utf8_len p) s))"

definition reply_subject :: "string \<Rightarrow> string option" where
  "reply_subject subject =
     (let s = trim subject
      in map_option (\<lambda>r. if r \<noteq> None then s else ''Re: '' @ s) (strip_prefix_ci s ''re:''))"

definition forward_subject :: "string \<Rightarrow> string option" where
  "forward_subject subject =
     (let s = trim subject
      in case strip_prefix_ci s ''fwd:'' of
           None \<Rightarrow> None
         | Some (Some _) \<Rightarrow> Some s
         | Some None \<Rightarrow>
             map_option (\<lambda>r. if r \<noteq> None then s else ''Fwd: '' @ s) (strip_prefix_ci s ''fw:''))"

section \<open>References and recipients of a reply\<close>

definition reply_references :: "string list \<Rightarrow> string option \<Rightarrow> string list" where
  "reply_references parents parent =
     (let refs = (case parent of
                    None \<Rightarrow> parents
                  | Some i \<Rightarrow> if list_ex (\<lambda>r. r = i) parents then parents else parents @ [i])
      in if 20 < length refs then hd refs # drop (length refs - 19) refs else refs)"

text \<open>The closure \<^verbatim>\<open>keep\<close>: drops the user's own addresses and what was seen before.\<close>

fun keep_new :: "(email_address \<Rightarrow> bool) \<Rightarrow> string set \<Rightarrow> email_address list \<Rightarrow> email_address list \<times> string set" where
  "keep_new mine seen [] = ([], seen)"
| "keep_new mine seen (a # as) =
     (if \<not> mine a \<and> normalized a \<notin> seen
      then (let (ks, s) = keep_new mine (insert (normalized a) seen) as in (a # ks, s))
      else keep_new mine seen as)"

definition is_mine :: "string list \<Rightarrow> email_address \<Rightarrow> bool" where
  "is_mine me a = list_ex (\<lambda>m. eq_nocase m (ea_email a)) me"

text \<open>Who a reply goes back to: Reply-To, else the sender; for your own message its recipients.\<close>

definition reply_primary ::
    "email_address option \<Rightarrow> email_address list \<Rightarrow> email_address list \<Rightarrow> string list \<Rightarrow> email_address list" where
  "reply_primary from reply_to to me =
     (let primary = (if reply_to = [] then (case from of None \<Rightarrow> [] | Some a \<Rightarrow> [a]) else reply_to)
      in if primary \<noteq> [] \<and> list_all (is_mine me) primary then to else primary)"

definition reply_recipients ::
    "email_address option \<Rightarrow> email_address list \<Rightarrow> email_address list \<Rightarrow> email_address list \<Rightarrow> string list \<Rightarrow> bool \<Rightarrow>
       email_address list \<times> email_address list" where
  "reply_recipients from reply_to to cc me all =
     (let (tos, seen) = keep_new (is_mine me) {} (reply_primary from reply_to to me);
          ccs = (if all then fst (keep_new (is_mine me) seen (to @ cc)) else [])
      in (tos, ccs))"

section \<open>Plain text as HTML\<close>

fun find_sub :: "string \<Rightarrow> string \<Rightarrow> nat option" where
  "find_sub p [] = (if p = [] then Some 0 else None)"
| "find_sub p (c # cs) = (if prefix p (c # cs) then Some 0 else map_option Suc (find_sub p cs))"

definition find_url :: "string \<Rightarrow> nat option" where
  "find_url s =
     (case (find_sub ''https://'' s, find_sub ''http://'' s) of
        (Some a, Some b) \<Rightarrow> Some (min a b)
      | (Some a, None) \<Rightarrow> Some a
      | (None, b) \<Rightarrow> b)"

definition escape_char :: "char \<Rightarrow> string" where
  "escape_char c =
     (if c = CHR ''&'' then ''&amp;'' else if c = CHR ''<'' then ''&lt;'' else if c = CHR ''>'' then ''&gt;''
      else if c = CHR 0x22 then ''&quot;'' else if c = CHR 0x27 then ''&#39;'' else [c])"

definition escape_into :: "string \<Rightarrow> string" where
  "escape_into s = concat (map escape_char s)"

definition url_at :: "string \<Rightarrow> string" where
  "url_at t =
     rev (dropWhile (\<lambda>c. c \<in> set ''.,);:!?'')
       (rev (takeWhile (\<lambda>c. \<not> (is_whitespace c \<or> c \<in> set [CHR ''<'', CHR ''>'', CHR 0x22, CHR 0x27])) t)))"

text \<open>The loop over the URLs; \<open>url_at_length\<close> shows that each round consumes some text.\<close>

lemma find_sub_prefix: "find_sub p s = Some k \<Longrightarrow> k \<le> length s \<and> prefix p (drop k s)"
  by (induction s arbitrary: k) (auto split: if_splits)

lemma find_url_prefix: "find_url s = Some k \<Longrightarrow> k \<le> length s \<and> (prefix ''http://'' (drop k s) \<or> prefix ''https://'' (drop k s))"
  unfolding find_url_def min_def by (auto split: option.splits if_splits dest!: find_sub_prefix)

lemma url_at_nonempty:
  assumes "prefix ''http://'' t \<or> prefix ''https://'' t"
  shows "url_at t \<noteq> []"
proof -
  let ?ok = "\<lambda>c. \<not> (is_whitespace c \<or> c \<in> set [CHR ''<'', CHR ''>'', CHR 0x22, CHR 0x27])"
  have "CHR ''/'' \<in> set (takeWhile ?ok t)"
    using assms by (auto simp: prefix_def is_whitespace_def Let_def)
  then have "dropWhile (\<lambda>c. c \<in> set ''.,);:!?'') (rev (takeWhile ?ok t)) \<noteq> []"
    by (auto simp: dropWhile_eq_Nil_conv)
  then show ?thesis by (simp add: url_at_def)
qed

lemma length_trim_back: "length (rev (dropWhile p (rev xs))) \<le> length xs"
  using length_dropWhile_le [of p "rev xs"] by simp

lemma length_url_at: "length (url_at t) \<le> length t"
  unfolding url_at_def by (rule order_trans [OF length_trim_back length_takeWhile_le])

function link_urls :: "string \<Rightarrow> string" where
  "link_urls rest =
     (case find_url rest of
        None \<Rightarrow> escape_into rest
      | Some start \<Rightarrow>
          let tail = drop start rest; url = url_at tail
          in escape_into (take start rest) @ ''<a href=\"'' @ escape_into url @
             ''\" target=\"_blank\" rel=\"noopener noreferrer\">'' @ escape_into url @ ''</a>'' @
             link_urls (drop (length url) tail))"
  by auto
termination
proof (relation "measure length")
  fix rest start tail url
  assume *: "find_url rest = Some start" "tail = drop start rest" "url = url_at tail"
  then have "0 < length url" using find_url_prefix [OF *(1)] url_at_nonempty by simp
  moreover have "length url \<le> length rest - start" using length_url_at [of tail] *(2,3) by simp
  ultimately have "length rest - (length url + start) < length rest" by linarith
  then show "(drop (length url) tail, rest) \<in> measure length" by (simp add: *(2))
qed simp

declare link_urls.simps [simp del]

definition text_to_html :: "string \<Rightarrow> string" where
  "text_to_html text = ''<div style=\"white-space: pre-wrap\">'' @ link_urls text @ ''</div>''"

section \<open>Text for agents\<close>

text \<open>\<^verbatim>\<open>str::lines\<close>: the parts between line feeds without a carriage return before one; a last empty part is none.\<close>

definition str_lines :: "string \<Rightarrow> string list" where
  "str_lines s =
     (let parts = split_on (\<lambda>c. c = CHR 0x0A) s;
          strip_cr = (\<lambda>l. if l \<noteq> [] \<and> last l = CHR 0x0D then butlast l else l);
          ended = map strip_cr (butlast parts)
      in if last parts = [] then ended else ended @ [last parts])"

definition is_divider :: "string \<Rightarrow> bool" where
  "is_divider t \<longleftrightarrow>
     (let lower = to_ascii_lowercase t
      in prefix ''-----original message-----'' lower \<or> prefix ''---------- forwarded message'' lower \<or>
         prefix ''-------- original message'' lower \<or> lower = replicate 32 (CHR ''_''))"

fun unquoted_lines :: "string list \<Rightarrow> string list" where
  "unquoted_lines [] = []"
| "unquoted_lines (l # ls) =
     (let line = trim_end l; t = trim line;
          joined = (case ls of
                      [] \<Rightarrow> t
                    | after # _ \<Rightarrow> if prefix ''On '' t \<and> \<not> suffix ''wrote:'' t then t @ '' '' @ trim after else t)
      in if prefix ''>'' t then unquoted_lines ls
         else if is_divider t then []
         else if prefix ''On '' joined \<and> suffix ''wrote:'' joined then []
         else line # unquoted_lines ls)"

definition strip_quoted :: "string \<Rightarrow> string" where
  "strip_quoted text =
     join_with [CHR 0x0A] (rev (dropWhile (\<lambda>l. trim l = []) (rev (unquoted_lines (str_lines text)))))"

definition truncate_chars :: "string \<Rightarrow> nat \<Rightarrow> string \<times> bool" where
  "truncate_chars text n = (if n < length text then (take n text, True) else (text, False))"

section \<open>Escaped text reads back\<close>

text \<open>
  What a reader of HTML sees as text: tags are not shown, and the five entities stand for their
  characters.
\<close>

definition entities :: "(string \<times> char) list" where
  "entities = [(''amp;'', CHR ''&''), (''lt;'', CHR ''<''), (''gt;'', CHR ''>''), (''quot;'', CHR 0x22), (''#39;'', CHR 0x27)]"

definition entity_at :: "string \<Rightarrow> (string \<times> char) option" where
  "entity_at r = List.find (\<lambda>(e, c). prefix e r) entities"

function text_content :: "string \<Rightarrow> string" where
  "text_content [] = []"
| "text_content (c # r) =
     (if c = CHR ''<'' then text_content (drop 1 (dropWhile (\<lambda>x. x \<noteq> CHR ''>'') r))
      else if c = CHR ''&'' then
        (case entity_at r of Some (e, x) \<Rightarrow> x # text_content (drop (length e) r) | None \<Rightarrow> c # text_content r)
      else c # text_content r)"
  by pat_completeness auto
termination text_content
  by (relation "measure length") (auto simp: le_imp_less_Suc le_diff_conv length_dropWhile_le [THEN le_trans])

lemma text_content_escape_char: "text_content (escape_char c @ r) = c # text_content r"
  by (simp add: escape_char_def entity_at_def entities_def)

lemma text_content_escape: "text_content (escape_into s @ r) = s @ text_content r"
  by (induction s) (simp_all add: escape_into_def text_content_escape_char)

lemma text_content_tag:
  assumes "CHR ''>'' \<notin> set t"
  shows "text_content (CHR ''<'' # t @ CHR ''>'' # r) = text_content r"
proof -
  have "dropWhile (\<lambda>x. x \<noteq> CHR ''>'') (t @ CHR ''>'' # r) = CHR ''>'' # r"
    using assms by (subst dropWhile_append2) auto
  then show ?thesis by simp
qed

lemma escaped_no_gt: "CHR ''>'' \<notin> set (escape_into s)"
  by (auto simp: escape_into_def escape_char_def split: if_splits)

lemma prefix_trim_back: "prefix (rev (dropWhile p (rev xs))) xs"
  by (metis prefix_def rev_append rev_rev_ident takeWhile_dropWhile_id)

lemma prefix_url_at: "prefix (url_at t) t"
  unfolding url_at_def by (rule prefix_order.trans [OF prefix_trim_back takeWhile_is_prefix])

declare text_content.simps(2) [simp del]

lemma text_content_link_urls: "text_content (link_urls s @ r) = s @ text_content r"
proof (induction s rule: link_urls.induct)
  case (1 s)
  show ?case
  proof (cases "find_url s")
    case None
    then show ?thesis by (simp add: link_urls.simps [of s] text_content_escape)
  next
    case (Some k)
    define u where "u = url_at (drop k s)"
    define t where "t = ''a href=\"'' @ escape_into u @ ''\" target=\"_blank\" rel=\"noopener noreferrer\"''"
    define c where "c = ''/a''"
    have t: "CHR ''>'' \<notin> set t" using escaped_no_gt by (auto simp: t_def)
    have c: "CHR ''>'' \<notin> set c" by (simp add: c_def)
    have IH: "text_content (link_urls (drop (length u) (drop k s)) @ r) = drop (length u) (drop k s) @ text_content r"
      using "1.IH" [OF Some refl refl] by (simp add: u_def)
    have split: "link_urls s = escape_into (take k s) @ CHR ''<'' # t @ CHR ''>'' # escape_into u @ CHR ''<'' # c @ CHR ''>'' #
        link_urls (drop (length u) (drop k s))"
      by (subst link_urls.simps) (simp add: Some Let_def u_def t_def c_def)
    have "u @ drop (length u) (drop k s) = drop k s"
      using prefix_url_at [of "drop k s"] unfolding u_def prefix_def by (metis append_eq_conv_conj)
    then have "take k s @ u @ drop (length u) (drop k s) = s" by simp
    then have regroup: "take k s @ u @ drop (length u) (drop k s) @ z = s @ z" for z
      by (simp only: append_assoc [symmetric])
    show ?thesis
      unfolding split append_assoc append_Cons
      by (simp only: text_content_escape text_content_tag [OF t] text_content_tag [OF c] IH regroup)
  qed
qed

text \<open>
  Claim C22: A plain-text body shown through the reader of HTML shows exactly its text: whatever the
  text holds, tags and entities included, reading the HTML back gives the text, so nothing of a
  plain-text mail becomes markup and nothing of it is lost around the links that are made of its URLs.
\<close>

theorem plain_text_is_shown_unchanged: "text_content (text_to_html t) = t"
proof -
  have "text_to_html t = CHR ''<'' # ''div style=\"white-space: pre-wrap\"'' @ CHR ''>'' # link_urls t @
      CHR ''<'' # ''/div'' @ CHR ''>'' # []"
    unfolding text_to_html_def by simp
  moreover have first: "CHR ''>'' \<notin> set ''div style=\"white-space: pre-wrap\"''" and final: "CHR ''>'' \<notin> set ''/div''"
    by simp_all
  ultimately show ?thesis
    by (simp only: text_content_tag [OF first] text_content_tag [OF final] text_content_link_urls
        text_content.simps(1) append_Nil2)
qed

section \<open>Replies\<close>

text \<open>
  Answering a message can panic. The subject is cut at a fixed byte to look for a prefix, and a letter
  outside ASCII may lie across that byte: the subject "Gr" + u-umlaut + sharp s + "e" cannot be
  answered, its forward neither.
\<close>

definition Gruesse :: string where "Gruesse = [CHR ''G'', CHR ''r'', CHR 0xFC, CHR 0xDF, CHR ''e'']"

definition ascii :: "string \<Rightarrow> bool" where
  "ascii s \<longleftrightarrow> list_all (\<lambda>c. (of_char c :: nat) < 128) s"

lemma byte_split_ascii: "ascii s \<Longrightarrow> n \<le> length s \<Longrightarrow> byte_split n s = Some (take n s, drop n s)"
  by (induction n s rule: byte_split.induct) (auto simp: ascii_def char_utf8_len_def)

lemma utf8_len_ascii: "ascii s \<Longrightarrow> utf8_len s = length s"
  by (induction s) (auto simp: ascii_def utf8_len_def char_utf8_len_def)

lemma ascii_trim: "ascii s \<Longrightarrow> ascii (trim s)"
  by (auto simp: ascii_def trim_def trim_end_def trim_start_def list_all_iff dest!: set_dropWhileD)

lemma strip_prefix_ascii:
  assumes "ascii s" "ascii p"
  shows "strip_prefix_ci s p =
    Some (if length p \<le> length s \<and> eq_nocase (take (length p) s) p then Some (drop (length p) s) else None)"
  using assms by (auto simp: strip_prefix_ci_def utf8_len_ascii byte_split_ascii)

lemma dropWhile_none: "xs \<noteq> [] \<Longrightarrow> \<not> P (hd xs) \<Longrightarrow> dropWhile P xs = xs"
  by (cases xs) simp_all

lemma trim_ends: "trim s \<noteq> [] \<Longrightarrow> \<not> is_whitespace (last (trim s)) \<and> \<not> is_whitespace (hd (trim s))"
proof -
    assume ne: "trim s \<noteq> []"
    let ?a = "dropWhile is_whitespace s"
    have t: "trim s = rev (dropWhile is_whitespace (rev ?a))" by (simp add: trim_def trim_end_def trim_start_def)
    with ne have "\<not> is_whitespace (last (trim s))" by (metis hd_dropWhile last_rev rev_is_Nil_conv)
    moreover have "prefix (trim s) ?a" unfolding t by (rule prefix_trim_back)
    then have "hd (trim s) = hd ?a" "?a \<noteq> []" using ne by (metis hd_append2 prefix_def, metis prefix_Nil)
    ultimately show ?thesis using hd_dropWhile by metis
qed

lemma trim_idem: "trim (trim s) = trim s"
  using trim_ends [of s]
    by (cases "trim s = []")
      (simp_all add: trim_def [of "trim s"] trim_start_def [of "trim s"] trim_end_def [of "trim s"] dropWhile_none hd_rev,
       simp add: trim_def trim_start_def trim_end_def)

lemma trim_front: "s \<noteq> [] \<Longrightarrow> \<not> is_whitespace (hd s) \<Longrightarrow> trim s = trim_end s"
  by (simp add: trim_def trim_start_def dropWhile_none)

lemma trim_after_re: "trim (''Re: '' @ trim s) = (if trim s = [] then ''Re:'' else ''Re: '' @ trim s)"
proof (cases "trim s = []")
  case False
  then have "last (''Re: '' @ trim s) = last (trim s)" "\<not> is_whitespace (last (trim s))"
    using trim_ends [of s] by simp_all
  moreover have "\<not> is_whitespace (hd (''Re: '' @ trim s))" by (simp add: is_whitespace_def Let_def)
  ultimately show ?thesis
    using False by (subst trim_front) (simp_all add: trim_end_def dropWhile_none hd_rev)
next
  case True
  moreover have "trim ''Re: '' = ''Re:''" by code_simp
  ultimately show ?thesis by simp
qed

lemma re_nocase: "eq_nocase ''Re:'' ''re:''"
  by code_simp

text \<open>
  Answering a message whose subject has a letter outside ASCII near its start can panic, and
  so can forwarding it.
\<close>

theorem answering_can_panic: "reply_subject Gruesse = None \<and> forward_subject Gruesse = None"
  by code_simp

text \<open>
  Answering a message whose subject is ASCII never panics: the subject gets the prefix at most
  once, keeps its text, and keeps the prefix it has when the answer is answered again.
\<close>

theorem subjects_are_prefixed_once:
  assumes s: "ascii s"
  shows "\<exists>r. reply_subject s = Some r \<and> reply_subject r = Some (trim r) \<and> (r = trim s \<or> r = ''Re: '' @ trim s)"
proof -
  have p: "ascii ''re:''" by (simp add: ascii_def)
  have a: "ascii (trim s)" using s by (rule ascii_trim)
  show ?thesis
  proof (cases "3 \<le> length (trim s) \<and> eq_nocase (take 3 (trim s)) ''re:''")
    case True
    then have "reply_subject s = Some (trim s)"
      by (simp add: reply_subject_def Let_def strip_prefix_ascii [OF a p] numeral_3_eq_3)
    moreover from True have "reply_subject (trim s) = Some (trim (trim s))"
      by (simp add: reply_subject_def Let_def trim_idem strip_prefix_ascii [OF a p] numeral_3_eq_3)
    ultimately show ?thesis by blast
  next
    case False
    let ?r = "''Re: '' @ trim s"
    have "reply_subject s = Some ?r"
      using False by (simp add: reply_subject_def Let_def strip_prefix_ascii [OF a p] numeral_3_eq_3)
    moreover have ar: "ascii (trim ?r)" by (rule ascii_trim) (use a in \<open>simp add: ascii_def\<close>)
    have "length ''re:'' \<le> length (trim ?r) \<and> eq_nocase (take (length ''re:'') (trim ?r)) ''re:''"
      unfolding trim_after_re using re_nocase by (simp add: numeral_3_eq_3)
    then have "strip_prefix_ci (trim ?r) ''re:'' = Some (Some (drop (length ''re:'') (trim ?r)))"
      unfolding strip_prefix_ascii [OF ar p] by (rule if_P [THEN arg_cong])
    then have "reply_subject ?r = Some (trim ?r)"
      unfolding reply_subject_def Let_def by (simp only:) simp
    ultimately show ?thesis by blast
  qed
qed

theorem subjects_are_prefixed_once_witness:
  "\<exists>r. reply_subject ''re: lunch?'' = Some r \<and> reply_subject r = Some (trim r) \<and>
     (r = trim ''re: lunch?'' \<or> r = ''Re: '' @ trim ''re: lunch?'')"
  by (rule subjects_are_prefixed_once) (simp add: ascii_def)

lemma keep_new_spec:
  "keep_new mine seen as = (ks, seen') \<Longrightarrow>
     seen' = seen \<union> normalized ` {a \<in> set as. \<not> mine a} \<and> set ks \<subseteq> {a \<in> set as. \<not> mine a} \<and>
     distinct (map normalized ks) \<and> normalized ` set ks = normalized ` {a \<in> set as. \<not> mine a} - seen"
proof (induction as arbitrary: seen seen' ks)
  case (Cons a as)
  show ?case
  proof (cases "\<not> mine a \<and> normalized a \<notin> seen")
    case True
    obtain ks1 s1 where r: "keep_new mine (insert (normalized a) seen) as = (ks1, s1)" by fastforce
    with True Cons.prems have ks: "ks = a # ks1" "seen' = s1" by simp_all
    note IH = Cons.IH [OF r]
    let ?O = "{x \<in> set as. \<not> mine x}"
    have O: "{x \<in> set (a # as). \<not> mine x} = insert a ?O" using True by auto
    have "seen' = seen \<union> normalized ` insert a ?O" using IH by (simp add: ks)
    moreover have "set ks \<subseteq> insert a ?O" using IH by (auto simp: ks)
    moreover have img: "normalized ` set ks1 = normalized ` ?O - insert (normalized a) seen" using IH by simp
    then have "distinct (map normalized ks)" using IH by (simp add: ks)
    moreover have "normalized ` set ks = normalized ` insert a ?O - seen"
      using img True by (auto simp: ks)
    ultimately show ?thesis unfolding O by blast
  next
    case False
    then have "keep_new mine seen as = (ks, seen')" using Cons.prems by (simp split: if_splits)
    note IH = Cons.IH [OF this]
    show ?thesis
    proof (cases "mine a")
      case True
      then have "{x \<in> set (a # as). \<not> mine x} = {x \<in> set as. \<not> mine x}" by auto
      with IH show ?thesis by simp
    next
      case fresh: False
      then have O: "{x \<in> set (a # as). \<not> mine x} = insert a {x \<in> set as. \<not> mine x}" by auto
      from fresh False have "normalized a \<in> seen" by simp
      with IH show ?thesis unfolding O by (simp add: insert_absorb) blast
    qed
  qed
qed simp


end
