(* ===== verification/Compose.thy ===== *)
theory Compose
  imports Mime Undo Provider
begin

text \<open>
  Composing and sending, \<^verbatim>\<open>crates/mail-sync/src/compose.rs\<close>: the draft of a reply or a forward, the
  message made of a draft, sending it through the outbox, and queueing the mirror of edited drafts.

  What is read from files, written by the library that builds MIME, and encoded in base 64 is in
  the parameter \<open>compose_env\<close>; a random token is an argument. The reads of the store at the start
  of an operation and its transaction at the end are one step here. Answering can panic
  (\<^verbatim>\<open>Mime\<close>), so \<open>reply_draft\<close> and \<open>forward_draft\<close> have an optional result.
\<close>

section \<open>Quoting the original\<close>

definition replace_char :: "char \<Rightarrow> string \<Rightarrow> string \<Rightarrow> string" where
  "replace_char c q s = concat (map (\<lambda>x. if x = c then q else [x]) s)"

definition escape :: "string \<Rightarrow> string" where
  "escape s = replace_char (CHR 0x22) ''&quot;'' (replace_char (CHR ''>'') ''&gt;''
     (replace_char (CHR ''<'') ''&lt;'' (replace_char (CHR ''&'') ''&amp;'' s)))"

text \<open>The date is divided truncating, the seconds rounding down.\<close>

definition quoted_header :: "millis \<Rightarrow> email_address option \<Rightarrow> string" where
  "quoted_header date from =
     (let who = (case from of Some f \<Rightarrow> escape (display f) | None \<Rightarrow> ''someone'');
          secs = (if date < 0 then - ((- date) div 1000) else date div 1000);
          (y, m, d) = civil_from_days (secs div 86400)
      in ''On '' @ show_padded 4 y @ ''-'' @ show_padded 2 m @ ''-'' @ show_padded 2 d @ '', '' @ who @ '' wrote:'')"

definition parent_html :: "body option \<Rightarrow> string" where
  "parent_html b =
     (case b of
        None \<Rightarrow> []
      | Some x \<Rightarrow>
          (case bd_html_sanitized x of
             Some html \<Rightarrow> html
           | None \<Rightarrow> (case bd_text_plain x of Some text \<Rightarrow> text_to_html text | None \<Rightarrow> [])))"

definition default_draft :: draft_record where
  "default_draft = \<lparr>dr_id = 0, dr_gmail_draft_id = None, dr_thread_id = None, dr_in_reply_to = None, dr_to = [],
     dr_cc = [], dr_bcc = [], dr_subject = [], dr_body_html = [], dr_quoted_html = [], dr_attachments = [],
     dr_updated_at = 0, dr_state = Editing, dr_last_error = None\<rparr>"

section \<open>Replies and forwards\<close>

definition reply_draft ::
    "account_db \<Rightarrow> message_id \<Rightarrow> bool \<Rightarrow> string list \<Rightarrow> (store_error, draft_record) result option" where
  "reply_draft db g all me =
     (case get_message (db_mail db) g of
        None \<Rightarrow> Some (Err (NotFoundRow (''message '' @ g)))
      | Some parent \<Rightarrow>
          let (tos, ccs) = reply_recipients (ms_from parent) (ms_reply_to parent) (ms_to parent) (ms_cc parent) me all;
              quote = ''<div>'' @ quoted_header (ms_date parent) (ms_from parent) @ ''</div><blockquote>'' @
                parent_html (get_body (db_mail db) g) @ ''</blockquote>''
          in map_option (\<lambda>subject. Ok (default_draft\<lparr>dr_thread_id := Some (ms_thread_id parent),
               dr_in_reply_to := Some (ms_id parent), dr_to := tos, dr_cc := ccs, dr_subject := subject,
               dr_quoted_html := quote\<rparr>)) (reply_subject (ms_subject parent)))"

definition forward_draft :: "account_db \<Rightarrow> message_id \<Rightarrow> (store_error, draft_record) result option" where
  "forward_draft db g =
     (case get_message (db_mail db) g of
        None \<Rightarrow> Some (Err (NotFoundRow (''message '' @ g)))
      | Some parent \<Rightarrow>
          let header = ''<div>---------- Forwarded message ----------<br>From: '' @
                (case ms_from parent of None \<Rightarrow> [] | Some f \<Rightarrow> escape (display f @ '' <'' @ ea_email f @ ''>'')) @
                ''<br>Subject: '' @ escape (ms_subject parent) @ ''<br>To: '' @
                escape (join_with '', '' (map display (ms_to parent))) @ ''</div>''
          in map_option (\<lambda>subject. Ok (default_draft\<lparr>dr_thread_id := Some (ms_thread_id parent), dr_subject := subject,
               dr_quoted_html := header @ ''<br>'' @ parent_html (get_body (db_mail db) g)\<rparr>))
             (forward_subject (ms_subject parent)))"

section \<open>The message of a draft\<close>

record compose_env =
  ce_mime :: mime_tools
  ce_writer :: mime_writer
  ce_base64 :: "nat list \<Rightarrow> string"
  ce_files :: "string \<Rightarrow> (string, nat list) result"

fun read_attachments ::
    "compose_env \<Rightarrow> draft_attachment list \<Rightarrow> (store_error, outgoing_attachment list) result" where
  "read_attachments q [] = Ok []"
| "read_attachments q (a # as) =
     (case ce_files q (da_path a) of
        Inl e \<Rightarrow> Err (IoFailed (da_filename a @ '': '' @ e))
      | Inr bytes \<Rightarrow>
          map_sum id (\<lambda>os. \<lparr>oa_filename = da_filename a, oa_mime_type = da_mime_type a, oa_data = bytes\<rparr> # os)
            (read_attachments q as))"

definition merged_draft :: "draft_record \<Rightarrow> draft_record" where
  "merged_draft d = d\<lparr>dr_body_html := dr_body_html d @ dr_quoted_html d, dr_quoted_html := []\<rparr>"

definition outgoing_of ::
    "compose_env \<Rightarrow> account_db \<Rightarrow> draft_record \<Rightarrow> email_address \<Rightarrow> string \<Rightarrow> millis \<Rightarrow>
       (store_error, draft_record \<times> outgoing_message) result" where
  "outgoing_of q db draft from rfc now =
     (let parent = Option.bind (dr_in_reply_to draft) (get_message (db_mail db))
      in map_sum id (\<lambda>attachments.
           let d = merged_draft draft
           in (d, \<lparr>og_from = from, og_to = dr_to d, og_cc = dr_cc d, og_bcc = dr_bcc d, og_subject = dr_subject d,
                   og_html = dr_body_html d, og_text = None, og_message_id = rfc,
                   og_in_reply_to = Option.bind parent ms_rfc822_message_id,
                   og_references = (case parent of
                      None \<Rightarrow> []
                    | Some p \<Rightarrow> reply_references (ms_references p) (ms_rfc822_message_id p)),
                   og_attachments = attachments, og_date = now\<rparr>)) (read_attachments q (dr_attachments draft)))"

text \<open>\<^verbatim>\<open>{0:?}\<close> of a string: quotes, and the characters that Rust escapes.\<close>

definition hex_digit :: "nat \<Rightarrow> char" where
  "hex_digit n = (if n < 10 then char_of (48 + n) else char_of (87 + n))"

definition debug_char :: "char \<Rightarrow> string" where
  "debug_char c =
     (let n = (of_char c :: nat)
      in if n = 0 then [CHR 0x5C, CHR ''0''] else if n = 9 then [CHR 0x5C, CHR ''t'']
         else if n = 10 then [CHR 0x5C, CHR ''n''] else if n = 13 then [CHR 0x5C, CHR ''r'']
         else if n = 34 \<or> n = 92 then [CHR 0x5C, c]
         else if n < 32 \<or> (127 \<le> n \<and> n \<le> 160) \<or> n = 173
              then [CHR 0x5C, CHR ''u'', CHR 0x7B] @ (if n < 16 then [] else [hex_digit (n div 16)]) @ [hex_digit (n mod 16), CHR 0x7D]
         else [c])"

definition debug_string :: "string \<Rightarrow> string" where
  "debug_string s = [CHR 0x22] @ concat (map debug_char s) @ [CHR 0x22]"

fun build_error_text :: "build_error \<Rightarrow> string" where
  "build_error_text NoRecipients = ''a message needs at least one recipient''"
| "build_error_text (InvalidAddress a) = ''invalid address '' @ debug_string a"
| "build_error_text (Serialize e) = ''could not serialize the message: '' @ e"

definition email_domain :: "email_address \<Rightarrow> string" where
  "email_domain a = last (split_on (\<lambda>c. c = CHR ''@'') (ea_email a))"

text \<open>The bytes of a draft that is mirrored; the first token is for its Message-ID.\<close>

definition draft_raw ::
    "compose_env \<Rightarrow> account_db \<Rightarrow> draft_record \<Rightarrow> email_address \<Rightarrow> millis \<Rightarrow> string \<Rightarrow> (store_error, nat list) result" where
  "draft_raw q db draft from now token =
     (case outgoing_of q db draft from (token @ ''.kaluta@'' @ email_domain from) now of
        Inl e \<Rightarrow> Err e
      | Inr (d, og) \<Rightarrow> map_sum (\<lambda>e. InvalidData (build_error_text e)) id (build_draft (ce_writer q) og))"

section \<open>Sending\<close>

text \<open>The optimistic copy in Sent.\<close>

definition sent_copy ::
    "compose_env \<Rightarrow> draft_record \<Rightarrow> outgoing_message \<Rightarrow> message_id \<Rightarrow> thread_id \<Rightarrow> nat \<Rightarrow> incoming_message" where
  "sent_copy q d og local_id thread raw_len =
     (let text = mw_quoted_text (ce_writer q) (dr_body_html d);
          sanitized = mt_sanitize_html (ce_mime q) (dr_body_html d)
      in \<lparr>im_id = local_id, im_thread_id = thread, im_rfc822_message_id = Some (og_message_id og),
          im_in_reply_to = og_in_reply_to og, im_references = og_references og, im_from = Some (og_from og),
          im_to = dr_to d, im_cc = dr_cc d, im_bcc = dr_bcc d, im_reply_to = [], im_subject = dr_subject d,
          im_date = og_date og, im_internal_date = og_date og, im_snippet = take 120 text, im_label_ids = [SENT],
          im_size_estimate = raw_len,
          im_body = Some \<lparr>bd_text_plain = Some text, bd_html_sanitized = Some (fst sanitized), bd_has_remote_images = False\<rparr>,
          im_attachments = [], im_list = \<lparr>lh_id = None, lh_name = None, lh_unsubscribe = None, lh_unsubscribe_post = None\<rparr>,
          im_headers_json = None\<rparr>)"

text \<open>The transaction: the copy is stored, then the draft queued or, without a provider, gone as sent.\<close>

definition send_tx ::
    "account_db \<Rightarrow> incoming_message \<Rightarrow> outbox_op \<Rightarrow> int \<Rightarrow> string \<Rightarrow> bool \<Rightarrow> millis \<Rightarrow> millis \<Rightarrow>
       (store_error, account_db \<times> thread_changes) result" where
  "send_tx db copy p i rfc queue hold now =
     (case upsert_message (writer_new (db_mail db)) copy of
        Inl e \<Rightarrow> Err e
      | Inr w \<Rightarrow>
          (case finish w of
             Inl e \<Rightarrow> Err e
           | Inr (m, ch) \<Rightarrow>
               let db1 = update_mail db m
               in if queue
                  then Ok (fst (enqueue_held (set_rfc822_id (set_state db1 i Sending None) i rfc) p now
                             (if 0 < hold then Some (now + hold) else None)), ch)
                  else Ok (discard (set_state (set_rfc822_id db1 i rfc) i Sending None) i now, ch)))"

definition send_draft ::
    "compose_env \<Rightarrow> account_db \<Rightarrow> int \<Rightarrow> email_address \<Rightarrow> bool \<Rightarrow> millis \<Rightarrow> millis \<Rightarrow> string \<Rightarrow> string \<Rightarrow>
       (store_error, account_db \<times> thread_changes) result" where
  "send_draft q db i from queue hold now rfc_token token =
     (case get_draft db i of
        None \<Rightarrow> Err (NotFoundRow (''draft '' @ show_int i))
      | Some draft \<Rightarrow>
          if dr_state draft = Sending then Err (InvalidData ''this draft is already being sent'')
          else
            let rfc = rfc_token @ ''.kaluta@'' @ email_domain from
            in (case outgoing_of q db draft from rfc now of
                  Inl e \<Rightarrow> Err e
                | Inr (d, og) \<Rightarrow>
                    (case build (ce_writer q) og of
                       Inl e \<Rightarrow> Err (InvalidData (build_error_text e))
                     | Inr raw \<Rightarrow>
                         let thread = (case dr_thread_id d of Some t \<Rightarrow> t | None \<Rightarrow> LOCAL_PREFIX @ ''thread-'' @ token);
                             local_id = (if queue then LOCAL_PREFIX @ token else ''sent-'' @ token)
                         in send_tx db (sent_copy q d og local_id thread (length raw))
                              (OpSend i (ce_base64 q raw) (dr_thread_id d) local_id) i rfc queue hold now)))"

section \<open>Mirroring drafts\<close>

fun queue_mirrors :: "account_db \<Rightarrow> email_address \<Rightarrow> millis \<Rightarrow> int list \<Rightarrow> account_db \<times> nat" where
  "queue_mirrors db from now [] = (db, 0)"
| "queue_mirrors db from now (i # is) =
     (if has_pending_draft_sync db i then queue_mirrors db from now is
      else (let (db', n) = queue_mirrors (fst (enqueue db (OpSyncDraft i from) now)) from now is in (db', Suc n)))"

definition schedule_draft_sync :: "account_db \<Rightarrow> email_address \<Rightarrow> millis \<Rightarrow> account_db \<times> nat" where
  "schedule_draft_sync db from now = (let (db1, dirty) = take_dirty db in queue_mirrors db1 from now dirty)"

section \<open>Undoing a send\<close>

text \<open>Storing a message that is not stored yet adds one row and changes no other.\<close>

lemma ensure_thread_messages: "ensure_thread db g = (db', t) \<Longrightarrow> messages db' = messages db"
  by (auto simp: ensure_thread_def Let_def split: option.splits)

lemma upsert_rest_append:
  assumes run: "upsert_rest w (m_id r) t ls m = Ok w'" and rows: "messages (w_db w) = ms @ [r]"
    and fresh: "\<And>x. x \<in> set ms \<Longrightarrow> m_id x \<noteq> m_id r"
  shows "\<exists>r'. messages (w_db w') = ms @ [r'] \<and> m_gmail_id r' = m_gmail_id r"
proof -
  have old: "sql_update (\<lambda>x. m_id x = m_id r) f ms = ms" for f
    using fresh by (intro sql_update_none) auto
  have one: "sql_update (\<lambda>x. m_id x = m_id r) f [x] = [if m_id x = m_id r then f x else x]" for f x
    by (simp add: sql_update_def)
  show ?thesis
    using run by (auto simp: upsert_rest_def Let_def replace_message_labels_def rows old one index_message_def
        split: if_splits sum.splits option.splits prod.splits)
qed

lemma upsert_local_appends:
  assumes run: "upsert_message w m = Ok w'" and new: "find_message (w_db w) (im_id m) = None"
    and local: "prefix LOCAL_PREFIX (im_id m)"
  shows "\<exists>r. messages (w_db w') = messages (w_db w) @ [r] \<and> m_gmail_id r = im_id m"
proof -
  obtain db t where e: "ensure_thread (w_db w) (im_thread_id m) = (db, t)" by fastforce
  note same = ensure_thread_messages [OF e]
  have none: "find_message db (im_id m) = None" using new by (simp add: find_message_def same)
  define ls where "ls = upsert_label_ids (w\<lparr>w_db := db\<rparr>) None m"
  obtain w1 rowid where ins: "upsert_insert (w\<lparr>w_db := db\<rparr>) t ls m = (w1, rowid)" by fastforce
  from run have rest: "upsert_rest w1 rowid t ls m = Ok w'"
    by (simp add: upsert_message_def e none ins flip: ls_def)
  from ins have rowid: "rowid = next_rowid m_id (messages (w_db w))"
    by (auto simp: upsert_insert_def Let_def same)
  have keep: "replace_local_copies w m = w" for w
    using local by (auto simp: replace_local_copies_def split: option.splits)
  from ins obtain r where r: "messages (w_db w1) = messages (w_db w) @ [r]" "m_id r = rowid" "m_gmail_id r = im_id m"
    by (auto simp: upsert_insert_def Let_def keep same record_contacts_def label_flags_def)
  have "m_id x \<noteq> m_id r" if "x \<in> set (messages (w_db w))" for x
    using next_rowid_greater [OF that, of m_id] by (simp add: rowid r(2))
  from upsert_rest_append [OF rest [folded r(2)] r(1) this] r(3) show ?thesis by auto
qed

text \<open>What a queued send leaves.\<close>

lemma send_draft_queued:
  assumes run: "send_draft q db i from True hold now rt token = Ok (db', ch)" and hold: "0 < hold"
  obtains d rfc raw t copy w m where "get_draft db i = Some d" "dr_state d \<noteq> Sending"
    "upsert_message (writer_new (db_mail db)) copy = Ok w" "finish w = Ok (m, ch)" "im_id copy = LOCAL_PREFIX @ token"
    "db' = fst (enqueue_held (set_rfc822_id (set_state (update_mail db m) i Sending None) i rfc)
       (OpSend i raw t (LOCAL_PREFIX @ token)) now (Some (now + hold)))"
proof -
  from run obtain d where d: "get_draft db i = Some d" "dr_state d \<noteq> Sending"
    by (auto simp: send_draft_def split: option.splits if_splits)
  with run obtain d' og raw where og: "outgoing_of q db d from (rt @ ''.kaluta@'' @ email_domain from) now = Ok (d', og)"
    "build (ce_writer q) og = Ok raw"
    by (auto simp: send_draft_def Let_def split: sum.splits prod.splits)
  from run obtain t copy raw' rfc where tx: "send_tx db copy (OpSend i raw' t (LOCAL_PREFIX @ token)) i rfc True hold now = Ok (db', ch)"
    "im_id copy = LOCAL_PREFIX @ token"
    using og d by (auto simp: send_draft_def Let_def sent_copy_def)
  from tx(1) obtain w m where "upsert_message (writer_new (db_mail db)) copy = Ok w" "finish w = Ok (m, ch)"
    "db' = fst (enqueue_held (set_rfc822_id (set_state (update_mail db m) i Sending None) i rfc)
       (OpSend i raw' t (LOCAL_PREFIX @ token)) now (Some (now + hold)))"
    using hold by (auto simp: send_tx_def Let_def split: sum.splits)
  with d tx(2) show ?thesis by (intro that)
qed


text \<open>
  Undo Send undoes a send. A draft is sent with a delay, and the send is taken back
  before the delay is over: the outbox, the messages of the store and the other drafts are what they
  were, the store is consistent, and the draft is the one that was sent, in editing and with no error.
\<close>

theorem undo_send_restores_the_draft:
  assumes ok: "store_ok (db_mail db)"
    and unsent: "\<And>r. r \<in> set (db_outbox db) \<Longrightarrow> is_send (ob_op r) \<Longrightarrow> op_draft_id (ob_op r) \<noteq> Some i"
    and fresh: "find_message (db_mail db) (LOCAL_PREFIX @ token) = None"
    and sent: "send_draft q db i from True hold now rt token = Ok (db1, ch)"
    and early: "0 < hold" "later < now + hold"
  shows "\<exists>d db2 ch2. get_draft db i = Some d \<and> cancel_send db1 i later = Ok (db2, Some ch2) \<and>
    db_outbox db2 = db_outbox db \<and> messages (db_mail db2) = messages (db_mail db) \<and> store_ok (db_mail db2) \<and>
    get_draft db2 i = Some (d\<lparr>dr_state := Editing, dr_last_error := None\<rparr>) \<and>
    (\<forall>j. j \<noteq> i \<longrightarrow> get_draft db2 j = get_draft db j)"
proof -
  let ?l = "LOCAL_PREFIX @ token"
  obtain d rfc raw t copy w m where
    d: "get_draft db i = Some d" "dr_state d \<noteq> Sending" and up: "upsert_message (writer_new (db_mail db)) copy = Ok w"
    and fin: "finish w = Ok (m, ch)" and copy: "im_id copy = ?l"
    and db1: "db1 = fst (enqueue_held (set_rfc822_id (set_state (update_mail db m) i Sending None) i rfc)
       (OpSend i raw t ?l) now (Some (now + hold)))" by (rule send_draft_queued [OF sent early(1)])
  have w0: "writer_ok (writer_new (db_mail db))"
    using writer_new_ok [OF ok, of ReplaceLabels] by (simp add: with_stored_labels_def writer_new_def)
  have w: "writer_ok w" by (rule upsert_message_ok [OF w0 up])
  from finish_ok [OF w] fin have m: "store_ok m" by simp
  have mm: "messages m = messages (w_db w)"
    using w fin unfolding writer_ok_def finish_def by (rule recompute_all_messages)
  from upsert_local_appends [OF up, unfolded copy] fresh obtain row where
    row: "messages m = messages (db_mail db) @ [row]" "m_gmail_id row = ?l" by (auto simp: mm writer_new_def)
  define send where "send = \<lparr>ob_id = next_rowid ob_id (db_outbox db), ob_op = OpSend i raw t ?l, ob_created_at = now, ob_attempts = 0,
     ob_next_attempt_at = Some (now + hold), ob_state = Pending, ob_last_error = None, ob_claimed_by = None, ob_lease_until = None\<rparr>"
  have box: "db_outbox db1 = db_outbox db @ [send]" and mail: "db_mail db1 = m"
    by (simp_all add: db1 enqueue_held_def set_rfc822_id_def draft_sent_def update_mail_def send_def Let_def)
  have none: "List.find (\<lambda>r. held_at later r \<and> op_draft_id (ob_op r) = Some i) (db_outbox db) = None"
    using unsent by (auto simp: find_None_iff held_at_def)
  have found: "List.find (\<lambda>r. held_at later r \<and> op_draft_id (ob_op r) = Some i) (db_outbox db1) = Some send"
    using none early(2) by (simp add: box find_append) (simp add: send_def held_at_def)
  have sm: "store_ok (db_mail db1)" by (simp add: mail m)
  obtain raw' t' l' m2 ch2 where
    c: "ob_op send = OpSend i raw' t' l'" "finish (fst (delete_message (writer_new (db_mail db1)) l')) = Ok (m2, ch2)" "store_ok m2"
      "cancel_send db1 i later = Ok (draft_unsent (set_state (db1\<lparr>db_outbox := sql_delete (\<lambda>x. ob_id x = ob_id send) (db_outbox db1),
         db_mail := m2\<rparr>) i Editing None) i, Some ch2)" by (rule cancel_send_run [OF sm found])
  from c(1) have l': "l' = ?l" by (simp add: send_def)
  have w1: "writer_ok (writer_new (db_mail db1))"
    using writer_new_ok [OF sm, of ReplaceLabels] by (simp add: with_stored_labels_def writer_new_def)
  have ids: "distinct (map m_id (messages (db_mail db1)))" "distinct (map m_gmail_id (messages (db_mail db1)))"
    using sm by (simp_all add: store_ok_def struct_ok_def)
  have w2: "writer_ok (fst (delete_message (writer_new (db_mail db1)) ?l))"
    using w1 delete_message_ok by (simp add: writer_ok_def)
  then have "messages m2 = messages (w_db (fst (delete_message (writer_new (db_mail db1)) ?l)))"
    using c(2) unfolding l' finish_def writer_ok_def by (rule recompute_all_messages)
  also have "\<dots> = filter (\<lambda>r. m_gmail_id r \<noteq> ?l) (messages (db_mail db1))"
    using delete_message_rows [of "writer_new (db_mail db1)"] ids by (simp add: writer_new_def)
  also have "\<dots> = messages (db_mail db)"
    using fresh by (auto simp: mail row find_message_def find_None_iff)
  finally have msgs: "messages m2 = messages (db_mail db)" .
  have "ob_id x \<noteq> ob_id send" if "x \<in> set (db_outbox db)" for x
    using next_rowid_greater [OF that, of ob_id] by (simp add: send_def)
  then have box2: "sql_delete (\<lambda>x. ob_id x = ob_id send) (db_outbox db1) = db_outbox db"
    by (auto simp: box sql_delete_def)
  let ?db2 = "draft_unsent (set_state (db1\<lparr>db_outbox := db_outbox db, db_mail := m2\<rparr>) i Editing None) i"
  let ?undone = "\<lambda>r. r\<lparr>dw_record := (dw_record r)\<lparr>dr_state := Editing, dr_last_error := None\<rparr>\<rparr>"
  have drafts: "db_drafts ?db2 = sql_update (\<lambda>r. dw_id r = i) (\<lambda>r. ?undone (r\<lparr>dw_rfc822_message_id := Some rfc\<rparr>)) (db_drafts db)"
    by (simp add: set_state_def db1 enqueue_held_def Let_def set_rfc822_id_def draft_sent_def update_mail_def
        sql_update_def comp_def if_distrib cong: if_cong)
  have look: "List.find (\<lambda>r. dw_id r = j) (sql_update (\<lambda>r. dw_id r = i) f rows) =
      (if j = i then map_option f (List.find (\<lambda>r. dw_id r = i) rows) else List.find (\<lambda>r. dw_id r = j) rows)"
    if "\<And>r. dw_id (f r) = dw_id r" for f j rows
    using that by (induction rows) (auto simp: sql_update_def)
  have "get_draft ?db2 i = Some (d\<lparr>dr_state := Editing, dr_last_error := None\<rparr>)"
    using d unfolding get_draft_def drafts by (subst look) auto
  moreover have "get_draft ?db2 j = get_draft db j" if "j \<noteq> i" for j
    using that unfolding get_draft_def drafts by (subst look) auto
  moreover have "cancel_send db1 i later = Ok (?db2, Some ch2)" using c(4) by (simp only: box2)
  ultimately show ?thesis using d msgs c(3) by (intro exI conjI) auto
qed

lemma upsert_local_total:
  assumes new: "find_message (w_db w) (im_id m) = None" and local: "prefix LOCAL_PREFIX (im_id m)"
    and labels: "ARCHIVE_LABEL \<notin> set (im_label_ids m)"
  shows "\<exists>w'. upsert_message w m = Ok w'"
proof -
  obtain db t where e: "ensure_thread (w_db w) (im_thread_id m) = (db, t)" by fastforce
  have none: "find_message db (im_id m) = None" using new by (simp add: find_message_def ensure_thread_messages [OF e])
  obtain w1 rowid where ins: "upsert_insert (w\<lparr>w_db := db\<rparr>) t (im_label_ids m) m = (w1, rowid)" by fastforce
  have keep: "replace_local_copies w m = w" for w
    using local by (auto simp: replace_local_copies_def split: option.splits)
  from ins have "rowid \<in> m_id ` set (messages (w_db w1))"
    by (auto simp: upsert_insert_def Let_def keep record_contacts_def label_flags_def)
  moreover obtain rows acc where "insert_message_labels (labels (w_db w1)) [] (im_label_ids m) = Ok (rows, acc)"
    using insert_message_labels_total [OF labels] by (metis surj_pair)
  ultimately have "\<exists>w'. upsert_rest w1 rowid t (im_label_ids m) m = Ok w'"
    by (simp add: upsert_rest_def replace_message_labels_def Let_def)
  then show ?thesis by (simp add: upsert_message_def e none ins upsert_label_ids_def)
qed

text \<open>A draft whose message can be built is sent.\<close>

lemma send_draft_succeeds:
  assumes ok: "store_ok (db_mail db)" and d: "get_draft db i = Some d" "dr_state d \<noteq> Sending"
    and built: "outgoing_of q db d from (rt @ ''.kaluta@'' @ email_domain from) now = Ok (d', og)"
      "build (ce_writer q) og = Ok raw"
    and fresh: "find_message (db_mail db) (LOCAL_PREFIX @ token) = None"
  shows "\<exists>db1 ch. send_draft q db i from True hold now rt token = Ok (db1, ch)"
proof -
  let ?copy = "sent_copy q d' og (LOCAL_PREFIX @ token) (case dr_thread_id d' of Some t \<Rightarrow> t | None \<Rightarrow> LOCAL_PREFIX @ ''thread-'' @ token) (length raw)"
  have "\<exists>w. upsert_message (writer_new (db_mail db)) ?copy = Ok w"
    using fresh by (intro upsert_local_total)
      (simp_all add: sent_copy_def writer_new_def Let_def SENT_def ARCHIVE_LABEL_def)
  then obtain w where w: "upsert_message (writer_new (db_mail db)) ?copy = Ok w" ..
  have "writer_ok (writer_new (db_mail db))"
    using writer_new_ok [OF ok, of ReplaceLabels] by (simp add: with_stored_labels_def writer_new_def)
  from finish_ok [OF upsert_message_ok [OF this w]] obtain m ch where "finish w = Ok (m, ch)" by blast
  with w have "\<exists>db1 ch. send_tx db ?copy p i rfc True hold now = Ok (db1, ch)" for p rfc
    by (simp add: send_tx_def Let_def)
  with d built show ?thesis unfolding send_draft_def by (simp only: option.case if_False Let_def sum.case prod.case if_True)
qed

text \<open>A new draft to one person, sent with a delay of ten seconds and taken back after five.\<close>

definition plain_env :: compose_env where
  "plain_env = \<lparr>ce_mime = \<lparr>mt_sanitize_html = (\<lambda>h. (h, False)), mt_html_to_text = id\<rparr>,
     ce_writer = \<lparr>mw_quoted_text = id, mw_write = (\<lambda>m. Ok [1])\<rparr>,
     ce_base64 = (\<lambda>_. ''AQ==''), ce_files = (\<lambda>_. Err ''no such file'')\<rparr>"

definition new_draft :: draft_record where
  "new_draft = default_draft\<lparr>dr_id := 1, dr_to := [\<lparr>ea_name = None, ea_email = ''ann@x.org''\<rparr>], dr_subject := ''Lunch?''\<rparr>"

definition drafting_db :: account_db where
  "drafting_db = new_account_db\<lparr>db_drafts := [\<lparr>dw_record = new_draft, dw_dirty = True, dw_rfc822_message_id = None\<rparr>]\<rparr>"

theorem undo_send_restores_the_draft_witness:
  "\<exists>db1 ch db2 ch2. send_draft plain_env drafting_db 1 \<lparr>ea_name = None, ea_email = ''me@x.org''\<rparr> True 10000 0 ''r'' ''t'' = Ok (db1, ch) \<and>
     cancel_send db1 1 5000 = Ok (db2, Some ch2) \<and> get_draft db2 1 = Some new_draft"
proof -
  let ?me = "\<lparr>ea_name = None, ea_email = ''me@x.org''\<rparr>"
  have ok: "store_ok (db_mail drafting_db)" by (simp add: drafting_db_def new_account_db_def empty_store_ok)
  have d: "get_draft drafting_db 1 = Some new_draft" by (simp add: get_draft_def drafting_db_def new_draft_def)
  have fresh: "find_message (db_mail drafting_db) (LOCAL_PREFIX @ ''t'') = None"
    by (simp add: find_message_def drafting_db_def new_account_db_def empty_store_def)
  have "\<exists>d' og. outgoing_of plain_env drafting_db new_draft ?me (''r'' @ ''.kaluta@'' @ email_domain ?me) 0 = Ok (d', og) \<and>
      build (ce_writer plain_env) og = Ok [1]"
    by (simp add: outgoing_of_def new_draft_def default_draft_def merged_draft_def Let_def build_def build_draft_def
        plain_env_def check_address_def valid_email_def trim_def trim_start_def trim_end_def is_whitespace_def suffix_to_prefix)
  then obtain d' og where built: "outgoing_of plain_env drafting_db new_draft ?me (''r'' @ ''.kaluta@'' @ email_domain ?me) 0 = Ok (d', og)"
    "build (ce_writer plain_env) og = Ok [1]" by blast
  have "dr_state new_draft \<noteq> Sending" by (simp add: new_draft_def default_draft_def)
  from send_draft_succeeds [OF ok d this built fresh] obtain db1 ch where
    sent: "send_draft plain_env drafting_db 1 ?me True 10000 0 ''r'' ''t'' = Ok (db1, ch)" by blast
  have "db_outbox drafting_db = []" by (simp add: drafting_db_def new_account_db_def)
  with undo_send_restores_the_draft [OF ok _ fresh sent, of 5000] d obtain db2 ch2 where
    "cancel_send db1 1 5000 = Ok (db2, Some ch2)" "get_draft db2 1 = Some (new_draft\<lparr>dr_state := Editing, dr_last_error := None\<rparr>)"
    by auto
  moreover have "new_draft\<lparr>dr_state := Editing, dr_last_error := None\<rparr> = new_draft"
    by (simp add: new_draft_def default_draft_def)
  ultimately show ?thesis using sent by auto
qed

end
