(* ===== verification/Core.thy ===== *)
theory Core
  imports Drain Compose
begin

text \<open>
  The core's own work on one account, between the interface it exports and the libraries below:
  its errors (\<^verbatim>\<open>crates/kaluta-core/src/error.rs\<close> and the conversions into them), a change applied to
  an account's mailbox (\<^verbatim>\<open>apply\<close> of \<^verbatim>\<open>mutations.rs\<close>), drafts and sending (\<^verbatim>\<open>compose.rs\<close>) and user labels
  (\<^verbatim>\<open>create_label\<close>).

  A mailbox is served by a sync engine or, without a provider (the demo mailbox, an archive, the
  headless process), a store alone. What is emitted for the user interface only, and waking the task
  that drains the outbox, are not modelled.
\<close>

section \<open>Errors\<close>

datatype error_kind =
    EkInvalidInput | EkNotFound | EkStorage | EkNetwork | EkAuth | EkRateLimited | EkAgent
  | EkPermissionDenied | EkCancelled | EkInternal

record core_error =
  cr_kind :: error_kind
  cr_message :: string

definition core_error_new :: "error_kind \<Rightarrow> string \<Rightarrow> core_error" where
  "core_error_new k m = \<lparr>cr_kind = k, cr_message = m\<rparr>"

fun store_error_text :: "store_error \<Rightarrow> string" where
  "store_error_text (Sqlite m) = ''database error: '' @ m"
| "store_error_text (Migration m) = ''migration failed: '' @ m"
| "store_error_text (NotFoundRow m) = ''not found: '' @ m"
| "store_error_text (InvalidData m) = ''invalid data: '' @ m"
| "store_error_text (IoFailed m) = ''i/o error: '' @ m"
| "store_error_text Closed = ''store is closed''"
| "store_error_text (VersionMismatch m) = m"

fun store_error_kind :: "store_error \<Rightarrow> error_kind" where
  "store_error_kind (NotFoundRow m) = EkNotFound"
| "store_error_kind (InvalidData m) = EkInvalidInput"
| "store_error_kind _ = EkStorage"

definition core_error_of_store :: "store_error \<Rightarrow> core_error" where
  "core_error_of_store e = core_error_new (store_error_kind e) (store_error_text e)"

fun provider_error_kind :: "provider_error \<Rightarrow> error_kind" where
  "provider_error_kind Unauthorized = EkAuth"
| "provider_error_kind (Forbidden m) = EkPermissionDenied"
| "provider_error_kind (NotFoundAt m) = EkNotFound"
| "provider_error_kind (RateLimited d) = EkRateLimited"
| "provider_error_kind (Network m) = EkNetwork"
| "provider_error_kind (Server s m) = EkNetwork"
| "provider_error_kind (Decode m) = EkNetwork"
| "provider_error_kind (Unavailable m) = EkNetwork"
| "provider_error_kind CursorExpired = EkInternal"
| "provider_error_kind (Invalid m) = EkInternal"

definition core_error_of_provider :: "provider_error \<Rightarrow> core_error" where
  "core_error_of_provider e = core_error_new (provider_error_kind e) (provider_error_text e)"

fun core_error_of_sync :: "sync_error \<Rightarrow> core_error" where
  "core_error_of_sync (ProviderFailed p) = core_error_of_provider p"
| "core_error_of_sync (StoreFailed s) = core_error_of_store s"
| "core_error_of_sync NotBootstrapped = core_error_new EkInternal ''account has not been bootstrapped''"
| "core_error_of_sync ResyncStarted = core_error_new EkInternal ''sync history expired; full resync started''"

text \<open>An operation on the core's runtime that panics is an error of kind \<^verbatim>\<open>Internal\<close> (\<^verbatim>\<open>runtime.rs\<close>).\<close>

definition task_panicked :: core_error where
  "task_panicked = core_error_new EkInternal ''task panicked''"

section \<open>A mailbox\<close>

datatype 'w mailbox_state = Served "'w engine" | Unserved sync_db

fun mailbox_db :: "'w mailbox_state \<Rightarrow> sync_db" where
  "mailbox_db (Served e) = en_db e"
| "mailbox_db (Unserved d) = d"

fun with_db :: "sync_db \<Rightarrow> 'w mailbox_state \<Rightarrow> 'w mailbox_state" where
  "with_db d (Served e) = Served (e\<lparr>en_db := d\<rparr>)"
| "with_db d (Unserved _) = Unserved d"

abbreviation mailbox_account :: "'w mailbox_state \<Rightarrow> account_db" where
  "mailbox_account mb \<equiv> sd_account (mailbox_db mb)"

definition with_account :: "account_db \<Rightarrow> 'w mailbox_state \<Rightarrow> 'w mailbox_state" where
  "with_account a mb = with_db ((mailbox_db mb)\<lparr>sd_account := a\<rparr>) mb"

text \<open>A transaction of the store on its own.\<close>

definition store_tx ::
    "(account_db \<Rightarrow> (store_error, account_db \<times> 'a) result) \<Rightarrow> 'w mailbox_state \<Rightarrow> (core_error, 'a) result \<times> 'w mailbox_state" where
  "store_tx f mb =
     (case f (mailbox_account mb) of
        Inl x \<Rightarrow> (Err (core_error_of_store x), mb)
      | Inr (a, r) \<Rightarrow> (Ok r, with_account a mb))"

section \<open>Changes\<close>

text \<open>\<^verbatim>\<open>Core::apply\<close>: queued for the provider when there is one, local only otherwise.\<close>

definition core_apply ::
    "'w sync_env \<Rightarrow> local_change \<Rightarrow> string option \<Rightarrow> millis \<Rightarrow> 'w mailbox_state \<Rightarrow> (core_error, applied_change) result \<times> 'w mailbox_state" where
  "core_apply q change record_as now mb =
     (case mb of
        Served e \<Rightarrow>
          (case apply_change_recorded q change record_as e of
             (Inl x, e') \<Rightarrow> (Err (core_error_of_sync x), Served e')
           | (Inr a, e') \<Rightarrow> (Ok a, Served e'))
      | Unserved d \<Rightarrow>
          (case apply_local_change_recorded (sd_account d) change False record_as now of
             Inl x \<Rightarrow> (Err (core_error_of_store x), Unserved d)
           | Inr (a, applied) \<Rightarrow> (Ok applied, Unserved (d\<lparr>sd_account := a\<rparr>))))"

text \<open>An agent's or a routine's change is not on the user's undo stack.\<close>

definition mutate_unrecorded ::
    "'w sync_env \<Rightarrow> local_change \<Rightarrow> millis \<Rightarrow> 'w mailbox_state \<Rightarrow> (core_error, unit) result \<times> 'w mailbox_state" where
  "mutate_unrecorded q change now mb =
     (let (r, mb') = core_apply q change None now mb in (map_sum id (\<lambda>_. ()) r, mb'))"

section \<open>Drafts\<close>

definition CANNOT_SEND :: string where
  "CANNOT_SEND = ''This account is an imported mailbox: it cannot draft, reply, forward or send mail.''"

definition refuse_if_archive :: "bool \<Rightarrow> (core_error, unit) result" where
  "refuse_if_archive arch = (if arch then Err (core_error_new EkInvalidInput CANNOT_SEND) else Ok ())"

definition DEMO_ADDRESS :: string where "DEMO_ADDRESS = ''me@example.com''"

definition own_address :: "sync_db \<Rightarrow> string" where
  "own_address d = (case sync_state d KEY_EMAIL of Some e \<Rightarrow> e | None \<Rightarrow> DEMO_ADDRESS)"

definition own_addresses :: "sync_db \<Rightarrow> string list" where
  "own_addresses d =
     (let account = to_lowercase (own_address d); sent = sent_from_addresses (db_mail (sd_account d))
      in if account \<in> set sent then sent else account # sent)"

text \<open>A draft of the interface as a record of the store: its addresses are trimmed, the rest is the store's.\<close>

definition address_of_info :: "email_address \<Rightarrow> email_address" where
  "address_of_info a = email_address_new (ea_name a) (ea_email a)"

definition record_of_info :: "draft_record \<Rightarrow> draft_record" where
  "record_of_info d = d\<lparr>dr_gmail_draft_id := None, dr_to := map address_of_info (dr_to d),
     dr_cc := map address_of_info (dr_cc d), dr_bcc := map address_of_info (dr_bcc d),
     dr_state := Editing, dr_last_error := None\<rparr>"

definition core_save_draft ::
    "bool \<Rightarrow> draft_record \<Rightarrow> millis \<Rightarrow> 'w mailbox_state \<Rightarrow> (core_error, int) result \<times> 'w mailbox_state" where
  "core_save_draft arch d now mb =
     (case refuse_if_archive arch of
        Inl e \<Rightarrow> (Err e, mb)
      | Inr _ \<Rightarrow> store_tx (\<lambda>a. save_draft a (record_of_info d) now) mb)"

definition core_delete_draft :: "int \<Rightarrow> millis \<Rightarrow> 'w mailbox_state \<Rightarrow> 'w mailbox_state" where
  "core_delete_draft i now mb = with_account (discard (mailbox_account mb) i now) mb"

text \<open>A message without its body is downloaded before it is quoted, if that works.\<close>

definition download_for_quote :: "'w sync_env \<Rightarrow> message_id \<Rightarrow> 'w mailbox_state \<Rightarrow> 'w mailbox_state" where
  "download_for_quote q g mb =
     (case mb of Served e \<Rightarrow> Served (snd (ensure_bodies q [g] e)) | Unserved d \<Rightarrow> Unserved d)"

definition draft_answer :: "(store_error, draft_record) result option \<Rightarrow> (core_error, draft_record) result" where
  "draft_answer r = (case r of None \<Rightarrow> Err task_panicked | Some x \<Rightarrow> map_sum core_error_of_store id x)"

definition core_reply_draft ::
    "'w sync_env \<Rightarrow> bool \<Rightarrow> message_id \<Rightarrow> bool \<Rightarrow> 'w mailbox_state \<Rightarrow> (core_error, draft_record) result \<times> 'w mailbox_state" where
  "core_reply_draft q arch g all mb =
     (case refuse_if_archive arch of
        Inl e \<Rightarrow> (Err e, mb)
      | Inr _ \<Rightarrow>
          let me = own_addresses (mailbox_db mb); mb1 = download_for_quote q g mb
          in (draft_answer (reply_draft (mailbox_account mb1) g all me), mb1))"

definition core_forward_draft ::
    "'w sync_env \<Rightarrow> bool \<Rightarrow> message_id \<Rightarrow> 'w mailbox_state \<Rightarrow> (core_error, draft_record) result \<times> 'w mailbox_state" where
  "core_forward_draft q arch g mb =
     (case refuse_if_archive arch of
        Inl e \<Rightarrow> (Err e, mb)
      | Inr _ \<Rightarrow>
          let mb1 = download_for_quote q g mb
          in (draft_answer (forward_draft (mailbox_account mb1) g), mb1))"

section \<open>Sending\<close>

text \<open>
  What an agent mailbox may send: one recipient with Primitive; with AgentMail, until its service
  account is verified, only the human's own address. (The angle quote of its message is written as >.)
\<close>

datatype agent_service = Primitive | AgentMail

datatype send_mode = AskEachSend | SendFreely

record service_meta =
  sm_verified :: bool
  sm_human_email :: "string option"

record agent_meta =
  am_name :: string
  am_address :: string
  am_service :: agent_service
  am_service_meta :: "service_meta option"
  am_send_mode :: send_mode

definition ONE_RECIPIENT_ONLY :: string where
  "ONE_RECIPIENT_ONLY = ''Primitive sends to one recipient per message; remove the others''"

definition unverified_text :: "string \<Rightarrow> string" where
  "unverified_text human =
     ''Until this AgentMail service account is verified, it can write only to '' @
     (if human = [] then ''the email it was created with'' else human) @
     ''. Verify it in Settings > Accounts, or write to '' @ (if human = [] then ''that email'' else human) @ '' alone.''"

definition check_agent_recipients :: "agent_meta option \<Rightarrow> string list \<Rightarrow> (core_error, unit) result" where
  "check_agent_recipients meta recipients =
     (case meta of
        None \<Rightarrow> Ok ()
      | Some m \<Rightarrow>
          (case am_service m of
             Primitive \<Rightarrow>
               if 1 < length recipients then Err (core_error_new EkInvalidInput ONE_RECIPIENT_ONLY) else Ok ()
           | AgentMail \<Rightarrow>
               (case am_service_meta m of
                  None \<Rightarrow> Ok ()
                | Some s \<Rightarrow>
                    if sm_verified s then Ok ()
                    else
                      let human = (case sm_human_email s of Some h \<Rightarrow> h | None \<Rightarrow> []);
                          others = filter (\<lambda>r. \<not> eq_nocase (trim r) (trim human)) recipients
                      in if others = [] then Ok () else Err (core_error_new EkInvalidInput (unverified_text human)))))"

fun send_error :: "store_error \<Rightarrow> core_error" where
  "send_error (InvalidData m) = core_error_new EkInvalidInput m"
| "send_error e = core_error_of_store e"

text \<open>
  \<^verbatim>\<open>Core::send_draft\<close>: the sender is the agent of an agent mailbox; the send is queued when there is
  a provider or one will come, and held for the Undo Send delay except in the headless process. The
  answer is whether it is held.
\<close>

definition draft_recipients :: "draft_record \<Rightarrow> email_address list" where
  "draft_recipients d = dr_to d @ dr_cc d @ dr_bcc d"

definition core_send_draft ::
    "compose_env \<Rightarrow> bool \<Rightarrow> agent_meta option \<Rightarrow> bool \<Rightarrow> millis \<Rightarrow> int \<Rightarrow> millis \<Rightarrow> string \<Rightarrow> string \<Rightarrow>
       'w mailbox_state \<Rightarrow> (core_error, bool) result \<times> 'w mailbox_state" where
  "core_send_draft ce arch agent headless delay i now rfc_token token mb =
     (case refuse_if_archive arch of
        Inl e \<Rightarrow> (Err e, mb)
      | Inr _ \<Rightarrow>
          let recipients = (case get_draft (mailbox_account mb) i of
                              None \<Rightarrow> [] | Some d \<Rightarrow> map ea_email (draft_recipients d))
          in (case check_agent_recipients agent recipients of
                Inl e \<Rightarrow> (Err e, mb)
              | Inr _ \<Rightarrow>
                  let from = email_address_new (map_option am_name agent) (own_address (mailbox_db mb));
                      hold = (if headless then 0 else delay);
                      queue = (case mb of Served _ \<Rightarrow> True | Unserved _ \<Rightarrow> headless \<or> agent \<noteq> None)
                  in (case send_draft ce (mailbox_account mb) i from queue hold now rfc_token token of
                        Inl e \<Rightarrow> (Err (send_error e), mb)
                      | Inr (a, ch) \<Rightarrow>
                          (Ok (queue \<and> 0 < hold),
                           (case with_account a mb of
                              Served e \<Rightarrow> Served (publish ch e)
                            | Unserved d \<Rightarrow> Unserved d)))))"

section \<open>User labels\<close>

text \<open>
  \<^verbatim>\<open>text_color_for\<close>: the luminance of the background in floating point against 150. In exact
  arithmetic that is a comparison with 150000; the only colour whose exact luminance is 150 and whose
  computed one is above it is (19, 221, 128). The colour is a string of ASCII characters.
\<close>

definition hex_value :: "char \<Rightarrow> nat option" where
  "hex_value c =
     (let n = (of_char c :: nat)
      in if 48 \<le> n \<and> n \<le> 57 then Some (n - 48) else if 97 \<le> n \<and> n \<le> 102 then Some (n - 87)
         else if 65 \<le> n \<and> n \<le> 70 then Some (n - 55) else None)"

definition hex_byte :: "string \<Rightarrow> nat" where
  "hex_byte s =
     (case s of
        [a, b] \<Rightarrow>
          (case (hex_value a, hex_value b) of
             (Some x, Some y) \<Rightarrow> 16 * x + y
           | (None, Some y) \<Rightarrow> if a = CHR ''+'' then y else 0
           | _ \<Rightarrow> 0)
      | _ \<Rightarrow> 0)"

definition text_color_for :: "string \<Rightarrow> string" where
  "text_color_for background =
     (let hex = dropWhile (\<lambda>c. c = CHR ''#'') background;
          channel = (\<lambda>i. if i + 2 \<le> length hex then hex_byte (take 2 (drop i hex)) else 0);
          r = channel 0; g = channel 2; b = channel 4
      in if 150000 < 299 * r + 587 * g + 114 * b \<or> (r, g, b) = (19, 221, 128) then ''#000000'' else ''#ffffff'')"

definition trim_matches :: "char \<Rightarrow> string \<Rightarrow> string" where
  "trim_matches c s = rev (dropWhile (\<lambda>x. x = c) (rev (dropWhile (\<lambda>x. x = c) s)))"

definition system_names :: "label_id list" where
  "system_names = PROTECTED @ [INBOX, UNREAD, STARRED, IMPORTANT]"

text \<open>One label: the one of that name, else a new one, from the provider when there is one.\<close>

definition provider_label ::
    "'w sync_env \<Rightarrow> string \<Rightarrow> (string \<times> string) option \<Rightarrow> 'w engine \<Rightarrow> (provider_error, label) result \<times> 'w engine" where
  "provider_label q name color e =
     (case call_world (mp_create_label (se_provider q) name color) e of
        (Inl (Invalid m), e1) \<Rightarrow>
          if color \<noteq> None then call_world (mp_create_label (se_provider q) name None) e1 else (Err (Invalid m), e1)
      | r \<Rightarrow> r)"

definition store_label :: "label \<Rightarrow> 'w mailbox_state \<Rightarrow> (core_error, unit) result \<times> 'w mailbox_state" where
  "store_label l = store_tx (\<lambda>a.
     (case finish (upsert_labels (writer_new (db_mail a)) [l]) of
        Inl e \<Rightarrow> Err e
      | Inr (m, ch) \<Rightarrow> Ok (update_mail a m, ())))"

definition create_single_label ::
    "'w sync_env \<Rightarrow> string \<Rightarrow> string option \<Rightarrow> millis \<Rightarrow> nat \<Rightarrow> 'w mailbox_state \<Rightarrow> (core_error, label) result \<times> 'w mailbox_state" where
  "create_single_label q name0 color now n mb =
     (let name = trim_matches (CHR ''/'') (trim name0)
      in if name = [] \<or> 225 < utf8_len name \<or> list_ex (\<lambda>part. trim part = []) (split_on (\<lambda>c. c = CHR ''/'') name)
         then (Err (core_error_new EkInvalidInput ''a label needs a name (nest with /)''), mb)
         else if list_ex (\<lambda>s. eq_nocase s name) system_names
         then (Err (core_error_new EkInvalidInput (name @ '' is a system label'')), mb)
         else
           (case List.find (\<lambda>l. eq_nocase (lb_name l) name) (list_labels (db_mail (mailbox_account mb))) of
              Some l \<Rightarrow> (Ok l, mb)
            | None \<Rightarrow>
                let colors = map_option (\<lambda>bg. (bg, text_color_for bg)) color;
                    made = (case mb of
                              Served e \<Rightarrow>
                                (let (r, e1) = provider_label q name colors e in (map_sum core_error_of_provider id r, Served e1))
                            | Unserved d \<Rightarrow>
                                (Ok \<lparr>lb_id = ''Label_local_'' @ show_int now @ ''_'' @ show_nat n, lb_name = name, lb_kind = UserLabel,
                                     lb_color = map_option (\<lambda>(bg, fg). \<lparr>lc_background = bg, lc_text = fg\<rparr>) colors, lb_visible = True\<rparr>, Unserved d))
                in (case made of
                      (Inl e, mb1) \<Rightarrow> (Err e, mb1)
                    | (Inr l, mb1) \<Rightarrow>
                        (case store_label l mb1 of
                           (Inl e, mb2) \<Rightarrow> (Err e, mb2)
                         | (Inr _, mb2) \<Rightarrow> (Ok l, mb2)))))"

text \<open>
  A path creates its missing parents first, without a colour. A local label is told apart by the value of
  a counter of the process, here \<open>ns\<close> of its depth.
\<close>

fun create_parents ::
    "'w sync_env \<Rightarrow> string list \<Rightarrow> nat \<Rightarrow> millis \<Rightarrow> (nat \<Rightarrow> nat) \<Rightarrow> nat \<Rightarrow> 'w mailbox_state \<Rightarrow>
       (core_error, unit) result \<times> 'w mailbox_state" where
  "create_parents q segments depth now ns 0 mb = (Ok (), mb)"
| "create_parents q segments depth now ns (Suc k) mb =
     (case create_single_label q (join_with ''/'' (take depth segments)) None now (ns depth) mb of
        (Inl e, mb1) \<Rightarrow> (Err e, mb1)
      | (Inr _, mb1) \<Rightarrow> create_parents q segments (Suc depth) now ns k mb1)"

definition core_create_label ::
    "'w sync_env \<Rightarrow> string \<Rightarrow> string option \<Rightarrow> millis \<Rightarrow> (nat \<Rightarrow> nat) \<Rightarrow> 'w mailbox_state \<Rightarrow>
       (core_error, label) result \<times> 'w mailbox_state" where
  "core_create_label q name0 color now ns mb =
     (let name = trim_matches (CHR ''/'') (trim name0);
          segments = split_on (\<lambda>c. c = CHR ''/'') name
      in (case create_parents q segments 1 now ns (length segments - 1) mb of
            (Inl e, mb1) \<Rightarrow> (Err e, mb1)
          | (Inr _, mb1) \<Rightarrow> create_single_label q name color now (ns (length segments)) mb1))"

end
