(* ===== verification/Json.thy ===== *)
theory Json
  imports Mime
begin

text \<open>
  JSON values as the agent tools use them (\<^verbatim>\<open>serde_json::Value\<close>): what a tool reads from its
  arguments, how its argument structs are deserialized, the text of a value, and the ids a result
  mentions (\<^verbatim>\<open>ids_in\<close> of \<^verbatim>\<open>crates/kaluta-core/src/agents/approvals.rs\<close>). An object is the list of its
  fields in the order of their keys, as \<^verbatim>\<open>serde_json::Map\<close> keeps them; a number that is not an
  integer is kept as its text.
\<close>

section \<open>Values\<close>

datatype json =
    JNull
  | JBool bool
  | JInt int
  | JReal string
  | JStr string
  | JArr "json list"
  | JObj "(string \<times> json) list"

text \<open>\<^verbatim>\<open>value["key"]\<close>: null when there is no such field, or no object.\<close>

fun json_index :: "json \<Rightarrow> string \<Rightarrow> json" where
  "json_index (JObj fs) k = (case map_of fs k of Some v \<Rightarrow> v | None \<Rightarrow> JNull)"
| "json_index _ k = JNull"

fun as_i64 :: "json \<Rightarrow> int option" where
  "as_i64 (JInt i) = (if in_i64 i then Some i else None)"
| "as_i64 _ = None"

fun as_str :: "json \<Rightarrow> string option" where
  "as_str (JStr s) = Some s"
| "as_str _ = None"

fun as_array :: "json \<Rightarrow> json list option" where
  "as_array (JArr vs) = Some vs"
| "as_array _ = None"

text \<open>The object that the macro \<^verbatim>\<open>json!\<close> makes of fields with distinct keys.\<close>

definition json_object :: "(string \<times> json) list \<Rightarrow> json" where
  "json_object fs = JObj (sort_key fst fs)"

definition json_opt :: "('a \<Rightarrow> json) \<Rightarrow> 'a option \<Rightarrow> json" where
  "json_opt f x = (case x of None \<Rightarrow> JNull | Some a \<Rightarrow> f a)"

section \<open>The text of a value\<close>

definition hex_char :: "nat \<Rightarrow> char" where
  "hex_char n = (if n < 10 then char_of (48 + n) else char_of (87 + n))"

definition json_char :: "char \<Rightarrow> string" where
  "json_char c =
     (let n = (of_char c :: nat)
      in if n = 34 \<or> n = 92 then [CHR 0x5C, c] else if n = 8 then [CHR 0x5C, CHR ''b'']
         else if n = 12 then [CHR 0x5C, CHR ''f''] else if n = 10 then [CHR 0x5C, CHR ''n'']
         else if n = 13 then [CHR 0x5C, CHR ''r''] else if n = 9 then [CHR 0x5C, CHR ''t'']
         else if n < 32 then [CHR 0x5C, CHR ''u'', CHR ''0'', CHR ''0'', hex_char (n div 16), hex_char (n mod 16)]
         else [c])"

definition json_string :: "string \<Rightarrow> string" where
  "json_string s = [CHR 0x22] @ concat (map json_char s) @ [CHR 0x22]"

fun json_text :: "json \<Rightarrow> string" where
  "json_text JNull = ''null''"
| "json_text (JBool b) = (if b then ''true'' else ''false'')"
| "json_text (JInt i) = show_int i"
| "json_text (JReal r) = r"
| "json_text (JStr s) = json_string s"
| "json_text (JArr vs) = ''['' @ join_with '','' (map json_text vs) @ '']''"
| "json_text (JObj fs) =
     [CHR 0x7B] @ join_with '','' (map (\<lambda>(k, v). json_string k @ '':'' @ json_text v) fs) @ [CHR 0x7D]"

section \<open>Ids mentioned in a value\<close>

text \<open>
  \<^verbatim>\<open>ids_in\<close> with its accumulator: an id field that holds a string or an integer is an id; any
  other field is searched. At most fifty different ids are kept.
\<close>

definition id_key :: "string \<Rightarrow> bool" where
  "id_key k \<longleftrightarrow> k \<in> {''thread_id'', ''message_id'', ''draft_id'', ''label_id''}"

definition id_text :: "json \<Rightarrow> string option" where
  "id_text v = (case as_str v of Some s \<Rightarrow> Some s | None \<Rightarrow> map_option show_int (as_i64 v))"

definition push_id :: "string \<Rightarrow> string list \<Rightarrow> string list" where
  "push_id s out = (if length out < 50 \<and> s \<notin> set out then out @ [s] else out)"

function ids_in :: "json \<Rightarrow> string list \<Rightarrow> string list"
  and ids_in_field :: "string \<Rightarrow> json \<Rightarrow> string list \<Rightarrow> string list"
  and ids_in_fields :: "(string \<times> json) list \<Rightarrow> string list \<Rightarrow> string list"
  and ids_in_items :: "json list \<Rightarrow> string list \<Rightarrow> string list" where
  "ids_in (JObj fs) out = ids_in_fields fs out"
| "ids_in (JArr vs) out = ids_in_items vs out"
| "ids_in JNull out = out"
| "ids_in (JBool b) out = out"
| "ids_in (JInt i) out = out"
| "ids_in (JReal r) out = out"
| "ids_in (JStr s) out = out"
| "ids_in_field k v out =
     (if id_key k then (case id_text v of Some s \<Rightarrow> push_id s out | None \<Rightarrow> ids_in v out) else ids_in v out)"
| "ids_in_fields [] out = out"
| "ids_in_fields ((k, v) # fs) out = ids_in_fields fs (ids_in_field k v out)"
| "ids_in_items [] out = out"
| "ids_in_items (v # vs) out = ids_in_items vs (ids_in v out)"
  by pat_completeness auto
termination
  by (relation "measure (\<lambda>x. case x of
        Inl (Inl (v, _)) \<Rightarrow> 2 * size v
      | Inl (Inr (_, v, _)) \<Rightarrow> 2 * size v + 1
      | Inr (Inl (fs, _)) \<Rightarrow> 2 * size_list (size_prod (\<lambda>_. 0) size) fs + 1
      | Inr (Inr (vs, _)) \<Rightarrow> 2 * size_list size vs + 1)") auto

lemma push_id_ok: "distinct out \<Longrightarrow> length out \<le> 50 \<Longrightarrow> distinct (push_id s out) \<and> length (push_id s out) \<le> 50"
  by (simp add: push_id_def)

lemma ids_in_bounded:
  "distinct out \<and> length out \<le> 50 \<Longrightarrow> distinct (ids_in v out) \<and> length (ids_in v out) \<le> 50"
  "distinct out \<and> length out \<le> 50 \<Longrightarrow> distinct (ids_in_field k v out) \<and> length (ids_in_field k v out) \<le> 50"
  "distinct out \<and> length out \<le> 50 \<Longrightarrow> distinct (ids_in_fields fs out) \<and> length (ids_in_fields fs out) \<le> 50"
  "distinct out \<and> length out \<le> 50 \<Longrightarrow> distinct (ids_in_items vs out) \<and> length (ids_in_items vs out) \<le> 50"
  by (induction v out and k v out and fs out and vs out rule: ids_in_ids_in_field_ids_in_fields_ids_in_items.induct)
    (auto split: option.splits simp: push_id_ok)

section \<open>Outcomes and arguments\<close>

datatype outcome = OutOk string "json option" | OutErr string string

definition out_json :: "json \<Rightarrow> outcome" where
  "out_json v = OutOk (json_text v) (Some v)"

fun is_done :: "outcome \<Rightarrow> bool" where
  "is_done (OutOk t s) = True"
| "is_done (OutErr c m) = False"

fun outcome_summary :: "outcome \<Rightarrow> string" where
  "outcome_summary (OutOk text (Some v)) =
     (let ids = ids_in v [] in if ids = [] then fst (truncate_chars text 200) else join_with '', '' ids)"
| "outcome_summary (OutOk text None) = fst (truncate_chars text 200)"
| "outcome_summary (OutErr code message) = code @ '': '' @ message"

text \<open>
  What \<^verbatim>\<open>#[derive(Deserialize)]\<close> reads: a struct is an object with no field but its own
  (\<^verbatim>\<open>deny_unknown_fields\<close>), a missing optional field counting as none, or an array of its fields in
  order, of which only those at the end that have a default may be missing.
\<close>

definition struct_fields :: "string list \<Rightarrow> string list \<Rightarrow> json \<Rightarrow> (string \<rightharpoonup> json) option" where
  "struct_fields names defaults v =
     (case v of
        JObj fs \<Rightarrow> if set (map fst fs) \<subseteq> set names then Some (map_of fs) else None
      | JArr vs \<Rightarrow> if length vs \<le> length names \<and> set (drop (length vs) names) \<subseteq> set defaults then Some (map_of (zip names vs)) else None
      | _ \<Rightarrow> None)"

fun decode_string :: "json \<Rightarrow> string option" where
  "decode_string (JStr s) = Some s"
| "decode_string _ = None"

fun decode_strings :: "json list \<Rightarrow> string list option" where
  "decode_strings [] = Some []"
| "decode_strings (v # vs) =
     (case (decode_string v, decode_strings vs) of (Some s, Some ss) \<Rightarrow> Some (s # ss) | _ \<Rightarrow> None)"

fun decode_string_list :: "json \<Rightarrow> string list option" where
  "decode_string_list (JArr vs) = decode_strings vs"
| "decode_string_list _ = None"

fun decode_bool :: "json \<Rightarrow> bool option" where
  "decode_bool (JBool b) = Some b"
| "decode_bool _ = None"

fun decode_u32 :: "json \<Rightarrow> nat option" where
  "decode_u32 (JInt i) = (if 0 \<le> i \<and> i < 2 ^ 32 then Some (nat i) else None)"
| "decode_u32 _ = None"

definition decode_opt :: "(json \<Rightarrow> 'a option) \<Rightarrow> json \<Rightarrow> 'a option option" where
  "decode_opt f v = (if v = JNull then Some None else map_option Some (f v))"

definition required :: "(string \<rightharpoonup> json) \<Rightarrow> string \<Rightarrow> (json \<Rightarrow> 'a option) \<Rightarrow> 'a option" where
  "required m k f = Option.bind (m k) f"

definition optional :: "(string \<rightharpoonup> json) \<Rightarrow> string \<Rightarrow> (json \<Rightarrow> 'a option) \<Rightarrow> 'a option option" where
  "optional m k f = (case m k of None \<Rightarrow> Some None | Some v \<Rightarrow> decode_opt f v)"

definition defaulted :: "(string \<rightharpoonup> json) \<Rightarrow> string \<Rightarrow> 'a \<Rightarrow> (json \<Rightarrow> 'a option) \<Rightarrow> 'a option" where
  "defaulted m k d f = (case m k of None \<Rightarrow> Some d | Some v \<Rightarrow> f v)"

lemma decode_strings_map: "decode_strings (map JStr ss) = Some ss"
  by (induction ss) simp_all

lemma decode_strings_Some: "decode_strings vs = Some ss \<Longrightarrow> vs = map JStr ss"
proof (induction vs arbitrary: ss)
  case (Cons v vs)
  then show ?case by (cases v) (auto split: option.splits)
qed simp

end
