(* ===== verification/Permissions.thy ===== *)
theory Permissions
  imports Domain
begin

text \<open>
  The permission engine, \<^verbatim>\<open>crates/permissions\<close>: the risk classes of the tools an agent may
  call, the user's policy, the policy decision for one call (\<open>decide\<close>), and the hard limits
  of a session (\<open>session_guard\<close>): a rolling call rate, bulk caps, the session's scope, and
  the rule that only the session's own drafts can be sent. The \<^verbatim>\<open>BTreeSet\<close>s of the source
  are sets, its \<^verbatim>\<open>VecDeque\<close> of call times is a list with the oldest call first.
\<close>

section \<open>Limits, risks, tools\<close>

definition MAX_THREADS_PER_CALL :: nat where "MAX_THREADS_PER_CALL = 200"
definition MAX_THREADS_PER_SESSION :: nat where "MAX_THREADS_PER_SESSION = 2000"
definition MAX_CALLS_PER_MINUTE :: nat where "MAX_CALLS_PER_MINUTE = 60"
definition MINUTE :: millis where "MINUTE = 60000"

lemmas limit_defs =
  MAX_THREADS_PER_CALL_def MAX_THREADS_PER_SESSION_def MAX_CALLS_PER_MINUTE_def MINUTE_def

datatype risk = ReadOnly | Reversible | External

datatype tool =
    Search | GetThread | GetMessage | ListLabels | FactsLookup | GetAttachmentText | PresentThreads
  | CreateDraft | UpdateDraft | Archive | MarkRead | MarkUnread | AddLabel | RemoveLabel | CreateLabel
  | Send | Forward | Delete

definition ALL_TOOLS :: "tool list" where
  "ALL_TOOLS = [Search, GetThread, GetMessage, ListLabels, FactsLookup, GetAttachmentText, PresentThreads,
     CreateDraft, UpdateDraft, Archive, MarkRead, MarkUnread, AddLabel, RemoveLabel, CreateLabel,
     Send, Forward, Delete]"

fun tool_name :: "tool \<Rightarrow> string" where
  "tool_name Search = ''mail_search''"
| "tool_name GetThread = ''mail_get_thread''"
| "tool_name GetMessage = ''mail_get_message''"
| "tool_name ListLabels = ''mail_list_labels''"
| "tool_name FactsLookup = ''facts_lookup''"
| "tool_name GetAttachmentText = ''mail_get_attachment_text''"
| "tool_name PresentThreads = ''mail_present_threads''"
| "tool_name CreateDraft = ''mail_create_draft''"
| "tool_name UpdateDraft = ''mail_update_draft''"
| "tool_name Archive = ''mail_archive''"
| "tool_name MarkRead = ''mail_mark_read''"
| "tool_name MarkUnread = ''mail_mark_unread''"
| "tool_name AddLabel = ''mail_add_label''"
| "tool_name RemoveLabel = ''mail_remove_label''"
| "tool_name CreateLabel = ''mail_create_label''"
| "tool_name Send = ''mail_send''"
| "tool_name Forward = ''mail_forward''"
| "tool_name Delete = ''mail_delete''"

definition from_name :: "string \<Rightarrow> tool option" where
  "from_name name = List.find (\<lambda>t. tool_name t = name) ALL_TOOLS"

fun risk_of :: "tool \<Rightarrow> risk" where
  "risk_of Search = ReadOnly"
| "risk_of GetThread = ReadOnly"
| "risk_of GetMessage = ReadOnly"
| "risk_of ListLabels = ReadOnly"
| "risk_of FactsLookup = ReadOnly"
| "risk_of GetAttachmentText = ReadOnly"
| "risk_of PresentThreads = ReadOnly"
| "risk_of CreateDraft = Reversible"
| "risk_of UpdateDraft = Reversible"
| "risk_of Archive = Reversible"
| "risk_of MarkRead = Reversible"
| "risk_of MarkUnread = Reversible"
| "risk_of AddLabel = Reversible"
| "risk_of RemoveLabel = Reversible"
| "risk_of CreateLabel = Reversible"
| "risk_of Send = External"
| "risk_of Forward = External"
| "risk_of Delete = External"

section \<open>Policy and decision\<close>

record policy =
  approve_reversible :: "tool set"

definition default_policy :: policy where
  "default_policy = \<lparr>approve_reversible = {}\<rparr>"

datatype policy_error = NotConfigurable string

definition set_requires_approval :: "policy \<Rightarrow> tool \<Rightarrow> bool \<Rightarrow> (policy_error, policy) result" where
  "set_requires_approval p t required =
     (if risk_of t \<noteq> Reversible then Err (NotConfigurable (tool_name t))
      else if required then Ok (p\<lparr>approve_reversible := insert t (approve_reversible p)\<rparr>)
      else Ok (p\<lparr>approve_reversible := approve_reversible p - {t}\<rparr>))"

record proposed_action =
  pa_tool :: tool
  pa_thread_ids :: "thread_id list"
  pa_draft_id :: "int option"

definition action_new :: "tool \<Rightarrow> proposed_action" where
  "action_new t = \<lparr>pa_tool = t, pa_thread_ids = [], pa_draft_id = None\<rparr>"

definition on_threads :: "tool \<Rightarrow> thread_id list \<Rightarrow> proposed_action" where
  "on_threads t ids = \<lparr>pa_tool = t, pa_thread_ids = ids, pa_draft_id = None\<rparr>"

datatype deny_reason =
    TooManyThreadsInCall | SessionBulkCap | RateLimitedCall | OutOfScope | DraftNotFromSession | MissingDraft

datatype decision = Allow | RequireApproval | Deny deny_reason

definition decide :: "policy \<Rightarrow> proposed_action \<Rightarrow> decision" where
  "decide p a =
     (if risk_of (pa_tool a) \<noteq> ReadOnly \<and> MAX_THREADS_PER_CALL < length (pa_thread_ids a)
      then Deny TooManyThreadsInCall
      else (case risk_of (pa_tool a) of
              ReadOnly \<Rightarrow> Allow
            | Reversible \<Rightarrow> if pa_tool a \<in> approve_reversible p then RequireApproval else Allow
            | External \<Rightarrow> RequireApproval))"

section \<open>Scope and session guard\<close>

datatype scope = Mailbox | Selection "thread_id set"

fun scope_allows :: "scope \<Rightarrow> thread_id \<Rightarrow> bool" where
  "scope_allows Mailbox t = True"
| "scope_allows (Selection ids) t = (t \<in> ids)"

fun scope_filter :: "scope \<Rightarrow> ('a \<Rightarrow> thread_id) \<Rightarrow> 'a list \<Rightarrow> 'a list" where
  "scope_filter Mailbox thread_of items = items"
| "scope_filter (Selection ids) thread_of items =
     filter (\<lambda>i. scope_allows (Selection ids) (thread_of i)) items"

record session_guard =
  sg_scope :: scope
  recent_calls :: "millis list"
  touched :: "thread_id set"
  sendable_drafts :: "int set"

definition guard_new :: "scope \<Rightarrow> session_guard" where
  "guard_new sc = \<lparr>sg_scope = sc, recent_calls = [], touched = {}, sendable_drafts = {}\<rparr>"

text \<open>The loop that drops the calls older than a minute from the front of the queue.\<close>

fun age_out :: "millis \<Rightarrow> millis list \<Rightarrow> millis list" where
  "age_out now [] = []"
| "age_out now (t # ts) = (if MINUTE \<le> now - t then age_out now ts else t # ts)"

text \<open>
  \<^verbatim>\<open>SessionGuard::check\<close>: the guard after the call together with its answer.
  \<open>guard_refusal\<close> holds the checks in the order of the source, each of which returns early
  with its reason; only the ageing of the call queue happens before them.
\<close>

definition guard_refusal :: "session_guard \<Rightarrow> proposed_action \<Rightarrow> deny_reason option" where
  "guard_refusal g a =
     (let risk = risk_of (pa_tool a);
          fresh = length (filter (\<lambda>t. t \<notin> touched g) (pa_thread_ids a))
      in if MAX_CALLS_PER_MINUTE \<le> length (recent_calls g) then Some RateLimitedCall
         else if risk \<noteq> ReadOnly \<and> MAX_THREADS_PER_CALL < length (pa_thread_ids a)
              then Some TooManyThreadsInCall
         else if risk \<noteq> ReadOnly \<and> list_ex (\<lambda>t. \<not> scope_allows (sg_scope g) t) (pa_thread_ids a)
              then Some OutOfScope
         else if risk \<noteq> ReadOnly \<and> MAX_THREADS_PER_SESSION < card (touched g) + fresh
              then Some SessionBulkCap
         else if pa_tool a = Send then
           (case pa_draft_id a of
              None \<Rightarrow> Some MissingDraft
            | Some d \<Rightarrow> if d \<notin> sendable_drafts g then Some DraftNotFromSession else None)
         else None)"

definition guard_check :: "session_guard \<Rightarrow> proposed_action \<Rightarrow> millis \<Rightarrow> session_guard \<times> (deny_reason, unit) result" where
  "guard_check g0 a now =
     (let g = g0\<lparr>recent_calls := age_out now (recent_calls g0)\<rparr>
      in case guard_refusal g a of
           Some reason \<Rightarrow> (g, Err reason)
         | None \<Rightarrow>
             (g\<lparr>recent_calls := recent_calls g @ [now],
                touched := (if risk_of (pa_tool a) \<noteq> ReadOnly
                            then touched g \<union> set (pa_thread_ids a) else touched g)\<rparr>,
              Ok ()))"

definition allow_draft :: "session_guard \<Rightarrow> int \<Rightarrow> session_guard" where
  "allow_draft g d = g\<lparr>sendable_drafts := insert d (sendable_drafts g)\<rparr>"

definition owns_draft :: "session_guard \<Rightarrow> int \<Rightarrow> bool" where
  "owns_draft g d \<longleftrightarrow> d \<in> sendable_drafts g"

definition new_user_prompt :: "session_guard \<Rightarrow> session_guard" where
  "new_user_prompt g = g\<lparr>touched := {}\<rparr>"

definition threads_touched :: "session_guard \<Rightarrow> nat" where
  "threads_touched g = card (touched g)"

section \<open>The life of a session\<close>

text \<open>
  What happens to one session's guard over time: calls that are checked at a given
  moment, drafts the session is given, prompts by the user.
\<close>

datatype guard_event = CheckCall proposed_action millis | AllowDraft int | NewPrompt

fun guard_step :: "session_guard \<Rightarrow> guard_event \<Rightarrow> session_guard" where
  "guard_step g (CheckCall a now) = fst (guard_check g a now)"
| "guard_step g (AllowDraft d) = allow_draft g d"
| "guard_step g NewPrompt = new_user_prompt g"

text \<open>The times at which calls passed the check, oldest first.\<close>

fun accepted_calls :: "session_guard \<Rightarrow> guard_event list \<Rightarrow> millis list" where
  "accepted_calls g [] = []"
| "accepted_calls g (e # es) =
     (case e of
        CheckCall a now \<Rightarrow>
          (if snd (guard_check g a now) = Ok () then [now] else []) @ accepted_calls (guard_step g e) es
      | _ \<Rightarrow> accepted_calls (guard_step g e) es)"

definition guard_run :: "session_guard \<Rightarrow> guard_event list \<Rightarrow> session_guard" where
  "guard_run g es = foldl guard_step g es"

fun event_time :: "guard_event \<Rightarrow> millis option" where
  "event_time (CheckCall a now) = Some now"
| "event_time _ = None"

definition call_times :: "guard_event list \<Rightarrow> millis list" where
  "call_times es = List.map_filter event_time es"

definition guard_inv :: "session_guard \<Rightarrow> bool" where
  "guard_inv g \<longleftrightarrow>
     finite (touched g) \<and> card (touched g) \<le> MAX_THREADS_PER_SESSION \<and>
     (\<forall>t \<in> touched g. scope_allows (sg_scope g) t) \<and>
     length (recent_calls g) \<le> MAX_CALLS_PER_MINUTE"

section \<open>Lemmas\<close>

lemma age_out_dropWhile: "age_out now ts = dropWhile (\<lambda>t. MINUTE \<le> now - t) ts"
  by (induction ts) auto

lemma length_age_out: "length (age_out now ts) \<le> length ts"
  by (simp add: age_out_dropWhile length_dropWhile_le)

lemma age_out_sorted: "sorted ts \<Longrightarrow> age_out now ts = filter (\<lambda>t. now - MINUTE < t) ts"
proof -
  assume "sorted ts"
  then have "dropWhile (\<lambda>t. t \<le> now - MINUTE) ts = filter (\<lambda>t. now - MINUTE < t) ts"
    by (rule dropWhile_sorted_filter)
  moreover have "(\<lambda>t. MINUTE \<le> now - t) = (\<lambda>t. t \<le> now - MINUTE)"
    by (auto simp: fun_eq_iff)
  ultimately show ?thesis by (simp add: age_out_dropWhile)
qed

text \<open>The two ways a check can end.\<close>

lemma guard_refusal_None:
  assumes "guard_refusal g a = None"
  shows "length (recent_calls g) < MAX_CALLS_PER_MINUTE"
    and "risk_of (pa_tool a) \<noteq> ReadOnly \<Longrightarrow> length (pa_thread_ids a) \<le> MAX_THREADS_PER_CALL"
    and "risk_of (pa_tool a) \<noteq> ReadOnly \<Longrightarrow> \<forall>t \<in> set (pa_thread_ids a). scope_allows (sg_scope g) t"
    and "risk_of (pa_tool a) \<noteq> ReadOnly \<Longrightarrow>
           card (touched g) + length (filter (\<lambda>t. t \<notin> touched g) (pa_thread_ids a)) \<le> MAX_THREADS_PER_SESSION"
    and "pa_tool a = Send \<Longrightarrow> \<exists>d. pa_draft_id a = Some d \<and> d \<in> sendable_drafts g"
  using assms
  by (simp_all add: guard_refusal_def Let_def list_ex_iff not_le not_less split: if_splits option.splits)

lemma guard_check_refused:
  assumes "snd (guard_check g a now) = Err r"
  shows "fst (guard_check g a now) = g\<lparr>recent_calls := age_out now (recent_calls g)\<rparr>"
  using assms by (simp add: guard_check_def Let_def split: option.splits)

lemma guard_check_accepted:
  assumes "snd (guard_check g a now) = Ok ()"
  shows "fst (guard_check g a now) =
           g\<lparr>recent_calls := age_out now (recent_calls g) @ [now],
             touched := (if risk_of (pa_tool a) \<noteq> ReadOnly
                         then touched g \<union> set (pa_thread_ids a) else touched g)\<rparr>"
    and "guard_refusal (g\<lparr>recent_calls := age_out now (recent_calls g)\<rparr>) a = None"
  using assms by (simp_all add: guard_check_def Let_def split: option.splits)

lemmas guard_check_accepted_limits =
  guard_refusal_None [OF guard_check_accepted(2), simplified]

lemma guard_check_cases:
  obtains (refused) r where "snd (guard_check g a now) = Err r"
  | (accepted) "snd (guard_check g a now) = Ok ()"
  by (cases "snd (guard_check g a now)") auto

lemma card_touched_le:
  assumes "finite T"
  shows "card (T \<union> set ids) \<le> card T + length (filter (\<lambda>t. t \<notin> T) ids)"
proof -
  have "T \<union> set ids = T \<union> set (filter (\<lambda>t. t \<notin> T) ids)" by auto
  also have "card \<dots> \<le> card T + card (set (filter (\<lambda>t. t \<notin> T) ids))"
    by (rule card_Un_le)
  also have "\<dots> \<le> card T + length (filter (\<lambda>t. t \<notin> T) ids)"
    using card_length [of "filter (\<lambda>t. t \<notin> T) ids"] by (rule add_left_mono)
  finally show ?thesis .
qed

lemma guard_inv_new [inv_intros]: "guard_inv (guard_new sc)"
  by (simp add: guard_inv_def guard_new_def)

lemma guard_inv_check [inv_intros]:
  assumes inv: "guard_inv g"
  shows "guard_inv (fst (guard_check g a now))"
proof (cases rule: guard_check_cases [of g a now])
  case (refused r)
  then show ?thesis
    using inv order_trans [OF length_age_out] by (auto simp: guard_check_refused guard_inv_def)
next
  case accepted
  note ok = guard_check_accepted(1) [OF accepted] and lim = guard_check_accepted_limits [OF accepted]
  show ?thesis
  proof (cases "risk_of (pa_tool a) = ReadOnly")
    case True
    with inv ok lim(1) show ?thesis by (simp add: guard_inv_def)
  next
    case False
    with inv have "card (touched g \<union> set (pa_thread_ids a)) \<le> MAX_THREADS_PER_SESSION"
      using card_touched_le [of "touched g" "pa_thread_ids a"] lim(4) by (simp add: guard_inv_def)
    with False inv ok lim(1,3) show ?thesis by (auto simp: guard_inv_def)
  qed
qed

lemma guard_inv_step [inv_intros]: "guard_inv g \<Longrightarrow> guard_inv (guard_step g e)"
proof (cases e)
  case (CheckCall a now)
  assume "guard_inv g"
  then show ?thesis by (simp add: CheckCall guard_inv_check)
qed (auto simp: guard_inv_def allow_draft_def new_user_prompt_def)

lemma guard_inv_run: "guard_inv g \<Longrightarrow> guard_inv (guard_run g es)"
  unfolding guard_run_def by (induction es arbitrary: g) (auto intro: inv_intros)

section \<open>The rolling rate limit\<close>

definition calls_in_minute :: "millis \<Rightarrow> millis list \<Rightarrow> nat" where
  "calls_in_minute t ts = length (filter (\<lambda>x. t - MINUTE < x \<and> x \<le> t) ts)"

text \<open>
  The history of a session: the accepted calls so far are in order and not later than
  the last call, the guard remembers exactly those after some moment at least a minute
  before the last call, and no minute holds more than the limit.
\<close>

definition call_history :: "millis list \<Rightarrow> millis \<Rightarrow> session_guard \<Rightarrow> bool" where
  "call_history acc lst g \<longleftrightarrow>
     sorted acc \<and> (\<forall>x \<in> set acc. x \<le> lst) \<and>
     (\<exists>b \<le> lst - MINUTE. recent_calls g = filter (\<lambda>x. b < x) acc) \<and>
     (\<forall>t. calls_in_minute t acc \<le> MAX_CALLS_PER_MINUTE)"

lemma age_out_history:
  assumes "call_history acc lst g" and "lst \<le> now"
  shows "age_out now (recent_calls g) = filter (\<lambda>x. now - MINUTE < x) acc"
proof -
  from assms(1) obtain b where b: "b \<le> lst - MINUTE" "recent_calls g = filter (\<lambda>x. b < x) acc" and "sorted acc"
    by (auto simp: call_history_def)
  have "sorted (filter (\<lambda>x. b < x) acc)"
    using sorted_filter [of "\<lambda>x. x" acc "\<lambda>x. b < x"] \<open>sorted acc\<close> by simp
  then have "age_out now (recent_calls g) = filter (\<lambda>x. now - MINUTE < x) (filter (\<lambda>x. b < x) acc)"
    unfolding b(2) by (rule age_out_sorted)
  also have "\<dots> = filter (\<lambda>x. now - MINUTE < x) acc"
    using b(1) assms(2) by (auto simp: filter_filter intro: filter_cong)
  finally show ?thesis .
qed

lemma call_history_refused:
  assumes h: "call_history acc lst g" and now: "lst \<le> now"
    and rc: "recent_calls g' = age_out now (recent_calls g)"
  shows "call_history acc now g'"
  using h now age_out_history [OF h now] rc by (force simp: call_history_def)

lemma call_history_accepted:
  assumes h: "call_history acc lst g" and now: "lst \<le> now"
    and room: "length (age_out now (recent_calls g)) < MAX_CALLS_PER_MINUTE"
    and rc: "recent_calls g' = age_out now (recent_calls g) @ [now]"
  shows "call_history (acc @ [now]) now g'"
proof -
  have win: "calls_in_minute t (acc @ [now]) \<le> MAX_CALLS_PER_MINUTE" for t
  proof (cases "t - MINUTE < now \<and> now \<le> t")
    case False
    with h show ?thesis by (auto simp: calls_in_minute_def call_history_def)
  next
    case True
    have "calls_in_minute t acc \<le> length (filter (\<lambda>x. now - MINUTE < x) acc)"
      unfolding calls_in_minute_def using True by (intro length_filter_mono) auto
    with True room show ?thesis
      by (simp add: calls_in_minute_def age_out_history [OF h now])
  qed
  have "recent_calls g' = filter (\<lambda>x. now - MINUTE < x) (acc @ [now])"
    by (simp add: rc age_out_history [OF h now] MINUTE_def)
  moreover have "sorted (acc @ [now])" and "\<forall>x \<in> set (acc @ [now]). x \<le> now"
    using h now by (auto simp: call_history_def sorted_append)
  ultimately show ?thesis
    unfolding call_history_def using win by blast
qed

lemma call_history_frame:
  "recent_calls g' = recent_calls g \<Longrightarrow> call_history acc lst g \<Longrightarrow> call_history acc lst g'"
  by (simp add: call_history_def)

lemma accepted_calls_rate:
  "call_history acc lst g \<Longrightarrow> sorted (lst # call_times es) \<Longrightarrow>
   calls_in_minute t (acc @ accepted_calls g es) \<le> MAX_CALLS_PER_MINUTE"
proof (induction es arbitrary: acc lst g)
  case Nil
  then show ?case by (simp add: call_history_def)
next
  case (Cons e es)
  show ?case
  proof (cases e)
    case (CheckCall a now)
    with Cons.prems(2) have now: "lst \<le> now" and rest: "sorted (now # call_times es)"
      by (auto simp: call_times_def map_filter_simps)
    show ?thesis
    proof (cases rule: guard_check_cases [of g a now])
      case (refused r)
      then have "call_history acc now (guard_step g e)"
        using call_history_refused [OF Cons.prems(1) now] by (simp add: CheckCall guard_check_refused)
      with Cons.IH [OF _ rest] refused show ?thesis by (simp add: CheckCall)
    next
      case accepted
      then have "call_history (acc @ [now]) now (guard_step g e)"
        using call_history_accepted [OF Cons.prems(1) now] guard_check_accepted(1) [OF accepted]
          guard_check_accepted_limits(1) [OF accepted]
        by (simp add: CheckCall)
      from Cons.IH [OF this rest] accepted show ?thesis by (simp add: CheckCall)
    qed
  next
    case (AllowDraft d)
    then have "call_history acc lst (guard_step g e)"
      using Cons.prems(1) by (auto simp: allow_draft_def intro: call_history_frame)
    with Cons.IH Cons.prems(2) AllowDraft show ?thesis by (simp add: call_times_def map_filter_simps)
  next
    case NewPrompt
    then have "call_history acc lst (guard_step g e)"
      using Cons.prems(1) by (auto simp: new_user_prompt_def intro: call_history_frame)
    with Cons.IH Cons.prems(2) NewPrompt show ?thesis by (simp add: call_times_def map_filter_simps)
  qed
qed

lemma call_history_new: "call_history [] lst (guard_new sc)"
  by (auto simp: call_history_def guard_new_def calls_in_minute_def)

section \<open>Properties\<close>

lemma sendable_drafts_check: "sendable_drafts (fst (guard_check g a now)) = sendable_drafts g"
  by (simp add: guard_check_def Let_def split: option.splits)

lemma sendable_drafts_run:
  "d \<in> sendable_drafts (guard_run g es) \<Longrightarrow> d \<in> sendable_drafts g \<or> AllowDraft d \<in> set es"
proof (induction es arbitrary: g)
  case (Cons e es)
  then have "d \<in> sendable_drafts (guard_step g e) \<or> AllowDraft d \<in> set es"
    by (simp add: guard_run_def)
  then show ?case
    by (cases e) (auto simp: sendable_drafts_check allow_draft_def new_user_prompt_def)
qed (simp add: guard_run_def)

text \<open>
  Claim C9: in the life of a session whose clock does not run backwards, no window of one minute
  holds more than \<open>MAX_CALLS_PER_MINUTE\<close> accepted tool calls.
\<close>

theorem rate_limit_is_a_rolling_minute:
  assumes "sorted (call_times es)"
  shows "calls_in_minute t (accepted_calls (guard_new sc) es) \<le> MAX_CALLS_PER_MINUTE"
proof (cases "call_times es")
  case Nil
  then have "sorted (0 # call_times es)" by simp
  from accepted_calls_rate [OF call_history_new this, of t sc] show ?thesis by simp
next
  case (Cons t0 ts)
  with assms have "sorted (t0 # call_times es)" by simp
  from accepted_calls_rate [OF call_history_new this, of t sc] show ?thesis by simp
qed

theorem rate_limit_is_a_rolling_minute_witness:
  "let es = [CheckCall (action_new Search) 0, NewPrompt, CheckCall (action_new Search) 61000]
   in sorted (call_times es) \<and> accepted_calls (guard_new Mailbox) es = [0, 61000] \<and>
      calls_in_minute 61000 (accepted_calls (guard_new Mailbox) es) \<le> MAX_CALLS_PER_MINUTE"
proof -
  let ?es = "[CheckCall (action_new Search) 0, NewPrompt, CheckCall (action_new Search) 61000]"
  have times: "sorted (call_times ?es)" by (simp add: call_times_def map_filter_simps)
  have "accepted_calls (guard_new Mailbox) ?es = [0, 61000]"
    by (simp add: guard_check_def guard_refusal_def guard_new_def action_new_def new_user_prompt_def limit_defs)
  with times rate_limit_is_a_rolling_minute [OF times, of 61000 Mailbox] show ?thesis
    unfolding Let_def by blast
qed



text \<open>
  Claim C11: a send passes the guard only for a draft that was handed to this session before, in any
  session history; a call without a draft id never does.
\<close>

theorem only_session_drafts_can_be_sent:
  assumes "snd (guard_check (guard_run (guard_new sc) es) a now) = Ok ()" and "pa_tool a = Send"
  shows "\<exists>d. pa_draft_id a = Some d \<and> AllowDraft d \<in> set es"
proof -
  obtain d where "pa_draft_id a = Some d" "d \<in> sendable_drafts (guard_run (guard_new sc) es)"
    using guard_check_accepted_limits(5) [OF assms] by blast
  with sendable_drafts_run [of d "guard_new sc" es] show ?thesis
    by (auto simp: guard_new_def)
qed

theorem only_session_drafts_can_be_sent_witness:
  "let a = \<lparr>pa_tool = Send, pa_thread_ids = [], pa_draft_id = Some 7\<rparr>
   in snd (guard_check (guard_run (guard_new Mailbox) [AllowDraft 7]) a 2) = Ok () \<and>
      (\<exists>d. pa_draft_id a = Some d \<and> AllowDraft d \<in> set [AllowDraft 7])"
proof -
  let ?a = "\<lparr>pa_tool = Send, pa_thread_ids = [], pa_draft_id = Some 7\<rparr>"
  have ok: "snd (guard_check (guard_run (guard_new Mailbox) [AllowDraft 7]) ?a 2) = Ok ()"
    by (simp add: guard_run_def guard_check_def guard_refusal_def guard_new_def allow_draft_def limit_defs)
  with only_session_drafts_can_be_sent [OF ok] show ?thesis by simp
qed

text \<open>
  the policy decision allows a call outright exactly when the tool only reads, or is a
  reversible tool the user did not put under approval and the call names at most
  \<open>MAX_THREADS_PER_CALL\<close> threads; no policy, however it was edited, lets an external tool through
  without asking.
\<close>

fun edit_policy :: "policy \<Rightarrow> (tool \<times> bool) list \<Rightarrow> policy" where
  "edit_policy p [] = p"
| "edit_policy p ((t, r) # es) =
     edit_policy (case set_requires_approval p t r of Inl e \<Rightarrow> p | Inr p' \<Rightarrow> p') es"

theorem decide_allows_iff:
  "(decide (edit_policy p es) a = Allow \<longleftrightarrow>
      risk_of (pa_tool a) = ReadOnly \<or>
      (risk_of (pa_tool a) = Reversible \<and> pa_tool a \<notin> approve_reversible (edit_policy p es) \<and>
       length (pa_thread_ids a) \<le> MAX_THREADS_PER_CALL)) \<and>
   (approve_reversible p \<subseteq> {t. risk_of t = Reversible} \<longleftrightarrow>
    approve_reversible (edit_policy p es) \<subseteq> {t. risk_of t = Reversible})"
proof
  show "decide (edit_policy p es) a = Allow \<longleftrightarrow>
      risk_of (pa_tool a) = ReadOnly \<or>
      (risk_of (pa_tool a) = Reversible \<and> pa_tool a \<notin> approve_reversible (edit_policy p es) \<and>
       length (pa_thread_ids a) \<le> MAX_THREADS_PER_CALL)"
    by (cases "risk_of (pa_tool a)") (auto simp: decide_def)
  show "approve_reversible p \<subseteq> {t. risk_of t = Reversible} \<longleftrightarrow>
    approve_reversible (edit_policy p es) \<subseteq> {t. risk_of t = Reversible}"
    by (induction p es rule: edit_policy.induct) (auto simp: set_requires_approval_def)
qed

lemma tool_names_distinct: "distinct (map tool_name ALL_TOOLS)"
  by code_simp

lemma tool_in_ALL_TOOLS: "t \<in> set ALL_TOOLS"
  by (cases t) (simp_all add: ALL_TOOLS_def)

text \<open>tool names and tools correspond one to one.\<close>

theorem tool_names_round_trip: "from_name n = Some t \<longleftrightarrow> tool_name t = n"
proof
  show "from_name n = Some t \<Longrightarrow> tool_name t = n"
    by (auto simp: from_name_def dest: find_Some_in)
  have "List.find (\<lambda>u. tool_name u = tool_name t) ALL_TOOLS = Some t"
    using tool_names_distinct tool_in_ALL_TOOLS [of t] by (rule find_distinct_map)
  then show "tool_name t = n \<Longrightarrow> from_name n = Some t"
    by (auto simp: from_name_def)
qed

end
