(* ===== verification/Agents.thy ===== *)
theory Agents
  imports Core Json Permissions
begin

text \<open>
  The state agents act on: the open accounts, the tool side of each agent session
  (\<^verbatim>\<open>crates/kaluta-core/src/agents/mod.rs\<close>), the audit log (\<^verbatim>\<open>crates/mail-store/src/agents.rs\<close>) and the
  approvals (\<^verbatim>\<open>agents/approvals.rs\<close>).

  A tool call that needs the user is parked: its future waits on a channel for the user's answer, and
  other calls run meanwhile. A parked call is an entry of \<open>hb_parked\<close>, with what has arrived on its
  channel; \<open>hb_pending\<close> is the table that the user's answer is looked up in. Between the moment the
  answer is sent and the moment the parked call runs on, the table no longer holds the call.
\<close>

section \<open>Sessions and accounts\<close>

datatype agent_event =
    ActionProposed int string string "int option"
  | ActionResolved int bool
  | ResultsAvailable "thread_id list" "string option"

record tool_session =
  ss_guard :: session_guard
  ss_draft_quotes :: "int \<rightharpoonup> string"
  ss_read_only :: bool
  ss_hidden :: bool
  ss_sink :: bool
  ss_agent :: "string option"
  ss_last_prompt :: string

definition session_new :: "scope \<Rightarrow> bool \<Rightarrow> tool_session" where
  "session_new sc sink = \<lparr>ss_guard = guard_new sc, ss_draft_quotes = Map.empty, ss_read_only = False, ss_hidden = False,
     ss_sink = sink, ss_agent = None, ss_last_prompt = []\<rparr>"

record action_row =
  ar_id :: int
  ar_session :: string
  ar_tool :: string
  ar_args :: string
  ar_risk :: risk
  ar_state :: string
  ar_summary :: "string option"
  ar_created_at :: millis
  ar_resolved_at :: "millis option"

text \<open>An open account: its mailbox, and the agent tables of its store (the uuids of its sessions, the log).\<close>

record 'w open_account =
  ka_mailbox :: "'w mailbox_state"
  ka_sessions :: "string list"
  ka_actions :: "action_row list"

record pending =
  pn_session :: string
  pn_account :: "account_id option"
  pn_frozen_draft :: "int option"

text \<open>What the user approves, and the call that waits for it; nothing on its channel is \<^term>\<open>None\<close>.\<close>

record proposal =
  pp_summary :: string
  pp_draft_id :: "int option"

record parked =
  pk_ticket :: int
  pk_session :: string
  pk_account :: "account_id option"
  pk_tool :: tool
  pk_args :: json
  pk_proposal :: proposal
  pk_action :: int
  pk_answer :: "bool option"

record 'w hub =
  hb_accounts :: "account_id \<rightharpoonup> 'w open_account"
  hb_current :: "account_id option"
  hb_agent_meta :: "account_id \<rightharpoonup> agent_meta"
  hb_archives :: "account_id set"
  hb_headless :: bool
  hb_send_delay :: millis
  hb_sessions :: "string \<rightharpoonup> tool_session"
  hb_session_accounts :: "string \<rightharpoonup> account_id"
  hb_routine_sessions :: "string set"
  hb_policy :: policy
  hb_pending :: "(int \<times> pending) list"
  hb_next_ticket :: int
  hb_parked :: "parked list"
  hb_events :: "(string \<times> agent_event) list"

text \<open>\<^verbatim>\<open>scoped(session_account(session), ..)\<close>: the session's account, else the window's.\<close>

definition effective_account :: "'w hub \<Rightarrow> string \<Rightarrow> account_id option" where
  "effective_account h session =
     (case hb_session_accounts h session of Some a \<Rightarrow> Some a | None \<Rightarrow> hb_current h)"

definition core_db :: "'w hub \<Rightarrow> account_id option \<Rightarrow> (core_error, account_id \<times> 'w open_account) result" where
  "core_db h account =
     (case account of
        None \<Rightarrow> Err (core_error_new EkNotFound ''no account is open'')
      | Some a \<Rightarrow>
          (case hb_accounts h a of
             None \<Rightarrow> Err (core_error_new EkNotFound ''that account is not open'')
           | Some s \<Rightarrow> Ok (a, s)))"

definition set_account :: "account_id \<Rightarrow> 'w open_account \<Rightarrow> 'w hub \<Rightarrow> 'w hub" where
  "set_account a s h = h\<lparr>hb_accounts := (hb_accounts h)(a \<mapsto> s)\<rparr>"

definition set_mailbox :: "account_id \<Rightarrow> 'w open_account \<Rightarrow> 'w mailbox_state \<Rightarrow> 'w hub \<Rightarrow> 'w hub" where
  "set_mailbox a s mb h = set_account a (s\<lparr>ka_mailbox := mb\<rparr>) h"

definition is_archive :: "'w hub \<Rightarrow> account_id option \<Rightarrow> bool" where
  "is_archive h account = (case account of Some a \<Rightarrow> a \<in> hb_archives h | None \<Rightarrow> False)"

definition meta_of :: "'w hub \<Rightarrow> account_id option \<Rightarrow> agent_meta option" where
  "meta_of h account = Option.bind account (hb_agent_meta h)"

definition agent_sends_freely :: "'w hub \<Rightarrow> account_id option \<Rightarrow> bool" where
  "agent_sends_freely h account = (case meta_of h account of Some m \<Rightarrow> am_send_mode m = SendFreely | None \<Rightarrow> False)"

definition in_scope :: "'w hub \<Rightarrow> string \<Rightarrow> thread_id \<Rightarrow> bool" where
  "in_scope h session t = (case hb_sessions h session of Some s \<Rightarrow> scope_allows (sg_scope (ss_guard s)) t | None \<Rightarrow> False)"

definition update_session :: "string \<Rightarrow> (tool_session \<Rightarrow> tool_session) \<Rightarrow> 'w hub \<Rightarrow> 'w hub" where
  "update_session session f h =
     (case hb_sessions h session of
        None \<Rightarrow> h | Some s \<Rightarrow> h\<lparr>hb_sessions := (hb_sessions h)(session \<mapsto> f s)\<rparr>)"

definition emit :: "string \<Rightarrow> agent_event \<Rightarrow> 'w hub \<Rightarrow> 'w hub" where
  "emit session e h =
     (case hb_sessions h session of
        Some s \<Rightarrow> if ss_sink s then h\<lparr>hb_events := hb_events h @ [(session, e)]\<rparr> else h
      | None \<Rightarrow> h)"

section \<open>The audit log\<close>

text \<open>\<^verbatim>\<open>record_action\<close>: no row without an open store, for a session the store does not know, or for a read in the headless process.\<close>

definition record_action ::
    "'w hub \<Rightarrow> account_id option \<Rightarrow> string \<Rightarrow> tool \<Rightarrow> json \<Rightarrow> string \<Rightarrow> millis \<Rightarrow> 'w hub \<times> int option" where
  "record_action h account session t args state now =
     (if hb_headless h \<and> risk_of t = ReadOnly then (h, None)
      else case core_db h account of
             Inl e \<Rightarrow> (h, None)
           | Inr (a, s) \<Rightarrow>
               if session \<notin> set (ka_sessions s) then (h, None)
               else
                 let i = next_rowid ar_id (ka_actions s);
                     row = \<lparr>ar_id = i, ar_session = session, ar_tool = tool_name t, ar_args = json_text args,
                            ar_risk = risk_of t, ar_state = state, ar_summary = None, ar_created_at = now, ar_resolved_at = None\<rparr>
                 in (set_account a (s\<lparr>ka_actions := ka_actions s @ [row]\<rparr>) h, Some i))"

definition finish_action ::
    "account_id option \<Rightarrow> int option \<Rightarrow> string \<Rightarrow> string option \<Rightarrow> millis \<Rightarrow> 'w hub \<Rightarrow> 'w hub" where
  "finish_action account action state summary now h =
     (case (action, core_db h account) of
        (Some i, Inr (a, s)) \<Rightarrow>
          set_account a (s\<lparr>ka_actions := sql_update (\<lambda>r. ar_id r = i)
            (\<lambda>r. r\<lparr>ar_state := state, ar_summary := coalesce summary (ar_summary r), ar_resolved_at := Some now\<rparr>)
            (ka_actions s)\<rparr>) h
      | _ \<Rightarrow> h)"

definition list_actions :: "'w open_account \<Rightarrow> nat \<Rightarrow> action_row list" where
  "list_actions s limit = take limit (rev (sort_key ar_id (ka_actions s)))"

section \<open>Approvals\<close>

definition APPROVAL_TIMEOUT :: millis where "APPROVAL_TIMEOUT = 600000"

text \<open>Whether a draft of an account is frozen by a call that waits for the user.\<close>

definition is_frozen :: "'w hub \<Rightarrow> account_id option \<Rightarrow> int \<Rightarrow> bool" where
  "is_frozen h account d = list_ex (\<lambda>(_, p). pn_frozen_draft p = Some d \<and> pn_account p = account) (hb_pending h)"

text \<open>The user's answer arrives on the channels of the given tickets, whose entries are gone.\<close>

definition answer_tickets :: "int list \<Rightarrow> bool \<Rightarrow> 'w hub \<Rightarrow> 'w hub" where
  "answer_tickets ts approve h =
     h\<lparr>hb_pending := filter (\<lambda>(t, _). t \<notin> set ts) (hb_pending h),
       hb_parked := map (\<lambda>p. if pk_ticket p \<in> set ts \<and> pk_answer p = None then p\<lparr>pk_answer := Some approve\<rparr> else p) (hb_parked h)\<rparr>"

definition resolve_agent_action :: "'w hub \<Rightarrow> int \<Rightarrow> bool \<Rightarrow> (core_error, unit) result \<times> 'w hub" where
  "resolve_agent_action h ticket approve =
     (case map_of (hb_pending h) ticket of
        None \<Rightarrow> (Err (core_error_new EkNotFound ''that action is no longer waiting''), h)
      | Some p \<Rightarrow> (Ok (), answer_tickets [ticket] approve h))"

definition reject_session :: "string \<Rightarrow> 'w hub \<Rightarrow> 'w hub" where
  "reject_session session h =
     answer_tickets (map fst (filter (\<lambda>(_, p). pn_session p = session) (hb_pending h))) False h"

text \<open>
  Who asks, in front of the summary of an outside agent's proposal, with the start of the message:
  what is shown, not what is done. The text of the draft is a parameter.
\<close>

definition SESSION_PREFIX :: string where "SESSION_PREFIX = ''outside-''"

definition client_name :: "string \<Rightarrow> string" where
  "client_name label =
     (if label = ''claude-code'' \<or> label = ''claude'' then ''Claude Code''
      else if prefix ''codex'' label then ''Codex'' else label)"

definition outside_label :: "'w hub \<Rightarrow> string \<Rightarrow> string option" where
  "outside_label h session =
     (if \<not> prefix SESSION_PREFIX session then None
      else
        let rest = drop (length SESSION_PREFIX) session;
            label = (case split_once (CHR ''-'') (rev rest) of Some (a, b) \<Rightarrow> rev b | None \<Rightarrow> rest);
            address = map_option am_address (Option.bind (hb_session_accounts h session) (hb_agent_meta h))
        in Some (client_name label @ '' outside Kaluta'' @ (case address of Some x \<Rightarrow> '', as '' @ x | None \<Rightarrow> [])))"

definition shown_summary :: "(string \<Rightarrow> string) \<Rightarrow> 'w hub \<Rightarrow> string \<Rightarrow> account_id option \<Rightarrow> proposal \<Rightarrow> string" where
  "shown_summary html_to_text h session account p =
     (case outside_label h session of
        None \<Rightarrow> pp_summary p
      | Some who \<Rightarrow>
          let draft = (case (pp_draft_id p, core_db h account) of
                         (Some i, Inr (a, s)) \<Rightarrow> get_draft (mailbox_account (ka_mailbox s)) i
                       | _ \<Rightarrow> None)
          in who @ '': '' @ pp_summary p @
             (case draft of
                None \<Rightarrow> []
              | Some d \<Rightarrow> [CHR 0x0A, CHR 0x0A] @ fst (truncate_chars (trim (html_to_text (dr_body_html d))) 600)))"

text \<open>The first half of \<^verbatim>\<open>await_approval\<close>: the call is announced and parked.\<close>

definition park ::
    "(string \<Rightarrow> string) \<Rightarrow> 'w hub \<Rightarrow> string \<Rightarrow> account_id option \<Rightarrow> tool \<Rightarrow> json \<Rightarrow> proposal \<Rightarrow> int \<Rightarrow> 'w hub" where
  "park html_to_text h session account t args p action =
     (let summary = shown_summary html_to_text h session account p;
          ticket = hb_next_ticket h + 1;
          h1 = h\<lparr>hb_next_ticket := ticket,
                 hb_pending := hb_pending h @ [(ticket, \<lparr>pn_session = session, pn_account = account, pn_frozen_draft = pp_draft_id p\<rparr>)],
                 hb_parked := hb_parked h @ [\<lparr>pk_ticket = ticket, pk_session = session, pk_account = account, pk_tool = t,
                   pk_args = args, pk_proposal = p, pk_action = action, pk_answer = None\<rparr>]\<rparr>
      in emit session (ActionProposed ticket (tool_name t) summary (pp_draft_id p)) h1)"

text \<open>
  The second half, when the parked call runs on: with the answer that came, with none because the
  sender is gone, or because the time was up.
\<close>

datatype decision_received = Received bool | SenderGone | TimedOut

fun declined_outcome :: "decision_received \<Rightarrow> (string \<times> outcome) option" where
  "declined_outcome (Received True) = None"
| "declined_outcome (Received False) =
     Some (''rejected'', OutErr ''rejected_by_user'' ''The user declined this action.'')"
| "declined_outcome SenderGone =
     Some (''rejected'', OutErr ''rejected_by_user'' ''The user declined this action.'')"
| "declined_outcome TimedOut =
     Some (''expired'', OutErr ''approval_timeout'' ''The user did not answer within 10 minutes.'')"

definition unpark :: "parked \<Rightarrow> decision_received \<Rightarrow> millis \<Rightarrow> 'w hub \<Rightarrow> 'w hub" where
  "unpark p received now h =
     (let h1 = h\<lparr>hb_pending := filter (\<lambda>(t, _). t \<noteq> pk_ticket p) (hb_pending h),
                 hb_parked := filter (\<lambda>x. pk_ticket x \<noteq> pk_ticket p) (hb_parked h)\<rparr>;
          h2 = emit (pk_session p) (ActionResolved (pk_ticket p) (declined_outcome received = None)) h1
      in finish_action (pk_account p) (Some (pk_action p))
           (case declined_outcome received of None \<Rightarrow> ''approved'' | Some (state, _) \<Rightarrow> state) None now h2)"

end
