(* ===== verification/Tools.thy ===== *)
theory Tools
  imports Agents
begin

text \<open>
  The tools an agent may call, \<^verbatim>\<open>crates/kaluta-core/src/agents/tools.rs\<close>: the arguments each takes, what it
  reads and changes, and the way of a call through the session's hard limits, the policy and the
  approval to the tool.

  What other parts of the core give a tool is in \<open>agent_env\<close>: the search, the facts, the writing guide
  (its text for a draft, what a draft breaks of it, the record it keeps of what was written), the text
  of an attachment and its row id, the library that renders Markdown, and the error text of
  \<^verbatim>\<open>serde_json\<close>. The wait of thirty seconds for bodies is not modelled on its own: running out of it does
  what a failed download does. Typographic quotes in texts are written as plain ones.
\<close>

section \<open>The environment and small functions\<close>

record 'w agent_env =
  av_sync :: "account_id \<Rightarrow> 'w sync_env"
  av_compose :: compose_env
  av_markdown :: "string \<Rightarrow> string"
  av_html_to_text :: "string \<Rightarrow> string"
  av_serde_error :: "json \<Rightarrow> string"
  av_search :: "account_db \<Rightarrow> string \<Rightarrow> string option \<Rightarrow> nat \<Rightarrow> (core_error, thread_id list \<times> string option) result"
  av_facts :: "account_db \<Rightarrow> string option \<Rightarrow> string option \<Rightarrow> (core_error, json) result"
  av_guide_text :: "account_db \<Rightarrow> draft_record \<Rightarrow> string"
  av_guide_check :: "account_db \<Rightarrow> draft_record \<Rightarrow> string list"
  av_composed :: "account_db \<Rightarrow> int \<Rightarrow> string option \<Rightarrow> composition_row list"
  av_attachment_id :: "account_db \<Rightarrow> message_id \<Rightarrow> nat \<Rightarrow> string"
  av_attachment_message :: "account_db \<Rightarrow> int \<Rightarrow> message_id option"
  av_attachment_text :: "account_db \<Rightarrow> int \<Rightarrow> (outcome, outcome) result"
  av_label_numbers :: "nat \<Rightarrow> nat"

definition MAX_SEARCH :: nat where "MAX_SEARCH = 50"
definition MAX_BODY_CHARS :: nat where "MAX_BODY_CHARS = 20000"

definition norm_args :: "json \<Rightarrow> json" where
  "norm_args v = (if v = JNull then JObj [] else v)"

definition bad_args :: "'w agent_env \<Rightarrow> json \<Rightarrow> outcome" where
  "bad_args q v = OutErr ''invalid_arguments'' (av_serde_error q v)"

text \<open>\<^verbatim>\<open>args\<close>: the struct read from the arguments, or the error the agent sees.\<close>

definition parse_args :: "'w agent_env \<Rightarrow> (json \<Rightarrow> 'a option) \<Rightarrow> json \<Rightarrow> (outcome, 'a) result" where
  "parse_args q parse v = (case parse (norm_args v) of Some a \<Rightarrow> Ok a | None \<Rightarrow> Err (bad_args q v))"

definition failed :: "core_error \<Rightarrow> outcome" where
  "failed e = (case cr_kind e of
      EkNotFound \<Rightarrow> OutErr ''not_found'' (cr_message e)
    | EkInvalidInput \<Rightarrow> OutErr ''invalid_arguments'' (cr_message e)
    | _ \<Rightarrow> OutErr ''failed'' (cr_message e))"

definition thread_ids_of :: "tool \<Rightarrow> json \<Rightarrow> thread_id list" where
  "thread_ids_of t v =
     (if risk_of t = ReadOnly then []
      else case as_array (json_index v ''thread_ids'') of
             Some vs \<Rightarrow> List.map_filter as_str vs | None \<Rightarrow> [])"

fun deny_text :: "deny_reason \<Rightarrow> string" where
  "deny_text TooManyThreadsInCall = ''a single call may change at most '' @ show_nat MAX_THREADS_PER_CALL @ '' threads''"
| "deny_text SessionBulkCap =
     ''this session has changed '' @ show_nat MAX_THREADS_PER_SESSION @ '' threads; ask the user before changing more''"
| "deny_text RateLimitedCall = ''too many tool calls; at most '' @ show_nat MAX_CALLS_PER_MINUTE @ '' per minute''"
| "deny_text OutOfScope = ''this thread is outside what the user asked about''"
| "deny_text DraftNotFromSession = ''only drafts created in this session can be sent''"
| "deny_text MissingDraft = ''a draft id is required''"

text \<open>Work on the mailbox of the account a call acts on.\<close>

definition on_mailbox ::
    "account_id option \<Rightarrow> (account_id \<Rightarrow> 'w mailbox_state \<Rightarrow> (outcome, 'a) result \<times> 'w mailbox_state) \<Rightarrow>
       'w hub \<Rightarrow> (outcome, 'a) result \<times> 'w hub" where
  "on_mailbox account f h =
     (case core_db h account of
        Inl e \<Rightarrow> (Err (failed e), h)
      | Inr (a, s) \<Rightarrow> (let (r, mb) = f a (ka_mailbox s) in (r, set_mailbox a s mb h)))"

definition read_then ::
    "(outcome, 'a) result \<Rightarrow> ('a \<Rightarrow> 'w hub \<Rightarrow> (outcome, 'b) result \<times> 'w hub) \<Rightarrow> 'w hub \<Rightarrow> (outcome, 'b) result \<times> 'w hub" where
  "read_then r k h = (case r of Inl e \<Rightarrow> (Err e, h) | Inr x \<Rightarrow> k x h)"

section \<open>Addresses\<close>

definition rfind :: "char \<Rightarrow> string \<Rightarrow> nat option" where
  "rfind c s = (if c \<in> set s then Some (length s - Suc (length (takeWhile (\<lambda>x. x \<noteq> c) (rev s)))) else None)"

definition parse_address :: "string \<Rightarrow> (outcome, email_address) result" where
  "parse_address text =
     (let t = trim text;
          a = (case (rfind (CHR ''<'') t, rfind (CHR ''>'') t) of
                 (Some i, Some j) \<Rightarrow>
                   if i < j then
                     let name = trim (trim_matches (CHR 0x22) (trim (take i t)))
                     in \<lparr>ea_name = (if name = [] then None else Some name), ea_email = trim (drop (i + 1) (take j t))\<rparr>
                   else \<lparr>ea_name = None, ea_email = t\<rparr>
               | _ \<Rightarrow> \<lparr>ea_name = None, ea_email = t\<rparr>)
      in if valid_email (ea_email a) then Ok a
         else Err (OutErr ''invalid_arguments'' (debug_string text @ '' is not an email address'')))"

fun parse_addresses :: "string list \<Rightarrow> (outcome, email_address list) result" where
  "parse_addresses [] = Ok []"
| "parse_addresses (t # ts) =
     (case parse_address t of
        Inl e \<Rightarrow> Err e
      | Inr a \<Rightarrow> (case parse_addresses ts of Inl e \<Rightarrow> Err e | Inr as \<Rightarrow> Ok (a # as)))"

definition addresses :: "string list option \<Rightarrow> (outcome, email_address list option) result" where
  "addresses l = (case l of None \<Rightarrow> Ok None | Some ts \<Rightarrow> map_sum id Some (parse_addresses ts))"

definition address_text :: "email_address \<Rightarrow> string" where
  "address_text a =
     (case ea_name a of
        Some n \<Rightarrow> if n \<noteq> [] then n @ '' <'' @ ea_email a @ ''>'' else ea_email a
      | None \<Rightarrow> ea_email a)"

section \<open>What the user reads before approving\<close>

definition plural :: "nat \<Rightarrow> string \<Rightarrow> string" where
  "plural n one = show_nat n @ '' '' @ one @ (if n = 1 then [] else ''s'')"

definition recipients_text :: "draft_record \<Rightarrow> string" where
  "recipients_text d =
     (let all = map ea_email (draft_recipients d)
      in if all = [] then ''no recipients'' else join_with '', '' all)"

definition GUIDE_BREACH :: string where
  "GUIDE_BREACH = '' '' @ [CHR 0xB7] @ '' Breaks your writing guide: ''"

definition guide_warning :: "'w agent_env \<Rightarrow> account_db \<Rightarrow> draft_record \<Rightarrow> string" where
  "guide_warning q a d =
     (let failures = av_guide_check q a d
      in if failures = [] then [] else GUIDE_BREACH @ join_with ''; '' failures)"

definition send_summary :: "'w agent_env \<Rightarrow> account_db \<Rightarrow> draft_record \<Rightarrow> string" where
  "send_summary q a d =
     ''Send \"'' @ dr_subject d @ ''\" to '' @ recipients_text d @ guide_warning q a d"

section \<open>Argument structs\<close>

definition threads_args :: "json \<Rightarrow> thread_id list option" where
  "threads_args v =
     Option.bind (struct_fields [''thread_ids''] [] v) (\<lambda>m. required m ''thread_ids'' decode_string_list)"

definition label_args :: "json \<Rightarrow> (thread_id list \<times> string) option" where
  "label_args v =
     Option.bind (struct_fields [''thread_ids'', ''label''] [] v) (\<lambda>m.
       case (required m ''thread_ids'' decode_string_list, required m ''label'' decode_string) of
         (Some ts, Some l) \<Rightarrow> Some (ts, l) | _ \<Rightarrow> None)"

definition create_label_args :: "json \<Rightarrow> (string \<times> string option) option" where
  "create_label_args v =
     Option.bind (struct_fields [''name'', ''color''] [] v) (\<lambda>m.
       case (required m ''name'' decode_string, optional m ''color'' decode_string) of
         (Some n, Some c) \<Rightarrow> Some (n, c) | _ \<Rightarrow> None)"

definition present_args :: "json \<Rightarrow> (thread_id list \<times> string option) option" where
  "present_args v =
     Option.bind (struct_fields [''thread_ids'', ''title''] [''title''] v) (\<lambda>m.
       case (required m ''thread_ids'' decode_string_list, optional m ''title'' decode_string) of
         (Some ts, Some t) \<Rightarrow> Some (ts, t) | _ \<Rightarrow> None)"

record create_draft_args =
  cd_reply_to :: "string option"
  cd_reply_all :: bool
  cd_to :: "string list option"
  cd_cc :: "string list option"
  cd_subject :: "string option"
  cd_body :: string

definition create_draft_args :: "json \<Rightarrow> create_draft_args option" where
  "create_draft_args v =
     Option.bind (struct_fields [''reply_to_message_id'', ''reply_all'', ''to'', ''cc'', ''subject'', ''body_markdown'']
       [''reply_all''] v) (\<lambda>m.
       case (optional m ''reply_to_message_id'' decode_string, defaulted m ''reply_all'' False decode_bool,
             optional m ''to'' decode_string_list, optional m ''cc'' decode_string_list,
             optional m ''subject'' decode_string, required m ''body_markdown'' decode_string) of
         (Some r, Some all, Some to, Some cc, Some s, Some b) \<Rightarrow>
           Some \<lparr>cd_reply_to = r, cd_reply_all = all, cd_to = to, cd_cc = cc, cd_subject = s, cd_body = b\<rparr>
       | _ \<Rightarrow> None)"

record update_draft_args =
  ud_draft_id :: int
  ud_to :: "string list option"
  ud_cc :: "string list option"
  ud_subject :: "string option"
  ud_body :: "string option"

definition update_draft_args :: "json \<Rightarrow> update_draft_args option" where
  "update_draft_args v =
     Option.bind (struct_fields [''draft_id'', ''to'', ''cc'', ''subject'', ''body_markdown''] [] v) (\<lambda>m.
       case (required m ''draft_id'' as_i64, optional m ''to'' decode_string_list, optional m ''cc'' decode_string_list,
             optional m ''subject'' decode_string, optional m ''body_markdown'' decode_string) of
         (Some i, Some to, Some cc, Some s, Some b) \<Rightarrow>
           Some \<lparr>ud_draft_id = i, ud_to = to, ud_cc = cc, ud_subject = s, ud_body = b\<rparr>
       | _ \<Rightarrow> None)"

definition forward_args :: "json \<Rightarrow> (message_id \<times> string list \<times> string option) option" where
  "forward_args v =
     Option.bind (struct_fields [''message_id'', ''to'', ''note_markdown''] [] v) (\<lambda>m.
       case (required m ''message_id'' decode_string, required m ''to'' decode_string_list,
             optional m ''note_markdown'' decode_string) of
         (Some g, Some to, Some n) \<Rightarrow> Some (g, to, n) | _ \<Rightarrow> None)"

definition search_args :: "json \<Rightarrow> (string \<times> nat option \<times> string option) option" where
  "search_args v =
     Option.bind (struct_fields [''query'', ''limit'', ''cursor''] [] v) (\<lambda>m.
       case (required m ''query'' decode_string, optional m ''limit'' decode_u32, optional m ''cursor'' decode_string) of
         (Some s, Some n, Some c) \<Rightarrow> Some (s, n, c) | _ \<Rightarrow> None)"

definition message_args :: "json \<Rightarrow> (message_id \<times> bool) option" where
  "message_args v =
     Option.bind (struct_fields [''message_id'', ''include_quoted''] [''include_quoted''] v) (\<lambda>m.
       case (required m ''message_id'' decode_string, defaulted m ''include_quoted'' False decode_bool) of
         (Some g, Some b) \<Rightarrow> Some (g, b) | _ \<Rightarrow> None)"

definition thread_args :: "json \<Rightarrow> thread_id option" where
  "thread_args v = Option.bind (struct_fields [''thread_id''] [] v) (\<lambda>m. required m ''thread_id'' decode_string)"

definition attachment_args :: "json \<Rightarrow> (message_id \<times> string) option" where
  "attachment_args v =
     Option.bind (struct_fields [''message_id'', ''attachment_id''] [] v) (\<lambda>m.
       case (required m ''message_id'' decode_string, required m ''attachment_id'' decode_string) of
         (Some g, Some a) \<Rightarrow> Some (g, a) | _ \<Rightarrow> None)"

definition facts_args :: "json \<Rightarrow> (string option \<times> string option) option" where
  "facts_args v =
     Option.bind (struct_fields [''category'', ''query''] [] v) (\<lambda>m.
       case (optional m ''category'' decode_string, optional m ''query'' decode_string) of
         (Some c, Some s) \<Rightarrow> Some (c, s) | _ \<Rightarrow> None)"

section \<open>Reading the mailbox\<close>

abbreviation mail_of :: "'w mailbox_state \<Rightarrow> mail_store" where
  "mail_of mb \<equiv> db_mail (mailbox_account mb)"

definition label_names :: "mail_store \<Rightarrow> string \<rightharpoonup> string" where
  "label_names db = map_of (map (\<lambda>l. (lb_id l, lb_name l)) (list_labels db))"

definition labels_json :: "label_id list \<Rightarrow> (string \<rightharpoonup> string) \<Rightarrow> json" where
  "labels_json ls names = JArr (map (\<lambda>l. JStr (case names l of Some n \<Rightarrow> n | None \<Rightarrow> l)) ls)"

definition addresses_json :: "email_address list \<Rightarrow> json" where
  "addresses_json as = JArr (map (\<lambda>a. JStr (address_text a)) as)"

definition thread_json :: "thread_summary \<Rightarrow> (string \<rightharpoonup> string) \<Rightarrow> json" where
  "thread_json t names = json_object
     [(''thread_id'', JStr (ts_id t)), (''subject'', JStr (ts_subject t)),
      (''participants'', addresses_json (ts_participants t)), (''date'', JStr (iso8601_utc (ts_last_message_at t))),
      (''snippet'', JStr (ts_snippet t)), (''labels'', labels_json (ts_label_ids t) names),
      (''unread'', JBool (0 < ts_unread_count t)), (''messages'', JInt (int (ts_message_count t))),
      (''has_attachments'', JBool (ts_has_attachments t))]"

text \<open>Only threads of the session's scope are shown.\<close>

definition tool_search :: "'w agent_env \<Rightarrow> account_id option \<Rightarrow> string \<Rightarrow> json \<Rightarrow> 'w hub \<Rightarrow> (outcome, outcome) result \<times> 'w hub" where
  "tool_search q account session v h =
     read_then (parse_args q search_args v) (\<lambda>(text, limit, cursor) h.
       let query = (if trim text = [] then ''in:inbox'' else text);
           n = max 1 (min MAX_SEARCH (case limit of Some l \<Rightarrow> l | None \<Rightarrow> 20))
       in on_mailbox account (\<lambda>a mb.
            (case av_search q (mailbox_account mb) query cursor n of
               Inl e \<Rightarrow> (Err (failed e), mb)
             | Inr (found, next_cursor) \<Rightarrow>
                 let names = label_names (mail_of mb);
                     shown = List.map_filter (get_thread_summary (mail_of mb)) (filter (in_scope h session) found)
                 in (Ok (out_json (json_object [(''threads'', JArr (map (\<lambda>t. thread_json t names) shown)),
                       (''next_cursor'', json_opt JStr next_cursor)])), mb))) h) h"

definition attachment_json :: "'w agent_env \<Rightarrow> account_db \<Rightarrow> message_id \<Rightarrow> nat \<Rightarrow> incoming_attachment \<Rightarrow> json" where
  "attachment_json q a g i f = json_object
     [(''attachment_id'', JStr (av_attachment_id q a g i)), (''filename'', JStr (at_filename f)),
      (''mime_type'', JStr (at_mime_type f)), (''size'', JInt (int (at_size f)))]"

definition message_fields :: "'w agent_env \<Rightarrow> account_db \<Rightarrow> message \<Rightarrow> string option \<Rightarrow> bool \<Rightarrow> (string \<times> json) list" where
  "message_fields q a m text include_quoted =
     (let shown = map_option (\<lambda>b. truncate_chars (if include_quoted then b else strip_quoted b) MAX_BODY_CHARS) text
      in [(''message_id'', JStr (ms_id m)), (''from'', json_opt (\<lambda>f. JStr (address_text f)) (ms_from m)),
          (''to'', addresses_json (ms_to m)), (''cc'', addresses_json (ms_cc m)), (''date'', JStr (iso8601_utc (ms_date m))),
          (''subject'', JStr (ms_subject m)), (''unread'', JBool (\<not> ms_is_read m)), (''sent_by_me'', JBool (ms_is_sent_by_me m)),
          (''body'', json_opt (\<lambda>(t, _). JStr t) shown), (''body_available'', JBool (text \<noteq> None)),
          (''truncated'', JBool (case shown of Some (_, c) \<Rightarrow> c | None \<Rightarrow> False)),
          (''attachments'', JArr (map (\<lambda>(i, f). attachment_json q a (ms_id m) i f)
             (filter (\<lambda>(i, f). \<not> at_is_inline f) (enumerate 0 (ms_attachments m)))))])"

text \<open>Bodies are downloaded before they are read; when that fails they are fetched first later.\<close>

definition with_bodies :: "'w sync_env \<Rightarrow> message_id list \<Rightarrow> 'w mailbox_state \<Rightarrow> 'w mailbox_state" where
  "with_bodies q wanted mb =
     (case mb of
        Unserved d \<Rightarrow> Unserved d
      | Served e \<Rightarrow>
          (case ensure_bodies q wanted e of
             (Inr _, e1) \<Rightarrow> Served e1
           | (Inl _, e1) \<Rightarrow> Served (prioritize wanted e1)))"

definition body_text :: "mail_store \<Rightarrow> message_id \<Rightarrow> string option" where
  "body_text db g = Option.bind (get_body db g) bd_text_plain"

definition not_found :: "string \<Rightarrow> outcome" where
  "not_found m = OutErr ''not_found'' m"

definition tool_get_thread :: "'w agent_env \<Rightarrow> account_id option \<Rightarrow> string \<Rightarrow> json \<Rightarrow> 'w hub \<Rightarrow> (outcome, outcome) result \<times> 'w hub" where
  "tool_get_thread q account session v h =
     read_then (parse_args q thread_args v) (\<lambda>t h.
       if \<not> in_scope h session t then (Err (not_found ''no such thread''), h)
       else on_mailbox account (\<lambda>a mb.
         (case get_thread (mail_of mb) t of
            None \<Rightarrow> (Err (not_found ''no such thread''), mb)
          | Some (_, ms) \<Rightarrow>
              let header_only = map ms_id (filter (\<lambda>m. ms_body_state m \<noteq> Full) ms);
                  mb1 = (if header_only = [] then mb else with_bodies (av_sync q a) header_only mb)
              in (case (get_thread (mail_of mb1) t, get_thread_summary (mail_of mb1) t) of
                    (Some (_, ms1), Some s) \<Rightarrow>
                      (Ok (out_json (json_object
                         [(''thread_id'', JStr (ts_id s)), (''subject'', JStr (ts_subject s)),
                          (''labels'', labels_json (ts_label_ids s) (label_names (mail_of mb1))),
                          (''messages'', JArr (map (\<lambda>m. json_object
                             (message_fields q (mailbox_account mb1) m (body_text (mail_of mb1) (ms_id m)) False)) ms1))])), mb1)
                  | _ \<Rightarrow> (Err (not_found ''no such thread''), mb1)))) h) h"

definition tool_get_message :: "'w agent_env \<Rightarrow> account_id option \<Rightarrow> string \<Rightarrow> json \<Rightarrow> 'w hub \<Rightarrow> (outcome, outcome) result \<times> 'w hub" where
  "tool_get_message q account session v h =
     read_then (parse_args q message_args v) (\<lambda>(g, include_quoted) h.
       on_mailbox account (\<lambda>a mb.
         (case get_message (mail_of mb) g of
            None \<Rightarrow> (Err (not_found ''no such message''), mb)
          | Some m \<Rightarrow>
              if \<not> in_scope h session (ms_thread_id m) then (Err (not_found ''no such message''), mb)
              else
                let mb1 = (if ms_body_state m = Full then mb else with_bodies (av_sync q a) [g] mb)
                in (case get_message (mail_of mb1) g of
                      None \<Rightarrow> (Err (not_found ''no such message''), mb1)
                    | Some m1 \<Rightarrow>
                        (Ok (out_json (json_object (message_fields q (mailbox_account mb1) m1 (body_text (mail_of mb1) g) include_quoted @
                           [(''thread_id'', JStr (ms_thread_id m1))]))), mb1)))) h) h"

definition tool_list_labels :: "account_id option \<Rightarrow> 'w hub \<Rightarrow> (outcome, outcome) result \<times> 'w hub" where
  "tool_list_labels account h =
     on_mailbox account (\<lambda>a mb.
       (Ok (out_json (json_object [(''labels'', JArr (map (\<lambda>m. json_object
          [(''label_id'', json_opt JStr (mb_label_id m)), (''name'', JStr (mb_name m)), (''system'', JBool (mb_kind m \<noteq> MkLabel)),
           (''unread'', JInt (int (mb_unread_count m))), (''total'', JInt (int (mb_total_count m)))])
          (filter (\<lambda>m. mb_label_id m \<noteq> None) (list_mailboxes (mail_of mb)))))])), mb)) h"

text \<open>An attachment must belong to the message that is named, and that message to the scope.\<close>

definition tool_attachment_text ::
    "'w agent_env \<Rightarrow> account_id option \<Rightarrow> string \<Rightarrow> json \<Rightarrow> 'w hub \<Rightarrow> (outcome, outcome) result \<times> 'w hub" where
  "tool_attachment_text q account session v h =
     (let missing = not_found ''no such attachment on that message'' in
      read_then (parse_args q attachment_args v) (\<lambda>(g, text) h.
        case parse_i64 text of
          None \<Rightarrow> (Err missing, h)
        | Some row \<Rightarrow>
            on_mailbox account (\<lambda>a mb.
              let mb1 = (case get_message (mail_of mb) g of
                           Some m \<Rightarrow>
                             if ms_body_state m \<noteq> Full \<and> in_scope h session (ms_thread_id m)
                             then with_bodies (av_sync q a) [g] mb else mb
                         | None \<Rightarrow> mb);
                  db = mailbox_account mb1
              in (if av_attachment_message q db row \<noteq> Some g then (Err missing, mb1)
                  else case get_message (db_mail db) g of
                         None \<Rightarrow> (Err missing, mb1)
                       | Some m \<Rightarrow>
                           if \<not> in_scope h session (ms_thread_id m) then (Err missing, mb1)
                           else (av_attachment_text q db row, mb1))) h) h)"

definition tool_present_threads :: "'w agent_env \<Rightarrow> string \<Rightarrow> json \<Rightarrow> 'w hub \<Rightarrow> (outcome, outcome) result \<times> 'w hub" where
  "tool_present_threads q session v h =
     read_then (parse_args q present_args v) (\<lambda>(ids, title) h.
       let shown = filter (in_scope h session) ids;
           name = (case map_option trim title of Some t \<Rightarrow> if t = [] then None else Some t | None \<Rightarrow> None)
       in (Ok (out_json (json_object [(''shown'', JInt (int (length shown)))])),
           emit session (ResultsAvailable shown name) h)) h"

definition tool_facts_lookup :: "'w agent_env \<Rightarrow> account_id option \<Rightarrow> json \<Rightarrow> 'w hub \<Rightarrow> (outcome, outcome) result \<times> 'w hub" where
  "tool_facts_lookup q account v h =
     read_then (parse_args q facts_args v) (\<lambda>(category, query) h.
       on_mailbox account (\<lambda>a mb. (map_sum failed out_json (av_facts q (mailbox_account mb) category query), mb)) h) h"


end
