(* ===== verification/Calls.thy ===== *)
theory Calls
  imports Tools
begin

text \<open>
  The tools that change something, and the way of a call: \<^verbatim>\<open>call\<close>, \<^verbatim>\<open>run\<close>, \<^verbatim>\<open>prepare\<close>, \<^verbatim>\<open>approve_then_run\<close> and
  \<^verbatim>\<open>send_freely\<close> of \<^verbatim>\<open>crates/kaluta-core/src/agents/tools.rs\<close>. A call ends with an answer or is parked; a
  parked call runs on with \<open>resume\<close>. The guide version that a draft records is not part of the store here.
\<close>

section \<open>Drafts\<close>

text \<open>The time and the random tokens a call gets.\<close>

record moment =
  mo_now :: millis
  mo_rfc_token :: string
  mo_token :: string

definition emails_json :: "email_address list \<Rightarrow> json" where
  "emails_json as = JArr (map (\<lambda>a. JStr (ea_email a)) as)"

definition draft_fields :: "draft_record \<Rightarrow> (string \<times> json) list" where
  "draft_fields d =
     [(''draft_id'', JInt (dr_id d)), (''subject'', JStr (dr_subject d)), (''to'', emails_json (dr_to d)),
      (''cc'', emails_json (dr_cc d)), (''reply_to_message_id'', json_opt JStr (dr_in_reply_to d))]"

definition draft_with_guide :: "'w agent_env \<Rightarrow> account_db \<Rightarrow> draft_record \<Rightarrow> json" where
  "draft_with_guide q a d =
     (let guide = av_guide_text q a d; failures = av_guide_check q a d
      in json_object (draft_fields d @
           (if guide = [] then []
            else (''writing_guide'', JStr guide) #
                 (if failures = [] then [] else [(''guide_check'', JArr (map JStr failures))]))))"

text \<open>What the agent wrote is kept for the daily review; \<^term>\<open>None\<close> when only the recipients or the subject changed.\<close>

definition record_body :: "'w agent_env \<Rightarrow> int \<Rightarrow> string option \<Rightarrow> 'w mailbox_state \<Rightarrow> 'w mailbox_state" where
  "record_body q i html mb =
     with_account ((mailbox_account mb)\<lparr>db_compositions := av_composed q (mailbox_account mb) i html\<rparr>) mb"

definition addressed :: "email_address list option \<Rightarrow> email_address list option \<Rightarrow> string option \<Rightarrow> draft_record \<Rightarrow> draft_record" where
  "addressed to cc subject d =
     (let d1 = (case to of Some as \<Rightarrow> d\<lparr>dr_to := as\<rparr> | None \<Rightarrow> d);
          d2 = (case cc of Some as \<Rightarrow> d1\<lparr>dr_cc := as\<rparr> | None \<Rightarrow> d1)
      in (case subject of Some s \<Rightarrow> d2\<lparr>dr_subject := s\<rparr> | None \<Rightarrow> d2))"

text \<open>The draft a new draft starts from: empty, or the reply to a message of the scope.\<close>

definition starting_draft ::
    "'w agent_env \<Rightarrow> account_id option \<Rightarrow> string \<Rightarrow> create_draft_args \<Rightarrow> 'w hub \<Rightarrow> (outcome, draft_record) result \<times> 'w hub" where
  "starting_draft q account session a h =
     (case cd_reply_to a of
        None \<Rightarrow> (Ok default_draft, h)
      | Some g \<Rightarrow>
          on_mailbox account (\<lambda>i mb.
            (case get_message (mail_of mb) g of
               None \<Rightarrow> (Err (not_found ''no such message''), mb)
             | Some m \<Rightarrow>
                 if \<not> in_scope h session (ms_thread_id m) then (Err (not_found ''no such message''), mb)
                 else (let (r, mb1) = core_reply_draft (av_sync q i) (is_archive h account) g (cd_reply_all a) mb
                       in (map_sum failed id r, mb1)))) h)"

text \<open>The draft is saved, and what the agent wrote recorded; the answer holds the draft and its guide.\<close>

definition save_tool_draft ::
    "'w agent_env \<Rightarrow> account_id option \<Rightarrow> draft_record \<Rightarrow> string option \<Rightarrow> moment \<Rightarrow> 'w hub \<Rightarrow>
       (outcome, int \<times> outcome) result \<times> 'w hub" where
  "save_tool_draft q account d html k h =
     on_mailbox account (\<lambda>_ mb.
       (case core_save_draft (is_archive h account) d (mo_now k) mb of
          (Inl e, mb1) \<Rightarrow> (Err (failed e), mb1)
        | (Inr i, mb1) \<Rightarrow>
            (Ok (i, out_json (draft_with_guide q (mailbox_account mb1) (d\<lparr>dr_id := i\<rparr>))), record_body q i html mb1))) h"

text \<open>The session that created a draft may change and send it.\<close>

definition own_draft :: "string \<Rightarrow> int \<Rightarrow> string \<Rightarrow> 'w hub \<Rightarrow> 'w hub" where
  "own_draft session i quote =
     update_session session (\<lambda>s. s\<lparr>ss_guard := allow_draft (ss_guard s) i, ss_draft_quotes := (ss_draft_quotes s)(i \<mapsto> quote)\<rparr>)"

definition save_created ::
    "'w agent_env \<Rightarrow> account_id option \<Rightarrow> string \<Rightarrow> draft_record \<Rightarrow> moment \<Rightarrow> 'w hub \<Rightarrow> (outcome, outcome) result \<times> 'w hub" where
  "save_created q account session d k h =
     (case save_tool_draft q account d (Some (dr_body_html d)) k h of
        (Inl e, h1) \<Rightarrow> (Err e, h1)
      | (Inr (i, out), h1) \<Rightarrow> (Ok out, own_draft session i (dr_quoted_html d) h1))"

definition tool_create_draft ::
    "'w agent_env \<Rightarrow> account_id option \<Rightarrow> string \<Rightarrow> json \<Rightarrow> moment \<Rightarrow> 'w hub \<Rightarrow> (outcome, outcome) result \<times> 'w hub" where
  "tool_create_draft q account session v k h =
     read_then (parse_args q create_draft_args v) (\<lambda>a h.
       let (r, h1) = starting_draft q account session a h
       in read_then r (\<lambda>start.
            read_then (addresses (cd_to a)) (\<lambda>to.
              read_then (addresses (cd_cc a)) (\<lambda>cc.
                save_created q account session
                  ((addressed to cc (cd_subject a) start)\<lparr>dr_body_html := av_markdown q (cd_body a)\<rparr>) k))) h1) h"

definition DRAFT_NOT_YOURS :: outcome where
  "DRAFT_NOT_YOURS = OutErr ''denied'' ''only drafts created in this conversation can be changed''"

definition DRAFT_IN_REVIEW :: outcome where
  "DRAFT_IN_REVIEW = OutErr ''denied'' ''the user is reviewing this draft; wait for their answer''"

definition own_quote :: "'w hub \<Rightarrow> string \<Rightarrow> int \<Rightarrow> string option" where
  "own_quote h session i =
     (case hb_sessions h session of
        Some s \<Rightarrow>
          if owns_draft (ss_guard s) i then Some (case ss_draft_quotes s i of Some t \<Rightarrow> t | None \<Rightarrow> []) else None
      | None \<Rightarrow> None)"

definition stored_draft :: "account_id option \<Rightarrow> int \<Rightarrow> 'w hub \<Rightarrow> (outcome, draft_record) result" where
  "stored_draft account i h =
     (case core_db h account of
        Inl e \<Rightarrow> Err (failed e)
      | Inr (a, s) \<Rightarrow>
          (case get_draft (mailbox_account (ka_mailbox s)) i of
             None \<Rightarrow> Err (not_found ''that draft no longer exists'')
           | Some d \<Rightarrow> Ok d))"

definition tool_update_draft ::
    "'w agent_env \<Rightarrow> account_id option \<Rightarrow> string \<Rightarrow> json \<Rightarrow> moment \<Rightarrow> 'w hub \<Rightarrow> (outcome, outcome) result \<times> 'w hub" where
  "tool_update_draft q account session v k h =
     read_then (parse_args q update_draft_args v) (\<lambda>a h.
       case own_quote h session (ud_draft_id a) of
         None \<Rightarrow> (Err DRAFT_NOT_YOURS, h)
       | Some quote \<Rightarrow>
           if is_frozen h account (ud_draft_id a) then (Err DRAFT_IN_REVIEW, h)
           else read_then (stored_draft account (ud_draft_id a) h) (\<lambda>stored.
             read_then (addresses (ud_to a)) (\<lambda>to.
               read_then (addresses (ud_cc a)) (\<lambda>cc h1.
                 let html = map_option (av_markdown q) (ud_body a);
                     d = addressed to cc (ud_subject a) stored;
                     d1 = (case html of Some b \<Rightarrow> d\<lparr>dr_body_html := b, dr_quoted_html := quote\<rparr> | None \<Rightarrow> d);
                     (r, h2) = save_tool_draft q account d1 html k h1
                 in (map_sum id snd r, h2)))) h) h"

section \<open>Changing threads and labels\<close>

definition change_threads ::
    "'w agent_env \<Rightarrow> account_id option \<Rightarrow> (thread_id list \<Rightarrow> local_change) \<Rightarrow> string \<Rightarrow> json \<Rightarrow> moment \<Rightarrow> 'w hub \<Rightarrow>
       (outcome, outcome) result \<times> 'w hub" where
  "change_threads q account change key v k h =
     read_then (parse_args q threads_args v) (\<lambda>ids h.
       on_mailbox account (\<lambda>a mb.
         (case mutate_unrecorded (av_sync q a) (change ids) (mo_now k) mb of
            (Inl e, mb1) \<Rightarrow> (Err (failed e), mb1)
          | (Inr _, mb1) \<Rightarrow> (Ok (out_json (json_object [(key, JInt (int (length ids)))])), mb1))) h) h"

text \<open>A label is found by its id, else by its name; only a user label can be set.\<close>

definition wanted_label :: "mail_store \<Rightarrow> string \<Rightarrow> (outcome, label) result" where
  "wanted_label db text =
     (let wanted = trim text; ls = list_labels db
      in if list_ex (\<lambda>s. eq_nocase s wanted) system_names
         then Err (OutErr ''invalid_arguments'' (wanted @ '' is a system label; only user labels can be set here''))
         else
           (case (case List.find (\<lambda>l. lb_id l = wanted) ls of
                    Some l \<Rightarrow> Some l | None \<Rightarrow> List.find (\<lambda>l. eq_nocase (lb_name l) wanted) ls) of
              None \<Rightarrow> Err (not_found (''there is no label '' @ debug_string wanted @ ''; create it with mail_create_label''))
            | Some l \<Rightarrow>
                if lb_kind l \<noteq> UserLabel
                then Err (OutErr ''invalid_arguments'' (lb_name l @ '' is a system label; only user labels can be set here''))
                else Ok l))"

definition label_threads ::
    "'w agent_env \<Rightarrow> account_id option \<Rightarrow> bool \<Rightarrow> json \<Rightarrow> moment \<Rightarrow> 'w hub \<Rightarrow> (outcome, outcome) result \<times> 'w hub" where
  "label_threads q account add v k h =
     read_then (parse_args q label_args v) (\<lambda>(ids, text) h.
       on_mailbox account (\<lambda>a mb.
         (case wanted_label (mail_of mb) text of
            Inl e \<Rightarrow> (Err e, mb)
          | Inr l \<Rightarrow>
              let change = (if add then ChangeLabels ids [lb_id l] [] else ChangeLabels ids [] [lb_id l])
              in (case mutate_unrecorded (av_sync q a) change (mo_now k) mb of
                    (Inl e, mb1) \<Rightarrow> (Err (failed e), mb1)
                  | (Inr _, mb1) \<Rightarrow>
                      (Ok (out_json (json_object [(''label'', JStr (lb_name l)),
                         (if add then ''labeled'' else ''unlabeled'', JInt (int (length ids)))])), mb1)))) h) h"

definition color_ok :: "string \<Rightarrow> bool" where
  "color_ok c \<longleftrightarrow> utf8_len c = 7 \<and> prefix ''#'' c \<and> list_all (\<lambda>x. hex_value x \<noteq> None) (drop 1 c)"

definition tool_create_label ::
    "'w agent_env \<Rightarrow> account_id option \<Rightarrow> json \<Rightarrow> moment \<Rightarrow> 'w hub \<Rightarrow> (outcome, outcome) result \<times> 'w hub" where
  "tool_create_label q account v k h =
     read_then (parse_args q create_label_args v) (\<lambda>(name, color) h.
       if (case color of Some c \<Rightarrow> \<not> color_ok c | None \<Rightarrow> False)
       then (Err (OutErr ''invalid_arguments'' ''color must look like #rrggbb''), h)
       else on_mailbox account (\<lambda>a mb.
         (case core_create_label (av_sync q a) name color (mo_now k) (av_label_numbers q) mb of
            (Inl e, mb1) \<Rightarrow> (Err (failed e), mb1)
          | (Inr l, mb1) \<Rightarrow> (Ok (out_json (json_object [(''label_id'', JStr (lb_id l)), (''name'', JStr (lb_name l))])), mb1))) h) h"

section \<open>Running a tool\<close>

fun run_tool ::
    "'w agent_env \<Rightarrow> account_id option \<Rightarrow> string \<Rightarrow> tool \<Rightarrow> json \<Rightarrow> moment \<Rightarrow> 'w hub \<Rightarrow> (outcome, outcome) result \<times> 'w hub" where
  "run_tool q account session Search v k h = tool_search q account session v h"
| "run_tool q account session GetThread v k h = tool_get_thread q account session v h"
| "run_tool q account session GetMessage v k h = tool_get_message q account session v h"
| "run_tool q account session ListLabels v k h = tool_list_labels account h"
| "run_tool q account session GetAttachmentText v k h = tool_attachment_text q account session v h"
| "run_tool q account session PresentThreads v k h = tool_present_threads q session v h"
| "run_tool q account session FactsLookup v k h = tool_facts_lookup q account v h"
| "run_tool q account session CreateDraft v k h = tool_create_draft q account session v k h"
| "run_tool q account session UpdateDraft v k h = tool_update_draft q account session v k h"
| "run_tool q account session Archive v k h = change_threads q account archive ''archived'' v k h"
| "run_tool q account session MarkRead v k h = change_threads q account (\<lambda>ts. set_read ts True) ''marked_read'' v k h"
| "run_tool q account session MarkUnread v k h = change_threads q account (\<lambda>ts. set_read ts False) ''marked_unread'' v k h"
| "run_tool q account session AddLabel v k h = label_threads q account True v k h"
| "run_tool q account session RemoveLabel v k h = label_threads q account False v k h"
| "run_tool q account session CreateLabel v k h = tool_create_label q account v k h"
| "run_tool q account session Send v k h = (Err (OutErr ''failed'' ''external actions run only after approval''), h)"
| "run_tool q account session Forward v k h = (Err (OutErr ''failed'' ''external actions run only after approval''), h)"
| "run_tool q account session Delete v k h = (Err (OutErr ''failed'' ''external actions run only after approval''), h)"

definition run ::
    "'w agent_env \<Rightarrow> account_id option \<Rightarrow> string \<Rightarrow> tool \<Rightarrow> json \<Rightarrow> moment \<Rightarrow> 'w hub \<Rightarrow> outcome \<times> 'w hub" where
  "run q account session t v k h = (let (r, h1) = run_tool q account session t v k h in (case_sum id id r, h1))"

section \<open>What is put to the user\<close>

definition threads_named :: "json \<Rightarrow> nat" where
  "threads_named v = (case as_array (json_index v ''thread_ids'') of Some vs \<Rightarrow> length vs | None \<Rightarrow> 0)"

definition prepare_send :: "'w agent_env \<Rightarrow> account_id option \<Rightarrow> json \<Rightarrow> 'w hub \<Rightarrow> (outcome, proposal) result \<times> 'w hub" where
  "prepare_send q account v h =
     (case as_i64 (json_index v ''draft_id'') of
        None \<Rightarrow> (Err (OutErr ''invalid_arguments'' ''draft_id is required''), h)
      | Some i \<Rightarrow>
          read_then (stored_draft account i h) (\<lambda>d.
            if draft_recipients d = [] then Pair (Err (OutErr ''invalid_arguments'' ''the draft has no recipients''))
            else on_mailbox account (\<lambda>_ mb.
              (Ok \<lparr>pp_summary = send_summary q (mailbox_account mb) d, pp_draft_id = Some i\<rparr>, mb))) h)"

text \<open>A forward is saved as a draft before the user is asked; the answer holds its id and the summary.\<close>

definition save_forward ::
    "'w agent_env \<Rightarrow> 'w hub \<Rightarrow> account_id option \<Rightarrow> string \<Rightarrow> message_id \<Rightarrow> string list \<Rightarrow> string option \<Rightarrow> millis \<Rightarrow>
       account_id \<Rightarrow> 'w mailbox_state \<Rightarrow> (outcome, int \<times> string) result \<times> 'w mailbox_state" where
  "save_forward q h account session g recipients note now a mb =
     (case get_message (mail_of mb) g of
        None \<Rightarrow> (Err (not_found ''no such message''), mb)
      | Some m \<Rightarrow>
          if \<not> in_scope h session (ms_thread_id m) then (Err (not_found ''no such message''), mb)
          else (case parse_addresses recipients of
                  Inl e \<Rightarrow> (Err e, mb)
                | Inr to \<Rightarrow>
                    if to = [] then (Err (OutErr ''invalid_arguments'' ''say who to forward it to''), mb)
                    else (case core_forward_draft (av_sync q a) (is_archive h account) g mb of
                            (Inl e, mb1) \<Rightarrow> (Err (failed e), mb1)
                          | (Inr start, mb1) \<Rightarrow>
                              let d = start\<lparr>dr_to := to, dr_body_html := (case note of Some t \<Rightarrow> av_markdown q t | None \<Rightarrow> [])\<rparr>
                              in (case core_save_draft (is_archive h account) d now mb1 of
                                    (Inl e, mb2) \<Rightarrow> (Err (failed e), mb2)
                                  | (Inr i, mb2) \<Rightarrow>
                                      (Ok (i, ''Forward \"'' @ ms_subject m @ ''\" to '' @ recipients_text d @
                                           guide_warning q (mailbox_account mb2) d), mb2)))))"

definition prepare_forward ::
    "'w agent_env \<Rightarrow> account_id option \<Rightarrow> string \<Rightarrow> json \<Rightarrow> moment \<Rightarrow> 'w hub \<Rightarrow> (outcome, proposal) result \<times> 'w hub" where
  "prepare_forward q account session v k h =
     read_then (parse_args q forward_args v) (\<lambda>(g, recipients, note) h.
       case on_mailbox account (save_forward q h account session g recipients note (mo_now k)) h of
         (Inl e, h1) \<Rightarrow> (Err e, h1)
       | (Inr (i, summary), h1) \<Rightarrow>
           (Ok \<lparr>pp_summary = summary, pp_draft_id = Some i\<rparr>,
            update_session session (\<lambda>s. s\<lparr>ss_guard := allow_draft (ss_guard s) i\<rparr>) h1)) h"

definition prepare ::
    "'w agent_env \<Rightarrow> account_id option \<Rightarrow> string \<Rightarrow> tool \<Rightarrow> json \<Rightarrow> moment \<Rightarrow> 'w hub \<Rightarrow> (outcome, proposal) result \<times> 'w hub" where
  "prepare q account session t v k h =
     (case t of
        Send \<Rightarrow> prepare_send q account v h
      | Forward \<Rightarrow> prepare_forward q account session v k h
      | Delete \<Rightarrow> (Ok \<lparr>pp_summary = ''Move '' @ plural (threads_named v) ''thread'' @ '' to Trash'', pp_draft_id = None\<rparr>, h)
      | _ \<Rightarrow>
          (Ok \<lparr>pp_summary = tool_name t @ (if 0 < threads_named v then '' on '' @ plural (threads_named v) ''thread'' else []),
               pp_draft_id = None\<rparr>, h))"

section \<open>Sending and trashing\<close>

definition delete_draft ::
    "account_id option \<Rightarrow> int option \<Rightarrow> moment \<Rightarrow> 'w hub \<Rightarrow> 'w hub" where
  "delete_draft account draft k h =
     (case draft of
        None \<Rightarrow> h
      | Some i \<Rightarrow> snd (on_mailbox account (\<lambda>_ mb. (Ok (), core_delete_draft i (mo_now k) mb)) h))"

definition send_now ::
    "'w agent_env \<Rightarrow> account_id option \<Rightarrow> int option \<Rightarrow> (string \<times> json) list \<Rightarrow> moment \<Rightarrow> 'w hub \<Rightarrow> outcome \<times> 'w hub" where
  "send_now q account draft extra k h =
     (case draft of
        None \<Rightarrow> (OutErr ''failed'' ''no draft to send'', h)
      | Some i \<Rightarrow>
          (let (r, h1) = on_mailbox account (\<lambda>_ mb.
                 (case core_send_draft (av_compose q) (is_archive h account) (meta_of h account) (hb_headless h) (hb_send_delay h) i
                         (mo_now k) (mo_rfc_token k) (mo_token k) mb of
                    (Inl e, mb1) \<Rightarrow> (Err (failed e), mb1)
                  | (Inr _, mb1) \<Rightarrow> (Ok (out_json (json_object ([(''sent'', JBool True), (''draft_id'', JInt i)] @ extra))), mb1))) h
           in (case_sum id id r, h1)))"

definition trash_now ::
    "'w agent_env \<Rightarrow> account_id option \<Rightarrow> json \<Rightarrow> moment \<Rightarrow> 'w hub \<Rightarrow> outcome \<times> 'w hub" where
  "trash_now q account v k h =
     (let (r, h1) = change_threads q account ChangeTrash ''trashed'' v k h in (case_sum id id r, h1))"

fun state_of :: "outcome \<Rightarrow> string" where
  "state_of (OutOk t v) = ''done''"
| "state_of (OutErr c m) = ''failed''"

text \<open>A call that cannot be put to the user, or sent, is logged as failed.\<close>

definition fail_prepared ::
    "account_id option \<Rightarrow> string \<Rightarrow> tool \<Rightarrow> json \<Rightarrow> outcome \<Rightarrow> moment \<Rightarrow> 'w hub \<Rightarrow> 'w hub" where
  "fail_prepared account session t v out k h =
     (let (h1, action) = record_action h account session t v ''failed'' (mo_now k)
      in finish_action account action ''failed'' (Some (outcome_summary out)) (mo_now k) h1)"

definition guide_breaches :: "string \<Rightarrow> string option" where
  "guide_breaches summary = map_option (\<lambda>i. drop (i + length GUIDE_BREACH) summary) (find_sub GUIDE_BREACH summary)"

definition send_freely ::
    "'w agent_env \<Rightarrow> account_id option \<Rightarrow> string \<Rightarrow> tool \<Rightarrow> json \<Rightarrow> moment \<Rightarrow> 'w hub \<Rightarrow> outcome \<times> 'w hub" where
  "send_freely q account session t v k h =
     (case prepare q account session t v k h of
        (Inl out, h1) \<Rightarrow> (out, fail_prepared account session t v out k h1)
      | (Inr p, h1) \<Rightarrow>
          let (h2, action) = record_action h1 account session t v ''allowed'' (mo_now k);
              extra = (case guide_breaches (pp_summary p) of Some b \<Rightarrow> [(''writing_guide_breaches'', JStr b)] | None \<Rightarrow> []);
              (out, h3) = send_now q account (pp_draft_id p) extra k h2;
              h4 = (if t = Forward \<and> \<not> is_done out then delete_draft account (pp_draft_id p) k h3 else h3)
          in (out, finish_action account action (state_of out)
                     (Some (if is_done out then pp_summary p else outcome_summary out)) (mo_now k) h4))"

section \<open>A call\<close>

datatype call_answer = Answered outcome | Waiting int

definition ASK_WHILE_CLOSED :: string where
  "ASK_WHILE_CLOSED =
     ''This mailbox is set to ask before each send, and Kaluta is closed, so no one can approve it. '' @
     ''Nothing was sent or queued. Ask the user to open Kaluta and try again, or to set When Agents Send '' @
     ''to Send freely in the mailbox'' @ [CHR 0x27] @ ''s settings.''"

definition NO_RECORD :: outcome where
  "NO_RECORD = OutErr ''failed'' ''could not record the proposal''"

text \<open>The first half of \<^verbatim>\<open>approve_then_run\<close>, up to the point where the call waits.\<close>

definition ask ::
    "'w agent_env \<Rightarrow> account_id option \<Rightarrow> string \<Rightarrow> tool \<Rightarrow> json \<Rightarrow> moment \<Rightarrow> 'w hub \<Rightarrow> call_answer \<times> 'w hub" where
  "ask q account session t v k h =
     (case prepare q account session t v k h of
        (Inl out, h1) \<Rightarrow> (Answered out, fail_prepared account session t v out k h1)
      | (Inr p, h1) \<Rightarrow>
          (case record_action h1 account session t v ''pending'' (mo_now k) of
             (h2, None) \<Rightarrow>
               (Answered NO_RECORD, if t = Forward then delete_draft account (pp_draft_id p) k h2 else h2)
           | (h2, Some action) \<Rightarrow>
               (Waiting (hb_next_ticket h2 + 1), park (av_html_to_text q) h2 session account t v p action)))"

text \<open>The second half: the user declined, or the call is done and logged.\<close>

definition run_approved :: "'w agent_env \<Rightarrow> parked \<Rightarrow> moment \<Rightarrow> 'w hub \<Rightarrow> outcome \<times> 'w hub" where
  "run_approved q p k h =
     (if pk_tool p = Send \<or> pk_tool p = Forward then send_now q (pk_account p) (pp_draft_id (pk_proposal p)) [] k h
      else if pk_tool p = Delete then trash_now q (pk_account p) (pk_args p) k h
      else run q (pk_account p) (pk_session p) (pk_tool p) (pk_args p) k h)"

definition resume ::
    "'w agent_env \<Rightarrow> parked \<Rightarrow> decision_received \<Rightarrow> moment \<Rightarrow> 'w hub \<Rightarrow> outcome \<times> 'w hub" where
  "resume q p received k h =
     (let h1 = unpark p received (mo_now k) h
      in (case declined_outcome received of
            Some (_, out) \<Rightarrow>
              (out, if pk_tool p = Forward then delete_draft (pk_account p) (pp_draft_id (pk_proposal p)) k h1 else h1)
          | None \<Rightarrow>
              let (out, h2) = run_approved q p k h1
              in (out, finish_action (pk_account p) (Some (pk_action p)) (state_of out) (Some (outcome_summary out)) (mo_now k) h2)))"

definition answer_logged ::
    "'w agent_env \<Rightarrow> account_id option \<Rightarrow> string \<Rightarrow> tool \<Rightarrow> json \<Rightarrow> deny_reason option \<Rightarrow> moment \<Rightarrow> 'w hub \<Rightarrow> outcome \<times> 'w hub" where
  "answer_logged q account session t v refusal k h =
     (let (h1, action) = record_action h account session t v (if refusal \<noteq> None then ''denied'' else ''allowed'') (mo_now k);
          (out, h2) = (case refusal of
                         Some reason \<Rightarrow> (OutErr ''denied'' (deny_text reason), h1)
                       | None \<Rightarrow> run q account session t v k h1);
          state = (case out of OutErr c m \<Rightarrow> if c = ''denied'' then ''denied'' else ''failed'' | _ \<Rightarrow> ''done'')
      in (out, finish_action account action state (Some (outcome_summary out)) (mo_now k) h2))"

definition proposed :: "tool \<Rightarrow> json \<Rightarrow> proposed_action" where
  "proposed t v = \<lparr>pa_tool = t, pa_thread_ids = thread_ids_of t v, pa_draft_id = as_i64 (json_index v ''draft_id'')\<rparr>"

definition drafting_tools :: "tool set" where
  "drafting_tools = {CreateDraft, UpdateDraft, Send, Forward}"

text \<open>\<^verbatim>\<open>call\<close>, on the account the session acts on.\<close>

definition tool_call ::
    "'w agent_env \<Rightarrow> string \<Rightarrow> tool \<Rightarrow> json \<Rightarrow> moment \<Rightarrow> 'w hub \<Rightarrow> call_answer \<times> 'w hub" where
  "tool_call q session t v k h =
     (let account = effective_account h session;
          no_sending = t \<in> drafting_tools \<and> is_archive h account
      in (case hb_sessions h session of
            None \<Rightarrow>
              (Answered (if no_sending then OutErr ''cannot_send'' CANNOT_SEND
                         else OutErr ''unknown_session'' ''this agent session has ended''), h)
          | Some s \<Rightarrow>
              let (guard, checked) = guard_check (ss_guard s) (proposed t v) (mo_now k);
                  h1 = update_session session (\<lambda>s. s\<lparr>ss_guard := guard\<rparr>) h;
                  logged = (\<lambda>refusal. let (out, h2) = answer_logged q account session t v refusal k h1 in (Answered out, h2))
              in if ss_read_only s \<and> risk_of t \<noteq> ReadOnly
                 then (Answered (OutErr ''denied'' ''this is a preview: nothing may be changed''), h1)
                 else if no_sending then (Answered (OutErr ''cannot_send'' CANNOT_SEND), h1)
                 else (case checked of
                         Inl reason \<Rightarrow> logged (Some reason)
                       | Inr _ \<Rightarrow>
                           (case decide (hb_policy h1) (proposed t v) of
                              Deny reason \<Rightarrow> logged (Some reason)
                            | Allow \<Rightarrow> logged None
                            | RequireApproval \<Rightarrow>
                                if (t = Send \<or> t = Forward) \<and> agent_sends_freely h1 account
                                then (let (out, h2) = send_freely q account session t v k h1 in (Answered out, h2))
                                else if hb_headless h1
                                then (Answered (OutErr ''needs_kaluta'' ASK_WHILE_CLOSED), h1)
                                else ask q account session t v k h1))))"


end
