(* ===== verification/Quiet.thy ===== *)
theory Quiet
  imports Calls Rollback
begin

text \<open>
  What a tool that needs no approval leaves alone: the drafts of an account, but for new ones and for
  those of a given set, and the ops of its outbox that reach other people or throw mail away.
\<close>

section \<open>Databases and mailboxes\<close>

fun is_external :: "outbox_op \<Rightarrow> bool" where
  "is_external (OpSend i raw t g) = True"
| "is_external (OpTrash ids previous) = True"
| "is_external _ = False"

definition external_rows :: "account_db \<Rightarrow> (int \<times> outbox_op) set" where
  "external_rows a = {(ob_id r, ob_op r) | r. r \<in> set (db_outbox a) \<and> is_external (ob_op r)}"

definition draft_row_of :: "account_db \<Rightarrow> int \<Rightarrow> draft_row option" where
  "draft_row_of a i = List.find (\<lambda>r. dw_id r = i) (db_drafts a)"

definition quiet :: "int set \<Rightarrow> account_db \<Rightarrow> account_db \<Rightarrow> bool" where
  "quiet X a b \<longleftrightarrow>
     external_rows b \<subseteq> external_rows a \<and>
     (\<forall>i r. i \<notin> X \<longrightarrow> draft_row_of a i = Some r \<longrightarrow> draft_row_of b i = Some r)"

lemma quiet_refl [simp]: "quiet X a a"
  by (simp add: quiet_def)

lemma quiet_trans: "quiet X a b \<Longrightarrow> quiet X b c \<Longrightarrow> quiet X a c"
  by (auto simp: quiet_def)

lemma quiet_mono: "quiet X a b \<Longrightarrow> X \<subseteq> Y \<Longrightarrow> quiet Y a b"
  by (auto simp: quiet_def)

text \<open>The most common case: neither table is touched.\<close>

definition same_tables :: "account_db \<Rightarrow> account_db \<Rightarrow> bool" where
  "same_tables a b \<longleftrightarrow> db_outbox b = db_outbox a \<and> db_drafts b = db_drafts a"

lemma same_tables_quiet: "same_tables a b \<Longrightarrow> quiet X a b"
  by (simp add: same_tables_def quiet_def external_rows_def draft_row_of_def)

lemma same_tables_refl [simp]: "same_tables a a"
  by (simp add: same_tables_def)

lemma same_tables_mail [simp]: "same_tables a (a\<lparr>db_mail := m\<rparr>) = True"
  by (simp add: same_tables_def)

lemma remove_ids_tables: "same_tables a (remove_ids a ids)"
  unfolding remove_ids_def by (induction ids arbitrary: a) (simp_all add: queue_remove_def same_tables_def)

lemma urgent_tables: "same_tables a (fst (enqueue_urgent a ids))"
proof -
  have step: "same_tables a (queue_push_front (queue_remove a g) g)" for a g
    by (simp add: queue_push_front_def queue_remove_def Let_def same_tables_def)
  have "same_tables a (fst (urgent_loop a ids))" for ids
    by (induction a ids rule: urgent_loop.induct) (use step in \<open>auto simp: same_tables_def split: prod.splits\<close>)
  then show ?thesis by (simp add: enqueue_urgent_def)
qed

lemma mail_tx_tables:
  assumes "mail_tx s ps (\<lambda>a. (remove_ids a ids, ())) d = Ok (d', ch, r)"
  shows "same_tables (sd_account d) (sd_account d')"
proof -
  obtain w where w: "write_steps (with_stored_labels (writer_new (db_mail (sd_account d))) s) ps = Ok w"
    using assms by (auto simp: mail_tx_def split: sum.splits)
  obtain m where d': "d' = d\<lparr>sd_account := (remove_ids ((sd_account d)\<lparr>db_mail := w_db w\<rparr>) ids)\<lparr>db_mail := m\<rparr>\<rparr>"
    using assms w by (cases "finish w") (auto simp: mail_tx_def)
  have "same_tables ((sd_account d)\<lparr>db_mail := w_db w\<rparr>) (remove_ids ((sd_account d)\<lparr>db_mail := w_db w\<rparr>) ids)"
    by (rule remove_ids_tables)
  then show ?thesis by (simp add: d' same_tables_def)
qed

lemma ensure_bodies_tables: "same_tables (sd_account (en_db e)) (sd_account (en_db (snd (ensure_bodies q ids e))))"
proof (cases "missing (sd_account (en_db e)) ids = []")
  case True
  then show ?thesis by (simp add: ensure_bodies_def)
next
  case False
  obtain r e1 where f: "fetch_bodies q (missing (sd_account (en_db e)) ids) Interactive e = (r, e1)" by fastforce
  then have e1: "en_db e1 = en_db e" using fetch_bodies_db by (metis snd_conv)
  show ?thesis
  proof (cases r)
    case (Inr fetched)
    let ?full = "filter (\<lambda>m. fm_body m \<noteq> None) fetched"
    let ?tx = "mail_tx (stored_labels_of q) (upserts q ?full) (\<lambda>a. (remove_ids a (map fm_id ?full), ())) (en_db e)"
    show ?thesis
    proof (cases ?tx)
      case (Inr x)
      obtain d ch u where x: "x = (d, ch, u)" by (cases x)
      from mail_tx_tables [OF Inr [unfolded x]] show ?thesis
        using False f \<open>r = Inr fetched\<close> e1 Inr x by (simp add: ensure_bodies_def and_then_def db_write_def)
    qed (use False f Inr e1 in \<open>simp add: ensure_bodies_def and_then_def db_write_def\<close>)
  qed (use False f e1 in \<open>simp add: ensure_bodies_def and_then_def\<close>)
qed

lemma with_bodies_tables: "same_tables (mailbox_account mb) (mailbox_account (with_bodies q ids mb))"
proof (cases mb)
  case (Served e)
  obtain r e1 where b: "ensure_bodies q ids e = (r, e1)" by fastforce
  have t: "same_tables (sd_account (en_db e)) (sd_account (en_db e1))"
    using ensure_bodies_tables [of e q ids] by (simp add: b)
  have "same_tables (sd_account (en_db e1)) (sd_account (en_db (prioritize ids e1)))"
    using urgent_tables [of "sd_account (en_db e1)" ids] by (cases "enqueue_urgent (sd_account (en_db e1)) ids") (simp add: prioritize_def queue_tx_def)
  with t have "same_tables (sd_account (en_db e)) (sd_account (en_db (prioritize ids e1)))" by (simp add: same_tables_def)
  with t b Served show ?thesis by (cases r) (simp_all add: with_bodies_def)
qed (simp add: with_bodies_def)

lemma download_tables: "same_tables (mailbox_account mb) (mailbox_account (download_for_quote q g mb))"
  using ensure_bodies_tables by (cases mb) (simp_all add: download_for_quote_def)

lemma mailbox_with_account [simp]: "mailbox_account (with_account a mb) = a"
  by (cases mb) (simp_all add: with_account_def)

section \<open>What the core does for a tool\<close>

lemma reply_draft_tables: "same_tables (mailbox_account mb) (mailbox_account (snd (core_reply_draft q arch g all mb)))"
  by (simp add: download_tables core_reply_draft_def refuse_if_archive_def Let_def)

lemma forward_draft_tables: "same_tables (mailbox_account mb) (mailbox_account (snd (core_forward_draft q arch g mb)))"
  by (simp add: download_tables core_forward_draft_def refuse_if_archive_def Let_def)

lemma find_append_kept: "List.find P xs = Some r \<Longrightarrow> List.find P (xs @ ys) = Some r"
  by (simp add: find_append)

lemma find_update_other:
  "(\<And>r. dw_id (f r) = dw_id r) \<Longrightarrow> i \<noteq> j \<Longrightarrow>
     List.find (\<lambda>r. dw_id r = i) (sql_update (\<lambda>r. dw_id r = j) f rows) = List.find (\<lambda>r. dw_id r = i) rows"
  by (induction rows) (simp_all add: sql_update_def)

lemma dw_id_record: "dr_id d' = dr_id (dw_record r) \<Longrightarrow> dw_id (r\<lparr>dw_record := d'\<rparr>) = dw_id r"
  by simp

lemma save_draft_quiet:
  assumes "save_draft a d now = Ok (b, i)"
  shows "quiet (if dr_id d = 0 then {} else {dr_id d}) a b"
proof (cases "dr_id d = 0")
  case True
  then show ?thesis using assms
    by (auto simp: save_draft_def Let_def quiet_def external_rows_def draft_row_of_def intro: find_append_kept)
next
  case False
  let ?f = "\<lambda>r. r\<lparr>dw_record := (dw_record r)\<lparr>dr_to := dr_to d, dr_cc := dr_cc d, dr_bcc := dr_bcc d,
      dr_subject := dr_subject d, dr_body_html := dr_body_html d @ dr_quoted_html d, dr_attachments := dr_attachments d,
      dr_updated_at := now, dr_state := Editing, dr_last_error := None\<rparr>, dw_dirty := True\<rparr>"
  have "b = a\<lparr>db_drafts := sql_update (\<lambda>r. dw_id r = dr_id d) ?f (db_drafts a)\<rparr>"
    using assms False by (auto simp: save_draft_def Let_def split: option.splits if_splits)
  moreover have "dw_id (?f r) = dw_id r" for r by simp
  ultimately show ?thesis using False
    by (auto simp: quiet_def external_rows_def draft_row_of_def find_update_other)
qed

lemma core_save_draft_quiet:
  "quiet (if dr_id d = 0 then {} else {dr_id d}) (mailbox_account mb) (mailbox_account (snd (core_save_draft arch d now mb)))"
proof (cases "save_draft (mailbox_account mb) (record_of_info d) now")
  case (Inr x)
  obtain b i where x: "x = (b, i)" by fastforce
  have "dr_id (record_of_info d) = dr_id d" by (simp add: record_of_info_def)
  then have "quiet (if dr_id d = 0 then {} else {dr_id d}) (mailbox_account mb) b"
    using save_draft_quiet [OF Inr [unfolded x]] by (simp cong: if_cong)
  with Inr x show ?thesis
    by (cases "dr_id d = 0") (simp_all add: core_save_draft_def refuse_if_archive_def store_tx_def)
qed (simp add: core_save_draft_def refuse_if_archive_def store_tx_def)

lemma record_body_tables: "same_tables (mailbox_account mb) (mailbox_account (record_body q i html mb))"
  by (simp add: record_body_def same_tables_def)

lemma enqueue_quiet: "\<not> is_external p \<Longrightarrow> quiet X a (fst (enqueue a p now))"
  by (auto simp: enqueue_def enqueue_held_def Let_def quiet_def external_rows_def draft_row_of_def)

lemma enqueue_all_quiet:
  "\<forall>p \<in> set ps. \<not> is_external p \<Longrightarrow> quiet X a (foldl (\<lambda>d p. fst (enqueue d p now)) a ps)"
proof (induction ps arbitrary: a)
  case (Cons p ps)
  then have "quiet X a (fst (enqueue a p now))" "quiet X (fst (enqueue a p now)) (foldl (\<lambda>d p. fst (enqueue d p now)) (fst (enqueue a p now)) ps)"
    by (simp_all add: enqueue_quiet)
  then show ?case by (simp add: quiet_trans)
qed simp

lemma label_change_quiet:
  assumes "apply_local_change_recorded a (ChangeLabels ts add remove) queue None now = Ok (b, ac)"
  shows "quiet X a b"
proof -
  obtain m ops diffs ch where s: "change_store (db_mail a) (ChangeLabels ts add remove) = Ok (m, ops, diffs, ch)"
    using assms by (auto simp: apply_local_change_recorded_def split: sum.splits)
  then have "\<forall>p \<in> set ops. \<not> is_external p"
    by (auto simp: change_store_def Let_def map_sum_Ok_iff split: sum.splits if_splits)
  then have "quiet X (a\<lparr>db_mail := m\<rparr>) (foldl (\<lambda>d p. fst (enqueue d p now)) (a\<lparr>db_mail := m\<rparr>) ops)"
    by (rule enqueue_all_quiet)
  moreover have "quiet X a (a\<lparr>db_mail := m\<rparr>)" by (rule same_tables_quiet) simp
  ultimately have "quiet X a (foldl (\<lambda>d p. fst (enqueue d p now)) (a\<lparr>db_mail := m\<rparr>) ops)" by (rule quiet_trans [rotated])
  with \<open>quiet X a (a\<lparr>db_mail := m\<rparr>)\<close> show ?thesis
    using assms s by (auto simp: apply_local_change_recorded_def Let_def split: if_splits)
qed

lemma label_mutation_quiet:
  "quiet X (mailbox_account mb) (mailbox_account (snd (mutate_unrecorded q (ChangeLabels ts add remove) now mb)))"
proof (cases mb)
  case (Served e)
  then show ?thesis
    by (auto simp: mutate_unrecorded_def core_apply_def apply_change_recorded_def
        split: sum.split prod.split dest: label_change_quiet)
next
  case (Unserved d)
  then show ?thesis
    by (auto simp: mutate_unrecorded_def core_apply_def split: sum.split prod.split dest: label_change_quiet)
qed

lemma store_label_tables: "same_tables (mailbox_account mb) (mailbox_account (snd (store_label l mb)))"
  by (auto simp: store_label_def store_tx_def update_mail_def same_tables_def split: sum.split prod.split)

lemma store_then_tables:
  "same_tables a (mailbox_account (snd x)) \<Longrightarrow>
     same_tables a (mailbox_account (snd (case x of (Inl e, mb2) \<Rightarrow> (Err e, mb2) | (Inr _, mb2) \<Rightarrow> (Ok l, mb2))))"
  by (auto split: sum.split prod.split)

lemma provider_label_db: "en_db (snd (provider_label q name c e)) = en_db e"
  unfolding provider_label_def
  by (auto split: prod.split sum.split provider_error.split dest!: frame_db_afterD)

lemma create_single_label_tables:
  "same_tables (mailbox_account mb) (mailbox_account (snd (create_single_label q name color now n mb)))"
proof -
  have stored: "same_tables (mailbox_account m) (mailbox_account (snd (case store_label l m of
      (Inl e, mb2) \<Rightarrow> (Err e, mb2) | (Inr _, mb2) \<Rightarrow> (Ok l, mb2))))" for l and m :: "'a mailbox_state"
    by (rule store_then_tables [OF store_label_tables])
  show ?thesis
  proof (cases mb)
    case (Served e)
    obtain r e1 where p: "provider_label q (trim_matches (CHR ''/'') (trim name)) (map_option (\<lambda>bg. (bg, text_color_for bg)) color) e = (r, e1)"
      by fastforce
    then have "en_db e1 = en_db e" using provider_label_db by (metis snd_conv)
    then show ?thesis
      using stored [of "Served e1"] p Served by (cases r) (auto simp: create_single_label_def Let_def split: option.split)
  next
    case (Unserved d)
    show ?thesis
      using stored [of mb] Unserved by (auto simp: create_single_label_def Let_def split: option.split)
  qed
qed

lemma create_parents_tables:
  "same_tables (mailbox_account mb) (mailbox_account (snd (create_parents q segments depth now ns k mb)))"
proof (induction q segments depth now ns k mb rule: create_parents.induct)
  case (2 q segments depth now ns k mb)
  obtain r mb1 where c: "create_single_label q (join_with ''/'' (take depth segments)) None now (ns depth) mb = (r, mb1)"
    by fastforce
  have "same_tables (mailbox_account mb) (mailbox_account mb1)"
    using create_single_label_tables [of mb q "join_with ''/'' (take depth segments)" None now "ns depth"] c by simp
  with 2 c show ?case by (cases r) (auto simp: same_tables_def)
qed simp

lemma core_create_label_tables:
  "same_tables (mailbox_account mb) (mailbox_account (snd (core_create_label q name color now ns mb)))"
proof -
  let ?n = "trim_matches (CHR ''/'') (trim name)"
  let ?ss = "split_on (\<lambda>c. c = CHR ''/'') ?n"
  obtain r mb1 where p: "create_parents q ?ss 1 now ns (length ?ss - 1) mb = (r, mb1)" by fastforce
  have "same_tables (mailbox_account mb) (mailbox_account mb1)"
    using create_parents_tables [of mb q ?ss 1 now ns "length ?ss - 1"] p by simp
  with create_single_label_tables [of mb1] p show ?thesis
    by (cases r) (auto simp: core_create_label_def Let_def same_tables_def)
qed

section \<open>The hub\<close>

definition box_of :: "'w hub \<Rightarrow> account_id \<Rightarrow> account_db option" where
  "box_of h a = map_option (\<lambda>s. mailbox_account (ka_mailbox s)) (hb_accounts h a)"

text \<open>Nothing but the accounts, the sessions' own state and the events changes.\<close>

definition same_rules :: "'w hub \<Rightarrow> 'w hub \<Rightarrow> bool" where
  "same_rules h h' \<longleftrightarrow>
     hb_pending h' = hb_pending h \<and> hb_parked h' = hb_parked h \<and> hb_next_ticket h' = hb_next_ticket h \<and>
     hb_agent_meta h' = hb_agent_meta h \<and> hb_archives h' = hb_archives h \<and> hb_headless h' = hb_headless h \<and>
     hb_policy h' = hb_policy h \<and> hb_current h' = hb_current h \<and> hb_session_accounts h' = hb_session_accounts h"

definition quiet_boxes :: "(account_id \<Rightarrow> int set) \<Rightarrow> 'w hub \<Rightarrow> 'w hub \<Rightarrow> bool" where
  "quiet_boxes X h h' \<longleftrightarrow>
     (\<forall>a. (box_of h a = None \<longrightarrow> box_of h' a = None) \<and>
          (\<forall>b. box_of h a = Some b \<longrightarrow> (\<exists>b'. box_of h' a = Some b' \<and> quiet (X a) b b')))"

definition calm :: "(account_id \<Rightarrow> int set) \<Rightarrow> 'w hub \<Rightarrow> 'w hub \<Rightarrow> bool" where
  "calm X h h' \<longleftrightarrow> quiet_boxes X h h' \<and> same_rules h h'"

lemma quiet_boxes_refl [simp]: "quiet_boxes X h h"
  by (simp add: quiet_boxes_def)

lemma quiet_boxes_same: "box_of h' = box_of h \<Longrightarrow> quiet_boxes X h h'"
  by (simp add: quiet_boxes_def)

lemma quiet_boxes_trans: "quiet_boxes X h1 h2 \<Longrightarrow> quiet_boxes X h2 h3 \<Longrightarrow> quiet_boxes X h1 h3"
  unfolding quiet_boxes_def by (meson quiet_trans)

lemma calm_refl [simp]: "calm X h h"
  by (simp add: calm_def same_rules_def)

lemma calm_trans: "calm X h1 h2 \<Longrightarrow> calm X h2 h3 \<Longrightarrow> calm X h1 h3"
  using quiet_boxes_trans [of X h1 h2 h3] by (simp add: calm_def same_rules_def)

lemma calm_set_mailbox:
  assumes "core_db h account = Ok (a, s)" "quiet (X a) (mailbox_account (ka_mailbox s)) (mailbox_account mb)"
  shows "calm X h (set_mailbox a s mb h)"
  using assms
  by (auto simp: calm_def quiet_boxes_def same_rules_def box_of_def set_mailbox_def set_account_def core_db_def split: option.splits)

lemma on_mailbox_calm:
  assumes "\<And>a mb. account = Some a \<Longrightarrow> quiet (X a) (mailbox_account mb) (mailbox_account (snd (f a mb)))"
  shows "calm X h (snd (on_mailbox account f h))"
proof (cases "core_db h account")
  case (Inr x)
  obtain a s where x: "x = (a, s)" by fastforce
  have "account = Some a" using Inr x by (auto simp: core_db_def split: option.splits)
  from assms [OF this, of "ka_mailbox s"] have "quiet (X a) (mailbox_account (ka_mailbox s)) (mailbox_account (snd (f a (ka_mailbox s))))" .
  from calm_set_mailbox [where mb = "snd (f a (ka_mailbox s))" and X = X, OF Inr [unfolded x] this] Inr x show ?thesis
    by (simp add: on_mailbox_def case_prod_beta)
qed (simp add: on_mailbox_def)

lemma read_then_calm:
  "(\<And>x. r = Ok x \<Longrightarrow> calm X h (snd (k x h))) \<Longrightarrow> calm X h (snd (read_then r k h))"
  by (cases r) (simp_all add: read_then_def)

lemma calm_update_session: "calm X h (update_session session f h)"
  by (auto simp: calm_def same_rules_def update_session_def box_of_def fun_eq_iff intro!: quiet_boxes_same split: option.split)

lemma calm_emit: "calm X h (emit session e h)"
  by (auto simp: calm_def same_rules_def emit_def box_of_def fun_eq_iff intro!: quiet_boxes_same split: option.split)

lemma box_of_set_account [simp]:
  "mailbox_account (ka_mailbox s') = mailbox_account (ka_mailbox s) \<Longrightarrow> hb_accounts h a = Some s \<Longrightarrow>
     box_of (set_account a s' h) = box_of h"
  by (auto simp: box_of_def set_account_def fun_eq_iff)

lemma calm_record: "calm X h (fst (record_action h account session t v state now))"
proof (cases "core_db h account")
  case (Inr x)
  obtain a s where x: "x = (a, s)" by fastforce
  have "hb_accounts h a = Some s" using Inr x by (auto simp: core_db_def split: option.splits)
  then show ?thesis using Inr x
    by (auto simp: record_action_def Let_def calm_def same_rules_def set_account_def [abs_def] intro!: quiet_boxes_same
        simp: box_of_def fun_eq_iff)
qed (simp add: record_action_def)

lemma calm_finish: "calm X h (finish_action account action state summary now h)"
proof (cases "core_db h account")
  case (Inr x)
  obtain a s where x: "x = (a, s)" by fastforce
  have "hb_accounts h a = Some s" using Inr x by (auto simp: core_db_def split: option.splits)
  then show ?thesis using Inr x
    by (cases action)
      (auto simp: finish_action_def calm_def same_rules_def set_account_def box_of_def fun_eq_iff intro!: quiet_boxes_same)
qed (cases action; simp add: finish_action_def)


end
