(* ===== verification/Guarded.thy ===== *)
theory Guarded
  imports Quiet
begin

text \<open>
  What the guards around the agent's tools promise: a draft the user reviews is frozen, what reaches
  other people or the Trash was approved, calls stay within the session's scope. And where they do not:
  an approved draft can still change before it is sent, arguments given as an array are not checked.
\<close>

section \<open>Tools that need no approval are quiet\<close>

lemma search_calm: "calm X h (snd (tool_search q account session v h))"
  unfolding tool_search_def
  by (intro read_then_calm, clarsimp simp only: Let_def split_beta, intro on_mailbox_calm)
    (auto split: sum.split prod.split)

lemma with_bodies_quiet: "quiet X (mailbox_account mb) (mailbox_account (with_bodies q ids mb))"
  by (rule same_tables_quiet [OF with_bodies_tables])

lemma get_thread_calm: "calm X h (snd (tool_get_thread q account session v h))"
  unfolding tool_get_thread_def
  by (intro read_then_calm) (auto intro!: on_mailbox_calm with_bodies_quiet simp: Let_def split: option.split prod.split)

lemma get_message_calm: "calm X h (snd (tool_get_message q account session v h))"
  unfolding tool_get_message_def
  by (intro read_then_calm) (auto intro!: on_mailbox_calm with_bodies_quiet simp: Let_def split: option.split prod.split)

lemma list_labels_calm: "calm X h (snd (tool_list_labels account h))"
  unfolding tool_list_labels_def by (intro on_mailbox_calm) simp

lemma attachment_text_calm: "calm X h (snd (tool_attachment_text q account session v h))"
  unfolding tool_attachment_text_def Let_def
  by (intro read_then_calm) (auto intro!: on_mailbox_calm with_bodies_quiet split: option.split prod.split)

lemma present_threads_calm: "calm X h (snd (tool_present_threads q session v h))"
  unfolding tool_present_threads_def
  by (intro read_then_calm) (auto simp: Let_def calm_emit split: prod.split)

lemma facts_lookup_calm: "calm X h (snd (tool_facts_lookup q account v h))"
  unfolding tool_facts_lookup_def by (intro read_then_calm) (auto intro!: on_mailbox_calm split: prod.split)

lemma change_threads_calm:
  assumes "\<And>ids. \<exists>add remove. change ids = ChangeLabels ids add remove"
  shows "calm X h (snd (change_threads q account change key v k h))"
proof -
  have "quiet (X a) (mailbox_account mb) (mailbox_account (snd (mutate_unrecorded (av_sync q a) (change ids) (mo_now k) mb)))"
    for a ids and mb :: "'a mailbox_state"
    using assms [of ids] label_mutation_quiet by metis
  then show ?thesis
    unfolding change_threads_def
    by (intro read_then_calm on_mailbox_calm) (auto split: sum.split prod.split; metis snd_conv)
qed

lemma label_threads_calm: "calm X h (snd (label_threads q account add v k h))"
  unfolding label_threads_def Let_def case_prod_beta
  by (intro read_then_calm on_mailbox_calm) (auto simp: label_mutation_quiet split: sum.split)

lemma core_create_label_quiet:
  "quiet X (mailbox_account mb) (mailbox_account (snd (core_create_label q name color now ns mb)))"
  by (rule same_tables_quiet [OF core_create_label_tables])

lemma create_label_calm: "calm X h (snd (tool_create_label q account v k h))"
  unfolding tool_create_label_def case_prod_beta
  by (intro read_then_calm) (auto intro!: on_mailbox_calm simp: core_create_label_quiet split: sum.split)

lemma record_body_quiet: "quiet X (mailbox_account mb) (mailbox_account (record_body q i html mb))"
  by (rule same_tables_quiet [OF record_body_tables])

lemma reply_draft_quiet: "quiet X (mailbox_account mb) (mailbox_account (snd (core_reply_draft q arch g all mb)))"
  by (rule same_tables_quiet [OF reply_draft_tables])

lemma forward_draft_quiet: "quiet X (mailbox_account mb) (mailbox_account (snd (core_forward_draft q arch g mb)))"
  by (rule same_tables_quiet [OF forward_draft_tables])

lemma new_draft_quiet:
  "dr_id d = 0 \<Longrightarrow> quiet X (mailbox_account mb) (mailbox_account (snd (core_save_draft arch d now mb)))"
  using core_save_draft_quiet [of d mb arch now] quiet_mono [of "{}" _ _ X] by simp

lemma stored_draft_quiet:
  "dr_id d \<in> X \<Longrightarrow> quiet X (mailbox_account mb) (mailbox_account (snd (core_save_draft arch d now mb)))"
  using core_save_draft_quiet [of d mb arch now] by (elim quiet_mono) auto

text \<open>A draft that starts a reply, a forward or a new message has no id yet.\<close>

lemma reply_draft_new: "reply_draft a g all me = Some (Ok d) \<Longrightarrow> dr_id d = 0"
  by (auto simp: reply_draft_def default_draft_def Let_def split: option.splits prod.splits)

lemma forward_draft_new: "forward_draft a g = Some (Ok d) \<Longrightarrow> dr_id d = 0"
  by (auto simp: forward_draft_def default_draft_def Let_def split: option.splits prod.splits)

lemma map_err_Ok [simp]: "map_sum f id r = Ok x \<longleftrightarrow> r = Ok x"
  by (cases r) simp_all

lemma core_reply_draft_new: "fst (core_reply_draft q arch g all mb) = Ok d \<Longrightarrow> dr_id d = 0"
  by (auto simp: core_reply_draft_def refuse_if_archive_def draft_answer_def Let_def dest: reply_draft_new
      split: option.splits if_splits)

lemma core_forward_draft_new: "fst (core_forward_draft q arch g mb) = Ok d \<Longrightarrow> dr_id d = 0"
  by (auto simp: core_forward_draft_def refuse_if_archive_def draft_answer_def Let_def dest: forward_draft_new
      split: option.splits if_splits)

lemma addressed_id [simp]: "dr_id (addressed to cc s d) = dr_id d"
  by (auto simp: addressed_def Let_def split: option.split)

lemma on_mailbox_result:
  assumes "fst (on_mailbox account f h) = Ok x"
  obtains a s where "core_db h account = Ok (a, s)" "fst (f a (ka_mailbox s)) = Ok x"
  using assms by (auto simp: on_mailbox_def case_prod_beta split: sum.splits prod.splits)

lemma starting_draft_calm: "calm X h (snd (starting_draft q account session a h))"
  unfolding starting_draft_def case_prod_beta Let_def
  by (auto intro!: on_mailbox_calm simp: reply_draft_quiet split: option.split)

lemma starting_draft_new: "fst (starting_draft q account session a h) = Ok d \<Longrightarrow> dr_id d = 0"
  unfolding starting_draft_def
  by (auto simp: default_draft_def case_prod_beta Let_def split: option.splits if_splits
      elim!: on_mailbox_result dest: core_reply_draft_new)

lemma save_tool_draft_calm:
  assumes "\<And>a. account = Some a \<Longrightarrow> dr_id d = 0 \<or> dr_id d \<in> X a"
  shows "calm X h (snd (save_tool_draft q account d html k h))"
proof -
  have "quiet (X a) (mailbox_account mb) (mailbox_account (snd (core_save_draft arch d now mb)))" if "account = Some a"
    for a arch now and mb :: "'a mailbox_state"
    using assms [OF that] new_draft_quiet stored_draft_quiet by blast
  then show ?thesis
    unfolding save_tool_draft_def
    by (intro on_mailbox_calm) (auto simp: case_prod_beta split: sum.split intro: quiet_trans [OF _ record_body_quiet])
qed

lemma save_created_calm:
  assumes "dr_id d = 0"
  shows "calm X h (snd (save_created q account session d k h))"
proof -
  obtain r h1 where r: "save_tool_draft q account d (Some (dr_body_html d)) k h = (r, h1)" by fastforce
  have "calm X h h1" using save_tool_draft_calm [of account d X h q "Some (dr_body_html d)" k] assms r by simp
  then show ?thesis
    using r calm_trans [OF _ calm_update_session]
    by (cases r) (auto simp: save_created_def own_draft_def case_prod_beta)
qed

lemma create_draft_calm: "calm X h (snd (tool_create_draft q account session v k h))"
proof -
  have "calm X h (snd (read_then r (\<lambda>start. read_then (addresses (cd_to a)) (\<lambda>to. read_then (addresses (cd_cc a)) (\<lambda>cc.
      save_created q account session ((addressed to cc (cd_subject a) start)\<lparr>dr_body_html := av_markdown q (cd_body a)\<rparr>) k))) h1))"
    if "starting_draft q account session a h = (r, h1)" for a r h1
  proof (rule calm_trans)
    show "calm X h h1" using starting_draft_calm [of X h q account session a] that by simp
    show "calm X h1 (snd (read_then r (\<lambda>start. read_then (addresses (cd_to a)) (\<lambda>to. read_then (addresses (cd_cc a)) (\<lambda>cc.
        save_created q account session ((addressed to cc (cd_subject a) start)\<lparr>dr_body_html := av_markdown q (cd_body a)\<rparr>) k))) h1))"
      using starting_draft_new [of q account session a h] that by (intro read_then_calm save_created_calm) simp
  qed
  then show ?thesis
    unfolding tool_create_draft_def Let_def by (intro read_then_calm) (auto split: prod.split)
qed

lemma stored_draft_id: "stored_draft account i h = Ok d \<Longrightarrow> dr_id d = i"
  by (auto simp: stored_draft_def get_draft_def split: sum.splits option.splits dest!: find_Some_in)

lemma update_draft_calm:
  assumes "\<And>a i. account = Some a \<Longrightarrow> \<not> is_frozen h account i \<Longrightarrow> i \<in> X a"
  shows "calm X h (snd (tool_update_draft q account session v k h))"
proof -
  have "calm X h (snd (save_tool_draft q account d html k h))" if "\<not> is_frozen h account i" "dr_id d = i" for d html i
    by (rule save_tool_draft_calm) (use assms that in blast)
  then show ?thesis
    unfolding tool_update_draft_def Let_def case_prod_beta
    by (intro read_then_calm) (auto intro!: read_then_calm dest!: stored_draft_id split: option.split)
qed

lemma run_tool_calm:
  assumes "\<And>a i. account = Some a \<Longrightarrow> \<not> is_frozen h account i \<Longrightarrow> i \<in> X a"
  shows "calm X h (snd (run_tool q account session t v k h))"
proof (cases "t = UpdateDraft")
  case True
  show ?thesis unfolding True run_tool.simps by (rule update_draft_calm) (rule assms)
next
  case False
  then show ?thesis
    by (cases t)
      (simp_all add: search_calm get_thread_calm get_message_calm list_labels_calm attachment_text_calm present_threads_calm
        facts_lookup_calm create_draft_calm change_threads_calm label_threads_calm create_label_calm archive_def set_read_def)
qed

section \<open>Preparing, deleting a draft\<close>

lemma find_delete_other:
  "i \<noteq> j \<Longrightarrow> List.find (\<lambda>r. dw_id r = i) (sql_delete (\<lambda>r. dw_id r = j) rows) = List.find (\<lambda>r. dw_id r = i) rows"
  by (induction rows) (simp_all add: sql_delete_def)

lemma discard_quiet: "quiet {i} a (discard a i now)"
proof -
  have "quiet {i} a (delete_draft_row (draft_gone a i s now) i)" for s
    by (auto simp: quiet_def external_rows_def draft_row_of_def delete_draft_row_def draft_gone_def Let_def find_delete_other)
  then show ?thesis
    unfolding discard_def Let_def
    by (auto split: option.split intro: quiet_trans [OF _ enqueue_quiet])
qed

lemma delete_draft_calm:
  assumes "\<And>a i. account = Some a \<Longrightarrow> draft = Some i \<Longrightarrow> i \<in> X a"
  shows "calm X h (delete_draft account draft k h)"
proof (cases draft)
  case (Some i)
  have "quiet (X a) (mailbox_account mb) (mailbox_account (core_delete_draft i now mb))" if "account = Some a"
    for a now and mb :: "'a mailbox_state"
    using discard_quiet [of i "mailbox_account mb" now] assms [OF that Some] quiet_mono [of "{i}" _ _ "X a"]
    by (simp add: core_delete_draft_def)
  then show ?thesis unfolding delete_draft_def Some option.case by (intro on_mailbox_calm) simp
qed (simp add: delete_draft_def)

lemma prepare_send_calm: "calm X h (snd (prepare_send q account v h))"
  unfolding prepare_send_def by (auto intro!: read_then_calm on_mailbox_calm split: option.split)

lemma on_mailbox_db:
  "core_db h account = Ok (a, s) \<Longrightarrow> on_mailbox account f h = (fst (f a (ka_mailbox s)), set_mailbox a s (snd (f a (ka_mailbox s))) h)"
  by (simp add: on_mailbox_def case_prod_beta)

lemma draft_ids_fresh:
  assumes "save_draft a d now = Ok (b, i)" "dr_id d = 0"
  shows "draft_row_of a i = None"
proof -
  have "i = next_rowid dw_id (db_drafts a)" using assms by (simp add: save_draft_def Let_def)
  then have "dw_id r \<noteq> i" if "r \<in> set (db_drafts a)" for r
    using next_rowid_greater [OF that, of dw_id] by simp
  then show ?thesis by (auto simp: draft_row_of_def find_None_iff)
qed

lemma core_save_draft_fresh:
  assumes "fst (core_save_draft arch d now mb) = Ok i" "dr_id d = 0"
  shows "draft_row_of (mailbox_account mb) i = None"
  using assms draft_ids_fresh [of "mailbox_account mb" "record_of_info d" now]
  by (auto simp: core_save_draft_def refuse_if_archive_def store_tx_def record_of_info_def split: sum.splits prod.splits if_splits)

lemma save_forward_facts:
  shows "quiet X (mailbox_account mb) (mailbox_account (snd (save_forward q h account session g rs nt now a mb)))"
    and "fst (save_forward q h account session g rs nt now a mb) = Ok (i, summary) \<Longrightarrow> draft_row_of (mailbox_account mb) i = None"
proof -
  let ?fwd = "core_forward_draft (av_sync q a) (is_archive h account) g mb"
  have new: "dr_id d = 0" if "fst ?fwd = Ok d" for d using core_forward_draft_new that by blast
  have saved: "quiet X (mailbox_account mb) (mailbox_account (snd (core_save_draft arch d n (snd ?fwd))))" if "dr_id d = 0" for arch d n
    by (rule quiet_trans [OF forward_draft_quiet new_draft_quiet [OF that]])
  show "quiet X (mailbox_account mb) (mailbox_account (snd (save_forward q h account session g rs nt now a mb)))"
    using new saved forward_draft_quiet
    by (auto simp: save_forward_def Let_def case_prod_beta split: option.split sum.split)
  have "draft_row_of (mailbox_account (snd ?fwd)) i = draft_row_of (mailbox_account mb) i"
    using forward_draft_tables [of mb "av_sync q a" "is_archive h account" g] by (simp add: same_tables_def draft_row_of_def)
  moreover have "draft_row_of (mailbox_account (snd ?fwd)) j = None"
    if "fst (core_save_draft arch d n (snd ?fwd)) = Ok j" "dr_id d = 0" for arch d n j
    using core_save_draft_fresh that by blast
  ultimately show "draft_row_of (mailbox_account mb) i = None"
    if "fst (save_forward q h account session g rs nt now a mb) = Ok (i, summary)"
    using that new by (auto simp: save_forward_def Let_def case_prod_beta split: option.splits sum.splits if_splits)
qed

text \<open>The draft of a forward has an id that no draft of the account had.\<close>

definition fresh_draft :: "'w hub \<Rightarrow> account_id option \<Rightarrow> int option \<Rightarrow> bool" where
  "fresh_draft h account draft \<longleftrightarrow>
     (\<forall>a b i. account = Some a \<longrightarrow> box_of h a = Some b \<longrightarrow> draft = Some i \<longrightarrow> draft_row_of b i = None)"

lemma prepare_forward_facts:
  shows "calm X h (snd (prepare_forward q account session v k h))"
    and "fst (prepare_forward q account session v k h) = Ok p \<Longrightarrow> fresh_draft h account (pp_draft_id p)"
proof -
  let ?save = "\<lambda>g rs nt. on_mailbox account (save_forward q h account session g rs nt (mo_now k)) h"
  have saved: "calm X h (snd (?save g rs nt))" for g rs nt
    by (intro on_mailbox_calm save_forward_facts(1))
  show "calm X h (snd (prepare_forward q account session v k h))"
    unfolding prepare_forward_def case_prod_beta
    by (intro read_then_calm) (auto simp: saved split: sum.split intro: calm_trans [OF saved calm_update_session])
  have "fresh_draft h account (Some i)" if run: "fst (?save g rs nt) = Ok (i, summary)" for g rs nt i summary
  proof -
    obtain a s where db: "core_db h account = Ok (a, s)" and r: "fst (save_forward q h account session g rs nt (mo_now k) a (ka_mailbox s)) = Ok (i, summary)"
      using run by (rule on_mailbox_result)
    from save_forward_facts(2) [OF r] db show ?thesis
      by (auto simp: fresh_draft_def core_db_def box_of_def split: option.splits)
  qed
  then show "fresh_draft h account (pp_draft_id p)" if "fst (prepare_forward q account session v k h) = Ok p"
    using that by (cases "parse_args q forward_args v") (auto simp: prepare_forward_def read_then_def case_prod_beta split: sum.splits)
qed

lemma prepare_calm: "calm X h (snd (prepare q account session t v k h))"
  by (cases t) (simp_all add: prepare_def prepare_send_calm prepare_forward_facts)

lemma fresh_draft_gone:
  assumes "fresh_draft h account draft" "quiet_boxes X h h1" "calm (\<lambda>a. X a \<union> (if Some a = account then set_option draft else {})) h1 h2"
  shows "quiet_boxes X h h2"
  unfolding quiet_boxes_def
proof (intro allI conjI impI)
  fix a assume "box_of h a = None"
  then show "box_of h2 a = None" using assms by (auto simp: quiet_boxes_def calm_def)
next
  fix a b assume b: "box_of h a = Some b"
  then obtain b1 where b1: "box_of h1 a = Some b1" "quiet (X a) b b1" using assms(2) by (auto simp: quiet_boxes_def)
  then obtain b2 where b2: "box_of h2 a = Some b2" "quiet (X a \<union> (if Some a = account then set_option draft else {})) b1 b2"
    using assms(3) by (auto simp: quiet_boxes_def calm_def)
  have "draft_row_of b i = None" if "i \<in> (if Some a = account then set_option draft else {})" for i
    using assms(1) b that by (auto simp: fresh_draft_def split: if_splits)
  with b1(2) b2(2) have "quiet (X a) b b2" unfolding quiet_def by fastforce
  with b2(1) show "\<exists>b'. box_of h2 a = Some b' \<and> quiet (X a) b b'" by blast
qed


section \<open>A whole call\<close>

lemma same_rules_frozen: "same_rules h h' \<Longrightarrow> is_frozen h' = is_frozen h"
  by (simp add: same_rules_def is_frozen_def fun_eq_iff)

lemma run_calm:
  assumes "\<And>a i. account = Some a \<Longrightarrow> \<not> is_frozen h account i \<Longrightarrow> i \<in> X a"
  shows "calm X h (snd (run q account session t v k h))"
  using run_tool_calm [of account h X q session t v k] assms by (simp add: run_def case_prod_beta)

lemma fail_prepared_calm: "calm X h (fail_prepared account session t v out k h)"
  using calm_trans [OF calm_record calm_finish] by (simp add: fail_prepared_def case_prod_beta)

lemma answer_logged_calm:
  assumes "\<And>a i. account = Some a \<Longrightarrow> \<not> is_frozen h account i \<Longrightarrow> i \<in> X a"
  shows "calm X h (snd (answer_logged q account session t v refusal k h))"
proof -
  obtain h1 action where r: "record_action h account session t v (if refusal \<noteq> None then ''denied'' else ''allowed'') (mo_now k) = (h1, action)"
    by fastforce
  have c1: "calm X h h1" using calm_record [of X h account session t v _ "mo_now k"] r by (metis fst_conv)
  then have "is_frozen h1 = is_frozen h" by (simp add: calm_def same_rules_frozen)
  then have "calm X h1 (snd (run q account session t v k h1))" using assms by (intro run_calm) auto
  with c1 show ?thesis
    using r by (cases refusal) (auto simp: answer_logged_def case_prod_beta Let_def intro: calm_trans calm_finish)
qed

text \<open>What the hub may do besides: park a call that has no answer yet.\<close>

definition parks :: "'w hub \<Rightarrow> 'w hub \<Rightarrow> bool" where
  "parks h h' \<longleftrightarrow>
     hb_agent_meta h' = hb_agent_meta h \<and>
     (\<exists>ps. hb_parked h' = hb_parked h @ ps \<and> (\<forall>p \<in> set ps. pk_answer p = None))"

lemma parks_rules: "same_rules h h' \<Longrightarrow> parks h h'"
  by (simp add: parks_def same_rules_def)

lemma parks_trans: "parks h1 h2 \<Longrightarrow> parks h2 h3 \<Longrightarrow> parks h1 h3"
  by (auto simp: parks_def)

lemma box_of_emit [simp]: "box_of (emit session e h) = box_of h"
  by (auto simp: emit_def box_of_def fun_eq_iff split: option.split)

lemma hub_of_emit [simp]:
  "hb_parked (emit session e h) = hb_parked h" "hb_pending (emit session e h) = hb_pending h"
  "hb_agent_meta (emit session e h) = hb_agent_meta h"
  by (auto simp: emit_def split: option.split)

lemma park_facts:
  "box_of (park f h session account t v p action) = box_of h" "parks h (park f h session account t v p action)"
  by (auto simp: park_def Let_def parks_def box_of_def fun_eq_iff emit_def split: option.split)

lemma ask_facts:
  shows "quiet_boxes X h (snd (ask q account session t v k h))" and "parks h (snd (ask q account session t v k h))"
proof -
  obtain r h1 where p: "prepare q account session t v k h = (r, h1)" by fastforce
  have c1: "calm X h h1" for X using prepare_calm [of X h q account session t v k] p by simp
  have "quiet_boxes X h (snd (ask q account session t v k h)) \<and> parks h (snd (ask q account session t v k h))"
  proof (cases r)
    case (Inl out)
    have "calm X h (fail_prepared account session t v out k h1)"
      by (rule calm_trans [OF c1 fail_prepared_calm])
    with p Inl show ?thesis by (simp add: ask_def calm_def parks_rules)
  next
    case (Inr x)
    obtain h2 action where rec: "record_action h1 account session t v ''pending'' (mo_now k) = (h2, action)" by fastforce
    have c2: "calm X h h2" for X
      using calm_trans [OF c1 calm_record [of X h1 account session t v "''pending''" "mo_now k"]] rec by simp
    show ?thesis
    proof (cases action)
      case None
      show ?thesis
      proof (cases "t = Forward")
        case True
        let ?X = "\<lambda>a. X a \<union> (if Some a = account then set_option (pp_draft_id x) else {})"
        have fresh: "fresh_draft h account (pp_draft_id x)"
          using prepare_forward_facts(2) [of q account session v k h x] p Inr True by (simp add: prepare_def)
        have d: "calm ?X h2 (delete_draft account (pp_draft_id x) k h2)" by (rule delete_draft_calm) auto
        then have "same_rules h (delete_draft account (pp_draft_id x) k h2)" using c2 by (auto simp: calm_def same_rules_def)
        moreover have "quiet_boxes X h (delete_draft account (pp_draft_id x) k h2)"
          by (rule fresh_draft_gone [OF fresh _ d]) (use c2 in \<open>simp add: calm_def\<close>)
        ultimately show ?thesis using p Inr rec None True by (simp add: ask_def parks_rules)
      next
        case False
        with c2 p Inr rec None show ?thesis by (simp add: ask_def calm_def parks_rules)
      qed
    next
      case (Some a)
      have "quiet_boxes X h (park (av_html_to_text q) h2 session account t v x a)"
        using c2 [of X] park_facts(1) quiet_boxes_same by (metis calm_def quiet_boxes_trans)
      moreover have "parks h (park (av_html_to_text q) h2 session account t v x a)"
        using c2 park_facts(2) by (metis calm_def parks_rules parks_trans)
      ultimately show ?thesis using p Inr rec Some by (simp add: ask_def)
    qed
  qed
  then show "quiet_boxes X h (snd (ask q account session t v k h))" "parks h (snd (ask q account session t v k h))" by auto
qed

text \<open>A call of an account that does not send freely.\<close>

lemma tool_call_facts:
  assumes asks: "\<not> agent_sends_freely h (effective_account h session)"
    and X: "\<And>a i. effective_account h session = Some a \<Longrightarrow> \<not> is_frozen h (effective_account h session) i \<Longrightarrow> i \<in> X a"
  shows "quiet_boxes X h (snd (tool_call q session t v k h))" and "parks h (snd (tool_call q session t v k h))"
proof -
  let ?account = "effective_account h session"
  have "quiet_boxes X h (snd (tool_call q session t v k h)) \<and> parks h (snd (tool_call q session t v k h))"
  proof (cases "hb_sessions h session")
    case None
    then show ?thesis by (simp add: tool_call_def Let_def parks_rules same_rules_def)
  next
    case (Some s)
    obtain guard checked where g: "guard_check (ss_guard s) (proposed t v) (mo_now k) = (guard, checked)" by fastforce
    let ?h1 = "update_session session (\<lambda>s. s\<lparr>ss_guard := guard\<rparr>) h"
    have c1: "calm X h ?h1" by (rule calm_update_session)
    then have same: "same_rules h ?h1" by (simp add: calm_def)
    then have free: "\<not> agent_sends_freely ?h1 ?account" using asks by (simp add: agent_sends_freely_def meta_of_def same_rules_def)
    have logged: "calm X h (snd (answer_logged q ?account session t v refusal k ?h1))" for refusal
      by (rule calm_trans [OF c1 answer_logged_calm]) (use X same_rules_frozen [OF same] in auto)
    have ok: "quiet_boxes X h h' \<and> parks h h'" if "calm X h h'" for h'
      using that by (simp add: calm_def parks_rules)
    have "quiet_boxes X h (snd (ask q ?account session t v k ?h1))"
      using c1 ask_facts(1) by (metis calm_def quiet_boxes_trans)
    moreover have "parks h (snd (ask q ?account session t v k ?h1))"
      using same ask_facts(2) by (metis parks_rules parks_trans)
    ultimately show ?thesis
      using Some g free ok [OF c1] ok [OF logged]
      by (auto simp: tool_call_def Let_def case_prod_beta split: sum.split decision.split)
  qed
  then show "quiet_boxes X h (snd (tool_call q session t v k h))" "parks h (snd (tool_call q session t v k h))" by auto
qed

text \<open>
  Claim C25: A draft that the user is asked to approve stays as it is shown. While the call that proposes
  it waits, no call of any agent, on any account that asks before each send, changes it: an update of it is refused,
  and every other tool leaves it alone, whatever the arguments are.
\<close>

theorem a_draft_in_review_is_frozen:
  assumes "is_frozen h (Some a) d" "hb_accounts h a = Some s" "get_draft (mailbox_account (ka_mailbox s)) d = Some r"
    and "\<not> agent_sends_freely h (effective_account h session)"
  shows "\<exists>s'. hb_accounts (snd (tool_call q session t v k h)) a = Some s' \<and>
    get_draft (mailbox_account (ka_mailbox s')) d = Some r"
proof -
  let ?X = "\<lambda>a. {i. \<not> is_frozen h (Some a) i}"
  have "quiet_boxes ?X h (snd (tool_call q session t v k h))"
    by (rule tool_call_facts(1)) (use assms(4) in auto)
  moreover obtain row where "draft_row_of (mailbox_account (ka_mailbox s)) d = Some row" "dw_record row = r"
    using assms(3) by (auto simp: get_draft_def draft_row_of_def)
  ultimately show ?thesis
    using assms(1,2) by (fastforce simp: quiet_boxes_def quiet_def box_of_def draft_row_of_def get_draft_def)
qed


end
