(* ===== verification/Approved.thy ===== *)
theory Approved
  imports Guarded
begin

text \<open>
  The life of the hub: calls of agents, the user's answers, parked calls that run on, sessions that
  open and close, in any order (\<^verbatim>\<open>agents/mod.rs\<close>, \<^verbatim>\<open>sessions.rs\<close>, \<^verbatim>\<open>server.rs\<close> of \<^verbatim>\<open>agent-mcp\<close>). An answer and the call
  that waits for it are two events: other calls may come between them.
\<close>

section \<open>Events\<close>

fun policy_from :: "string list \<Rightarrow> policy \<Rightarrow> (core_error, policy) result" where
  "policy_from [] p = Ok p"
| "policy_from (n # ns) p =
     (case from_name n of
        None \<Rightarrow> Err (core_error_new EkInvalidInput (''unknown tool '' @ n))
      | Some t \<Rightarrow>
          (case set_requires_approval p t True of
             Inl (NotConfigurable name) \<Rightarrow> Err (core_error_new EkInvalidInput (name @ '' is not configurable: only reversible tools can require approval''))
           | Inr p' \<Rightarrow> policy_from ns p'))"

definition set_agent_policy :: "string list \<Rightarrow> 'w hub \<Rightarrow> (core_error, unit) result \<times> 'w hub" where
  "set_agent_policy names h =
     (case policy_from names default_policy of
        Inl e \<Rightarrow> (Err e, h)
      | Inr p \<Rightarrow> (Ok (), h\<lparr>hb_policy := p\<rparr>))"

text \<open>A session is bound to its account, registered, and recorded in the account's store.\<close>

definition open_session :: "string \<Rightarrow> scope \<Rightarrow> bool \<Rightarrow> string \<Rightarrow> account_id \<Rightarrow> 'w hub \<Rightarrow> 'w hub" where
  "open_session session sc sink agent a h =
     (let h1 = h\<lparr>hb_session_accounts := (hb_session_accounts h)(session \<mapsto> a),
                 hb_sessions := (hb_sessions h)(session \<mapsto> (session_new sc sink)\<lparr>ss_agent := Some agent\<rparr>)\<rparr>
      in (case hb_accounts h1 a of
            None \<Rightarrow> h1
          | Some s \<Rightarrow> set_account a (s\<lparr>ka_sessions := (if session \<in> set (ka_sessions s) then ka_sessions s else ka_sessions s @ [session])\<rparr>) h1))"

definition close_session :: "string \<Rightarrow> 'w hub \<Rightarrow> 'w hub" where
  "close_session session h = (reject_session session h)\<lparr>hb_sessions := (hb_sessions h)(session := None)\<rparr>"

definition user_prompt :: "string \<Rightarrow> string \<Rightarrow> 'w hub \<Rightarrow> 'w hub" where
  "user_prompt session text = update_session session (\<lambda>s. s\<lparr>ss_guard := new_user_prompt (ss_guard s), ss_last_prompt := text\<rparr>)"

definition user_saves :: "account_id \<Rightarrow> draft_record \<Rightarrow> moment \<Rightarrow> 'w hub \<Rightarrow> 'w hub" where
  "user_saves a d k h =
     snd (on_mailbox (Some a) (\<lambda>_ mb. (let (r, mb1) = core_save_draft (is_archive h (Some a)) d (mo_now k) mb in (map_sum failed id r, mb1))) h)"

definition user_discards :: "account_id \<Rightarrow> int \<Rightarrow> moment \<Rightarrow> 'w hub \<Rightarrow> 'w hub" where
  "user_discards a i k h = delete_draft (Some a) (Some i) k h"

definition waiting :: "'w hub \<Rightarrow> int \<Rightarrow> parked option" where
  "waiting h ticket = List.find (\<lambda>p. pk_ticket p = ticket) (hb_parked h)"

datatype hub_event =
    CallTool string tool json moment
  | UserAnswers int bool
  | Wake int moment
  | TimeIsUp int moment
  | Disconnect int
  | CancelTurn string
  | OpenSession string scope bool string account_id
  | CloseSession string
  | Prompt string string
  | SetPolicy "string list"
  | UserSaves account_id draft_record moment
  | UserDiscards account_id int moment

text \<open>
  A parked call runs on once its answer is there, or its time is up and none is; when its connection
  is gone, it never does.
\<close>

fun hub_step :: "'w agent_env \<Rightarrow> hub_event \<Rightarrow> 'w hub \<Rightarrow> 'w hub" where
  "hub_step q (CallTool session t v k) h = snd (tool_call q session t v k h)"
| "hub_step q (UserAnswers ticket approve) h = snd (resolve_agent_action h ticket approve)"
| "hub_step q (Wake ticket k) h =
     (case waiting h ticket of
        None \<Rightarrow> h
      | Some p \<Rightarrow> (case pk_answer p of None \<Rightarrow> h | Some b \<Rightarrow> snd (resume q p (Received b) k h)))"
| "hub_step q (TimeIsUp ticket k) h =
     (case waiting h ticket of
        None \<Rightarrow> h
      | Some p \<Rightarrow> (case pk_answer p of None \<Rightarrow> snd (resume q p TimedOut k h) | Some b \<Rightarrow> h))"
| "hub_step q (Disconnect ticket) h = h\<lparr>hb_parked := filter (\<lambda>p. pk_ticket p \<noteq> ticket) (hb_parked h)\<rparr>"
| "hub_step q (CancelTurn session) h = reject_session session h"
| "hub_step q (OpenSession session sc sink agent a) h = open_session session sc sink agent a h"
| "hub_step q (CloseSession session) h = close_session session h"
| "hub_step q (Prompt session text) h = user_prompt session text h"
| "hub_step q (SetPolicy names) h = snd (set_agent_policy names h)"
| "hub_step q (UserSaves a d k) h = user_saves a d k h"
| "hub_step q (UserDiscards a i k) h = user_discards a i k h"

definition hub_run :: "'w agent_env \<Rightarrow> 'w hub \<Rightarrow> hub_event list \<Rightarrow> 'w hub" where
  "hub_run q h es = foldl (\<lambda>h e. hub_step q e h) h es"

section \<open>What leaves was approved\<close>

definition leaving :: "'w hub \<Rightarrow> account_id \<Rightarrow> (int \<times> outbox_op) set" where
  "leaving h a = (case box_of h a of None \<Rightarrow> {} | Some b \<Rightarrow> external_rows b)"

definition asks_each :: "'w hub \<Rightarrow> bool" where
  "asks_each h \<longleftrightarrow> (\<forall>a m. hb_agent_meta h a = Some m \<longrightarrow> am_send_mode m \<noteq> SendFreely)"

lemma quiet_leaving:
  assumes "quiet_boxes X h h'"
  shows "leaving h' a \<subseteq> leaving h a"
proof (cases "box_of h a")
  case (Some b)
  then obtain b' where "box_of h' a = Some b'" "quiet (X a) b b'" using assms by (auto simp: quiet_boxes_def)
  with Some show ?thesis by (simp add: leaving_def quiet_def)
qed (use assms in \<open>simp add: leaving_def quiet_boxes_def\<close>)

lemma calm_leaving: "calm X h h' \<Longrightarrow> leaving h' a \<subseteq> leaving h a"
  unfolding calm_def using quiet_leaving by blast

lemma leaving_cong: "box_of h' a = box_of h a \<Longrightarrow> leaving h' a = leaving h a"
  by (simp add: leaving_def)

lemma asks_each_free: "asks_each h \<Longrightarrow> \<not> agent_sends_freely h account"
  by (cases account) (auto simp: asks_each_def agent_sends_freely_def meta_of_def split: option.split)

lemma on_mailbox_rules: "same_rules h (snd (on_mailbox account f h))"
  by (auto simp: on_mailbox_def same_rules_def set_mailbox_def set_account_def split: sum.split prod.split)

lemma on_mailbox_other: "account \<noteq> Some a \<Longrightarrow> box_of (snd (on_mailbox account f h)) a = box_of h a"
  by (auto simp: on_mailbox_def box_of_def set_mailbox_def set_account_def core_db_def split: sum.split prod.split option.split)

lemma same_rules_refl [simp]: "same_rules h h"
  by (simp add: same_rules_def)

lemma send_now_facts:
  "same_rules h (snd (send_now q account draft extra k h))"
  "account \<noteq> Some a \<Longrightarrow> box_of (snd (send_now q account draft extra k h)) a = box_of h a"
  by (cases draft; simp add: send_now_def Let_def case_prod_beta on_mailbox_rules on_mailbox_other)+

lemma trash_now_facts:
  "same_rules h (snd (trash_now q account v k h))"
  "account \<noteq> Some a \<Longrightarrow> box_of (snd (trash_now q account v k h)) a = box_of h a"
  by (cases "parse_args q threads_args v";
      simp add: trash_now_def change_threads_def read_then_def Let_def case_prod_beta on_mailbox_rules on_mailbox_other)+

lemma external_tools: "risk_of t = External \<longleftrightarrow> t \<in> {Send, Forward, Delete}"
  by (cases t) auto

lemma run_approved_facts:
  shows "risk_of (pk_tool p) \<noteq> External \<Longrightarrow> leaving (snd (run_approved q p k h)) a \<subseteq> leaving h a"
    and "pk_account p \<noteq> Some a \<Longrightarrow> leaving (snd (run_approved q p k h)) a \<subseteq> leaving h a"
    and "same_rules h (snd (run_approved q p k h))"
proof -
  let ?a = "pk_account p"
  have ran: "calm (\<lambda>_. UNIV) h (snd (run q ?a (pk_session p) (pk_tool p) (pk_args p) k h))" by (rule run_calm) simp
  have sent: "leaving (snd (send_now q ?a d x k h)) a = leaving h a" "leaving (snd (trash_now q ?a v k h)) a = leaving h a" if "?a \<noteq> Some a" for d x v
    using that by (rule leaving_cong [OF send_now_facts(2)], rule leaving_cong [OF trash_now_facts(2)])
  show "leaving (snd (run_approved q p k h)) a \<subseteq> leaving h a" if "risk_of (pk_tool p) \<noteq> External"
    using that calm_leaving [OF ran] by (auto simp: run_approved_def external_tools)
  show "leaving (snd (run_approved q p k h)) a \<subseteq> leaving h a" if "?a \<noteq> Some a"
    using sent [OF that] calm_leaving [OF ran] by (auto simp: run_approved_def)
  show "same_rules h (snd (run_approved q p k h))"
    using ran by (simp add: run_approved_def calm_def send_now_facts trash_now_facts)
qed

lemma unpark_facts:
  "leaving (unpark p received now h) a \<subseteq> leaving h a"
  "hb_parked (unpark p received now h) = filter (\<lambda>x. pk_ticket x \<noteq> pk_ticket p) (hb_parked h)"
  "hb_agent_meta (unpark p received now h) = hb_agent_meta h"
proof -
  let ?h1 = "h\<lparr>hb_pending := filter (\<lambda>(t, _). t \<noteq> pk_ticket p) (hb_pending h),
      hb_parked := filter (\<lambda>x. pk_ticket x \<noteq> pk_ticket p) (hb_parked h)\<rparr>"
  let ?h2 = "emit (pk_session p) (ActionResolved (pk_ticket p) (declined_outcome received = None)) ?h1"
  have c: "calm (\<lambda>_. UNIV) ?h2 (unpark p received now h)" unfolding unpark_def Let_def by (rule calm_finish)
  have "leaving ?h2 a = leaving h a" by (rule leaving_cong) (simp, simp add: box_of_def)
  with calm_leaving [OF c, of a] show "leaving (unpark p received now h) a \<subseteq> leaving h a" by simp
  show "hb_parked (unpark p received now h) = filter (\<lambda>x. pk_ticket x \<noteq> pk_ticket p) (hb_parked h)"
    "hb_agent_meta (unpark p received now h) = hb_agent_meta h"
    using c by (simp_all add: calm_def same_rules_def)
qed

lemma resume_facts:
  shows "declined_outcome received \<noteq> None \<or> risk_of (pk_tool p) \<noteq> External \<or> pk_account p \<noteq> Some a \<Longrightarrow>
      leaving (snd (resume q p received k h)) a \<subseteq> leaving h a"
    and "hb_parked (snd (resume q p received k h)) = filter (\<lambda>x. pk_ticket x \<noteq> pk_ticket p) (hb_parked h)"
    and "hb_agent_meta (snd (resume q p received k h)) = hb_agent_meta h"
proof -
  let ?h1 = "unpark p received (mo_now k) h"
  let ?ran = "run_approved q p k ?h1"
  have gone: "calm (\<lambda>_. UNIV) ?h1 (delete_draft (pk_account p) d k ?h1)" for d by (rule delete_draft_calm) simp
  have fin: "calm (\<lambda>_. UNIV) (snd ?ran) (finish_action b i st su n (snd ?ran))" for b i st su n by (rule calm_finish)
  show "leaving (snd (resume q p received k h)) a \<subseteq> leaving h a"
    if "declined_outcome received \<noteq> None \<or> risk_of (pk_tool p) \<noteq> External \<or> pk_account p \<noteq> Some a"
  proof (cases "declined_outcome received")
    case None
    then have "leaving (snd ?ran) a \<subseteq> leaving ?h1 a" using that run_approved_facts(1,2) [of p] by blast
    with None show ?thesis
      using calm_leaving [OF fin] unpark_facts(1) [of p received "mo_now k" h a]
      by (simp add: resume_def Let_def case_prod_beta) blast
  next
    case (Some x)
    with calm_leaving [OF gone] show ?thesis
      using unpark_facts(1) [of p received "mo_now k" h a] by (auto simp: resume_def Let_def split: prod.split)
  qed
  have "same_rules ?h1 (snd (resume q p received k h))"
    using gone fin run_approved_facts(3) [of ?h1 q p k]
    by (auto simp: resume_def Let_def case_prod_beta calm_def same_rules_def split: option.split)
  then show "hb_parked (snd (resume q p received k h)) = filter (\<lambda>x. pk_ticket x \<noteq> pk_ticket p) (hb_parked h)"
    "hb_agent_meta (snd (resume q p received k h)) = hb_agent_meta h"
    by (simp_all add: same_rules_def unpark_facts(2,3))
qed


lemma answer_tickets_parked:
  "p \<in> set (hb_parked (answer_tickets ts b h)) \<Longrightarrow> pk_answer p = Some True \<Longrightarrow>
     (\<exists>p' \<in> set (hb_parked h). pk_ticket p' = pk_ticket p \<and> pk_answer p' = Some True) \<or> (b \<and> pk_ticket p \<in> set ts)"
  by (auto simp: answer_tickets_def split: if_splits)

lemma reject_session_parked:
  "p \<in> set (hb_parked (reject_session session h)) \<Longrightarrow> pk_answer p = Some True \<Longrightarrow>
     \<exists>p' \<in> set (hb_parked h). pk_ticket p' = pk_ticket p \<and> pk_answer p' = Some True"
  unfolding reject_session_def using answer_tickets_parked by blast

lemma box_of_answers [simp]: "box_of (answer_tickets ts b h) = box_of h"
  by (simp add: answer_tickets_def box_of_def fun_eq_iff)

lemma open_session_facts:
  "box_of (open_session session sc sink agent a h) = box_of h" "hb_parked (open_session session sc sink agent a h) = hb_parked h"
  "hb_agent_meta (open_session session sc sink agent a h) = hb_agent_meta h"
  by (auto simp: open_session_def Let_def box_of_def set_account_def fun_eq_iff split: option.split)

lemma user_saves_calm: "calm (\<lambda>_. UNIV) h (user_saves a d k h)"
proof -
  have "quiet UNIV (mailbox_account mb) (mailbox_account (snd (core_save_draft arch d n mb)))" for arch n and mb :: "'a mailbox_state"
    by (rule quiet_mono [OF core_save_draft_quiet]) simp
  then show ?thesis unfolding user_saves_def by (intro on_mailbox_calm) (simp add: case_prod_beta Let_def)
qed

lemma step_leaving:
  assumes asks: "asks_each h" and new: "x \<in> leaving (hub_step q e h) a" "x \<notin> leaving h a"
  obtains t k p where "e = Wake t k" "waiting h t = Some p" "pk_answer p = Some True" "risk_of (pk_tool p) = External"
    "pk_account p = Some a"
proof -
  have calm: False if "calm X h (hub_step q e h)" for X using calm_leaving [OF that] new by blast
  have boxes: False if "box_of (hub_step q e h) = box_of h" using leaving_cong [of "hub_step q e h" a h] that new by simp
  show thesis
  proof (cases e)
    case (CallTool session t v k)
    have "quiet_boxes (\<lambda>_. UNIV) h (hub_step q e h)"
      unfolding CallTool hub_step.simps by (rule tool_call_facts(1) [OF asks_each_free [OF asks]]) simp
    with quiet_leaving new show ?thesis by blast
  next
    case (UserAnswers t b)
    then have "box_of (hub_step q e h) = box_of h" by (simp add: resolve_agent_action_def split: option.split)
    with boxes show ?thesis by blast
  next
    case (Wake t k)
    then obtain p b where p: "waiting h t = Some p" "pk_answer p = Some b" and "x \<in> leaving (snd (resume q p (Received b) k h)) a"
      using new by (auto split: option.splits)
    then have "\<not> (declined_outcome (Received b) \<noteq> None \<or> risk_of (pk_tool p) \<noteq> External \<or> pk_account p \<noteq> Some a)"
      using resume_facts(1) [of "Received b" p a q k h] new(2) by blast
    with that Wake p show ?thesis by (cases b) auto
  next
    case (TimeIsUp t k)
    then show ?thesis using resume_facts(1) [of TimedOut _ a q k h] new by (force split: option.splits)
  next
    case (UserSaves b d k)
    with calm user_saves_calm show ?thesis by (metis hub_step.simps(11))
  next
    case (UserDiscards b i k)
    have "calm (\<lambda>_. UNIV) h (hub_step q e h)"
      unfolding UserDiscards hub_step.simps user_discards_def by (rule delete_draft_calm) simp
    with calm show ?thesis by blast
  next
    case (Prompt session msg)
    with calm calm_update_session show ?thesis by (metis hub_step.simps(9) user_prompt_def)
  next
    case (SetPolicy names)
    then have "box_of (hub_step q e h) = box_of h"
      by (cases "policy_from names default_policy") (simp_all add: set_agent_policy_def box_of_def fun_eq_iff)
    with boxes show ?thesis by blast
  next
    case (Disconnect t)
    with boxes show ?thesis by (simp add: box_of_def fun_eq_iff)
  next
    case (CancelTurn session)
    with boxes show ?thesis by (simp add: reject_session_def)
  next
    case (OpenSession session sc sink agent b)
    with boxes show ?thesis by (simp add: open_session_facts)
  next
    case (CloseSession session)
    have "box_of (close_session session h) = box_of (reject_session session h)"
      by (simp add: close_session_def box_of_def fun_eq_iff)
    with CloseSession boxes show ?thesis by (simp add: reject_session_def)
  qed
qed

text \<open>A parked call is approved only by the user's answer to its ticket.\<close>

lemma step_parked:
  assumes asks: "asks_each h" and p: "p \<in> set (hb_parked (hub_step q e h))" "pk_answer p = Some True"
  shows "(\<exists>p' \<in> set (hb_parked h). pk_ticket p' = pk_ticket p \<and> pk_answer p' = Some True) \<or> e = UserAnswers (pk_ticket p) True"
proof -
  have same: ?thesis if "set (hb_parked (hub_step q e h)) \<subseteq> set (hb_parked h)" using that p by blast
  show ?thesis
  proof (cases e)
    case (CallTool session t v k)
    have "parks h (hub_step q e h)"
      unfolding CallTool hub_step.simps by (rule tool_call_facts(2) [OF asks_each_free [OF asks], where X = "\<lambda>_. UNIV"]) simp
    with p show ?thesis by (auto simp: parks_def)
  next
    case (UserAnswers t b)
    with p show ?thesis
      using answer_tickets_parked [of p "[t]" b h] by (auto simp: resolve_agent_action_def split: option.splits)
  next
    case (Wake t k)
    show ?thesis by (rule same) (auto simp: Wake resume_facts(2) split: option.split)
  next
    case (TimeIsUp t k)
    show ?thesis by (rule same) (auto simp: TimeIsUp resume_facts(2) split: option.split)
  next
    case (CancelTurn session)
    with p reject_session_parked show ?thesis by fastforce
  next
    case (CloseSession session)
    with p reject_session_parked [of p session h] show ?thesis by (auto simp: close_session_def)
  next
    case (UserSaves b d k)
    have "hb_parked (hub_step q e h) = hb_parked h"
      using user_saves_calm [of h b d k] by (simp add: UserSaves calm_def same_rules_def)
    with same show ?thesis by simp
  next
    case (UserDiscards b i k)
    have "calm (\<lambda>_. UNIV) h (hub_step q e h)"
      unfolding UserDiscards hub_step.simps user_discards_def by (rule delete_draft_calm) simp
    with same show ?thesis by (simp add: calm_def same_rules_def)
  next
    case (Prompt session msg)
    have "hb_parked (hub_step q e h) = hb_parked h"
      using calm_update_session [of "\<lambda>_. UNIV" h] by (simp add: Prompt user_prompt_def calm_def same_rules_def)
    with same show ?thesis by simp
  next
    case (SetPolicy names)
    show ?thesis by (rule same) (auto simp: SetPolicy set_agent_policy_def split: sum.splits)
  next
    case (Disconnect t)
    show ?thesis by (rule same) (auto simp: Disconnect)
  next
    case (OpenSession session sc sink agent b)
    show ?thesis by (rule same) (simp add: OpenSession open_session_facts)
  qed
qed


lemma step_meta:
  assumes "asks_each h"
  shows "hb_agent_meta (hub_step q e h) = hb_agent_meta h"
proof (cases e)
  case (CallTool session t v k)
  have "parks h (hub_step q e h)"
    unfolding CallTool hub_step.simps by (rule tool_call_facts(2) [OF asks_each_free [OF assms], where X = "\<lambda>_. UNIV"]) simp
  then show ?thesis by (simp add: parks_def)
next
  case (UserSaves b d k)
  then show ?thesis using user_saves_calm [of h b d k] by (simp add: calm_def same_rules_def)
next
  case (UserDiscards b i k)
  have "calm (\<lambda>_. UNIV) h (hub_step q e h)"
    unfolding UserDiscards hub_step.simps user_discards_def by (rule delete_draft_calm) simp
  then show ?thesis by (simp add: calm_def same_rules_def)
next
  case (Prompt session msg)
  then show ?thesis using calm_update_session [of "\<lambda>_. UNIV" h] by (simp add: user_prompt_def calm_def same_rules_def)
next
  case (SetPolicy names)
  then show ?thesis by (cases "policy_from names default_policy") (simp_all add: set_agent_policy_def)
qed (auto simp: resume_facts(3) open_session_facts close_session_def reject_session_def answer_tickets_def resolve_agent_action_def
       split: option.split)

lemma hub_run_simps [simp]: "hub_run q h [] = h" "hub_run q h (es @ [e]) = hub_step q e (hub_run q h es)"
  by (simp_all add: hub_run_def)

lemma hub_run_asks: "asks_each h \<Longrightarrow> asks_each (hub_run q h es)"
  by (induction es rule: rev_induct) (simp_all add: asks_each_def step_meta)

lemma parked_was_answered:
  assumes "asks_each h" "hb_parked h = []" "p \<in> set (hb_parked (hub_run q h es))" "pk_answer p = Some True"
  shows "UserAnswers (pk_ticket p) True \<in> set es"
  using assms(3,4)
proof (induction es arbitrary: p rule: rev_induct)
  case (snoc e es)
  then show ?case
    using step_parked [of "hub_run q h es" p q e] assms(1) by (fastforce simp: hub_run_asks)
qed (simp add: assms(2))

text \<open>
  Claim C24: While the user has no agent mailbox that sends freely, no call of an agent puts a message to send,
  or threads to trash, into an account's outbox, except when a parked call for that account runs on after the user's
  approval of its ticket: whatever the agents call, in whatever order, and whatever the user saves, discards,
  closes or configures in between. (What the user sends or trashes by hand is not an event here.)
\<close>

theorem nothing_leaves_without_approval:
  assumes "asks_each h" "hb_parked h = []" "x \<in> leaving (hub_run q h es) a" "x \<notin> leaving h a"
  shows "\<exists>es1 t k es2 p. es = es1 @ Wake t k # es2 \<and> UserAnswers t True \<in> set es1 \<and>
    waiting (hub_run q h es1) t = Some p \<and> risk_of (pk_tool p) = External \<and> pk_account p = Some a"
  using assms(3)
proof (induction es rule: rev_induct)
  case (snoc e es)
  show ?case
  proof (cases "x \<in> leaving (hub_run q h es) a")
    case True
    then show ?thesis using snoc.IH by (metis append_Cons append_assoc)
  next
    case False
    then obtain t k p where p: "e = Wake t k" "waiting (hub_run q h es) t = Some p" "pk_answer p = Some True"
        "risk_of (pk_tool p) = External" "pk_account p = Some a"
      using step_leaving [of "hub_run q h es" x q e a] snoc.prems assms(1) by (auto simp: hub_run_asks)
    have "p \<in> set (hb_parked (hub_run q h es))" "pk_ticket p = t"
      using p(2) by (auto simp: waiting_def find_Some_iff)
    then have "UserAnswers t True \<in> set es"
      using parked_was_answered [OF assms(1,2)] p(3) by blast
    with p show ?thesis by blast
  qed
qed (simp add: assms(4))


end
