(* ===== verification/Runs.thy ===== *)
theory Runs
  imports Approved
begin

text \<open>
  Whole runs of a small hub, evaluated event by event: the laws of \<open>Guarded\<close> and \<open>Approved\<close> at work, and two
  orders of events in which the agents' hub does not keep what \<^verbatim>\<open>docs/security.md\<close> promises.
\<close>

declare publish_def [code del]

section \<open>A small mailbox\<close>

text \<open>An agent mailbox of the headless kind of store, with nothing in it, and one session on it.\<close>

definition plain_compose :: compose_env where
  "plain_compose = plain_env\<lparr>ce_writer := \<lparr>mw_quoted_text = id, mw_write = (\<lambda>m. Ok (map of_char (og_html m)))\<rparr>, ce_base64 := map char_of\<rparr>"

definition office_env :: "nat agent_env" where
  "office_env = \<lparr>av_sync = (\<lambda>_. quiet_env), av_compose = plain_compose, av_markdown = id, av_html_to_text = id,
     av_serde_error = (\<lambda>_. ''bad''), av_search = (\<lambda>_ _ _ _. Ok ([], None)), av_facts = (\<lambda>_ _ _. Ok JNull),
     av_guide_text = (\<lambda>_ _. []), av_guide_check = (\<lambda>_ _. []), av_composed = (\<lambda>_ _ _. []),
     av_attachment_id = (\<lambda>_ _ _. []), av_attachment_message = (\<lambda>_ _. None), av_attachment_text = (\<lambda>_ _. Err (OutErr [] [])),
     av_label_numbers = id\<rparr>"

definition office_account :: "nat open_account" where
  "office_account = \<lparr>ka_mailbox = Unserved new_sync_db, ka_sessions = [], ka_actions = []\<rparr>"

definition office :: "nat hub" where
  "office = \<lparr>hb_accounts = [''a'' \<mapsto> office_account], hb_current = Some ''a'',
     hb_agent_meta = [''a'' \<mapsto> \<lparr>am_name = ''Pat'', am_address = ''pat@x.org'', am_service = AgentMail, am_service_meta = None, am_send_mode = AskEachSend\<rparr>],
     hb_archives = {}, hb_headless = False, hb_send_delay = 10000, hb_sessions = Map.empty, hb_session_accounts = Map.empty,
     hb_routine_sessions = {}, hb_policy = default_policy, hb_pending = [], hb_next_ticket = 0, hb_parked = [], hb_events = []\<rparr>"

definition at :: "nat \<Rightarrow> moment" where
  "at n = \<lparr>mo_now = int n, mo_rfc_token = ''r'', mo_token = ''t''\<rparr>"

definition lunch :: json where
  "lunch = JObj [(''to'', JArr [JStr ''ann@x.org'']), (''body_markdown'', JStr ''Lunch?'')]"

definition draft_arg :: "(string \<times> json) list \<Rightarrow> json" where
  "draft_arg fs = JObj ((''draft_id'', JInt 1) # fs)"

definition sending_lunch :: "hub_event list" where
  "sending_lunch = [OpenSession ''s'' Mailbox True ''claude'' ''a'', CallTool ''s'' CreateDraft lunch (at 1),
     CallTool ''s'' Send (draft_arg []) (at 2)]"

definition leaving_rows :: "'w hub \<Rightarrow> account_id \<Rightarrow> (int \<times> outbox_op) list" where
  "leaving_rows h a =
     (case box_of h a of None \<Rightarrow> [] | Some b \<Rightarrow> map (\<lambda>r. (ob_id r, ob_op r)) (filter (\<lambda>r. is_external (ob_op r)) (db_outbox b)))"

lemma leaving_rows: "leaving h a = set (leaving_rows h a)"
  by (auto simp: leaving_def leaving_rows_def external_rows_def split: option.split)

definition user_drafts :: "'w hub \<Rightarrow> account_id \<Rightarrow> draft_record list" where
  "user_drafts h a = (case box_of h a of None \<Rightarrow> [] | Some b \<Rightarrow> map dw_record (db_drafts b))"

definition new_body :: "string \<Rightarrow> nat \<Rightarrow> hub_event" where
  "new_body body n = CallTool ''s'' UpdateDraft (draft_arg [(''body_markdown'', JStr body)]) (at n)"

section \<open>What the approval of a send lets go\<close>

lemma lunch_leaves:
  "leaving_rows (hub_run office_env office (sending_lunch @ [UserAnswers 1 True, Wake 1 (at 4)])) ''a'' =
     [(1, OpSend 1 ''Lunch?'' None ''local-t'')]"
  by code_simp

theorem nothing_leaves_without_approval_witness:
  "\<exists>es1 t k es2 p. sending_lunch @ [UserAnswers 1 True, Wake 1 (at 4)] = es1 @ Wake t k # es2 \<and> UserAnswers t True \<in> set es1 \<and>
    waiting (hub_run office_env office es1) t = Some p \<and> risk_of (pk_tool p) = External \<and> pk_account p = Some ''a''"
proof (rule nothing_leaves_without_approval)
  show "asks_each office" "hb_parked office = []" by (auto simp: asks_each_def office_def)
  show "(1, OpSend 1 ''Lunch?'' None ''local-t'') \<in> leaving (hub_run office_env office (sending_lunch @ [UserAnswers 1 True, Wake 1 (at 4)])) ''a''"
    by (simp only: leaving_rows lunch_leaves) simp
  show "(1, OpSend 1 ''Lunch?'' None ''local-t'') \<notin> leaving office ''a''"
    by (simp add: leaving_def office_def box_of_def office_account_def external_rows_def new_sync_db_def new_account_db_def)
qed

text \<open>
  The draft the user approves can change before it is sent. The answer ends the review at once, and the
  parked call sends whatever the draft holds when it runs on: an update of the agent that comes between
  the two is allowed, and the changed text is what leaves.
\<close>

theorem an_approved_draft_can_change_before_it_is_sent:
  "leaving_rows (hub_run office_env office (sending_lunch @ [UserAnswers 1 True, new_body ''Dinner?'' 3, Wake 1 (at 4)])) ''a'' =
     [(1, OpSend 1 ''Dinner?'' None ''local-t'')]"
  by code_simp

text \<open>
  A draft of the user's can fall to an agent. A session may change and propose the drafts it
  created, which it knows by number; when the user discards such a draft, the next one the user writes
  takes its number, and the agent's update rewrites it.
\<close>

theorem a_discarded_number_hands_over_the_users_draft:
  "user_drafts (hub_run office_env office
      [OpenSession ''s'' Mailbox True ''claude'' ''a'', CallTool ''s'' CreateDraft lunch (at 1), UserDiscards ''a'' 1 (at 2),
       UserSaves ''a'' (default_draft\<lparr>dr_subject := ''Mine'', dr_body_html := ''My own words''\<rparr>) (at 3), new_body ''Gone'' 4]) ''a'' =
     [default_draft\<lparr>dr_id := 1, dr_subject := ''Mine'', dr_body_html := ''Gone'', dr_updated_at := 4\<rparr>]"
  by code_simp

section \<open>A draft in review\<close>

lemma lunch_in_review:
  "is_frozen (hub_run office_env office sending_lunch) (Some ''a'') 1"
  "(case hb_accounts (hub_run office_env office sending_lunch) ''a'' of
      None \<Rightarrow> False
    | Some s \<Rightarrow> (case get_draft (mailbox_account (ka_mailbox s)) 1 of None \<Rightarrow> False | Some r \<Rightarrow> dr_body_html r = ''Lunch?''))"
  by code_simp+

theorem a_draft_in_review_is_frozen_witness:
  "\<exists>s r. hb_accounts (hub_run office_env office (sending_lunch @ [new_body ''Dinner?'' 3])) ''a'' = Some s \<and>
    get_draft (mailbox_account (ka_mailbox s)) 1 = Some r \<and> dr_body_html r = ''Lunch?''"
proof -
  let ?h = "hub_run office_env office sending_lunch"
  obtain s r where s: "hb_accounts ?h ''a'' = Some s" "get_draft (mailbox_account (ka_mailbox s)) 1 = Some r" "dr_body_html r = ''Lunch?''"
    using lunch_in_review(2) by (auto split: option.splits)
  have "asks_each ?h" by (rule hub_run_asks) (simp add: asks_each_def office_def)
  then have "\<exists>s'. hb_accounts (hub_step office_env (new_body ''Dinner?'' 3) ?h) ''a'' = Some s' \<and>
      get_draft (mailbox_account (ka_mailbox s')) 1 = Some r"
    unfolding new_body_def hub_step.simps by (rule a_draft_in_review_is_frozen [OF lunch_in_review(1) s(1,2) asks_each_free])
  with s(3) show ?thesis by auto
qed

end
