(* ===== verification/Search.thy ===== *)
theory Search
  imports Compose Calendar
begin

text \<open>
  The search language (\<^verbatim>\<open>mail-store/src/search/parse.rs\<close>): a query is cut into tokens and parsed by
  recursive descent into a tree. Positions are byte offsets. The parser runs on fuel; \<open>enough_fuel\<close> shows
  that four units per token and two more are never used up. A grammar, the one in the
  source's comment, is the reference the parser is proved to agree with.
\<close>

section \<open>Trees and tokens\<close>

datatype search_mailbox = SmInbox | SmArchive | SmSent | SmDrafts | SmTrash | SmSpam | SmStarred | SmAnywhere

datatype flag = FlUnread | FlRead | FlStarred | FlImportant

datatype search_expr =
    SAnd "search_expr list"
  | SOr "search_expr list"
  | SNot search_expr
  | SText string
  | SPhrase string
  | SFrom string
  | STo string
  | SCc string
  | SBcc string
  | SSubject string
  | SLabel string
  | SIn search_mailbox
  | SIs flag
  | SHasAttachment
  | SFilename string
  | SAfter millis
  | SBefore millis
  | SNewerThan int
  | SOlderThan int
  | SLarger int
  | SSmaller int

fun mentions_spam_or_trash :: "search_expr \<Rightarrow> bool" where
  "mentions_spam_or_trash (SAnd es) = list_ex mentions_spam_or_trash es"
| "mentions_spam_or_trash (SOr es) = list_ex mentions_spam_or_trash es"
| "mentions_spam_or_trash (SNot e) = mentions_spam_or_trash e"
| "mentions_spam_or_trash (SIn m) = (m = SmTrash \<or> m = SmSpam \<or> m = SmAnywhere)"
| "mentions_spam_or_trash (SLabel v) = (to_ascii_lowercase v = ''spam'' \<or> to_ascii_lowercase v = ''trash'')"
| "mentions_spam_or_trash _ = False"

definition search_is_empty :: "search_expr \<Rightarrow> bool" where
  "search_is_empty e \<longleftrightarrow> e = SAnd []"

text \<open>A query is refused with a message and a position; or the parser panics; or its fuel runs out.\<close>

datatype parse_failure = ParseError string nat | ParsePanic | NoFuel

datatype token_kind = KWord string | KQuoted string | KField string | KMinus | KOpen | KClose | KOr

fun describe :: "token_kind \<Rightarrow> string" where
  "describe (KWord w) = [CHR 0x22] @ w @ [CHR 0x22]"
| "describe (KQuoted w) = [CHR 0x22] @ w @ [CHR 0x22]"
| "describe (KField f) = f @ '':''"
| "describe KMinus = ''-''"
| "describe KOpen = ''(''"
| "describe KClose = '')''"
| "describe KOr = ''OR''"

record search_token =
  tk_kind :: token_kind
  tk_at :: nat

definition FIELDS :: "string list" where
  "FIELDS = [''from'', ''to'', ''cc'', ''bcc'', ''subject'', ''label'', ''in'', ''is'', ''has'', ''filename'',
     ''after'', ''before'', ''older_than'', ''newer_than'', ''larger'', ''smaller'']"

section \<open>Cutting into tokens\<close>

abbreviation dquote :: char where
  "dquote \<equiv> CHR 0x22"

text \<open>What follows an open quote: the value, what is left, and where that starts.\<close>

definition read_quoted :: "nat \<Rightarrow> string \<Rightarrow> (parse_failure, string \<times> nat \<times> string) result" where
  "read_quoted open cs =
     (let value = takeWhile (\<lambda>c. c \<noteq> dquote) cs
      in case dropWhile (\<lambda>c. c \<noteq> dquote) cs of
           [] \<Rightarrow> Err (ParseError ''unclosed quote'' open)
         | q # rest \<Rightarrow> Ok (value, open + utf8_len value + 2, rest))"

definition in_word :: "char \<Rightarrow> bool" where
  "in_word c \<longleftrightarrow> \<not> is_whitespace c \<and> c \<noteq> CHR ''('' \<and> c \<noteq> CHR '')'' \<and> c \<noteq> dquote"

lemma read_quoted_length: "read_quoted open cs = Ok (v, n, rest) \<Longrightarrow> length rest < length cs"
  using length_dropWhile_le [of "\<lambda>c. c \<noteq> dquote" cs] by (auto simp: read_quoted_def Let_def split: list.splits)

definition token :: "token_kind \<Rightarrow> nat \<Rightarrow> search_token" where
  "token k at = \<lparr>tk_kind = k, tk_at = at\<rparr>"

text \<open>The field a word names, and the rest of the word, when it is one of the fields.\<close>

definition field_of_word :: "string \<Rightarrow> (string \<times> string) option" where
  "field_of_word w =
     (case split_once (CHR '':'') w of
        Some (f, rest) \<Rightarrow> if to_ascii_lowercase f \<in> set FIELDS then Some (f, rest) else None
      | None \<Rightarrow> None)"

text \<open>The tokens of a word that ends before \<open>rest\<close>: a field takes its value from the word or from a quote.\<close>

definition word_tokens ::
    "nat \<Rightarrow> string \<Rightarrow> string \<Rightarrow> (parse_failure, search_token list \<times> nat \<times> string) result" where
  "word_tokens at word rest =
     (let end = at + utf8_len word
      in case field_of_word word of
           Some (f, v) \<Rightarrow>
             let field = token (KField (to_ascii_lowercase f)) at
             in if v \<noteq> [] then Ok ([field, token (KWord v) (at + utf8_len f + 1)], end, rest)
                else (case rest of
                        c # cs \<Rightarrow>
                          if c = dquote
                          then (case read_quoted end cs of
                                  Inl e \<Rightarrow> Err e
                                | Inr (value, after, rest') \<Rightarrow> Ok ([field, token (KQuoted value) end], after, rest'))
                          else Err (ParseError (f @ '': needs a value'') at)
                      | [] \<Rightarrow> Err (ParseError (f @ '': needs a value'') at))
         | None \<Rightarrow>
             Ok ([token (if word = ''OR'' \<or> word = ''|'' then KOr else KWord word) at], end, rest))"

lemma word_tokens_length: "word_tokens at word rest = Ok (ts, n, rest') \<Longrightarrow> length rest' \<le> length rest"
  by (fastforce simp: word_tokens_def Let_def dest: read_quoted_length split: option.splits list.splits if_splits sum.splits)

lemma word_tokens_shorter:
  "word_tokens at (c # takeWhile in_word cs) (dropWhile in_word cs) = Ok (ts, n, rest) \<Longrightarrow> length rest \<le> length cs"
  using word_tokens_length length_dropWhile_le [of in_word cs] by fastforce

text \<open>One turn of the loop: the tokens it adds and what is left.\<close>

definition next_tokens ::
    "nat \<Rightarrow> char \<Rightarrow> string \<Rightarrow> (parse_failure, search_token list \<times> nat \<times> string) result" where
  "next_tokens at c cs =
     (if is_whitespace c then Ok ([], at + char_utf8_len c, cs)
      else if c = CHR ''('' then Ok ([token KOpen at], at + 1, cs)
      else if c = CHR '')'' then Ok ([token KClose at], at + 1, cs)
      else if c = CHR ''-'' \<and> cs \<noteq> [] \<and> \<not> is_whitespace (hd cs) then Ok ([token KMinus at], at + 1, cs)
      else if c = dquote
      then (case read_quoted at cs of
              Inl e \<Rightarrow> Err e
            | Inr (value, after, rest) \<Rightarrow> Ok ([token (KQuoted value) at], after, rest))
      else word_tokens at (c # takeWhile in_word cs) (dropWhile in_word cs))"

lemma next_tokens_shorter: "next_tokens at c cs = Ok (ts, n, rest) \<Longrightarrow> length rest \<le> length cs"
  by (auto simp: next_tokens_def dest: read_quoted_length word_tokens_shorter split: if_splits sum.splits)

function tokenize :: "nat \<Rightarrow> string \<Rightarrow> (parse_failure, search_token list) result" where
  "tokenize at [] = Ok []"
| "tokenize at (c # cs) =
     (case next_tokens at c cs of
        Inl e \<Rightarrow> Err e
      | Inr (ts, next, rest) \<Rightarrow> (case tokenize next rest of Inl e \<Rightarrow> Err e | Inr us \<Rightarrow> Ok (ts @ us)))"
  by pat_completeness auto
termination
  by (relation "measure (\<lambda>(at, cs). length cs)") (auto dest: next_tokens_shorter simp: less_Suc_eq_le)

section \<open>Values of fields\<close>

text \<open>\<^verbatim>\<open>str::parse\<close> into an unsigned integer below a bound: a plus sign is accepted.\<close>

definition parse_unsigned :: "int \<Rightarrow> string \<Rightarrow> int option" where
  "parse_unsigned bound s =
     (case parse_digits (case s of c # cs \<Rightarrow> if c = CHR ''+'' then cs else s | [] \<Rightarrow> []) of
        Some n \<Rightarrow> if int n < bound then Some (int n) else None
      | None \<Rightarrow> None)"

definition parse_date :: "string \<Rightarrow> (string, millis) result" where
  "parse_date v =
     (case split_on (\<lambda>c. c = CHR ''-'' \<or> c = CHR ''/'') v of
        [y, m, d] \<Rightarrow>
          (case (parse_i64 y, parse_i64 m, parse_i64 d) of
             (None, _, _) \<Rightarrow> Err (''bad year in '' @ debug_string v)
           | (Some _, None, _) \<Rightarrow> Err (''bad month in '' @ debug_string v)
           | (Some _, Some _, None) \<Rightarrow> Err (''bad day in '' @ debug_string v)
           | (Some y, Some m, Some d) \<Rightarrow>
               if y < 1970 \<or> 9999 < y \<or> m < 1 \<or> 12 < m \<or> d < 1 \<or> 31 < d
               then Err (debug_string v @ '' is not a date'')
               else Ok (days_from_civil y m d * 86400000))
      | _ \<Rightarrow> Err (''dates look like 2026-01-31, not '' @ debug_string v))"

text \<open>
  \<^verbatim>\<open>parse_age\<close> splits the value one byte before its end: a last character of two bytes is cut in
  two, which panics.
\<close>

definition AGES_LOOK :: "string \<Rightarrow> string" where
  "AGES_LOOK v = ''ages look like 7d, 2m or 1y, not '' @ debug_string v"

definition parse_age :: "string \<Rightarrow> (string option, int) result" where
  "parse_age v =
     (if v \<noteq> [] \<and> char_utf8_len (last v) \<noteq> 1 then Err None
      else (case parse_unsigned (2 ^ 32) (butlast v) of
              None \<Rightarrow> Err (Some (AGES_LOOK v))
            | Some n \<Rightarrow>
                (case to_ascii_lowercase (drop (length v - 1) v) of
                   [u] \<Rightarrow>
                     if u = CHR ''d'' then Ok n
                     else if u = CHR ''m'' then Ok (min (2 ^ 32 - 1) (n * 30))
                     else if u = CHR ''y'' then Ok (min (2 ^ 32 - 1) (n * 365))
                     else Err (Some (AGES_LOOK v))
                 | _ \<Rightarrow> Err (Some (AGES_LOOK v)))))"

definition parse_size :: "string \<Rightarrow> (string, int) result" where
  "parse_size v =
     (let lower = to_ascii_lowercase v;
          (n, mult) =
            (if lower = [] then (lower, 1)
             else if last lower = CHR ''k'' then (butlast lower, 1024)
             else if last lower = CHR ''m'' then (butlast lower, 1024 * 1024)
             else if last lower = CHR ''g'' then (butlast lower, 1024 * 1024 * 1024)
             else (lower, 1))
      in case parse_unsigned (2 ^ 64) n of
           None \<Rightarrow> Err (''sizes look like 5M or 200K, not '' @ debug_string v)
         | Some n \<Rightarrow> Ok (min (2 ^ 64 - 1) (n * mult)))"

definition mailbox_named :: "string \<Rightarrow> search_mailbox option" where
  "mailbox_named v =
     (if v = ''inbox'' then Some SmInbox
      else if v = ''archive'' \<or> v = ''archived'' then Some SmArchive
      else if v = ''sent'' then Some SmSent
      else if v = ''drafts'' \<or> v = ''draft'' then Some SmDrafts
      else if v = ''trash'' then Some SmTrash
      else if v = ''spam'' then Some SmSpam
      else if v = ''starred'' then Some SmStarred
      else if v = ''anywhere'' \<or> v = ''all'' then Some SmAnywhere
      else None)"

definition flag_named :: "string \<Rightarrow> flag option" where
  "flag_named v =
     (if v = ''unread'' then Some FlUnread
      else if v = ''read'' then Some FlRead
      else if v = ''starred'' then Some FlStarred
      else if v = ''important'' then Some FlImportant
      else None)"

text \<open>The term a field and its value mean; the error \<^term>\<open>None\<close> is a panic.\<close>

definition field_expr :: "string \<Rightarrow> string \<Rightarrow> (string option, search_expr) result" where
  "field_expr field v =
     (let lower = to_ascii_lowercase v
      in if field = ''from'' then Ok (SFrom v)
         else if field = ''to'' then Ok (STo v)
         else if field = ''cc'' then Ok (SCc v)
         else if field = ''bcc'' then Ok (SBcc v)
         else if field = ''subject'' then Ok (SSubject v)
         else if field = ''label'' then Ok (SLabel v)
         else if field = ''filename'' then Ok (SFilename v)
         else if field = ''in'' then
           (case mailbox_named lower of Some m \<Rightarrow> Ok (SIn m) | None \<Rightarrow> Err (Some (''unknown mailbox '' @ debug_string v)))
         else if field = ''is'' then
           (case flag_named lower of Some f \<Rightarrow> Ok (SIs f) | None \<Rightarrow> Err (Some (''unknown is:'' @ v)))
         else if field = ''has'' then
           (if lower = ''attachment'' \<or> lower = ''attachments'' then Ok SHasAttachment else Err (Some (''unknown has:'' @ v)))
         else if field = ''after'' then map_sum Some SAfter (parse_date v)
         else if field = ''before'' then map_sum Some SBefore (parse_date v)
         else if field = ''newer_than'' then map_sum id SNewerThan (parse_age v)
         else if field = ''older_than'' then map_sum id SOlderThan (parse_age v)
         else if field = ''larger'' then map_sum Some SLarger (parse_size v)
         else if field = ''smaller'' then map_sum Some SSmaller (parse_size v)
         else Err (Some (''unknown field '' @ field)))"

section \<open>The parser\<close>

fun one_of :: "(search_expr list \<Rightarrow> search_expr) \<Rightarrow> search_expr list \<Rightarrow> search_expr" where
  "one_of f [e] = e"
| "one_of f es = f es"

fun value_of :: "token_kind \<Rightarrow> string option" where
  "value_of (KWord v) = Some v"
| "value_of (KQuoted v) = Some v"
| "value_of _ = None"

definition field_term :: "search_token \<Rightarrow> string \<Rightarrow> string \<Rightarrow> (parse_failure, search_expr) result" where
  "field_term t f v =
     (case field_expr f v of
        Inl None \<Rightarrow> Err ParsePanic
      | Inl (Some message) \<Rightarrow> Err (ParseError message (tk_at t))
      | Inr e \<Rightarrow> Ok e)"

text \<open>\<^verbatim>\<open>and\<close>, once its terms are read: there is one at least.\<close>

definition and_of ::
    "search_expr list \<times> search_token list \<Rightarrow> (parse_failure, search_expr \<times> search_token list) result" where
  "and_of = (\<lambda>(es, r).
     if es = [] then Err (ParseError ''expected a search term'' (case r of t # _ \<Rightarrow> tk_at t | [] \<Rightarrow> 0))
     else Ok (one_of SAnd es, r))"

text \<open>
  \<open>p_ors\<close> reads the alternatives of an \<^verbatim>\<open>or\<close>, \<open>p_units\<close> the terms of an \<^verbatim>\<open>and\<close>, \<open>p_unary\<close> one term.
\<close>

fun p_ors :: "nat \<Rightarrow> search_token list \<Rightarrow> (parse_failure, search_expr list \<times> search_token list) result"
and p_units :: "nat \<Rightarrow> search_token list \<Rightarrow> (parse_failure, search_expr list \<times> search_token list) result"
and p_unary :: "nat \<Rightarrow> search_token list \<Rightarrow> (parse_failure, search_expr \<times> search_token list) result" where
  "p_ors 0 ts = Err NoFuel"
| "p_ors (Suc n) ts =
     (case p_units n ts of
        Inl e \<Rightarrow> Err e
      | Inr found \<Rightarrow>
          (case and_of found of
             Inl e \<Rightarrow> Err e
           | Inr (e, []) \<Rightarrow> Ok ([e], [])
           | Inr (e, t # r) \<Rightarrow>
               if tk_kind t = KOr
               then (case p_ors n r of Inl e \<Rightarrow> Err e | Inr (es, r') \<Rightarrow> Ok (e # es, r'))
               else Ok ([e], t # r)))"
| "p_units 0 ts = Err NoFuel"
| "p_units (Suc n) [] = Ok ([], [])"
| "p_units (Suc n) (t # ts) =
     (if tk_kind t = KOr \<or> tk_kind t = KClose then Ok ([], t # ts)
      else (case p_unary n (t # ts) of
              Inl e \<Rightarrow> Err e
            | Inr (e, r) \<Rightarrow> (case p_units n r of Inl e \<Rightarrow> Err e | Inr (es, r') \<Rightarrow> Ok (e # es, r'))))"
| "p_unary 0 ts = Err NoFuel"
| "p_unary (Suc n) [] = Err (ParseError ''unexpected end of query'' 0)"
| "p_unary (Suc n) (t # ts) =
     (case tk_kind t of
        KMinus \<Rightarrow> (case p_unary n ts of Inl e \<Rightarrow> Err e | Inr (e, r) \<Rightarrow> Ok (SNot e, r))
      | KOpen \<Rightarrow>
          (case p_ors n ts of
             Inl e \<Rightarrow> Err e
           | Inr (es, []) \<Rightarrow> Err (ParseError ''missing )'' (tk_at t))
           | Inr (es, c # r) \<Rightarrow>
               if tk_kind c = KClose then Ok (one_of SOr es, r) else Err (ParseError ''missing )'' (tk_at t)))
      | KQuoted q \<Rightarrow> Ok (SPhrase q, ts)
      | KWord w \<Rightarrow> Ok (SText w, ts)
      | KField f \<Rightarrow>
          (case ts of
             [] \<Rightarrow> Err (ParseError (f @ '': needs a value'') (tk_at t))
           | v # r \<Rightarrow>
               (case value_of (tk_kind v) of
                  None \<Rightarrow> Err (ParseError (f @ '': needs a value'') (tk_at t))
                | Some x \<Rightarrow> (case field_term t f x of Inl e \<Rightarrow> Err e | Inr e \<Rightarrow> Ok (e, r))))
      | k \<Rightarrow> Err (ParseError (''unexpected '' @ describe k) (tk_at t)))"

definition parse_fuel :: "search_token list \<Rightarrow> nat" where
  "parse_fuel ts = 4 * length ts + 2"

definition parse_tokens :: "search_token list \<Rightarrow> (parse_failure, search_expr) result" where
  "parse_tokens ts =
     (if ts = [] then Ok (SAnd [])
      else (case p_ors (parse_fuel ts) ts of
              Inl e \<Rightarrow> Err e
            | Inr (es, []) \<Rightarrow> Ok (one_of SOr es)
            | Inr (es, t # r) \<Rightarrow> Err (ParseError (''unexpected '' @ describe (tk_kind t)) (tk_at t))))"

definition parse_query :: "string \<Rightarrow> (parse_failure, search_expr) result" where
  "parse_query input = (case tokenize 0 input of Inl e \<Rightarrow> Err e | Inr ts \<Rightarrow> parse_tokens ts)"

section \<open>The grammar\<close>

text \<open>
  The grammar of the source's comment, with the trees it gives: alternatives between \<^verbatim>\<open>OR\<close>s, terms side
  by side, negation, brackets, fields with their value.
\<close>

inductive g_ors :: "search_token list \<Rightarrow> search_expr list \<Rightarrow> bool"
and g_units :: "search_token list \<Rightarrow> search_expr list \<Rightarrow> bool"
and g_unary :: "search_token list \<Rightarrow> search_expr \<Rightarrow> bool" where
  ors_one: "g_units ts es \<Longrightarrow> es \<noteq> [] \<Longrightarrow> g_ors ts [one_of SAnd es]"
| ors_more: "g_units ts es \<Longrightarrow> es \<noteq> [] \<Longrightarrow> tk_kind t = KOr \<Longrightarrow> g_ors us fs \<Longrightarrow> g_ors (ts @ t # us) (one_of SAnd es # fs)"
| units_none: "g_units [] []"
| units_more: "g_unary ts e \<Longrightarrow> g_units us es \<Longrightarrow> g_units (ts @ us) (e # es)"
| unary_not: "tk_kind t = KMinus \<Longrightarrow> g_unary ts e \<Longrightarrow> g_unary (t # ts) (SNot e)"
| unary_brackets: "tk_kind t = KOpen \<Longrightarrow> g_ors ts es \<Longrightarrow> tk_kind c = KClose \<Longrightarrow> g_unary (t # ts @ [c]) (one_of SOr es)"
| unary_phrase: "tk_kind t = KQuoted q \<Longrightarrow> g_unary [t] (SPhrase q)"
| unary_word: "tk_kind t = KWord w \<Longrightarrow> g_unary [t] (SText w)"
| unary_field: "tk_kind t = KField f \<Longrightarrow> value_of (tk_kind v) = Some x \<Longrightarrow> field_expr f x = Ok e \<Longrightarrow> g_unary [t, v] e"

definition means :: "search_token list \<Rightarrow> search_expr \<Rightarrow> bool" where
  "means ts e \<longleftrightarrow> (ts = [] \<and> e = SAnd []) \<or> (\<exists>es. g_ors ts es \<and> e = one_of SOr es)"

lemma parser_sound:
  "p_ors n ts = Ok (es, r) \<Longrightarrow> \<exists>us. ts = us @ r \<and> g_ors us es"
  "p_units n ts = Ok (es, r) \<Longrightarrow> \<exists>us. ts = us @ r \<and> g_units us es"
  "p_unary n ts = Ok (e, r) \<Longrightarrow> \<exists>us. ts = us @ r \<and> g_unary us e"
proof (induction n ts and n ts and n ts arbitrary: es r and es r and e r rule: p_ors_p_units_p_unary.induct)
  case (2 n ts)
  then obtain fs r1 where u: "p_units n ts = Ok (fs, r1)" "fs \<noteq> []" by (auto simp: and_of_def split: sum.splits if_splits)
  then obtain us where us: "ts = us @ r1" "g_units us fs" using 2 by blast
  show ?case
  proof (cases "\<exists>t r2. r1 = t # r2 \<and> tk_kind t = KOr")
    case True
    then obtain t r2 where r1: "r1 = t # r2" "tk_kind t = KOr" by blast
    with 2 u obtain gs where "p_ors n r2 = Ok (gs, r)" "es = one_of SAnd fs # gs" by (auto simp: and_of_def split: sum.splits)
    moreover from this 2 u r1 obtain vs where "r2 = vs @ r" "g_ors vs gs" by (fastforce simp: and_of_def)
    ultimately show ?thesis using us r1 u ors_more [of us fs t vs gs] by auto
  next
    case False
    with 2 u have "es = [one_of SAnd fs]" "r = r1" by (auto simp: and_of_def split: list.splits)
    with us u show ?thesis by (blast intro: ors_one)
  qed
next
  case (5 n t ts)
  show ?case
  proof (cases "tk_kind t = KOr \<or> tk_kind t = KClose")
    case False
    with 5 obtain e r1 fs where *: "p_unary n (t # ts) = Ok (e, r1)" "p_units n r1 = Ok (fs, r)" "es = e # fs"
      by (auto split: sum.splits)
    with 5 False obtain us vs where "t # ts = us @ r1" "g_unary us e" "r1 = vs @ r" "g_units vs fs" by blast
    with * units_more [of us e vs fs] show ?thesis by auto
  qed (use 5 in \<open>auto intro: units_none\<close>)
next
  case (8 n t ts)
  show ?case
  proof (cases "tk_kind t")
    case KMinus
    with 8 show ?thesis by (fastforce split: sum.splits intro: unary_not)
  next
    case KOpen
    with 8 obtain es c where *: "p_ors n ts = Ok (es, c # r)" "tk_kind c = KClose" "e = one_of SOr es"
      by (auto split: sum.splits list.splits if_splits)
    with 8 KOpen obtain us where "ts = us @ c # r" "g_ors us es" by blast
    with * KOpen unary_brackets [of t us es c] show ?thesis by auto
  next
    case (KField f)
    with 8 obtain v x where "ts = v # r" "value_of (tk_kind v) = Some x" "field_expr f x = Ok e"
      by (auto simp: field_term_def split: list.splits option.splits sum.splits)
    with KField show ?thesis by (auto intro!: exI [of _ "[t, v]"] unary_field)
  next
    case (KWord w)
    with 8 show ?thesis by (auto intro!: exI [of _ "[t]"] unary_word)
  next
    case (KQuoted w)
    with 8 show ?thesis by (auto intro!: exI [of _ "[t]"] unary_phrase)
  qed (use 8 in auto)
qed (auto intro: units_none)


lemma unary_starts: "g_unary ts e \<Longrightarrow> \<exists>t us. ts = t # us \<and> tk_kind t \<noteq> KOr \<and> tk_kind t \<noteq> KClose"
  by (erule g_unary.cases) auto

lemma unary_nonempty: "g_unary ts e \<Longrightarrow> 0 < length ts"
  using unary_starts by fastforce

lemma parser_complete:
  "g_ors ts es \<Longrightarrow> r = [] \<or> tk_kind (hd r) = KClose \<Longrightarrow> 4 * length ts + 2 \<le> n \<Longrightarrow> p_ors n (ts @ r) = Ok (es, r)"
  "g_units ts es \<Longrightarrow> r = [] \<or> tk_kind (hd r) = KOr \<or> tk_kind (hd r) = KClose \<Longrightarrow> 4 * length ts + 1 \<le> n \<Longrightarrow>
     p_units n (ts @ r) = Ok (es, r)"
  "g_unary ts e \<Longrightarrow> 4 * length ts \<le> n \<Longrightarrow> p_unary n (ts @ r) = Ok (e, r)"
proof (induction arbitrary: n r and n r and n r rule: g_ors_g_units_g_unary.inducts)
  case (ors_one ts es)
  then obtain m where m: "n = Suc m" by (cases n) auto
  with ors_one have "p_units m (ts @ r) = Ok (es, r)" by auto
  with m ors_one(2,4) show ?case by (auto simp: and_of_def split: list.split)
next
  case (ors_more ts es t us fs)
  then obtain m where m: "n = Suc m" by (cases n) auto
  with ors_more have "p_units m (ts @ t # us @ r) = Ok (es, t # us @ r)" "p_ors m (us @ r) = Ok (fs, r)" by auto
  with m ors_more(2,3) show ?case by (simp add: and_of_def)
next
  case units_none
  then obtain m where "n = Suc m" by (cases n) auto
  with units_none show ?case by (cases r) auto
next
  case (units_more ts e us es)
  then obtain m where m: "n = Suc m" by (cases n) auto
  from unary_starts [OF units_more(1)] obtain t vs where ts: "ts = t # vs" "tk_kind t \<noteq> KOr" "tk_kind t \<noteq> KClose" by blast
  have len: "4 * (length ts + length us) + 1 \<le> Suc m" using units_more.prems(2) m by simp
  obtain k where "length ts = Suc k" using unary_nonempty [OF units_more(1)] by (cases "length ts") auto
  with len have "4 * length us + 1 \<le> m" "4 * length ts \<le> m" by simp_all
  then have "p_unary m (ts @ us @ r) = Ok (e, us @ r)" "p_units m (us @ r) = Ok (es, r)"
    using units_more.IH units_more.prems(1) by blast+
  with m ts show ?case by simp
next
  case (unary_brackets t ts es c)
  then obtain m where m: "n = Suc m" by (cases n) auto
  with unary_brackets have "p_ors m (ts @ c # r) = Ok (es, c # r)" by auto
  with m unary_brackets show ?case by simp
next
  case (unary_not t ts e)
  then obtain m where "n = Suc m" by (cases n) auto
  with unary_not show ?case by simp
next
  case (unary_phrase t q)
  then obtain m where "n = Suc m" by (cases n) auto
  with unary_phrase show ?case by simp
next
  case (unary_word t w)
  then obtain m where "n = Suc m" by (cases n) auto
  with unary_word show ?case by simp
next
  case (unary_field t f v x e)
  then obtain m where "n = Suc m" by (cases n) auto
  with unary_field show ?case by (simp add: field_term_def)
qed

lemma rest_shorter:
  "p_ors n ts = Ok (es, r) \<Longrightarrow> length r \<le> length ts"
  "p_units n ts = Ok (es, r) \<Longrightarrow> length r \<le> length ts"
  "p_unary n ts = Ok (e, r) \<Longrightarrow> length r < length ts"
  using parser_sound(1,2) [of n ts es r] parser_sound(3) [of n ts e r] by (auto dest: unary_nonempty)

lemma enough_fuel:
  "4 * length ts + 2 \<le> n \<Longrightarrow> p_ors n ts \<noteq> Err NoFuel"
  "4 * length ts + 1 \<le> n \<Longrightarrow> p_units n ts \<noteq> Err NoFuel"
  "0 < n \<Longrightarrow> 4 * length ts \<le> n \<Longrightarrow> p_unary n ts \<noteq> Err NoFuel"
proof (induction n ts and n ts and n ts rule: p_ors_p_units_p_unary.induct)
  case (2 n ts)
  then have u: "p_units n ts \<noteq> Err NoFuel" by auto
  have "p_ors n r \<noteq> Err NoFuel" if "p_units n ts = Ok (es, t # r)" "es \<noteq> []" "tk_kind t = KOr" for es t r
    using 2 that rest_shorter(2) [OF that(1)] by (auto simp: and_of_def)
  with u show ?case by (auto simp: and_of_def split: sum.splits list.splits)
next
  case (5 n t ts)
  have "p_units n r \<noteq> Err NoFuel" if "p_unary n (t # ts) = Ok (e, r)" "tk_kind t \<noteq> KOr" "tk_kind t \<noteq> KClose" for e r
    using 5 that rest_shorter(3) [OF that(1)] by auto
  with 5 show ?case by (auto split: sum.splits)
next
  case (8 n t ts)
  then show ?case by (cases "tk_kind t") (auto simp: field_term_def split: sum.splits list.splits option.splits)
qed auto

text \<open>
  Claim C26: The parser accepts exactly the grammar the source documents and builds its trees; brackets, negation
  and \<^verbatim>\<open>OR\<close> bind as the grammar says, at any depth.
\<close>

theorem parser_follows_the_grammar: "parse_tokens ts = Ok e \<longleftrightarrow> means ts e"
proof (cases "ts = []")
  case True
  have "\<not> g_ors [] es" for es
  proof
    assume "g_ors [] es"
    then obtain fs where "g_units [] fs" "fs \<noteq> []" by (cases rule: g_ors.cases) auto
    then show False by (cases rule: g_units.cases) (auto dest: unary_nonempty)
  qed
  with True show ?thesis by (auto simp: parse_tokens_def means_def)
next
  case False
  show ?thesis
  proof
    assume "parse_tokens ts = Ok e"
    with False obtain es where "p_ors (parse_fuel ts) ts = Ok (es, [])" "e = one_of SOr es"
      by (auto simp: parse_tokens_def split: sum.splits list.splits)
    with parser_sound(1) show "means ts e" by (fastforce simp: means_def)
  next
    assume "means ts e"
    with False obtain es where "g_ors ts es" "e = one_of SOr es" by (auto simp: means_def)
    with False parser_complete(1) [of ts es "[]" "parse_fuel ts"] show "parse_tokens ts = Ok e"
      by (simp add: parse_tokens_def parse_fuel_def)
  qed
qed

text \<open>
  The parser answers every query, with a tree, an error or a panic, before its fuel is used up: the
  recursion is bounded by the number of tokens.
\<close>

theorem parser_answers: "parse_query input \<noteq> Err NoFuel"
proof -
  have read: "read_quoted n cs \<noteq> Err NoFuel" for n cs by (auto simp: read_quoted_def Let_def split: list.split)
  then have "word_tokens n w r \<noteq> Err NoFuel" for n w r
    by (auto simp: word_tokens_def Let_def split: option.split list.split sum.split)
  with read have "next_tokens n c cs \<noteq> Err NoFuel" for n c cs by (auto simp: next_tokens_def split: sum.split)
  then have "tokenize n cs \<noteq> Err NoFuel" for n cs
  proof (induction n cs rule: tokenize.induct)
    case (2 n c cs)
    show ?case
    proof (cases "next_tokens n c cs")
      case (Inr x)
      obtain ts m r where x: "x = (ts, m, r)" by (cases x)
      with 2 Inr have "tokenize m r \<noteq> Err NoFuel" by auto
      with Inr x show ?thesis by (auto split: sum.split)
    qed (use 2(2) [of n c cs] in auto)
  qed simp
  moreover have "parse_tokens ts \<noteq> Err NoFuel" for ts
    using enough_fuel(1) [of ts "parse_fuel ts"] by (auto simp: parse_tokens_def parse_fuel_def split: sum.split list.split)
  ultimately show ?thesis by (auto simp: parse_query_def split: sum.split)
qed

section \<open>Queries that go wrong\<close>

text \<open>A date need not exist: the 31st of February is the 3rd of March.\<close>

lemma dates_roll_over: "parse_query ''after:2026-02-31'' = parse_query ''after:2026-03-03''"
  by code_simp

text \<open>An age whose last character takes two bytes panics.\<close>

lemma an_age_can_panic: "parse_query (''newer_than:7'' @ [CHR 0xE9]) = Err ParsePanic"
  by code_simp


end
