(* ===== verification/Matching.thy ===== *)
theory Matching
  imports Search Core
begin

text \<open>
  Running a search (\<^verbatim>\<open>mail-store/src/search/exec.rs\<close>). A tree is compiled to a condition on a message; here the
  condition itself, on a row of the store. The full-text index is a parameter: \<open>fts q i\<close> says whether message
  \<open>i\<close> matches the FTS5 query \<open>q\<close>.
\<close>

section \<open>Compiling\<close>

definition DAY :: millis where "DAY = 86400000"
definition MAX_RESULTS :: nat where "MAX_RESULTS = 500"

text \<open>\<^verbatim>\<open>char::is_alphanumeric\<close> below code point 256: with superscript digits, fractions, ordinal signs and micro.\<close>

definition is_alphanumeric :: "char \<Rightarrow> bool" where
  "is_alphanumeric c \<longleftrightarrow>
     (let n = (of_char c :: nat)
      in (48 \<le> n \<and> n \<le> 57) \<or> (65 \<le> n \<and> n \<le> 90) \<or> (97 \<le> n \<and> n \<le> 122) \<or> n \<in> {170, 178, 179, 181, 185, 186, 188, 189, 190} \<or>
         (192 \<le> n \<and> n \<noteq> 215 \<and> n \<noteq> 247))"

text \<open>User text as an FTS5 phrase: its words, quoted, the last one a prefix where the search is by prefix.\<close>

definition fts_phrase :: "string \<Rightarrow> bool \<Rightarrow> string option" where
  "fts_phrase v by_prefix =
     (let tokens = filter (\<lambda>t. t \<noteq> []) (split_on (\<lambda>c. \<not> is_alphanumeric c) v);
          phrase = [dquote] @ join_with '' '' tokens @ [dquote]
      in if tokens = [] then None else Some (if by_prefix then phrase @ ''*'' else phrase))"

type_synonym fts_index = "string \<Rightarrow> int \<Rightarrow> bool"

definition fts_match :: "fts_index \<Rightarrow> mail_store \<Rightarrow> message_row \<Rightarrow> string \<Rightarrow> bool" where
  "fts_match fts db m q \<longleftrightarrow> m_id m \<in> set (messages_fts db) \<and> fts q (m_id m)"

definition phrase_match :: "fts_index \<Rightarrow> mail_store \<Rightarrow> message_row \<Rightarrow> string \<Rightarrow> string \<Rightarrow> bool \<Rightarrow> bool" where
  "phrase_match fts db m column v by_prefix =
     (case fts_phrase v by_prefix of Some q \<Rightarrow> fts_match fts db m (column @ q) | None \<Rightarrow> True)"

definition search_has_label :: "mail_store \<Rightarrow> message_row \<Rightarrow> label_id \<Rightarrow> bool" where
  "search_has_label db m l \<longleftrightarrow> list_ex (\<lambda>r. lr_gmail_id r = l \<and> lr_gmail_id r \<in> set (m_labels m)) (labels db)"

text \<open>The same words, with dashes for spaces, name a label.\<close>

definition label_match :: "mail_store \<Rightarrow> message_row \<Rightarrow> string \<Rightarrow> bool" where
  "label_match db m v \<longleftrightarrow>
     list_ex (\<lambda>r. lr_gmail_id r \<in> set (m_labels m) \<and>
       (lr_gmail_id r = v \<or> eq_nocase (lr_name r) v \<or>
        eq_nocase (map (\<lambda>c. if c = CHR '' '' then CHR ''-'' else c) (lr_name r)) v)) (labels db)"

text \<open>\<^verbatim>\<open>LIKE '%...%'\<close>, the wildcards in the text taken out.\<close>

definition like_contains :: "string \<Rightarrow> string \<Rightarrow> bool" where
  "like_contains text v \<longleftrightarrow>
     sublist (to_ascii_lowercase (filter (\<lambda>c. c \<noteq> CHR ''%'' \<and> c \<noteq> CHR ''_'') v)) (to_ascii_lowercase text)"

definition participant_match :: "message_row \<Rightarrow> role \<Rightarrow> string \<Rightarrow> bool" where
  "participant_match m role v \<longleftrightarrow>
     list_ex (\<lambda>(r, i, a). r = role \<and>
       (like_contains (ea_email a) v \<or> (case ea_name a of Some n \<Rightarrow> like_contains n v | None \<Rightarrow> False))) (m_participants m)"

text \<open>\<^verbatim>\<open>as i64\<close> of an unsigned 64-bit number: the upper half is negative.\<close>

definition as_i64_cast :: "int \<Rightarrow> int" where
  "as_i64_cast b = (if b < 2 ^ 63 then b else b - 2 ^ 64)"

fun mailbox_match :: "mail_store \<Rightarrow> message_row \<Rightarrow> search_mailbox \<Rightarrow> bool" where
  "mailbox_match db m SmInbox = search_has_label db m INBOX"
| "mailbox_match db m SmSent = search_has_label db m SENT"
| "mailbox_match db m SmDrafts = search_has_label db m DRAFT"
| "mailbox_match db m SmTrash = search_has_label db m TRASH"
| "mailbox_match db m SmSpam = search_has_label db m SPAM"
| "mailbox_match db m SmStarred = m_is_starred m"
| "mailbox_match db m SmAnywhere = True"
| "mailbox_match db m SmArchive =
     (\<not> search_has_label db m INBOX \<and> \<not> search_has_label db m SPAM \<and> \<not> search_has_label db m TRASH)"

fun flag_match :: "mail_store \<Rightarrow> message_row \<Rightarrow> flag \<Rightarrow> bool" where
  "flag_match db m FlUnread = (\<not> m_is_read m)"
| "flag_match db m FlRead = m_is_read m"
| "flag_match db m FlStarred = m_is_starred m"
| "flag_match db m FlImportant = search_has_label db m IMPORTANT"

fun matches :: "fts_index \<Rightarrow> mail_store \<Rightarrow> millis \<Rightarrow> search_expr \<Rightarrow> message_row \<Rightarrow> bool" where
  "matches fts db now (SAnd es) m = list_all (\<lambda>e. matches fts db now e m) es"
| "matches fts db now (SOr es) m = list_ex (\<lambda>e. matches fts db now e m) es"
| "matches fts db now (SNot e) m = (\<not> matches fts db now e m)"
| "matches fts db now (SText v) m = phrase_match fts db m [] v True"
| "matches fts db now (SPhrase v) m = phrase_match fts db m [] v False"
| "matches fts db now (SSubject v) m = phrase_match fts db m ''subject : '' v True"
| "matches fts db now (SFrom v) m = phrase_match fts db m ''from_text : '' v True"
| "matches fts db now (STo v) m = phrase_match fts db m ''to_text : '' v True"
| "matches fts db now (SFilename v) m = phrase_match fts db m ''attachment_names : '' v True"
| "matches fts db now (SCc v) m = participant_match m RCc v"
| "matches fts db now (SBcc v) m = participant_match m RBcc v"
| "matches fts db now (SLabel v) m = label_match db m v"
| "matches fts db now (SIn b) m = mailbox_match db m b"
| "matches fts db now (SIs f) m = flag_match db m f"
| "matches fts db now SHasAttachment m = m_has_attachments m"
| "matches fts db now (SAfter at) m = (at \<le> mh_internal_date (m_head m))"
| "matches fts db now (SBefore at) m = (mh_internal_date (m_head m) < at)"
| "matches fts db now (SNewerThan days) m = (now - days * DAY \<le> mh_internal_date (m_head m))"
| "matches fts db now (SOlderThan days) m = (mh_internal_date (m_head m) < now - days * DAY)"
| "matches fts db now (SLarger b) m = (as_i64_cast b < int (mh_size_estimate (m_head m)))"
| "matches fts db now (SSmaller b) m = (int (mh_size_estimate (m_head m)) < as_i64_cast b)"

section \<open>Searching\<close>

text \<open>Spam and trash are left out, unless the query mentions them.\<close>

definition search_shows :: "fts_index \<Rightarrow> mail_store \<Rightarrow> millis \<Rightarrow> search_expr \<Rightarrow> message_row \<Rightarrow> bool" where
  "search_shows fts db now e m \<longleftrightarrow>
     matches fts db now e m \<and>
     (mentions_spam_or_trash e \<or> (\<not> search_has_label db m SPAM \<and> \<not> search_has_label db m TRASH))"

definition found_rows :: "fts_index \<Rightarrow> mail_store \<Rightarrow> millis \<Rightarrow> search_expr \<Rightarrow> ((int \<times> int) \<times> thread_row) list" where
  "found_rows fts db now e =
     map (\<lambda>t. ((t_last_message_at t, t_id t), t))
       (filter (\<lambda>t. list_ex (\<lambda>m. m_thread m = t_id t \<and> search_shows fts db now e m) (messages db)) (threads db))"

definition search ::
    "fts_index \<Rightarrow> mail_store \<Rightarrow> search_expr \<Rightarrow> millis \<Rightarrow> string option \<Rightarrow> nat \<Rightarrow> (store_error, thread_page) result" where
  "search fts db e now cursor limit0 =
     (let limit = max 1 (min MAX_RESULTS limit0)
      in case (case cursor of None \<Rightarrow> Ok (2 ^ 63 - 1, 2 ^ 63 - 1) | Some c \<Rightarrow> decode_cursor c) of
           Inl e \<Rightarrow> Err e
         | Inr after \<Rightarrow>
             let found = take (limit + 1) (rev (sort_key fst (filter (\<lambda>(key, r). key < after) (found_rows fts db now e))));
                 page = take limit found
             in Ok \<lparr>pg_rows = map (\<lambda>(key, r). thread_summary_row db r) page,
                    pg_next_cursor =
                      (if limit < length found then Some (encode_cursor (fst (fst (last page))) (snd (fst (last page)))) else None)\<rparr>)"

text \<open>\<^verbatim>\<open>search_threads\<close> of the core: a query that does not parse is refused with its message and position.\<close>

definition search_threads ::
    "fts_index \<Rightarrow> mail_store \<Rightarrow> string \<Rightarrow> millis \<Rightarrow> string option \<Rightarrow> nat \<Rightarrow> (core_error, thread_page) result option" where
  "search_threads fts db query now cursor limit =
     (case parse_query query of
        Inl (ParseError message at) \<Rightarrow>
          Some (Err (core_error_new EkInvalidInput (message @ '' (at character '' @ show_nat at @ '')'')))
      | Inl ParsePanic \<Rightarrow> None
      | Inl NoFuel \<Rightarrow> None
      | Inr e \<Rightarrow> Some (map_sum core_error_of_store id (search fts db e now cursor limit)))"

section \<open>Following the cursors\<close>

text \<open>What a client gathers that asks for page after page, with at most \<open>fuel\<close> requests.\<close>

fun follow :: "nat \<Rightarrow> ('c option \<Rightarrow> ('a list \<times> 'c option) option) \<Rightarrow> 'c option \<Rightarrow> 'a list option" where
  "follow 0 page c = None"
| "follow (Suc fuel) page c =
     (case page c of
        None \<Rightarrow> None
      | Some (xs, None) \<Rightarrow> Some xs
      | Some (xs, Some c') \<Rightarrow> map_option (\<lambda>ys. xs @ ys) (follow fuel page (Some c')))"

text \<open>One page: the first rows of those that are left, and the cursor of the last when there are more.\<close>

definition chunk :: "('k \<Rightarrow> 'c) \<Rightarrow> nat \<Rightarrow> ('k \<times> 'r) list \<Rightarrow> ('k \<times> 'r) list \<times> 'c option" where
  "chunk cursor limit found =
     (take limit found, if limit < length found then Some (cursor (fst (last (take limit found)))) else None)"

context keyset
begin

lemma following_visits_every_row:
  assumes ok: "valid q" and limit: "0 < limit"
    and page: "\<And>k r. (k, r) \<in> set (rows q) \<Longrightarrow>
      page (Some (cursor k)) = Some (chunk cursor limit (filter (\<lambda>(key, r). key < k) (rows q)))"
    and start: "page c = Some (chunk cursor limit (drop n (rows q)))" and "n \<le> length (rows q)" "length (rows q) < fuel + n"
  shows "follow fuel page c = Some (drop n (rows q))"
  using start assms(5,6)
proof (induction fuel arbitrary: c n)
  case (Suc fuel)
  show ?case
  proof (cases "limit < length (drop n (rows q))")
    case False
    with Suc.prems show ?thesis by (simp add: chunk_def)
  next
    case True
    let ?x = "last (take limit (drop n (rows q)))"
    have x: "?x = last (take (n + limit) (rows q))"
      using True limit by (simp add: take_add)
    have "?x \<in> set (take limit (drop n (rows q)))" using True limit by (intro last_in_set) auto
    then have "?x \<in> set (rows q)" by (meson in_set_dropD in_set_takeD)
    then have "page (Some (cursor (fst ?x))) = Some (chunk cursor limit (drop (n + limit) (rows q)))"
      using page [of "fst ?x" "snd ?x"] after_position [OF ok, of "n + limit"] True limit by (simp add: x)
    then have "follow fuel page (Some (cursor (fst ?x))) = Some (drop (n + limit) (rows q))"
      using Suc.prems(2,3) True limit by (intro Suc.IH) auto
    with Suc.prems(1) True show ?thesis
      by (simp add: chunk_def add.commute [of n] drop_drop [symmetric] del: drop_drop)
  qed
qed simp

end

definition found_first :: "fts_index \<Rightarrow> mail_store \<Rightarrow> millis \<Rightarrow> search_expr \<Rightarrow> ((int \<times> int) \<times> thread_row) list" where
  "found_first fts db now e = rev (sort_key fst (found_rows fts db now e))"

lemma set_found_first:
  "(k, t) \<in> set (found_first fts db now e) \<longleftrightarrow>
     t \<in> set (threads db) \<and> k = (t_last_message_at t, t_id t) \<and>
     (\<exists>m \<in> set (messages db). m_thread m = t_id t \<and> search_shows fts db now e m)"
  by (auto simp: found_first_def found_rows_def list_ex_iff)

interpretation found: keyset "\<lambda>(fts, db, now, e). found_first fts db now e" "\<lambda>(fts, db, now, e). struct_ok db"
proof (unfold_locales, clarify)
  fix fts db now e assume "struct_ok db"
  then have "inj_on (\<lambda>t. (t_last_message_at t, t_id t)) (set (threads db))" "distinct (threads db)"
    using struct_ok_facts(2) [of db] by (auto simp: distinct_map inj_on_def)
  then have "distinct (map fst (found_rows fts db now e))"
    by (auto simp: found_rows_def comp_def distinct_map intro: inj_on_subset)
  then have "sorted_wrt (<) (map fst (sort_key fst (found_rows fts db now e)))"
    by (simp add: strict_sorted_iff) (metis distinct_map distinct_sort set_sort)
  then show "sorted_wrt (>) (map fst (found_first fts db now e))"
    by (simp add: found_first_def rev_map [symmetric] sorted_wrt_rev)
qed

text \<open>SQLite integers are signed 64-bit; the first page asks for keys below the largest pair.\<close>

definition thread_keys_fit :: "mail_store \<Rightarrow> bool" where
  "thread_keys_fit db \<longleftrightarrow>
     (\<forall>t \<in> set (threads db). in_i64 (t_last_message_at t) \<and> in_i64 (t_id t) \<and>
        (t_last_message_at t, t_id t) < (2 ^ 63 - 1, 2 ^ 63 - 1))"

text \<open>The pages of a search, for a client that follows the cursors.\<close>

definition search_page ::
    "fts_index \<Rightarrow> mail_store \<Rightarrow> search_expr \<Rightarrow> millis \<Rightarrow> nat \<Rightarrow> string option \<Rightarrow> (thread_summary list \<times> string option) option" where
  "search_page fts db e now limit c =
     (case search fts db e now c limit of Inl x \<Rightarrow> None | Inr p \<Rightarrow> Some (pg_rows p, pg_next_cursor p))"

definition raw_page ::
    "fts_index \<Rightarrow> mail_store \<Rightarrow> search_expr \<Rightarrow> millis \<Rightarrow> nat \<Rightarrow> string option \<Rightarrow> (((int \<times> int) \<times> thread_row) list \<times> string option) option" where
  "raw_page fts db e now limit c =
     (case (case c of None \<Rightarrow> Ok (2 ^ 63 - 1, 2 ^ 63 - 1) | Some c \<Rightarrow> decode_cursor c) of
        Inl x \<Rightarrow> None
      | Inr after \<Rightarrow> Some (chunk (\<lambda>(at, i). encode_cursor at i) (max 1 (min MAX_RESULTS limit))
          (filter (\<lambda>(key, r). key < after) (found_first fts db now e))))"

lemma search_page_raw:
  "search_page fts db e now limit c =
     map_option (map_prod (map (\<lambda>(key, r). thread_summary_row db r)) id) (raw_page fts db e now limit c)"
proof -
  define L where "L = max 1 (min MAX_RESULTS limit)"
  have cut: "take L (take (L + 1) xs) = take L xs" "L < length (take (L + 1) xs) \<longleftrightarrow> L < length xs" for xs :: "'x list"
    by (auto simp: take_take)
  show ?thesis
    unfolding search_page_def raw_page_def search_def L_def [symmetric] filter_newest_first found_first_def [symmetric] Let_def cut
    by (simp add: chunk_def split_beta split: sum.split)
qed

lemma follow_map:
  "follow fuel (\<lambda>c. map_option (map_prod (map g) id) (page c)) c = map_option (map g) (follow fuel page c)"
  by (induction fuel arbitrary: c) (auto simp: option.map_comp comp_def split: option.split prod.split)

text \<open>
  Claim C27: A search, read page by page with any page size, ends and gives exactly the threads that have a message
  the query matches, each once, newest first; a message in spam or trash counts only when the query
  mentions one of them.
\<close>

theorem searching_finds_every_match:
  assumes "struct_ok db" "thread_keys_fit db" "length (threads db) < fuel"
  shows "\<exists>ts. follow fuel (search_page fts db e now limit) None = Some (map (thread_summary_row db) ts) \<and>
    set ts = {t \<in> set (threads db). \<exists>m \<in> set (messages db). m_thread m = t_id t \<and> matches fts db now e m \<and>
      (mentions_spam_or_trash e \<or> (\<not> search_has_label db m SPAM \<and> \<not> search_has_label db m TRASH))} \<and>
    sorted_wrt (>) (map (\<lambda>t. (t_last_message_at t, t_id t)) ts)"
proof -
  let ?rows = "found_first fts db now e" and ?cursor = "\<lambda>(at, i). encode_cursor at i"
  have fit: "in_i64 (fst k) \<and> in_i64 (snd k) \<and> k < (2 ^ 63 - 1, 2 ^ 63 - 1)" if "(k, r) \<in> set ?rows" for k r
    using that assms(2) unfolding set_found_first thread_keys_fit_def by auto
  then have "filter (\<lambda>(key, r). key < (2 ^ 63 - 1, 2 ^ 63 - 1)) ?rows = ?rows" by (auto simp: filter_id_conv)
  then have start: "raw_page fts db e now limit None = Some (chunk ?cursor (max 1 (min MAX_RESULTS limit)) (drop 0 ?rows))"
    by (simp add: raw_page_def)
  have page: "raw_page fts db e now limit (Some (?cursor k)) =
      Some (chunk ?cursor (max 1 (min MAX_RESULTS limit)) (filter (\<lambda>(key, r). key < k) ?rows))" if "(k, r) \<in> set ?rows" for k r
    using fit [OF that] by (cases k) (simp add: raw_page_def decode_encode)
  have "length ?rows \<le> length (threads db)" by (simp add: found_first_def found_rows_def)
  with assms(3) have "length ?rows < fuel + 0" by simp
  then have "follow fuel (raw_page fts db e now limit) None = Some ?rows"
    using found.following_visits_every_row [of "(fts, db, now, e)", OF _ _ _ _ _ , where page = "raw_page fts db e now limit" and cursor = ?cursor
        and limit = "max 1 (min MAX_RESULTS limit)" and c = None and n = 0 and fuel = fuel] assms(1) start page by simp
  then have "follow fuel (search_page fts db e now limit) None = Some (map (\<lambda>(key, r). thread_summary_row db r) ?rows)"
    unfolding search_page_raw [abs_def] by (simp add: follow_map)
  moreover have "map (\<lambda>t. (t_last_message_at t, t_id t)) (map snd ?rows) = map fst ?rows"
    using set_found_first by (auto simp: split_beta intro!: map_cong)
  then have "sorted_wrt (>) (map (\<lambda>t. (t_last_message_at t, t_id t)) (map snd ?rows))"
    using found.strict [of "(fts, db, now, e)"] assms(1) by (simp only: split_conv)
  moreover have "set (map snd ?rows) = {t \<in> set (threads db). \<exists>m \<in> set (messages db). m_thread m = t_id t \<and> search_shows fts db now e m}"
    using set_found_first [of _ _ fts db now e] by (force simp: image_iff)
  ultimately show ?thesis
    unfolding search_shows_def by (intro exI [of _ "map snd ?rows"] conjI) (simp_all add: split_beta comp_def)
qed

section \<open>Queries that find too much\<close>

text \<open>A size beyond the signed range wraps: nothing is larger than 10 exabytes, and everything is found.\<close>

lemma a_huge_size_matches_everything:
  shows "parse_size ''9999999999G'' = Ok 10737418238926258176" and "matches fts db now (SLarger 10737418238926258176) m"
proof -
  have "to_ascii_lowercase ''9999999999G'' = ''9999999999g''" by code_simp
  moreover have "parse_digits ''9999999999'' = Some 9999999999"
    by (simp add: parse_digits_def is_ascii_digit_def digits_val_def digit_val_def)
  ultimately show "parse_size ''9999999999G'' = Ok 10737418238926258176" by (simp add: parse_size_def parse_unsigned_def)
qed (simp add: as_i64_cast_def)

text \<open>A query that only excludes spam still counts as mentioning it, so messages in the trash are shown.\<close>

lemma excluding_spam_shows_trash:
  "mentions_spam_or_trash (SAnd [SNot (SIn SmSpam), e])"
  "search_shows fts db now (SNot (SIn SmSpam)) m \<longleftrightarrow> \<not> search_has_label db m SPAM"
  by (simp_all add: search_shows_def)


section \<open>A search\<close>

lemma sample_store_ok: "struct_ok sample_store"
  using transaction_keeps_store_ok [OF empty_store_ok, of "[UpsertMessage sample_message]" ReplaceLabels]
  by (simp add: store_ok_def sample_store_def)

lemma sample_thread: "map t_id (threads sample_store) = [1]" "map t_last_message_at (threads sample_store) = [5]"
  by code_simp+

theorem searching_finds_every_match_witness:
  "\<exists>ts. follow 2 (search_page (\<lambda>q i. False) sample_store (SIs FlUnread) 0 1) None = Some (map (thread_summary_row sample_store) ts) \<and>
    map t_id ts = [1]"
proof -
  have fit: "thread_keys_fit sample_store"
    using sample_thread by (auto simp: thread_keys_fit_def in_i64_def map_eq_Cons_conv)
  have len: "length (threads sample_store) < 2" using sample_thread by (auto simp: map_eq_Cons_conv)
  have "list_ex (\<lambda>m. m_thread m = 1 \<and> matches (\<lambda>q i. False) sample_store 0 (SIs FlUnread) m \<and>
      \<not> search_has_label sample_store m SPAM \<and> \<not> search_has_label sample_store m TRASH) (messages sample_store)" by code_simp
  then have found: "\<exists>m \<in> set (messages sample_store). m_thread m = 1 \<and> matches (\<lambda>q i. False) sample_store 0 (SIs FlUnread) m \<and>
      (mentions_spam_or_trash (SIs FlUnread) \<or> (\<not> search_has_label sample_store m SPAM \<and> \<not> search_has_label sample_store m TRASH))"
    by (auto simp: list_ex_iff)
  obtain t where t: "threads sample_store = [t]" "t_id t = 1" using sample_thread(1) by (auto simp: map_eq_Cons_conv)
  from searching_finds_every_match [OF sample_store_ok fit len, of "\<lambda>q i. False" "SIs FlUnread" 0 1] obtain ts where
      ts: "follow 2 (search_page (\<lambda>q i. False) sample_store (SIs FlUnread) 0 1) None = Some (map (thread_summary_row sample_store) ts)"
      "set ts = {t' \<in> set (threads sample_store). \<exists>m \<in> set (messages sample_store). m_thread m = t_id t' \<and>
         matches (\<lambda>q i. False) sample_store 0 (SIs FlUnread) m \<and> (mentions_spam_or_trash (SIs FlUnread) \<or>
         (\<not> search_has_label sample_store m SPAM \<and> \<not> search_has_label sample_store m TRASH))}"
      "sorted_wrt (>) (map (\<lambda>t. (t_last_message_at t, t_id t)) ts)" by blast
  have "set ts = {t}" unfolding ts(2) using t found by auto
  with ts(3) have "ts = [t]" by (cases ts; cases "tl ts") auto
  with ts(1) t(2) show ?thesis by (intro exI [of _ ts]) simp
qed


end
