(* ===== verification/Addresses.thy ===== *)
theory Addresses
  imports Prelude "HOL-Library.Word"
begin

text \<open>
  IP addresses, as the one-click unsubscription checks them (\<^verbatim>\<open>kaluta-core/src/cleanup/unsubscribe.rs\<close>):
  the predicates of \<^verbatim>\<open>std::net\<close> on the octets and segments, \<^verbatim>\<open>public_address\<close> built from them, and
  the parser behind \<^verbatim>\<open>IpAddr::from_str\<close>, which tells a literal address from a name. The reference for
  IPv4 is a table of address blocks.
\<close>

unbundle bit_operations_syntax

section \<open>Public addresses\<close>

datatype ip_addr =
    V4 "8 word" "8 word" "8 word" "8 word"
  | V6 "16 word" "16 word" "16 word" "16 word" "16 word" "16 word" "16 word" "16 word"

definition is_private_v4 :: "8 word \<Rightarrow> 8 word \<Rightarrow> 8 word \<Rightarrow> 8 word \<Rightarrow> bool" where
  "is_private_v4 a b c d \<longleftrightarrow> a = 10 \<or> (a = 172 \<and> 16 \<le> b \<and> b \<le> 31) \<or> (a = 192 \<and> b = 168)"

definition is_documentation_v4 :: "8 word \<Rightarrow> 8 word \<Rightarrow> 8 word \<Rightarrow> 8 word \<Rightarrow> bool" where
  "is_documentation_v4 a b c d \<longleftrightarrow>
     (a = 192 \<and> b = 0 \<and> c = 2) \<or> (a = 198 \<and> b = 51 \<and> c = 100) \<or> (a = 203 \<and> b = 0 \<and> c = 113)"

definition public_v4 :: "8 word \<Rightarrow> 8 word \<Rightarrow> 8 word \<Rightarrow> 8 word \<Rightarrow> bool" where
  "public_v4 a b c d \<longleftrightarrow>
     \<not> (a = 127 \<comment> \<open>loopback\<close>
        \<or> (a = 0 \<and> b = 0 \<and> c = 0 \<and> d = 0) \<comment> \<open>unspecified\<close>
        \<or> is_private_v4 a b c d
        \<or> (a = 169 \<and> b = 254) \<comment> \<open>link-local\<close>
        \<or> (224 \<le> a \<and> a \<le> 239) \<comment> \<open>multicast\<close>
        \<or> (a = 255 \<and> b = 255 \<and> c = 255 \<and> d = 255) \<comment> \<open>broadcast\<close>
        \<or> is_documentation_v4 a b c d
        \<or> a = 0
        \<or> (a = 100 \<and> 64 \<le> b \<and> b < 128)
        \<or> (a = 192 \<and> b = 0 \<and> c = 0)
        \<or> (a = 198 \<and> 18 \<le> b \<and> b < 20)
        \<or> 240 \<le> a)"

text \<open>An IPv6 address may carry an IPv4 address in its last two segments.\<close>

definition v4_within :: "16 word \<Rightarrow> 16 word \<Rightarrow> bool" where
  "v4_within hi lo = public_v4 (ucast (drop_bit 8 hi)) (ucast hi) (ucast (drop_bit 8 lo)) (ucast lo)"

fun public_address :: "ip_addr \<Rightarrow> bool" where
  "public_address (V4 a b c d) = public_v4 a b c d"
| "public_address (V6 s0 s1 s2 s3 s4 s5 s6 s7) =
     (if s0 = 0 \<and> s1 = 0 \<and> s2 = 0 \<and> s3 = 0 \<and> s4 = 0 \<and> s5 = 0xffff then v4_within s6 s7
      else if s0 = 0x64 \<and> s1 = 0xff9b \<and> s2 = 0 \<and> s3 = 0 \<and> s4 = 0 \<and> s5 = 0 then v4_within s6 s7
      else \<not> ((s0 = 0 \<and> s1 = 0 \<and> s2 = 0 \<and> s3 = 0 \<and> s4 = 0 \<and> s5 = 0 \<and> s6 = 0 \<and> s7 = 1)
             \<or> (s0 = 0 \<and> s1 = 0 \<and> s2 = 0 \<and> s3 = 0 \<and> s4 = 0 \<and> s5 = 0 \<and> s6 = 0 \<and> s7 = 0)
             \<or> s0 AND 0xff00 = 0xff00
             \<or> s0 AND 0xfe00 = 0xfc00
             \<or> s0 AND 0xffc0 = 0xfe80
             \<or> s0 AND 0xffc0 = 0xfec0
             \<or> (s0 = 0 \<and> s1 = 0 \<and> s2 = 0 \<and> s3 = 0 \<and> s4 = 0 \<and> s5 = 0)
             \<or> (s0 = 0x2001 \<and> s1 = 0xdb8)))"

section \<open>The blocks\<close>

text \<open>An address as one number, and the blocks that are not public: first address and length of the prefix.\<close>

definition v4_number :: "8 word \<Rightarrow> 8 word \<Rightarrow> 8 word \<Rightarrow> 8 word \<Rightarrow> nat" where
  "v4_number a b c d = 2 ^ 24 * unat a + 2 ^ 16 * unat b + 2 ^ 8 * unat c + unat d"

definition in_block :: "nat \<Rightarrow> nat \<times> nat \<Rightarrow> bool" where
  "in_block ip = (\<lambda>(base, n). ip div 2 ^ (32 - n) = base div 2 ^ (32 - n))"

definition CLOSED_V4 :: "(nat \<times> nat) list" where
  "CLOSED_V4 =
     [(0x00000000, 8),  \<comment> \<open>0.0.0.0/8, this network\<close>
      (0x0A000000, 8),  \<comment> \<open>10.0.0.0/8, private\<close>
      (0x64400000, 10), \<comment> \<open>100.64.0.0/10, shared\<close>
      (0x7F000000, 8),  \<comment> \<open>127.0.0.0/8, loopback\<close>
      (0xA9FE0000, 16), \<comment> \<open>169.254.0.0/16, link-local\<close>
      (0xAC100000, 12), \<comment> \<open>172.16.0.0/12, private\<close>
      (0xC0000000, 24), \<comment> \<open>192.0.0.0/24, protocol assignments\<close>
      (0xC0000200, 24), \<comment> \<open>192.0.2.0/24, documentation\<close>
      (0xC0A80000, 16), \<comment> \<open>192.168.0.0/16, private\<close>
      (0xC6120000, 15), \<comment> \<open>198.18.0.0/15, benchmarking\<close>
      (0xC6336400, 24), \<comment> \<open>198.51.100.0/24, documentation\<close>
      (0xCB007100, 24), \<comment> \<open>203.0.113.0/24, documentation\<close>
      (0xE0000000, 4),  \<comment> \<open>224.0.0.0/4, multicast\<close>
      (0xF0000000, 4)]  \<comment> \<open>240.0.0.0/4, reserved and broadcast\<close>"

lemma octet: "unat (a :: 8 word) < 256"
  using unsigned_less [of a, where ?'a = nat] by simp

lemma octet_iffs: "(a :: 8 word) = numeral k \<longleftrightarrow> unat a = unat (numeral k :: 8 word)" 
  "numeral k \<le> a \<longleftrightarrow> unat (numeral k :: 8 word) \<le> unat a" 
   "a \<le> numeral k \<longleftrightarrow> unat a \<le> unat (numeral k :: 8 word)" "a < numeral k \<longleftrightarrow> unat a < unat (numeral k :: 8 word)"
  "a = 0 \<longleftrightarrow> unat a = 0"
  by (simp_all only: word_unat_eq_iff word_le_nat_alt word_less_nat_alt unsigned_0)

lemma v4_number_div:
  "v4_number a b c d div 256 = 65536 * unat a + 256 * unat b + unat c"
  "v4_number a b c d div 65536 = 256 * unat a + unat b"
  "v4_number a b c d div 16777216 = unat a"
proof -
  have "v4_number a b c d = unat d + 256 * (65536 * unat a + 256 * unat b + unat c)" by (simp add: v4_number_def)
  then show 1: "v4_number a b c d div 256 = 65536 * unat a + 256 * unat b + unat c" 
    using octet [of d] by simp
  have "v4_number a b c d div 65536 = (unat c + 256 * (256 * unat a + unat b)) div 256"
    using 1 div_mult2_eq [of "v4_number a b c d" 256 256] by (simp add: algebra_simps)
  also have "\<dots> = 256 * unat a + unat b" using octet [of c] by simp
  finally show 2: "v4_number a b c d div 65536 = 256 * unat a + unat b" .
  have "v4_number a b c d div 16777216 = (unat b + 256 * unat a) div 256"
    using 2 div_mult2_eq [of "v4_number a b c d" 65536 256] by (simp add: algebra_simps)
  then show "v4_number a b c d div 16777216 = unat a" using octet [of b] by simp
qed

lemma v4_number_div_more:
  "v4_number a b c d div 4194304 = 4 * unat a + unat b div 64"
  "v4_number a b c d div 1048576 = 16 * unat a + unat b div 16"
  "v4_number a b c d div 131072 = 128 * unat a + unat b div 2"
  "v4_number a b c d div 268435456 = unat a div 16"
proof -
  have "v4_number a b c d div 4194304 = (unat b + 64 * (4 * unat a)) div 64"
    using v4_number_div(2) [of a b c d] div_mult2_eq [of "v4_number a b c d" 65536 64] by (simp add: add.commute)
  then show "v4_number a b c d div 4194304 = 4 * unat a + unat b div 64" by simp
  have "v4_number a b c d div 1048576 = (unat b + 16 * (16 * unat a)) div 16"
    using v4_number_div(2) [of a b c d] div_mult2_eq [of "v4_number a b c d" 65536 16] by (simp add: add.commute)
  then show "v4_number a b c d div 1048576 = 16 * unat a + unat b div 16" by simp
  have "v4_number a b c d div 131072 = (unat b + 2 * (128 * unat a)) div 2"
    using v4_number_div(2) [of a b c d] div_mult2_eq [of "v4_number a b c d" 65536 2] by (simp add: add.commute)
  then show "v4_number a b c d div 131072 = 128 * unat a + unat b div 2" by simp
  show "v4_number a b c d div 268435456 = unat a div 16"
    using v4_number_div(3) [of a b c d] div_mult2_eq [of "v4_number a b c d" 16777216 16] by simp
qed

lemma two_digits: "q < k \<Longrightarrow> r < k \<Longrightarrow> k * (x :: nat) + q = k * y + r \<longleftrightarrow> x = y \<and> q = r"
  by (metis add.commute div_mult_self4 div_less mod_mult_self4 mod_less add_0 not_less0)

lemma div_range: "0 < k \<Longrightarrow> (x :: nat) div k = q \<longleftrightarrow> q * k \<le> x \<and> x < q * k + k"
  using div_nat_eqI [of k q x] dividend_less_times_div [of k x] by (auto simp: mult.commute)

lemma multiple_range: "0 < k \<Longrightarrow> k * ((x :: nat) div k) = k * q \<longleftrightarrow> q * k \<le> x \<and> x < q * k + k"
  by (simp add: div_range)

lemma digit_ranges:
  "(B :: nat) div 64 = 1 \<longleftrightarrow> 64 \<le> B \<and> B < 128" "B div 16 = 1 \<longleftrightarrow> 16 \<le> B \<and> B \<le> 31" "B div 2 = 9 \<longleftrightarrow> 18 \<le> B \<and> B < 20"
  "B div 16 = 14 \<longleftrightarrow> 224 \<le> B \<and> B \<le> 239" "B < 256 \<Longrightarrow> B div 16 = 15 \<longleftrightarrow> 240 \<le> B"
  by (simp_all add: div_range less_Suc_eq_le [symmetric])

lemma v4_blocks: "list_ex (in_block (v4_number a b c d)) CLOSED_V4 \<longleftrightarrow> \<not> public_v4 a b c d"
proof -
  obtain A B C D where u: "unat a = A" "unat b = B" "unat c = C" "unat d = D" and lt: "A < 256" "B < 256" "C < 256" "D < 256"
    using octet by blast
  have B: "B div 64 < 4" "B div 16 < 16" "B div 2 < 128" using lt(2) by simp_all
  have "4 * A + B div 64 = 401 \<longleftrightarrow> A = 100 \<and> 64 \<le> B \<and> B < 128" "16 * A + B div 16 = 2753 \<longleftrightarrow> A = 172 \<and> 16 \<le> B \<and> B \<le> 31"
    "128 * A + B div 2 = 25353 \<longleftrightarrow> A = 198 \<and> 18 \<le> B \<and> B < 20"
    using two_digits [OF B(1), of 1 A 100] two_digits [OF B(2), of 1 A 172] two_digits [OF B(3), of 9 A 198] digit_ranges(1-3) [of B]
    by simp_all
  moreover have "256 * A + B = 43518 \<longleftrightarrow> A = 169 \<and> B = 254" "256 * A + B = 49320 \<longleftrightarrow> A = 192 \<and> B = 168"
    using two_digits [OF lt(2), of 254 A 169] two_digits [OF lt(2), of 168 A 192] by simp_all
  moreover have "65536 * A + 256 * B + C = 12582912 \<longleftrightarrow> A = 192 \<and> B = 0 \<and> C = 0"
    "65536 * A + 256 * B + C = 12582914 \<longleftrightarrow> A = 192 \<and> B = 0 \<and> C = 2"
    "65536 * A + 256 * B + C = 12989284 \<longleftrightarrow> A = 198 \<and> B = 51 \<and> C = 100"
    "65536 * A + 256 * B + C = 13303921 \<longleftrightarrow> A = 203 \<and> B = 0 \<and> C = 113"
    using two_digits [OF lt(3), of 0 "256 * A + B" "256 * 192"] two_digits [OF lt(3), of 2 "256 * A + B" "256 * 192"]
      two_digits [OF lt(3), of 100 "256 * A + B" "256 * 198 + 51"] two_digits [OF lt(3), of 113 "256 * A + B" "256 * 203"]
      two_digits [OF lt(2), of 0 A 192] two_digits [OF lt(2), of 51 A 198] two_digits [OF lt(2), of 0 A 203] by simp_all
  ultimately have blocks: "list_ex (in_block (v4_number a b c d)) CLOSED_V4 \<longleftrightarrow>
      A = 0 \<or> A = 10 \<or> (A = 100 \<and> 64 \<le> B \<and> B < 128) \<or> A = 127 \<or> (A = 169 \<and> B = 254) \<or>
      (A = 172 \<and> 16 \<le> B \<and> B \<le> 31) \<or> (A = 192 \<and> B = 0 \<and> C = 0) \<or> (A = 192 \<and> B = 0 \<and> C = 2) \<or> (A = 192 \<and> B = 168) \<or>
      (A = 198 \<and> 18 \<le> B \<and> B < 20) \<or> (A = 198 \<and> B = 51 \<and> C = 100) \<or> (A = 203 \<and> B = 0 \<and> C = 113) \<or>
      (224 \<le> A \<and> A \<le> 239) \<or> 240 \<le> A"
    using digit_ranges(4) [of A] digit_ranges(5) [OF lt(1)]
    by (simp add: CLOSED_V4_def in_block_def v4_number_div v4_number_div_more u)
  have "public_v4 a b c d \<longleftrightarrow>
      \<not> (A = 127 \<or> (A = 0 \<and> B = 0 \<and> C = 0 \<and> D = 0) \<or> (A = 10 \<or> (A = 172 \<and> 16 \<le> B \<and> B \<le> 31) \<or> (A = 192 \<and> B = 168)) \<or>
         (A = 169 \<and> B = 254) \<or> (224 \<le> A \<and> A \<le> 239) \<or> (A = 255 \<and> B = 255 \<and> C = 255 \<and> D = 255) \<or>
         ((A = 192 \<and> B = 0 \<and> C = 2) \<or> (A = 198 \<and> B = 51 \<and> C = 100) \<or> (A = 203 \<and> B = 0 \<and> C = 113)) \<or> A = 0 \<or>
         (A = 100 \<and> 64 \<le> B \<and> B < 128) \<or> (A = 192 \<and> B = 0 \<and> C = 0) \<or> (A = 198 \<and> 18 \<le> B \<and> B < 20) \<or> 240 \<le> A)"
    unfolding public_v4_def is_private_v4_def is_documentation_v4_def octet_iffs u by simp
  moreover have "A = 255 \<longrightarrow> 240 \<le> A" by simp
  ultimately show ?thesis unfolding blocks by satx
qed

lemma leading_ones:
  fixes s :: "16 word"
  shows "unat (s AND NOT (mask n)) = 2 ^ n * (unat s div 2 ^ n)"
proof -
  have "s AND NOT (mask n) = push_bit n (drop_bit n s)" by (rule bit_eqI) (auto simp: bit_simps)
  moreover have take_bit_unsigned: "take_bit LENGTH(16) (unat s) = unat s"
    using unsigned_less [of s, where ?'a = nat] by (simp add: take_bit_nat_eq_self_iff)
  moreover have "2 ^ n * (unat s div 2 ^ n) < 2 ^ 16"
    using unsigned_less [of s, where ?'a = nat] by (auto intro: le_less_trans [OF times_div_less_eq_dividend])
  ultimately show ?thesis
    by (simp only: unsigned_push_bit_eq unsigned_drop_bit_eq take_bit_unsigned)
      (simp add: push_bit_eq_mult drop_bit_eq_div take_bit_nat_eq_self_iff mult.commute)
qed

lemma masked_segments:
  fixes s :: "16 word"
  shows "s AND 0xff00 = 0xff00 \<longleftrightarrow> 0xff00 \<le> s"
    and "s AND 0xfe00 = 0xfc00 \<longleftrightarrow> 0xfc00 \<le> s \<and> s \<le> 0xfdff"
    and "s AND 0xffc0 = 0xfe80 \<longleftrightarrow> 0xfe80 \<le> s \<and> s \<le> 0xfebf"
    and "s AND 0xffc0 = 0xfec0 \<longleftrightarrow> 0xfec0 \<le> s \<and> s \<le> 0xfeff"
proof -
  have m: "(0xff00 :: 16 word) = NOT (mask 8)" "(0xfe00 :: 16 word) = NOT (mask 9)" "(0xffc0 :: 16 word) = NOT (mask 6)"
    by (simp_all add: mask_eq_exp_minus_1)
  have lt: "unat s < 65536" using unsigned_less [of s, where ?'a = nat] by simp
  have u: "unat (s AND 0xff00) = 256 * (unat s div 256)" "unat (s AND 0xfe00) = 512 * (unat s div 512)" "unat (s AND 0xffc0) = 64 * (unat s div 64)"
    unfolding m leading_ones by simp_all
  show "s AND 0xff00 = 0xff00 \<longleftrightarrow> 0xff00 \<le> s"
    using multiple_range [of 256 "unat s" 255] lt by (auto simp: word_unat_eq_iff word_le_nat_alt u)
  show "s AND 0xfe00 = 0xfc00 \<longleftrightarrow> 0xfc00 \<le> s \<and> s \<le> 0xfdff"
    using multiple_range [of 512 "unat s" 126] by (auto simp: word_unat_eq_iff word_le_nat_alt u)
  show "s AND 0xffc0 = 0xfe80 \<longleftrightarrow> 0xfe80 \<le> s \<and> s \<le> 0xfebf"
    using multiple_range [of 64 "unat s" 1018] by (auto simp: word_unat_eq_iff word_le_nat_alt u)
  show "s AND 0xffc0 = 0xfec0 \<longleftrightarrow> 0xfec0 \<le> s \<and> s \<le> 0xfeff"
    using multiple_range [of 64 "unat s" 1019] by (auto simp: word_unat_eq_iff word_le_nat_alt u)
qed

text \<open>
  Claim C28: The test for public addresses agrees with the address plan: an IPv4 address passes just when it lies in none
  of the fourteen private, shared, loopback, link-local, documentation, benchmarking, multicast and
  reserved blocks; an IPv6 address that carries none passes just when its first segments are outside the
  unique-local, link-local, site-local, multicast and documentation ranges and not all zero, and one that carries an
  IPv4 address passes when that does.
\<close>

theorem public_addresses_are_outside_the_closed_blocks:
  "(public_address (V4 a b c d) \<longleftrightarrow> \<not> list_ex (in_block (v4_number a b c d)) CLOSED_V4) \<and>
   (public_address (V6 s0 s1 s2 s3 s4 s5 s6 s7) \<longleftrightarrow>
     (if s0 = 0 \<and> s1 = 0 \<and> s2 = 0 \<and> s3 = 0 \<and> s4 = 0 \<and> s5 = 0xffff \<or> s0 = 0x64 \<and> s1 = 0xff9b \<and> s2 = 0 \<and> s3 = 0 \<and> s4 = 0 \<and> s5 = 0
      then public_address (V4 (ucast (drop_bit 8 s6)) (ucast s6) (ucast (drop_bit 8 s7)) (ucast s7))
      else \<not> (s0 = 0 \<and> s1 = 0 \<and> s2 = 0 \<and> s3 = 0 \<and> s4 = 0 \<and> s5 = 0) \<and> \<not> (s0 = 0x2001 \<and> s1 = 0xdb8) \<and>
           (s0 < 0xfc00 \<or> 0xfdff < s0 \<and> s0 < 0xfe80)))"
proof (intro conjI)
  show "public_address (V4 a b c d) \<longleftrightarrow> \<not> list_ex (in_block (v4_number a b c d)) CLOSED_V4"
    by (simp add: v4_blocks)
  have "s0 \<le> 0xfdff \<or> 0xfdff < s0" "s0 < 0xfc00 \<or> 0xfc00 \<le> s0" by auto
  then have "(s0 AND 0xff00 = 0xff00 \<or> s0 AND 0xfe00 = 0xfc00 \<or> s0 AND 0xffc0 = 0xfe80 \<or> s0 AND 0xffc0 = 0xfec0) \<longleftrightarrow>
      \<not> (s0 < 0xfc00 \<or> 0xfdff < s0 \<and> s0 < 0xfe80)"
    unfolding masked_segments word_le_nat_alt word_less_nat_alt by auto
  then show "public_address (V6 s0 s1 s2 s3 s4 s5 s6 s7) \<longleftrightarrow>
     (if s0 = 0 \<and> s1 = 0 \<and> s2 = 0 \<and> s3 = 0 \<and> s4 = 0 \<and> s5 = 0xffff \<or> s0 = 0x64 \<and> s1 = 0xff9b \<and> s2 = 0 \<and> s3 = 0 \<and> s4 = 0 \<and> s5 = 0
      then public_address (V4 (ucast (drop_bit 8 s6)) (ucast s6) (ucast (drop_bit 8 s7)) (ucast s7))
      else \<not> (s0 = 0 \<and> s1 = 0 \<and> s2 = 0 \<and> s3 = 0 \<and> s4 = 0 \<and> s5 = 0) \<and> \<not> (s0 = 0x2001 \<and> s1 = 0xdb8) \<and>
           (s0 < 0xfc00 \<or> 0xfdff < s0 \<and> s0 < 0xfe80))"
    unfolding public_address.simps v4_within_def by (simp only: if_bool_eq_conj) satx
qed

section \<open>Literal addresses\<close>

text \<open>
  \<^verbatim>\<open>IpAddr::from_str\<close>: each reader gives what it read and what is left of the string, and a reader that fails has read
  nothing.
\<close>

definition ip_digit :: "bool \<Rightarrow> char \<Rightarrow> nat option" where
  "ip_digit hex c =
     (let n = (of_char c :: nat)
      in if 48 \<le> n \<and> n \<le> 57 then Some (n - 48)
         else if hex \<and> 97 \<le> n \<and> n \<le> 102 then Some (n - 87)
         else if hex \<and> 65 \<le> n \<and> n \<le> 70 then Some (n - 55) else None)"

text \<open>Up to three decimal digits with no leading zero, below 256; or up to four hexadecimal digits.\<close>

definition read_ip_number :: "bool \<Rightarrow> string \<Rightarrow> (nat \<times> string) option" where
  "read_ip_number hex s =
     (let ds = takeWhile (\<lambda>c. ip_digit hex c \<noteq> None) s;
          n = foldl (\<lambda>a c. (if hex then 16 else 10) * a + the (ip_digit hex c)) 0 ds
      in if ds = [] \<or> (if hex then 4 else 3) < length ds then None
         else if \<not> hex \<and> (hd ds = CHR ''0'' \<and> 1 < length ds \<or> 255 < n) then None
         else Some (n, drop (length ds) s))"

definition read_given :: "char \<Rightarrow> string \<Rightarrow> string option" where
  "read_given c s = (case s of x # xs \<Rightarrow> if x = c then Some xs else None | [] \<Rightarrow> None)"

definition read_separated :: "char \<Rightarrow> nat \<Rightarrow> (string \<Rightarrow> 'a option) \<Rightarrow> string \<Rightarrow> 'a option" where
  "read_separated c i read s = (if i = 0 then read s else Option.bind (read_given c s) read)"

fun read_octets :: "nat \<Rightarrow> nat \<Rightarrow> string \<Rightarrow> (nat list \<times> string) option" where
  "read_octets i 0 s = Some ([], s)"
| "read_octets i (Suc n) s =
     (case read_separated (CHR ''.'') i (read_ip_number False) s of
        None \<Rightarrow> None
      | Some (x, r) \<Rightarrow> map_option (\<lambda>(xs, r'). (x # xs, r')) (read_octets (Suc i) n r))"

text \<open>
  The groups of an IPv6 address from group \<open>i\<close> on, \<open>n\<close> at most: the groups, whether an IPv4 address was the
  last two of them, and what is left.
\<close>

fun octet_groups :: "nat list \<Rightarrow> nat list" where
  "octet_groups (a # b # xs) = (256 * a + b) # octet_groups xs"
| "octet_groups xs = xs"

fun read_groups :: "nat \<Rightarrow> nat \<Rightarrow> string \<Rightarrow> nat list \<times> bool \<times> string" where
  "read_groups i 0 s = ([], False, s)"
| "read_groups i (Suc n) s =
     (case (if n = 0 then None else read_separated (CHR '':'') i (read_octets 0 4) s) of
        Some (xs, r) \<Rightarrow> (octet_groups xs, True, r)
      | None \<Rightarrow>
          (case read_separated (CHR '':'') i (read_ip_number True) s of
             Some (g, r) \<Rightarrow> (let (gs, v4, r') = read_groups (Suc i) n r in (g # gs, v4, r'))
           | None \<Rightarrow> ([], False, s)))"

definition read_v6 :: "string \<Rightarrow> (nat list \<times> string) option" where
  "read_v6 s =
     (let (gs, v4, r) = read_groups 0 8 s
      in if length gs = 8 then Some (gs, r)
         else if v4 then None
         else (case Option.bind (read_given (CHR '':'') r) (read_given (CHR '':'')) of
                 None \<Rightarrow> None
               | Some r' \<Rightarrow>
                   (let (ts, _, r'') = read_groups 0 (8 - (length gs + 1)) r'
                    in Some (gs @ replicate (8 - length gs - length ts) 0 @ ts, r''))))"

fun ip_of_octets :: "nat list \<Rightarrow> ip_addr option" where
  "ip_of_octets [a, b, c, d] = Some (V4 (of_nat a) (of_nat b) (of_nat c) (of_nat d))"
| "ip_of_octets _ = None"

fun ip_of_groups :: "nat list \<Rightarrow> ip_addr option" where
  "ip_of_groups [a, b, c, d, e, f, g, h] =
     Some (V6 (of_nat a) (of_nat b) (of_nat c) (of_nat d) (of_nat e) (of_nat f) (of_nat g) (of_nat h))"
| "ip_of_groups _ = None"

definition parse_ip :: "string \<Rightarrow> ip_addr option" where
  "parse_ip s =
     (case read_octets 0 4 s of
        Some (xs, r) \<Rightarrow> if r = [] then ip_of_octets xs else None
      | None \<Rightarrow> (case read_v6 s of Some (gs, r) \<Rightarrow> if r = [] then ip_of_groups gs else None | None \<Rightarrow> None))"

definition is_ip_literal :: "string \<Rightarrow> bool" where
  "is_ip_literal s \<longleftrightarrow> parse_ip s \<noteq> None"

end
