(* ===== verification/Unsubscribe.thy ===== *)
theory Unsubscribe
  imports Addresses Core
begin

text \<open>
  Unsubscribing from a mailing list (\<^verbatim>\<open>kaluta-core/src/cleanup/unsubscribe.rs\<close>): reading the \<^verbatim>\<open>List-Unsubscribe\<close>
  header, deciding what may be posted to, grouping the ticked rows into lists, and the posts themselves. The URL
  parser, the name lookup, the HTTP exchange and the query for a group's newest message are parameters; every post
  is kept in a log. (The allowance for test servers is not compiled into the app and is left out.)
\<close>

section \<open>Addresses of a header\<close>

record url =
  ur_text :: string
  ur_scheme :: string
  ur_host :: "string option"
  ur_port :: "nat option"
  ur_username :: string
  ur_password :: "string option"

record mailto =
  mt_to :: "string list"
  mt_cc :: "string list"
  mt_subject :: string
  mt_body :: string

datatype unsubscribe_method = ByPost url | ByMail mailto

datatype http_answer = HttpAnswer nat string "string option" | HttpTimeout | HttpUnreachable | HttpNoClient string

record list_headers_of =
  lf_key :: string
  lf_message_id :: message_id
  lf_list_id :: "string option"
  lf_list_name :: "string option"
  lf_from :: "email_address option"
  lf_unsubscribe :: "string option"
  lf_unsubscribe_post :: "string option"

record 'w unsubscribe_env =
  un_url :: "string \<Rightarrow> url option"
  un_lossy :: "nat list \<Rightarrow> string"
  un_rows :: "string list \<Rightarrow> 'w \<Rightarrow> (core_error, list_headers_of list) result"
  un_lookup :: "string \<Rightarrow> 'w \<Rightarrow> ip_addr list option \<times> 'w"
  un_send :: "url \<Rightarrow> ip_addr list \<Rightarrow> 'w \<Rightarrow> http_answer \<times> 'w"

definition ONE_CLICK_BODY :: string where "ONE_CLICK_BODY = ''List-Unsubscribe=One-Click''"

text \<open>What is between angle brackets, without its white space.\<close>

function uris :: "string \<Rightarrow> string list" where
  "uris header =
     (case dropWhile (\<lambda>c. c \<noteq> CHR ''<'') header of
        [] \<Rightarrow> []
      | _ # after \<Rightarrow>
          (case dropWhile (\<lambda>c. c \<noteq> CHR ''>'') after of
             [] \<Rightarrow> []
           | _ # rest \<Rightarrow>
               let uri = filter (\<lambda>c. \<not> is_whitespace c) (takeWhile (\<lambda>c. c \<noteq> CHR ''>'') after)
               in (if uri = [] then [] else [uri]) @ uris rest))"
  by pat_completeness auto
termination
proof (relation "measure length")
  fix header c after d rest
  assume "dropWhile (\<lambda>c. c \<noteq> CHR ''<'') header = c # after" "dropWhile (\<lambda>c. c \<noteq> CHR ''>'') after = d # rest"
  then have "length (c # after) \<le> length header" "length (d # rest) \<le> length after"
    by (metis length_dropWhile_le)+
  then show "(rest, header) \<in> measure length" by simp
qed simp

declare uris.simps [simp del]

definition is_one_click :: "string option \<Rightarrow> bool" where
  "is_one_click post = (case post of Some p \<Rightarrow> eq_nocase (trim p) ONE_CLICK_BODY | None \<Rightarrow> False)"

definition PRIVATE_SUFFIXES :: "string list" where
  "PRIVATE_SUFFIXES = [''local'', ''localhost'', ''internal'', ''lan'', ''home.arpa'', ''intranet'', ''corp'']"

definition trim_end_matches :: "char \<Rightarrow> string \<Rightarrow> string" where
  "trim_end_matches c s = rev (dropWhile (\<lambda>x. x = c) (rev s))"

definition private_name :: "string \<Rightarrow> bool" where
  "private_name host \<longleftrightarrow> list_ex (\<lambda>s. host = s \<or> suffix (CHR ''.'' # s) host) PRIVATE_SUFFIXES"

definition plain_host :: "string \<Rightarrow> string" where
  "plain_host host = to_ascii_lowercase (trim_end_matches (CHR ''.'') host)"

definition postable :: "url \<Rightarrow> bool" where
  "postable u \<longleftrightarrow>
     ur_username u = [] \<and> ur_password u = None \<and>
     (case ur_host u of
        None \<Rightarrow> False
      | Some host \<Rightarrow>
          \<not> is_ip_literal (trim_end_matches (CHR '']'') (dropWhile (\<lambda>x. x = CHR ''['') host)) \<and>
          ur_scheme u = ''https'' \<and> ur_port u = None \<and> CHR ''.'' \<in> set (plain_host host) \<and> \<not> private_name (plain_host host))"

definition shown_host :: "url \<Rightarrow> string" where
  "shown_host u =
     (let host = (case ur_host u of Some h \<Rightarrow> h | None \<Rightarrow> [])
      in case ur_port u of Some p \<Rightarrow> host @ '':'' @ show_nat p | None \<Rightarrow> host)"

text \<open>The addresses a name led to, when each is public.\<close>

definition checked_addresses :: "string \<Rightarrow> ip_addr list \<Rightarrow> (string, ip_addr list) result" where
  "checked_addresses host addrs =
     (if addrs = [] then Err (host @ '' could not be found'')
      else if list_ex (\<lambda>a. \<not> public_address a) addrs then Err (host @ '' leads to a private address'')
      else Ok addrs)"

section \<open>Mail addresses\<close>

text \<open>Strings as the bytes of their UTF-8 encoding.\<close>

definition utf8_bytes :: "string \<Rightarrow> nat list" where
  "utf8_bytes s = concat (map (\<lambda>c. let n = of_char c in if n < 128 then [n] else [192 + n div 64, 128 + n mod 64]) s)"

text \<open>
  Two bytes as a hexadecimal number, the way \<^verbatim>\<open>u8::from_str_radix\<close> reads them: a plus sign may take the place of the
  first digit.
\<close>

definition radix_byte :: "nat \<Rightarrow> nat \<Rightarrow> nat option" where
  "radix_byte a b =
     (if 128 \<le> a \<or> 128 \<le> b then None
      else (case (hex_value (char_of a), hex_value (char_of b)) of
              (Some x, Some y) \<Rightarrow> Some (16 * x + y)
            | (None, Some y) \<Rightarrow> if a = 43 then Some y else None
            | _ \<Rightarrow> None))"

fun decode_bytes :: "nat list \<Rightarrow> nat list" where
  "decode_bytes (p # a # b # rest) =
     (case (if p = 37 then radix_byte a b else None) of
        Some n \<Rightarrow> n # decode_bytes rest
      | None \<Rightarrow> p # decode_bytes (a # b # rest))"
| "decode_bytes bytes = bytes"

definition percent_decode :: "'w unsubscribe_env \<Rightarrow> string \<Rightarrow> string" where
  "percent_decode q s = un_lossy q (decode_bytes (utf8_bytes s))"

definition mail_addresses :: "'w unsubscribe_env \<Rightarrow> string \<Rightarrow> string list" where
  "mail_addresses q s =
     filter (\<lambda>a. CHR ''@'' \<in> set a) (map (\<lambda>a. trim (percent_decode q a)) (split_on (\<lambda>c. c = CHR '','') s))"

definition add_header :: "'w unsubscribe_env \<Rightarrow> mailto \<Rightarrow> string \<Rightarrow> mailto" where
  "add_header q m pair =
     (let (name, value) = (case split_once (CHR ''='') pair of Some nv \<Rightarrow> nv | None \<Rightarrow> (pair, []));
          header = to_ascii_lowercase (percent_decode q name)
      in if header = ''to'' then m\<lparr>mt_to := mt_to m @ mail_addresses q value\<rparr>
         else if header = ''cc'' then m\<lparr>mt_cc := mt_cc m @ mail_addresses q value\<rparr>
         else if header = ''subject'' then m\<lparr>mt_subject := percent_decode q value\<rparr>
         else if header = ''body'' then m\<lparr>mt_body := percent_decode q value\<rparr>
         else m)"

definition parse_mailto :: "'w unsubscribe_env \<Rightarrow> string \<Rightarrow> mailto option" where
  "parse_mailto q uri =
     (if to_ascii_lowercase (take 7 uri) \<noteq> ''mailto:'' then None
      else (let rest = drop 7 uri;
                (to, query) = (case split_once (CHR ''?'') rest of Some tq \<Rightarrow> tq | None \<Rightarrow> (rest, []));
                m = foldl (add_header q) \<lparr>mt_to = mail_addresses q to, mt_cc = [], mt_subject = [], mt_body = []\<rparr>
                      (filter (\<lambda>p. p \<noteq> []) (split_on (\<lambda>c. c = CHR ''&'') query))
            in if mt_to m = [] then None else Some m))"

section \<open>How a list is left\<close>

definition COUNTRY_SECOND_LEVELS :: "string list" where
  "COUNTRY_SECOND_LEVELS = [''ac'', ''co'', ''com'', ''edu'', ''gov'', ''ne'', ''net'', ''or'', ''org'', ''go'']"

definition registrable :: "string \<Rightarrow> string" where
  "registrable host0 =
     (let host = to_ascii_lowercase (trim_end_matches (CHR ''.'') (trim host0))
      in if is_ip_literal host then host
         else (let labels = filter (\<lambda>l. l \<noteq> []) (split_on (\<lambda>c. c = CHR ''.'') host);
                   n = length labels;
                   count = (if 3 \<le> n \<and> utf8_len (labels ! (n - 1)) = 2 \<and> labels ! (n - 2) \<in> set COUNTRY_SECOND_LEVELS then 3 else 2)
               in join_with ''.'' (drop (n - count) labels)))"

definition after_last_at :: "string \<Rightarrow> string option" where
  "after_last_at s = map_option (\<lambda>(a, b). rev a) (split_once (CHR ''@'') (rev s))"

definition owners :: "string option \<Rightarrow> string option \<Rightarrow> string list" where
  "owners list_id from_email =
     filter (\<lambda>d. d \<noteq> [])
       (map registrable ((case list_id of Some i \<Rightarrow> [i] | None \<Rightarrow> []) @
          (case Option.bind from_email after_last_at of Some d \<Rightarrow> [d] | None \<Rightarrow> [])))"

definition own_site :: "string list \<Rightarrow> url \<Rightarrow> bool" where
  "own_site sites u = (case ur_host u of Some h \<Rightarrow> registrable h \<in> set sites | None \<Rightarrow> False)"

definition find_map :: "('a \<Rightarrow> 'b option) \<Rightarrow> 'a list \<Rightarrow> 'b option" where
  "find_map f xs = (case List.map_filter f xs of y # ys \<Rightarrow> Some y | [] \<Rightarrow> None)"

definition unsubscribe_by :: "'w unsubscribe_env \<Rightarrow> string \<Rightarrow> string option \<Rightarrow> string list \<Rightarrow> unsubscribe_method option" where
  "unsubscribe_by q header post sites =
     (let us = uris header;
          one_click = (if is_one_click post
                       then find_map (\<lambda>u. case un_url q u of
                              Some url \<Rightarrow> if postable url \<and> own_site sites url then Some url else None
                            | None \<Rightarrow> None) us
                       else None)
      in case one_click of Some url \<Rightarrow> Some (ByPost url) | None \<Rightarrow> map_option ByMail (find_map (parse_mailto q) us))"

text \<open>\<^verbatim>\<open>%+A\<close> is no escape, but it is decoded to a line feed.\<close>

lemma a_plus_sign_passes_for_a_digit: "decode_bytes (utf8_bytes ''a%+Ab'') = utf8_bytes [CHR ''a'', CHR 0x0A, CHR ''b'']"
  by code_simp

section \<open>One target per list\<close>

datatype shown_method = ShownPost string | ShownMail mailto

record unsubscribe_target =
  ut_keys :: "string list"
  ut_message_ids :: "message_id list"
  ut_name :: string
  ut_method :: shown_method

record resolved_list =
  rl_target :: unsubscribe_target
  rl_method :: unsubscribe_method
  rl_identities :: "string list"

definition list_of_row :: "list_headers_of \<Rightarrow> unsubscribe_method \<Rightarrow> string" where
  "list_of_row r m =
     (case lf_list_id r of
        Some i \<Rightarrow> ''list:'' @ to_lowercase i
      | None \<Rightarrow> (case m of ByPost u \<Rightarrow> ''url:'' @ ur_text u | ByMail t \<Rightarrow> ''mailto:'' @ to_lowercase (join_with '','' (mt_to t))))"

definition not_blank :: "string option \<Rightarrow> string option" where
  "not_blank t = (case t of Some n \<Rightarrow> if trim n = [] then None else Some n | None \<Rightarrow> None)"

definition name_of_row :: "list_headers_of \<Rightarrow> string" where
  "name_of_row r =
     (case find_map id [not_blank (lf_list_name r), not_blank (Option.bind (lf_from r) ea_name), lf_list_id r] of
        Some n \<Rightarrow> n
      | None \<Rightarrow> (case lf_from r of Some a \<Rightarrow> ea_email a | None \<Rightarrow> lf_key r))"

fun shown_of :: "unsubscribe_method \<Rightarrow> shown_method" where
  "shown_of (ByPost u) = ShownPost (shown_host u)"
| "shown_of (ByMail m) = ShownMail m"

definition identities_of :: "unsubscribe_kind \<Rightarrow> list_headers_of \<Rightarrow> string list" where
  "identities_of kind r =
     unsubscribe_identity kind (lf_key r) #
     (case (kind, lf_list_id r) of (UkSender, Some i) \<Rightarrow> [unsubscribe_identity UkList i] | _ \<Rightarrow> [])"

text \<open>The lists found so far, in the order they were met; a row of a list already there joins it.\<close>

definition add_row ::
    "unsubscribe_kind \<Rightarrow> list_headers_of \<Rightarrow> unsubscribe_method \<Rightarrow> (string \<times> resolved_list) list \<Rightarrow> (string \<times> resolved_list) list" where
  "add_row kind r m found =
     (let l = list_of_row r m
      in if l \<in> fst ` set found
         then map (\<lambda>(k, x).
           if k = l
           then (k, x\<lparr>rl_target := (rl_target x)\<lparr>ut_keys := ut_keys (rl_target x) @ [lf_key r],
                                                ut_message_ids := ut_message_ids (rl_target x) @ [lf_message_id r]\<rparr>,
                      rl_identities := rl_identities x @ identities_of kind r\<rparr>)
           else (k, x)) found
         else found @ [(l, \<lparr>rl_target = \<lparr>ut_keys = [lf_key r], ut_message_ids = [lf_message_id r], ut_name = name_of_row r,
                                        ut_method = shown_of m\<rparr>,
                            rl_method = m, rl_identities = identities_of kind r\<rparr>)])"

definition method_of_row :: "'w unsubscribe_env \<Rightarrow> list_headers_of \<Rightarrow> unsubscribe_method option" where
  "method_of_row q r =
     (case lf_unsubscribe r of
        None \<Rightarrow> None
      | Some h \<Rightarrow> unsubscribe_by q h (lf_unsubscribe_post r) (owners (lf_list_id r) (map_option ea_email (lf_from r))))"

definition resolve_lists :: "'w unsubscribe_env \<Rightarrow> cleanup_view \<Rightarrow> list_headers_of list \<Rightarrow> resolved_list list" where
  "resolve_lists q view rows =
     (case unsubscribe_kind_of view of
        None \<Rightarrow> []
      | Some kind \<Rightarrow>
          map snd (foldl (\<lambda>found r. case method_of_row q r of Some m \<Rightarrow> add_row kind r m found | None \<Rightarrow> found) [] rows))"

section \<open>Posting\<close>

record 'w unsubscribe_state =
  us_world :: 'w
  us_posts :: "(url \<times> ip_addr list) list"
  us_meta :: "string \<rightharpoonup> string"

definition post_answer :: "string \<Rightarrow> http_answer \<Rightarrow> string option" where
  "post_answer shown a =
     (case a of
        HttpAnswer code status location \<Rightarrow>
          if 200 \<le> code \<and> code \<le> 299 then None
          else if 300 \<le> code \<and> code \<le> 399
          then Some (case location of
                 Some to \<Rightarrow> ''the list wants you to open a page at '' @ to @ '' to finish''
               | None \<Rightarrow> ''the list wants you to open a page to finish'')
          else Some (shown @ '' answered '' @ status)
      | HttpTimeout \<Rightarrow> Some (shown @ '' did not answer in time'')
      | HttpUnreachable \<Rightarrow> Some (shown @ '' could not be reached'')
      | HttpNoClient e \<Rightarrow> Some e)"

text \<open>The name is looked up once, and the post goes to the addresses that were checked; the answer is an error or none.\<close>

definition post_one_click :: "'w unsubscribe_env \<Rightarrow> url \<Rightarrow> 'w unsubscribe_state \<Rightarrow> string option \<times> 'w unsubscribe_state" where
  "post_one_click q u s =
     (let host = (case ur_host u of Some h \<Rightarrow> h | None \<Rightarrow> ''the list'')
      in if \<not> postable u then (Some (shown_host u @ '' is not a secure address''), s)
         else (let (found, w) = un_lookup q host (us_world s)
               in case (case found of None \<Rightarrow> Err (host @ '' could not be found'') | Some addrs \<Rightarrow> checked_addresses host addrs) of
                    Inl e \<Rightarrow> (Some e, s\<lparr>us_world := w\<rparr>)
                  | Inr addrs \<Rightarrow>
                      let (answer, w') = un_send q u addrs w
                      in (post_answer (shown_host u) answer, s\<lparr>us_world := w', us_posts := us_posts s @ (case answer of HttpNoClient e \<Rightarrow> [] | _ \<Rightarrow> [(u, addrs)])\<rparr>)))"

definition REVIEW_AGAIN :: string where
  "REVIEW_AGAIN = ''New mail arrived from this list; review it again''"

record unsubscribe_result =
  uo_keys :: "string list"
  uo_name :: string
  uo_host :: string
  uo_error :: "string option"

text \<open>The address of a confirmed target, read again: from the same messages, leading to the host that was shown.\<close>

definition confirmed_url ::
    "'w unsubscribe_env \<Rightarrow> cleanup_view \<Rightarrow> unsubscribe_target \<Rightarrow> string \<Rightarrow> list_headers_of list \<Rightarrow> (url \<times> resolved_list) option" where
  "confirmed_url q view t shown rows =
     (case (if map lf_message_id rows = ut_message_ids t then resolve_lists q view rows else []) of
        [one] \<Rightarrow> (case rl_method one of ByPost u \<Rightarrow> if shown_host u = shown then Some (u, one) else None | ByMail m \<Rightarrow> None)
      | _ \<Rightarrow> None)"

text \<open>One target: the result shown, and what to remember.\<close>

definition unsubscribe_one ::
    "'w unsubscribe_env \<Rightarrow> cleanup_view \<Rightarrow> unsubscribe_target \<Rightarrow> string \<Rightarrow> 'w unsubscribe_state \<Rightarrow>
       (core_error, unsubscribe_result \<times> string list) result \<times> 'w unsubscribe_state" where
  "unsubscribe_one q view t shown s =
     (case un_rows q (ut_keys t) (us_world s) of
        Inl e \<Rightarrow> (Err e, s)
      | Inr rows \<Rightarrow>
          (case confirmed_url q view t shown rows of
             None \<Rightarrow>
               (Ok (\<lparr>uo_keys = ut_keys t, uo_name = ut_name t, uo_host = shown, uo_error = Some REVIEW_AGAIN\<rparr>, []), s)
           | Some (u, one) \<Rightarrow>
               let (error, s') = post_one_click q u s
               in (Ok (\<lparr>uo_keys = ut_keys (rl_target one), uo_name = ut_name (rl_target one), uo_host = shown_host u, uo_error = error\<rparr>,
                       if error = None then rl_identities one else []), s')))"

fun unsubscribe_each ::
    "'w unsubscribe_env \<Rightarrow> cleanup_view \<Rightarrow> (unsubscribe_target \<times> string) list \<Rightarrow> 'w unsubscribe_state \<Rightarrow>
       (core_error, unsubscribe_result list \<times> string list) result \<times> 'w unsubscribe_state" where
  "unsubscribe_each q view [] s = (Ok ([], []), s)"
| "unsubscribe_each q view ((t, shown) # ts) s =
     (case unsubscribe_one q view t shown s of
        (Inl e, s1) \<Rightarrow> (Err e, s1)
      | (Inr (r, ids), s1) \<Rightarrow>
          (case unsubscribe_each q view ts s1 of
             (Inl e, s2) \<Rightarrow> (Err e, s2)
           | (Inr (rs, ids2), s2) \<Rightarrow> (Ok (r # rs, ids @ ids2), s2)))"

definition one_click_targets :: "unsubscribe_target list \<Rightarrow> (unsubscribe_target \<times> string) list" where
  "one_click_targets ts = List.map_filter (\<lambda>t. case ut_method t of ShownPost h \<Rightarrow> Some (t, h) | ShownMail m \<Rightarrow> None) ts"

definition cleanup_unsubscribe ::
    "'w unsubscribe_env \<Rightarrow> cleanup_view \<Rightarrow> unsubscribe_target list \<Rightarrow> millis \<Rightarrow> 'w unsubscribe_state \<Rightarrow>
       (core_error, unsubscribe_result list) result \<times> 'w unsubscribe_state" where
  "cleanup_unsubscribe q view targets now s =
     (let ts = one_click_targets targets
      in if ts = [] \<or> list_ex (\<lambda>(t, h). ut_keys t = [] \<or> length (ut_keys t) \<noteq> length (ut_message_ids t)) ts
         then (Err (core_error_new EkInvalidInput ''no one-click lists given''), s)
         else (case unsubscribe_each q view ts s of
                 (Inl e, s') \<Rightarrow> (Err e, s')
               | (Inr (rs, ids), s') \<Rightarrow>
                   (Ok rs, if ids = [] then s' else s'\<lparr>us_meta := record_unsubscribed ids now (us_meta s')\<rparr>)))"

definition cleanup_unsubscribe_targets ::
    "'w unsubscribe_env \<Rightarrow> cleanup_view \<Rightarrow> string list \<Rightarrow> 'w unsubscribe_state \<Rightarrow> (core_error, unsubscribe_target list) result" where
  "cleanup_unsubscribe_targets q view keys s = map_sum id (\<lambda>rows. map rl_target (resolve_lists q view rows)) (un_rows q keys (us_world s))"


section \<open>Where posts go\<close>

text \<open>A post that the user confirmed: to the host that was shown, over https on its default port, carrying no name or password,
  to public addresses only, and to a site of the list or its sender, as the newest message of a ticked group says.\<close>

definition post_allowed :: "'w unsubscribe_env \<Rightarrow> unsubscribe_target \<Rightarrow> string \<Rightarrow> url \<times> ip_addr list \<Rightarrow> bool" where
  "post_allowed q t shown = (\<lambda>(u, addrs).
     shown_host u = shown \<and> ur_scheme u = ''https'' \<and> ur_port u = None \<and> ur_username u = [] \<and> ur_password u = None \<and>
     addrs \<noteq> [] \<and> (\<forall>a \<in> set addrs. public_address a) \<and>
     (\<exists>w rows r h. un_rows q (ut_keys t) w = Ok rows \<and> map lf_message_id rows = ut_message_ids t \<and> r \<in> set rows \<and>
        ur_host u = Some h \<and> registrable h \<in> set (owners (lf_list_id r) (map_option ea_email (lf_from r)))))"

lemma find_map_Some: "find_map f xs = Some y \<Longrightarrow> \<exists>x \<in> set xs. f x = Some y"
  by (auto simp: find_map_def List.map_filter_def filter_eq_Cons_iff split: list.splits)

lemma unsubscribe_by_post:
  assumes "unsubscribe_by q h post sites = Some (ByPost u)"
  shows "postable u \<and> own_site sites u"
  using assms by (auto simp: unsubscribe_by_def Let_def split: option.splits if_splits dest!: find_map_Some)

lemma add_row_methods:
  "x \<in> set (add_row kind r m found) \<Longrightarrow> rl_method (snd x) = m \<or> (\<exists>y \<in> set found. rl_method (snd y) = rl_method (snd x))"
  by (force simp: add_row_def Let_def split: if_splits)

lemma resolved_methods:
  assumes "x \<in> set (resolve_lists q view rows)"
  shows "\<exists>r \<in> set rows. method_of_row q r = Some (rl_method x)"
proof -
  have "\<exists>r \<in> set rows. method_of_row q r = Some (rl_method (snd y))"
    if "y \<in> set (foldl (\<lambda>found r. case method_of_row q r of Some m \<Rightarrow> add_row kind r m found | None \<Rightarrow> found) [] rows)" for kind y
    using that
  proof (induction rows arbitrary: y rule: rev_induct)
    case (snoc r rows)
    show ?case
    proof (cases "method_of_row q r")
      case None
      with snoc show ?thesis by auto
    next
      case (Some m)
      let ?found = "foldl (\<lambda>found r. case method_of_row q r of Some m \<Rightarrow> add_row kind r m found | None \<Rightarrow> found) [] rows"
      from snoc.prems Some have "y \<in> set (add_row kind r m ?found)" by simp
      from add_row_methods [OF this] consider "rl_method (snd y) = m" | z where "z \<in> set ?found" "rl_method (snd z) = rl_method (snd y)" by blast
      then show ?thesis
      proof cases
        case (2 z)
        with snoc.IH [OF 2(1)] show ?thesis by auto
      qed (use Some in auto)
    qed
  qed simp
  with assms show ?thesis by (fastforce simp: resolve_lists_def split: option.splits)
qed

lemma confirmed_url_post:
  assumes "confirmed_url q view t shown rows = Some (u, one)"
  shows "shown_host u = shown" "postable u" "map lf_message_id rows = ut_message_ids t"
    "\<exists>r \<in> set rows. own_site (owners (lf_list_id r) (map_option ea_email (lf_from r))) u"
proof -
  have u: "map lf_message_id rows = ut_message_ids t" "resolve_lists q view rows = [one]" "rl_method one = ByPost u" "shown_host u = shown"
    using assms by (auto simp: confirmed_url_def split: if_splits list.splits unsubscribe_method.splits)
  then obtain r where r: "r \<in> set rows" "method_of_row q r = Some (ByPost u)" using resolved_methods [of one q view rows] by auto
  then obtain h where "unsubscribe_by q h (lf_unsubscribe_post r) (owners (lf_list_id r) (map_option ea_email (lf_from r))) = Some (ByPost u)"
    by (auto simp: method_of_row_def split: option.splits)
  from unsubscribe_by_post [OF this] u r(1)
  show "shown_host u = shown" "postable u" "map lf_message_id rows = ut_message_ids t"
    "\<exists>r \<in> set rows. own_site (owners (lf_list_id r) (map_option ea_email (lf_from r))) u" by auto
qed

lemma post_one_click_posts:
  assumes "post_one_click q u s = (error, s')"
  shows "us_posts s' = us_posts s \<or>
    (\<exists>addrs. us_posts s' = us_posts s @ [(u, addrs)] \<and> addrs \<noteq> [] \<and> (\<forall>a \<in> set addrs. public_address a) \<and> postable u)"
  using assms
  by (auto simp: post_one_click_def Let_def checked_addresses_def list_ex_iff split: if_splits prod.splits option.splits sum.splits http_answer.splits)

lemma unsubscribe_one_posts:
  assumes "unsubscribe_one q view t shown s = (r, s')"
  shows "us_posts s' = us_posts s \<or> (\<exists>p. us_posts s' = us_posts s @ [p] \<and> post_allowed q t shown p)"
proof (cases "un_rows q (ut_keys t) (us_world s)")
  case (Inr rows)
  show ?thesis
  proof (cases "confirmed_url q view t shown rows")
    case (Some x)
    obtain u one where x: "confirmed_url q view t shown rows = Some (u, one)" using Some by (cases x) auto
    with assms Inr obtain e where "post_one_click q u s = (e, s')" by (auto simp: unsubscribe_one_def split: prod.splits)
    then consider "us_posts s' = us_posts s" | addrs where "us_posts s' = us_posts s @ [(u, addrs)]" "addrs \<noteq> []" "\<forall>a \<in> set addrs. public_address a"
      using post_one_click_posts by blast
    then show ?thesis
    proof cases
      case (2 addrs)
      obtain r where r: "r \<in> set rows" "own_site (owners (lf_list_id r) (map_option ea_email (lf_from r))) u"
        using confirmed_url_post(4) [OF x] by blast
      then obtain h where h: "ur_host u = Some h" "registrable h \<in> set (owners (lf_list_id r) (map_option ea_email (lf_from r)))"
        by (auto simp: own_site_def split: option.splits)
      have "post_allowed q t shown (u, addrs)"
        using 2(2,3) confirmed_url_post(1-3) [OF x] Inr r(1) h by (auto simp: post_allowed_def postable_def)
      with 2(1) show ?thesis by blast
    qed blast
  qed (use assms Inr in \<open>simp add: unsubscribe_one_def\<close>)
qed (use assms in \<open>simp add: unsubscribe_one_def\<close>)

lemma unsubscribe_each_posts:
  "unsubscribe_each q view ts s = (r, s') \<Longrightarrow>
     \<exists>new. us_posts s' = us_posts s @ new \<and> length new \<le> length ts \<and> (\<forall>p \<in> set new. \<exists>(t, shown) \<in> set ts. post_allowed q t shown p)"
proof (induction ts arbitrary: s r s')
  case (Cons x ts)
  obtain t shown where x: "x = (t, shown)" by fastforce
  obtain r1 s1 where one: "unsubscribe_one q view t shown s = (r1, s1)" by fastforce
  obtain ps where ps: "us_posts s1 = us_posts s @ ps" "length ps \<le> 1" "\<forall>p \<in> set ps. post_allowed q t shown p"
    using unsubscribe_one_posts [OF one] by (metis append_Nil2 empty_iff empty_set le_numeral_extra(4) length_Cons list.size(3)
        One_nat_def set_ConsD zero_le)
  show ?case
  proof (cases r1)
    case (Inl e)
    with Cons.prems x one ps show ?thesis by (intro exI [of _ ps]) auto
  next
    case (Inr y)
    obtain r2 s2 where rest: "unsubscribe_each q view ts s1 = (r2, s2)" by fastforce
    with Cons.prems x one Inr have "s' = s2" by (auto split: prod.splits sum.splits)
    with Cons.IH [OF rest] obtain new where "us_posts s' = us_posts s1 @ new" "length new \<le> length ts"
      "\<forall>p \<in> set new. \<exists>(t, shown) \<in> set ts. post_allowed q t shown p" by blast
    with ps x show ?thesis by (intro exI [of _ "ps @ new"]) auto
  qed
qed simp

text \<open>
  Claim C29: An unsubscription posts only to what the user confirmed. Every post of a run answers one of the targets, there are no more
  of them than targets, and each goes over https, without credentials, to the host that was shown, which is a site of the list
  or its sender by the very messages the confirmation was made from, and only to public addresses.
\<close>

theorem posts_are_confirmed_and_public:
  "\<exists>new. us_posts (snd (cleanup_unsubscribe q view targets now s)) = us_posts s @ new \<and> length new \<le> length targets \<and>
     list_all (\<lambda>p. list_ex (\<lambda>t. list_ex (\<lambda>shown. ut_method t = ShownPost shown \<and> post_allowed q t shown p) [shown_host (fst p)]) targets) new"
proof -
  obtain r s' where run: "unsubscribe_each q view (one_click_targets targets) s = (r, s')" by fastforce
  obtain new where new: "us_posts s' = us_posts s @ new" "length new \<le> length (one_click_targets targets)"
      "\<forall>p \<in> set new. \<exists>(t, shown) \<in> set (one_click_targets targets). post_allowed q t shown p"
    using unsubscribe_each_posts [OF run] by blast
  have "length (one_click_targets targets) \<le> length targets" by (simp add: one_click_targets_def List.map_filter_def)
  moreover have "t \<in> set targets \<and> ut_method t = ShownPost shown" if "(t, shown) \<in> set (one_click_targets targets)" for t shown
  proof -
    from that obtain y where "y \<in> set targets" "(case ut_method y of ShownPost h \<Rightarrow> Some (y, h) | ShownMail a \<Rightarrow> None) = Some (t, shown)"
      by (auto simp: one_click_targets_def set_map_filter)
    then show ?thesis by (cases "ut_method y") auto
  qed
  moreover have "us_posts (snd (cleanup_unsubscribe q view targets now s)) \<in> {us_posts s, us_posts s'}"
    using run by (auto simp: cleanup_unsubscribe_def Let_def split: sum.splits)
  moreover have "post_allowed q t shown p \<Longrightarrow> shown_host (fst p) = shown" for t shown p by (auto simp: post_allowed_def)
  ultimately show ?thesis
    using new by (cases "us_posts (snd (cleanup_unsubscribe q view targets now s)) = us_posts s")
      (fastforce simp: list_all_iff list_ex_iff)+
qed


end
