(* ===== verification/CleanupCounts.thy ===== *)
theory CleanupCounts
  imports CleanupGroups
begin

text \<open>
  The numbers Clean Up shows are the numbers it acts on: each group's count is the number of messages that its key
  selects. Both sides are compared with \<open>group_key\<close>, the group of one message.
\<close>

section \<open>Counting by key\<close>

lemma sql_groups_keys: "map fst (sql_groups key rows) = remdups (map key rows)"
  by (simp add: sql_groups_def comp_def)

lemma sql_groups_sum:
  "sum_list (map snd (filter (\<lambda>x. P (fst x)) (sql_groups key rows))) = length (filter (\<lambda>r. P (key r)) rows)"
proof -
  let ?ks = "filter P (remdups (map key rows))"
  have "map snd (filter (\<lambda>x. P (fst x)) (sql_groups key rows)) = map (\<lambda>k. sql_count (\<lambda>r. key r = k) rows) ?ks"
    by (simp add: sql_groups_def filter_map comp_def)
  also have "sum_list \<dots> = (\<Sum>k \<in> set ?ks. sql_count (\<lambda>r. key r = k) rows)"
    by (rule sum_list_distinct_conv_sum_set) simp
  also have "\<dots> = (\<Sum>k \<in> set ?ks. count_list (map key (filter (\<lambda>r. P (key r)) rows)) k)"
  proof (rule sum.cong [OF refl])
    fix k assume "k \<in> set ?ks"
    then have "filter (\<lambda>r. key r = k) rows = filter (\<lambda>r. key r = k) (filter (\<lambda>r. P (key r)) rows)"
      by (auto intro: filter_cong simp: filter_filter)
    then show "sql_count (\<lambda>r. key r = k) rows = count_list (map key (filter (\<lambda>r. P (key r)) rows)) k"
      by (simp add: sql_count_def count_list_eq_length_filter filter_map comp_def eq_commute)
  qed
  also have "\<dots> = length (filter (\<lambda>r. P (key r)) rows)"
    by (subst sum_count_set) auto
  finally show ?thesis .
qed

lemma sql_groups_count: "(k, n) \<in> set (sql_groups key rows) \<longleftrightarrow> k \<in> key ` set rows \<and> n = sql_count (\<lambda>r. key r = k) rows"
  by (auto simp: sql_groups_def)

section \<open>Named groups\<close>

abbreviation keys_sorted :: "('k::linorder \<times> 'v) list \<Rightarrow> bool" where
  "keys_sorted es \<equiv> sorted_wrt (<) (map fst es)"

lemma btree_entry_keys: "fst ` set (btree_entry k d f es) = insert k (fst ` set es)"
  by (induction k d f es rule: btree_entry.induct) auto

lemma btree_entry_sorted: "keys_sorted es \<Longrightarrow> keys_sorted (btree_entry k d f es)"
proof (induction k d f es rule: btree_entry.induct)
  case (2 k d f k' v es)
  then show ?case using btree_entry_keys [of k d f es] by auto
qed simp

lemma btree_entry_lookup:
  "keys_sorted es \<Longrightarrow>
   map_of (btree_entry k d f es) x = (if x = k then Some (f (case map_of es k of Some v \<Rightarrow> v | None \<Rightarrow> d)) else map_of es x)"
proof (induction k d f es rule: btree_entry.induct)
  case (2 k d f k' v es)
  moreover have "k < k' \<Longrightarrow> map_of es k = None" using 2(2) by (fastforce simp: map_of_eq_None_iff)
  ultimately show ?case by auto
qed simp

definition total :: "(string \<times> nat \<times> (string \<times> nat) list) list \<Rightarrow> string \<Rightarrow> nat" where
  "total es k = (case map_of es k of Some (c, names) \<Rightarrow> c | None \<Rightarrow> 0)"

lemma add_named_step:
  assumes "keys_sorted es"
  shows "keys_sorted (add_named es r)" "fst ` set (add_named es r) = insert (fst (fst r)) (fst ` set es)"
    "total (add_named es r) k = total es k + (if fst (fst r) = k then snd r else 0)"
proof -
  obtain key name n where r: "r = ((key, name), n)" by (metis prod.collapse)
  show "keys_sorted (add_named es r)" using btree_entry_sorted [OF assms] by (simp add: add_named_def r)
  show "fst ` set (add_named es r) = insert (fst (fst r)) (fst ` set es)" by (simp only: add_named_def r prod.case btree_entry_keys fst_conv)
  show "total (add_named es r) k = total es k + (if fst (fst r) = k then snd r else 0)"
    using assms by (auto simp: add_named_def r total_def btree_entry_lookup split: prod.splits option.splits)
qed

lemma add_all_named:
  assumes "keys_sorted es"
  shows "keys_sorted (foldl add_named es rows) \<and> fst ` set (foldl add_named es rows) = fst ` fst ` set rows \<union> fst ` set es \<and>
    total (foldl add_named es rows) k = total es k + sum_list (map snd (filter (\<lambda>r. fst (fst r) = k) rows))"
  using assms
proof (induction rows arbitrary: es)
  case (Cons r rows)
  from Cons.IH [OF add_named_step(1) [OF Cons.prems], of r] add_named_step(2,3) [OF Cons.prems] show ?case by auto
qed simp

lemma named_group_parts: "cg_key (named_group t e) = fst e" "cg_count (named_group t e) = fst (snd e)"
  by (auto simp: named_group_def Let_def split: prod.splits titled.splits)

lemma named_counts:
  fixes rows :: "message_row list" and kf :: "message_row \<Rightarrow> string \<times> string option" and t :: titled
  defines "gs \<equiv> named t (sql_groups kf rows)"
  shows "distinct (map cg_key gs)" "cg_key ` set gs = (fst \<circ> kf) ` set rows"
    "g \<in> set gs \<Longrightarrow> cg_count g = sql_count (\<lambda>r. fst (kf r) = cg_key g) rows"
proof -
  let ?es = "foldl add_named [] (sql_groups kf rows)"
  have f: "keys_sorted ?es" "fst ` set ?es = fst ` fst ` set (sql_groups kf rows)"
    "total ?es k = sum_list (map snd (filter (\<lambda>r. fst (fst r) = k) (sql_groups kf rows)))" for k
    using add_all_named [of "[]" "sql_groups kf rows" k] by (simp_all add: total_def)
  have keys: "map cg_key gs = map fst ?es" by (simp add: gs_def named_def named_group_parts comp_def)
  have d: "distinct (map fst ?es)" using f(1) by (simp add: strict_sorted_iff)
  then show "distinct (map cg_key gs)" by (simp only: keys)
  have "fst ` set (sql_groups kf rows) = kf ` set rows"
    using arg_cong [OF sql_groups_keys [of kf rows], of set] by simp
  then show "cg_key ` set gs = (fst \<circ> kf) ` set rows"
    using f(2) arg_cong [OF keys, of set] by (simp add: image_comp)
  assume "g \<in> set gs"
  then obtain e where e: "e \<in> set ?es" "g = named_group t e" by (auto simp: gs_def named_def)
  then have "map_of ?es (fst e) = Some (snd e)" using d by (intro map_of_is_SomeI) simp_all
  then have "total ?es (fst e) = fst (snd e)" by (simp add: total_def split: prod.splits)
  with f(3) [of "fst e"] e(2) show "cg_count g = sql_count (\<lambda>r. fst (kf r) = cg_key g) rows"
    using sql_groups_sum [of "\<lambda>k. fst k = fst e" kf rows] by (simp add: named_group_parts sql_count_def)
qed

section \<open>Months as strings\<close>

lemma digits_val_zeros: "digits_val (replicate n (CHR ''0'') @ s) = digits_val s"
proof (induction n)
  case (Suc n)
  have "digits_val (CHR ''0'' # t) = digits_val t" for t
    by (simp add: digits_val_def digit_val_def)
  with Suc show ?case by simp
qed simp

lemma padded_digits:
  assumes "0 \<le> i"
  shows "list_all is_ascii_digit (show_padded w i)" "show_padded w i \<noteq> []" "parse_digits (show_padded w i) = Some (nat i)"
proof -
  have p: "show_padded w i = replicate (w - length (show_nat (nat i))) (CHR ''0'') @ show_nat (nat i)"
    using assms by (simp add: show_padded_def zero_pad_def)
  have "is_ascii_digit (CHR ''0'')" by code_simp
  then show d: "list_all is_ascii_digit (show_padded w i)" using show_nat_digits [of "nat i"] by (auto simp: p list_all_iff)
  show n: "show_padded w i \<noteq> []" by (simp add: p)
  show "parse_digits (show_padded w i) = Some (nat i)"
    using d n by (simp add: parse_digits_def) (simp add: p digits_val_zeros)
qed

lemma parse_padded:
  assumes "0 \<le> i" "i < 2 ^ 63"
  shows "parse_i64 (show_padded w i) = Some i"
proof -
  note d = padded_digits [OF assms(1), of w]
  obtain c cs where s: "show_padded w i = c # cs" using d(2) by (cases "show_padded w i") auto
  with d(1) have "c \<noteq> CHR ''+''" "c \<noteq> CHR ''-''" using digit_not_sign [of c] by simp_all
  with s d(3) assms show ?thesis by (simp add: parse_i64_def parse_int_def in_i64_def)
qed

lemma digits_no_dash: "list_all is_ascii_digit s \<Longrightarrow> CHR ''-'' \<notin> set s"
  using digit_not_sign by (auto simp: list_all_iff)

definition month_text :: "int \<Rightarrow> int \<Rightarrow> string" where
  "month_text y m = show_padded 4 y @ ''-'' @ show_padded 2 m"

lemma split_month: "0 \<le> y \<Longrightarrow> split_once (CHR ''-'') (month_text y m) = Some (show_padded 4 y, show_padded 2 m)"
proof -
  have "split_once c (a @ c # b) = Some (a, b)" if "c \<notin> set a" for c and a b :: string
    using that by (induction a) auto
  moreover assume "0 \<le> y"
  ultimately show ?thesis using digits_no_dash [OF padded_digits(1) [of y 4]] by (simp add: month_text_def)
qed

lemma month_text_inject: "0 \<le> y \<Longrightarrow> 0 \<le> y' \<Longrightarrow> 0 \<le> m \<Longrightarrow> 0 \<le> m' \<Longrightarrow> month_text y m = month_text y' m' \<longleftrightarrow> y = y' \<and> m = m'"
  using split_month [of y m] split_month [of y' m'] padded_digits(3) [of y 4] padded_digits(3) [of y' 4]
    padded_digits(3) [of m 2] padded_digits(3) [of m' 2] by (metis eq_nat_nat_iff option.inject prod.inject)

lemma month_text_not_fixed: "0 \<le> y \<Longrightarrow> month_text y m \<notin> fst ` set FIXED_TIMES"
proof -
  assume "0 \<le> y"
  from padded_digits(1,2) [OF this, of 4] obtain c cs where "show_padded 4 y = c # cs" "is_ascii_digit c"
    by (cases "show_padded 4 y") auto
  moreover have "\<not> is_ascii_digit (CHR ''t'')" "\<not> is_ascii_digit (CHR ''y'')" "\<not> is_ascii_digit (CHR ''l'')" by code_simp+
  ultimately show ?thesis by (auto simp: month_text_def FIXED_TIMES_def)
qed

section \<open>Times\<close>

text \<open>A date the database keeps exactly: whole seconds before 1970, and below the end of time.\<close>

definition date_fits :: "int \<Rightarrow> bool" where
  "date_fits at \<longleftrightarrow> (0 \<le> at \<or> at mod 1000 = 0) \<and> at < I64_MAX"

lemma day_of_date:
  assumes "date_fits at"
  shows "(sql_div at 1000 + off) div 86400 = (at + off * 1000) div DAY_MS"
proof -
  have "sql_div at 1000 = at div 1000"
  proof (cases "0 \<le> at")
    case False
    with assms have "at mod 1000 = 0" by (simp add: date_fits_def)
    then have "at = 1000 * (at div 1000)" by (metis mult_div_mod_eq add.right_neutral)
    then obtain k where "at = 1000 * k" by blast
    then show ?thesis using False by (simp add: sql_div_def)
  qed (simp add: sql_div_def)
  moreover have "(at + off * 1000) div 1000 = at div 1000 + off" by simp
  moreover have "(at + off * 1000) div DAY_MS = (at + off * 1000) div 1000 div 86400"
    by (simp add: DAY_MS_def zdiv_zmult2_eq [symmetric])
  ultimately show ?thesis by simp
qed

lemma le_div_days: "a \<le> x div DAY_MS \<longleftrightarrow> a * DAY_MS \<le> x" for a x :: int
proof
  have "x div DAY_MS * DAY_MS \<le> x" using div_mult_mod_eq [of x DAY_MS] by (simp add: DAY_MS_def)
  moreover assume "a \<le> x div DAY_MS"
  then have "a * DAY_MS \<le> x div DAY_MS * DAY_MS" by (simp add: DAY_MS_def)
  ultimately show "a * DAY_MS \<le> x" by linarith
next
  assume "a * DAY_MS \<le> x"
  then have "a * DAY_MS div DAY_MS \<le> x div DAY_MS" by (intro zdiv_mono1) (simp_all add: DAY_MS_def)
  then show "a \<le> x div DAY_MS" by (simp add: DAY_MS_def)
qed

lemma month_of_date:
  assumes "date_fits at" "1 \<le> m" "m \<le> 12" "0 \<le> y" "y \<le> 9999" "next_month y m = (y2, m2)"
  shows "month_key (sql_div at 1000 + off) = Some (month_text y m) \<longleftrightarrow>
    days_from_civil y m 1 * DAY_MS - off * 1000 \<le> at \<and> at < days_from_civil y2 m2 1 * DAY_MS - off * 1000"
proof -
  define z where "z = (at + off * 1000) div DAY_MS"
  obtain Y M D where civ: "civil_from_days z = (Y, M, D)" using prod_cases3 by blast
  have "month_key (sql_div at 1000 + off) = Some (month_text y m) \<longleftrightarrow> Y = y \<and> M = m"
    using day_of_date [OF assms(1), of off] civ civil_date(2,3) [OF civ] assms(2-5) month_text_inject [of Y y M m]
    by (auto simp: month_key_def z_def month_text_def)
  also have "\<dots> \<longleftrightarrow> (\<exists>d. civil_from_days z = (y, m, d))" using civ by auto
  also have "\<dots> \<longleftrightarrow> days_from_civil y m 1 \<le> z \<and> z < days_from_civil y2 m2 1" by (rule month_range [OF assms(2,3,6)])
  also have "\<dots> \<longleftrightarrow> days_from_civil y m 1 * DAY_MS \<le> at + off * 1000 \<and> at + off * 1000 < days_from_civil y2 m2 1 * DAY_MS"
    unfolding z_def using le_div_days by (metis linorder_not_le)
  finally show ?thesis by linarith
qed


definition covers :: "int \<Rightarrow> (int \<times> int) option \<Rightarrow> bool" where
  "covers x r = (case r of Some (a, b) \<Rightarrow> a < b \<and> a \<le> x \<and> x < b | None \<Rightarrow> False)"

lemma in_ranges_covers: "in_ranges x (List.map_filter f keys) \<longleftrightarrow> (\<exists>k \<in> set keys. covers x (f k))"
  by (force simp: in_ranges_def covers_def list_ex_iff set_map_filter split: option.splits)

lemma bounds_ordered:
  "db_yesterday (days_of q) = db_today (days_of q) - DAY_MS"
  "db_last_week (days_of q) \<le> db_this_week (days_of q) - 7 * DAY_MS" "db_this_week (days_of q) \<le> db_today (days_of q)"
  "db_today (days_of q) \<le> db_this_week (days_of q) + 6 * DAY_MS"
proof -
  let ?w = "((cq_now q + cq_offset q * 1000) div DAY_MS + 3) mod 7"
  have "0 \<le> ?w" "?w \<le> 6" by auto
  then have "0 \<le> ?w * DAY_MS" "?w * DAY_MS \<le> 6 * DAY_MS" by (simp_all add: DAY_MS_def)
  then show "db_yesterday (days_of q) = db_today (days_of q) - DAY_MS"
    "db_last_week (days_of q) \<le> db_this_week (days_of q) - 7 * DAY_MS" "db_this_week (days_of q) \<le> db_today (days_of q)"
    "db_today (days_of q) \<le> db_this_week (days_of q) + 6 * DAY_MS"
    by (simp_all add: days_of_def Let_def)
qed

definition time_name :: "string \<Rightarrow> bool" where
  "time_name k \<longleftrightarrow> k \<in> fst ` set FIXED_TIMES \<or> (\<exists>y m. 0 \<le> y \<and> y \<le> 9999 \<and> 1 \<le> m \<and> m \<le> 12 \<and> k = month_text y m)"

lemma time_key_name: "time_key q at = Some k \<Longrightarrow> time_name k"
proof -
  assume k: "time_key q at = Some k"
  obtain y m d where c: "civil_from_days ((sql_div at 1000 + cq_offset q) div 86400) = (y, m, d)" using prod_cases3 by blast
  from k c civil_date(2,3) [OF c] show ?thesis
    by (auto simp: time_key_def Let_def month_key_def time_name_def FIXED_TIMES_def month_text_def split: if_splits)
qed

lemma time_key_range:
  assumes fits: "date_fits at" and name: "time_name k"
  shows "time_key q at = Some k \<longleftrightarrow> covers at (time_range q k)"
proof -
  let ?b = "days_of q" and ?M = "month_key (sql_div at 1000 + cq_offset q)"
  note o = bounds_ordered [of q]
  have D: "0 < DAY_MS" by (simp add: DAY_MS_def)
  have late: "at < I64_MAX" using fits by (simp add: date_fits_def)
  have month: "?M \<noteq> Some k" if "k \<in> fst ` set FIXED_TIMES"
  proof
    obtain y m d where c: "civil_from_days ((sql_div at 1000 + cq_offset q) div 86400) = (y, m, d)" using prod_cases3 by blast
    assume "?M = Some k"
    with c have "0 \<le> y \<and> k = month_text y m" by (auto simp: month_key_def month_text_def split: if_splits)
    with that month_text_not_fixed [of y m] show False by simp
  qed
  from name consider "k \<in> fst ` set FIXED_TIMES" | y m where "0 \<le> y" "y \<le> 9999" "1 \<le> m" "m \<le> 12" "k = month_text y m"
    by (auto simp: time_name_def)
  then show ?thesis
  proof cases
    case 1
    then consider "k = ''today''" | "k = ''yesterday''" | "k = ''this_week''" | "k = ''last_week''" by (auto simp: FIXED_TIMES_def)
    then show ?thesis using month [OF 1] o D late
      by cases (auto simp: time_key_def time_range_def covers_def Let_def)
  next
    case (2 y m)
    obtain y2 m2 where nm: "next_month y m = (y2, m2)" by fastforce
    have k: "k \<noteq> ''today''" "k \<noteq> ''yesterday''" "k \<noteq> ''this_week''" "k \<noteq> ''last_week''"
      using month_text_not_fixed [OF 2(1), of m] 2(5) by (auto simp: FIXED_TIMES_def)
    have "time_range q k = Some (days_from_civil y m 1 * DAY_MS - cq_offset q * 1000,
        min (days_from_civil y2 m2 1 * DAY_MS - cq_offset q * 1000) (db_last_week ?b))"
      using k 2 parse_padded [of y 4] parse_padded [of m 2] split_month [OF 2(1), of m] nm
      by (simp add: time_range_def month_range_of_def Let_def)
    moreover have "time_key q at = Some k \<longleftrightarrow> at < db_last_week ?b \<and> ?M = Some k"
      using k o D by (auto simp: time_key_def Let_def)
    ultimately show ?thesis using month_of_date [OF fits 2(3,4,1,2) nm, of "cq_offset q"] 2(5) by (auto simp: covers_def)
  qed
qed

section \<open>Sizes\<close>

definition size_key :: "int \<Rightarrow> string" where "size_key n = fst (SIZE_BUCKETS ! min (size_bucket n) 5)"

lemma size_bucket_cases:
  "size_bucket n = (if 10000000 \<le> n then 5 else if 1000000 \<le> n then 4 else if 100000 \<le> n then 3 else if 10000 \<le> n then 2
     else if 1000 \<le> n then 1 else 0)"
  by (simp add: size_bucket_def SIZE_BUCKETS_def numeral_eq_Suc)

lemma size_key_range:
  assumes "0 \<le> n" "n < I64_MAX"
  shows "size_key n = k \<longleftrightarrow> covers n (size_range_in SIZE_BUCKETS k)"
proof -
  have "size_range_in SIZE_BUCKETS k = (if k = ''tiny'' then Some (0, 1000) else if k = ''small'' then Some (1000, 10000)
      else if k = ''medium'' then Some (10000, 100000) else if k = ''large'' then Some (100000, 1000000)
      else if k = ''extra_large'' then Some (1000000, 10000000) else if k = ''jumbo'' then Some (10000000, I64_MAX) else None)"
    by (auto simp: SIZE_BUCKETS_def)
  moreover have "size_key n = (if 10000000 \<le> n then ''jumbo'' else if 1000000 \<le> n then ''extra_large'' else if 100000 \<le> n then ''large''
      else if 10000 \<le> n then ''medium'' else if 1000 \<le> n then ''small'' else ''tiny'')"
    by (simp add: size_key_def size_bucket_cases SIZE_BUCKETS_def)
  ultimately show ?thesis using assms by (auto simp: covers_def)
qed


section \<open>The group of a message\<close>

definition category_key :: "label_id \<Rightarrow> message_row \<Rightarrow> string option" where
  "category_key l r =
     (case from_of r of Some e \<Rightarrow> if l \<in> set (m_labels r) \<and> CHR ''@'' \<in> set e then Some (email_domain e) else None | None \<Rightarrow> None)"

definition sender_key :: "message_row \<Rightarrow> string option" where
  "sender_key r = (case from_of r of Some e \<Rightarrow> if e = [] then None else Some (to_ascii_lowercase e) | None \<Rightarrow> None)"

definition group_key :: "mail_store \<Rightarrow> cleanup_query \<Rightarrow> message_row \<Rightarrow> string option" where
  "group_key m q r =
     (case cq_view q of
        CvSender \<Rightarrow> sender_key r
      | CvPeople \<Rightarrow> if written_to m r then sender_key r else None
      | CvSubject \<Rightarrow> Some (mh_subject (m_head r))
      | CvMailingList \<Rightarrow> lh_id (mh_list (m_head r))
      | CvSocial \<Rightarrow> category_key SOCIAL r
      | CvPromotions \<Rightarrow> category_key PROMOTIONS r
      | CvTime \<Rightarrow> time_key q (mh_date (m_head r))
      | CvSize \<Rightarrow> Some (size_key (int (mh_size_estimate (m_head r)))))"

text \<open>
  What the views take for granted of a message: a categorized sender has an at sign, dates are whole seconds before 1970,
  sizes and dates are below the greatest integer.
\<close>

definition row_fits :: "cleanup_view \<Rightarrow> message_row \<Rightarrow> bool" where
  "row_fits v r =
     (case v of
        CvSocial \<Rightarrow> SOCIAL \<in> set (m_labels r) \<longrightarrow> from_of r = None \<or> category_key SOCIAL r \<noteq> None
      | CvPromotions \<Rightarrow> PROMOTIONS \<in> set (m_labels r) \<longrightarrow> from_of r = None \<or> category_key PROMOTIONS r \<noteq> None
      | CvTime \<Rightarrow> date_fits (mh_date (m_head r))
      | CvSize \<Rightarrow> int (mh_size_estimate (m_head r)) < I64_MAX
      | _ \<Rightarrow> True)"

text \<open>Keys as a view makes them.\<close>

definition key_of_view :: "cleanup_view \<Rightarrow> string \<Rightarrow> bool" where
  "key_of_view v k =
     (case v of CvSender \<Rightarrow> k \<noteq> [] \<and> to_ascii_lowercase k = k | CvPeople \<Rightarrow> k \<noteq> [] \<and> to_ascii_lowercase k = k
      | CvTime \<Rightarrow> time_name k | _ \<Rightarrow> True)"

lemma lowercase_idem: "to_ascii_lowercase (to_ascii_lowercase s) = to_ascii_lowercase s"
proof -
  have "to_ascii_lower_char (to_ascii_lower_char c) = to_ascii_lower_char c" for c
    by (auto simp: to_ascii_lower_char_def Let_def of_char_of)
  then show ?thesis by (simp add: to_ascii_lowercase_def)
qed

lemma sender_selects:
  assumes "\<forall>k \<in> set keys. k \<noteq> [] \<and> to_ascii_lowercase k = k"
  shows "keyed_nocase (from_of r) keys \<longleftrightarrow> (\<exists>k \<in> set keys. sender_key r = Some k)"
  using assms by (force simp: keyed_nocase_def sender_key_def eq_nocase_def list_ex_iff to_ascii_lowercase_def split: option.splits)

lemma category_selects:
  assumes "l \<in> set (m_labels r) \<longrightarrow> from_of r = None \<or> category_key l r \<noteq> None"
  shows "l \<in> set (m_labels r) \<and> keyed (map_option email_domain (from_of r)) keys \<longleftrightarrow> (\<exists>k \<in> set keys. category_key l r = Some k)"
  using assms by (auto simp: keyed_def category_key_def split: option.splits if_splits)

lemma in_groups_by_key:
  assumes fits: "row_fits (cq_view q) r" and keys: "\<forall>k \<in> set keys. key_of_view (cq_view q) k"
  shows "in_groups m q keys r \<longleftrightarrow> (\<exists>k \<in> set keys. group_key m q r = Some k)"
proof (cases "cq_view q")
  case CvTime
  with assms have "time_key q (mh_date (m_head r)) = Some k \<longleftrightarrow> covers (mh_date (m_head r)) (time_range q k)" if "k \<in> set keys" for k
    using time_key_range that by (simp add: row_fits_def key_of_view_def)
  with CvTime show ?thesis by (simp add: in_groups_def group_key_def in_ranges_covers)
next
  case CvSize
  with fits show ?thesis
    using size_key_range [of "int (mh_size_estimate (m_head r))"]
    by (simp add: in_groups_def group_key_def in_ranges_covers row_fits_def)
next
  case CvMailingList
  then show ?thesis by (auto simp: in_groups_def group_key_def keyed_def split: option.splits)
qed (use assms sender_selects [of keys r] category_selects [of SOCIAL r keys] category_selects [of PROMOTIONS r keys] in
    \<open>simp_all add: in_groups_def group_key_def row_fits_def key_of_view_def\<close>)

section \<open>The groups of a view\<close>

text \<open>Groups that count the rows by a key: each key once, each with its count.\<close>

definition counts_by :: "(message_row \<Rightarrow> string option) \<Rightarrow> message_row list \<Rightarrow> cleanup_group list \<Rightarrow> bool" where
  "counts_by key rows gs \<longleftrightarrow>
     distinct (map cg_key gs) \<and> (\<forall>k. k \<in> cg_key ` set gs \<longleftrightarrow> (\<exists>r \<in> set rows. key r = Some k)) \<and>
     (\<forall>g \<in> set gs. cg_count g = sql_count (\<lambda>r. key r = Some (cg_key g)) rows)"

lemma named_counts_by:
  assumes "\<And>r. r \<in> set rows \<Longrightarrow> key r = (if P r then Some (fst (kf r)) else None)"
  shows "counts_by key rows (named t (sql_groups kf (filter P rows)))"
proof -
  let ?gs = "named t (sql_groups kf (filter P rows))"
  note n = named_counts [where kf = kf and t = t and rows = "filter P rows"]
  have "cg_count g = sql_count (\<lambda>r. key r = Some (cg_key g)) rows" if "g \<in> set ?gs" for g
    using n(3) [OF that] assms
    by (auto simp: sql_count_def filter_filter intro!: arg_cong [of _ _ length] filter_cong split: if_splits)
  moreover have "k \<in> cg_key ` set ?gs \<longleftrightarrow> (\<exists>r \<in> set rows. key r = Some k)" for k
    using n(2) assms by auto
  ultimately show ?thesis using n(1) by (simp add: counts_by_def)
qed

lemma plain_counts_by:
  assumes "\<And>r. r \<in> set rows \<Longrightarrow> key r = Some (name (f r))" "inj_on name (f ` set rows)"
    and "\<And>x n. cg_key (g (x, n)) = name x \<and> cg_count (g (x, n)) = n"
    and "distinct xs" "set xs = set (sql_groups f rows)"
  shows "counts_by key rows (map g xs)"
proof -
  have "inj_on (name \<circ> fst) (set xs)"
  proof (rule inj_onI)
    fix p p' assume p: "p \<in> set xs" "p' \<in> set xs" "(name \<circ> fst) p = (name \<circ> fst) p'"
    then have "fst p \<in> f ` set rows" "fst p' \<in> f ` set rows" "snd p = sql_count (\<lambda>r. f r = fst p) rows"
      "snd p' = sql_count (\<lambda>r. f r = fst p') rows"
      using assms(5) sql_groups_count [of "fst p" "snd p" f rows] sql_groups_count [of "fst p'" "snd p'" f rows] by simp_all
    moreover from this(1,2) p(3) have "fst p = fst p'" using assms(2) by (auto dest: inj_onD)
    ultimately show "p = p'" by (simp add: prod_eq_iff)
  qed
  then have "distinct (map (name \<circ> fst) xs)" using assms(4) by (subst distinct_map) blast
  moreover have keys: "map cg_key (map g xs) = map (name \<circ> fst) xs" using assms(3) by auto
  ultimately have "distinct (map cg_key (map g xs))" by (simp only:)
  moreover have "k \<in> cg_key ` set (map g xs) \<longleftrightarrow> (\<exists>r \<in> set rows. key r = Some k)" for k
  proof -
    have "fst ` set xs = f ` set rows" using assms(5) arg_cong [OF sql_groups_keys [of f rows], of set] by simp
    then have "cg_key ` set (map g xs) = name ` f ` set rows" using arg_cong [OF keys, of set] by (metis image_comp image_set)
    then show ?thesis using assms(1) by auto
  qed
  moreover have "cg_count e = sql_count (\<lambda>r. key r = Some (cg_key e)) rows" if e: "e \<in> set (map g xs)" for e
  proof -
    from e obtain x n where x: "e = g (x, n)" "(x, n) \<in> set (sql_groups f rows)" using assms(5) by auto
    then have "x \<in> f ` set rows" "n = sql_count (\<lambda>r. f r = x) rows" by (auto simp: sql_groups_count)
    moreover from this(1) have "f r = x \<longleftrightarrow> key r = Some (name x)" if "r \<in> set rows" for r
      using assms(1,2) that by (auto simp: inj_on_def)
    ultimately show ?thesis using x(1) assms(3) by (auto simp: sql_count_def intro!: arg_cong [of _ _ length] filter_cong)
  qed
  ultimately show ?thesis by (simp add: counts_by_def)
qed


lemma sql_groups_map: "sql_groups id (map f rows) = sql_groups f rows"
  by (simp add: sql_groups_def sql_count_def filter_map comp_def)

lemma sql_groups_distinct: "distinct (sql_groups f rows)"
  using sql_groups_keys [of f rows] by (metis distinct_map distinct_remdups)

lemma time_groups_count:
  assumes "time_groups q rows = Ok gs"
  shows "counts_by (\<lambda>r. time_key q (mh_date (m_head r))) rows gs"
proof -
  let ?f = "\<lambda>r. the (time_key q (mh_date (m_head r)))"
  let ?counts = "sql_groups ?f rows"
  let ?fixed = "List.map_filter (\<lambda>(k, t). map_option (\<lambda>n. (k, n)) (map_of ?counts k)) FIXED_TIMES"
  let ?months = "rev (sort_key fst (filter (\<lambda>(k, n). k \<notin> fst ` set FIXED_TIMES) ?counts))"
  define tg where "tg = (\<lambda>(k, n). plain_group k (case map_of FIXED_TIMES k of Some t \<Rightarrow> t | None \<Rightarrow> month_title k) n)"
  have none: "None \<notin> set (map (\<lambda>r. time_key q (mh_date (m_head r))) rows)"
  proof
    assume "None \<in> set (map (\<lambda>r. time_key q (mh_date (m_head r))) rows)"
    then show False using assms unfolding time_groups_def Let_def by (simp only: if_True sum.distinct)
  qed
  have all: "time_key q (mh_date (m_head r)) = Some (?f r)" if "r \<in> set rows" for r
  proof -
    from that have "time_key q (mh_date (m_head r)) \<in> set (map (\<lambda>r. time_key q (mh_date (m_head r))) rows)"
      unfolding set_map by (rule imageI)
    with none have "time_key q (mh_date (m_head r)) \<noteq> None" by (intro notI) (simp only:)
    then show ?thesis by (rule option.collapse [symmetric])
  qed
  have counts: "sql_groups id (map the (map (\<lambda>r. time_key q (mh_date (m_head r))) rows)) = ?counts"
    using sql_groups_map [of ?f rows] by (simp only: map_map comp_def)
  have "time_groups q rows = Ok (List.map_filter (\<lambda>(k, t). map_option (plain_group k t) (map_of ?counts k)) FIXED_TIMES @
      map (\<lambda>(k, n). plain_group k (month_title k) n) ?months)"
    unfolding time_groups_def Let_def counts using none by (simp only: if_False)
  with assms have gs: "gs = List.map_filter (\<lambda>(k, t). map_option (plain_group k t) (map_of ?counts k)) FIXED_TIMES @
      map (\<lambda>(k, n). plain_group k (month_title k) n) ?months" by (simp only: sum.inject)
  have "map (\<lambda>(k, n). plain_group k (month_title k) n) ?months = map tg ?months"
  proof (rule map_cong [OF refl])
    fix x assume x: "x \<in> set ?months"
    obtain k n where k: "x = (k, n)" by fastforce
    with x have "k \<notin> fst ` set FIXED_TIMES" by simp
    then have "map_of FIXED_TIMES k = None" by (simp only: map_of_eq_None_iff not_False_eq_True)
    then show "(case x of (k, n) \<Rightarrow> plain_group k (month_title k) n) = tg x" by (simp add: k tg_def)
  qed
  moreover have "List.map_filter (\<lambda>(k, t). map_option (plain_group k t) (map_of ?counts k)) FIXED_TIMES = map tg ?fixed"
    by (simp add: FIXED_TIMES_def map_filter_simps tg_def split: option.splits)
  ultimately have "gs = map tg (?fixed @ ?months)" using gs by simp
  moreover have "counts_by (\<lambda>r. time_key q (mh_date (m_head r))) rows (map tg (?fixed @ ?months))"
  proof (rule plain_counts_by [where name = id and f = ?f])
    have dk: "distinct (map fst ?counts)" by (simp add: sql_groups_keys)
    have fx: "(k, n) \<in> set ?fixed \<longleftrightarrow> k \<in> fst ` set FIXED_TIMES \<and> (k, n) \<in> set ?counts" for k n
      using dk by (force simp: set_map_filter image_iff)
    show "set (?fixed @ ?months) = set ?counts" using fx by auto
    have "distinct (map fst ?fixed)"
      by (simp add: FIXED_TIMES_def map_filter_simps split: option.splits)
    then have "distinct ?fixed" by (simp add: distinct_map)
    moreover have "distinct ?months" by (simp add: sql_groups_distinct)
    ultimately show "distinct (?fixed @ ?months)" using fx by auto
  qed (use all in \<open>auto simp: tg_def plain_group_def\<close>)
  ultimately show ?thesis by simp
qed

lemma size_groups_count: "counts_by (\<lambda>r. Some (size_key (int (mh_size_estimate (m_head r))))) rows (size_groups rows)"
  unfolding size_groups_def
proof (rule plain_counts_by [where name = "\<lambda>b. fst (SIZE_BUCKETS ! min b 5)" and f = "\<lambda>r. size_bucket (int (mh_size_estimate (m_head r)))"])
  have "distinct (map fst SIZE_BUCKETS)" "length SIZE_BUCKETS = 6" by (simp_all add: SIZE_BUCKETS_def)
  then have "inj_on (\<lambda>b. fst (SIZE_BUCKETS ! b)) {..<6}"
    by (auto simp: inj_on_def distinct_conv_nth)
  moreover have "size_bucket n < 6" "min (size_bucket n) 5 = size_bucket n" for n by (simp_all add: size_bucket_cases)
  ultimately show "inj_on (\<lambda>b. fst (SIZE_BUCKETS ! min b 5)) ((\<lambda>r. size_bucket (int (mh_size_estimate (m_head r)))) ` set rows)"
    by (auto simp: inj_on_def)
qed (auto simp: size_key_def size_group_def plain_group_def sql_groups_distinct split: prod.splits)

lemma groups_count:
  assumes "groups_of_view m q = Ok gs"
  shows "counts_by (group_key m q) (filter (in_scope (cq_scope q)) (messages m)) gs"
proof -
  let ?rows = "filter (in_scope (cq_scope q)) (messages m)"
  have cat: "counts_by (category_key l) ?rows (named ByKey (sql_groups by_domain (category_rows l ?rows)))" for l
    unfolding category_rows_def
    by (rule named_counts_by) (auto simp: category_key_def by_domain_def split: option.splits)
  have send: "counts_by (\<lambda>r. if P r then sender_key r else None) ?rows
      (named ByName (sql_groups by_sender (filter (\<lambda>r. P r \<and> from_of r \<noteq> None \<and> from_of r \<noteq> Some []) ?rows)))" for P
    by (rule named_counts_by) (auto simp: sender_key_def by_sender_def split: option.splits)
  show ?thesis
  proof (cases "cq_view q")
    case CvSubject
    have "counts_by (\<lambda>r. Some (mh_subject (m_head r))) ?rows (map subject_group (sql_groups (\<lambda>r. mh_subject (m_head r)) ?rows))"
      by (rule plain_counts_by [where name = id and f = "\<lambda>r. mh_subject (m_head r)"])
        (auto simp: subject_group_def plain_group_def sql_groups_distinct)
    with CvSubject assms show ?thesis by (simp add: groups_of_view_def group_key_def [abs_def])
  next
    case CvMailingList
    have "counts_by (\<lambda>r. lh_id (mh_list (m_head r))) ?rows (named ByName (sql_groups by_list (filter (\<lambda>r. lh_id (mh_list (m_head r)) \<noteq> None) ?rows)))"
      by (rule named_counts_by) (auto simp: by_list_def)
    with CvMailingList assms show ?thesis by (simp add: groups_of_view_def group_key_def [abs_def])
  next
    case CvSender
    with assms send [of "\<lambda>r. True"] show ?thesis by (simp add: groups_of_view_def group_key_def [abs_def] sender_rows_def)
  next
    case CvPeople
    with assms send [of "written_to m"] show ?thesis
      by (simp add: groups_of_view_def group_key_def [abs_def] sender_rows_def filter_filter conj_commute conj_left_commute)
  next
    case CvTime
    with assms time_groups_count [of q ?rows gs] show ?thesis by (simp add: groups_of_view_def group_key_def [abs_def])
  next
    case CvSize
    with assms size_groups_count [of ?rows] show ?thesis by (auto simp: groups_of_view_def group_key_def [abs_def])
  qed (use assms cat [of SOCIAL] cat [of PROMOTIONS] in \<open>auto simp: groups_of_view_def group_key_def [abs_def]\<close>)
qed


section \<open>The numbers shown\<close>

lemma counts_by_order: "counts_by key rows (order_groups v gs) = counts_by key rows gs"
proof -
  have "distinct (map cg_key (order_groups v gs)) = distinct (map cg_key gs)"
    by (auto simp: order_groups_def distinct_map)
  then show ?thesis by (simp add: counts_by_def order_groups_def)
qed

lemma counts_by_mark: "counts_by key rows (map (mark_unsubscribed v meta) gs) = counts_by key rows gs"
proof -
  have m: "cg_key (mark_unsubscribed v meta g) = cg_key g" "cg_count (mark_unsubscribed v meta g) = cg_count g" for g
    by (simp_all add: mark_unsubscribed_def split: option.splits)
  then have "map cg_key (map (mark_unsubscribed v meta) gs) = map cg_key gs" by simp
  then show ?thesis unfolding counts_by_def using m by (simp add: image_image del: map_map)
qed

lemma count_disjoint:
  "distinct ks \<Longrightarrow> length (filter (\<lambda>r. \<exists>k \<in> set ks. key r = Some k) rows) = sum_list (map (\<lambda>k. sql_count (\<lambda>r. key r = Some k) rows) ks)"
proof (induction ks)
  case (Cons k ks)
  have "length (filter (\<lambda>r. key r = Some k \<or> (\<exists>k \<in> set ks. key r = Some k)) rs) =
      length (filter (\<lambda>r. key r = Some k) rs) + length (filter (\<lambda>r. \<exists>k \<in> set ks. key r = Some k) rs)" for rs
    using Cons.prems by (induction rs) auto
  with Cons show ?case by (simp add: sql_count_def)
qed simp

lemma group_keys_of_view:
  assumes "group_key m q r = Some k"
  shows "key_of_view (cq_view q) k"
proof (cases "cq_view q")
  case CvTime
  with assms time_key_name show ?thesis by (simp add: group_key_def key_of_view_def)
next
  case CvSender
  with assms show ?thesis by (auto simp: group_key_def key_of_view_def sender_key_def lowercase_idem split: option.splits if_splits)
      (simp add: to_ascii_lowercase_def)
next
  case CvPeople
  with assms show ?thesis by (auto simp: group_key_def key_of_view_def sender_key_def lowercase_idem split: option.splits if_splits)
      (simp add: to_ascii_lowercase_def)
qed (simp_all add: key_of_view_def)

lemma cleanup_groups_count:
  assumes "cleanup_groups m meta q filtered = Ok gs"
  obtains all where "counts_by (group_key m q) (filter (in_scope (cq_scope q)) (messages m)) all" "set gs \<subseteq> set all" "distinct (map cg_key gs)"
proof -
  obtain base where b: "groups_of_view m q = Ok base" using assms by (auto simp: cleanup_groups_def split: sum.splits)
  let ?all = "map (mark_unsubscribed (cq_view q) meta) (order_groups (cq_view q) base)"
  have c: "counts_by (group_key m q) (filter (in_scope (cq_scope q)) (messages m)) ?all"
    unfolding counts_by_mark counts_by_order by (rule groups_count [OF b])
  have "\<exists>P. gs = filter P ?all"
  proof (cases "to_lowercase (trim filtered) = []")
    case True
    with assms b show ?thesis by (intro exI [of _ "\<lambda>g. True"]) (simp add: cleanup_groups_def Let_def)
  qed (use assms b in \<open>auto simp: cleanup_groups_def Let_def\<close>)
  then obtain P where "gs = filter P ?all" by blast
  moreover have "distinct (map cg_key ?all)" using c unfolding counts_by_def by blast
  ultimately have "set gs \<subseteq> set ?all" "distinct (map cg_key gs)" by (simp_all only: filter_is_subset distinct_map_filter)
  with c that show thesis by blast
qed



definition cleanup_row :: "int \<Rightarrow> message_id \<Rightarrow> string \<Rightarrow> label_id list \<Rightarrow> message_row" where
  "cleanup_row i g from ls =
     \<lparr>m_id = i, m_thread = i, m_gmail_id = g,
      m_head = \<lparr>mh_rfc822 = None, mh_in_reply_to = None, mh_references = [], mh_from_name = Some ''Shop'', mh_from_email = Some from,
                mh_subject = ''Sale'', mh_snippet = [], mh_date = 1791460800000, mh_internal_date = 1791460800000,
                mh_size_estimate = 2000, mh_headers_json = None,
                mh_list = \<lparr>lh_id = None, lh_name = None, lh_unsubscribe = None, lh_unsubscribe_post = None\<rparr>\<rparr>,
      m_body_state = Metadata, m_is_read = False, m_is_starred = False, m_is_draft = False, m_is_sent_by_me = False,
      m_has_attachments = False, m_labels = ls, m_participants = [], m_body = None, m_attachments = []\<rparr>"

definition cleanup_store :: mail_store where
  "cleanup_store = empty_store\<lparr>messages :=
     [cleanup_row 1 ''m1'' ''News@shop.com'' [INBOX, PROMOTIONS], cleanup_row 2 ''m2'' ''news@shop.com'' [INBOX],
      cleanup_row 3 ''m3'' ''shop.com'' [INBOX, PROMOTIONS]]\<rparr>"

definition inbox_query :: "cleanup_view \<Rightarrow> cleanup_query" where
  "inbox_query v = \<lparr>cq_view = v, cq_scope = ScInbox, cq_now = 1791460800000, cq_offset = 7200\<rparr>"


text \<open>A promotion whose sender has no at sign is in no group, but the group of its domain selects it.\<close>

lemma a_sender_without_at_sign_is_selected_unseen:
  "case cleanup_groups cleanup_store Map.empty (inbox_query CvPromotions) [] of
     Inr [g] \<Rightarrow> cg_key g = ''shop.com'' \<and> cg_count g = 1 | _ \<Rightarrow> False"
  "cleanup_count cleanup_store (inbox_query CvPromotions) [''shop.com''] = 2"
  by code_simp+


end
