(* ===== verification/CleanupApply.thy ===== *)
theory CleanupApply
  imports Undo CleanupCounts
begin

text \<open>
  What a clean-up does to the store: the labels of exactly the messages the keys select change, as one action that
  can be undone, recorded with what each message really gained and lost.
\<close>

definition cleaned :: "mail_store \<Rightarrow> cleanup_query \<Rightarrow> string list \<Rightarrow> label_id list \<Rightarrow> message_id \<Rightarrow> bool" where
  "cleaned m q keys add g \<longleftrightarrow> g \<in> set (cleanup_message_ids m q keys) \<and> \<not> (SPAM \<in> set add \<and> SENT \<in> set (current_labels m g))"

abbreviation clean_diff_of :: "mail_store \<Rightarrow> label_id list \<Rightarrow> label_id list \<Rightarrow> message_id \<Rightarrow> message_diff option" where
  "clean_diff_of m add remove g \<equiv> clean_diff add remove g (current_labels m g)"

lemma clean_diff_same: "set a = set b \<Longrightarrow> clean_diff add remove g a = clean_diff add remove g b"
  by (simp add: clean_diff_def)

lemma clean_diff_Some:
  assumes "clean_diff add remove g before = Some d"
  shows "md_message d = g" "set (md_added d) = set add - set before" "set (md_removed d) = set remove \<inter> set before - set add"
    "\<not> (SPAM \<in> set add \<and> SENT \<in> set before)"
  using assms by (auto simp: clean_diff_def Let_def split: if_splits)

lemma relabel_diff:
  assumes "clean_diff add remove g before = Some d"
  shows "relabel (md_added d) (md_removed d) (set before) = relabel add remove (set before)"
    "relabel (md_removed d) (md_added d) (relabel add remove (set before)) = set before"
  using clean_diff_Some [OF assms] by (auto simp: relabel_def)

lemma clean_diff_None:
  "clean_diff add remove g before = None \<Longrightarrow> \<not> (SPAM \<in> set add \<and> SENT \<in> set before) \<Longrightarrow> relabel add remove (set before) = set before"
  by (auto simp: clean_diff_def Let_def relabel_def filter_empty_conv split: if_splits)

lemma current_of_sets: "label_sets a g = label_sets b g \<Longrightarrow> set (current_labels a g) = set (current_labels b g)"
  by (cases "find_message a g"; cases "find_message b g") (auto simp: label_sets_def current_labels_def)

lemma w_db_writer_new [simp]: "w_db (writer_new m) = m"
  by (simp add: writer_new_def)

lemma relabelled_same:
  assumes "relabel add remove (set (current_labels m g)) = set (current_labels m g)"
  shows "map_option (relabel add remove) (label_sets m g) = label_sets m g"
  using assms by (cases "find_message m g") (auto simp: label_sets_def current_labels_def)

lemma cleanup_each_refines:
  assumes "writer_ok w" "ARCHIVE_LABEL \<notin> set add" "distinct gs" "\<forall>g \<in> set gs. label_sets (w_db w) g = label_sets m g"
  shows "\<exists>w'. cleanup_each add remove w gs = Ok (w', List.map_filter (clean_diff_of m add remove) gs) \<and> writer_ok w' \<and>
    (\<forall>x. label_sets (w_db w') x =
       (if x \<in> set gs \<and> \<not> (SPAM \<in> set add \<and> SENT \<in> set (current_labels m x))
        then map_option (relabel add remove) (label_sets m x) else label_sets (w_db w) x))"
  using assms
proof (induction gs arbitrary: w)
  case (Cons g gs)
  have cur: "set (current_labels (w_db w) g) = set (current_labels m g)" 
    by (rule current_of_sets) (use Cons.prems(4) in simp)
  show ?case
  proof (cases "clean_diff_of m add remove g")
    case None
    have same: "map_option (relabel add remove) (label_sets m g) = label_sets m g"
      if "\<not> (SPAM \<in> set add \<and> SENT \<in> set (current_labels m g))"
      by (rule relabelled_same [OF clean_diff_None [OF None that]])
    from Cons.IH [OF Cons.prems(1,2)] Cons.prems(3,4) obtain w' where w': "writer_ok w'"
      "cleanup_each add remove w gs = Ok (w', List.map_filter (clean_diff_of m add remove) gs)"
      "\<forall>x. label_sets (w_db w') x = (if x \<in> set gs \<and> \<not> (SPAM \<in> set add \<and> SENT \<in> set (current_labels m x))
          then map_option (relabel add remove) (label_sets m x) else label_sets (w_db w) x)" by auto
    have "cleanup_each add remove w (g # gs) = Ok (w', List.map_filter (clean_diff_of m add remove) (g # gs))"
      using None w'(2) clean_diff_same [OF cur, of add remove g] by (simp add: map_filter_simps)
    moreover have "g \<notin> set gs" "label_sets (w_db w) g = label_sets m g" using Cons.prems(3,4) by simp_all
    ultimately show ?thesis using w'(1,3) same by (intro exI [of _ w']) auto
  next
    case (Some d)
    note d = clean_diff_Some [OF Some]
    have "ARCHIVE_LABEL \<notin> set (md_added d)" using d(2) Cons.prems(2) by simp
    from modify_succeeds [OF writer_ok_struct [OF Cons.prems(1)] this, of g "md_removed d"] obtain w1 fnd where
      run: "modify_message_labels w g (md_added d) (md_removed d) = Ok (w1, fnd)" by blast
    have ref: "label_sets (w_db w1) = (label_sets (w_db w))(g := map_option (relabel (md_added d) (md_removed d)) (label_sets (w_db w) g))"
      using modify_refines [OF writer_ok_struct [OF Cons.prems(1)] run] by simp
    have "map_option (relabel (md_added d) (md_removed d)) (label_sets m g) = map_option (relabel add remove) (label_sets m g)"
      using relabel_diff(1) [OF Some] current_label_sets [of m g] by (cases "label_sets m g") auto
    with ref Cons.prems(4) have g: "label_sets (w_db w1) g = map_option (relabel add remove) (label_sets m g)" by simp
    have ng: "g \<notin> set gs" using Cons.prems(3) by simp
    with ref Cons.prems(4) have "\<forall>x \<in> set gs. label_sets (w_db w1) x = label_sets m x" by auto
    from Cons.IH [OF modify_writer_ok [OF Cons.prems(1) run] Cons.prems(2) _ this] Cons.prems(3) obtain w' where
      w': "writer_ok w'" "cleanup_each add remove w1 gs = Ok (w', List.map_filter (clean_diff_of m add remove) gs)"
      "\<forall>x. label_sets (w_db w') x = (if x \<in> set gs \<and> \<not> (SPAM \<in> set add \<and> SENT \<in> set (current_labels m x))
          then map_option (relabel add remove) (label_sets m x) else label_sets (w_db w1) x)" by auto
    have "cleanup_each add remove w (g # gs) = Ok (w', List.map_filter (clean_diff_of m add remove) (g # gs))"
      using Some w'(2) run clean_diff_same [OF cur, of add remove g] by (simp add: map_filter_simps)
    with w'(1,3) ref g ng d(4) show ?thesis by (intro exI [of _ w']) auto
  qed
qed (simp add: map_filter_simps)

lemma cleanup_ids_distinct: "store_ok m \<Longrightarrow> distinct (cleanup_message_ids m q keys)"
  using struct_ok_facts(5) [of m] by (auto simp: cleanup_message_ids_def store_ok_def distinct_map intro: inj_on_subset)

lemma cleanup_store_run:
  assumes ok: "store_ok m" and add: "ARCHIVE_LABEL \<notin> set add"
  shows "\<exists>m' ops ch. change_store m (ChangeCleanup q keys add remove) =
      Ok (m', ops, List.map_filter (clean_diff_of m add remove) (cleanup_message_ids m q keys), ch) \<and> store_ok m' \<and>
    (\<forall>g. label_sets m' g = (if cleaned m q keys add g then map_option (relabel add remove) (label_sets m g) else label_sets m g))"
proof -
  have "\<forall>g \<in> set (cleanup_message_ids m q keys). label_sets (w_db (writer_new m)) g = label_sets m g" by simp
  from cleanup_each_refines [OF writer_new_store_ok [OF ok] add cleanup_ids_distinct [OF ok] this] obtain w where
    w: "cleanup_each add remove (writer_new m) (cleanup_message_ids m q keys) =
        Ok (w, List.map_filter (clean_diff_of m add remove) (cleanup_message_ids m q keys))" "writer_ok w"
      "\<forall>g. label_sets (w_db w) g = (if cleaned m q keys add g then map_option (relabel add remove) (label_sets m g) else label_sets m g)"
    unfolding cleaned_def w_db_writer_new by blast
  from finish_keeps_labels [OF w(2)] obtain m' ch where "finish w = Ok (m', ch)" "store_ok m'" "label_sets m' = label_sets (w_db w)"
    by blast
  with w show ?thesis by (simp add: change_store_def cleanup_apply_def)
qed

lemma cleanup_undone:
  assumes ok: "store_ok m" "store_ok m'"
    and run: "\<forall>g. label_sets m' g = (if cleaned m q keys add g then map_option (relabel add remove) (label_sets m g) else label_sets m g)"
  shows "\<exists>m'' ops ds ch. change_store m' (ChangeExact (map inverse_diff
       (List.map_filter (clean_diff_of m add remove) (cleanup_message_ids m q keys))) b) = Ok (m'', ops, ds, ch) \<and>
     store_ok m'' \<and> label_sets m'' = label_sets m"
proof -
  let ?ids = "cleanup_message_ids m q keys"
  let ?ds = "map inverse_diff (List.map_filter (clean_diff_of m add remove) ?ids)"
  let ?A = "\<lambda>g. md_removed (the (clean_diff_of m add remove g))" and ?R = "\<lambda>g. md_added (the (clean_diff_of m add remove g))"
  have ds: "\<exists>d'. md_message d \<in> set ?ids \<and> clean_diff_of m add remove (md_message d) = Some d' \<and> d = inverse_diff d'" if "d \<in> set ?ds" for d
  proof -
    from that obtain g d' where g: "g \<in> set ?ids" "clean_diff_of m add remove g = Some d'" "d = inverse_diff d'"
      by (auto simp: set_map_filter)
    with clean_diff_Some(1) [OF g(2)] show ?thesis by (simp add: inverse_diff_def)
  qed
  have AR: "md_added d = ?A (md_message d) \<and> md_removed d = ?R (md_message d)" if "d \<in> set ?ds" for d
    using ds [OF that] by (auto simp: inverse_diff_def)
  have "ARCHIVE_LABEL \<notin> set (md_added d)" if "d \<in> set ?ds" for d
  proof -
    from ds [OF that] obtain d' where d: "clean_diff_of m add remove (md_message d) = Some d'" "d = inverse_diff d'" by blast
    then show ?thesis using clean_diff_Some(3) [OF d(1)] current_no_archive [OF ok(1), of "md_message d"] by (simp add: inverse_diff_def)
  qed
  from apply_exact_refines [OF writer_new_store_ok [OF ok(2)] this AR] obtain w ds' where
    w: "apply_exact (writer_new m') ?ds = Ok (w, ds')" "writer_ok w"
      "\<forall>x. label_sets (w_db w) x = (if x \<in> md_message ` set ?ds then map_option (relabel (?A x) (?R x)) (label_sets m' x) else label_sets m' x)"
    unfolding w_db_writer_new by blast
  have img: "x \<in> md_message ` set ?ds \<longleftrightarrow> x \<in> set ?ids \<and> clean_diff_of m add remove x \<noteq> None" for x
  proof
    assume "x \<in> md_message ` set ?ds"
    then show "x \<in> set ?ids \<and> clean_diff_of m add remove x \<noteq> None" using ds by auto
  next
    assume "x \<in> set ?ids \<and> clean_diff_of m add remove x \<noteq> None"
    then obtain d where d: "x \<in> set ?ids" "clean_diff_of m add remove x = Some d" by blast
    then have "d \<in> set (List.map_filter (clean_diff_of m add remove) ?ids)" by (force simp: set_map_filter)
    then have "inverse_diff d \<in> set ?ds" by simp
    moreover have "md_message (inverse_diff d) = x" using clean_diff_Some(1) [OF d(2)] by (simp add: inverse_diff_def)
    ultimately show "x \<in> md_message ` set ?ds" by blast
  qed
  have "label_sets (w_db w) x = label_sets m x" for x
  proof (cases "clean_diff_of m add remove x")
    case None
    with w(3) img run relabelled_same [OF clean_diff_None [OF None]] show ?thesis by (auto simp: cleaned_def)
  next
    case (Some d)
    with w(3) img run clean_diff_Some(4) [OF Some] relabel_diff(2) [OF Some] current_label_sets [of m x]
    show ?thesis by (cases "label_sets m x") (auto simp: cleaned_def)
  qed
  then have "label_sets (w_db w) = label_sets m" by blast
  moreover from finish_keeps_labels [OF w(2)] obtain m'' ch where
    "finish w = Ok (m'', ch)" "store_ok m''" "label_sets m'' = label_sets (w_db w)" by blast
  ultimately show ?thesis using w(1) by (simp add: change_store_def Let_def)
qed

text \<open>
  A clean-up changes exactly the messages its groups hold now, and can be undone. Every message that
  the keys select gets the labels to add and loses the labels to remove (but for the user's own sent mail when
  marking spam), every other message keeps its labels, the store stays consistent, and replaying the inverse of the
  recorded diffs gives every message back the labels it had. Nothing is recorded only when nothing changed.
\<close>

theorem clean_up_changes_the_selected_and_is_undone:
  assumes ok: "store_ok (db_mail db)" "undo_ok db" and add: "ARCHIVE_LABEL \<notin> set add"
  shows "\<exists>db1 a. apply_local_change_recorded db (ChangeCleanup q keys add remove) queue (Some kind) now = Ok (db1, a) \<and>
    store_ok (db_mail db1) \<and>
    label_sets (db_mail db1) = (\<lambda>g. if cleaned (db_mail db) q keys add g
       then map_option (relabel add remove) (label_sets (db_mail db) g) else label_sets (db_mail db) g) \<and>
    (case ac_action a of
       None \<Rightarrow> label_sets (db_mail db1) = label_sets (db_mail db)
     | Some i \<Rightarrow> \<exists>act db2 a2. get_undo db1 i = Some act \<and> ua_kind act = kind \<and>
         apply_local_change_recorded db1 (ChangeExact (map inverse_diff (ua_diffs act)) True) queue2 rec2 now2 = Ok (db2, a2) \<and>
         store_ok (db_mail db2) \<and> label_sets (db_mail db2) = label_sets (db_mail db))"
proof -
  let ?m = "db_mail db"
  let ?ds = "List.map_filter (clean_diff_of ?m add remove) (cleanup_message_ids ?m q keys)"
  from cleanup_store_run [OF ok(1) add, of q keys remove] obtain m' ops ch where
    m': "change_store ?m (ChangeCleanup q keys add remove) = Ok (m', ops, ?ds, ch)" "store_ok m'"
      "\<forall>g. label_sets m' g = (if cleaned ?m q keys add g then map_option (relabel add remove) (label_sets ?m g) else label_sets ?m g)"
    by blast
  from recorded_run [OF m'(1) ok(2), of queue "Some kind" now] obtain db1 a where
    db1: "apply_local_change_recorded db (ChangeCleanup q keys add remove) queue (Some kind) now = Ok (db1, a)" "db_mail db1 = m'"
      "undo_ok db1" and act: "case ac_action a of None \<Rightarrow> Some kind = None \<or> filter diff_changes ?ds = []
       | Some i \<Rightarrow> \<exists>act kind'. get_undo db1 i = Some act \<and> Some kind = Some kind' \<and> ua_kind act = kind' \<and> ua_diffs act = ?ds"
    by blast
  have "case ac_action a of
       None \<Rightarrow> label_sets m' = label_sets ?m
     | Some i \<Rightarrow> \<exists>act db2 a2. get_undo db1 i = Some act \<and> ua_kind act = kind \<and>
         apply_local_change_recorded db1 (ChangeExact (map inverse_diff (ua_diffs act)) True) queue2 rec2 now2 = Ok (db2, a2) \<and>
         store_ok (db_mail db2) \<and> label_sets (db_mail db2) = label_sets ?m"
  proof (cases "ac_action a")
    case None
    with act have none: "filter diff_changes ?ds = []" by simp
    have none_of: "clean_diff_of ?m add remove g = None" if g: "g \<in> set (cleanup_message_ids ?m q keys)" for g
    proof (rule ccontr)
      assume "clean_diff_of ?m add remove g \<noteq> None"
      then obtain d where d: "clean_diff_of ?m add remove g = Some d" by blast
      with g have "d \<in> set ?ds" by (force simp: set_map_filter)
      moreover from d have "diff_changes d" by (auto simp: clean_diff_def diff_changes_def Let_def split: if_splits)
      ultimately show False using none by (auto simp: filter_empty_conv)
    qed
    have "map_option (relabel add remove) (label_sets ?m g) = label_sets ?m g" if "cleaned ?m q keys add g" for g
    proof (rule relabelled_same)
      from that have g: "g \<in> set (cleanup_message_ids ?m q keys)" "\<not> (SPAM \<in> set add \<and> SENT \<in> set (current_labels ?m g))"
        by (simp_all add: cleaned_def)
      show "relabel add remove (set (current_labels ?m g)) = set (current_labels ?m g)" 
        by (rule clean_diff_None [OF none_of [OF g(1)] g(2)])
    qed
    with m'(3) None show ?thesis by auto
  next
    case (Some i)
    with act obtain r where r: "get_undo db1 i = Some r" "ua_kind r = kind" "ua_diffs r = ?ds" by auto
    from cleanup_undone [OF ok(1) m'(2,3), of True] obtain m'' ops2 ds2 ch2 where
      m'': "change_store (db_mail db1) (ChangeExact (map inverse_diff ?ds) True) = Ok (m'', ops2, ds2, ch2)" "store_ok m''"
        "label_sets m'' = label_sets ?m" unfolding db1(2) by blast
    from recorded_run [OF m''(1) db1(3), of queue2 rec2 now2] obtain db2 a2 where
      "apply_local_change_recorded db1 (ChangeExact (map inverse_diff ?ds) True) queue2 rec2 now2 = Ok (db2, a2)" "db_mail db2 = m''"
      by blast
    with r m''(2,3) Some show ?thesis by (intro option.case_eq_if [THEN iffD2]) auto
  qed
  with db1(1,2) m'(2,3) show ?thesis by (intro exI [of _ db1] exI [of _ a]) auto
qed

definition clean_inbox :: local_change where
  "clean_inbox = ChangeCleanup (inbox_query CvSubject) [''Hi''] [TRASH] [INBOX]"


theorem clean_up_changes_the_selected_and_is_undone_witness:
  "\<exists>db1 a act db2 a2. apply_local_change_recorded sample_db clean_inbox True (Some ''cleanup_trash'') 7 = Ok (db1, a) \<and>
     ac_action a = Some 1 \<and> label_sets (db_mail db1) ''m1'' = Some {''UNREAD'', ''TRASH''} \<and> get_undo db1 1 = Some act \<and>
     apply_local_change_recorded db1 (ChangeExact (map inverse_diff (ua_diffs act)) True) True None 9 = Ok (db2, a2) \<and>
     label_sets (db_mail db2) = label_sets (db_mail sample_db)"
proof -
  have run: "case apply_local_change_recorded sample_db clean_inbox True (Some ''cleanup_trash'') 7 of
      Inr (db1, a) \<Rightarrow> ac_action a = Some 1 | Inl e \<Rightarrow> False" by code_simp
  have "cleaned (db_mail sample_db) (inbox_query CvSubject) [''Hi''] [TRASH] ''m1'' \<and>
      set (current_labels (db_mail sample_db) ''m1'') = {''INBOX'', ''UNREAD''} \<and> find_message (db_mail sample_db) ''m1'' \<noteq> None"
    by code_simp
  then obtain r where r: "cleaned (db_mail sample_db) (inbox_query CvSubject) [''Hi''] [TRASH] ''m1''"
    "find_message (db_mail sample_db) ''m1'' = Some r" "set (current_labels (db_mail sample_db) ''m1'') = {''INBOX'', ''UNREAD''}" by blast
  then have m1: "cleaned (db_mail sample_db) (inbox_query CvSubject) [''Hi''] [TRASH] ''m1''"
    "label_sets (db_mail sample_db) ''m1'' = Some {''INBOX'', ''UNREAD''}"
    by (simp_all only: label_sets_def current_labels_def option.case option.map)
  have noarch: "ARCHIVE_LABEL \<notin> set [TRASH]" by (simp add: ARCHIVE_LABEL_def TRASH_def)
  from clean_up_changes_the_selected_and_is_undone [OF sample_db_ok(1,2) noarch, of "inbox_query CvSubject" "[''Hi'']" "[INBOX]" True
      "''cleanup_trash''" 7 True None 9, folded clean_inbox_def]
  obtain db1 a where a: "apply_local_change_recorded sample_db clean_inbox True (Some ''cleanup_trash'') 7 = Ok (db1, a)"
    "label_sets (db_mail db1) = (\<lambda>g. if cleaned (db_mail sample_db) (inbox_query CvSubject) [''Hi''] [TRASH] g
       then map_option (relabel [TRASH] [INBOX]) (label_sets (db_mail sample_db) g) else label_sets (db_mail sample_db) g)"
    "case ac_action a of None \<Rightarrow> label_sets (db_mail db1) = label_sets (db_mail sample_db)
     | Some i \<Rightarrow> \<exists>act db2 a2. get_undo db1 i = Some act \<and> ua_kind act = ''cleanup_trash'' \<and>
         apply_local_change_recorded db1 (ChangeExact (map inverse_diff (ua_diffs act)) True) True None 9 = Ok (db2, a2) \<and>
         store_ok (db_mail db2) \<and> label_sets (db_mail db2) = label_sets (db_mail sample_db)"
    by blast
  from run a(1) have i: "ac_action a = Some 1" by simp
  have "label_sets (db_mail db1) ''m1'' = Some {''UNREAD'', ''TRASH''}"
    using a(2) m1 by (auto simp: relabel_def TRASH_def INBOX_def)
  with a(1,3) i show ?thesis by auto
qed


end
