(* ===== verification/Mutations.thy ===== *)
theory Mutations
  imports Core CleanupApply
begin

text \<open>
  The user's actions on one mailbox, with their undo (\<^verbatim>\<open>kaluta-core/src/mutations.rs\<close>) and the toolbar of Clean Up
  (\<^verbatim>\<open>kaluta-core/src/cleanup.rs\<close>). An action recorded in the store is named by a token, which the undo of the
  app hands back. The account an action works in is \<open>acc\<close>, the mailbox its state.
\<close>

section \<open>Recorded actions\<close>

record undo_token =
  tok_account :: account_id
  tok_action :: int

definition NO_THREADS :: core_error where "NO_THREADS = core_error_new EkInvalidInput ''no threads given''"

definition core_mutate ::
    "'w sync_env \<Rightarrow> account_id option \<Rightarrow> local_change \<Rightarrow> string \<Rightarrow> millis \<Rightarrow> 'w mailbox_state \<Rightarrow>
       (core_error, undo_token option \<times> nat) result \<times> 'w mailbox_state" where
  "core_mutate q acc change kind now mb =
     (let (r, mb') = core_apply q change (Some kind) now mb
      in (map_sum id (\<lambda>a. (case (ac_action a, acc) of
             (Some i, Some c) \<Rightarrow> Some \<lparr>tok_account = c, tok_action = i\<rparr> | _ \<Rightarrow> None, ac_messages a)) r, mb'))"

definition CLEANUP_PREFIX :: string where "CLEANUP_PREFIX = ''cleanup_''"

definition is_cleanup_action :: "string \<Rightarrow> bool" where "is_cleanup_action kind \<longleftrightarrow> prefix CLEANUP_PREFIX kind"

text \<open>Undo and redo, in the mailbox of the token's account.\<close>

definition core_replay ::
    "'w sync_env \<Rightarrow> undo_token \<Rightarrow> bool \<Rightarrow> millis \<Rightarrow> 'w mailbox_state \<Rightarrow> (core_error, unit) result \<times> 'w mailbox_state" where
  "core_replay q t inverted now mb =
     (case get_undo (mailbox_account mb) (tok_action t) of
        None \<Rightarrow> (Err (core_error_new EkNotFound ''that action can no longer be undone''), mb)
      | Some a \<Rightarrow>
          mutate_unrecorded q
            (ChangeExact (if inverted then map inverse_diff (ua_diffs a) else ua_diffs a) (is_cleanup_action (ua_kind a))) now mb)"

definition core_undo_action ::
    "'w sync_env \<Rightarrow> undo_token \<Rightarrow> millis \<Rightarrow> 'w mailbox_state \<Rightarrow> (core_error, unit) result \<times> 'w mailbox_state" where
  "core_undo_action q t now mb = core_replay q t True now mb"

definition core_redo_action ::
    "'w sync_env \<Rightarrow> undo_token \<Rightarrow> millis \<Rightarrow> 'w mailbox_state \<Rightarrow> (core_error, unit) result \<times> 'w mailbox_state" where
  "core_redo_action q t now mb = core_replay q t False now mb"

definition on_threads_given ::
    "'w sync_env \<Rightarrow> account_id option \<Rightarrow> thread_id list \<Rightarrow> (thread_id list \<Rightarrow> local_change) \<Rightarrow> string \<Rightarrow> millis \<Rightarrow> 'w mailbox_state \<Rightarrow>
       (core_error, undo_token option) result \<times> 'w mailbox_state" where
  "on_threads_given q acc ts change kind now mb =
     (if ts = [] then (Err NO_THREADS, mb)
      else (let (r, mb') = core_mutate q acc (change ts) kind now mb in (map_sum id fst r, mb')))"

datatype user_action =
    UserArchive | UserMoveToInbox | UserMarkJunk | UserNotJunk | UserSetRead bool | UserSetStarred bool | UserTrash
  | UserModifyLabels "label_id list" "label_id list"

definition MARKED_LABELS :: string where "MARKED_LABELS = ''spam, trash, draft and sent are not labels to set''"

fun core_act ::
    "'w sync_env \<Rightarrow> account_id option \<Rightarrow> user_action \<Rightarrow> thread_id list \<Rightarrow> millis \<Rightarrow> 'w mailbox_state \<Rightarrow>
       (core_error, undo_token option) result \<times> 'w mailbox_state" where
  "core_act q acc UserArchive ts now mb = on_threads_given q acc ts archive ''archive'' now mb"
| "core_act q acc UserMoveToInbox ts now mb = on_threads_given q acc ts move_to_inbox ''move_to_inbox'' now mb"
| "core_act q acc UserMarkJunk ts now mb = on_threads_given q acc ts mark_junk ''junk'' now mb"
| "core_act q acc UserNotJunk ts now mb = on_threads_given q acc ts not_junk ''not_junk'' now mb"
| "core_act q acc (UserSetRead b) ts now mb =
     on_threads_given q acc ts (\<lambda>ts. set_read ts b) (if b then ''read'' else ''unread'') now mb"
| "core_act q acc (UserSetStarred b) ts now mb =
     on_threads_given q acc ts (\<lambda>ts. set_starred ts b) (if b then ''star'' else ''unstar'') now mb"
| "core_act q acc UserTrash ts now mb = on_threads_given q acc ts ChangeTrash ''trash'' now mb"
| "core_act q acc (UserModifyLabels add remove) ts now mb =
     (if list_ex (\<lambda>l. l \<in> set PROTECTED) (add @ remove) then (Err (core_error_new EkInvalidInput MARKED_LABELS), mb)
      else on_threads_given q acc ts (\<lambda>ts. ChangeLabels ts add remove)
             (if remove = [] then ''label'' else if add = [] then ''unlabel'' else ''relabel'') now mb)"

definition outbox_status :: "'w mailbox_state \<Rightarrow> outbox_counts" where
  "outbox_status mb = outbox_counts_of (mailbox_account mb)"

definition core_clear_failed :: "'w mailbox_state \<Rightarrow> outbox_counts \<times> 'w mailbox_state" where
  "core_clear_failed mb = (let mb' = with_account (fst (clear_failed (mailbox_account mb))) mb in (outbox_status mb', mb'))"

section \<open>Clean Up\<close>

datatype cleanup_action = CaArchive | CaMove label_id | CaTrash | CaSpam

record cleanup_result =
  cu_changed :: nat
  cu_undo :: "undo_token option"
  cu_description :: string
  cu_action_name :: string

text \<open>A number with commas between its thousands.\<close>

definition thousands :: "string \<Rightarrow> string" where
  "thousands digits =
     concat (map (\<lambda>(i, c). if 0 < i \<and> (length digits - i) mod 3 = 0 then [CHR '','', c] else [c]) (enumerate 0 digits))"

definition messages_text :: "nat \<Rightarrow> string" where
  "messages_text n = (if n = 1 then ''1 message'' else thousands (show_nat n) @ '' messages'')"

text \<open>
  The curly quotes of the notices are outside the code points of the model's strings: \<open>quoted\<close> is a name between them.
  \<^verbatim>\<open>replacen\<close> with 1: the first occurrence.\<close>

fun replace_first :: "string \<Rightarrow> string \<Rightarrow> string \<Rightarrow> string" where
  "replace_first pat to [] = (if pat = [] then to else [])"
| "replace_first pat to (c # cs) =
     (if prefix pat (c # cs) then to @ drop (length pat) (c # cs) else c # replace_first pat to cs)"

definition which_messages :: "(string \<Rightarrow> string) \<Rightarrow> cleanup_view \<Rightarrow> nat \<Rightarrow> nat \<Rightarrow> string option \<Rightarrow> string" where
  "which_messages quoted view n groups title =
     (if groups = 1
      then (case title of
              None \<Rightarrow> messages_text n
            | Some t \<Rightarrow>
                (case view of
                   CvSize \<Rightarrow>
                     if n = 1 then ''1 '' @ to_lowercase t @ '' message''
                     else replace_first '' '' ('' '' @ to_lowercase t @ '' '') (messages_text n)
                 | CvSubject \<Rightarrow>
                     if t = ''(no subject)'' then messages_text n @ '' with no subject''
                     else messages_text n @ '' with the subject '' @ quoted t
                 | _ \<Rightarrow> messages_text n @ '' from '' @ t))
      else messages_text n @ '' from '' @ show_nat groups @ '' groups'')"

record cleanup_plan =
  cp_add :: "label_id list"
  cp_remove :: "label_id list"
  cp_kind :: string
  cp_name :: string
  cp_done :: string

text \<open>What an action adds and removes, how it is recorded and what the notice says.\<close>

definition cleanup_plan_of :: "(string \<Rightarrow> string) \<Rightarrow> label list \<Rightarrow> cleanup_action \<Rightarrow> (core_error, cleanup_plan) result" where
  "cleanup_plan_of quoted ls action =
     (case action of
        CaArchive \<Rightarrow> Ok \<lparr>cp_add = [], cp_remove = [INBOX], cp_kind = ''archive'', cp_name = ''Archive'', cp_done = ''Archived {}''\<rparr>
      | CaMove l \<Rightarrow>
          (case List.find (\<lambda>x. lb_id x = l) ls of
             None \<Rightarrow> Err (core_error_new EkNotFound ''that label no longer exists'')
           | Some x \<Rightarrow>
               if lb_id x = INBOX
               then Ok \<lparr>cp_add = [INBOX], cp_remove = [], cp_kind = ''move'', cp_name = ''Move'', cp_done = ''Moved {} to the Inbox''\<rparr>
               else if lb_kind x = UserLabel
               then Ok \<lparr>cp_add = [lb_id x], cp_remove = [INBOX], cp_kind = ''move'', cp_name = ''Move'',
                        cp_done = ''Moved {} to '' @ quoted (lb_name x)\<rparr>
               else Err (core_error_new EkInvalidInput (lb_name x @ '' is not a label to move to'')))
      | CaTrash \<Rightarrow> Ok \<lparr>cp_add = [TRASH], cp_remove = [INBOX], cp_kind = ''trash'', cp_name = ''Move to Trash'', cp_done = ''Moved {} to the Trash''\<rparr>
      | CaSpam \<Rightarrow> Ok \<lparr>cp_add = [SPAM], cp_remove = [INBOX], cp_kind = ''spam'', cp_name = ''Mark as Spam'', cp_done = ''Moved {} to Spam''\<rparr>)"

text \<open>The title of the one group that is ticked, read before it may be emptied.\<close>

definition group_title :: "mail_store \<Rightarrow> (string \<rightharpoonup> string) \<Rightarrow> cleanup_query \<Rightarrow> string list \<Rightarrow> (store_error, string option) result" where
  "group_title m meta cq keys =
     (if length keys = 1
      then map_sum id (\<lambda>gs. map_option cg_title (List.find (\<lambda>g. cg_key g = hd keys) gs)) (cleanup_groups m meta cq [])
      else Ok None)"

definition core_cleanup_apply ::
    "'w sync_env \<Rightarrow> (string \<Rightarrow> string) \<Rightarrow> account_id \<Rightarrow> (string \<rightharpoonup> string) \<Rightarrow> cleanup_query \<Rightarrow> string list \<Rightarrow> cleanup_action \<Rightarrow> millis \<Rightarrow>
       'w mailbox_state \<Rightarrow> (core_error, cleanup_result) result \<times> 'w mailbox_state" where
  "core_cleanup_apply q quoted acc meta cq keys action now mb =
     (if keys = [] then (Err (core_error_new EkInvalidInput ''no groups given''), mb)
      else
        (let m = db_mail (mailbox_account mb)
         in case group_title m meta cq keys of
              Inl e \<Rightarrow> (Err (core_error_of_store e), mb)
            | Inr title \<Rightarrow>
                (case cleanup_plan_of quoted (list_labels m) action of
                   Inl e \<Rightarrow> (Err e, mb)
                 | Inr p \<Rightarrow>
                     (case core_mutate q (Some acc) (ChangeCleanup cq keys (cp_add p) (cp_remove p)) (CLEANUP_PREFIX @ cp_kind p) now mb of
                        (Inl e, mb') \<Rightarrow> (Err e, mb')
                      | (Inr (undo, changed), mb') \<Rightarrow>
                          (Ok \<lparr>cu_changed = changed, cu_undo = undo,
                               cu_description =
                                 (if changed = 0 then ''Nothing to change: those messages are already there''
                                  else replace_first ''{}'' (which_messages quoted (cq_view cq) changed (length keys) title) (cp_done p)),
                               cu_action_name = cp_name p\<rparr>, mb')))))"

section \<open>Cleaning up can be undone\<close>

lemma mailbox_db_simps [simp]: "mailbox_db (Served e) = en_db e" "mailbox_db (Unserved d) = d"
  by simp_all

text \<open>Whether or not a server is connected, the store's part of a change is the same.\<close>

lemma core_apply_runs:
  "\<exists>queue now'. case apply_local_change_recorded (mailbox_account mb) c queue rec now' of
     Inl x \<Rightarrow> \<exists>y. core_apply q c rec now mb = (Err y, mb)
   | Inr (a, applied) \<Rightarrow> \<exists>mb'. core_apply q c rec now mb = (Ok applied, mb') \<and> mailbox_account mb' = a"
proof (cases mb)
  case (Served e)
  then show ?thesis
    by (intro exI [of _ True] exI [of _ "now_of q e"])
       (auto simp: core_apply_def apply_change_recorded_def publish_def tell_def split: sum.splits prod.splits)
next
  case (Unserved d)
  then show ?thesis
    by (intro exI [of _ False] exI [of _ now]) (auto simp: core_apply_def split: sum.splits prod.splits)
qed

lemma core_apply_Ok:
  assumes "core_apply q c rec now mb = (Ok applied, mb')"
  shows "\<exists>queue now'. apply_local_change_recorded (mailbox_account mb) c queue rec now' = Ok (mailbox_account mb', applied)"
proof -
  from core_apply_runs [where mb = mb and c = c and rec = rec and q = q and now = now] obtain queue now' where
    run: "case apply_local_change_recorded (mailbox_account mb) c queue rec now' of
       Inl x \<Rightarrow> \<exists>y. core_apply q c rec now mb = (Err y, mb)
     | Inr (a, applied) \<Rightarrow> \<exists>mb'. core_apply q c rec now mb = (Ok applied, mb') \<and> mailbox_account mb' = a" by blast
  with assms show ?thesis
    by (intro exI [of _ queue] exI [of _ now'])
       (cases "apply_local_change_recorded (mailbox_account mb) c queue rec now'"; auto split: prod.splits)
qed

lemma cleanup_plan_adds:
  assumes "struct_ok m" and "cleanup_plan_of quoted (list_labels m) action = Ok p"
  shows "ARCHIVE_LABEL \<notin> set (cp_add p)"
proof (cases action)
  case (CaMove l)
  with assms(2) obtain x where x: "List.find (\<lambda>x. lb_id x = l) (list_labels m) = Some x"
      "cp_add p = [INBOX] \<or> cp_add p = [lb_id x]"
    by (auto simp: cleanup_plan_of_def split: option.splits if_splits)
  from x(1) have "x \<in> set (list_labels m)" by (auto simp: find_Some_iff)
  with assms(1) have "lb_id x \<noteq> ARCHIVE_LABEL"
    by (auto simp: list_labels_def struct_ok_def labels_ok_def)
  with x(2) show ?thesis by (auto simp: ARCHIVE_LABEL_def INBOX_def)
qed (use assms in \<open>auto simp: cleanup_plan_of_def ARCHIVE_LABEL_def INBOX_def TRASH_def SPAM_def\<close>)

lemma map_sum_eq_Ok: "map_sum id f r = Ok y \<longleftrightarrow> (\<exists>x. r = Ok x \<and> y = f x)"
  by (cases r) auto

text \<open>A cleanup that answers has run its plan as one recorded action.\<close>

lemma core_cleanup_run:
  assumes "core_cleanup_apply q quoted acc meta cq keys action now mb = (Ok r, mb1)"
  shows "\<exists>p a. cleanup_plan_of quoted (list_labels (db_mail (mailbox_account mb))) action = Ok p \<and>
    core_apply q (ChangeCleanup cq keys (cp_add p) (cp_remove p)) (Some (CLEANUP_PREFIX @ cp_kind p)) now mb = (Ok a, mb1) \<and>
    cu_undo r = map_option (\<lambda>i. \<lparr>tok_account = acc, tok_action = i\<rparr>) (ac_action a)"
  using assms
  by (auto simp: core_cleanup_apply_def core_mutate_def Let_def map_sum_eq_Ok split: if_splits sum.splits prod.splits option.splits)

lemma undo_runs:
  assumes "get_undo (mailbox_account mb) (tok_action t) = Some act" and "is_cleanup_action (ua_kind act)"
    and exact: "\<And>queue rec now'. \<exists>db2 a2. apply_local_change_recorded (mailbox_account mb)
      (ChangeExact (map inverse_diff (ua_diffs act)) True) queue rec now' = Ok (db2, a2) \<and> P db2"
  shows "\<exists>mb2. core_undo_action q t now mb = (Ok (), mb2) \<and> P (mailbox_account mb2)"
proof -
  let ?c = "ChangeExact (map inverse_diff (ua_diffs act)) True"
  from core_apply_runs [where mb = mb and c = ?c and rec = None and q = q and now = now] obtain queue now' where
    run: "case apply_local_change_recorded (mailbox_account mb) ?c queue None now' of
       Inl x \<Rightarrow> \<exists>y. core_apply q ?c None now mb = (Err y, mb)
     | Inr (a, applied) \<Rightarrow> \<exists>mb'. core_apply q ?c None now mb = (Ok applied, mb') \<and> mailbox_account mb' = a" by blast
  from exact [of queue None now'] obtain db2 a2 where
    "apply_local_change_recorded (mailbox_account mb) ?c queue None now' = Ok (db2, a2)" "P db2" by blast
  with run obtain mb2 where "core_apply q ?c None now mb = (Ok a2, mb2)" "P (mailbox_account mb2)" by auto
  with assms(1,2) show ?thesis
    by (auto simp: core_undo_action_def core_replay_def mutate_unrecorded_def Let_def)
qed


text \<open>
  Claim C32: What the toolbar of Clean Up does is one action that can be undone. When it answers, the messages it
  changed are exactly those of the ticked groups (but the user's own mail, when they go to Spam), each of which
  has the labels of the plan added and removed, and no other message's labels have changed. When it gives no
  token, nothing has changed; the token it gives is the account's, and undoing it, whatever the moment, is served
  and gives every message of the mailbox back the labels it had.
\<close>

theorem cleaning_up_can_be_undone:
  fixes mb :: "'w mailbox_state"
  assumes ok: "store_ok (db_mail (mailbox_account mb))" "undo_ok (mailbox_account mb)"
    and run: "core_cleanup_apply q quoted acc meta cq keys action now mb = (Ok r, mb1)"
  shows "\<exists>p. cleanup_plan_of quoted (list_labels (db_mail (mailbox_account mb))) action = Ok p \<and>
    label_sets (db_mail (mailbox_account mb1)) = (\<lambda>g. if cleaned (db_mail (mailbox_account mb)) cq keys (cp_add p) g
       then map_option (relabel (cp_add p) (cp_remove p)) (label_sets (db_mail (mailbox_account mb)) g)
       else label_sets (db_mail (mailbox_account mb)) g) \<and>
    (case cu_undo r of
       None \<Rightarrow> label_sets (db_mail (mailbox_account mb1)) = label_sets (db_mail (mailbox_account mb))
     | Some t \<Rightarrow> tok_account t = acc \<and>
         (\<exists>mb2. core_undo_action q t later mb1 = (Ok (), mb2) \<and> store_ok (db_mail (mailbox_account mb2)) \<and>
            label_sets (db_mail (mailbox_account mb2)) = label_sets (db_mail (mailbox_account mb))))"
proof -
  from core_cleanup_run [OF run] obtain p a where
    p: "cleanup_plan_of quoted (list_labels (db_mail (mailbox_account mb))) action = Ok p" and
    a: "core_apply q (ChangeCleanup cq keys (cp_add p) (cp_remove p)) (Some (CLEANUP_PREFIX @ cp_kind p)) now mb = (Ok a, mb1)" and
    token: "cu_undo r = map_option (\<lambda>i. \<lparr>tok_account = acc, tok_action = i\<rparr>) (ac_action a)" by blast
  from core_apply_Ok [OF a] obtain queue now' where
    a1: "apply_local_change_recorded (mailbox_account mb) (ChangeCleanup cq keys (cp_add p) (cp_remove p)) queue
          (Some (CLEANUP_PREFIX @ cp_kind p)) now' = Ok (mailbox_account mb1, a)" by blast
  have "ARCHIVE_LABEL \<notin> set (cp_add p)"
    using cleanup_plan_adds [OF _ p] ok(1) by (simp add: store_ok_def)
  note cleans = clean_up_changes_the_selected_and_is_undone [OF ok this, of cq keys "cp_remove p" queue
      "CLEANUP_PREFIX @ cp_kind p" now', unfolded a1]
  show ?thesis
  proof (cases "ac_action a")
    case None
    with cleans [of True None 0] p token show ?thesis by auto
  next
    case (Some i)
    with cleans [of True None 0] obtain act where act: "get_undo (mailbox_account mb1) i = Some act"
      "ua_kind act = CLEANUP_PREFIX @ cp_kind p" by auto
    have "\<exists>mb2. core_undo_action q \<lparr>tok_account = acc, tok_action = i\<rparr> later mb1 = (Ok (), mb2) \<and>
        (store_ok (db_mail (mailbox_account mb2)) \<and> label_sets (db_mail (mailbox_account mb2)) = label_sets (db_mail (mailbox_account mb)))"
    proof (rule undo_runs)
      show "get_undo (mailbox_account mb1) (tok_action \<lparr>tok_account = acc, tok_action = i\<rparr>) = Some act" using act(1) by simp
      show "is_cleanup_action (ua_kind act)" using act(2) by (simp add: is_cleanup_action_def)
      show "\<exists>db2 a2. apply_local_change_recorded (mailbox_account mb1) (ChangeExact (map inverse_diff (ua_diffs act)) True)
          queue2 rec2 now2 = Ok (db2, a2) \<and> store_ok (db_mail db2) \<and> label_sets (db_mail db2) = label_sets (db_mail (mailbox_account mb))"
        for queue2 rec2 now2
        using cleans [of queue2 rec2 now2] Some act(1) by auto
    qed
    with cleans [of True None 0] p token Some show ?thesis by auto
  qed
qed


definition sample_mailbox :: "nat mailbox_state" where "sample_mailbox = Unserved (new_sync_db\<lparr>sd_account := sample_db\<rparr>)"

lemma core_cleanup_unserved:
  assumes "keys \<noteq> []" and "group_title (db_mail (sd_account d)) meta cq keys = Ok t"
    and "cleanup_plan_of quoted (list_labels (db_mail (sd_account d))) action = Ok p"
    and "apply_local_change_recorded (sd_account d) (ChangeCleanup cq keys (cp_add p) (cp_remove p)) False
           (Some (CLEANUP_PREFIX @ cp_kind p)) now = Ok (d', a)"
  shows "core_cleanup_apply q quoted acc meta cq keys action now (Unserved d) =
    (Ok \<lparr>cu_changed = ac_messages a, cu_undo = map_option (\<lambda>i. \<lparr>tok_account = acc, tok_action = i\<rparr>) (ac_action a),
        cu_description = (if ac_messages a = 0 then ''Nothing to change: those messages are already there''
          else replace_first ''{}'' (which_messages quoted (cq_view cq) (ac_messages a) (length keys) t) (cp_done p)),
        cu_action_name = cp_name p\<rparr>, Unserved (d\<lparr>sd_account := d'\<rparr>))"
  using assms by (simp add: core_cleanup_apply_def core_mutate_def core_apply_def Let_def split: option.splits)

definition trash_hi :: "(core_error, cleanup_result) result \<times> nat mailbox_state" where
  "trash_hi = core_cleanup_apply quiet_env id ''me'' Map.empty (inbox_query CvSubject) [''Hi''] CaTrash 7 sample_mailbox"

theorem cleaning_up_can_be_undone_witness:
  "\<exists>r mb1 mb2. trash_hi = (Ok r, mb1) \<and> cu_description r = ''Moved 1 message with the subject Hi to the Trash'' \<and>
     label_sets (db_mail (mailbox_account mb1)) ''m1'' = Some {''UNREAD'', ''TRASH''} \<and>
     core_undo_action quiet_env \<lparr>tok_account = ''me'', tok_action = 1\<rparr> 9 mb1 = (Ok (), mb2) \<and>
     label_sets (db_mail (mailbox_account mb2)) = label_sets (db_mail sample_db)"
proof -
  have "case apply_local_change_recorded sample_db (ChangeCleanup (inbox_query CvSubject) [''Hi''] [TRASH] [INBOX]) False
      (Some ''cleanup_trash'') 7 of Inr (d, a) \<Rightarrow> ac_action a = Some 1 \<and> ac_messages a = 1 \<and>
        label_sets (db_mail d) ''m1'' = Some {''UNREAD'', ''TRASH''} | _ \<Rightarrow> False"
    by code_simp
  then obtain d a where a: "apply_local_change_recorded sample_db (ChangeCleanup (inbox_query CvSubject) [''Hi''] [TRASH] [INBOX]) False
      (Some ''cleanup_trash'') 7 = Ok (d, a)" "ac_action a = Some 1" "ac_messages a = 1"
      "label_sets (db_mail d) ''m1'' = Some {''UNREAD'', ''TRASH''}"
    by (auto split: sum.splits prod.splits)
  have title: "group_title (db_mail sample_db) Map.empty (inbox_query CvSubject) [''Hi''] = Ok (Some ''Hi'')" by code_simp
  have notice: "replace_first ''{}'' (which_messages id CvSubject 1 1 (Some ''Hi'')) ''Moved {} to the Trash'' =
      ''Moved 1 message with the subject Hi to the Trash''" by code_simp
  have plan: "cleanup_plan_of id (list_labels (db_mail sample_db)) CaTrash =
      Ok \<lparr>cp_add = [TRASH], cp_remove = [INBOX], cp_kind = ''trash'', cp_name = ''Move to Trash'', cp_done = ''Moved {} to the Trash''\<rparr>"
    by (simp add: cleanup_plan_of_def)
  let ?sync = "new_sync_db\<lparr>sd_account := sample_db\<rparr>"
  let ?p = "\<lparr>cp_add = [TRASH], cp_remove = [INBOX], cp_kind = ''trash'', cp_name = ''Move to Trash'', cp_done = ''Moved {} to the Trash''\<rparr>"
  have acc: "sd_account ?sync = sample_db" by simp
  have kind: "CLEANUP_PREFIX @ cp_kind ?p = ''cleanup_trash''" by (simp add: CLEANUP_PREFIX_def)
  have fields: "cp_add ?p = [TRASH]" "cp_remove ?p = [INBOX]" by simp_all
  have "core_cleanup_apply quiet_env id ''me'' Map.empty (inbox_query CvSubject) [''Hi''] CaTrash 7 (Unserved ?sync) =
    (Ok \<lparr>cu_changed = ac_messages a, cu_undo = map_option (\<lambda>i. \<lparr>tok_account = ''me'', tok_action = i\<rparr>) (ac_action a),
        cu_description = (if ac_messages a = 0 then ''Nothing to change: those messages are already there''
          else replace_first ''{}'' (which_messages id (cq_view (inbox_query CvSubject)) (ac_messages a) (length [''Hi'']) (Some ''Hi''))
             (cp_done ?p)),
        cu_action_name = cp_name ?p\<rparr>, Unserved (?sync\<lparr>sd_account := d\<rparr>))"
  proof (rule core_cleanup_unserved)
    show "[''Hi''] \<noteq> []" by (rule list.distinct)
    show "group_title (db_mail (sd_account ?sync)) Map.empty (inbox_query CvSubject) [''Hi''] = Ok (Some ''Hi'')"
      unfolding acc by (rule title)
    show "cleanup_plan_of id (list_labels (db_mail (sd_account ?sync))) CaTrash = Ok ?p"
      unfolding acc by (rule plan)
    show "apply_local_change_recorded (sd_account ?sync) (ChangeCleanup (inbox_query CvSubject) [''Hi''] (cp_add ?p) (cp_remove ?p)) False
        (Some (CLEANUP_PREFIX @ cp_kind ?p)) 7 = Ok (d, a)"
      unfolding acc kind fields by (rule a(1))
  qed
  then obtain r mb1 where r: "trash_hi = (Ok r, mb1)" "r = \<lparr>cu_changed = ac_messages a,
        cu_undo = map_option (\<lambda>i. \<lparr>tok_account = ''me'', tok_action = i\<rparr>) (ac_action a),
        cu_description = (if ac_messages a = 0 then ''Nothing to change: those messages are already there''
          else replace_first ''{}'' (which_messages id (cq_view (inbox_query CvSubject)) (ac_messages a) (length [''Hi'']) (Some ''Hi''))
             (cp_done ?p)), cu_action_name = cp_name ?p\<rparr>"
    "mb1 = Unserved (?sync\<lparr>sd_account := d\<rparr>)"
    unfolding trash_hi_def sample_mailbox_def by blast
  have view: "cq_view (inbox_query CvSubject) = CvSubject" by (simp add: inbox_query_def)
  have one: "length [''Hi''] = 1" "((1::nat) = 0) = False" "cp_done ?p = ''Moved {} to the Trash''" by simp_all
  have desc: "cu_description r = ''Moved 1 message with the subject Hi to the Trash''"
    unfolding r(2) cleanup_result.select_convs a(3) view one if_False notice ..
  have undo: "cu_undo r = Some \<lparr>tok_account = ''me'', tok_action = 1\<rparr>"
    unfolding r(2) cleanup_result.select_convs a(2) by (rule option.map(2))
  have acc1: "mailbox_account mb1 = d" unfolding r(3) by simp
  have db: "mailbox_account sample_mailbox = sample_db" by (simp add: sample_mailbox_def)
  have ok: "store_ok (db_mail (mailbox_account sample_mailbox))" "undo_ok (mailbox_account sample_mailbox)"
    unfolding db by (rule sample_db_ok(1), rule sample_db_ok(2))
  from cleaning_up_can_be_undone [where later = 9, OF ok r(1) [unfolded trash_hi_def], unfolded undo option.case db]
  obtain mb2 where "core_undo_action quiet_env \<lparr>tok_account = ''me'', tok_action = 1\<rparr> 9 mb1 = (Ok (), mb2)"
    "label_sets (db_mail (mailbox_account mb2)) = label_sets (db_mail sample_db)"
    by (elim exE conjE) (rule that)
  moreover have "label_sets (db_mail (mailbox_account mb1)) ''m1'' = Some {''UNREAD'', ''TRASH''}"
    unfolding acc1 by (rule a(4))
  ultimately show ?thesis using r(1) desc by blast
qed


end
