(* ===== verification/Progress.thy ===== *)
theory Progress
  imports Queue CleanupCounts
begin

text \<open>
  The Inbox Zero card of Clean Up (\<^verbatim>\<open>mail-store/src/cleanup.rs\<close>, \<^verbatim>\<open>progress_at\<close> of \<^verbatim>\<open>kaluta-core/src/cleanup.rs\<close>, and
  the daily record of \<^verbatim>\<open>kaluta-core/src/sync.rs\<close>): the Inbox's count at the start of each day, the baseline Clean
  Up started from, and the numbers worked out of them. Days are named by their date, in key order in the table.
\<close>

section \<open>The tables\<close>

record progress_db =
  pd_account :: account_db
  pd_history :: "(string \<times> nat) list"
  pd_meta :: "string \<rightharpoonup> string"

definition BASELINE_KEY :: string where "BASELINE_KEY = ''baseline_count''"
definition BASELINE_AT_KEY :: string where "BASELINE_AT_KEY = ''baseline_at''"
definition HISTORY_DAYS :: int where "HISTORY_DAYS = 30"

definition inbox_count :: "progress_db \<Rightarrow> nat" where
  "inbox_count p = sql_count (\<lambda>r. INBOX \<in> set (m_labels r)) (messages (db_mail (pd_account p)))"

text \<open>The first record of a day stands.\<close>

definition record_inbox_day :: "progress_db \<Rightarrow> string \<Rightarrow> nat \<Rightarrow> bool \<times> progress_db" where
  "record_inbox_day p day count =
     (if map_of (pd_history p) day \<noteq> None then (False, p)
      else (True, p\<lparr>pd_history := btree_insert day count (pd_history p)\<rparr>))"

definition inbox_days :: "progress_db \<Rightarrow> string \<Rightarrow> (string \<times> nat) list" where
  "inbox_days p since = filter (\<lambda>(day, _). since \<le> day) (pd_history p)"

definition baseline :: "progress_db \<Rightarrow> (nat \<times> millis) option" where
  "baseline p =
     (let get = (\<lambda>key. case pd_meta p key of None \<Rightarrow> None | Some v \<Rightarrow> parse_i64 v)
      in case (get BASELINE_KEY, get BASELINE_AT_KEY) of
           (Some n, Some at) \<Rightarrow> Some (nat (max n 0), at) | _ \<Rightarrow> None)"

definition set_baseline_once :: "progress_db \<Rightarrow> nat \<Rightarrow> millis \<Rightarrow> bool \<times> progress_db" where
  "set_baseline_once p count at =
     (if baseline p \<noteq> None then (False, p)
      else (True, p\<lparr>pd_meta := (pd_meta p)(BASELINE_KEY \<mapsto> show_nat count, BASELINE_AT_KEY \<mapsto> show_int at)\<rparr>))"

definition raise_baseline :: "progress_db \<Rightarrow> nat \<Rightarrow> bool \<times> progress_db" where
  "raise_baseline p count =
     (case baseline p of
        Some (base, _) \<Rightarrow>
          if base < count then (True, p\<lparr>pd_meta := (pd_meta p)(BASELINE_KEY \<mapsto> show_nat count)\<rparr>) else (False, p)
      | None \<Rightarrow> (False, p))"

section \<open>Days\<close>

definition local_midnight :: "millis \<Rightarrow> int \<Rightarrow> millis" where
  "local_midnight at utc_offset_secs =
     (let offset = utc_offset_secs * 1000 in (at + offset) div DAY_MS * DAY_MS - offset)"

definition day_key :: "millis \<Rightarrow> int \<Rightarrow> string" where
  "day_key at utc_offset_secs =
     (let (y, m, d) = civil_from_days ((at + utc_offset_secs * 1000) div DAY_MS)
      in show_padded 4 y @ ''-'' @ show_padded 2 m @ ''-'' @ show_padded 2 d)"

text \<open>Mail that arrived since a moment, but the user's own, drafts, local copies and Spam.\<close>

definition received_since :: "progress_db \<Rightarrow> millis \<Rightarrow> bool \<Rightarrow> nat" where
  "received_since p since inbox =
     sql_count (\<lambda>r. since \<le> mh_internal_date (m_head r) \<and> \<not> m_is_sent_by_me r \<and> \<not> m_is_draft r \<and> \<not> like_local (m_gmail_id r) \<and>
        SPAM \<notin> set (m_labels r) \<and> (inbox \<longrightarrow> INBOX \<in> set (m_labels r)))
       (messages (db_mail (pd_account p)))"

definition midnight_now :: "progress_db \<Rightarrow> millis \<Rightarrow> int \<Rightarrow> nat" where
  "midnight_now p now utc_offset_secs = inbox_count p - received_since p (local_midnight now utc_offset_secs) True"

definition today_recorded :: "progress_db \<Rightarrow> millis \<Rightarrow> int \<Rightarrow> bool" where
  "today_recorded p now utc_offset_secs \<longleftrightarrow> map_of (pd_history p) (day_key now utc_offset_secs) \<noteq> None"

definition record_today :: "progress_db \<Rightarrow> millis \<Rightarrow> int \<Rightarrow> bool \<times> progress_db" where
  "record_today p now utc_offset_secs =
     (if today_recorded p now utc_offset_secs \<or> inbox_filling (pd_account p) then (False, p)
      else record_inbox_day p (day_key now utc_offset_secs) (midnight_now p now utc_offset_secs))"

section \<open>The card\<close>

record progress =
  pr_baseline :: "nat option"
  pr_at_midnight :: nat
  pr_received_today :: nat
  pr_removed_today :: nat
  pr_now :: nat
  pr_days :: "(string \<times> nat) list"

definition percent :: "progress \<Rightarrow> nat" where
  "percent p =
     (if pr_now p = 0 then 100
      else (case pr_baseline p of
              Some base \<Rightarrow> if pr_now p < base then min ((base - pr_now p) * 100 div base) 100 else 0
            | None \<Rightarrow> 0))"

definition progress_now :: "progress_db \<Rightarrow> millis \<Rightarrow> int \<Rightarrow> progress" where
  "progress_now p now utc_offset_secs =
     (let today = day_key now utc_offset_secs;
          first = day_key (local_midnight now utc_offset_secs - (HISTORY_DAYS - 1) * DAY_MS) utc_offset_secs;
          days = filter (\<lambda>(day, _). day \<le> today) (inbox_days p first);
          (at_midnight, days) =
            (if days \<noteq> [] \<and> fst (last days) = today then (snd (last days), days)
             else (let count = midnight_now p now utc_offset_secs in (count, days @ [(today, count)])));
          received_today = received_since p (local_midnight now utc_offset_secs) False;
          now_count = inbox_count p
      in \<lparr>pr_baseline = map_option fst (baseline p), pr_at_midnight = at_midnight, pr_received_today = received_today,
          pr_removed_today = at_midnight + received_today - now_count, pr_now = now_count, pr_days = days\<rparr>)"

record cleanup_progress =
  cpr_baseline :: nat
  cpr_percent :: nat
  cpr_at_midnight :: nat
  cpr_received_today :: nat
  cpr_removed_today :: nat
  cpr_now :: nat
  cpr_days :: "(string \<times> nat) list"

text \<open>What opening Clean Up records, unless the Inbox is still filling.\<close>

definition progress_records :: "progress_db \<Rightarrow> millis \<Rightarrow> int \<Rightarrow> progress_db" where
  "progress_records p now utc_offset_secs =
     (if inbox_filling (pd_account p) then p
      else (let p1 = snd (record_today p now utc_offset_secs);
                inbox = inbox_count p1;
                (is_set, p2) = set_baseline_once p1 inbox now
            in if is_set then p2 else snd (raise_baseline p2 inbox)))"

definition progress_at :: "progress_db \<Rightarrow> millis \<Rightarrow> int \<Rightarrow> cleanup_progress \<times> progress_db" where
  "progress_at p0 now utc_offset_secs =
     (let p1 = progress_records p0 now utc_offset_secs;
          p = progress_now p1 now utc_offset_secs
      in (\<lparr>cpr_baseline = (case pr_baseline p of Some b \<Rightarrow> b | None \<Rightarrow> pr_now p), cpr_percent = percent p,
           cpr_at_midnight = pr_at_midnight p, cpr_received_today = pr_received_today p,
           cpr_removed_today = pr_removed_today p, cpr_now = pr_now p, cpr_days = pr_days p\<rparr>, p1))"

text \<open>
  The record a running sync makes: once a day, after the first listing. The service remembers the day it recorded
  last; a database that fails is not modelled.
\<close>

definition sync_records_day :: "bool \<Rightarrow> string \<Rightarrow> millis \<Rightarrow> int \<Rightarrow> progress_db \<Rightarrow> string \<times> progress_db" where
  "sync_records_day needs_bootstrap inbox_day now offset p =
     (let day = day_key now offset
      in if inbox_day = day \<or> needs_bootstrap then (inbox_day, p)
         else (let (_, p1) = record_today p now offset
               in (if today_recorded p1 now offset then day else inbox_day, p1)))"

section \<open>The names of days are in the order of days\<close>

lemma same_length_order:
  fixes s t :: "'a::linorder list"
  shows "length s = length t \<Longrightarrow> s @ u < t @ v \<longleftrightarrow> s < t \<or> s = t \<and> u < v"
  by (induction s t rule: list_induct2) auto

lemma digit_order:
  assumes "is_ascii_digit c" "is_ascii_digit d"
  shows "c < d \<longleftrightarrow> digit_val c < digit_val d" "c = d \<longleftrightarrow> digit_val c = digit_val d" "digit_val c < 10"
proof -
  have n: "48 \<le> (of_char c :: nat)" "(of_char c :: nat) \<le> 57" "48 \<le> (of_char d :: nat)" "(of_char d :: nat) \<le> 57"
    using assms by (simp_all add: is_ascii_digit_def Let_def)
  show "c < d \<longleftrightarrow> digit_val c < digit_val d" using n by (simp add: digit_val_def less_char_def) arith
  show "c = d \<longleftrightarrow> digit_val c = digit_val d"
    using n by (auto simp: digit_val_def) (metis eq_diff_iff of_char_eq_iff)
  show "digit_val c < 10" using n by (simp add: digit_val_def)
qed

lemma digits_order:
  "length s = length t \<Longrightarrow> list_all is_ascii_digit s \<Longrightarrow> list_all is_ascii_digit t \<Longrightarrow>
     (s < t \<longleftrightarrow> digits_val s < digits_val t) \<and> (s = t \<longleftrightarrow> digits_val s = digits_val t)"
proof (induction s arbitrary: t rule: rev_induct)
  case (snoc c s)
  then obtain t' d where t: "t = t' @ [d]" "length s = length t'" by (cases t rule: rev_cases) auto
  have cd: "is_ascii_digit c" "is_ascii_digit d" "list_all is_ascii_digit s" "list_all is_ascii_digit t'"
    using snoc.prems t by simp_all
  note IH = snoc.IH [OF t(2) cd(3,4)]
  note d = digit_order [OF cd(1,2)] digit_order(3) [OF cd(2,1)]
  have "s @ [c] < t' @ [d] \<longleftrightarrow> s < t' \<or> s = t' \<and> c < d" using same_length_order [OF t(2), of "[c]" "[d]"] by simp
  also have "\<dots> \<longleftrightarrow> digits_val (s @ [c]) < digits_val (t' @ [d])" using IH d by (auto)
  finally have lt: "s @ [c] < t' @ [d] \<longleftrightarrow> digits_val (s @ [c]) < digits_val (t' @ [d])" .
  have "s @ [c] = t' @ [d] \<longleftrightarrow> s = t' \<and> c = d" by simp
  also have "\<dots> \<longleftrightarrow> digits_val (s @ [c]) = digits_val (t' @ [d])" using IH d by auto
  finally show ?case using lt t(1) by simp
qed simp

lemma show_nat_length: "n < 10 ^ w \<Longrightarrow> 0 < w \<Longrightarrow> length (show_nat n) \<le> w"
  unfolding show_nat_def length_rev
proof (induction n arbitrary: w rule: digits_rev.induct)
  case (1 n)
  show ?case
  proof (cases "n < 10")
    case False
    with "1.prems" obtain v where v: "w = Suc v" "0 < v" by (cases w; cases "w - 1") auto
    with "1.prems" have "n div 10 < 10 ^ v" by (simp add: div_less_iff_less_mult)
    with "1.IH" [OF False _ v(2)] False v(1) show ?thesis by (simp add: digits_rev.simps [of n])
  qed (use "1.prems" in \<open>simp add: digits_rev.simps [of n]\<close>)
qed

lemma padded:
  assumes "0 \<le> i" "i < 10 ^ w" "0 < w"
  shows "length (show_padded w i) = w" "digits_val (show_padded w i) = nat i" "list_all is_ascii_digit (show_padded w i)"
proof -
  have "nat i < 10 ^ w" using assms(1,2) by (simp add: nat_less_iff)
  then have "length (show_nat (nat i)) \<le> w" using assms(3) by (rule show_nat_length)
  then show "length (show_padded w i) = w" using assms(1) by (simp add: show_padded_def zero_pad_def)
  show "digits_val (show_padded w i) = nat i" using assms(1) by (simp add: show_padded_def zero_pad_def digits_val_zeros)
  show "list_all is_ascii_digit (show_padded w i)" using assms(1) by (rule padded_digits(1))
qed

lemma padded_order:
  assumes "0 \<le> i" "i < 10 ^ w" "0 \<le> j" "j < 10 ^ w" "0 < w"
  shows "show_padded w i < show_padded w j \<longleftrightarrow> i < j" "show_padded w i = show_padded w j \<longleftrightarrow> i = j"
proof -
  note p = padded [OF assms(1,2,5)] and q = padded [OF assms(3,4,5)]
  have "length (show_padded w i) = length (show_padded w j)" using p(1) q(1) by simp
  from digits_order [OF this p(3) q(3)] assms(1,3)
  show "show_padded w i < show_padded w j \<longleftrightarrow> i < j" "show_padded w i = show_padded w j \<longleftrightarrow> i = j"
    by (auto simp: p(2) q(2))
qed

lemma next_date_later:
  assumes "next_date (y, m, d) = e"
  shows "(y, m, d) < e"
  using assms by (auto simp: next_date_def less_prod_def split: if_splits)

lemma civil_mono: "z < z' \<Longrightarrow> civil_from_days z < civil_from_days z'"
proof (induction "nat (z' - z)" arbitrary: z')
  case (Suc n)
  obtain y m d where c: "civil_from_days (z' - 1) = (y, m, d)" using prod_cases3 by blast
  with civil_of_next_day [of "z' - 1"] have "civil_from_days z' = next_date (y, m, d)" by simp
  then have later: "civil_from_days (z' - 1) < civil_from_days z'" using next_date_later c by simp
  show ?case
  proof (cases "z = z' - 1")
    case False
    with Suc.prems Suc.hyps(2) have "n = nat (z' - 1 - z)" "z < z' - 1" by auto
    from less_trans [OF Suc.hyps(1) [OF this] later] show ?thesis .
  qed (use later in simp)
qed simp

definition day_name :: "int \<Rightarrow> string" where
  "day_name z = (let (y, m, d) = civil_from_days z in show_padded 4 y @ ''-'' @ show_padded 2 m @ ''-'' @ show_padded 2 d)"

definition year_of :: "int \<Rightarrow> int" where "year_of z = fst (civil_from_days z)"

definition named_day :: "int \<Rightarrow> bool" where "named_day z \<longleftrightarrow> 0 \<le> year_of z \<and> year_of z \<le> 9999"

lemma day_name_order:
  assumes "named_day a" "named_day b"
  shows "day_name a < day_name b \<longleftrightarrow> a < b" "day_name a = day_name b \<longleftrightarrow> a = b"
proof -
  obtain y m d y' m' d' where a: "civil_from_days a = (y, m, d)" and b: "civil_from_days b = (y', m', d')"
    using prod_cases3 by metis
  note ca = civil_date [OF a] and cb = civil_date [OF b]
  have len: "days_in_month y m \<le> 31" "days_in_month y' m' \<le> 31" by (simp_all add: days_in_month_def)
  have yy: "0 \<le> y" "y < 10 ^ 4" "0 \<le> y'" "y' < 10 ^ 4" using assms a b by (simp_all add: named_day_def year_of_def)
  have mm: "0 \<le> m" "m < 10 ^ 2" "0 \<le> m'" "m' < 10 ^ 2" and dd: "0 \<le> d" "d < 10 ^ 2" "0 \<le> d'" "d' < 10 ^ 2"
    using ca cb len by simp_all
  have ylen: "length (show_padded 4 y) = length (show_padded 4 y')" and mlen: "length (show_padded 2 m) = length (show_padded 2 m')"
    using padded(1) yy mm by simp_all
  have "day_name a < day_name b \<longleftrightarrow> (y, m, d) < (y', m', d')"
    by (simp add: day_name_def a b same_length_order [OF ylen] same_length_order [OF mlen] padded_order [OF yy] padded_order [OF mm]
        padded_order [OF dd] less_prod_def) auto
  also have "\<dots> \<longleftrightarrow> a < b" using civil_mono [of a b] civil_mono [of b a] a b by (cases a b rule: linorder_cases) auto
  finally show less: "day_name a < day_name b \<longleftrightarrow> a < b" .
  show "day_name a = day_name b \<longleftrightarrow> a = b"
  proof
    assume "day_name a = day_name b"
    then have "y = y' \<and> m = m' \<and> d = d'"
      using ylen mlen by (simp add: day_name_def a b padded_order [OF yy] padded_order [OF mm] padded_order [OF dd])
    with a b civil_mono [of a b] civil_mono [of b a] show "a = b" by (cases a b rule: linorder_cases) auto
  qed simp
qed

section \<open>What the card shows\<close>

definition local_day :: "millis \<Rightarrow> int \<Rightarrow> int" where "local_day at offset = (at + offset * 1000) div DAY_MS"

lemma day_key_name: "day_key at offset = day_name (local_day at offset)"
  by (simp add: day_key_def day_name_def local_day_def)

lemma days_back: "0 < d \<Longrightarrow> (x div d * d - f - n * d + f) div d = x div d - (n :: int)"
proof -
  assume "0 < d"
  have "x div d * d - f - n * d + f = (x div d - n) * d" by (simp add: left_diff_distrib)
  with \<open>0 < d\<close> show ?thesis by simp
qed

lemma local_day_back: "local_day (local_midnight at offset - n * DAY_MS) offset = local_day at offset - n"
  unfolding local_day_def local_midnight_def Let_def by (rule days_back) (simp add: DAY_MS_def)

definition history_ok :: "(string \<times> nat) list \<Rightarrow> bool" where
  "history_ok h \<longleftrightarrow> sorted_wrt (<) (map fst h) \<and> (\<forall>k \<in> fst ` set h. \<exists>z. named_day z \<and> k = day_name z)"

lemma history_insert: "history_ok h \<Longrightarrow> named_day z \<Longrightarrow> history_ok (btree_insert (day_name z) n h)"
  by (auto simp: history_ok_def btree_insert_keys intro: btree_insert_sorted)

lemma history_filter:
  assumes "history_ok h"
  shows "history_ok (filter P h)"
proof -
  have "sorted_wrt (<) (map fst (filter P h))"
    using assms by (simp add: history_ok_def sorted_wrt_map filter_sorted_wrt)
  with assms show ?thesis by (auto simp: history_ok_def)
qed

lemma history_snoc:
  assumes "history_ok h" "named_day z" "\<And>k. k \<in> fst ` set h \<Longrightarrow> k < day_name z"
  shows "history_ok (h @ [(day_name z, n)])"
  using assms by (auto simp: history_ok_def sorted_wrt_append)

lemma history_length:
  assumes "history_ok h" and keys: "\<And>z. named_day z \<Longrightarrow> day_name z \<in> fst ` set h \<Longrightarrow> a - int n < z \<and> z \<le> a"
  shows "length h \<le> n"
proof -
  have "sorted_wrt (<) (map fst h)" using assms(1) by (simp add: history_ok_def)
  then have d: "distinct (map fst h)" by (simp add: strict_sorted_iff)
  have "set (map fst h) \<subseteq> day_name ` {a - int n <.. a}"
  proof
    fix k assume k: "k \<in> set (map fst h)"
    with assms(1) obtain z where z: "named_day z" "k = day_name z" by (auto simp: history_ok_def)
    with k keys [of z] show "k \<in> day_name ` {a - int n <.. a}" by simp
  qed
  then have "card (set (map fst h)) \<le> card (day_name ` {a - int n <.. a})" by (rule card_mono [rotated]) simp
  also have "\<dots> \<le> card {a - int n <.. a}" by (rule card_image_le) simp
  finally show ?thesis using distinct_card [OF d] by simp
qed

lemma sorted_below_last:
  assumes "sorted_wrt (<) (map fst h)" "h = [] \<or> fst (last h) \<noteq> t" "\<And>k. k \<in> fst ` set h \<Longrightarrow> k \<le> (t :: 'a::linorder)"
    and k: "k \<in> fst ` set h"
  shows "k < t"
proof (cases h rule: rev_cases)
  case (snoc h' e)
  with assms have "fst e < t" "k = fst e \<or> k < fst e" by (auto simp: sorted_wrt_append order.strict_iff_order)
  then show ?thesis by auto
qed (use k in simp)

text \<open>The days shown: in order, today's last, of the thirty days that end today.\<close>

lemma days_shown:
  assumes "history_ok (pd_history p)" "named_day (local_day now f)" "named_day (local_day now f - 29)"
  defines "c \<equiv> progress_now p now f"
  shows "history_ok (pr_days c)" "length (pr_days c) \<le> 30" "pr_days c \<noteq> []" "last (pr_days c) = (day_key now f, pr_at_midnight c)"
    "pr_at_midnight c = (case map_of (pd_history p) (day_key now f) of Some n \<Rightarrow> n | None \<Rightarrow> midnight_now p now f)"
proof -
  let ?t = "local_day now f" and ?today = "day_key now f"
  let ?first = "day_key (local_midnight now f - (HISTORY_DAYS - 1) * DAY_MS) f"
  let ?d = "filter (\<lambda>(day, _). day \<le> ?today) (inbox_days p ?first)"
  have today: "?today = day_name ?t" by (rule day_key_name)
  have first: "?first = day_name (?t - 29)" by (simp add: day_key_name local_day_back HISTORY_DAYS_def)
  have ok: "history_ok ?d" unfolding inbox_days_def by (intro history_filter assms(1))
  then have sorted: "sorted_wrt (<) (map fst ?d)" by (simp add: history_ok_def)
  have below: "k \<le> ?today" if "k \<in> fst ` set ?d" for k using that by auto
  have window: "?t - int 30 < z \<and> z \<le> ?t" if "named_day z" "day_name z \<in> fst ` set ?d" for z
  proof -
    from that(2) have "\<not> day_name z < ?first" "\<not> ?today < day_name z" by (auto simp: inbox_days_def)
    then show ?thesis
      using day_name_order(1) [OF that(1) assms(3)] day_name_order(1) [OF assms(2) that(1)] unfolding today first by simp
  qed
  have look: "map_of ?d ?today = map_of (pd_history p) ?today"
  proof -
    have "\<not> ?today < ?first" using day_name_order(1) [OF assms(2,3)] by (simp add: today first)
    then have "map_of (filter (\<lambda>(day, _). ?first \<le> day \<and> day \<le> ?today) h) ?today = map_of h ?today" for h :: "(string \<times> nat) list"
      by (induction h) auto
    then show ?thesis by (simp add: inbox_days_def case_prod_unfold conj_commute)
  qed
  have "history_ok (pr_days c) \<and> length (pr_days c) \<le> 30 \<and> pr_days c \<noteq> [] \<and> last (pr_days c) = (?today, pr_at_midnight c) \<and>
     pr_at_midnight c = (case map_of (pd_history p) ?today of Some n \<Rightarrow> n | None \<Rightarrow> midnight_now p now f)"
  proof (cases "?d \<noteq> [] \<and> fst (last ?d) = ?today")
    case True
    then have c: "pr_days c = ?d" "pr_at_midnight c = snd (last ?d)"
      by (simp_all add: c_def progress_now_def Let_def)
    have "last ?d \<in> set ?d" using True by (intro last_in_set) simp
    then have "(?today, snd (last ?d)) \<in> set ?d" using True by (metis prod.collapse)
    moreover have "distinct (map fst ?d)" using sorted by (simp add: strict_sorted_iff)
    ultimately have "map_of ?d ?today = Some (snd (last ?d))" by simp
    with look have "map_of (pd_history p) ?today = Some (snd (last ?d))" by simp
    moreover have "length ?d \<le> 30" by (rule history_length [OF ok window])
    moreover have "last ?d = (?today, snd (last ?d))" using True by (simp add: prod_eq_iff)
    ultimately show ?thesis using True ok c by simp
  next
    case False
    then have c: "pr_days c = ?d @ [(?today, midnight_now p now f)]" "pr_at_midnight c = midnight_now p now f"
      by (auto simp: c_def progress_now_def Let_def)
    have less: "k < ?today" if "k \<in> fst ` set ?d" for k
      using sorted_below_last [OF sorted _ below that] False by blast
    have ok': "history_ok (pr_days c)" unfolding c(1)
    proof (subst (2) today, rule history_snoc [OF ok assms(2)])
      show "k < day_name ?t" if "k \<in> fst ` set ?d" for k using less [OF that] by (simp only: today)
    qed
    have "length (pr_days c) \<le> 30"
      by (rule history_length [OF ok', of ?t]) (use window assms(2) day_name_order(2) in \<open>auto simp: c today\<close>)
    moreover have "?today \<notin> fst ` set ?d" using less by blast
    then have "map_of ?d ?today = None" by (simp add: map_of_eq_None_iff)
    ultimately show ?thesis using ok' c look by simp
  qed
  then show "history_ok (pr_days c)" "length (pr_days c) \<le> 30" "pr_days c \<noteq> []" "last (pr_days c) = (?today, pr_at_midnight c)"
    "pr_at_midnight c = (case map_of (pd_history p) ?today of Some n \<Rightarrow> n | None \<Rightarrow> midnight_now p now f)" by auto
qed


section \<open>The baseline and the percentage\<close>

lemma parse_show_nat: "n < 2 ^ 63 \<Longrightarrow> parse_i64 (show_nat n) = Some (int n)"
  using parse_i64_show_int [of "int n"] by (simp add: show_int_def in_i64_def)

lemma baseline_keys: "BASELINE_KEY \<noteq> BASELINE_AT_KEY" by (simp add: BASELINE_KEY_def BASELINE_AT_KEY_def)

lemma set_baseline:
  assumes "n < 2 ^ 63" "in_i64 at"
  shows "baseline (snd (set_baseline_once p n at)) = Some (case baseline p of Some b \<Rightarrow> b | None \<Rightarrow> (n, at))"
    "fst (set_baseline_once p n at) \<longleftrightarrow> baseline p = None"
    "pd_history (snd (set_baseline_once p n at)) = pd_history p" "pd_account (snd (set_baseline_once p n at)) = pd_account p"
  using assms baseline_keys
  by (auto simp: set_baseline_once_def baseline_def parse_show_nat parse_i64_show_int split: option.splits)

lemma raise_baseline_to:
  assumes "n < 2 ^ 63" "baseline p = Some (b, at)"
  shows "baseline (snd (raise_baseline p n)) = Some (max b n, at)"
    "pd_history (snd (raise_baseline p n)) = pd_history p" "pd_account (snd (raise_baseline p n)) = pd_account p"
  using assms baseline_keys
  by (auto simp: raise_baseline_def max_def baseline_def parse_show_nat split: option.splits if_splits)

lemma percent_range: "percent c \<le> 100" "percent c = 100 \<longleftrightarrow> pr_now c = 0"
proof -
  have part: "(b - n) * 100 div b < 100" if "n < b" "n \<noteq> 0" for b n :: nat
    using that by (simp add: div_less_iff_less_mult diff_mult_distrib)
  have "percent c < 100" if n: "pr_now c \<noteq> 0"
  proof (cases "pr_baseline c")
    case (Some b)
    with n part [of "pr_now c" b] show ?thesis by (auto simp: percent_def)
  qed (use n in \<open>simp add: percent_def\<close>)
  then show "percent c \<le> 100" "percent c = 100 \<longleftrightarrow> pr_now c = 0"
    by (cases "pr_now c = 0"; simp add: percent_def)+
qed

lemma record_today_runs:
  assumes "history_ok (pd_history p)" "named_day (local_day now f)" "\<not> inbox_filling (pd_account p)"
  defines "p1 \<equiv> snd (record_today p now f)"
  shows "history_ok (pd_history p1)" "pd_account p1 = pd_account p" "pd_meta p1 = pd_meta p"
    "map_of (pd_history p1) = (map_of (pd_history p))(day_key now f \<mapsto>
       (case map_of (pd_history p) (day_key now f) of Some n \<Rightarrow> n | None \<Rightarrow> midnight_now p now f))"
  using assms
  by (auto simp: record_today_def today_recorded_def record_inbox_day_def history_insert day_key_name btree_insert_lookup fun_eq_iff
      split: option.splits)

text \<open>
  The Inbox Zero card. Showing it while the Inbox fills records nothing. Otherwise it records today's count
  at midnight if the day has none, keeping every count recorded before, today's too, and the baseline becomes the
  greater of what it was and the Inbox of now, or the Inbox of now at the first time; so it is never lowered. The
  percentage is at most 100, and 100 exactly for an empty Inbox. At most 30 days are shown, each once and in order,
  the last of them today with the count at midnight that the card works with, the first record of the day if there
  is one. This holds of tables whose days are dates in order, which stay so.
\<close>

theorem the_card_keeps_its_records:
  assumes ok: "history_ok (pd_history p)" and days: "named_day (local_day now f)" "named_day (local_day now f - 29)"
    and fits: "inbox_count p < 2 ^ 63" "in_i64 now"
  shows "\<exists>c p'. progress_at p now f = (c, p') \<and> pd_account p' = pd_account p \<and> history_ok (pd_history p') \<and>
    (if inbox_filling (pd_account p) then p' = p
     else map_of (pd_history p') = (map_of (pd_history p))(day_key now f \<mapsto>
            (case map_of (pd_history p) (day_key now f) of Some n \<Rightarrow> n | None \<Rightarrow> midnight_now p now f)) \<and>
          baseline p' = Some (case baseline p of Some (b, at) \<Rightarrow> (max b (inbox_count p), at) | None \<Rightarrow> (inbox_count p, now)) \<and>
          baseline p' = Some (cpr_baseline c, snd (the (baseline p')))) \<and>
    cpr_now c = inbox_count p \<and> cpr_percent c \<le> 100 \<and> (cpr_percent c = 100 \<longleftrightarrow> inbox_count p = 0) \<and>
    sorted_wrt (<) (map fst (cpr_days c)) \<and> length (cpr_days c) \<le> 30 \<and>
    cpr_days c \<noteq> [] \<and> last (cpr_days c) = (day_key now f, cpr_at_midnight c) \<and>
    cpr_at_midnight c = (case map_of (pd_history p) (day_key now f) of Some n \<Rightarrow> n | None \<Rightarrow> midnight_now p now f)"
proof -
  define p1 where "p1 = progress_records p now f"
  define c where "c = progress_now p1 now f"
  have count: "inbox_count q = inbox_count p" and mid: "midnight_now q now f = midnight_now p now f"
    if "pd_account q = pd_account p" for q
    using that by (simp_all add: midnight_now_def inbox_count_def received_since_def)
  have card: "\<exists>k. progress_at p now f = (k, p1) \<and> cpr_baseline k = (case pr_baseline c of Some b \<Rightarrow> b | None \<Rightarrow> pr_now c) \<and>
      cpr_percent k = percent c \<and> cpr_at_midnight k = pr_at_midnight c \<and> cpr_now k = pr_now c \<and> cpr_days k = pr_days c"
    unfolding c_def p1_def progress_at_def Let_def by simp
  have now: "pr_now c = inbox_count p1" "pr_baseline c = map_option fst (baseline p1)"
    by (simp_all add: c_def progress_now_def Let_def split: prod.splits if_splits)
  have p1: "pd_account p1 = pd_account p \<and> history_ok (pd_history p1) \<and>
    (if inbox_filling (pd_account p) then p1 = p
     else map_of (pd_history p1) = (map_of (pd_history p))(day_key now f \<mapsto>
            (case map_of (pd_history p) (day_key now f) of Some n \<Rightarrow> n | None \<Rightarrow> midnight_now p now f)) \<and>
          baseline p1 = Some (case baseline p of Some (b, at) \<Rightarrow> (max b (inbox_count p), at) | None \<Rightarrow> (inbox_count p, now)))"
  proof (cases "inbox_filling (pd_account p)")
    case False
    define r where "r = snd (record_today p now f)"
    note r = record_today_runs [OF ok days(1) False, folded r_def]
    have base: "baseline r = baseline p" by (simp add: baseline_def r(3))
    have n: "inbox_count r < 2 ^ 63" using fits(1) count [OF r(2)] by simp
    define s where "s = snd (set_baseline_once r (inbox_count r) now)"
    note s = set_baseline [OF n fits(2), of r, folded s_def]
    have run: "p1 = (if baseline p = None then s else snd (raise_baseline s (inbox_count r)))"
      using False s(2) base unfolding p1_def progress_records_def r_def s_def Let_def
      by (auto simp: case_prod_unfold)
    show ?thesis
    proof (cases "baseline p")
      case None
      with False r s run base count [OF r(2)] show ?thesis by simp
    next
      case (Some b)
      obtain n0 at where b: "b = (n0, at)" by (cases b)
      with s(1) Some base have "baseline s = Some (n0, at)" by simp
      note up = raise_baseline_to [OF n this]
      from False Some b r s run up count [OF r(2)] show ?thesis by simp
    qed
  qed (use ok in \<open>simp add: p1_def progress_records_def\<close>)
  then have ok1: "history_ok (pd_history p1)" and acc: "pd_account p1 = pd_account p" by simp_all
  note shown = days_shown [OF ok1 days, folded c_def]
  have "pr_at_midnight c = (case map_of (pd_history p) (day_key now f) of Some n \<Rightarrow> n | None \<Rightarrow> midnight_now p now f)"
    using shown(5) p1 mid [OF acc] by (auto split: if_splits option.splits)
  moreover have "sorted_wrt (<) (map fst (pr_days c))" using shown(1) by (simp add: history_ok_def)
  ultimately show ?thesis
    using card p1 now shown(2,3,4) count [OF acc] percent_range [of c] by (auto split: option.splits if_splits)
qed


definition sample_progress :: progress_db where
  "sample_progress = \<lparr>pd_account = new_account_db\<lparr>db_mail := cleanup_store\<rparr>, pd_history = [(''2026-10-07'', 5)],
     pd_meta = [BASELINE_KEY \<mapsto> ''1'', BASELINE_AT_KEY \<mapsto> ''5'']\<rparr>"

theorem the_card_keeps_its_records_witness:
  "\<exists>c p'. progress_at sample_progress 1791460800000 7200 = (c, p') \<and> baseline p' = Some (3, 5) \<and>
     map_of (pd_history p') ''2026-10-08'' = Some (midnight_now sample_progress 1791460800000 7200) \<and>
     map_of (pd_history p') ''2026-10-07'' = Some 5"
proof -
  let ?now = "1791460800000 :: int" and ?f = "7200 :: int"
  have day: "local_day ?now ?f = 20734" by code_simp
  have key: "day_key ?now ?f = ''2026-10-08''" by code_simp
  have named: "named_day 20734" "named_day (20734 - 29)" "named_day 20733" by code_simp+
  have "day_name 20733 = ''2026-10-07''" by code_simp
  then have ok: "history_ok (pd_history sample_progress)"
    using named(3) by (auto simp: history_ok_def sample_progress_def)
  have n: "inbox_count sample_progress = 3" by code_simp
  have b: "baseline sample_progress = Some (1, 5)" by code_simp
  have fill: "\<not> inbox_filling (pd_account sample_progress)" by code_simp
  have look: "map_of (pd_history sample_progress) ''2026-10-07'' = Some 5" "map_of (pd_history sample_progress) ''2026-10-08'' = None"
    by (simp_all add: sample_progress_def)
  have in64: "in_i64 ?now" by code_simp
  from the_card_keeps_its_records [OF ok, of ?now ?f, unfolded day key n b, OF named(1,2) _ in64] fill look
  show ?thesis by auto
qed


end
