(* ===== verification/Limit.thy ===== *)
theory Limit
  imports Complex_Main Addresses Numbers "HOL-Library.AList"
begin

text \<open>
  The limits of the rules server (\<^verbatim>\<open>rules-server/src/limit.rs\<close>): token buckets, and the key by which a client's
  requests are counted. Tokens and seconds are rationals, where the source has \<^verbatim>\<open>f64\<close> and \<^verbatim>\<open>Duration\<close>: the rounding of
  both is not modelled. A header value is the string of its bytes.
\<close>

unbundle bit_operations_syntax

section \<open>Token buckets\<close>

definition PRUNE_AT :: nat where "PRUNE_AT = 10000"

record bucket =
  bk_tokens :: rat
  bk_last :: rat

record rate_limiter =
  rl_per_minute :: nat
  rl_buckets :: "(string \<times> bucket) list"

definition rate_limiter_new :: "nat \<Rightarrow> rate_limiter" where
  "rate_limiter_new per_minute = \<lparr>rl_per_minute = per_minute, rl_buckets = []\<rparr>"

text \<open>\<^verbatim>\<open>duration_since\<close> is zero for an instant that is still to come.\<close>

definition bucket_filled :: "rat \<Rightarrow> rat \<Rightarrow> bucket \<Rightarrow> rat" where
  "bucket_filled per_second now b = bk_tokens b + max 0 (now - bk_last b) * per_second"

definition limit_bucket :: "string \<Rightarrow> bool \<Rightarrow> rat \<Rightarrow> rate_limiter \<Rightarrow> (rat, unit) result \<times> rate_limiter" where
  "limit_bucket key taking now rl =
     (if rl_per_minute rl = 0 then (Ok (), rl)
      else
        (let capacity = of_nat (rl_per_minute rl);
             per_second = capacity / 60;
             buckets = (if PRUNE_AT < length (rl_buckets rl)
                        then filter (\<lambda>(_, b). bucket_filled per_second now b < capacity) (rl_buckets rl)
                        else rl_buckets rl);
             b = (case map_of buckets key of Some b \<Rightarrow> b | None \<Rightarrow> \<lparr>bk_tokens = capacity, bk_last = now\<rparr>);
             tokens = min (bucket_filled per_second now b) capacity
         in if 1 \<le> tokens
            then (Ok (), rl\<lparr>rl_buckets := AList.update key
                    \<lparr>bk_tokens = (if taking then tokens - 1 else tokens), bk_last = now\<rparr> buckets\<rparr>)
            else (Err ((1 - tokens) / per_second),
                  rl\<lparr>rl_buckets := AList.update key \<lparr>bk_tokens = tokens, bk_last = now\<rparr> buckets\<rparr>)))"

definition limit_take :: "string \<Rightarrow> rat \<Rightarrow> rate_limiter \<Rightarrow> (rat, unit) result \<times> rate_limiter" where
  "limit_take key now rl = limit_bucket key True now rl"

definition limit_peek :: "string \<Rightarrow> rat \<Rightarrow> rate_limiter \<Rightarrow> (rat, unit) result \<times> rate_limiter" where
  "limit_peek key now rl = limit_bucket key False now rl"

section \<open>Networks\<close>

record cidr =
  ci_net :: ip_addr
  ci_prefix :: nat

text \<open>\<^verbatim>\<open>str::parse::<u8>\<close>: digits after an optional plus sign.\<close>

definition parse_u8 :: "string \<Rightarrow> nat option" where
  "parse_u8 s =
     (case parse_digits (case s of CHR ''+'' # cs \<Rightarrow> cs | _ \<Rightarrow> s) of
        Some n \<Rightarrow> if n \<le> 255 then Some n else None | None \<Rightarrow> None)"

fun is_v4 :: "ip_addr \<Rightarrow> bool" where
  "is_v4 (V4 _ _ _ _) = True"
| "is_v4 (V6 _ _ _ _ _ _ _ _) = False"

datatype cidr_error = NotAnAddress string | BadPrefix string

definition parse_cidr :: "string \<Rightarrow> (cidr_error, cidr) result" where
  "parse_cidr s0 =
     (let s = trim s0;
          (addr, prefix) = (case split_once (CHR ''/'') s of Some (a, p) \<Rightarrow> (a, Some p) | None \<Rightarrow> (s, None))
      in case parse_ip addr of
           None \<Rightarrow> Err (NotAnAddress s)
         | Some net \<Rightarrow>
             (let m = (if is_v4 net then 32 else 128)
              in case prefix of
                   None \<Rightarrow> Ok \<lparr>ci_net = net, ci_prefix = m\<rparr>
                 | Some p \<Rightarrow>
                     (case parse_u8 p of
                        Some n \<Rightarrow> if n \<le> m then Ok \<lparr>ci_net = net, ci_prefix = n\<rparr> else Err (BadPrefix s)
                      | None \<Rightarrow> Err (BadPrefix s))))"

definition segment_octets :: "16 word \<Rightarrow> 8 word list" where
  "segment_octets s = [ucast (drop_bit 8 s), ucast s]"

fun octets :: "ip_addr \<Rightarrow> 8 word list" where
  "octets (V4 a b c d) = [a, b, c, d]"
| "octets (V6 s0 s1 s2 s3 s4 s5 s6 s7) = concat (map segment_octets [s0, s1, s2, s3, s4, s5, s6, s7])"

text \<open>Both lists hold at least as many octets as the prefix needs.\<close>

definition prefix_eq :: "8 word list \<Rightarrow> 8 word list \<Rightarrow> nat \<Rightarrow> bool" where
  "prefix_eq a b bits =
     (let whole = bits div 8; rest = bits mod 8
      in if take whole a \<noteq> take whole b then False
         else rest = 0 \<or> drop_bit (8 - rest) (a ! whole XOR b ! whole) = 0)"

fun canonical :: "ip_addr \<Rightarrow> ip_addr" where
  "canonical (V4 a b c d) = V4 a b c d"
| "canonical (V6 s0 s1 s2 s3 s4 s5 s6 s7) =
     (if s0 = 0 \<and> s1 = 0 \<and> s2 = 0 \<and> s3 = 0 \<and> s4 = 0 \<and> s5 = 0xffff
      then V4 (ucast (drop_bit 8 s6)) (ucast s6) (ucast (drop_bit 8 s7)) (ucast s7)
      else V6 s0 s1 s2 s3 s4 s5 s6 s7)"

definition cidr_contains :: "cidr \<Rightarrow> ip_addr \<Rightarrow> bool" where
  "cidr_contains c ip0 =
     (let ip = canonical ip0
      in is_v4 (ci_net c) = is_v4 ip \<and> prefix_eq (octets (ci_net c)) (octets ip) (ci_prefix c))"

fun collect_ok :: "('e, 'a) result list \<Rightarrow> ('e, 'a list) result" where
  "collect_ok [] = Ok []"
| "collect_ok (Inl e # rs) = Err e"
| "collect_ok (Inr x # rs) = map_sum id (\<lambda>xs. x # xs) (collect_ok rs)"

definition parse_trusted :: "string list \<Rightarrow> (cidr_error, cidr list) result" where
  "parse_trusted ls =
     collect_ok (map parse_cidr (filter (\<lambda>s. trim s \<noteq> []) (concat (map (split_on (\<lambda>c. c = CHR '','' \<or> c = CHR '' '')) ls))))"

section \<open>The key of a client\<close>

text \<open>\<^verbatim>\<open>HeaderValue::to_str\<close>: visible ASCII and tabs only.\<close>

definition header_str :: "string \<Rightarrow> string option" where
  "header_str v = (if list_all (\<lambda>c. let n = (of_char c :: nat) in 32 \<le> n \<and> n < 127 \<or> n = 9) v then Some v else None)"

definition forwarded :: "string list \<Rightarrow> ip_addr option list" where
  "forwarded values =
     map (\<lambda>a. map_option canonical (parse_ip (trim a)))
       (concat (map (split_on (\<lambda>c. c = CHR '','')) (List.map_filter header_str values)))"

definition is_trusted :: "cidr list \<Rightarrow> ip_addr \<Rightarrow> bool" where
  "is_trusted trusted ip = list_ex (\<lambda>c. cidr_contains c ip) trusted"

fun nearest :: "cidr list \<Rightarrow> ip_addr \<Rightarrow> ip_addr option list \<Rightarrow> ip_addr" where
  "nearest trusted client [] = client"
| "nearest trusted client (None # ips) = client"
| "nearest trusted client (Some ip # ips) = (if is_trusted trusted ip then nearest trusted ip ips else ip)"

definition show_hex :: "16 word \<Rightarrow> string" where
  "show_hex w =
     (let ds = map (\<lambda>i. unat (drop_bit i w AND 15)) [12, 8, 4, 0];
          ds' = (case dropWhile (\<lambda>d. d = 0) ds of [] \<Rightarrow> [0] | d # rest \<Rightarrow> d # rest)
      in map (\<lambda>d. if d < 10 then char_of (48 + d) else char_of (87 + d)) ds')"

fun address_key :: "ip_addr \<Rightarrow> string" where
  "address_key (V4 a b c d) = join_with ''.'' (map (\<lambda>x. show_nat (unat x)) [a, b, c, d])"
| "address_key (V6 s0 s1 s2 s3 s4 s5 s6 s7) = join_with '':'' (map show_hex [s0, s1, s2, s3]) @ ''::/64''"

definition client_of :: "ip_addr \<Rightarrow> string list \<Rightarrow> cidr list \<Rightarrow> ip_addr" where
  "client_of peer0 values trusted =
     (let peer = canonical peer0
      in if is_trusted trusted peer then nearest trusted peer (rev (forwarded values)) else peer)"

definition client_key :: "ip_addr option \<Rightarrow> string list \<Rightarrow> cidr list \<Rightarrow> string" where
  "client_key peer values trusted =
     (case peer of None \<Rightarrow> ''unknown'' | Some p \<Rightarrow> address_key (client_of p values trusted))"

section \<open>The level of a bucket\<close>

definition capacity :: "rate_limiter \<Rightarrow> rat" where "capacity rl = of_nat (rl_per_minute rl)"

text \<open>The tokens a key has at a moment, whether its bucket is kept or not.\<close>

definition level :: "rate_limiter \<Rightarrow> string \<Rightarrow> rat \<Rightarrow> rat" where
  "level rl key now =
     (case map_of (rl_buckets rl) key of
        None \<Rightarrow> capacity rl
      | Some b \<Rightarrow> min (bucket_filled (capacity rl / 60) now b) (capacity rl))"

definition limiter_ok :: "rate_limiter \<Rightarrow> rat \<Rightarrow> bool" where
  "limiter_ok rl now \<longleftrightarrow> distinct (map fst (rl_buckets rl)) \<and> 0 < rl_per_minute rl \<and>
     (\<forall>(k, b) \<in> set (rl_buckets rl). 0 \<le> bk_tokens b \<and> bk_last b \<le> now)"

lemma limiter_ok_later: "limiter_ok rl now \<Longrightarrow> now \<le> t \<Longrightarrow> limiter_ok rl t"
  by (fastforce simp: limiter_ok_def)

lemma capacity_ge1: "limiter_ok rl now \<Longrightarrow> 1 \<le> capacity rl"
  by (simp add: limiter_ok_def capacity_def)

lemma level_range:
  assumes "limiter_ok rl now"
  shows "0 \<le> level rl key now" "level rl key now \<le> capacity rl"
proof -
  have c: "0 \<le> capacity rl" using capacity_ge1 [OF assms] by simp
  show "level rl key now \<le> capacity rl" by (simp add: level_def split: option.splits)
  have "0 \<le> bucket_filled (capacity rl / 60) now b" if "map_of (rl_buckets rl) key = Some b" for b
    using assms map_of_SomeD [OF that] c by (fastforce simp: limiter_ok_def bucket_filled_def)
  with c show "0 \<le> level rl key now" by (simp add: level_def split: option.splits)
qed

lemma filled_later:
  assumes "bk_last b \<le> now" "now \<le> t"
  shows "bucket_filled r t b = bucket_filled r now b + (t - now) * r"
  using assms by (simp add: bucket_filled_def algebra_simps)

text \<open>Dropping the full buckets changes no level, now or later.\<close>

lemma prune_levels:
  assumes ok: "limiter_ok rl now" and t: "now \<le> t"
  defines "rl' \<equiv> rl\<lparr>rl_buckets := filter (\<lambda>(_, b). bucket_filled (capacity rl / 60) now b < capacity rl) (rl_buckets rl)\<rparr>"
  shows "limiter_ok rl' now" "capacity rl' = capacity rl" "level rl' key t = level rl key t"
proof -
  have d: "distinct (map fst (rl_buckets rl))" using ok by (simp add: limiter_ok_def)
  then show "limiter_ok rl' now"
    using ok by (auto simp: limiter_ok_def rl'_def distinct_map intro: inj_on_subset)
  show cap: "capacity rl' = capacity rl" by (simp add: capacity_def rl'_def)
  have c: "0 \<le> capacity rl" using capacity_ge1 [OF ok] by simp
  show "level rl' key t = level rl key t"
  proof (cases "map_of (rl_buckets rl) key")
    case None
    then have "map_of (rl_buckets rl') key = None" by (auto simp: rl'_def map_of_eq_None_iff)
    with None cap show ?thesis by (simp add: level_def)
  next
    case (Some b)
    have b: "(key, b) \<in> set (rl_buckets rl)" using Some by (rule map_of_SomeD)
    show ?thesis
    proof (cases "bucket_filled (capacity rl / 60) now b < capacity rl")
      case True
      have "distinct (map fst (rl_buckets rl'))" using \<open>limiter_ok rl' now\<close> by (simp add: limiter_ok_def)
      with True b have "map_of (rl_buckets rl') key = Some b" by (simp add: rl'_def)
      with Some cap show ?thesis by (simp add: level_def)
    next
      case False
      have "b' = b" if "(key, b') \<in> set (rl_buckets rl)" for b' using d b that by (metis eq_key_imp_eq_value)
      with False have "map_of (rl_buckets rl') key = None" by (auto simp: rl'_def map_of_eq_None_iff)
      moreover have "capacity rl \<le> bucket_filled (capacity rl / 60) t b"
      proof -
        have "bk_last b \<le> now" using ok b by (auto simp: limiter_ok_def)
        from filled_later [OF this t, of "capacity rl / 60"] have
          "bucket_filled (capacity rl / 60) now b \<le> bucket_filled (capacity rl / 60) t b" using t c by simp
        with False show ?thesis by simp
      qed
      ultimately show ?thesis using Some cap by (simp add: level_def min_def)
    qed
  qed
qed

definition pruned :: "rat \<Rightarrow> rate_limiter \<Rightarrow> rate_limiter" where
  "pruned now rl =
     (if PRUNE_AT < length (rl_buckets rl)
      then rl\<lparr>rl_buckets := filter (\<lambda>(_, b). bucket_filled (capacity rl / 60) now b < capacity rl) (rl_buckets rl)\<rparr> else rl)"

lemma pruned_levels:
  assumes "limiter_ok rl now" "now \<le> t"
  shows "limiter_ok (pruned now rl) now" "capacity (pruned now rl) = capacity rl" "level (pruned now rl) key t = level rl key t"
    "rl_per_minute (pruned now rl) = rl_per_minute rl"
  using prune_levels [OF assms] assms(1) by (simp_all add: pruned_def)

text \<open>What a request does is a function of its key's level, and only that level changes.\<close>

lemma limit_bucket_level:
  fixes key :: string
  assumes ok: "limiter_ok rl now"
  defines "l \<equiv> level rl key now"
  shows "\<exists>rl'. limit_bucket key taking now rl = (if 1 \<le> l then Ok () else Err ((1 - l) / (capacity rl / 60)), rl') \<and>
    limiter_ok rl' now \<and> capacity rl' = capacity rl \<and>
    (\<forall>k t. now \<le> t \<longrightarrow> level rl' k t =
       (if k = key then min ((if 1 \<le> l \<and> taking then l - 1 else l) + (t - now) * (capacity rl / 60)) (capacity rl) else level rl k t))"
proof -
  let ?p = "pruned now rl" and ?c = "capacity rl"
  note p = pruned_levels [OF ok]
  define b where "b = (case map_of (rl_buckets ?p) key of Some b \<Rightarrow> b | None \<Rightarrow> \<lparr>bk_tokens = ?c, bk_last = now\<rparr>)"
  have l: "min (bucket_filled (?c / 60) now b) ?c = l"
    using p(3) [OF order_refl, of key] p(2) [OF order_refl]
    by (auto simp: l_def level_def b_def bucket_filled_def split: option.splits)
  define n where "n = (if 1 \<le> l \<and> taking then l - 1 else l)"
  define rl' where "rl' = rl\<lparr>rl_buckets := AList.update key \<lparr>bk_tokens = n, bk_last = now\<rparr> (rl_buckets ?p)\<rparr>"
  have pos: "rl_per_minute rl \<noteq> 0" using ok by (simp add: limiter_ok_def)
  have buckets: "(if PRUNE_AT < length (rl_buckets rl)
      then filter (\<lambda>(_, b). bucket_filled (?c / 60) now b < ?c) (rl_buckets rl) else rl_buckets rl) = rl_buckets ?p"
    by (simp add: pruned_def)
  have run: "limit_bucket key taking now rl = (if 1 \<le> l then Ok () else Err ((1 - l) / (?c / 60)), rl')"
    using pos unfolding limit_bucket_def Let_def buckets [unfolded capacity_def] b_def [unfolded capacity_def, symmetric]
      l [unfolded capacity_def]
    by (auto simp: rl'_def n_def capacity_def)
  have "0 \<le> n" using level_range(1) [OF ok, of key] by (simp add: n_def l_def)
  moreover have "set (AList.update key c xs) \<subseteq> insert (key, c) (set xs)" for c and xs :: "(string \<times> bucket) list"
    by (induction xs) auto
  ultimately have ok': "limiter_ok rl' now"
    using p(1) [OF order_refl] ok unfolding limiter_ok_def rl'_def
    by (fastforce simp: distinct_update)
  have cap': "capacity rl' = ?c" by (simp add: rl'_def capacity_def)
  have look: "map_of (rl_buckets rl') k = (if k = key then Some \<lparr>bk_tokens = n, bk_last = now\<rparr> else map_of (rl_buckets ?p) k)" for k
    by (simp add: rl'_def update_conv')
  have "level rl' k t = (if k = key then min (n + (t - now) * (?c / 60)) ?c else level rl k t)" if t: "now \<le> t" for k t
  proof (cases "k = key")
    case True
    then show ?thesis using t by (simp add: level_def cap' look bucket_filled_def)
  next
    case False
    then have "level rl' k t = level ?p k t" unfolding level_def cap' look p(2) [OF t] by (simp only: if_False)
    with False p(3) [OF t] show ?thesis by simp
  qed
  with run ok' cap' show ?thesis unfolding n_def by blast
qed


section \<open>Runs\<close>

text \<open>A request: its key, whether it takes or peeks, and when.\<close>

type_synonym request = "string \<times> bool \<times> rat"

fun limit_run :: "request list \<Rightarrow> rate_limiter \<Rightarrow> (rat, unit) result list \<times> rate_limiter" where
  "limit_run [] rl = ([], rl)"
| "limit_run ((key, taking, now) # rs) rl =
     (let (r, rl1) = limit_bucket key taking now rl; (rest, rl2) = limit_run rs rl1 in (r # rest, rl2))"

definition taken :: "string \<Rightarrow> request list \<Rightarrow> (rat, unit) result list \<Rightarrow> nat" where
  "taken key rs answers =
     length (filter (\<lambda>((k, taking, now), r). k = key \<and> taking \<and> r = Ok ()) (zip rs answers))"

text \<open>Requests between two moments, in the order of time.\<close>

definition timed :: "rat \<Rightarrow> request list \<Rightarrow> rat \<Rightarrow> bool" where
  "timed start rs stop \<longleftrightarrow> sorted (start # map (\<lambda>(_, _, now). now) rs @ [stop])"

lemma timed_Nil [simp]: "timed start [] stop \<longleftrightarrow> start \<le> stop"
  by (simp add: timed_def)

lemma timed_Cons: "timed start ((k, b, now) # rs) stop \<longleftrightarrow> start \<le> now \<and> timed now rs stop"
  by (auto simp: timed_def)

lemma level_grows:
  assumes "limiter_ok rl now" "now \<le> t"
  shows "level rl key t = min (level rl key now + (t - now) * (capacity rl / 60)) (capacity rl)"
proof -
  have c: "0 \<le> capacity rl" using capacity_ge1 [OF assms(1)] by simp
  then have g: "0 \<le> (t - now) * (capacity rl / 60)" using assms(2) by simp
  have "bucket_filled (capacity rl / 60) t b = bucket_filled (capacity rl / 60) now b + (t - now) * (capacity rl / 60)"
    if "map_of (rl_buckets rl) key = Some b" for b
    using assms map_of_SomeD [OF that] by (intro filled_later) (auto simp: limiter_ok_def)
  with g show ?thesis by (auto simp: level_def min_def split: option.splits)
qed

lemma run_takes:
  assumes "limiter_ok rl start" "timed start rs stop" "limit_run rs rl = (answers, rl')"
  shows "limiter_ok rl' stop \<and> capacity rl' = capacity rl \<and>
    of_nat (taken key rs answers) + level rl' key stop \<le> level rl key start + (stop - start) * (capacity rl / 60)"
  using assms
proof (induction rs arbitrary: rl start answers rl')
  case Nil
  then have "rl' = rl" "answers = []" "start \<le> stop" by simp_all
  moreover from level_grows [OF Nil.prems(1) this(3), of key] have
    "level rl key stop \<le> level rl key start + (stop - start) * (capacity rl / 60)" by simp
  ultimately show ?case using limiter_ok_later [OF Nil.prems(1)] by (simp add: taken_def)
next
  case (Cons r rs)
  obtain k b now where r: "r = (k, b, now)" by (cases r)
  with Cons.prems have t: "start \<le> now" "timed now rs stop" by (simp_all add: timed_Cons)
  have ok: "limiter_ok rl now" by (rule limiter_ok_later [OF Cons.prems(1) t(1)])
  let ?l = "level rl k now" and ?c = "capacity rl / 60"
  from limit_bucket_level [OF ok, of k b] obtain rl1 where
    s: "limit_bucket k b now rl = (if 1 \<le> ?l then Ok () else Err ((1 - ?l) / ?c), rl1)" "limiter_ok rl1 now"
      "capacity rl1 = capacity rl"
      "\<And>j u. now \<le> u \<Longrightarrow> level rl1 j u =
         (if j = k then min ((if 1 \<le> ?l \<and> b then ?l - 1 else ?l) + (u - now) * ?c) (capacity rl) else level rl j u)"
    by blast
  obtain rest where a: "answers = (if 1 \<le> ?l then Ok () else Err ((1 - ?l) / ?c)) # rest" "limit_run rs rl1 = (rest, rl')"
    using Cons.prems(3) s(1) r by (auto simp: Let_def split: prod.splits)
  from Cons.IH [OF s(2) t(2) a(2)] have IH: "limiter_ok rl' stop" "capacity rl' = capacity rl"
    "of_nat (taken key rs rest) + level rl' key stop \<le> level rl1 key now + (stop - now) * ?c"
    using s(3) by simp_all
  have here: "of_nat (if k = key \<and> b \<and> 1 \<le> ?l then 1 else 0 :: nat) + level rl1 key now \<le> level rl key now"
    using s(4) [OF order_refl, of key] level_range [OF ok] by (cases "k = key") (auto simp: min_def)
  have count: "taken key (r # rs) answers = (if k = key \<and> b \<and> 1 \<le> ?l then 1 else 0) + taken key rs rest"
    by (cases "k = key") (auto simp: taken_def r a(1))
  have "level rl key now \<le> level rl key start + (now - start) * ?c"
    using level_grows [OF Cons.prems(1) t(1), of key] by simp
  moreover have "(stop - start) * ?c = (now - start) * ?c + (stop - now) * ?c"
    unfolding distrib_right [symmetric] by simp
  ultimately show ?case using IH here unfolding count of_nat_add by linarith
qed

text \<open>
  Claim C33: The rate limiter. From any state it can be in, in any stretch of time and whatever other clients do
  meanwhile, the requests it grants one key are at most its allowance of a minute plus what that allowance gives for
  the length of the stretch; dropping full buckets when there are many changes nothing in this.
\<close>

theorem no_client_takes_more_than_its_allowance:
  assumes "limiter_ok rl start" "timed start rs stop" "limit_run rs rl = (answers, rl')"
  shows "limiter_ok rl' stop \<and> rat_of_nat (taken key rs answers) \<le> of_nat (rl_per_minute rl) * (1 + (stop - start) / 60)"
proof -
  from run_takes [OF assms, of key] have r: "limiter_ok rl' stop" "capacity rl' = capacity rl"
    "rat_of_nat (taken key rs answers) + level rl' key stop \<le> level rl key start + (stop - start) * (capacity rl / 60)" by simp_all
  have "level rl key start \<le> capacity rl" by (rule level_range(2) [OF assms(1)])
  with r level_range(1) [OF r(1), of key] have
    "rat_of_nat (taken key rs answers) \<le> capacity rl + (stop - start) * (capacity rl / 60)" by linarith
  also have "\<dots> = capacity rl * (1 + (stop - start) / 60)" by (simp add: algebra_simps)
  finally show ?thesis using r(1) by (simp add: capacity_def)
qed

text \<open>The requests of others leave a key's level to time alone.\<close>

lemma others_leave_level:
  assumes "limiter_ok rl start" "timed start rs stop" "limit_run rs rl = (answers, rl')"
    and "\<forall>(k, b, t) \<in> set rs. k \<noteq> key"
  shows "limiter_ok rl' stop \<and> capacity rl' = capacity rl \<and> level rl' key stop = level rl key stop"
  using assms
proof (induction rs arbitrary: rl start answers rl')
  case (Cons r rs)
  obtain k b now where r: "r = (k, b, now)" by (cases r)
  with Cons.prems have t: "start \<le> now" "timed now rs stop" "k \<noteq> key" by (auto simp add: timed_Cons)
  have ok: "limiter_ok rl now" by (rule limiter_ok_later [OF Cons.prems(1) t(1)])
  have stop: "now \<le> stop" using t(2) by (simp add: timed_def)
  from limit_bucket_level [OF ok, of k b] obtain res rl1 where
    s: "limit_bucket k b now rl = (res, rl1)" "limiter_ok rl1 now" "capacity rl1 = capacity rl" "level rl1 key stop = level rl key stop"
    using t(3) stop by (metis (no_types, lifting))
  obtain rest where a: "limit_run rs rl1 = (rest, rl')"
    using Cons.prems(3) s(1) r by (auto simp: Let_def split: prod.splits)
  from Cons.IH [OF s(2) t(2) a] Cons.prems(4) s(3,4) show ?case by simp
qed (auto intro: limiter_ok_later)

text \<open>
  The wait that a refused client is told is right. If it asks again once that time has passed, it is granted
  its request, whatever requests of other clients came in between; and the time is never zero or negative.
\<close>

theorem waiting_as_told_is_enough:
  assumes ok: "limiter_ok rl now" and refused: "limit_take key now rl = (Err wait, rl1)"
    and between: "timed now rs again" "\<forall>(k, b, t) \<in> set rs. k \<noteq> key" "limit_run rs rl1 = (answers, rl2)"
    and waited: "now + wait \<le> again"
  shows "0 < wait \<and> fst (limit_take key again rl2) = Ok ()"
proof -
  let ?l = "level rl key now" and ?r = "capacity rl / 60"
  have c: "1 \<le> capacity rl" by (rule capacity_ge1 [OF ok])
  from limit_bucket_level [OF ok, of key True] obtain rl' where
    s: "limit_bucket key True now rl = (if 1 \<le> ?l then Ok () else Err ((1 - ?l) / ?r), rl')" "limiter_ok rl' now"
      "capacity rl' = capacity rl"
      "\<And>u. now \<le> u \<Longrightarrow> level rl' key u = min ((if 1 \<le> ?l then ?l - 1 else ?l) + (u - now) * ?r) (capacity rl)"
    by (metis (no_types, lifting))
  with refused have l: "?l < 1" "wait = (1 - ?l) / ?r" "rl1 = rl'" by (auto simp: limit_take_def split: if_splits)
  have wait: "0 < wait" using l c by simp
  have stop: "now \<le> again" using between(1) by (simp add: timed_def)
  from others_leave_level [OF s(2) between(1) between(3) [unfolded l(3)] between(2)] have
    rl2: "limiter_ok rl2 again" "capacity rl2 = capacity rl" "level rl2 key again = level rl' key again"
    using s(3) by simp_all
  have "1 - ?l = wait * ?r" using l(2) c by simp
  also have "\<dots> \<le> (again - now) * ?r" using waited c by (intro mult_right_mono) auto
  finally have "1 \<le> level rl' key again" using s(4) [OF stop] l(1) c by simp
  with rl2(3) limit_bucket_level [OF rl2(1), of key True] wait show ?thesis by (auto simp: limit_take_def)
qed


section \<open>Networks are leading bits\<close>

definition octet_bits :: "8 word \<Rightarrow> bool list" where "octet_bits w = map (\<lambda>i. bit w i) [7, 6, 5, 4, 3, 2, 1, 0]"

definition bits_of :: "8 word list \<Rightarrow> bool list" where "bits_of ws = concat (map octet_bits ws)"

lemma octet_bits_eq: "octet_bits a = octet_bits b \<longleftrightarrow> a = b"
proof
  assume eq: "octet_bits a = octet_bits b"
  show "a = b"
  proof (rule bit_word_eqI)
    fix n :: nat assume "n < LENGTH(8)"
    then have "n \<in> {0, 1, 2, 3, 4, 5, 6, 7}" by auto
    with eq show "bit a n = bit b n" by (auto simp: octet_bits_def)
  qed
qed simp

lemma length_octet_bits [simp]: "length (octet_bits w) = 8" by (simp add: octet_bits_def)

lemma leading_bits:
  assumes "0 < r" "r < 8"
  shows "drop_bit (8 - r) (a XOR b) = 0 \<longleftrightarrow> take r (octet_bits a) = take r (octet_bits b)"
proof -
  have "drop_bit (8 - r) (a XOR b) = 0 \<longleftrightarrow> (\<forall>n < 8. 8 - r \<le> n \<longrightarrow> bit a n = bit b n)"
  proof
    assume zero: "drop_bit (8 - r) (a XOR b) = 0"
    show "\<forall>n < 8. 8 - r \<le> n \<longrightarrow> bit a n = bit b n"
    proof (intro allI impI)
      fix n assume n: "8 - r \<le> n"
      have "\<not> bit (drop_bit (8 - r) (a XOR b)) (n - (8 - r))" using zero by simp
      then show "bit a n = bit b n" using n unfolding bit_drop_bit_eq by (simp add: bit_xor_iff)
    qed
  next
    assume all: "\<forall>n < 8. 8 - r \<le> n \<longrightarrow> bit a n = bit b n"
    show "drop_bit (8 - r) (a XOR b) = 0"
    proof (rule bit_word_eqI)
      fix n :: nat assume "n < LENGTH(8)"
      have "bit a (8 - r + n) = bit b (8 - r + n)"
        using all bit_imp_le_length [of a "8 - r + n"] bit_imp_le_length [of b "8 - r + n"]
        by (cases "8 - r + n < 8") auto
      then show "bit (drop_bit (8 - r) (a XOR b)) n = bit (0 :: 8 word) n"
        unfolding bit_drop_bit_eq by (simp add: bit_xor_iff)
    qed
  qed
  also have "\<dots> \<longleftrightarrow> take r (octet_bits a) = take r (octet_bits b)"
  proof -
    have n: "(\<forall>n < 8. P n) \<longleftrightarrow> P 0 \<and> P 1 \<and> P 2 \<and> P 3 \<and> P 4 \<and> P 5 \<and> P 6 \<and> P (7 :: nat)" for P
      by (auto simp: eval_nat_numeral All_less_Suc)
    from assms have "r \<in> {1, 2, 3, 4, 5, 6, 7}" by auto
    then show ?thesis
      unfolding n by (elim insertE emptyE) (simp_all add: octet_bits_def numeral_eq_Suc conj_ac del: bit_0)
  qed
  finally show ?thesis .
qed

lemma prefix_eq_bits:
  "length a = length b \<Longrightarrow> n \<le> 8 * length a \<Longrightarrow> prefix_eq a b n \<longleftrightarrow> take n (bits_of a) = take n (bits_of b)"
proof (induction a b arbitrary: n rule: list_induct2)
  case Nil
  then show ?case by (simp add: prefix_eq_def)
next
  case (Cons x xs y ys)
  show ?case
  proof (cases "8 \<le> n")
    case True
    then obtain m where m: "n = 8 + m" using le_iff_add by blast
    with Cons have IH: "prefix_eq xs ys m \<longleftrightarrow> take m (bits_of xs) = take m (bits_of ys)" by simp
    have "prefix_eq (x # xs) (y # ys) n \<longleftrightarrow> x = y \<and> prefix_eq xs ys m"
      by (simp add: prefix_eq_def m Let_def)
    with IH show ?thesis by (simp add: bits_of_def m octet_bits_eq)
  next
    case False
    show ?thesis
    proof (cases "n = 0")
      case False
      with \<open>\<not> 8 \<le> n\<close> show ?thesis by (simp add: prefix_eq_def bits_of_def leading_bits [symmetric])
    qed (simp add: prefix_eq_def)
  qed
qed

lemma length_octets: "length (octets ip) = (if is_v4 ip then 4 else 16)"
  by (cases ip) (simp_all add: segment_octets_def)

text \<open>
  A trusted network that was read from the configuration holds exactly the addresses of its family (an IPv4
  address mapped into IPv6 counting as itself) whose bits start with the network's, as many of them as the prefix says.
\<close>

theorem a_network_holds_its_prefix:
  assumes "parse_cidr s = Ok c"
  shows "cidr_contains c ip \<longleftrightarrow> is_v4 (ci_net c) = is_v4 (canonical ip) \<and>
    take (ci_prefix c) (bits_of (octets (ci_net c))) = take (ci_prefix c) (bits_of (octets (canonical ip)))"
proof -
  have "ci_prefix c \<le> 8 * length (octets (ci_net c))"
    using assms by (auto simp: parse_cidr_def Let_def length_octets split: option.splits if_splits prod.splits)
  then show ?thesis
    using prefix_eq_bits [of "octets (ci_net c)" "octets (canonical ip)" "ci_prefix c"]
    by (auto simp: cidr_contains_def Let_def length_octets)
qed


section \<open>A client does not choose its key\<close>

lemma nearest_app:
  "list_all (\<lambda>h. case h of Some ip \<Rightarrow> is_trusted trusted ip | None \<Rightarrow> False) xs \<Longrightarrow> \<not> is_trusted trusted a \<Longrightarrow>
     nearest trusted p (xs @ Some a # ys) = a"
  by (induction xs arbitrary: p) (auto split: option.splits)

lemma split_on_sep: "p d \<Longrightarrow> split_on p (s @ d # t) = split_on p s @ split_on p t"
  by (induction s) (auto split: list.splits)

text \<open>A header value after each of a row of proxies has appended an address.\<close>

definition appended :: "string \<Rightarrow> string list \<Rightarrow> string" where
  "appended v ws = foldl (\<lambda>v w. v @ '', '' @ w) v ws"

definition readable :: "string \<Rightarrow> bool" where "readable v \<longleftrightarrow> header_str v \<noteq> None"

lemma readable_append [simp]: "readable (v @ w) \<longleftrightarrow> readable v \<and> readable w" "readable []" "readable (CHR '','' # w) \<longleftrightarrow> readable w"
    "readable (CHR '' '' # w) \<longleftrightarrow> readable w"
  by (auto simp: readable_def header_str_def split: if_splits)

definition hop :: "string \<Rightarrow> ip_addr option" where "hop w = map_option canonical (parse_ip (trim w))"

lemma readable_header: "readable v \<Longrightarrow> header_str v = Some v"
  by (auto simp: readable_def header_str_def split: if_splits)

lemma trim_space: "trim (CHR '' '' # w) = trim w"
  by (simp add: trim_def trim_start_def is_whitespace_def)

lemma forwarded_appended:
  assumes "readable v" "list_all (\<lambda>w. readable w \<and> CHR '','' \<notin> set w) ws"
  shows "readable (appended v ws) \<and> forwarded (vs @ [appended v ws]) = forwarded (vs @ [v]) @ map hop ws"
  using assms(2)
proof (induction ws rule: rev_induct)
  case (snoc w ws)
  let ?u = "appended v ws"
  have app: "appended v (ws @ [w]) = ?u @ CHR '','' # CHR '' '' # w" by (simp add: appended_def)
  from snoc have IH: "readable ?u" "forwarded (vs @ [?u]) = forwarded (vs @ [v]) @ map hop ws"
    and w: "readable w" "CHR '','' \<notin> set w" by simp_all
  have "split_on (\<lambda>c. c = CHR '','') (?u @ CHR '','' # CHR '' '' # w) = split_on (\<lambda>c. c = CHR '','') ?u @ [CHR '' '' # w]"
    using w(2) split_on_no_sep [of "CHR '' '' # w" "\<lambda>c. c = CHR '',''"] by (auto simp: split_on_sep)
  with IH w show ?case
    by (simp add: app forwarded_def map_filter_def readable_header hop_def trim_space)
qed (use assms(1) in \<open>simp add: appended_def\<close>)

text \<open>
  Claim C34: Behind trusted proxies a client does not choose the key it is counted by, as long as what it sends is text.
  Each proxy appends the address it was asked from to the client's last \<^verbatim>\<open>X-Forwarded-For\<close>; when the first of those
  addresses is not trusted and the others are, the key is that of the first, whatever the client put into its
  headers. When the peer is no trusted proxy the key is the peer's, whatever the headers are.
\<close>

theorem a_text_header_does_not_choose_the_key:
  "(\<not> is_trusted trusted (canonical peer) \<longrightarrow> client_key (Some peer) values trusted = address_key (canonical peer)) \<and>
   (is_trusted trusted (canonical peer) \<and> readable v \<and> list_all (\<lambda>w. readable w \<and> CHR '','' \<notin> set w) (w # ws) \<and>
    hop w = Some a \<and> \<not> is_trusted trusted a \<and>
    list_all (\<lambda>w. case hop w of Some ip \<Rightarrow> is_trusted trusted ip | None \<Rightarrow> False) ws \<longrightarrow>
    client_key (Some peer) (vs @ [appended v (w # ws)]) trusted = address_key a)"
proof (intro conjI impI)
  assume asm: "is_trusted trusted (canonical peer) \<and> readable v \<and> list_all (\<lambda>w. readable w \<and> CHR '','' \<notin> set w) (w # ws) \<and>
    hop w = Some a \<and> \<not> is_trusted trusted a \<and>
    list_all (\<lambda>w. case hop w of Some ip \<Rightarrow> is_trusted trusted ip | None \<Rightarrow> False) ws"
  then have "forwarded (vs @ [appended v (w # ws)]) = forwarded (vs @ [v]) @ map hop (w # ws)"
    using forwarded_appended [of v "w # ws" vs] by simp
  with asm have "rev (forwarded (vs @ [appended v (w # ws)])) = rev (map hop ws) @ Some a # rev (forwarded (vs @ [v]))" by simp
  moreover have "list_all (\<lambda>h. case h of Some ip \<Rightarrow> is_trusted trusted ip | None \<Rightarrow> False) (rev (map hop ws))"
    using asm by (simp add: list_all_iff)
  ultimately show "client_key (Some peer) (vs @ [appended v (w # ws)]) trusted = address_key a"
    using asm nearest_app by (simp add: client_key_def client_of_def)
qed (simp add: client_key_def client_of_def)

text \<open>
  The whole value that a proxy appended to is dropped when it holds one byte that is not visible ASCII. A client that
  sends two headers, an address of its choice and then such a byte, is counted by the address it chose.
\<close>

definition local_proxy :: "cidr list" where "local_proxy = [\<lparr>ci_net = V4 127 0 0 1, ci_prefix = 32\<rparr>]"

lemma a_byte_that_is_not_text_chooses_the_key:
  "client_key (Some (V4 127 0 0 1)) [''198.51.100.1'', [char_of (128 :: nat)] @ '', 203.0.113.9''] local_proxy = ''198.51.100.1''"
  "client_key (Some (V4 127 0 0 1)) [''198.51.100.2'', [char_of (128 :: nat)] @ '', 203.0.113.9''] local_proxy = ''198.51.100.2''"
  by code_simp+

text \<open>A network written as an IPv4 address mapped into IPv6 holds no address, since every such address counts as IPv4.\<close>

lemma a_mapped_network_is_empty:
  "\<not> cidr_contains \<lparr>ci_net = V6 0 0 0 0 0 0xffff 0xa00 0, ci_prefix = 104\<rparr> (V4 10 a b d)"
  "\<not> cidr_contains \<lparr>ci_net = V6 0 0 0 0 0 0xffff 0xa00 0, ci_prefix = 104\<rparr> (V6 0 0 0 0 0 0xffff e f)"
  by (simp_all add: cidr_contains_def)

section \<open>Samples\<close>

definition sample_requests :: "request list" where
  "sample_requests = [(''a'', True, 0), (''a'', True, 0), (''b'', True, 1), (''a'', True, 2), (''a'', True, 3)]"

theorem no_client_takes_more_than_its_allowance_witness:
  "\<exists>answers rl'. limit_run sample_requests (rate_limiter_new 3) = (answers, rl') \<and> taken ''a'' sample_requests answers = 3 \<and>
     rat_of_nat 3 \<le> of_nat 3 * (1 + (3 - 0) / 60)"
proof -
  obtain answers rl' where run: "limit_run sample_requests (rate_limiter_new 3) = (answers, rl')" by force
  have "taken ''a'' sample_requests (fst (limit_run sample_requests (rate_limiter_new 3))) = 3" by code_simp
  with run have t: "taken ''a'' sample_requests answers = 3" by simp
  have "limiter_ok (rate_limiter_new 3) 0" by (simp add: limiter_ok_def rate_limiter_new_def)
  moreover have "timed 0 sample_requests 3" by (simp add: timed_def sample_requests_def)
  ultimately have "rat_of_nat (taken ''a'' sample_requests answers) \<le> of_nat (rl_per_minute (rate_limiter_new 3)) * (1 + (3 - 0) / 60)"
    using no_client_takes_more_than_its_allowance [OF _ _ run] by blast
  with run t show ?thesis by (simp add: rate_limiter_new_def)
qed

definition spent_limiter :: rate_limiter where
  "spent_limiter = \<lparr>rl_per_minute = 1, rl_buckets = [(''a'', \<lparr>bk_tokens = 0, bk_last = 0\<rparr>)]\<rparr>"

theorem waiting_as_told_is_enough_witness:
  "\<exists>rl1 answers rl2. limit_take ''a'' 1 spent_limiter = (Err 59, rl1) \<and> limit_run [(''b'', True, 30)] rl1 = (answers, rl2) \<and>
     fst (limit_take ''a'' 60 rl2) = Ok ()"
proof -
  have ok: "limiter_ok spent_limiter 1" by (simp add: limiter_ok_def spent_limiter_def)
  have "fst (limit_take ''a'' 1 spent_limiter) = Err 59" by code_simp
  then obtain rl1 where take: "limit_take ''a'' 1 spent_limiter = (Err 59, rl1)" by (metis prod.collapse)
  obtain answers rl2 where run: "limit_run [(''b'', True, 30)] rl1 = (answers, rl2)" by (metis prod.collapse)
  have "timed 1 [(''b'', True, 30)] 60" by (simp add: timed_def)
  from waiting_as_told_is_enough [OF ok take this _ run] take run show ?thesis by auto
qed

theorem a_network_holds_its_prefix_witness:
  "\<exists>c. parse_cidr ''172.16.0.0/12'' = Ok c \<and> cidr_contains c (V4 172 31 255 1) \<and>
     take (ci_prefix c) (bits_of (octets (ci_net c))) = take (ci_prefix c) (bits_of [172, 31, 255, 1])"
proof -
  have "case parse_cidr ''172.16.0.0/12'' of Inr c \<Rightarrow> cidr_contains c (V4 172 31 255 1) | Inl e \<Rightarrow> False" by code_simp
  then obtain c where "parse_cidr ''172.16.0.0/12'' = Ok c" "cidr_contains c (V4 172 31 255 1)" by (auto split: sum.splits)
  with a_network_holds_its_prefix [of "''172.16.0.0/12''" c "V4 172 31 255 1"] show ?thesis by auto
qed

theorem a_text_header_does_not_choose_the_key_witness:
  "client_key (Some (V4 127 0 0 1)) [''6.6.6.6'', appended ''1.2.3.4'' [''203.0.113.9'', ''127.0.0.1'']] local_proxy = ''203.0.113.9''"
proof -
  have h: "hop ''203.0.113.9'' = Some (V4 203 0 113 9)" "hop ''127.0.0.1'' = Some (V4 127 0 0 1)" by code_simp+
  have t: "is_trusted local_proxy (V4 127 0 0 1)" "\<not> is_trusted local_proxy (V4 203 0 113 9)" by code_simp+
  have r: "readable ''1.2.3.4''" "readable ''203.0.113.9''" "readable ''127.0.0.1''" by code_simp+
  have "client_key (Some (V4 127 0 0 1)) ([''6.6.6.6''] @ [appended ''1.2.3.4'' [''203.0.113.9'', ''127.0.0.1'']]) local_proxy =
      address_key (V4 203 0 113 9)"
    by (rule a_text_header_does_not_choose_the_key [THEN conjunct2, rule_format]) (use h t r in simp)
  moreover have "address_key (V4 203 0 113 9) = ''203.0.113.9''" by code_simp
  ultimately show ?thesis by simp
qed


end
