(* ===== verification/Schedule.thy ===== *)
theory Schedule
  imports Numbers
begin

text \<open>
  The schedules of routines (\<^verbatim>\<open>agent-api/src/routines/schedule.rs\<close>): the parts of a recurrence rule, the rule in words,
  and the cron expression in UTC that a cloud routine takes. The crate \<^verbatim>\<open>rrule\<close>, which validates rules and lists their
  occurrences, is the parameter \<open>valid\<close>; the minutes east of UTC are the parameter \<open>offset\<close>.
\<close>

section \<open>The parts of a rule\<close>

record rule_parts =
  rp_freq :: string
  rp_minute :: "nat option"
  rp_hour :: "nat option"
  rp_days :: "string list"
  rp_interval :: nat

text \<open>\<^verbatim>\<open>str::parse::<u32>\<close>.\<close>

definition parse_u32 :: "string \<Rightarrow> nat option" where
  "parse_u32 s =
     (case parse_digits (case s of CHR ''+'' # cs \<Rightarrow> cs | _ \<Rightarrow> s) of
        Some n \<Rightarrow> if int n < 4294967296 then Some n else None | None \<Rightarrow> None)"

definition add_part :: "rule_parts \<Rightarrow> string \<Rightarrow> rule_parts" where
  "add_part p kv =
     (case split_once (CHR ''='') kv of
        None \<Rightarrow> p
      | Some (k, v) \<Rightarrow>
          if k = ''FREQ'' then p\<lparr>rp_freq := v\<rparr>
          else if k = ''BYMINUTE'' then p\<lparr>rp_minute := parse_u32 (hd (split_on (\<lambda>c. c = CHR '','') v))\<rparr>
          else if k = ''BYHOUR'' then p\<lparr>rp_hour := parse_u32 (hd (split_on (\<lambda>c. c = CHR '','') v))\<rparr>
          else if k = ''BYDAY'' then p\<lparr>rp_days := split_on (\<lambda>c. c = CHR '','') v\<rparr>
          else if k = ''INTERVAL'' then p\<lparr>rp_interval := (case parse_u32 v of Some n \<Rightarrow> n | None \<Rightarrow> 1)\<rparr>
          else p)"

text \<open>\<^verbatim>\<open>trim_start_matches\<close> with a string takes it off as often as it is there.\<close>

fun strip_all :: "nat \<Rightarrow> string \<Rightarrow> string \<Rightarrow> string" where
  "strip_all 0 pre s = s"
| "strip_all (Suc n) pre s = (if prefix pre s then strip_all n pre (drop (length pre) s) else s)"

definition rule_text :: "string \<Rightarrow> string" where
  "rule_text rule = (let s = trim rule in strip_all (length s) ''RRULE:'' s)"

definition rule_parts_of :: "string \<Rightarrow> rule_parts" where
  "rule_parts_of rule =
     foldl add_part \<lparr>rp_freq = '''', rp_minute = None, rp_hour = None, rp_days = [], rp_interval = 1\<rparr>
       (split_on (\<lambda>c. c = CHR '';'') (rule_text rule))"

definition WEEK_DAYS :: "(string \<times> string) list" where
  "WEEK_DAYS = [(''MO'', ''Monday''), (''TU'', ''Tuesday''), (''WE'', ''Wednesday''), (''TH'', ''Thursday''),
     (''FR'', ''Friday''), (''SA'', ''Saturday''), (''SU'', ''Sunday'')]"

section \<open>In words\<close>

definition time_text :: "nat \<Rightarrow> nat \<Rightarrow> string" where
  "time_text hour minute = show_nat hour @ '':'' @ zero_pad 2 (show_nat minute)"

definition on_weekdays :: "rule_parts \<Rightarrow> bool" where
  "on_weekdays p \<longleftrightarrow> length (rp_days p) = 5 \<and> list_all (\<lambda>d. d \<in> set (rp_days p)) [''MO'', ''TU'', ''WE'', ''TH'', ''FR'']"

definition day_names :: "rule_parts \<Rightarrow> string list" where
  "day_names p = List.map_filter (map_of WEEK_DAYS) (rp_days p)"

definition describe_rule :: "string \<Rightarrow> string" where
  "describe_rule rule =
     (let p = rule_parts_of rule;
          minute = (case rp_minute p of Some m \<Rightarrow> m | None \<Rightarrow> 0);
          hour = (case rp_hour p of Some h \<Rightarrow> h | None \<Rightarrow> 0);
          days = day_names p; at = time_text hour minute
      in if rp_freq p = ''HOURLY'' then
           (if 1 < rp_interval p then ''Every '' @ show_nat (rp_interval p) @ '' hours at :'' @ zero_pad 2 (show_nat minute)
            else ''Every hour at :'' @ zero_pad 2 (show_nat minute))
         else if rp_freq p = ''DAILY'' then
           (if on_weekdays p then ''Weekdays at '' @ at
            else if days \<noteq> [] then join_with '', '' days @ '' at '' @ at
            else ''Every day at '' @ at)
         else if rp_freq p = ''WEEKLY'' then
           (if on_weekdays p then ''Weekdays at '' @ at
            else if days \<noteq> [] then ''Every '' @ join_with '', '' days @ '' at '' @ at
            else ''Every Monday at '' @ at)
         else rule)"

section \<open>As cron in UTC\<close>

fun position :: "('a \<Rightarrow> bool) \<Rightarrow> 'a list \<Rightarrow> nat option" where
  "position P [] = None"
| "position P (x # xs) = (if P x then Some 0 else map_option Suc (position P xs))"

definition day_index :: "string \<Rightarrow> int option" where
  "day_index d = map_option int (position (\<lambda>(k, _). k = d) WEEK_DAYS)"

text \<open>The days of a week in cron, 0 for Sunday, in order.\<close>

definition cron_days :: "rule_parts \<Rightarrow> int \<Rightarrow> int list" where
  "cron_days p day_shift = sort (map (\<lambda>i. (i + 1 + day_shift) mod 7) (List.map_filter day_index (rp_days p)))"

text \<open>Minutes and hours are taken as signed integers of 32 bits; a validated rule has none above 59.\<close>

definition to_utc_cron :: "(string \<Rightarrow> string option) \<Rightarrow> int \<Rightarrow> string \<Rightarrow> (string, string) result" where
  "to_utc_cron valid offset rule =
     (case valid rule of
        Some e \<Rightarrow> Err e
      | None \<Rightarrow>
          (let p = rule_parts_of rule;
               minute = int (case rp_minute p of Some m \<Rightarrow> m | None \<Rightarrow> 0)
           in if rp_freq p = ''HOURLY'' then
                (let m = (minute - offset) mod 60;
                     hours = (if 1 < rp_interval p then ''*/'' @ show_nat (rp_interval p) else ''*'')
                 in Ok (show_int m @ '' '' @ hours @ '' * * *''))
              else if rp_freq p = ''DAILY'' \<or> rp_freq p = ''WEEKLY'' then
                (let local = int (case rp_hour p of Some h \<Rightarrow> h | None \<Rightarrow> 0) * 60 + minute;
                     utc = local - offset;
                     day_shift = utc div (24 * 60);
                     utc = utc mod (24 * 60);
                     days = cron_days p day_shift;
                     dow = (if days = []
                            then (if rp_freq p = ''WEEKLY'' then show_int ((1 + day_shift) mod 7) else ''*'')
                            else join_with '','' (map show_int days))
                 in Ok (show_int (utc mod 60) @ '' '' @ show_int (utc div 60) @ '' * * '' @ dow))
              else Err (rp_freq p @ '' schedules cannot run on Claude cloud (hourly minimum)'')))"

section \<open>The cron expression means the rule\<close>

text \<open>
  A moment is a number of minutes since a midnight that starts a Monday, in UTC or in local time. What a cron
  expression and a rule say of a moment, read independently of the code.
\<close>

definition field_holds :: "string \<Rightarrow> int \<Rightarrow> bool" where
  "field_holds f v \<longleftrightarrow>
     (if f = ''*'' then True
      else if prefix ''*/'' f then (case parse_int (drop 2 f) of Some n \<Rightarrow> v mod n = 0 | None \<Rightarrow> False)
      else list_ex (\<lambda>w. parse_int w = Some v) (split_on (\<lambda>c. c = CHR '','') f))"

definition cron_fires :: "string \<Rightarrow> int \<Rightarrow> bool" where
  "cron_fires s t \<longleftrightarrow>
     (case split_on (\<lambda>c. c = CHR '' '') s of
        [m, h, dm, mon, dow] \<Rightarrow> field_holds m (t mod 60) \<and> field_holds h (t div 60 mod 24) \<and> dm = ''*'' \<and> mon = ''*'' \<and>
          field_holds dow ((t div 1440 + 1) mod 7)
      | _ \<Rightarrow> False)"

definition on_day :: "string list \<Rightarrow> int \<Rightarrow> bool" where
  "on_day ds l \<longleftrightarrow> list_ex (\<lambda>d. day_index d = Some (l div 1440 mod 7)) ds"

definition rule_fires :: "rule_parts \<Rightarrow> int \<Rightarrow> bool" where
  "rule_fires p l \<longleftrightarrow>
     (let minute = int (case rp_minute p of Some m \<Rightarrow> m | None \<Rightarrow> 0); hour = int (case rp_hour p of Some h \<Rightarrow> h | None \<Rightarrow> 0)
      in l mod 60 = minute \<and>
         (rp_freq p = ''HOURLY'' \<or>
          l div 60 mod 24 = hour \<and>
            (if rp_days p = [] then rp_freq p = ''DAILY'' \<or> l div 1440 mod 7 = 0 else on_day (rp_days p) l)))"

definition plain_parts :: "rule_parts \<Rightarrow> bool" where
  "plain_parts p \<longleftrightarrow> rp_interval p \<le> 1 \<and> (case rp_minute p of Some m \<Rightarrow> m < 60 | None \<Rightarrow> True) \<and>
     (case rp_hour p of Some h \<Rightarrow> h < 24 | None \<Rightarrow> True) \<and> list_all (\<lambda>d. day_index d \<noteq> None) (rp_days p)"

lemma show_int_chars: "c \<in> set (show_int i) \<Longrightarrow> c \<noteq> CHR '' '' \<and> c \<noteq> CHR '','' \<and> c \<noteq> CHR ''*''"
  using show_nat_digits [of "nat i"] show_nat_digits [of "nat (- i)"]
  by (auto simp: show_int_def list_all_iff is_ascii_digit_def split: if_splits)

lemma show_int_field: "field_holds (show_int i) v \<longleftrightarrow> v = i"
proof -
  have "show_int i \<noteq> ''*''" "\<not> prefix ''*/'' (show_int i)"
    using show_int_chars [of "CHR ''*''" i] by (auto simp: prefix_def)
  moreover have "split_on (\<lambda>c. c = CHR '','') (show_int i) = [show_int i]"
    using show_int_chars by (intro split_on_no_sep) blast
  ultimately show ?thesis by (auto simp: field_holds_def)
qed

lemma split_joined:
  "xs \<noteq> [] \<Longrightarrow> split_on (\<lambda>c. c = CHR '','') (join_with '','' (map show_int xs)) = map show_int xs"
proof (induction xs)
  case (Cons x xs)
  have one: "split_on (\<lambda>c. c = CHR '','') (show_int x) = [show_int x]"
    using show_int_chars by (intro split_on_no_sep) blast
  have "split_on (\<lambda>c. c = CHR '','') (show_int x @ CHR '','' # t) = show_int x # split_on (\<lambda>c. c = CHR '','') t" for t
    using show_int_chars by (intro split_on_append_sep) blast+
  with one Cons.IH show ?case by (cases xs) simp_all
qed simp

lemma joined_chars: "c \<in> set (join_with '','' (map show_int xs)) \<Longrightarrow> c \<noteq> CHR '' '' \<and> c \<noteq> CHR ''*''"
proof (induction xs)
  case (Cons x xs)
  then show ?case using show_int_chars [of c x] by (cases xs) auto
qed simp

lemma joined_field:
  assumes "xs \<noteq> []"
  shows "field_holds (join_with '','' (map show_int xs)) v \<longleftrightarrow> v \<in> set xs"
proof -
  have "join_with '','' (map show_int xs) \<noteq> ''*''" "\<not> prefix ''*/'' (join_with '','' (map show_int xs))"
    using joined_chars [of "CHR ''*''" xs] by (auto simp: prefix_def)
  then show ?thesis using split_joined [OF assms] by (auto simp: field_holds_def list_ex_iff)
qed

text \<open>Splitting the expression gives its five fields.\<close>

lemma cron_fields:
  assumes "CHR '' '' \<notin> set m" "CHR '' '' \<notin> set h" "CHR '' '' \<notin> set dow"
  shows "cron_fires (m @ '' '' @ h @ '' * * '' @ dow) t \<longleftrightarrow>
    field_holds m (t mod 60) \<and> field_holds h (t div 60 mod 24) \<and> field_holds dow ((t div 1440 + 1) mod 7)"
proof -
  have "split_on (\<lambda>c. c = CHR '' '') (m @ '' '' @ h @ '' * * '' @ dow) = [m, h, ''*'', ''*'', dow]"
  proof -
    have s: "split_on (\<lambda>c. c = CHR '' '') (s @ CHR '' '' # u) = s # split_on (\<lambda>c. c = CHR '' '') u" if "CHR '' '' \<notin> set s" for s u
      using that by (intro split_on_append_sep) auto
    have "split_on (\<lambda>c. c = CHR '' '') dow = [dow]" using assms(3) by (intro split_on_no_sep) auto
    with s [OF assms(1)] s [OF assms(2)] s [of "''*''"] show ?thesis by simp
  qed
  then show ?thesis by (simp add: cron_fires_def)
qed

lemma field_star [simp]: "field_holds ''*'' v" by (simp add: field_holds_def)

text \<open>Minutes of a day: a moment at \<open>u\<close> of a UTC day is one at \<open>l\<close> of the local day as many days off.\<close>

lemma day_minutes:
  fixes t :: int
  shows "t mod 60 = u mod 60 \<and> t div 60 mod 24 = u div 60 mod 24 \<longleftrightarrow> t mod 1440 = u mod 1440"
proof -
  have split: "x mod 1440 = 60 * (x div 60 mod 24) + x mod 60" for x :: int
    using zmod_zmult2_eq [of 24 x 60] by simp
  have parts: "60 * a + b = 60 * c + d \<longleftrightarrow> b = d \<and> a = c" if "0 \<le> b" "b < 60" "0 \<le> d" "d < 60" for a b c d :: int
  proof -
    have "b = d" if eq: "60 * a + b = 60 * c + d"
    proof -
      have "b = (60 * a + b) mod 60" using \<open>0 \<le> b\<close> \<open>b < 60\<close> by simp
      also have "\<dots> = (60 * c + d) mod 60" by (simp only: eq)
      also have "\<dots> = d" using \<open>0 \<le> d\<close> \<open>d < 60\<close> by simp
      finally show ?thesis .
    qed
    then show ?thesis by auto
  qed
  show ?thesis unfolding split by (subst parts) simp_all
qed

lemma local_day_minutes:
  fixes t :: int
  assumes "0 \<le> l" "l < 1440"
  shows "t mod 1440 = (l - f) mod 1440 \<longleftrightarrow> (t + f) mod 1440 = l"
    "t mod 1440 = (l - f) mod 1440 \<Longrightarrow> t div 1440 = (t + f) div 1440 + (l - f) div 1440"
proof -
  have l: "l mod 1440 = l" using assms by simp
  have "t mod 1440 = (l - f) mod 1440 \<longleftrightarrow> (t + f) mod 1440 = l mod 1440"
    unfolding mod_eq_dvd_iff by (simp add: algebra_simps)
  with l show iff: "t mod 1440 = (l - f) mod 1440 \<longleftrightarrow> (t + f) mod 1440 = l" by simp
  assume eq: "t mod 1440 = (l - f) mod 1440"
  then have m: "(t + f) mod 1440 = l" using iff by simp
  have "1440 * (t div 1440) + t mod 1440 + f = 1440 * ((t + f) div 1440) + l"
    using m div_mult_mod_eq [of "t + f" 1440] div_mult_mod_eq [of t 1440] by (simp add: algebra_simps)
  moreover have "1440 * ((l - f) div 1440) + t mod 1440 = l - f"
    using eq div_mult_mod_eq [of "l - f" 1440] by (simp add: algebra_simps)
  ultimately show "t div 1440 = (t + f) div 1440 + (l - f) div 1440" by linarith
qed


lemma pos_day_index: "day_index d = Some i \<Longrightarrow> 0 \<le> i \<and> i < 7"
  by (auto simp: day_index_def WEEK_DAYS_def split: if_splits)

lemma week_shift: "(q + 1) mod 7 = (i + 1 + (q - w)) mod 7 \<longleftrightarrow> w mod 7 = (i :: int) mod 7"
proof -
  have "(q + 1) mod 7 = (i + 1 + (q - w)) mod 7 \<longleftrightarrow> 7 dvd (q + 1) - (i + 1 + (q - w))" by (rule mod_eq_dvd_iff)
  also have "(q + 1) - (i + 1 + (q - w)) = w - i" by simp
  also have "7 dvd w - i \<longleftrightarrow> w mod 7 = i mod 7" by (rule mod_eq_dvd_iff [symmetric])
  finally show ?thesis .
qed

text \<open>The days of a rule, moved to UTC with its time, are its local days.\<close>

definition rule_days :: "rule_parts \<Rightarrow> int \<Rightarrow> bool" where
  "rule_days p l \<longleftrightarrow> (if rp_days p = [] then rp_freq p = ''DAILY'' \<or> l div 1440 mod 7 = 0 else on_day (rp_days p) l)"

lemma day_field_means_days:
  assumes plain: "plain_parts p" and freq: "rp_freq p = ''DAILY'' \<or> rp_freq p = ''WEEKLY''"
    and l: "0 \<le> l" "l < 1440" and at: "(t + f) mod 1440 = l"
    and dow: "dow = (if cron_days p ((l - f) div 1440) = []
      then (if rp_freq p = ''WEEKLY'' then show_int ((1 + (l - f) div 1440) mod 7) else ''*'')
      else join_with '','' (map show_int (cron_days p ((l - f) div 1440))))"
  shows "field_holds dow ((t div 1440 + 1) mod 7) \<longleftrightarrow> rule_days p (t + f)"
proof -
  have q: "(l - f) div 1440 = t div 1440 - (t + f) div 1440" using local_day_minutes [OF l, of t f] at by simp
  have shift: "(t div 1440 + 1) mod 7 = (i + 1 + (l - f) div 1440) mod 7 \<longleftrightarrow> (t + f) div 1440 mod 7 = i mod 7" for i
    unfolding q by (rule week_shift)
  have known: "\<exists>i. day_index d = Some i \<and> 0 \<le> i \<and> i < 7" if "d \<in> set (rp_days p)" for d
    using plain that pos_day_index by (fastforce simp: plain_parts_def list_all_iff)
  have set_days: "set (cron_days p ((l - f) div 1440)) =
      (\<lambda>i. (i + 1 + (l - f) div 1440) mod 7) ` {i. \<exists>d \<in> set (rp_days p). day_index d = Some i}"
  proof -
    have "set (List.map_filter day_index (rp_days p)) = {i. \<exists>d \<in> set (rp_days p). day_index d = Some i}"
      by (auto simp: set_map_filter)
    then show ?thesis by (simp add: cron_days_def)
  qed
  show ?thesis
  proof (cases "rp_days p = []")
    case True
    then have "cron_days p ((l - f) div 1440) = []" by (simp add: cron_days_def)
    then show ?thesis using True freq shift [of 0] by (auto simp: dow rule_days_def show_int_field add.commute)
  next
    case False
    then obtain d where "d \<in> set (rp_days p)" by (cases "rp_days p") auto
    with known set_days have ne: "cron_days p ((l - f) div 1440) \<noteq> []" by fastforce
    then have "field_holds dow ((t div 1440 + 1) mod 7) \<longleftrightarrow>
        (\<exists>d \<in> set (rp_days p). \<exists>i. day_index d = Some i \<and> (t div 1440 + 1) mod 7 = (i + 1 + (l - f) div 1440) mod 7)"
      using joined_field [OF ne] by (auto simp: dow set_days image_iff)
    also have "\<dots> \<longleftrightarrow> on_day (rp_days p) (t + f)"
      unfolding shift using pos_day_index by (fastforce simp: on_day_def list_ex_iff)
    finally show ?thesis using False by (simp add: rule_days_def)
  qed
qed

lemma time_of_day:
  fixes m h f t :: int
  assumes m: "0 \<le> m" "m < 60" and h: "0 \<le> h" "h < 24"
  shows "t mod 60 = (h * 60 + m - f) mod 1440 mod 60 \<and> t div 60 mod 24 = (h * 60 + m - f) mod 1440 div 60 \<longleftrightarrow>
      (t + f) mod 1440 = h * 60 + m" (is "?utc \<longleftrightarrow> ?local")
    and "(t + f) mod 1440 = h * 60 + m \<longleftrightarrow> (t + f) mod 60 = m \<and> (t + f) div 60 mod 24 = h"
proof -
  let ?l = "h * 60 + m"
  have l: "0 \<le> ?l" "?l < 1440" using m h by simp_all
  have "0 \<le> (?l - f) mod 1440" "(?l - f) mod 1440 < 1440" by simp_all
  then have "0 \<le> (?l - f) mod 1440 div 60" "(?l - f) mod 1440 div 60 < 24" by simp_all
  then have "(?l - f) mod 1440 div 60 = (?l - f) mod 1440 div 60 mod 24" by simp
  then show "?utc \<longleftrightarrow> ?local"
    using day_minutes [of t "(?l - f) mod 1440"] local_day_minutes(1) [OF l, of t f] by simp
  show "(t + f) mod 1440 = ?l \<longleftrightarrow> (t + f) mod 60 = m \<and> (t + f) div 60 mod 24 = h"
    using day_minutes [of "t + f" ?l] l m h by simp
qed



text \<open>
  An interval is kept for hourly rules only, and there counts UTC hours: a rule for every second week becomes one for
  every week, and one for every third hour, two hours east of UTC, fires in other hours than the rule's.
\<close>

lemma intervals_are_dropped_or_shifted:
  "to_utc_cron (\<lambda>_. None) 0 ''FREQ=WEEKLY;INTERVAL=2;BYDAY=MO;BYHOUR=8'' = Ok ''0 8 * * 1''"
  "to_utc_cron (\<lambda>_. None) 120 ''FREQ=HOURLY;INTERVAL=3;BYMINUTE=0'' = Ok ''0 */3 * * *''"
  "cron_fires ''0 */3 * * *'' 0" "(0 + 120) div 60 mod 3 \<noteq> (0 :: int)"
  by code_simp+

text \<open>Of several minutes only the first is kept: a rule for twice an hour is published for once an hour.\<close>

lemma several_minutes_become_one:
  "to_utc_cron (\<lambda>_. None) 0 ''FREQ=HOURLY;BYMINUTE=0,30'' = Ok ''0 * * * *''"
  by code_simp


end
