(* ===== verification/RulesDb.thy ===== *)
theory RulesDb
  imports Numbers
begin

text \<open>
  The rules server's sign-in tables (\<^verbatim>\<open>rules-server/src/db.rs\<close>), its tokens (\<^verbatim>\<open>tokens.rs\<close>) and the keys of its agents
  (\<^verbatim>\<open>crypto.rs\<close>). Rows are in the order of their row ids. A statement that breaks a key or a reference fails, and with
  it its transaction; a database that fails otherwise is not modelled. SHA-256, base64url and the sealing of keys
  are third-party code and parameters (\<open>sign_env\<close>); what is drawn at random is an argument.
\<close>

section \<open>Tables\<close>

record rules_mailbox =
  rm_id :: int
  rm_address :: string
  rm_publisher_hash :: string
  rm_app_key :: "string option"

record agent_token_row =
  ag_id :: string
  ag_mailbox :: int
  ag_name :: string
  ag_token_hash :: string
  ag_created_at :: int
  ag_revoked_at :: "int option"
  ag_kind :: string
  ag_client_id :: "string option"
  ag_last_used_at :: "int option"
  ag_key_wrap :: "string option"
  ag_app_seal :: "string option"

record client_row =
  ro_id :: string
  ro_name :: string
  ro_redirect_uris :: "string list"
  ro_created_at :: int

record connect_code_row =
  cn_id :: string
  cn_mailbox :: int
  cn_name :: string
  cn_code_hash :: string
  cn_created_at :: int
  cn_expires_at :: int
  cn_used_at :: "int option"

record auth_code_row =
  au_code_hash :: string
  au_grant_id :: string
  au_client_id :: string
  au_redirect_uri :: string
  au_code_challenge :: string
  au_resource :: string
  au_expires_at :: int
  au_used_at :: "int option"

record oauth_token_row =
  tk_hash :: string
  tk_kind :: string
  tk_grant_id :: string
  tk_resource :: string
  tk_created_at :: int
  tk_expires_at :: int
  tk_used_at :: "int option"

text \<open>A snapshot key wrapped for an agent: the mailbox, the key's id, the agent and the wrap.\<close>

record rules_db =
  rd_mailboxes :: "rules_mailbox list"
  rd_agents :: "agent_token_row list"
  rd_clients :: "client_row list"
  rd_connect_codes :: "connect_code_row list"
  rd_codes :: "auth_code_row list"
  rd_tokens :: "oauth_token_row list"
  rd_snapshot_keys :: "(int \<times> string \<times> string \<times> string) list"

definition empty_rules_db :: rules_db where
  "empty_rules_db = \<lparr>rd_mailboxes = [], rd_agents = [], rd_clients = [], rd_connect_codes = [], rd_codes = [], rd_tokens = [],
     rd_snapshot_keys = []\<rparr>"

datatype sql_error = KeyTaken | NoReference

type_synonym 'a sql = "(sql_error, 'a) result"

definition KIND_TOKEN :: string where "KIND_TOKEN = ''token''"
definition KIND_OAUTH :: string where "KIND_OAUTH = ''oauth''"
definition TOKEN_ACCESS :: string where "TOKEN_ACCESS = ''access''"
definition TOKEN_REFRESH :: string where "TOKEN_REFRESH = ''refresh''"
definition UNUSED_CLIENT_MS :: int where "UNUSED_CLIENT_MS = 604800000"
definition SPENT_MS :: int where "SPENT_MS = 86400000"
definition LAST_USED_GRAIN_MS :: int where "LAST_USED_GRAIN_MS = 60000"

section \<open>Mailboxes\<close>

definition mailbox_by_address :: "rules_db \<Rightarrow> string \<Rightarrow> rules_mailbox option" where
  "mailbox_by_address d a = List.find (\<lambda>m. rm_address m = a) (rd_mailboxes d)"

definition insert_mailbox :: "rules_db \<Rightarrow> string \<Rightarrow> string \<Rightarrow> int option \<times> rules_db" where
  "insert_mailbox d a hash =
     (if a \<in> rm_address ` set (rd_mailboxes d) then (None, d)
      else (let i = next_rowid rm_id (rd_mailboxes d)
            in (Some i, d\<lparr>rd_mailboxes := rd_mailboxes d @
                  [\<lparr>rm_id = i, rm_address = a, rm_publisher_hash = hash, rm_app_key = None\<rparr>]\<rparr>)))"

text \<open>Deleting a mailbox deletes what refers to it, and what refers to that.\<close>

definition delete_mailbox :: "rules_db \<Rightarrow> int \<Rightarrow> bool \<times> rules_db" where
  "delete_mailbox d i =
     (let gone = ag_id ` {a \<in> set (rd_agents d). ag_mailbox a = i}
      in (i \<in> rm_id ` set (rd_mailboxes d),
          d\<lparr>rd_mailboxes := sql_delete (\<lambda>m. rm_id m = i) (rd_mailboxes d),
            rd_agents := sql_delete (\<lambda>a. ag_mailbox a = i) (rd_agents d),
            rd_connect_codes := sql_delete (\<lambda>c. cn_mailbox c = i) (rd_connect_codes d),
            rd_codes := sql_delete (\<lambda>c. au_grant_id c \<in> gone) (rd_codes d),
            rd_tokens := sql_delete (\<lambda>t. tk_grant_id t \<in> gone) (rd_tokens d),
            rd_snapshot_keys := sql_delete (\<lambda>(m, _, a, _). m = i \<or> a \<in> gone) (rd_snapshot_keys d)\<rparr>))"

definition app_key :: "rules_db \<Rightarrow> int \<Rightarrow> string option" where
  "app_key d i = (case List.find (\<lambda>m. rm_id m = i) (rd_mailboxes d) of Some m \<Rightarrow> rm_app_key m | None \<Rightarrow> None)"

definition set_app_key :: "rules_db \<Rightarrow> int \<Rightarrow> string \<Rightarrow> rules_db" where
  "set_app_key d i key =
     (if list_ex (\<lambda>m. rm_id m = i \<and> rm_app_key m \<noteq> Some key) (rd_mailboxes d)
      then d\<lparr>rd_mailboxes := sql_update (\<lambda>m. rm_id m = i) (\<lambda>m. m\<lparr>rm_app_key := Some key\<rparr>) (rd_mailboxes d),
             rd_agents := sql_update (\<lambda>a. ag_mailbox a = i) (\<lambda>a. a\<lparr>ag_app_seal := None\<rparr>) (rd_agents d)\<rparr>
      else d)"

section \<open>Agents\<close>

text \<open>An agent with the address of its mailbox.\<close>

definition agent_token :: "rules_db \<Rightarrow> string \<Rightarrow> (agent_token_row \<times> string) option" where
  "agent_token d i =
     (case List.find (\<lambda>a. ag_id a = i) (rd_agents d) of
        None \<Rightarrow> None
      | Some a \<Rightarrow> map_option (\<lambda>m. (a, rm_address m)) (List.find (\<lambda>m. rm_id m = ag_mailbox a) (rd_mailboxes d)))"

definition insert_agent_token :: "rules_db \<Rightarrow> agent_token_row \<Rightarrow> rules_db sql" where
  "insert_agent_token d a =
     (if ag_id a \<in> ag_id ` set (rd_agents d) then Err KeyTaken
      else if ag_mailbox a \<notin> rm_id ` set (rd_mailboxes d) then Err NoReference
      else Ok (d\<lparr>rd_agents := rd_agents d @ [a]\<rparr>))"

definition touch_agent :: "rules_db \<Rightarrow> string \<Rightarrow> int \<Rightarrow> rules_db" where
  "touch_agent d i now =
     d\<lparr>rd_agents := sql_update
         (\<lambda>a. ag_id a = i \<and> (case ag_last_used_at a of None \<Rightarrow> True | Some t \<Rightarrow> t \<le> now - LAST_USED_GRAIN_MS))
         (\<lambda>a. a\<lparr>ag_last_used_at := Some now\<rparr>) (rd_agents d)\<rparr>"

definition forget_grant_secrets :: "rules_db \<Rightarrow> string \<Rightarrow> rules_db" where
  "forget_grant_secrets d i =
     d\<lparr>rd_tokens := sql_delete (\<lambda>t. tk_grant_id t = i) (rd_tokens d),
       rd_codes := sql_delete (\<lambda>c. au_grant_id c = i) (rd_codes d),
       rd_agents := sql_update (\<lambda>a. ag_id a = i) (\<lambda>a. a\<lparr>ag_key_wrap := None, ag_app_seal := None\<rparr>) (rd_agents d),
       rd_snapshot_keys := sql_delete (\<lambda>(_, _, a, _). a = i) (rd_snapshot_keys d)\<rparr>"

definition mark_revoked :: "int \<Rightarrow> agent_token_row \<Rightarrow> agent_token_row" where
  "mark_revoked now a = a\<lparr>ag_revoked_at := (case ag_revoked_at a of Some t \<Rightarrow> Some t | None \<Rightarrow> Some now)\<rparr>"

definition revoke_agent_token :: "rules_db \<Rightarrow> int \<Rightarrow> string \<Rightarrow> int \<Rightarrow> bool \<times> rules_db" where
  "revoke_agent_token d mailbox i now =
     (let hit = (\<lambda>a. ag_mailbox a = mailbox \<and> ag_id a = i);
          n = sql_count hit (rd_agents d);
          d1 = d\<lparr>rd_agents := sql_update hit (mark_revoked now) (rd_agents d)\<rparr>
      in if n = 1 then (True, forget_grant_secrets d1 i) else (False, d1))"

definition revoke_grant :: "rules_db \<Rightarrow> string \<Rightarrow> int \<Rightarrow> rules_db" where
  "revoke_grant d i now =
     forget_grant_secrets (d\<lparr>rd_agents := sql_update (\<lambda>a. ag_id a = i) (mark_revoked now) (rd_agents d)\<rparr>) i"

section \<open>Clients and codes\<close>

definition insert_client :: "rules_db \<Rightarrow> client_row \<Rightarrow> rules_db sql" where
  "insert_client d c = (if ro_id c \<in> ro_id ` set (rd_clients d) then Err KeyTaken else Ok (d\<lparr>rd_clients := rd_clients d @ [c]\<rparr>))"

definition oauth_client :: "rules_db \<Rightarrow> string \<Rightarrow> client_row option" where
  "oauth_client d i = List.find (\<lambda>c. ro_id c = i) (rd_clients d)"

definition prune_expired :: "rules_db \<Rightarrow> int \<Rightarrow> rules_db" where
  "prune_expired d now =
     d\<lparr>rd_connect_codes := sql_delete (\<lambda>c. cn_expires_at c < now - SPENT_MS) (rd_connect_codes d),
       rd_codes := sql_delete (\<lambda>c. au_expires_at c < now - SPENT_MS) (rd_codes d),
       rd_tokens := sql_delete (\<lambda>t. tk_expires_at t < now - SPENT_MS) (rd_tokens d),
       rd_clients := sql_delete (\<lambda>c. ro_created_at c < now - UNUSED_CLIENT_MS \<and>
           Some (ro_id c) \<notin> ag_client_id ` set (rd_agents d)) (rd_clients d)\<rparr>"

definition insert_connect_code :: "rules_db \<Rightarrow> connect_code_row \<Rightarrow> rules_db sql" where
  "insert_connect_code d c =
     (if cn_id c \<in> cn_id ` set (rd_connect_codes d) \<or> cn_code_hash c \<in> cn_code_hash ` set (rd_connect_codes d) then Err KeyTaken
      else if cn_mailbox c \<notin> rm_id ` set (rd_mailboxes d) then Err NoReference
      else Ok (d\<lparr>rd_connect_codes := rd_connect_codes d @ [c]\<rparr>))"

definition live_connect_codes :: "rules_db \<Rightarrow> int \<Rightarrow> int \<Rightarrow> nat" where
  "live_connect_codes d mailbox now =
     sql_count (\<lambda>c. cn_mailbox c = mailbox \<and> cn_used_at c = None \<and> now < cn_expires_at c) (rd_connect_codes d)"

definition redeem_connect_code :: "rules_db \<Rightarrow> string \<Rightarrow> int \<Rightarrow> (int \<times> string) option \<times> rules_db" where
  "redeem_connect_code d hash now =
     (case List.find (\<lambda>c. cn_code_hash c = hash \<and> cn_used_at c = None \<and> now < cn_expires_at c) (rd_connect_codes d) of
        None \<Rightarrow> (None, d)
      | Some c \<Rightarrow>
          (Some (cn_mailbox c, cn_name c),
           d\<lparr>rd_connect_codes := sql_update (\<lambda>x. cn_id x = cn_id c) (\<lambda>x. x\<lparr>cn_used_at := Some now\<rparr>) (rd_connect_codes d)\<rparr>))"

definition insert_auth_code :: "rules_db \<Rightarrow> auth_code_row \<Rightarrow> rules_db sql" where
  "insert_auth_code d c =
     (if au_code_hash c \<in> au_code_hash ` set (rd_codes d) then Err KeyTaken
      else if au_grant_id c \<notin> ag_id ` set (rd_agents d) then Err NoReference
      else Ok (d\<lparr>rd_codes := rd_codes d @ [c]\<rparr>))"

definition auth_code :: "rules_db \<Rightarrow> string \<Rightarrow> auth_code_row option" where
  "auth_code d hash = List.find (\<lambda>c. au_code_hash c = hash) (rd_codes d)"

definition use_auth_code :: "rules_db \<Rightarrow> string \<Rightarrow> int \<Rightarrow> rules_db" where
  "use_auth_code d hash now =
     d\<lparr>rd_codes := sql_update (\<lambda>c. au_code_hash c = hash) (\<lambda>c. c\<lparr>au_used_at := Some now\<rparr>) (rd_codes d)\<rparr>"

definition insert_oauth_token :: "rules_db \<Rightarrow> oauth_token_row \<Rightarrow> rules_db sql" where
  "insert_oauth_token d t =
     (if tk_hash t \<in> tk_hash ` set (rd_tokens d) then Err KeyTaken
      else if tk_grant_id t \<notin> ag_id ` set (rd_agents d) then Err NoReference
      else Ok (d\<lparr>rd_tokens := rd_tokens d @ [t]\<rparr>))"

definition oauth_token :: "rules_db \<Rightarrow> string \<Rightarrow> oauth_token_row option" where
  "oauth_token d hash = List.find (\<lambda>t. tk_hash t = hash) (rd_tokens d)"

definition delete_access_tokens :: "rules_db \<Rightarrow> string \<Rightarrow> rules_db" where
  "delete_access_tokens d g = d\<lparr>rd_tokens := sql_delete (\<lambda>t. tk_grant_id t = g \<and> tk_kind t = TOKEN_ACCESS) (rd_tokens d)\<rparr>"

definition use_oauth_token :: "rules_db \<Rightarrow> string \<Rightarrow> int \<Rightarrow> rules_db" where
  "use_oauth_token d hash now =
     d\<lparr>rd_tokens := sql_update (\<lambda>t. tk_hash t = hash) (\<lambda>t. t\<lparr>tk_used_at := Some now\<rparr>) (rd_tokens d)\<rparr>"

end
