(* ===== verification/OAuth.thy ===== *)
theory OAuth
  imports RulesDb Limit
begin

text \<open>
  Signing agents in to the rules server (\<^verbatim>\<open>rules-server/src/oauth.rs\<close>, \<^verbatim>\<open>tokens.rs\<close>, \<^verbatim>\<open>crypto.rs\<close>, \<^verbatim>\<open>lib.rs\<close> and
  \<^verbatim>\<open>rest.rs\<close>): connect codes, the consent page, authorization codes, access and refresh tokens, and the check of an
  agent's token. A request's form is a map from names to values. Logging and the pages' HTML are not modelled.
\<close>

section \<open>Third-party code and chance\<close>

record web_url =
  wu_scheme :: string
  wu_host :: "string option"
  wu_path :: string
  wu_query :: "string option"
  wu_fragment :: "string option"
  wu_username :: string
  wu_password :: "string option"
  wu_origin :: string

text \<open>
  Hashing, encoding and sealing, and the URL parser. A secret opens a wrapped key for an agent or does not; sealing to
  the app's public key may fail.
\<close>

record sign_env =
  sv_sha :: "string \<Rightarrow> string"
  sv_s256 :: "string \<Rightarrow> string"
  sv_wrap :: "string \<Rightarrow> string \<Rightarrow> string \<Rightarrow> string \<Rightarrow> string"
  sv_unwrap :: "string \<Rightarrow> string \<Rightarrow> string \<Rightarrow> string option"
  sv_public :: "string \<Rightarrow> string option"
  sv_seal :: "string \<Rightarrow> string \<Rightarrow> string \<Rightarrow> string \<Rightarrow> string option"
  sv_url :: "string \<Rightarrow> web_url option"

text \<open>What one request draws at random.\<close>

record draws =
  dw_access :: string
  dw_refresh :: string
  dw_grant_secret :: string
  dw_agent_key :: string
  dw_nonce :: string
  dw_id :: string
  dw_code :: string
  dw_page :: string
  dw_csrf :: string

section \<open>Tokens\<close>

definition AGENT_PREFIX :: string where "AGENT_PREFIX = ''oagc_agt_''"
definition ACCESS_PREFIX :: string where "ACCESS_PREFIX = ''oagc_oat_''"
definition REFRESH_PREFIX :: string where "REFRESH_PREFIX = ''oagc_ort_''"
definition CONNECT_ALPHABET :: string where "CONNECT_ALPHABET = ''23456789ABCDEFGHJKMNPQRSTUVWXYZ''"
definition CONNECT_LEN :: nat where "CONNECT_LEN = 10"

definition access_token :: "draws \<Rightarrow> string \<Rightarrow> string" where
  "access_token w grant_secret = ACCESS_PREFIX @ dw_access w @ ''.'' @ grant_secret"

definition refresh_token :: "draws \<Rightarrow> string \<Rightarrow> string" where
  "refresh_token w grant_secret = REFRESH_PREFIX @ dw_refresh w @ ''.'' @ grant_secret"

definition is_ascii_alnum :: "char \<Rightarrow> bool" where
  "is_ascii_alnum c \<longleftrightarrow> (let n = (of_char c :: nat) in 48 \<le> n \<and> n \<le> 57 \<or> 65 \<le> n \<and> n \<le> 90 \<or> 97 \<le> n \<and> n \<le> 122)"

definition base64url_char :: "char \<Rightarrow> bool" where
  "base64url_char c \<longleftrightarrow> is_ascii_alnum c \<or> c = CHR ''-'' \<or> c = CHR ''_''"

definition grant_secret_of :: "string \<Rightarrow> string option" where
  "grant_secret_of token =
     (case split_once (CHR ''.'') token of
        None \<Rightarrow> None
      | Some (_, secret) \<Rightarrow> if utf8_len secret = 43 \<and> list_all base64url_char secret then Some secret else None)"

definition to_ascii_upper_char :: "char \<Rightarrow> char" where
  "to_ascii_upper_char c = (let n = (of_char c :: nat) in if 97 \<le> n \<and> n \<le> 122 then char_of (n - 32) else c)"

definition normalize_connect_code :: "string \<Rightarrow> string option" where
  "normalize_connect_code typed =
     (let code = map to_ascii_upper_char (filter (\<lambda>c. \<not> is_whitespace c \<and> c \<noteq> CHR ''-'') typed)
      in if utf8_len code = CONNECT_LEN \<and> list_all (\<lambda>c. c \<in> set CONNECT_ALPHABET) code then Some code else None)"

text \<open>A connect code of random bytes, as many as it takes; a byte that would favour a character is drawn again.\<close>

fun connect_code_of :: "nat list \<Rightarrow> string \<Rightarrow> string" where
  "connect_code_of [] out = out"
| "connect_code_of (b # bs) out =
     (let n = length CONNECT_ALPHABET
      in if CONNECT_LEN + 1 \<le> length out then out
         else if 256 div n * n \<le> b then connect_code_of bs out
         else connect_code_of bs
           ((if length out = CONNECT_LEN div 2 then out @ ''-'' else out) @ [CONNECT_ALPHABET ! (b mod n)]))"

definition valid_verifier :: "string \<Rightarrow> bool" where
  "valid_verifier v \<longleftrightarrow> 43 \<le> utf8_len v \<and> utf8_len v \<le> 128 \<and> list_all (\<lambda>c. is_ascii_alnum c \<or> c \<in> set ''-._~'') v"

definition valid_challenge :: "string \<Rightarrow> bool" where
  "valid_challenge c \<longleftrightarrow> utf8_len c = 43 \<and> list_all base64url_char c"

text \<open>The comparison that looks at every byte: the differences or-ed together.\<close>

definition same :: "string \<Rightarrow> string \<Rightarrow> bool" where
  "same a b \<longleftrightarrow> length a = length b \<and>
     fold (\<lambda>(x, y) acc. acc OR (of_char x XOR of_char y)) (zip a b) (0 :: 8 word) = 0"

definition pkce_matches :: "sign_env \<Rightarrow> string \<Rightarrow> string \<Rightarrow> bool" where
  "pkce_matches sv verifier challenge \<longleftrightarrow> valid_verifier verifier \<and> same (sv_s256 sv verifier) challenge"

definition is_hex_char :: "char \<Rightarrow> bool" where
  "is_hex_char c \<longleftrightarrow> (let n = (of_char c :: nat) in 48 \<le> n \<and> n \<le> 57 \<or> 65 \<le> n \<and> n \<le> 70 \<or> 97 \<le> n \<and> n \<le> 102)"

definition agent_token_id :: "string \<Rightarrow> string option" where
  "agent_token_id token =
     (if prefix AGENT_PREFIX token
      then (case split_once (CHR ''_'') (drop (length AGENT_PREFIX) token) of
              None \<Rightarrow> None
            | Some (i, secret) \<Rightarrow> if utf8_len i = 16 \<and> list_all is_hex_char i \<and> secret \<noteq> [] then Some i else None)
      else None)"

section \<open>Keys of agents\<close>

datatype unopened = ReplaceKey | KeepKey

definition agent_keys :: "rules_db \<Rightarrow> string \<Rightarrow> string option \<times> string option" where
  "agent_keys d i =
     (case List.find (\<lambda>a. ag_id a = i) (rd_agents d) of Some a \<Rightarrow> (ag_key_wrap a, ag_app_seal a) | None \<Rightarrow> (None, None))"

definition set_agent_keys :: "rules_db \<Rightarrow> string \<Rightarrow> string \<Rightarrow> string option \<Rightarrow> rules_db" where
  "set_agent_keys d i wrap seal =
     d\<lparr>rd_agents := sql_update (\<lambda>a. ag_id a = i \<and> ag_revoked_at a = None) (\<lambda>a. a\<lparr>ag_key_wrap := Some wrap, ag_app_seal := seal\<rparr>)
         (rd_agents d),
       rd_snapshot_keys := sql_delete (\<lambda>(_, _, a, _). a = i) (rd_snapshot_keys d)\<rparr>"

definition set_key_wrap :: "rules_db \<Rightarrow> string \<Rightarrow> string \<Rightarrow> rules_db" where
  "set_key_wrap d i wrap =
     d\<lparr>rd_agents := sql_update (\<lambda>a. ag_id a = i \<and> ag_revoked_at a = None) (\<lambda>a. a\<lparr>ag_key_wrap := Some wrap\<rparr>) (rd_agents d)\<rparr>"

definition set_app_seal :: "rules_db \<Rightarrow> string \<Rightarrow> string \<Rightarrow> rules_db" where
  "set_app_seal d i seal =
     d\<lparr>rd_agents := sql_update (\<lambda>a. ag_id a = i \<and> ag_revoked_at a = None \<and> ag_key_wrap a \<noteq> None)
         (\<lambda>a. a\<lparr>ag_app_seal := Some seal\<rparr>) (rd_agents d)\<rparr>"

definition agent_key :: "sign_env \<Rightarrow> draws \<Rightarrow> rules_db \<Rightarrow> string \<Rightarrow> int \<Rightarrow> string \<Rightarrow> unopened \<Rightarrow> string option \<times> rules_db" where
  "agent_key sv w d agent mailbox secret unopened =
     (let public = Option.bind (app_key d mailbox) (sv_public sv);
          (wrapped, sealed) = agent_keys d agent
      in case Option.bind wrapped (sv_unwrap sv secret agent) of
           Some key \<Rightarrow>
             (Some key,
              if sealed = None
              then (case Option.bind public (\<lambda>p. sv_seal sv (dw_nonce w) p key agent) of
                      Some s \<Rightarrow> set_app_seal d agent s | None \<Rightarrow> d)
              else d)
         | None \<Rightarrow>
             (if wrapped \<noteq> None \<and> unopened = KeepKey then (None, d)
              else (case public of
                      None \<Rightarrow> (None, d)
                    | Some p \<Rightarrow>
                        (let key = dw_agent_key w
                         in case sv_seal sv (dw_nonce w) p key agent of
                              None \<Rightarrow> (None, d)
                            | Some s \<Rightarrow> (Some key, set_agent_keys d agent (sv_wrap sv (dw_nonce w) secret agent key) (Some s))))))"

definition rewrap_agent_key :: "sign_env \<Rightarrow> draws \<Rightarrow> rules_db \<Rightarrow> string \<Rightarrow> string \<Rightarrow> string \<Rightarrow> bool \<times> rules_db" where
  "rewrap_agent_key sv w d agent old_secret new_secret =
     (case Option.bind (fst (agent_keys d agent)) (sv_unwrap sv old_secret agent) of
        None \<Rightarrow> (False, d)
      | Some key \<Rightarrow> (True, set_key_wrap d agent (sv_wrap sv (dw_nonce w) new_secret agent key)))"

end
