(* ===== verification/SignIn.thy ===== *)
theory SignIn
  imports OAuth
begin

text \<open>
  The requests that sign an agent in (\<^verbatim>\<open>rules-server/src/oauth.rs\<close>, \<^verbatim>\<open>rest.rs\<close>, \<^verbatim>\<open>lib.rs\<close>). What a token request comes
  to is decided in one transaction, which a statement that fails rolls back.
\<close>

section \<open>Exchanges\<close>

definition SCOPE :: string where "SCOPE = ''rules''"
definition ACCESS_TTL_MS :: int where "ACCESS_TTL_MS = 3600000"
definition REFRESH_TTL_MS :: int where "REFRESH_TTL_MS = 2592000000"
definition AUTH_CODE_TTL_MS :: int where "AUTH_CODE_TTL_MS = 120000"
definition CONNECT_CODE_TTL_MS :: int where "CONNECT_CODE_TTL_MS = 600000"
definition CONSENT_TTL_MS :: int where "CONSENT_TTL_MS = 600000"
definition TRIES_PER_CONSENT :: nat where "TRIES_PER_CONSENT = 5"
definition TRIES_PER_CLIENT :: nat where "TRIES_PER_CLIENT = 5"
definition CLIENT_LOCK_MS :: int where "CLIENT_LOCK_MS = 3600000"
definition CODES_PER_ADDRESS_PER_MINUTE :: nat where "CODES_PER_ADDRESS_PER_MINUTE = 10"
definition WRONG_CODES_PER_MINUTE :: nat where "WRONG_CODES_PER_MINUTE = 60"
definition LIVE_CODES_PER_MAILBOX :: nat where "LIVE_CODES_PER_MAILBOX = 10"
definition MAX_PENDING :: nat where "MAX_PENDING = 10000"

datatype exchange = Issued string string string | Refused string | Replayed string

text \<open>A new access and refresh token for a grant, both with the grant's secret, and the grant's key if it has none.\<close>

definition issue_tokens :: "sign_env \<Rightarrow> draws \<Rightarrow> rules_db \<Rightarrow> string \<Rightarrow> string \<Rightarrow> int \<Rightarrow> string \<Rightarrow> (string \<times> string \<times> rules_db) sql" where
  "issue_tokens sv w d grant resource now secret =
     (let access = access_token w secret; refresh = refresh_token w secret;
          d1 = (case agent_token d grant of
                  Some (g, _) \<Rightarrow> snd (agent_key sv w d grant (ag_mailbox g) secret ReplaceKey) | None \<Rightarrow> d);
          row = (\<lambda>hash kind ttl. \<lparr>tk_hash = hash, tk_kind = kind, tk_grant_id = grant, tk_resource = resource,
                   tk_created_at = now, tk_expires_at = now + ttl, tk_used_at = None\<rparr>)
      in case insert_oauth_token d1 (row (sv_sha sv access) TOKEN_ACCESS ACCESS_TTL_MS) of
           Inl e \<Rightarrow> Err e
         | Inr d2 \<Rightarrow>
             map_sum id (\<lambda>d3. (access, refresh, d3))
               (insert_oauth_token d2 (row (sv_sha sv refresh) TOKEN_REFRESH REFRESH_TTL_MS)))"

definition live_grant :: "rules_db \<Rightarrow> string \<Rightarrow> string \<Rightarrow> bool" where
  "live_grant d grant client =
     (case agent_token d grant of
        Some (g, _) \<Rightarrow> ag_kind g = KIND_OAUTH \<and> ag_revoked_at g = None \<and> ag_client_id g = Some client
      | None \<Rightarrow> False)"

definition exchange_code ::
    "sign_env \<Rightarrow> draws \<Rightarrow> string \<Rightarrow> int \<Rightarrow> string \<Rightarrow> string \<Rightarrow> string \<Rightarrow> string option \<Rightarrow> rules_db \<Rightarrow> exchange sql \<times> rules_db" where
  "exchange_code sv w resource now client code verifier redirect_uri d =
     (let hash = sv_sha sv code
      in case auth_code d hash of
           None \<Rightarrow> (Ok (Refused ''unknown code''), d)
         | Some row \<Rightarrow>
             if au_used_at row \<noteq> None then (Ok (Replayed (au_grant_id row)), revoke_grant d (au_grant_id row) now)
             else
               (let d1 = use_auth_code d hash now
                in if au_expires_at row \<le> now then (Ok (Refused ''the code expired''), d1)
                   else if au_client_id row \<noteq> client then (Ok (Refused ''the code was issued to another client''), d1)
                   else if redirect_uri \<noteq> Some (au_redirect_uri row)
                     then (Ok (Refused ''redirect_uri is not the one the code was issued for''), d1)
                   else if \<not> pkce_matches sv verifier (au_code_challenge row)
                     then (Ok (Refused ''code_verifier does not match the code_challenge''), d1)
                   else if \<not> same (au_resource row) resource \<or> \<not> live_grant d1 (au_grant_id row) client
                     then (Ok (Refused ''the grant was revoked''), d1)
                   else (case issue_tokens sv w d1 (au_grant_id row) resource now (dw_grant_secret w) of
                           Inl e \<Rightarrow> (Err e, d)
                         | Inr (access, refresh, d2) \<Rightarrow> (Ok (Issued (au_grant_id row) access refresh), d2))))"

definition exchange_refresh ::
    "sign_env \<Rightarrow> draws \<Rightarrow> string \<Rightarrow> int \<Rightarrow> string \<Rightarrow> string \<Rightarrow> rules_db \<Rightarrow> exchange sql \<times> rules_db" where
  "exchange_refresh sv w resource now client refresh d =
     (let hash = sv_sha sv refresh
      in case oauth_token d hash of
           None \<Rightarrow> (Ok (Refused ''unknown refresh token''), d)
         | Some row \<Rightarrow>
             if tk_kind row \<noteq> TOKEN_REFRESH then (Ok (Refused ''unknown refresh token''), d)
             else if tk_used_at row \<noteq> None then (Ok (Replayed (tk_grant_id row)), revoke_grant d (tk_grant_id row) now)
             else if tk_expires_at row \<le> now then (Ok (Refused ''the refresh token expired''), d)
             else if \<not> same (tk_resource row) resource \<or> \<not> live_grant d (tk_grant_id row) client
               then (Ok (Refused ''the grant was revoked or is another client's''), d)
             else
               (let d1 = delete_access_tokens (use_oauth_token d hash now) (tk_grant_id row);
                    d2 = (case grant_secret_of refresh of
                            Some s \<Rightarrow> snd (rewrap_agent_key sv w d1 (tk_grant_id row) s (dw_grant_secret w)) | None \<Rightarrow> d1)
                in case issue_tokens sv w d2 (tk_grant_id row) resource now (dw_grant_secret w) of
                     Inl e \<Rightarrow> (Err e, d)
                   | Inr (access, r, d3) \<Rightarrow> (Ok (Issued (tk_grant_id row) access r), d3)))"

section \<open>Connecting an agent\<close>

text \<open>What the consent form's code comes to: the grant, with the authorization code that will fetch its tokens.\<close>

record pending_consent =
  pn_client_id :: string
  pn_client_name :: string
  pn_redirect_uri :: string
  pn_state :: "string option"
  pn_challenge :: string
  pn_csrf_hash :: string
  pn_created_at :: int
  pn_tries :: nat

definition connect_agent ::
    "sign_env \<Rightarrow> draws \<Rightarrow> string \<Rightarrow> int \<Rightarrow> pending_consent \<Rightarrow> string \<Rightarrow> rules_db \<Rightarrow> (int \<times> string) option sql \<times> rules_db" where
  "connect_agent sv w resource now p code d =
     (case redeem_connect_code d (sv_sha sv code) now of
        (None, _) \<Rightarrow> (Ok None, d)
      | (Some (mailbox, name), d1) \<Rightarrow>
          (case insert_agent_token d1
                  \<lparr>ag_id = dw_id w, ag_mailbox = mailbox, ag_name = name, ag_token_hash = '''', ag_created_at = now,
                   ag_revoked_at = None, ag_kind = KIND_OAUTH, ag_client_id = Some (pn_client_id p), ag_last_used_at = None,
                   ag_key_wrap = None, ag_app_seal = None\<rparr> of
             Inl e \<Rightarrow> (Err e, d)
           | Inr d2 \<Rightarrow>
               (case insert_auth_code d2
                       \<lparr>au_code_hash = sv_sha sv (dw_code w), au_grant_id = dw_id w, au_client_id = pn_client_id p,
                        au_redirect_uri = pn_redirect_uri p, au_code_challenge = pn_challenge p, au_resource = resource,
                        au_expires_at = now + AUTH_CODE_TTL_MS, au_used_at = None\<rparr> of
                  Inl e \<Rightarrow> (Err e, d)
                | Inr d3 \<Rightarrow> (Ok (Some (mailbox, dw_id w)), d3))))"

text \<open>A connect code for a mailbox, as the publisher asks for it.\<close>

datatype minted = CodeMinted | TooManyCodes

definition mint_connect_code ::
    "sign_env \<Rightarrow> int \<Rightarrow> string \<Rightarrow> int \<Rightarrow> string \<Rightarrow> string \<Rightarrow> rules_db \<Rightarrow> minted sql \<times> rules_db" where
  "mint_connect_code sv now i mailbox name code d =
     (let d1 = prune_expired d now
      in if LIVE_CODES_PER_MAILBOX \<le> live_connect_codes d1 mailbox now then (Ok TooManyCodes, d1)
         else (case insert_connect_code d1
                 \<lparr>cn_id = i, cn_mailbox = mailbox, cn_name = name,
                  cn_code_hash = sv_sha sv (case normalize_connect_code code of Some c \<Rightarrow> c | None \<Rightarrow> ''''),
                  cn_created_at = now, cn_expires_at = now + CONNECT_CODE_TTL_MS, cn_used_at = None\<rparr> of
                 Inl e \<Rightarrow> (Err e, d1)
               | Inr d2 \<Rightarrow> (Ok CodeMinted, d2)))"

text \<open>A static agent token for a mailbox.\<close>

definition agent_bearer :: "draws \<Rightarrow> string" where
  "agent_bearer w = AGENT_PREFIX @ dw_id w @ ''_'' @ dw_code w"

definition mint_agent_token ::
    "sign_env \<Rightarrow> draws \<Rightarrow> int \<Rightarrow> int \<Rightarrow> string \<Rightarrow> rules_db \<Rightarrow> unit sql \<times> rules_db" where
  "mint_agent_token sv w now mailbox name d =
     (let token = agent_bearer w
      in case insert_agent_token d
                \<lparr>ag_id = dw_id w, ag_mailbox = mailbox, ag_name = name, ag_token_hash = sv_sha sv token, ag_created_at = now,
                 ag_revoked_at = None, ag_kind = KIND_TOKEN, ag_client_id = None, ag_last_used_at = None,
                 ag_key_wrap = None, ag_app_seal = None\<rparr> of
           Inl e \<Rightarrow> (Err e, d)
         | Inr d1 \<Rightarrow> (Ok (), snd (agent_key sv w d1 (dw_id w) mailbox token ReplaceKey)))"

text \<open>A new client: what has expired is dropped first.\<close>

definition register_client :: "client_row \<Rightarrow> rules_db \<Rightarrow> unit sql \<times> rules_db" where
  "register_client c d =
     (let d1 = prune_expired d (ro_created_at c)
      in case insert_client d1 c of Inl e \<Rightarrow> (Err e, d1) | Inr d2 \<Rightarrow> (Ok (), d2))"

section \<open>Checking an agent's token\<close>

text \<open>Which agent a token signs in, with its mailbox, the address and the secret it carries.\<close>

definition agent_sign_in ::
    "sign_env \<Rightarrow> string option \<Rightarrow> int \<Rightarrow> string \<Rightarrow> rules_db \<Rightarrow> (string \<times> int \<times> string \<times> string option) option" where
  "agent_sign_in sv resource now token d =
     (let presented = sv_sha sv token
      in if prefix ACCESS_PREFIX token then
           (case resource of
              None \<Rightarrow> None
            | Some r \<Rightarrow>
                (case oauth_token d presented of
                   None \<Rightarrow> None
                 | Some t \<Rightarrow>
                     (case agent_token d (tk_grant_id t) of
                        None \<Rightarrow> None
                      | Some (g, address) \<Rightarrow>
                          if tk_kind t = TOKEN_ACCESS \<and> now < tk_expires_at t \<and> ag_kind g = KIND_OAUTH \<and> ag_revoked_at g = None \<and>
                             same (tk_resource t) r
                          then Some (ag_id g, ag_mailbox g, address, grant_secret_of token) else None)))
         else
           (case agent_token_id token of
              None \<Rightarrow> None
            | Some i \<Rightarrow>
                (case agent_token d i of
                   None \<Rightarrow> None
                 | Some (g, address) \<Rightarrow>
                     if ag_kind g \<noteq> KIND_TOKEN \<or> ag_revoked_at g \<noteq> None \<or> \<not> same presented (ag_token_hash g) then None
                     else Some (i, ag_mailbox g, address, Some token))))"

text \<open>A request that is let in is noted, and opens or makes the agent's key.\<close>

record agent_auth =
  aa_token_id :: string
  aa_mailbox :: int
  aa_address :: string
  aa_key :: "string option"

definition admit_agent ::
    "sign_env \<Rightarrow> draws \<Rightarrow> string option \<Rightarrow> int \<Rightarrow> string \<Rightarrow> rules_db \<Rightarrow> agent_auth option \<times> rules_db" where
  "admit_agent sv w resource now token d =
     (case agent_sign_in sv resource now token d of
        None \<Rightarrow> (None, d)
      | Some (i, mailbox, address, secret) \<Rightarrow>
          (let d1 = touch_agent d i now;
               (key, d2) = (case secret of Some s \<Rightarrow> agent_key sv w d1 i mailbox s KeepKey | None \<Rightarrow> (None, d1))
           in (Some \<lparr>aa_token_id = i, aa_mailbox = mailbox, aa_address = address, aa_key = key\<rparr>, d2)))"

end
