(* ===== verification/Grants.thy ===== *)
theory Grants
  imports SignIn
begin

text \<open>
  The rules server as a run of requests: what agents' grants hold, which codes and tokens still work, and that a code
  or a refresh token works once.
\<close>

section \<open>Runs\<close>

datatype sign_request =
    AskMailbox string string
  | AskForget int
  | AskAppKey int string
  | AskConnectCode string int string string
  | AskAgentToken draws int string
  | AskRevoke int string
  | AskRegister client_row
  | AskConnect draws pending_consent string
  | AskCode draws string string string "string option"
  | AskRefresh draws string string
  | AskAdmit draws "string option" string

datatype sign_answer =
  Done | SqlFailed | Exchanged exchange | Connected "(int \<times> string) option" | Admitted "agent_auth option"

definition answer_of :: "('a \<Rightarrow> sign_answer) \<Rightarrow> 'a sql \<times> rules_db \<Rightarrow> sign_answer \<times> rules_db" where
  "answer_of f r = (case fst r of Inl e \<Rightarrow> SqlFailed | Inr x \<Rightarrow> f x, snd r)"

fun sign_step :: "sign_env \<Rightarrow> string \<Rightarrow> int \<times> sign_request \<Rightarrow> rules_db \<Rightarrow> sign_answer \<times> rules_db" where
  "sign_step sv res (now, AskMailbox a hash) d = (Done, snd (insert_mailbox d a hash))"
| "sign_step sv res (now, AskForget m) d = (Done, snd (delete_mailbox d m))"
| "sign_step sv res (now, AskAppKey m key) d = (Done, set_app_key d m key)"
| "sign_step sv res (now, AskConnectCode i m name code) d = answer_of (\<lambda>_. Done) (mint_connect_code sv now i m name code d)"
| "sign_step sv res (now, AskAgentToken w m name) d = answer_of (\<lambda>_. Done) (mint_agent_token sv w now m name d)"
| "sign_step sv res (now, AskRevoke m i) d = (Done, snd (revoke_agent_token d m i now))"
| "sign_step sv res (now, AskRegister c) d = answer_of (\<lambda>_. Done) (register_client c d)"
| "sign_step sv res (now, AskConnect w p code) d = answer_of Connected (connect_agent sv w res now p code d)"
| "sign_step sv res (now, AskCode w client code verifier uri) d =
     answer_of Exchanged (exchange_code sv w res now client code verifier uri d)"
| "sign_step sv res (now, AskRefresh w client refresh) d = answer_of Exchanged (exchange_refresh sv w res now client refresh d)"
| "sign_step sv res (now, AskAdmit w r token) d = (let (a, d') = admit_agent sv w r now token d in (Admitted a, d'))"

fun sign_run :: "sign_env \<Rightarrow> string \<Rightarrow> (int \<times> sign_request) list \<Rightarrow> rules_db \<Rightarrow> sign_answer list \<times> rules_db" where
  "sign_run sv res [] d = ([], d)"
| "sign_run sv res (r # rs) d =
     (let (a, d1) = sign_step sv res r d; (as, d2) = sign_run sv res rs d1 in (a # as, d2))"

section \<open>What grants hold\<close>

definition unused_refresh :: "string \<Rightarrow> oauth_token_row \<Rightarrow> bool" where
  "unused_refresh g t \<longleftrightarrow> tk_grant_id t = g \<and> tk_kind t = TOKEN_REFRESH \<and> tk_used_at t = None"

definition access_of :: "string \<Rightarrow> oauth_token_row \<Rightarrow> bool" where
  "access_of g t \<longleftrightarrow> tk_grant_id t = g \<and> tk_kind t = TOKEN_ACCESS"

definition agent_view :: "agent_token_row \<Rightarrow> string \<times> int \<times> bool" where
  "agent_view a = (ag_id a, ag_mailbox a, ag_revoked_at a \<noteq> None)"

text \<open>
  Every grant has one authorization code at most, and no token while that is unused; it has one access token and one
  unused refresh token at most, and nothing once it is revoked. References are kept and keys are distinct.
\<close>

definition held_ok :: "(string \<times> int \<times> bool) list \<Rightarrow> auth_code_row list \<Rightarrow> oauth_token_row list \<Rightarrow> bool" where
  "held_ok vs cs ts \<longleftrightarrow>
     distinct (map fst vs) \<and> distinct (map au_code_hash cs) \<and> distinct (map tk_hash ts) \<and>
     (\<forall>c \<in> set cs. \<exists>m. (au_grant_id c, m, False) \<in> set vs) \<and> (\<forall>t \<in> set ts. \<exists>m. (tk_grant_id t, m, False) \<in> set vs) \<and>
     (\<forall>g. sql_count (\<lambda>c. au_grant_id c = g) cs \<le> 1 \<and> sql_count (access_of g) ts \<le> 1 \<and> sql_count (unused_refresh g) ts \<le> 1) \<and>
     (\<forall>c \<in> set cs. au_used_at c = None \<longrightarrow> (\<forall>t \<in> set ts. tk_grant_id t \<noteq> au_grant_id c))"

definition signin_ok :: "rules_db \<Rightarrow> bool" where
  "signin_ok d \<longleftrightarrow> held_ok (map agent_view (rd_agents d)) (rd_codes d) (rd_tokens d)"

lemma held_okD:
  assumes "held_ok vs cs ts"
  shows "distinct (map fst vs)" "distinct (map au_code_hash cs)" "distinct (map tk_hash ts)"
    "c \<in> set cs \<Longrightarrow> \<exists>m. (au_grant_id c, m, False) \<in> set vs" "t \<in> set ts \<Longrightarrow> \<exists>m. (tk_grant_id t, m, False) \<in> set vs"
    "sql_count (\<lambda>c. au_grant_id c = g) cs \<le> 1" "sql_count (access_of g) ts \<le> 1" "sql_count (unused_refresh g) ts \<le> 1"
    "c \<in> set cs \<Longrightarrow> au_used_at c = None \<Longrightarrow> t \<in> set ts \<Longrightarrow> tk_grant_id t \<noteq> au_grant_id c"
  using assms by (auto simp: held_ok_def)

lemma held_okI:
  assumes "distinct (map fst vs)" "distinct (map au_code_hash cs)" "distinct (map tk_hash ts)"
    "\<And>c. c \<in> set cs \<Longrightarrow> \<exists>m. (au_grant_id c, m, False) \<in> set vs" "\<And>t. t \<in> set ts \<Longrightarrow> \<exists>m. (tk_grant_id t, m, False) \<in> set vs"
    "\<And>g. sql_count (\<lambda>c. au_grant_id c = g) cs \<le> 1" "\<And>g. sql_count (access_of g) ts \<le> 1" "\<And>g. sql_count (unused_refresh g) ts \<le> 1"
    "\<And>c t. c \<in> set cs \<Longrightarrow> au_used_at c = None \<Longrightarrow> t \<in> set ts \<Longrightarrow> tk_grant_id t \<noteq> au_grant_id c"
  shows "held_ok vs cs ts"
  using assms by (simp add: held_ok_def)

lemma sql_count_delete: "sql_count P (sql_delete Q xs) \<le> sql_count P xs"
  by (induction xs) (auto simp: sql_count_def sql_delete_def)

lemma sql_count_append: "sql_count P (xs @ ys) = sql_count P xs + sql_count P ys"
  by (simp add: sql_count_def)

lemma sql_count_none: "(\<And>x. x \<in> set xs \<Longrightarrow> \<not> P x) \<Longrightarrow> sql_count P xs = 0"
  by (simp add: sql_count_def filter_empty_conv)

lemma sql_count_zero: "sql_count P xs = 0 \<longleftrightarrow> (\<forall>x \<in> set xs. \<not> P x)"
  by (auto simp: sql_count_def filter_empty_conv)

lemma distinct_sql_delete: "distinct (map f xs) \<Longrightarrow> distinct (map f (sql_delete P xs))"
  by (simp add: sql_delete_def distinct_map_filter)

lemma held_delete:
  assumes "held_ok vs cs ts"
  shows "held_ok vs (sql_delete P cs) (sql_delete Q ts)"
proof -
  have "sql_count (\<lambda>c. au_grant_id c = g) (sql_delete P cs) \<le> 1" "sql_count (access_of g) (sql_delete Q ts) \<le> 1"
    "sql_count (unused_refresh g) (sql_delete Q ts) \<le> 1" for g
    using held_okD(6-8) [OF assms, of g] sql_count_delete order_trans by metis+
  with assms show ?thesis by (auto simp: held_ok_def distinct_sql_delete)
qed

lemma held_new_agent:
  assumes "held_ok vs cs ts" "g \<notin> fst ` set vs"
  shows "held_ok (vs @ [(g, m, False)]) cs ts"
  using assms by (auto simp: held_ok_def)

lemma held_new_static_agent: "held_ok vs cs ts \<Longrightarrow> g \<notin> fst ` set vs \<Longrightarrow> held_ok (vs @ [(g, m, r)]) cs ts"
  by (auto simp: held_ok_def)

lemma held_new_code:
  assumes ok: "held_ok vs cs ts" and "(au_grant_id c, m, False) \<in> set vs" "au_code_hash c \<notin> au_code_hash ` set cs"
    and none: "\<And>x. x \<in> set cs \<Longrightarrow> au_grant_id x \<noteq> au_grant_id c" "\<And>t. t \<in> set ts \<Longrightarrow> tk_grant_id t \<noteq> au_grant_id c"
  shows "held_ok vs (cs @ [c]) ts"
proof -
  have "sql_count (\<lambda>x. au_grant_id x = g) (cs @ [c]) \<le> 1" for g
  proof (cases "g = au_grant_id c")
    case True
    with none(1) have "sql_count (\<lambda>x. au_grant_id x = g) cs = 0" by (auto simp: sql_count_zero)
    then show ?thesis by (simp add: sql_count_append) (simp add: sql_count_def)
  next
    case False
    then show ?thesis using held_okD(6) [OF ok, of g] by (simp add: sql_count_append) (simp add: sql_count_def)
  qed
  with assms show ?thesis unfolding held_ok_def by auto
qed

lemma held_new_token:
  assumes ok: "held_ok vs cs ts" and "(tk_grant_id t, m, False) \<in> set vs" "tk_hash t \<notin> tk_hash ` set ts"
    and none: "tk_kind t = TOKEN_ACCESS \<Longrightarrow> sql_count (access_of (tk_grant_id t)) ts = 0"
      "tk_kind t = TOKEN_REFRESH \<Longrightarrow> sql_count (unused_refresh (tk_grant_id t)) ts = 0"
    and used: "\<And>c. c \<in> set cs \<Longrightarrow> au_grant_id c = tk_grant_id t \<Longrightarrow> au_used_at c \<noteq> None"
  shows "held_ok vs cs (ts @ [t])"
proof -
  have "sql_count (access_of g) (ts @ [t]) \<le> 1" for g
    using held_okD(7) [OF ok, of g] none(1) by (cases "access_of g t") (auto simp: sql_count_append access_of_def, auto simp: sql_count_def access_of_def)
  moreover have "sql_count (unused_refresh g) (ts @ [t]) \<le> 1" for g
    using held_okD(8) [OF ok, of g] none(2)
    by (cases "unused_refresh g t") (auto simp: sql_count_append unused_refresh_def, auto simp: sql_count_def unused_refresh_def)
  moreover have "au_used_at c = None \<longrightarrow> (\<forall>x \<in> set (ts @ [t]). tk_grant_id x \<noteq> au_grant_id c)" if "c \<in> set cs" for c
    using held_okD(9) [OF ok that] used [OF that] by fastforce
  ultimately show ?thesis using assms(2,3) ok by (auto simp: held_ok_def)
qed

lemma map_key_update: "(\<And>r. key (f r) = key r) \<Longrightarrow> map key (sql_update P f xs) = map key xs"
  by (simp add: sql_update_def)

lemma sql_count_update:
  assumes "\<And>r. Q (f r) \<Longrightarrow> Q r"
  shows "sql_count Q (sql_update P f xs) \<le> sql_count Q xs"
  using assms by (induction xs) (simp_all add: sql_count_def sql_update_def)

lemma held_use_code:
  assumes ok: "held_ok vs cs ts"
  shows "held_ok vs (sql_update (\<lambda>c. au_code_hash c = h) (\<lambda>c. c\<lparr>au_used_at := Some now\<rparr>) cs) ts"
proof -
  let ?f = "\<lambda>c. c\<lparr>au_used_at := Some now\<rparr>"
  let ?cs = "sql_update (\<lambda>c. au_code_hash c = h) ?f cs"
  have keys: "map au_code_hash ?cs = map au_code_hash cs" by (rule map_key_update) simp
  have count: "sql_count (\<lambda>c. au_grant_id c = g) ?cs \<le> 1" for g
    using sql_count_update [of "\<lambda>c. au_grant_id c = g" ?f "\<lambda>c. au_code_hash c = h" cs] held_okD(6) [OF ok, of g] by simp
  have row: "\<exists>r \<in> set cs. au_grant_id r = au_grant_id c \<and> (au_used_at c = None \<longrightarrow> au_used_at r = None)" if "c \<in> set ?cs" for c
    using in_sql_update [OF that] by (auto split: if_splits)
  have "\<exists>m. (au_grant_id c, m, False) \<in> set vs" if "c \<in> set ?cs" for c
    using row [OF that] held_okD(4) [OF ok] by metis
  moreover have "au_used_at c = None \<longrightarrow> (\<forall>t \<in> set ts. tk_grant_id t \<noteq> au_grant_id c)" if "c \<in> set ?cs" for c
    using row [OF that] held_okD(9) [OF ok] by metis
  ultimately show ?thesis using held_okD(1-3,5,7,8) [OF ok] count keys by (simp add: held_ok_def)
qed

lemma held_use_token:
  assumes ok: "held_ok vs cs ts"
  shows "held_ok vs cs (sql_update (\<lambda>t. tk_hash t = h) (\<lambda>t. t\<lparr>tk_used_at := Some now\<rparr>) ts)"
proof -
  let ?f = "\<lambda>t. t\<lparr>tk_used_at := Some now\<rparr>"
  let ?ts = "sql_update (\<lambda>t. tk_hash t = h) ?f ts"
  have keys: "map tk_hash ?ts = map tk_hash ts" by (rule map_key_update) simp
  have access: "sql_count (access_of g) ?ts \<le> 1" for g
    using sql_count_update [of "access_of g" ?f "\<lambda>t. tk_hash t = h" ts] held_okD(7) [OF ok, of g] by (simp add: access_of_def)
  have refresh: "sql_count (unused_refresh g) ?ts \<le> 1" for g
    using sql_count_update [of "unused_refresh g" ?f "\<lambda>t. tk_hash t = h" ts] held_okD(8) [OF ok, of g]
    by (simp add: unused_refresh_def)
  have row: "\<exists>r \<in> set ts. tk_grant_id r = tk_grant_id t" if "t \<in> set ?ts" for t
    using in_sql_update [OF that] by (auto split: if_splits)
  have "\<exists>m. (tk_grant_id t, m, False) \<in> set vs" if "t \<in> set ?ts" for t
    using row [OF that] held_okD(5) [OF ok] by metis
  moreover have "au_used_at c = None \<longrightarrow> (\<forall>t \<in> set ?ts. tk_grant_id t \<noteq> au_grant_id c)" if "c \<in> set cs" for c
    using row held_okD(9) [OF ok that] by metis
  ultimately show ?thesis using held_okD(1-4,6) [OF ok] access refresh keys by (simp add: held_ok_def)
qed

definition view_revoked :: "string \<Rightarrow> string \<times> int \<times> bool \<Rightarrow> string \<times> int \<times> bool" where
  "view_revoked g v = (fst v, fst (snd v), snd (snd v) \<or> fst v = g)"

lemma held_revoke:
  assumes ok: "held_ok vs cs ts"
  shows "held_ok (map (view_revoked g) vs) (sql_delete (\<lambda>c. au_grant_id c = g) cs) (sql_delete (\<lambda>t. tk_grant_id t = g) ts)"
proof -
  have live: "\<exists>m. (i, m, False) \<in> set (map (view_revoked g) vs)" if "\<exists>m. (i, m, False) \<in> set vs" "i \<noteq> g" for i
    using that by (force simp: view_revoked_def)
  have keys: "map fst (map (view_revoked g) vs) = map fst vs" by (simp add: view_revoked_def comp_def)
  note d = held_okD [OF held_delete [OF ok, of "\<lambda>c. au_grant_id c = g" "\<lambda>t. tk_grant_id t = g"]]
  have "\<exists>m. (au_grant_id c, m, False) \<in> set (map (view_revoked g) vs)" if "c \<in> set (sql_delete (\<lambda>c. au_grant_id c = g) cs)" for c
    using d(4) [OF that] that by (intro live) auto
  moreover have "\<exists>m. (tk_grant_id t, m, False) \<in> set (map (view_revoked g) vs)" if "t \<in> set (sql_delete (\<lambda>t. tk_grant_id t = g) ts)" for t
    using d(5) [OF that] that by (intro live) auto
  ultimately show ?thesis unfolding held_ok_def keys using d(1-3,6-9) by blast
qed

section \<open>What each operation leaves\<close>

text \<open>Operations on keys and times change nothing of what grants hold.\<close>

definition same_held :: "rules_db \<Rightarrow> rules_db \<Rightarrow> bool" where
  "same_held d d' \<longleftrightarrow> map agent_view (rd_agents d') = map agent_view (rd_agents d) \<and> rd_codes d' = rd_codes d \<and> rd_tokens d' = rd_tokens d"

lemma same_held_refl [simp]: "same_held d d"
  by (simp add: same_held_def)

lemma same_held_trans: "same_held d d1 \<Longrightarrow> same_held d1 d2 \<Longrightarrow> same_held d d2"
  by (simp add: same_held_def)

lemma same_held_ok: "same_held d d' \<Longrightarrow> signin_ok d' \<longleftrightarrow> signin_ok d"
  by (simp add: same_held_def signin_ok_def)

lemma same_held_app_key: "same_held d (set_app_key d m key)"
  by (simp add: same_held_def set_app_key_def map_key_update agent_view_def)

lemma same_held_touch: "same_held d (touch_agent d i now)"
  by (simp add: same_held_def touch_agent_def map_key_update agent_view_def)

lemma same_held_set_keys: "same_held d (set_agent_keys d i wrap seal)" "same_held d (set_key_wrap d i wrap)" "same_held d (set_app_seal d i s)"
  by (simp_all add: same_held_def set_agent_keys_def set_key_wrap_def set_app_seal_def map_key_update agent_view_def)

lemma same_held_agent_key: "same_held d (snd (agent_key sv w d i m secret u))"
  by (simp add: agent_key_def Let_def same_held_set_keys split: option.splits prod.splits)

lemma same_held_rewrap: "same_held d (snd (rewrap_agent_key sv w d i old new))"
  by (simp add: rewrap_agent_key_def same_held_set_keys split: option.splits)

text \<open>What is left after a grant is revoked.\<close>

definition revoked_for_good :: "rules_db \<Rightarrow> string \<Rightarrow> bool" where
  "revoked_for_good d g \<longleftrightarrow> (\<forall>v \<in> set (map agent_view (rd_agents d)). fst v = g \<longrightarrow> snd (snd v))"

lemma revoked_for_good_same: "same_held d d' \<Longrightarrow> revoked_for_good d' g \<longleftrightarrow> revoked_for_good d g"
  by (simp only: same_held_def revoked_for_good_def)

lemma agent_token_row: "agent_token d g = Some (a, address) \<Longrightarrow> a \<in> set (rd_agents d) \<and> ag_id a = g"
  by (auto simp: agent_token_def find_Some_iff split: option.splits)

lemma not_live_when_revoked:
  assumes "revoked_for_good d g"
  shows "agent_token d g = Some (a, address) \<Longrightarrow> ag_revoked_at a \<noteq> None" "\<not> live_grant d g client"
proof -
  have gone: "ag_revoked_at a \<noteq> None" if "agent_token d g = Some (a, address)" for a address
    using agent_token_row [OF that] assms by (auto simp: revoked_for_good_def agent_view_def)
  then show "agent_token d g = Some (a, address) \<Longrightarrow> ag_revoked_at a \<noteq> None" by blast
  show "\<not> live_grant d g client" using gone by (auto simp: live_grant_def split: option.splits prod.splits)
qed

lemma view_mark: "map agent_view (sql_update (\<lambda>a. ag_id a = g) (mark_revoked now) as) = map (view_revoked g) (map agent_view as)"
  by (induction as) (auto simp: sql_update_def agent_view_def view_revoked_def mark_revoked_def split: option.splits)

lemma view_forget: "map agent_view (rd_agents (forget_grant_secrets d g)) = map agent_view (rd_agents d)"
  by (simp add: forget_grant_secrets_def map_key_update agent_view_def)

lemma revoke_grant_held:
  "map agent_view (rd_agents (revoke_grant d g now)) = map (view_revoked g) (map agent_view (rd_agents d))"
  "rd_codes (revoke_grant d g now) = sql_delete (\<lambda>c. au_grant_id c = g) (rd_codes d)"
  "rd_tokens (revoke_grant d g now) = sql_delete (\<lambda>t. tk_grant_id t = g) (rd_tokens d)"
  unfolding revoke_grant_def view_forget by (simp_all add: view_mark forget_grant_secrets_def)

lemma revoke_grant_ok: "signin_ok d \<Longrightarrow> signin_ok (revoke_grant d g now)"
  unfolding signin_ok_def revoke_grant_held by (rule held_revoke)

lemma revoke_grant_for_good: "revoked_for_good (revoke_grant d g now) g"
  unfolding revoked_for_good_def revoke_grant_held by (auto simp: view_revoked_def)

lemma revoke_grant_keeps: "revoked_for_good d h \<Longrightarrow> revoked_for_good (revoke_grant d g now) h"
  unfolding revoked_for_good_def revoke_grant_held by (auto simp: view_revoked_def)

lemma distinct_count_key:
  assumes "distinct (map key xs)" "P x" "x \<in> set xs" "\<And>y. P y \<Longrightarrow> key y = key x"
  shows "sql_count P xs = 1"
proof -
  have "y = x" if "P y" "y \<in> set xs" for y
    using assms that by (metis distinct_map inj_on_eq_iff)
  then have "set (filter P xs) = {x}" using assms(2,3) unfolding set_filter by blast
  moreover have "distinct (filter P xs)" using assms(1) by (simp add: distinct_map)
  ultimately show ?thesis by (metis One_nat_def card.empty card_insert_disjoint distinct_card empty_iff finite.emptyI sql_count_def)
qed

lemma revoke_agent_token_held:
  assumes ok: "signin_ok d"
  shows "same_held d (snd (revoke_agent_token d m i now)) \<or>
    same_held (revoke_grant d i now) (snd (revoke_agent_token d m i now))"
proof -
  let ?hit = "\<lambda>a. ag_mailbox a = m \<and> ag_id a = i"
  have "map fst (map agent_view (rd_agents d)) = map ag_id (rd_agents d)" by (simp add: agent_view_def)
  with ok have ids: "distinct (map ag_id (rd_agents d))" unfolding signin_ok_def by (metis held_okD(1))
  show ?thesis
  proof (cases "\<exists>a \<in> set (rd_agents d). ?hit a")
    case True
    then obtain a where a: "a \<in> set (rd_agents d)" "?hit a" by blast
    have n: "sql_count ?hit (rd_agents d) = 1" by (rule distinct_count_key [of ag_id]) (use ids a in auto)
    have "?hit x \<longleftrightarrow> ag_id x = i" if "x \<in> set (rd_agents d)" for x
      using ids a that by (metis distinct_map inj_on_eq_iff)
    then have "sql_update ?hit (mark_revoked now) (rd_agents d) = sql_update (\<lambda>a. ag_id a = i) (mark_revoked now) (rd_agents d)"
      by (auto simp: sql_update_def)
    with n show ?thesis by (simp add: revoke_agent_token_def revoke_grant_def Let_def)
  next
    case False
    then have "sql_count ?hit (rd_agents d) = 0" "sql_update ?hit (mark_revoked now) (rd_agents d) = rd_agents d"
      by (auto simp: sql_count_zero sql_update_def intro!: map_idI)
    then show ?thesis by (simp add: revoke_agent_token_def Let_def same_held_def)
  qed
qed

lemma revoke_agent_token_ok: "signin_ok d \<Longrightarrow> signin_ok (snd (revoke_agent_token d m i now))"
  using revoke_agent_token_held revoke_grant_ok same_held_ok by blast

lemma held_forget:
  assumes ok: "held_ok vs cs ts"
  shows "held_ok (filter (\<lambda>v. fst (snd v) \<noteq> m) vs) (sql_delete (\<lambda>c. au_grant_id c \<in> fst ` {v \<in> set vs. fst (snd v) = m}) cs)
    (sql_delete (\<lambda>t. tk_grant_id t \<in> fst ` {v \<in> set vs. fst (snd v) = m}) ts)"
proof -
  let ?gone = "fst ` {v \<in> set vs. fst (snd v) = m}"
  have live: "\<exists>k. (g, k, False) \<in> set (filter (\<lambda>v. fst (snd v) \<noteq> m) vs)" if g: "\<exists>k. (g, k, False) \<in> set vs" and "g \<notin> ?gone" for g
  proof -
    from g obtain k where k: "(g, k, False) \<in> set vs" by blast
    with that(2) have "k \<noteq> m" by force
    with k show ?thesis by auto
  qed
  have keys: "distinct (map fst (filter (\<lambda>v. fst (snd v) \<noteq> m) vs))" using held_okD(1) [OF ok] by (simp add: distinct_map_filter)
  note d = held_okD [OF held_delete [OF ok, of "\<lambda>c. au_grant_id c \<in> ?gone" "\<lambda>t. tk_grant_id t \<in> ?gone"]]
  have "\<exists>k. (au_grant_id c, k, False) \<in> set (filter (\<lambda>v. fst (snd v) \<noteq> m) vs)" if "c \<in> set (sql_delete (\<lambda>c. au_grant_id c \<in> ?gone) cs)" for c
    using d(4) [OF that] that by (intro live) auto
  moreover have "\<exists>k. (tk_grant_id t, k, False) \<in> set (filter (\<lambda>v. fst (snd v) \<noteq> m) vs)" if "t \<in> set (sql_delete (\<lambda>t. tk_grant_id t \<in> ?gone) ts)" for t
    using d(5) [OF that] that by (intro live) auto
  ultimately show ?thesis by (intro held_okI keys d(2,3,6-9))
qed

lemma delete_mailbox_held:
  "map agent_view (rd_agents (snd (delete_mailbox d m))) = filter (\<lambda>v. fst (snd v) \<noteq> m) (map agent_view (rd_agents d))"
  "rd_codes (snd (delete_mailbox d m)) =
     sql_delete (\<lambda>c. au_grant_id c \<in> fst ` {v \<in> set (map agent_view (rd_agents d)). fst (snd v) = m}) (rd_codes d)"
  "rd_tokens (snd (delete_mailbox d m)) =
     sql_delete (\<lambda>t. tk_grant_id t \<in> fst ` {v \<in> set (map agent_view (rd_agents d)). fst (snd v) = m}) (rd_tokens d)"
proof -
  have "fst ` {v \<in> set (map agent_view (rd_agents d)). fst (snd v) = m} = ag_id ` {a \<in> set (rd_agents d). ag_mailbox a = m}"
    by (force simp: agent_view_def)
  then show "rd_codes (snd (delete_mailbox d m)) =
     sql_delete (\<lambda>c. au_grant_id c \<in> fst ` {v \<in> set (map agent_view (rd_agents d)). fst (snd v) = m}) (rd_codes d)"
    "rd_tokens (snd (delete_mailbox d m)) =
     sql_delete (\<lambda>t. tk_grant_id t \<in> fst ` {v \<in> set (map agent_view (rd_agents d)). fst (snd v) = m}) (rd_tokens d)"
    by (simp_all add: delete_mailbox_def Let_def)
  show "map agent_view (rd_agents (snd (delete_mailbox d m))) = filter (\<lambda>v. fst (snd v) \<noteq> m) (map agent_view (rd_agents d))"
    by (simp add: delete_mailbox_def Let_def sql_delete_def filter_map comp_def agent_view_def)
qed

lemma delete_mailbox_ok: "signin_ok d \<Longrightarrow> signin_ok (snd (delete_mailbox d m))"
  unfolding signin_ok_def delete_mailbox_held by (rule held_forget)

lemma prune_ok: "signin_ok d \<Longrightarrow> signin_ok (prune_expired d now)"
  unfolding signin_ok_def prune_expired_def by (simp add: held_delete)

lemma register_held: "same_held (prune_expired d (ro_created_at c)) (snd (register_client c d))"
  by (simp add: register_client_def insert_client_def Let_def same_held_def)

lemma mint_connect_held: "same_held (prune_expired d now) (snd (mint_connect_code sv now i m name code d))"
  by (simp add: mint_connect_code_def insert_connect_code_def Let_def same_held_def)

lemma redeem_held: "same_held d (snd (redeem_connect_code d hash now))"
  by (simp add: redeem_connect_code_def same_held_def split: option.splits)

lemma insert_agent_ok:
  assumes "signin_ok d" "insert_agent_token d a = Inr d'"
  shows "signin_ok d'"
proof -
  have "ag_id a \<notin> fst ` set (map agent_view (rd_agents d))" "d' = d\<lparr>rd_agents := rd_agents d @ [a]\<rparr>"
    using assms(2) by (auto simp: insert_agent_token_def agent_view_def image_iff split: if_splits)
  with assms(1) show ?thesis unfolding signin_ok_def by (simp add: agent_view_def held_new_static_agent)
qed

lemma mint_agent_token_ok: "signin_ok d \<Longrightarrow> signin_ok (snd (mint_agent_token sv w now m name d))"
  using insert_agent_ok same_held_ok [OF same_held_agent_key]
  by (simp add: mint_agent_token_def Let_def split: sum.splits)


section \<open>Connecting and exchanging\<close>

lemma fresh_view: "\<exists>m. (i, m, r) \<in> set vs \<Longrightarrow> g \<notin> fst ` set vs \<Longrightarrow> i \<noteq> g"
  by force

lemma map_sum_Inr: "map_sum f h r = Inr y \<longleftrightarrow> (\<exists>x. r = Inr x \<and> y = h x)"
  by (cases r) auto

lemma connect_agent_ok:
  assumes ok: "signin_ok d"
  shows "signin_ok (snd (connect_agent sv w res now p code d))"
proof (cases "redeem_connect_code d (sv_sha sv code) now")
  case (Pair r d1)
  have d1: "same_held d d1" using redeem_held [of d "sv_sha sv code" now] Pair by simp
  note ok1 = ok [folded same_held_ok [OF d1]]
  let ?a = "\<lambda>mailbox name. \<lparr>ag_id = dw_id w, ag_mailbox = mailbox, ag_name = name, ag_token_hash = '''', ag_created_at = now,
                   ag_revoked_at = None, ag_kind = KIND_OAUTH, ag_client_id = Some (pn_client_id p), ag_last_used_at = None,
                   ag_key_wrap = None, ag_app_seal = None\<rparr>"
  let ?c = "\<lparr>au_code_hash = sv_sha sv (dw_code w), au_grant_id = dw_id w, au_client_id = pn_client_id p,
                        au_redirect_uri = pn_redirect_uri p, au_code_challenge = pn_challenge p, au_resource = res,
                        au_expires_at = now + AUTH_CODE_TTL_MS, au_used_at = None\<rparr>"
  have both: "signin_ok d3" if ins: "insert_agent_token d1 (?a m name) = Inr d2" "insert_auth_code d2 ?c = Inr d3" for m name d2 d3
  proof -
    have fresh: "dw_id w \<notin> fst ` set (map agent_view (rd_agents d1))" and d2: "d2 = d1\<lparr>rd_agents := rd_agents d1 @ [?a m name]\<rparr>"
      using ins(1) by (auto simp: insert_agent_token_def agent_view_def image_iff split: if_splits)
    have key: "au_code_hash ?c \<notin> au_code_hash ` set (rd_codes d1)" and d3: "d3 = d2\<lparr>rd_codes := rd_codes d1 @ [?c]\<rparr>"
      using ins(2) by (auto simp: insert_auth_code_def d2 split: if_splits)
    note held = ok1 [unfolded signin_ok_def]
    have "held_ok (map agent_view (rd_agents d1) @ [(dw_id w, m, False)]) (rd_codes d1 @ [?c]) (rd_tokens d1)"
    proof (rule held_new_code [OF held_new_agent [OF held fresh]])
      show "(au_grant_id ?c, m, False) \<in> set (map agent_view (rd_agents d1) @ [(dw_id w, m, False)])" by simp
      show "au_code_hash ?c \<notin> au_code_hash ` set (rd_codes d1)" by (rule key)
      show "au_grant_id x \<noteq> au_grant_id ?c" if "x \<in> set (rd_codes d1)" for x
        using fresh_view [OF held_okD(4) [OF held that] fresh] by simp
      show "tk_grant_id t \<noteq> au_grant_id ?c" if "t \<in> set (rd_tokens d1)" for t
        using fresh_view [OF held_okD(5) [OF held that] fresh] by simp
    qed
    then show ?thesis unfolding signin_ok_def d3 d2 by (simp add: agent_view_def)
  qed
  show ?thesis unfolding connect_agent_def Pair using ok both by (auto split: option.splits sum.splits)
qed

lemma issue_tokens_held:
  assumes "issue_tokens sv w d g res now secret = Inr (access, refresh, d3)"
  obtains ta tr where "map agent_view (rd_agents d3) = map agent_view (rd_agents d)" "rd_codes d3 = rd_codes d"
    "rd_tokens d3 = (rd_tokens d @ [ta]) @ [tr]" "tk_hash ta \<notin> tk_hash ` set (rd_tokens d)" "tk_hash tr \<notin> tk_hash ` set (rd_tokens d @ [ta])"
    "tk_grant_id ta = g" "tk_grant_id tr = g" "tk_kind ta = TOKEN_ACCESS" "tk_kind tr = TOKEN_REFRESH" "tk_hash tr = sv_sha sv refresh"
    "tk_hash ta = sv_sha sv access" "tk_resource ta = res" "tk_expires_at ta = now + ACCESS_TTL_MS" "access = access_token w secret"
proof -
  define d1 where "d1 = (case agent_token d g of
    Some (a, _) \<Rightarrow> snd (agent_key sv w d g (ag_mailbox a) secret ReplaceKey) | None \<Rightarrow> d)"
  have d1: "same_held d d1" by (simp add: d1_def same_held_agent_key split: option.splits prod.splits)
  define row where "row = (\<lambda>hash kind ttl. \<lparr>tk_hash = hash, tk_kind = kind, tk_grant_id = g, tk_resource = res,
                   tk_created_at = now, tk_expires_at = now + ttl, tk_used_at = None\<rparr>)"
  define ta where "ta = row (sv_sha sv (access_token w secret)) TOKEN_ACCESS ACCESS_TTL_MS"
  define tr where "tr = row (sv_sha sv (refresh_token w secret)) TOKEN_REFRESH REFRESH_TTL_MS"
  from assms obtain d2 where d2: "insert_oauth_token d1 ta = Inr d2" and d3: "insert_oauth_token d2 tr = Inr d3"
    and refresh: "refresh = refresh_token w secret" and access: "access = access_token w secret"
    unfolding issue_tokens_def Let_def d1_def [symmetric] row_def [symmetric] ta_def [symmetric] tr_def [symmetric]
    by (auto simp: map_sum_Inr split: sum.splits)
  have d2': "d2 = d1\<lparr>rd_tokens := rd_tokens d @ [ta]\<rparr>" and ka: "tk_hash ta \<notin> tk_hash ` set (rd_tokens d)"
    using d2 d1 by (auto simp: insert_oauth_token_def same_held_def split: if_splits)
  have d3': "d3 = d1\<lparr>rd_tokens := (rd_tokens d @ [ta]) @ [tr]\<rparr>" and kr: "tk_hash tr \<notin> tk_hash ` set (rd_tokens d @ [ta])"
    using d3 by (auto simp: insert_oauth_token_def d2' split: if_splits)
  show ?thesis
    by (rule that [of ta tr]) (use d1 d3' ka kr refresh access in \<open>simp_all add: same_held_def ta_def tr_def row_def\<close>)
qed

lemma issue_tokens_ok:
  assumes ok: "signin_ok d" and agent: "(g, m, False) \<in> set (map agent_view (rd_agents d))"
    and none: "sql_count (access_of g) (rd_tokens d) = 0" "sql_count (unused_refresh g) (rd_tokens d) = 0"
    and used: "\<And>c. c \<in> set (rd_codes d) \<Longrightarrow> au_grant_id c = g \<Longrightarrow> au_used_at c \<noteq> None"
    and issued: "issue_tokens sv w d g res now secret = Inr (access, refresh, d3)"
  shows "signin_ok d3"
proof -
  from issued obtain ta tr where d3: "map agent_view (rd_agents d3) = map agent_view (rd_agents d)" "rd_codes d3 = rd_codes d"
    "rd_tokens d3 = (rd_tokens d @ [ta]) @ [tr]" and ka: "tk_hash ta \<notin> tk_hash ` set (rd_tokens d)"
    and kr: "tk_hash tr \<notin> tk_hash ` set (rd_tokens d @ [ta])"
    and kinds: "tk_grant_id ta = g" "tk_grant_id tr = g" "tk_kind ta = TOKEN_ACCESS" "tk_kind tr = TOKEN_REFRESH"
    by (rule issue_tokens_held)
  have differ: "TOKEN_ACCESS \<noteq> TOKEN_REFRESH" by (simp add: TOKEN_ACCESS_def TOKEN_REFRESH_def)
  have one: "held_ok (map agent_view (rd_agents d)) (rd_codes d) (rd_tokens d @ [ta])"
    by (rule held_new_token [OF ok [unfolded signin_ok_def], of _ m]) (use agent none used ka kinds differ in auto)
  have "sql_count (unused_refresh g) (rd_tokens d @ [ta]) = 0"
    using none(2) kinds differ by (simp add: sql_count_append) (simp add: sql_count_def unused_refresh_def)
  then have "held_ok (map agent_view (rd_agents d)) (rd_codes d) ((rd_tokens d @ [ta]) @ [tr])"
    by (intro held_new_token [OF one, of _ m]) (use agent used kr kinds differ in auto)
  then show ?thesis by (simp add: signin_ok_def d3)
qed

text \<open>What an exchange did, by its answer.\<close>

definition code_passes :: "sign_env \<Rightarrow> string \<Rightarrow> int \<Rightarrow> string \<Rightarrow> string \<Rightarrow> string option \<Rightarrow> rules_db \<Rightarrow> auth_code_row \<Rightarrow> bool" where
  "code_passes sv res now client verifier uri d row \<longleftrightarrow>
     now < au_expires_at row \<and> au_client_id row = client \<and> uri = Some (au_redirect_uri row) \<and>
     pkce_matches sv verifier (au_code_challenge row) \<and> same (au_resource row) res \<and> live_grant d (au_grant_id row) client"

lemma exchange_code_cases:
  assumes "exchange_code sv w res now client code verifier uri d = (a, d')"
  obtains (unchanged) "\<And>x. a = Ok x \<Longrightarrow> \<exists>why. x = Refused why" "d' = d"
  | (spent) row why where "auth_code d (sv_sha sv code) = Some row" "au_used_at row = None"
      "a = Ok (Refused why)" "d' = use_auth_code d (sv_sha sv code) now"
  | (replayed) row where "auth_code d (sv_sha sv code) = Some row" "au_used_at row \<noteq> None"
      "a = Ok (Replayed (au_grant_id row))" "d' = revoke_grant d (au_grant_id row) now"
  | (issued) row access refresh where "auth_code d (sv_sha sv code) = Some row" "au_used_at row = None"
      "code_passes sv res now client verifier uri (use_auth_code d (sv_sha sv code) now) row"
      "a = Ok (Issued (au_grant_id row) access refresh)"
      "issue_tokens sv w (use_auth_code d (sv_sha sv code) now) (au_grant_id row) res now (dw_grant_secret w) = Inr (access, refresh, d')"
proof (cases "auth_code d (sv_sha sv code)")
  case None
  with assms show ?thesis by (intro unchanged) (auto simp: exchange_code_def)
next
  case (Some row)
  show ?thesis
  proof (cases "au_used_at row = None")
    case False
    with assms Some show ?thesis by (intro replayed) (auto simp: exchange_code_def)
  next
    case unused: True
    let ?d1 = "use_auth_code d (sv_sha sv code) now"
    show ?thesis
    proof (cases "code_passes sv res now client verifier uri ?d1 row")
      case False
      with assms Some unused have "(\<exists>why. a = Ok (Refused why)) \<and> d' = ?d1"
        by (auto simp: exchange_code_def code_passes_def Let_def split: if_splits)
      then show ?thesis using spent Some unused by blast
    next
      case True
      show ?thesis
      proof (cases "issue_tokens sv w ?d1 (au_grant_id row) res now (dw_grant_secret w)")
        case (Inl e)
        with assms Some unused True show ?thesis by (intro unchanged) (auto simp: exchange_code_def code_passes_def)
      next
        case (Inr t)
        then obtain access refresh d2 where t: "t = (access, refresh, d2)" by (cases t)
        with assms Some unused True Inr have "a = Ok (Issued (au_grant_id row) access refresh)" "d' = d2"
          by (auto simp: exchange_code_def code_passes_def)
        then show ?thesis using issued Some unused True Inr t by blast
      qed
    qed
  qed
qed

lemma auth_code_row: "auth_code d h = Some row \<Longrightarrow> row \<in> set (rd_codes d) \<and> au_code_hash row = h"
  by (auto simp: auth_code_def find_Some_iff)

lemma live_grant_view:
  assumes "live_grant d g client"
  obtains m where "(g, m, False) \<in> set (map agent_view (rd_agents d))"
proof -
  from assms obtain a address where "agent_token d g = Some (a, address)" "ag_revoked_at a = None"
    by (auto simp: live_grant_def split: option.splits)
  with agent_token_row have "a \<in> set (rd_agents d)" "ag_id a = g" "ag_revoked_at a = None" by blast+
  then show ?thesis using that [of "ag_mailbox a"] by (force simp: agent_view_def)
qed

lemma use_auth_code_held:
  "rd_agents (use_auth_code d h now) = rd_agents d" "rd_tokens (use_auth_code d h now) = rd_tokens d"
  "rd_codes (use_auth_code d h now) = sql_update (\<lambda>c. au_code_hash c = h) (\<lambda>c. c\<lparr>au_used_at := Some now\<rparr>) (rd_codes d)"
  by (simp_all add: use_auth_code_def)

lemma use_auth_code_ok: "signin_ok d \<Longrightarrow> signin_ok (use_auth_code d h now)"
  unfolding signin_ok_def use_auth_code_held by (rule held_use_code)

lemma count_le_one_unique:
  assumes "sql_count P xs \<le> 1" "x \<in> set xs" "y \<in> set xs" "P x" "P y"
  shows "x = y"
proof -
  have "x \<in> set (filter P xs)" "y \<in> set (filter P xs)" "length (filter P xs) \<le> 1" using assms by (auto simp: sql_count_def)
  then show ?thesis by (cases "filter P xs") auto
qed

lemma exchange_code_ok:
  assumes ok: "signin_ok d"
  shows "signin_ok (snd (exchange_code sv w res now client code verifier uri d))"
proof (cases "exchange_code sv w res now client code verifier uri d")
  case (Pair a d')
  from Pair show ?thesis
  proof (cases rule: exchange_code_cases)
    case (issued row access refresh)
    let ?h = "sv_sha sv code" and ?g = "au_grant_id row"
    let ?d1 = "use_auth_code d ?h now"
    note held = ok [unfolded signin_ok_def]
    have row: "row \<in> set (rd_codes d)" "au_code_hash row = ?h" using issued(1) auth_code_row by blast+
    obtain m where m: "(?g, m, False) \<in> set (map agent_view (rd_agents ?d1))"
      using issued(3) live_grant_view unfolding code_passes_def by blast
    have tokens: "\<forall>t \<in> set (rd_tokens ?d1). tk_grant_id t \<noteq> ?g"
      using held_okD(9) [OF held row(1) issued(2)] by (simp add: use_auth_code_held)
    have used: "au_used_at c \<noteq> None" if c: "c \<in> set (rd_codes ?d1)" "au_grant_id c = ?g" for c
    proof -
      from c(1) obtain r where r: "r \<in> set (rd_codes d)" "c = (if au_code_hash r = ?h then r\<lparr>au_used_at := Some now\<rparr> else r)"
        unfolding use_auth_code_held by (blast dest: in_sql_update)
      have "au_grant_id r = ?g" using r(2) c(2) by (simp split: if_splits)
      then have "r = row" using count_le_one_unique [OF held_okD(6) [OF held, of ?g] r(1) row(1)] by simp
      with r(2) row(2) show ?thesis by simp
    qed
    have "signin_ok d'"
      by (rule issue_tokens_ok [OF use_auth_code_ok [OF ok] m _ _ used issued(5)])
        (use tokens in \<open>auto simp: sql_count_zero access_of_def unused_refresh_def\<close>)
    then show ?thesis by (simp add: Pair)
  qed (use ok Pair in \<open>simp_all add: use_auth_code_ok revoke_grant_ok\<close>)
qed

definition refresh_passes :: "string \<Rightarrow> int \<Rightarrow> string \<Rightarrow> rules_db \<Rightarrow> oauth_token_row \<Rightarrow> bool" where
  "refresh_passes res now client d row \<longleftrightarrow>
     now < tk_expires_at row \<and> same (tk_resource row) res \<and> live_grant d (tk_grant_id row) client"

text \<open>The tables a refresh issues over: the token spent, the access tokens gone, the key wrapped anew.\<close>

definition refreshed :: "sign_env \<Rightarrow> draws \<Rightarrow> int \<Rightarrow> string \<Rightarrow> rules_db \<Rightarrow> oauth_token_row \<Rightarrow> rules_db" where
  "refreshed sv w now refresh d row =
     (let d1 = delete_access_tokens (use_oauth_token d (sv_sha sv refresh) now) (tk_grant_id row)
      in case grant_secret_of refresh of
           Some s \<Rightarrow> snd (rewrap_agent_key sv w d1 (tk_grant_id row) s (dw_grant_secret w)) | None \<Rightarrow> d1)"

lemma exchange_refresh_cases:
  assumes "exchange_refresh sv w res now client refresh d = (a, d')"
  obtains (unchanged) "\<And>x. a = Ok x \<Longrightarrow> \<exists>why. x = Refused why" "d' = d"
  | (replayed) row where "oauth_token d (sv_sha sv refresh) = Some row" "tk_kind row = TOKEN_REFRESH" "tk_used_at row \<noteq> None"
      "a = Ok (Replayed (tk_grant_id row))" "d' = revoke_grant d (tk_grant_id row) now"
  | (issued) row access r where "oauth_token d (sv_sha sv refresh) = Some row" "tk_kind row = TOKEN_REFRESH" "tk_used_at row = None"
      "refresh_passes res now client d row" "a = Ok (Issued (tk_grant_id row) access r)"
      "issue_tokens sv w (refreshed sv w now refresh d row) (tk_grant_id row) res now (dw_grant_secret w) = Inr (access, r, d')"
proof (cases "oauth_token d (sv_sha sv refresh)")
  case None
  with assms show ?thesis by (intro unchanged) (auto simp: exchange_refresh_def)
next
  case (Some row)
  show ?thesis
  proof (cases "tk_kind row = TOKEN_REFRESH \<and> (tk_used_at row = None \<longrightarrow> refresh_passes res now client d row)")
    case False
    with assms Some show ?thesis
      by (intro unchanged) (auto simp: exchange_refresh_def refresh_passes_def Let_def split: if_splits)
  next
    case True
    then have kind: "tk_kind row = TOKEN_REFRESH" by simp
    show ?thesis
    proof (cases "tk_used_at row = None")
      case False
      with assms Some kind show ?thesis by (intro replayed) (auto simp: exchange_refresh_def)
    next
      case unused: True
      with True have passes: "refresh_passes res now client d row" by simp
      let ?r = "issue_tokens sv w (refreshed sv w now refresh d row) (tk_grant_id row) res now (dw_grant_secret w)"
      have result: "exchange_refresh sv w res now client refresh d =
        (case ?r of Inl e \<Rightarrow> (Err e, d) | Inr (access, r, d3) \<Rightarrow> (Ok (Issued (tk_grant_id row) access r), d3))"
        using Some kind unused passes by (simp add: exchange_refresh_def refresh_passes_def refreshed_def Let_def)
      show ?thesis
      proof (cases ?r)
        case (Inl e)
        with assms result show ?thesis by (intro unchanged) auto
      next
        case (Inr t)
        then obtain access r d3 where t: "t = (access, r, d3)" by (cases t)
        with assms result Inr have "a = Ok (Issued (tk_grant_id row) access r)" "d' = d3" by auto
        then show ?thesis using issued Some kind unused passes Inr t by blast
      qed
    qed
  qed
qed

lemma oauth_token_row: "oauth_token d h = Some row \<Longrightarrow> row \<in> set (rd_tokens d) \<and> tk_hash row = h"
  by (auto simp: oauth_token_def find_Some_iff)

lemma refreshed_held:
  "map agent_view (rd_agents (refreshed sv w now refresh d row)) = map agent_view (rd_agents d)"
  "rd_codes (refreshed sv w now refresh d row) = rd_codes d"
  "rd_tokens (refreshed sv w now refresh d row) =
     sql_delete (\<lambda>t. tk_grant_id t = tk_grant_id row \<and> tk_kind t = TOKEN_ACCESS)
       (sql_update (\<lambda>t. tk_hash t = sv_sha sv refresh) (\<lambda>t. t\<lparr>tk_used_at := Some now\<rparr>) (rd_tokens d))"
proof -
  let ?d1 = "delete_access_tokens (use_oauth_token d (sv_sha sv refresh) now) (tk_grant_id row)"
  have "same_held ?d1 (refreshed sv w now refresh d row)"
    by (simp add: refreshed_def Let_def same_held_rewrap split: option.splits)
  then show
    "map agent_view (rd_agents (refreshed sv w now refresh d row)) = map agent_view (rd_agents d)"
    "rd_codes (refreshed sv w now refresh d row) = rd_codes d"
    "rd_tokens (refreshed sv w now refresh d row) =
     sql_delete (\<lambda>t. tk_grant_id t = tk_grant_id row \<and> tk_kind t = TOKEN_ACCESS)
       (sql_update (\<lambda>t. tk_hash t = sv_sha sv refresh) (\<lambda>t. t\<lparr>tk_used_at := Some now\<rparr>) (rd_tokens d))"
    by (simp_all add: same_held_def delete_access_tokens_def use_oauth_token_def)
qed

lemma sql_delete_false: "sql_delete (\<lambda>_. False) xs = xs"
  by (simp add: sql_delete_def)

lemma refreshed_ok: "signin_ok d \<Longrightarrow> signin_ok (refreshed sv w now refresh d row)"
  unfolding signin_ok_def refreshed_held by (rule held_delete [OF held_use_token, where P = "\<lambda>_. False", unfolded sql_delete_false])

lemma exchange_refresh_ok:
  assumes ok: "signin_ok d"
  shows "signin_ok (snd (exchange_refresh sv w res now client refresh d))"
proof (cases "exchange_refresh sv w res now client refresh d")
  case (Pair a d')
  from Pair show ?thesis
  proof (cases rule: exchange_refresh_cases)
    case (issued row access r)
    let ?g = "tk_grant_id row" and ?d2 = "refreshed sv w now refresh d row"
    note held = ok [unfolded signin_ok_def]
    have row: "row \<in> set (rd_tokens d)" "tk_hash row = sv_sha sv refresh" using issued(1) oauth_token_row by blast+
    obtain m where m: "(?g, m, False) \<in> set (map agent_view (rd_agents d))"
      using issued(4) live_grant_view unfolding refresh_passes_def by blast
    then have m': "(?g, m, False) \<in> set (map agent_view (rd_agents ?d2))" by (simp only: refreshed_held)
    have access: "sql_count (access_of ?g) (rd_tokens ?d2) = 0"
      by (auto simp: sql_count_zero refreshed_held access_of_def)
    have refresh: "\<not> unused_refresh ?g t" if t: "t \<in> set (rd_tokens ?d2)" for t
    proof
      assume u: "unused_refresh ?g t"
      from t have "t \<in> set (sql_update (\<lambda>t. tk_hash t = sv_sha sv refresh) (\<lambda>t. t\<lparr>tk_used_at := Some now\<rparr>) (rd_tokens d))"
        by (simp add: refreshed_held)
      then obtain r where r: "r \<in> set (rd_tokens d)" "t = (if tk_hash r = sv_sha sv refresh then r\<lparr>tk_used_at := Some now\<rparr> else r)"
        by (blast dest: in_sql_update)
      with u have "unused_refresh ?g r" "tk_hash r \<noteq> sv_sha sv refresh" by (auto simp: unused_refresh_def split: if_splits)
      moreover have "unused_refresh ?g row" using issued(2,3) by (simp add: unused_refresh_def)
      ultimately show False using count_le_one_unique [OF held_okD(8) [OF held] r(1) row(1)] row(2) by blast
    qed
    have used: "au_used_at c \<noteq> None" if "c \<in> set (rd_codes ?d2)" "au_grant_id c = ?g" for c
      using held_okD(9) [OF held _ _ row(1), of c] that by (auto simp: refreshed_held)
    have "signin_ok d'"
      by (rule issue_tokens_ok [OF refreshed_ok [OF ok] m' access _ used issued(6)]) (use refresh in \<open>auto simp: sql_count_zero\<close>)
    then show ?thesis by (simp add: Pair)
  qed (use ok Pair in \<open>simp_all add: revoke_grant_ok\<close>)
qed

lemma admit_held: "same_held d (snd (admit_agent sv w r now token d))"
proof (cases "agent_sign_in sv r now token d")
  case (Some t)
  then obtain i m address secret where t: "t = (i, m, address, secret)" by (cases t)
  have "same_held d (snd (agent_key sv w (touch_agent d i now) i m s KeepKey))" for s
    by (rule same_held_trans [OF same_held_touch same_held_agent_key])
  then show ?thesis using Some t by (cases secret) (auto simp: admit_agent_def Let_def same_held_touch split_beta)
qed (simp add: admit_agent_def)

lemma insert_mailbox_held: "same_held d (snd (insert_mailbox d a hash))"
  by (simp add: insert_mailbox_def Let_def same_held_def)

lemma sign_step_ok:
  assumes ok: "signin_ok d"
  shows "signin_ok (snd (sign_step sv res r d))"
proof (cases r)
  case (Pair now q)
  show ?thesis
    by (cases q) (simp_all add: Pair answer_of_def Let_def ok delete_mailbox_ok revoke_agent_token_ok mint_agent_token_ok connect_agent_ok
        exchange_code_ok exchange_refresh_ok same_held_ok [OF same_held_app_key] same_held_ok [OF mint_connect_held]
        same_held_ok [OF register_held] same_held_ok [OF admit_held] prune_ok same_held_ok [OF insert_mailbox_held] split_beta)
qed

section \<open>Runs of requests\<close>

lemma sign_run_Cons:
  "sign_run sv res (r # rs) d =
     (fst (sign_step sv res r d) # fst (sign_run sv res rs (snd (sign_step sv res r d))),
      snd (sign_run sv res rs (snd (sign_step sv res r d))))"
  by (simp add: split_beta Let_def)

lemma sign_run_invariant:
  assumes "P d" and "\<And>r d. r \<in> set rs \<Longrightarrow> P d \<Longrightarrow> P (snd (sign_step sv res r d))"
  shows "P (snd (sign_run sv res rs d))"
  using assms
proof (induction rs arbitrary: d)
  case (Cons r rs)
  then show ?case unfolding sign_run_Cons by simp
qed simp

text \<open>
  Claim C36: whatever is asked of the rules server, in whatever order and whatever is drawn, from an empty database on:
  agents keep distinct ids, every code and token refers to an agent that is not revoked, a grant has at most one
  authorization code, one access token and one unused refresh token, and no token while its code is unused.
\<close>

theorem what_grants_hold_in_every_run: "signin_ok (snd (sign_run sv res rs empty_rules_db))"
proof (rule sign_run_invariant)
  show "signin_ok empty_rules_db" by (simp add: signin_ok_def held_ok_def empty_rules_db_def sql_count_def)
qed (rule sign_step_ok)

end
