(* ===== verification/OneUse.thy ===== *)
theory OneUse
  imports Grants
begin

text \<open>
  What a code, a refresh token and a revoked grant are good for over a run of requests: a code and a refresh token are
  exchanged once, one that is presented again revokes its grant, a revoked grant lets nobody in again, and the tokens
  of an exchange sign in the agent the code was made for.
\<close>

section \<open>Traces\<close>

text \<open>What was asked, with its answer, in order.\<close>

definition sign_trace :: "sign_env \<Rightarrow> string \<Rightarrow> (int \<times> sign_request) list \<Rightarrow> rules_db \<Rightarrow> (sign_request \<times> sign_answer) list" where
  "sign_trace sv res rs d = zip (map snd rs) (fst (sign_run sv res rs d))"

lemma sign_trace_simps [simp]:
  "sign_trace sv res [] d = []"
  "sign_trace sv res (r # rs) d =
     (snd r, fst (sign_step sv res r d)) # sign_trace sv res rs (snd (sign_step sv res r d))"
  by (simp_all add: sign_trace_def sign_run_Cons del: sign_run.simps(2))

text \<open>What each step takes from a stock it also adds to: over a run no more is taken than the stock held and what was added.\<close>

lemma taken_at_most_added:
  assumes "\<And>r d. stock (snd (sign_step sv res r d)) + of_bool (drawn (snd r, fst (sign_step sv res r d)))
      \<le> stock d + (of_bool (gained (snd r, fst (sign_step sv res r d))) :: nat)"
  shows "sql_count drawn (sign_trace sv res rs d) \<le> stock d + sql_count gained (sign_trace sv res rs d)"
proof (induction rs arbitrary: d)
  case (Cons r rs)
  from Cons.IH [of "snd (sign_step sv res r d)"] assms [of r d] show ?case
    by (auto simp: sql_count_def of_bool_def split: if_splits)
qed (simp add: sql_count_def)

fun code_exchanged :: "sign_env \<Rightarrow> string \<Rightarrow> sign_request \<times> sign_answer \<Rightarrow> bool" where
  "code_exchanged sv h (AskCode w client code verifier uri, Exchanged (Issued g a r)) \<longleftrightarrow> sv_sha sv code = h"
| "code_exchanged sv h _ \<longleftrightarrow> False"

fun code_given :: "sign_env \<Rightarrow> string \<Rightarrow> sign_request \<times> sign_answer \<Rightarrow> bool" where
  "code_given sv h (AskConnect w p code, Connected (Some g)) \<longleftrightarrow> sv_sha sv (dw_code w) = h"
| "code_given sv h _ \<longleftrightarrow> False"

fun refresh_exchanged :: "sign_env \<Rightarrow> string \<Rightarrow> sign_request \<times> sign_answer \<Rightarrow> bool" where
  "refresh_exchanged sv h (AskRefresh w client refresh, Exchanged (Issued g a r)) \<longleftrightarrow> sv_sha sv refresh = h"
| "refresh_exchanged sv h _ \<longleftrightarrow> False"

fun refresh_given :: "sign_env \<Rightarrow> string \<Rightarrow> sign_request \<times> sign_answer \<Rightarrow> bool" where
  "refresh_given sv h (_, Exchanged (Issued g a r)) \<longleftrightarrow> sv_sha sv r = h"
| "refresh_given sv h _ \<longleftrightarrow> False"

definition fresh_code :: "string \<Rightarrow> auth_code_row \<Rightarrow> bool" where
  "fresh_code h c \<longleftrightarrow> au_code_hash c = h \<and> au_used_at c = None"

definition fresh_refresh :: "string \<Rightarrow> oauth_token_row \<Rightarrow> bool" where
  "fresh_refresh h t \<longleftrightarrow> tk_hash t = h \<and> tk_kind t = TOKEN_REFRESH \<and> tk_used_at t = None"

lemma fresh_code_used: "sql_count (fresh_code h) (rd_codes (use_auth_code d k now)) \<le> sql_count (fresh_code h) (rd_codes d)"
  unfolding use_auth_code_held by (rule sql_count_update) (simp add: fresh_code_def)

lemma sql_count_pos: "x \<in> set xs \<Longrightarrow> P x \<Longrightarrow> 1 \<le> sql_count P xs"
  by (metis One_nat_def Suc_leI gr0I sql_count_zero)

lemma fresh_code_exchanged:
  assumes "exchange_code sv w res now client code verifier uri d = (a, d')"
  shows "sql_count (fresh_code h) (rd_codes d') + of_bool (\<exists>g x y. a = Ok (Issued g x y) \<and> sv_sha sv code = h) \<le> sql_count (fresh_code h) (rd_codes d)"
  using assms
proof (cases rule: exchange_code_cases)
  case (issued row access refresh)
  from issued(5) have codes: "rd_codes d' = rd_codes (use_auth_code d (sv_sha sv code) now)" by (rule issue_tokens_held)
  show ?thesis
  proof (cases "sv_sha sv code = h")
    case True
    have "sql_count (fresh_code h) (rd_codes d') = 0" unfolding codes use_auth_code_held True
      by (auto simp: sql_count_zero fresh_code_def dest!: in_sql_update split: if_splits)
    moreover have "1 \<le> sql_count (fresh_code h) (rd_codes d)"
      using auth_code_row [OF issued(1)] issued(2) True by (intro sql_count_pos) (auto simp: fresh_code_def)
    ultimately show ?thesis by simp
  next
    case False
    then show ?thesis using fresh_code_used codes by simp
  qed
qed (auto simp: fresh_code_used revoke_grant_held sql_count_delete)


definition code_stock :: "string \<Rightarrow> rules_db \<Rightarrow> nat" where "code_stock h d = sql_count (fresh_code h) (rd_codes d)"
definition refresh_stock :: "string \<Rightarrow> rules_db \<Rightarrow> nat" where "refresh_stock h d = sql_count (fresh_refresh h) (rd_tokens d)"

lemma stock_same:
  assumes "same_held d d'"
  shows "code_stock h d' = code_stock h d" "refresh_stock h d' = refresh_stock h d"
  using assms by (simp_all add: same_held_def code_stock_def refresh_stock_def)

lemma stock_kept:
  "code_stock h (revoke_grant d g now) \<le> code_stock h d" "refresh_stock h (revoke_grant d g now) \<le> refresh_stock h d"
  "code_stock h (snd (delete_mailbox d m)) \<le> code_stock h d" "refresh_stock h (snd (delete_mailbox d m)) \<le> refresh_stock h d"
  "code_stock h (prune_expired d now) \<le> code_stock h d" "refresh_stock h (prune_expired d now) \<le> refresh_stock h d"
  by (simp_all add: code_stock_def refresh_stock_def revoke_grant_held delete_mailbox_held sql_count_delete)
    (simp_all add: prune_expired_def sql_count_delete)

lemma forget_stock:
  "code_stock h (forget_grant_secrets d g) \<le> code_stock h d" "refresh_stock h (forget_grant_secrets d g) \<le> refresh_stock h d"
  by (simp_all add: code_stock_def refresh_stock_def forget_grant_secrets_def sql_count_delete)

lemma revoke_agent_stock:
  "code_stock h (snd (revoke_agent_token d m i now)) \<le> code_stock h d"
  "refresh_stock h (snd (revoke_agent_token d m i now)) \<le> refresh_stock h d"
proof -
  let ?d1 = "d\<lparr>rd_agents := sql_update (\<lambda>a. ag_mailbox a = m \<and> ag_id a = i) (mark_revoked now) (rd_agents d)\<rparr>"
  have "code_stock h ?d1 = code_stock h d" "refresh_stock h ?d1 = refresh_stock h d" by (simp_all add: code_stock_def refresh_stock_def)
  then show "code_stock h (snd (revoke_agent_token d m i now)) \<le> code_stock h d"
    "refresh_stock h (snd (revoke_agent_token d m i now)) \<le> refresh_stock h d"
    using forget_stock [of h ?d1 i] by (simp_all add: revoke_agent_token_def Let_def)
qed

lemma mint_agent_stock:
  "code_stock h (snd (mint_agent_token sv w now m name d)) = code_stock h d"
  "refresh_stock h (snd (mint_agent_token sv w now m name d)) = refresh_stock h d"
  using stock_same [OF same_held_agent_key]
  by (simp_all add: mint_agent_token_def insert_agent_token_def Let_def code_stock_def refresh_stock_def split: sum.splits)

lemma connect_stock:
  "code_stock h (snd (connect_agent sv w res now p code d)) \<le>
     code_stock h d + of_bool (\<exists>g. fst (connect_agent sv w res now p code d) = Ok (Some g) \<and> sv_sha sv (dw_code w) = h)"
  "refresh_stock h (snd (connect_agent sv w res now p code d)) = refresh_stock h d"
proof -
  obtain r d1 where Pair: "redeem_connect_code d (sv_sha sv code) now = (r, d1)" by fastforce
  have "same_held d d1" using redeem_held [of d "sv_sha sv code" now] Pair by simp
  note s = stock_same [OF this]
  show "code_stock h (snd (connect_agent sv w res now p code d)) \<le>
     code_stock h d + of_bool (\<exists>g. fst (connect_agent sv w res now p code d) = Ok (Some g) \<and> sv_sha sv (dw_code w) = h)"
    using s(1) [of h]
    by (auto simp: connect_agent_def Pair insert_agent_token_def insert_auth_code_def code_stock_def sql_count_append split: option.splits)
      (auto simp: sql_count_def fresh_code_def)
  show "refresh_stock h (snd (connect_agent sv w res now p code d)) = refresh_stock h d"
    using s(2) [of h]
    by (auto simp: connect_agent_def Pair insert_agent_token_def insert_auth_code_def refresh_stock_def split: option.splits)
qed

lemma issue_refresh_stock:
  assumes "issue_tokens sv w d g res now secret = Inr (access, refresh, d3)"
  shows "refresh_stock h d3 \<le> refresh_stock h d + of_bool (sv_sha sv refresh = h)"
proof -
  from assms obtain ta tr where "rd_tokens d3 = (rd_tokens d @ [ta]) @ [tr]" "tk_kind ta = TOKEN_ACCESS" "tk_hash tr = sv_sha sv refresh"
    by (rule issue_tokens_held)
  then show ?thesis
    by (simp add: refresh_stock_def sql_count_append)
      (simp add: sql_count_def fresh_refresh_def TOKEN_ACCESS_def TOKEN_REFRESH_def)
qed

lemma code_refresh_stock:
  assumes "exchange_code sv w res now client code verifier uri d = (a, d')"
  shows "refresh_stock h d' \<le> refresh_stock h d + of_bool (\<exists>g x y. a = Ok (Issued g x y) \<and> sv_sha sv y = h)"
  using assms
proof (cases rule: exchange_code_cases)
  case (issued row access refresh)
  have "refresh_stock h (use_auth_code d (sv_sha sv code) now) = refresh_stock h d" by (simp add: refresh_stock_def use_auth_code_held)
  with issue_refresh_stock [OF issued(5), of h] issued(4) show ?thesis by auto
next
  case (replayed row)
  then show ?thesis by (simp add: stock_kept)
qed (simp_all add: refresh_stock_def use_auth_code_held)

lemma refresh_code_stock:
  assumes "exchange_refresh sv w res now client refresh d = (a, d')"
  shows "code_stock h d' \<le> code_stock h d"
  using assms
proof (cases rule: exchange_refresh_cases)
  case (issued row access r)
  from issued(6) have "rd_codes d' = rd_codes (refreshed sv w now refresh d row)" by (rule issue_tokens_held)
  then show ?thesis by (simp add: code_stock_def refreshed_held)
qed (simp_all add: stock_kept)

lemma refresh_refresh_stock:
  assumes "exchange_refresh sv w res now client refresh d = (a, d')"
  shows "refresh_stock h d' + of_bool (\<exists>g x y. a = Ok (Issued g x y) \<and> sv_sha sv refresh = h) \<le>
    refresh_stock h d + of_bool (\<exists>g x y. a = Ok (Issued g x y) \<and> sv_sha sv y = h)"
  using assms
proof (cases rule: exchange_refresh_cases)
  case (issued row access r)
  let ?d2 = "refreshed sv w now refresh d row"
  have "refresh_stock h ?d2 + of_bool (sv_sha sv refresh = h) \<le> refresh_stock h d"
  proof (cases "sv_sha sv refresh = h")
    case True
    have "refresh_stock h ?d2 = 0" unfolding refresh_stock_def refreshed_held True
      by (auto simp: sql_count_zero fresh_refresh_def dest!: in_sql_update split: if_splits)
    moreover have "1 \<le> refresh_stock h d"
      using oauth_token_row [OF issued(1)] issued(2,3) True unfolding refresh_stock_def
      by (intro sql_count_pos) (auto simp: fresh_refresh_def)
    ultimately show ?thesis by simp
  next
    case False
    have "refresh_stock h ?d2 \<le> sql_count (fresh_refresh h)
        (sql_update (\<lambda>t. tk_hash t = sv_sha sv refresh) (\<lambda>t. t\<lparr>tk_used_at := Some now\<rparr>) (rd_tokens d))"
      unfolding refresh_stock_def refreshed_held by (rule sql_count_delete)
    also have "\<dots> \<le> refresh_stock h d"
      unfolding refresh_stock_def by (rule sql_count_update) (simp add: fresh_refresh_def)
    finally show ?thesis using False by simp
  qed
  with issue_refresh_stock [OF issued(6), of h] issued(5) show ?thesis by auto
qed (auto simp: stock_kept)


lemma step_code_stock:
  "code_stock h (snd (sign_step sv res r d)) + of_bool (code_exchanged sv h (snd r, fst (sign_step sv res r d)))
     \<le> code_stock h d + of_bool (code_given sv h (snd r, fst (sign_step sv res r d)))"
proof (cases r)
  case (Pair now q)
  show ?thesis
  proof (cases q)
    case (AskConnect w p code)
    show ?thesis using connect_stock(1) [of h sv w res now p code d]
      by (cases "fst (connect_agent sv w res now p code d)"; cases "projr (fst (connect_agent sv w res now p code d))")
        (auto simp: Pair AskConnect answer_of_def)
  next
    case (AskCode w client code verifier uri)
    obtain a d' where e: "exchange_code sv w res now client code verifier uri d = (a, d')" by (cases "exchange_code sv w res now client code verifier uri d")
    show ?thesis using fresh_code_exchanged [OF e, of h]
      by (cases a; cases "projr a") (auto simp: Pair AskCode answer_of_def e code_stock_def)
  next
    case (AskRefresh w client refresh)
    obtain a d' where e: "exchange_refresh sv w res now client refresh d = (a, d')" by (cases "exchange_refresh sv w res now client refresh d")
    show ?thesis using refresh_code_stock [OF e, of h] by (simp add: Pair AskRefresh answer_of_def e)
  qed (use stock_kept(1,3,5) revoke_agent_stock(1) in \<open>auto simp: le_SucI Pair answer_of_def Let_def split_beta mint_agent_stock
        stock_same(1) [OF same_held_app_key] stock_same(1) [OF mint_connect_held] stock_same(1) [OF register_held]
        stock_same(1) [OF admit_held] stock_same(1) [OF insert_mailbox_held]\<close>)
qed

lemma step_refresh_stock:
  "refresh_stock h (snd (sign_step sv res r d)) + of_bool (refresh_exchanged sv h (snd r, fst (sign_step sv res r d)))
     \<le> refresh_stock h d + of_bool (refresh_given sv h (snd r, fst (sign_step sv res r d)))"
proof (cases r)
  case (Pair now q)
  show ?thesis
  proof (cases q)
    case (AskConnect w p code)
    show ?thesis using connect_stock(2) [of h sv w res now p code d] by (simp add: Pair AskConnect answer_of_def)
  next
    case (AskCode w client code verifier uri)
    obtain a d' where e: "exchange_code sv w res now client code verifier uri d = (a, d')" by (cases "exchange_code sv w res now client code verifier uri d")
    show ?thesis using code_refresh_stock [OF e, of h]
      by (cases a; cases "projr a") (auto simp: Pair AskCode answer_of_def e)
  next
    case (AskRefresh w client refresh)
    obtain a d' where e: "exchange_refresh sv w res now client refresh d = (a, d')" by (cases "exchange_refresh sv w res now client refresh d")
    show ?thesis using refresh_refresh_stock [OF e, of h]
      by (cases a; cases "projr a") (auto simp: Pair AskRefresh answer_of_def e)
  qed (use stock_kept(2,4,6) revoke_agent_stock(2) in \<open>auto simp: le_SucI Pair answer_of_def Let_def split_beta mint_agent_stock
        stock_same(2) [OF same_held_app_key] stock_same(2) [OF mint_connect_held] stock_same(2) [OF register_held]
        stock_same(2) [OF admit_held] stock_same(2) [OF insert_mailbox_held]\<close>)
qed

section \<open>Revoked for good\<close>

fun draws_grant :: "string \<Rightarrow> sign_request \<Rightarrow> bool" where
  "draws_grant g (AskAgentToken w m name) \<longleftrightarrow> dw_id w = g"
| "draws_grant g (AskConnect w p code) \<longleftrightarrow> dw_id w = g"
| "draws_grant g _ \<longleftrightarrow> False"

fun lets_in :: "string \<Rightarrow> sign_answer \<Rightarrow> bool" where
  "lets_in g (Admitted (Some a)) \<longleftrightarrow> aa_token_id a = g"
| "lets_in g (Exchanged (Issued h a r)) \<longleftrightarrow> h = g"
| "lets_in g _ \<longleftrightarrow> False"

lemma revoked_kept_views:
  "revoked_for_good d g \<Longrightarrow> map agent_view (rd_agents d') = map agent_view (rd_agents d) \<Longrightarrow> revoked_for_good d' g"
  by (simp only: revoked_for_good_def)

lemma revoked_kept_insert: "revoked_for_good d g \<Longrightarrow> ag_id a \<noteq> g \<Longrightarrow> insert_agent_token d a = Inr d' \<Longrightarrow> revoked_for_good d' g"
  by (auto simp: revoked_for_good_def insert_agent_token_def agent_view_def split: if_splits)

lemma revoked_kept_prune: "revoked_for_good d g \<Longrightarrow> revoked_for_good (prune_expired d now) g"
  by (simp add: revoked_for_good_def prune_expired_def)

lemma revoked_kept_delete: "revoked_for_good d g \<Longrightarrow> revoked_for_good (snd (delete_mailbox d m)) g"
  unfolding revoked_for_good_def delete_mailbox_held set_filter by blast

lemma revoked_kept_revoke: "revoked_for_good d g \<Longrightarrow> revoked_for_good (snd (revoke_agent_token d m i now)) g"
proof -
  assume "revoked_for_good d g"
  then have "revoked_for_good (d\<lparr>rd_agents := sql_update hit (mark_revoked now) (rd_agents d)\<rparr>) g" for hit
    by (fastforce simp: revoked_for_good_def agent_view_def mark_revoked_def dest!: in_sql_update split: if_splits option.splits)
  then show ?thesis
    by (simp add: revoke_agent_token_def Let_def revoked_kept_views [OF _ view_forget])
qed

lemma revoked_kept_connect:
  assumes "revoked_for_good d g" "dw_id w \<noteq> g"
  shows "revoked_for_good (snd (connect_agent sv w res now p code d)) g"
proof -
  obtain r d1 where Pair: "redeem_connect_code d (sv_sha sv code) now = (r, d1)" by fastforce
  have "same_held d d1" using redeem_held [of d "sv_sha sv code" now] Pair by simp
  with assms(1) have d1: "revoked_for_good d1 g" by (simp add: revoked_for_good_same)
  have "revoked_for_good d3 g" if "insert_auth_code d2 c = Inr d3" "revoked_for_good d2 g" for c d2 d3
    using that by (auto simp: insert_auth_code_def revoked_for_good_def split: if_splits)
  moreover have "revoked_for_good d2 g" if "insert_agent_token d1 a = Inr d2" "ag_id a = dw_id w" for a d2
    using revoked_kept_insert [OF d1 _ that(1)] that(2) assms(2) by simp
  ultimately have "revoked_for_good d3 g"
    if "insert_agent_token d1 a = Inr d2" "ag_id a = dw_id w" "insert_auth_code d2 c = Inr d3" for a c d2 d3
    using that by blast
  then show ?thesis unfolding connect_agent_def Pair using assms(1) by (auto split: option.splits sum.splits)
qed

lemma revoked_kept_code:
  assumes "revoked_for_good d g"
  shows "revoked_for_good (snd (exchange_code sv w res now client code verifier uri d)) g"
    "fst (exchange_code sv w res now client code verifier uri d) \<noteq> Ok (Issued g a r)"
proof -
  obtain x d' where e: "exchange_code sv w res now client code verifier uri d = (x, d')" by fastforce
  let ?d1 = "use_auth_code d (sv_sha sv code) now"
  have d1: "revoked_for_good ?d1 g" by (rule revoked_kept_views [OF assms]) (simp add: use_auth_code_held)
  from e have "revoked_for_good d' g \<and> x \<noteq> Ok (Issued g a r)"
  proof (cases rule: exchange_code_cases)
    case unchanged
    with assms show ?thesis by auto
  next
    case (spent row why)
    with d1 show ?thesis by simp
  next
    case (replayed row)
    with assms show ?thesis by (simp add: revoke_grant_keeps)
  next
    case (issued row access refresh)
    from issued(5) have "map agent_view (rd_agents d') = map agent_view (rd_agents ?d1)" by (rule issue_tokens_held)
    with d1 have "revoked_for_good d' g" by (rule revoked_kept_views)
    moreover have "au_grant_id row \<noteq> g" using not_live_when_revoked(2) [OF d1] issued(3) by (auto simp: code_passes_def)
    ultimately show ?thesis using issued(4) by simp
  qed
  then show "revoked_for_good (snd (exchange_code sv w res now client code verifier uri d)) g"
    "fst (exchange_code sv w res now client code verifier uri d) \<noteq> Ok (Issued g a r)" by (simp_all add: e)
qed

lemma revoked_kept_refresh:
  assumes "revoked_for_good d g"
  shows "revoked_for_good (snd (exchange_refresh sv w res now client refresh d)) g"
    "fst (exchange_refresh sv w res now client refresh d) \<noteq> Ok (Issued g a r)"
proof -
  obtain x d' where e: "exchange_refresh sv w res now client refresh d = (x, d')" by fastforce
  from e have "revoked_for_good d' g \<and> x \<noteq> Ok (Issued g a r)"
  proof (cases rule: exchange_refresh_cases)
    case unchanged
    with assms show ?thesis by auto
  next
    case (replayed row)
    with assms show ?thesis by (simp add: revoke_grant_keeps)
  next
    case (issued row access r)
    from issued(6) have "map agent_view (rd_agents d') = map agent_view (rd_agents (refreshed sv w now refresh d row))"
      by (rule issue_tokens_held)
    then have "revoked_for_good d' g" using assms by (intro revoked_kept_views [OF assms]) (simp add: refreshed_held)
    moreover have "tk_grant_id row \<noteq> g" using not_live_when_revoked(2) [OF assms] issued(4) by (auto simp: refresh_passes_def)
    ultimately show ?thesis using issued(5) by simp
  qed
  then show "revoked_for_good (snd (exchange_refresh sv w res now client refresh d)) g"
    "fst (exchange_refresh sv w res now client refresh d) \<noteq> Ok (Issued g a r)" by (simp_all add: e)
qed

lemma revoked_not_signed_in:
  assumes "revoked_for_good d g" "agent_sign_in sv r now token d = Some (i, m, address, secret)"
  shows "i \<noteq> g"
  using assms not_live_when_revoked(1) [OF assms(1)] agent_token_row [of d]
  by (auto simp: agent_sign_in_def Let_def split: if_splits option.splits)

lemma revoked_not_admitted:
  assumes "revoked_for_good d g" "fst (admit_agent sv w r now token d) = Some a"
  shows "aa_token_id a \<noteq> g"
proof (cases "agent_sign_in sv r now token d")
  case (Some t)
  then obtain i m address secret where t: "t = (i, m, address, secret)" by (cases t)
  with assms(2) Some have "aa_token_id a = i" by (auto simp: admit_agent_def Let_def split_beta)
  with revoked_not_signed_in [OF assms(1)] Some t show ?thesis by blast
qed (use assms(2) in \<open>simp add: admit_agent_def\<close>)


lemma step_keeps_revoked:
  assumes ok: "revoked_for_good d g" and "\<not> draws_grant g (snd r)"
  shows "revoked_for_good (snd (sign_step sv res r d)) g" "\<not> lets_in g (fst (sign_step sv res r d))"
proof -
  obtain now q where r: "r = (now, q)" by (cases r)
  note keeps = ok revoked_kept_delete [OF ok] revoked_kept_revoke [OF ok] revoked_kept_code(1) [OF ok] revoked_kept_refresh(1) [OF ok]
    revoked_for_good_same [OF same_held_app_key] revoked_for_good_same [OF mint_connect_held] revoked_for_good_same [OF register_held]
    revoked_for_good_same [OF admit_held] revoked_for_good_same [OF insert_mailbox_held] revoked_for_good_same [OF same_held_agent_key]
    revoked_kept_prune [OF ok]
  have token: "revoked_for_good (snd (mint_agent_token sv w now m name d)) g" if "dw_id w \<noteq> g" for w m name
    using ok revoked_kept_insert [OF ok, of "\<lparr>ag_id = dw_id w, ag_mailbox = m, ag_name = name, ag_token_hash = sv_sha sv (agent_bearer w),
      ag_created_at = now, ag_revoked_at = None, ag_kind = KIND_TOKEN, ag_client_id = None, ag_last_used_at = None,
      ag_key_wrap = None, ag_app_seal = None\<rparr>"] that
    by (auto simp: mint_agent_token_def Let_def revoked_for_good_same [OF same_held_agent_key] split: sum.splits)
  show "revoked_for_good (snd (sign_step sv res r d)) g"
    using assms(2) by (cases q) (simp_all add: r answer_of_def Let_def split_beta keeps token revoked_kept_connect)
  show "\<not> lets_in g (fst (sign_step sv res r d))"
  proof (cases q)
    case (AskCode w client code verifier uri)
    show ?thesis using revoked_kept_code(2) [OF ok, of sv w res now client code verifier uri]
      by (cases "fst (exchange_code sv w res now client code verifier uri d)";
          cases "projr (fst (exchange_code sv w res now client code verifier uri d))") (auto simp: r AskCode answer_of_def)
  next
    case (AskRefresh w client refresh)
    show ?thesis using revoked_kept_refresh(2) [OF ok, of sv w res now client refresh]
      by (cases "fst (exchange_refresh sv w res now client refresh d)";
          cases "projr (fst (exchange_refresh sv w res now client refresh d))") (auto simp: r AskRefresh answer_of_def)
  next
    case (AskAdmit w a token)
    show ?thesis using revoked_not_admitted [OF ok, of sv w a now token]
      by (cases "fst (admit_agent sv w a now token d)") (auto simp: r AskAdmit Let_def split_beta)
  qed (simp_all add: r answer_of_def split: sum.splits)
qed

lemma run_keeps_revoked:
  assumes "revoked_for_good d g" "\<And>r. r \<in> set rs \<Longrightarrow> \<not> draws_grant g (snd r)"
  shows "\<forall>a \<in> set (fst (sign_run sv res rs d)). \<not> lets_in g a"
  using assms
proof (induction rs arbitrary: d)
  case (Cons r rs)
  note step = step_keeps_revoked [OF Cons.prems(1), of r]
  have "\<not> draws_grant g (snd r)" using Cons.prems(2) by simp
  with Cons.IH [OF step(1)] Cons.prems(2) step(2) show ?case unfolding sign_run_Cons by auto
qed simp

lemma replay_revokes:
  assumes "fst (sign_step sv res r d) = Exchanged (Replayed g)"
  shows "revoked_for_good (snd (sign_step sv res r d)) g"
    "g \<notin> au_grant_id ` set (rd_codes (snd (sign_step sv res r d)))" "g \<notin> tk_grant_id ` set (rd_tokens (snd (sign_step sv res r d)))"
proof -
  obtain now q where r: "r = (now, q)" by (cases r)
  have gone: "snd (sign_step sv res r d) = revoke_grant d g now"
  proof (cases q)
    case (AskCode w client code verifier uri)
    obtain x d' where e: "exchange_code sv w res now client code verifier uri d = (x, d')" by fastforce
    have "x = Ok (Replayed g)" using assms by (cases x) (simp_all add: r AskCode answer_of_def e)
    with e have "d' = revoke_grant d g now" by (cases rule: exchange_code_cases) auto
    then show ?thesis by (simp add: r AskCode answer_of_def e)
  next
    case (AskRefresh w client refresh)
    obtain x d' where e: "exchange_refresh sv w res now client refresh d = (x, d')" by fastforce
    have "x = Ok (Replayed g)" using assms by (cases x) (simp_all add: r AskRefresh answer_of_def e)
    with e have "d' = revoke_grant d g now" by (cases rule: exchange_refresh_cases) auto
    then show ?thesis by (simp add: r AskRefresh answer_of_def e)
  qed (use assms in \<open>auto simp: r answer_of_def Let_def split_beta split: sum.splits\<close>)
  show "revoked_for_good (snd (sign_step sv res r d)) g" unfolding gone by (rule revoke_grant_for_good)
  show "g \<notin> au_grant_id ` set (rd_codes (snd (sign_step sv res r d)))" "g \<notin> tk_grant_id ` set (rd_tokens (snd (sign_step sv res r d)))"
    unfolding gone revoke_grant_held by auto
qed

section \<open>Properties\<close>

text \<open>
  Claim C37: an authorization code and a refresh token work once. However requests follow one another, the exchanges that
  issued tokens for a code with a given hash are at most as many as the times a connected agent was given such a code, and
  the exchanges that issued tokens for a refresh token are at most as many as the times it was issued.
\<close>

theorem codes_and_refresh_tokens_work_once:
  "sql_count (code_exchanged sv h) (sign_trace sv res rs empty_rules_db) \<le> sql_count (code_given sv h) (sign_trace sv res rs empty_rules_db) \<and>
   sql_count (refresh_exchanged sv h) (sign_trace sv res rs empty_rules_db) \<le> sql_count (refresh_given sv h) (sign_trace sv res rs empty_rules_db)"
proof -
  have none: "code_stock h empty_rules_db = 0" "refresh_stock h empty_rules_db = 0"
    by (simp_all add: code_stock_def refresh_stock_def empty_rules_db_def sql_count_def)
  have "sql_count (code_exchanged sv h) (sign_trace sv res rs empty_rules_db) \<le>
      code_stock h empty_rules_db + sql_count (code_given sv h) (sign_trace sv res rs empty_rules_db)"
    by (rule taken_at_most_added) (rule step_code_stock)
  moreover have "sql_count (refresh_exchanged sv h) (sign_trace sv res rs empty_rules_db) \<le>
      refresh_stock h empty_rules_db + sql_count (refresh_given sv h) (sign_trace sv res rs empty_rules_db)"
    by (rule taken_at_most_added) (rule step_refresh_stock)
  ultimately show ?thesis unfolding none by simp
qed


definition plain_sign_env :: sign_env where
  "plain_sign_env = \<lparr>sv_sha = (\<lambda>s. s), sv_s256 = (\<lambda>s. s), sv_wrap = (\<lambda>n s a k. k), sv_unwrap = (\<lambda>s a k. Some k), sv_public = (\<lambda>k. Some k),
     sv_seal = (\<lambda>n p k a. Some k), sv_url = (\<lambda>_. None)\<rparr>"

definition drawn :: "string \<Rightarrow> draws" where
  "drawn s = \<lparr>dw_access = s, dw_refresh = s, dw_grant_secret = s, dw_agent_key = s, dw_nonce = s, dw_id = s, dw_code = s, dw_page = s, dw_csrf = s\<rparr>"

definition replayed_db :: rules_db where
  "replayed_db = empty_rules_db
     \<lparr>rd_mailboxes := [\<lparr>rm_id = 1, rm_address = ''a'', rm_publisher_hash = ''p'', rm_app_key = None\<rparr>],
      rd_agents := [\<lparr>ag_id = ''g'', ag_mailbox = 1, ag_name = ''n'', ag_token_hash = '''', ag_created_at = 0, ag_revoked_at = None,
        ag_kind = KIND_OAUTH, ag_client_id = Some ''c'', ag_last_used_at = None, ag_key_wrap = None, ag_app_seal = None\<rparr>],
      rd_tokens := [\<lparr>tk_hash = ''r'', tk_kind = TOKEN_REFRESH, tk_grant_id = ''g'', tk_resource = ''u'', tk_created_at = 0,
        tk_expires_at = 9, tk_used_at = Some 1\<rparr>]\<rparr>"



section \<open>Tokens sign in\<close>

lemma fold_or_zero:
  "fold (\<lambda>(x, y) acc. acc OR f x y) ps (a :: 8 word) = 0 \<longleftrightarrow> a = 0 \<and> (\<forall>(x, y) \<in> set ps. f x y = 0)"
  by (induction ps arbitrary: a) (auto simp: or_eq_0_iff)

lemma of_char_8_eq: "(of_char c :: 8 word) = of_char e \<longleftrightarrow> c = e"
proof
  have n: "unat (of_char x :: 8 word) = (of_char x :: nat)" for x
  proof -
    have "(of_char x :: 8 word) = of_nat (of_char x)" by (simp add: of_nat_of_char)
    then show ?thesis by (simp add: unat_of_nat)
  qed
  assume "(of_char c :: 8 word) = of_char e"
  then have "(of_char c :: nat) = of_char e" using n by metis
  then show "c = e" by simp
qed simp

lemma xor_zero_iff: "x XOR y = 0 \<longleftrightarrow> x = (y :: 8 word)"
  by (metis bit.xor_self xor.assoc xor.left_neutral xor.right_neutral)

lemma same_iff: "same a b \<longleftrightarrow> a = b"
proof
  assume "same a b"
  then have "length a = length b" "\<forall>(x, y) \<in> set (zip a b). x = y"
    by (auto simp: same_def fold_or_zero xor_zero_iff of_char_8_eq)
  then show "a = b" by (metis (mono_tags, lifting) case_prodD list_all2_eq list_all2_iff case_prodI2)
qed (auto simp: same_def fold_or_zero set_zip)

text \<open>What of an agent decides whether its tokens are good.\<close>

definition agent_shape :: "agent_token_row \<Rightarrow> string \<times> int \<times> int option \<times> string \<times> string option" where
  "agent_shape a = (ag_id a, ag_mailbox a, ag_revoked_at a, ag_kind a, ag_client_id a)"

definition same_agents :: "rules_db \<Rightarrow> rules_db \<Rightarrow> bool" where
  "same_agents d d' \<longleftrightarrow> map agent_shape (rd_agents d') = map agent_shape (rd_agents d) \<and> rd_mailboxes d' = rd_mailboxes d"

lemma same_agents_key: "same_agents d (snd (agent_key sv w d i m secret u))"
  by (simp add: agent_key_def Let_def same_agents_def set_agent_keys_def set_app_seal_def map_key_update agent_shape_def
      split: option.splits prod.splits)

lemma find_map_shape:
  assumes "map f xs = map f ys" "\<And>x y. f x = f y \<Longrightarrow> P x = P y" "List.find P xs = Some x"
  obtains y where "List.find P ys = Some y" "f y = f x"
  using assms
proof (induction xs arbitrary: ys thesis)
  case (Cons z xs)
  from Cons.prems(2) obtain y ys' where ys: "ys = y # ys'" "f z = f y" "map f xs = map f ys'" by (cases ys) auto
  have p: "P z = P y" by (rule Cons.prems(3)) (rule ys(2))
  show ?case
  proof (cases "P z")
    case True
    then show ?thesis using Cons.prems(1) [of y] Cons.prems(4) ys p by simp
  next
    case False
    with Cons.prems(4) have found: "List.find P xs = Some x" by simp
    obtain y' where "List.find P ys' = Some y'" "f y' = f x" by (rule Cons.IH [OF _ ys(3) Cons.prems(3) found])
    then show ?thesis using Cons.prems(1) [of y'] ys(1) p False by simp
  qed
qed simp

lemma same_agents_token:
  assumes "same_agents d d'" "agent_token d g = Some (a, address)"
  obtains b where "agent_token d' g = Some (b, address)" "agent_shape b = agent_shape a"
proof -
  from assms(2) obtain m where a: "List.find (\<lambda>a. ag_id a = g) (rd_agents d) = Some a"
    and m: "List.find (\<lambda>m. rm_id m = ag_mailbox a) (rd_mailboxes d) = Some m" "address = rm_address m"
    by (auto simp: agent_token_def split: option.splits)
  obtain b where b: "List.find (\<lambda>a. ag_id a = g) (rd_agents d') = Some b" "agent_shape b = agent_shape a"
    by (rule find_map_shape [OF _ _ a, of agent_shape "rd_agents d'"]) (use assms(1) in \<open>auto simp: same_agents_def agent_shape_def\<close>)
  then have "agent_token d' g = Some (b, address)" using assms(1) m by (simp add: agent_token_def same_agents_def agent_shape_def)
  from that [OF this b(2)] show ?thesis .
qed

lemma issue_tokens_agents:
  assumes "issue_tokens sv w d g res now secret = Inr (access, refresh, d3)"
  shows "same_agents d d3"
proof -
  have "same_agents d (case agent_token d g of Some (a, _) \<Rightarrow> snd (agent_key sv w d g (ag_mailbox a) secret ReplaceKey) | None \<Rightarrow> d)"
    by (auto simp: same_agents_key split: option.splits) (simp add: same_agents_def)
  with assms show ?thesis
    by (auto simp: issue_tokens_def Let_def map_sum_Inr insert_oauth_token_def same_agents_def split: sum.splits if_splits)
qed

lemma issued_token_signs_in:
  assumes issued: "issue_tokens sv w d g res now secret = Inr (access, refresh, d3)" and live: "live_grant d g client"
    and later: "later < now + ACCESS_TTL_MS"
  shows "\<exists>m address. agent_sign_in sv (Some res) later access d3 = Some (g, m, address, grant_secret_of access)"
proof -
  from issued obtain ta tr where t: "rd_tokens d3 = (rd_tokens d @ [ta]) @ [tr]" "tk_hash ta \<notin> tk_hash ` set (rd_tokens d)"
    "tk_grant_id ta = g" "tk_kind ta = TOKEN_ACCESS" "tk_hash ta = sv_sha sv access" "tk_resource ta = res"
    "tk_expires_at ta = now + ACCESS_TTL_MS" "access = access_token w secret"
    by (rule issue_tokens_held)
  have "List.find (\<lambda>t. tk_hash t = sv_sha sv access) (rd_tokens d) = None"
    using t(2,5) by (force simp: find_None_iff)
  then have token: "oauth_token d3 (sv_sha sv access) = Some ta" using t(1,5) by (simp add: oauth_token_def find_append)
  from live obtain a address where a: "agent_token d g = Some (a, address)" "ag_kind a = KIND_OAUTH" "ag_revoked_at a = None"
    by (auto simp: live_grant_def split: option.splits)
  obtain b where b: "agent_token d3 g = Some (b, address)" "agent_shape b = agent_shape a"
    by (rule same_agents_token [OF issue_tokens_agents [OF issued] a(1)])
  have shape: "ag_kind b = KIND_OAUTH" "ag_revoked_at b = None" "ag_id b = g"
    using b(2) a agent_token_row [OF a(1)] by (auto simp: agent_shape_def)
  have "prefix ACCESS_PREFIX access" by (simp add: t(8) access_token_def)
  then show ?thesis using token b(1) shape t later by (simp add: agent_sign_in_def same_iff)
qed

text \<open>
  Claim C39: an authorization code is exchanged for tokens only while it is unused and in time, by the client and for the
  redirect URI it was made for, with the verifier of its PKCE challenge, at the server it was made for; the access token
  it is exchanged for then signs in the agent of the code's grant until it expires, as long as nothing else happens.
\<close>

theorem a_code_signs_its_agent_in:
  assumes "exchange_code sv w res now client code verifier uri d = (Ok (Issued g access refresh), d')"
    and "later < now + ACCESS_TTL_MS"
  shows "(\<exists>row \<in> set (rd_codes d). au_code_hash row = sv_sha sv code \<and> au_grant_id row = g \<and> au_used_at row = None \<and>
      now < au_expires_at row \<and> au_client_id row = client \<and> uri = Some (au_redirect_uri row) \<and> valid_verifier verifier \<and>
      sv_s256 sv verifier = au_code_challenge row \<and> au_resource row = res) \<and>
    (\<exists>m address. agent_sign_in sv (Some res) later access d' = Some (g, m, address, grant_secret_of access))"
  using assms(1)
proof (cases rule: exchange_code_cases)
  case (issued row a r)
  from issued(4) have g: "g = au_grant_id row" "a = access" by simp_all
  have row: "row \<in> set (rd_codes d)" "au_code_hash row = sv_sha sv code" using auth_code_row [OF issued(1)] by blast+
  have live: "live_grant (use_auth_code d (sv_sha sv code) now) g client" using issued(3) by (simp add: code_passes_def g)
  have "\<exists>m address. agent_sign_in sv (Some res) later access d' = Some (g, m, address, grant_secret_of access)"
    using issued_token_signs_in [OF issued(5) _ assms(2)] live g by simp
  moreover have "au_used_at row = None \<and> now < au_expires_at row \<and> au_client_id row = client \<and> uri = Some (au_redirect_uri row) \<and>
      valid_verifier verifier \<and> sv_s256 sv verifier = au_code_challenge row \<and> au_resource row = res"
    using issued(2,3) by (simp add: code_passes_def pkce_matches_def same_iff)
  ultimately show ?thesis using row g by blast
qed auto

definition verifier_a :: string where "verifier_a = replicate 43 (CHR ''a'')"

definition coded_db :: rules_db where
  "coded_db = replayed_db\<lparr>rd_codes := [\<lparr>au_code_hash = ''k'', au_grant_id = ''g'', au_client_id = ''c'', au_redirect_uri = ''v'',
     au_code_challenge = verifier_a, au_resource = ''u'', au_expires_at = 5, au_used_at = None\<rparr>]\<rparr>"

theorem a_code_signs_its_agent_in_witness:
  "\<exists>m address. agent_sign_in plain_sign_env (Some ''u'') 3 ''oagc_oat_x.x''
     (snd (exchange_code plain_sign_env (drawn ''x'') ''u'' 2 ''c'' ''k'' verifier_a (Some ''v'') coded_db)) =
     Some (''g'', m, address, grant_secret_of ''oagc_oat_x.x'')"
proof -
  let ?x = "exchange_code plain_sign_env (drawn ''x'') ''u'' 2 ''c'' ''k'' verifier_a (Some ''v'') coded_db"
  have "fst ?x = Ok (Issued ''g'' ''oagc_oat_x.x'' ''oagc_ort_x.x'')" by code_simp
  then have "?x = (Ok (Issued ''g'' ''oagc_oat_x.x'' ''oagc_ort_x.x''), snd ?x)" by (metis prod.collapse)
  from a_code_signs_its_agent_in [OF this, of 3] show ?thesis by (simp add: ACCESS_TTL_MS_def)
qed


end
