(* ===== verification/Consent.thy ===== *)
theory Consent
  imports SignIn
begin

text \<open>
  The consent page of the rules server (\<^verbatim>\<open>rules-server/src/oauth.rs\<close>): its addresses, the requests it opens for and
  the connect codes typed into it, with the limits on guessing them. A form is the list of its decoded pairs, a
  header the string of its bytes. Two clocks are read: \<open>inst\<close>, by which the limits refill, and \<open>now\<close>, in milliseconds since
  1970; one request reads each once. The HTML, the headers of the answers and logging are not modelled.
\<close>

section \<open>Addresses\<close>

definition is_loopback :: "string \<Rightarrow> bool" where
  "is_loopback host \<longleftrightarrow> host \<in> {''127.0.0.1'', ''[::1]'', ''::1'', ''localhost''}"

definition host_or_none :: "web_url \<Rightarrow> string" where
  "host_or_none u = (case wu_host u of Some h \<Rightarrow> h | None \<Rightarrow> '''')"

datatype base_error = NotAUrl | NoHost | NotHttps | NotAnOrigin

definition public_base :: "sign_env \<Rightarrow> string \<Rightarrow> (base_error, string) result" where
  "public_base sv input =
     (case sv_url sv (trim input) of
        None \<Rightarrow> Err NotAUrl
      | Some u \<Rightarrow>
          (let host = host_or_none u
           in if host = '''' then Err NoHost
              else if \<not> (wu_scheme u = ''https'' \<or> wu_scheme u = ''http'' \<and> is_loopback host) then Err NotHttps
              else if wu_path u \<noteq> ''/'' \<or> wu_query u \<noteq> None \<or> wu_fragment u \<noteq> None \<or> wu_username u \<noteq> '''' then Err NotAnOrigin
              else Ok (wu_origin u)))"

definition valid_redirect_uri :: "sign_env \<Rightarrow> string \<Rightarrow> bool" where
  "valid_redirect_uri sv s \<longleftrightarrow>
     (case sv_url sv s of
        None \<Rightarrow> False
      | Some u \<Rightarrow>
          host_or_none u \<noteq> '''' \<and> wu_fragment u = None \<and> wu_username u = '''' \<and> wu_password u = None \<and>
          (wu_scheme u = ''https'' \<or> wu_scheme u = ''http'' \<and> is_loopback (host_or_none u)))"

definition loopback_url :: "web_url \<Rightarrow> bool" where
  "loopback_url u \<longleftrightarrow> wu_scheme u = ''http'' \<and> (case wu_host u of Some h \<Rightarrow> is_loopback h | None \<Rightarrow> False)"

definition redirect_matches :: "sign_env \<Rightarrow> string \<Rightarrow> string \<Rightarrow> bool" where
  "redirect_matches sv registered given \<longleftrightarrow>
     (if registered = given then True
      else (case (sv_url sv registered, sv_url sv given) of
              (Some a, Some b) \<Rightarrow>
                loopback_url a \<and> loopback_url b \<and> wu_host a = wu_host b \<and> wu_path a = wu_path b \<and> wu_query a = wu_query b \<and>
                wu_fragment b = None \<and> wu_username b = '''' \<and> wu_password b = None
            | _ \<Rightarrow> False))"

definition same_resource :: "sign_env \<Rightarrow> string \<Rightarrow> string \<Rightarrow> bool" where
  "same_resource sv given ours \<longleftrightarrow>
     (case sv_url sv given of
        None \<Rightarrow> False
      | Some u \<Rightarrow> wu_fragment u = None \<and> wu_query u = None \<and>
          wu_origin u @ rev (dropWhile (\<lambda>c. c = CHR ''/'') (rev (wu_path u))) = ours)"

text \<open>Parameters, each at most once: the name given twice, or the parameters.\<close>

fun params :: "(string \<times> string) list \<Rightarrow> (string \<rightharpoonup> string) \<Rightarrow> (string, string \<rightharpoonup> string) result" where
  "params [] out = Ok out"
| "params ((k, v) # kvs) out = (if out k \<noteq> None then Err k else params kvs (out(k \<mapsto> v)))"

section \<open>State\<close>

record client_failures =
  cf_count :: nat
  cf_since :: int
  cf_locked_until :: "int option"

record oauth_state =
  oa_issuer :: string
  oa_resource :: string
  oa_pending :: "(string \<times> pending_consent) list"
  oa_failures :: "(string \<times> client_failures) list"
  oa_wrong_codes :: rate_limiter
  oa_code_checks :: rate_limiter
  oa_consents :: rate_limiter
  oa_consents_all :: rate_limiter

definition CONSENTS_PER_ADDRESS_PER_MINUTE :: nat where "CONSENTS_PER_ADDRESS_PER_MINUTE = 30"
definition CONSENTS_PER_MINUTE :: nat where "CONSENTS_PER_MINUTE = 600"

definition oauth_new :: "string \<Rightarrow> oauth_state" where
  "oauth_new issuer =
     \<lparr>oa_issuer = issuer, oa_resource = issuer @ ''/mcp'', oa_pending = [], oa_failures = [],
      oa_wrong_codes = rate_limiter_new WRONG_CODES_PER_MINUTE, oa_code_checks = rate_limiter_new CODES_PER_ADDRESS_PER_MINUTE,
      oa_consents = rate_limiter_new CONSENTS_PER_ADDRESS_PER_MINUTE, oa_consents_all = rate_limiter_new CONSENTS_PER_MINUTE\<rparr>"

definition lock_key :: "string \<Rightarrow> string \<Rightarrow> string" where
  "lock_key client address = client @ '' '' @ address"

definition failures_locked :: "int \<Rightarrow> client_failures \<Rightarrow> bool" where
  "failures_locked now f \<longleftrightarrow> (case cf_locked_until f of Some until \<Rightarrow> now < until | None \<Rightarrow> False)"

definition oauth_locked :: "oauth_state \<Rightarrow> string \<Rightarrow> string \<Rightarrow> int \<Rightarrow> bool" where
  "oauth_locked o1 client address now \<longleftrightarrow>
     (case map_of (oa_failures o1) (lock_key client address) of Some f \<Rightarrow> failures_locked now f | None \<Rightarrow> False)"

definition no_failures :: client_failures where
  "no_failures = \<lparr>cf_count = 0, cf_since = 0, cf_locked_until = None\<rparr>"

definition one_more_failure :: "int \<Rightarrow> client_failures \<Rightarrow> bool \<times> client_failures" where
  "one_more_failure now f0 =
     (let f = (if CLIENT_LOCK_MS \<le> now - cf_since f0 then \<lparr>cf_count = 0, cf_since = now, cf_locked_until = None\<rparr> else f0);
          f = f\<lparr>cf_count := cf_count f + 1\<rparr>
      in if TRIES_PER_CLIENT \<le> cf_count f then (True, f\<lparr>cf_locked_until := Some (now + CLIENT_LOCK_MS)\<rparr>) else (False, f))"

definition count_failure :: "oauth_state \<Rightarrow> string \<Rightarrow> string \<Rightarrow> int \<Rightarrow> bool \<times> oauth_state" where
  "count_failure o1 client address now =
     (let fs = (if MAX_PENDING < length (oa_failures o1)
                then filter (\<lambda>(_, f). failures_locked now f \<or> now - cf_since f < CLIENT_LOCK_MS) (oa_failures o1)
                else oa_failures o1);
          key = lock_key client address;
          (hit, f) = one_more_failure now (case map_of fs key of Some f \<Rightarrow> f | None \<Rightarrow> no_failures)
      in (hit, o1\<lparr>oa_failures := AList.update key f fs\<rparr>))"

definition take_pending :: "oauth_state \<Rightarrow> string \<Rightarrow> pending_consent option \<times> oauth_state" where
  "take_pending o1 r = (map_of (oa_pending o1) r, o1\<lparr>oa_pending := AList.delete r (oa_pending o1)\<rparr>)"

definition put_pending :: "oauth_state \<Rightarrow> int \<Rightarrow> string \<Rightarrow> pending_consent \<Rightarrow> bool \<times> oauth_state" where
  "put_pending o1 now r p =
     (let ps = filter (\<lambda>(_, p). now - pn_created_at p < CONSENT_TTL_MS) (oa_pending o1)
      in if MAX_PENDING \<le> length ps then (False, o1\<lparr>oa_pending := ps\<rparr>)
         else (True, o1\<lparr>oa_pending := AList.update r p ps\<rparr>))"

section \<open>The consent page\<close>

datatype consent_answer =
    ErrorPage nat string
  | ConsentPage string "string option"
  | BackWithError string string
  | BackWithCode string
  | ServerError

definition BAD_REQUEST :: nat where "BAD_REQUEST = 400"
definition FORBIDDEN :: nat where "FORBIDDEN = 403"
definition TOO_MANY_REQUESTS :: nat where "TOO_MANY_REQUESTS = 429"
definition SERVICE_UNAVAILABLE :: nat where "SERVICE_UNAVAILABLE = 503"

text \<open>A browser is sent back only to an address that parses.\<close>

definition back_to :: "sign_env \<Rightarrow> string \<Rightarrow> consent_answer \<Rightarrow> consent_answer" where
  "back_to sv redirect_uri a =
     (if sv_url sv redirect_uri = None then ErrorPage BAD_REQUEST ''the app's return address is not a URL'' else a)"

definition form_back_with_error :: "sign_env \<Rightarrow> pending_consent \<Rightarrow> string \<Rightarrow> consent_answer" where
  "form_back_with_error sv p why = back_to sv (pn_redirect_uri p) (BackWithError ''access_denied'' why)"

text \<open>What is checked of a request before its page is shown: the return address and the challenge, or the error.\<close>

definition unusable :: "string \<Rightarrow> string \<Rightarrow> consent_answer" where
  "unusable code why = ErrorPage BAD_REQUEST (''The app's request cannot be used ('' @ code @ ''): '' @ why @ ''.'')"

definition return_address :: "sign_env \<Rightarrow> client_row \<Rightarrow> string option \<Rightarrow> (consent_answer, string) result" where
  "return_address sv c given =
     (case given of
        Some g \<Rightarrow>
          if list_ex (\<lambda>r. redirect_matches sv r g) (ro_redirect_uris c) then Ok g
          else Err (ErrorPage BAD_REQUEST ''The app's return address is not one it registered.'')
      | None \<Rightarrow>
          (case ro_redirect_uris c of
             [r] \<Rightarrow> Ok r
           | _ \<Rightarrow> Err (ErrorPage BAD_REQUEST ''The app did not say where to return (redirect_uri).'')))"

definition pkce_challenge :: "string option \<Rightarrow> string option \<Rightarrow> (consent_answer, string) result" where
  "pkce_challenge challenge kind =
     (case challenge of
        Some c \<Rightarrow>
          if kind = Some ''S256'' then
            (if valid_challenge c then Ok c else Err (unusable ''invalid_request'' ''code_challenge is not an S256 challenge''))
          else Err (unusable ''invalid_request'' ''PKCE is required: send code_challenge with code_challenge_method=S256'')
      | None \<Rightarrow> Err (unusable ''invalid_request'' ''PKCE is required: send code_challenge with code_challenge_method=S256''))"

definition open_consent ::
    "sign_env \<Rightarrow> draws \<Rightarrow> int \<Rightarrow> string \<Rightarrow> (string \<rightharpoonup> string) \<Rightarrow> rules_db \<Rightarrow> oauth_state \<Rightarrow> consent_answer \<times> oauth_state" where
  "open_consent sv w now address q d o1 =
     (case q ''client_id'' of
        None \<Rightarrow> (ErrorPage BAD_REQUEST ''The app did not say who it is (client_id).'', o1)
      | Some i \<Rightarrow>
      (case oauth_client d i of
        None \<Rightarrow> (ErrorPage BAD_REQUEST ''This app is not registered here (unknown client_id).'', o1)
      | Some c \<Rightarrow>
      (case return_address sv c (q ''redirect_uri'') of
        Inl e \<Rightarrow> (e, o1)
      | Inr redirect_uri \<Rightarrow>
          if q ''response_type'' \<noteq> Some ''code'' then
            (unusable ''unsupported_response_type'' ''only response_type=code is supported'', o1)
          else
      (case pkce_challenge (q ''code_challenge'') (q ''code_challenge_method'') of
        Inl e \<Rightarrow> (e, o1)
      | Inr challenge \<Rightarrow>
          if (case q ''resource'' of Some r \<Rightarrow> \<not> same_resource sv r (oa_resource o1) | None \<Rightarrow> False) then
            (unusable ''invalid_target'' ''this server issues tokens only for its own /mcp'', o1)
          else if oauth_locked o1 (ro_id c) address now then
            (ErrorPage FORBIDDEN ''Too many wrong connect codes were tried for this app from here. Try again in an hour.'', o1)
          else
            (let p = \<lparr>pn_client_id = ro_id c, pn_client_name = ro_name c, pn_redirect_uri = redirect_uri, pn_state = q ''state'',
                      pn_challenge = challenge, pn_csrf_hash = sv_sha sv (dw_csrf w), pn_created_at = now, pn_tries = 0\<rparr>;
                 (kept, o2) = put_pending o1 now (dw_page w) p
             in if kept then (ConsentPage (dw_page w) None, o2)
                else (ErrorPage SERVICE_UNAVAILABLE ''This server is busy; try again in a few minutes.'', o2))))))"

definition authorize ::
    "sign_env \<Rightarrow> draws \<Rightarrow> rat \<Rightarrow> int \<Rightarrow> string \<Rightarrow> (string \<times> string) list \<Rightarrow> rules_db \<Rightarrow> oauth_state \<Rightarrow> consent_answer \<times> oauth_state" where
  "authorize sv w inst now address query d o1 =
     (let (one, c1) = limit_take (''consent:'' @ address) inst (oa_consents o1);
          o2 = o1\<lparr>oa_consents := c1\<rparr>
      in case one of
           Inl _ \<Rightarrow> (ErrorPage TOO_MANY_REQUESTS ''Too many sign-in pages from here; try again in a minute.'', o2)
         | Inr _ \<Rightarrow>
             (let (every, c2) = limit_take ''all'' inst (oa_consents_all o2);
                  o3 = o2\<lparr>oa_consents_all := c2\<rparr>
              in case every of
                   Inl _ \<Rightarrow> (ErrorPage TOO_MANY_REQUESTS ''This server is busy; try again in a minute.'', o3)
                 | Inr _ \<Rightarrow>
                     (case params query Map.empty of
                        Inl k \<Rightarrow> (ErrorPage BAD_REQUEST (k @ '' is given more than once''), o3)
                      | Inr q \<Rightarrow> open_consent sv w now address q d o3)))"

section \<open>The connect code\<close>

definition cookie_name :: "string \<Rightarrow> string" where
  "cookie_name r = ''oagc_consent_'' @ take 16 r"

definition cookie_of :: "string list \<Rightarrow> string \<Rightarrow> string option" where
  "cookie_of values name =
     map_option snd (List.find (\<lambda>(k, _). k = name)
       (List.map_filter (\<lambda>kv. split_once (CHR ''='') (trim kv))
         (concat (map (split_on (\<lambda>c. c = CHR '';'')) (List.map_filter header_str values)))))"

text \<open>The form was posted by the page itself: its origin, if there is one, is ours, and its cookie is the page's.\<close>

definition posted_from_page :: "sign_env \<Rightarrow> oauth_state \<Rightarrow> string option \<Rightarrow> string list \<Rightarrow> string \<Rightarrow> pending_consent \<Rightarrow> bool" where
  "posted_from_page sv o1 origin cookies r p \<longleftrightarrow>
     (case origin of None \<Rightarrow> True | Some v \<Rightarrow> header_str v = Some (oa_issuer o1)) \<and>
     (case cookie_of cookies (cookie_name r) of Some c \<Rightarrow> same (sv_sha sv c) (pn_csrf_hash p) | None \<Rightarrow> False)"

definition wrong_code_message :: "nat \<Rightarrow> string" where
  "wrong_code_message left =
     ''That code is wrong, used or expired. Check it in Kaluta, or make a new one. '' @ show_nat left @ '' '' @
     (if left = 1 then ''try'' else ''tries'') @ '' left.''"

text \<open>The code was wrong: it counts against the page, the server and the client at the address.\<close>

definition wrong_code ::
    "sign_env \<Rightarrow> rat \<Rightarrow> int \<Rightarrow> string \<Rightarrow> string \<Rightarrow> pending_consent \<Rightarrow> oauth_state \<Rightarrow> consent_answer \<times> oauth_state" where
  "wrong_code sv inst now address r p0 o1 =
     (let p = p0\<lparr>pn_tries := pn_tries p0 + 1\<rparr>;
          o2 = o1\<lparr>oa_wrong_codes := snd (limit_take ''all'' inst (oa_wrong_codes o1))\<rparr>;
          (locks, o3) = count_failure o2 (pn_client_id p) address now
      in if locks \<or> TRIES_PER_CONSENT \<le> pn_tries p
         then (form_back_with_error sv p ''too many wrong connect codes'', o3)
         else (ConsentPage r (Some (wrong_code_message (TRIES_PER_CONSENT - pn_tries p))), snd (put_pending o3 now r p)))"

text \<open>The limits on trying codes: ten a minute from an address, right or wrong, and sixty wrong ones on the whole server.\<close>

definition code_limits :: "rat \<Rightarrow> string \<Rightarrow> oauth_state \<Rightarrow> string option \<times> oauth_state" where
  "code_limits inst address o1 =
     (let (mine, c1) = limit_take (''codes:'' @ address) inst (oa_code_checks o1);
          o2 = o1\<lparr>oa_code_checks := c1\<rparr>
      in case mine of
           Inl _ \<Rightarrow> (Some ''Too many codes were tried from here just now. Wait a minute and try again.'', o2)
         | Inr _ \<Rightarrow>
             (let (every, c2) = limit_peek ''all'' inst (oa_wrong_codes o2);
                  o3 = o2\<lparr>oa_wrong_codes := c2\<rparr>
              in case every of
                   Inl _ \<Rightarrow> (Some ''Too many wrong codes were tried on this server just now. Wait a minute and try again.'', o3)
                 | Inr _ \<Rightarrow> (None, o3)))"

text \<open>What is checked of the form before its code: the answer, or the page's id, the page and the code as typed.\<close>

definition code_posted ::
    "sign_env \<Rightarrow> rat \<Rightarrow> int \<Rightarrow> string \<Rightarrow> string option \<Rightarrow> string list \<Rightarrow> (string \<times> string) list \<Rightarrow> oauth_state
     \<Rightarrow> (consent_answer, string \<times> pending_consent \<times> string) result \<times> oauth_state" where
  "code_posted sv inst now address origin cookies body o1 =
     (case params body Map.empty of
        Inl k \<Rightarrow> (Err (ErrorPage BAD_REQUEST (k @ '' is given more than once'')), o1)
      | Inr form \<Rightarrow>
          (let r = (case form ''request'' of Some r \<Rightarrow> r | None \<Rightarrow> '''');
               (found, o2) = take_pending o1 r
           in case found of
                None \<Rightarrow> (Err (ErrorPage BAD_REQUEST ''This page has expired or was already used.''), o2)
              | Some p \<Rightarrow>
                  if \<not> posted_from_page sv o2 origin cookies r p
                  then (Err (ErrorPage FORBIDDEN ''This form was not sent from its own page.''), o2)
                  else if CONSENT_TTL_MS \<le> now - pn_created_at p
                  then (Err (form_back_with_error sv p ''the consent page expired''), o2)
                  else if form ''action'' = Some ''deny'' then (Err (form_back_with_error sv p ''the user said no''), o2)
                  else if oauth_locked o2 (pn_client_id p) address now
                  then (Err (form_back_with_error sv p ''too many wrong connect codes from this app; try again in an hour''), o2)
                  else (case code_limits inst address o2 of
                          (Some message, o3) \<Rightarrow> (Err (ConsentPage r (Some message)), snd (put_pending o3 now r p))
                        | (None, o3) \<Rightarrow>
                            (Ok (r, p, case form ''connect_code'' of Some t \<Rightarrow> t | None \<Rightarrow> ''''), o3))))"

definition try_code ::
    "sign_env \<Rightarrow> draws \<Rightarrow> rat \<Rightarrow> int \<Rightarrow> string \<Rightarrow> string \<Rightarrow> pending_consent \<Rightarrow> string \<Rightarrow> rules_db \<Rightarrow> oauth_state
     \<Rightarrow> consent_answer \<times> rules_db \<times> oauth_state" where
  "try_code sv w inst now address r p typed d o1 =
     (case normalize_connect_code typed of
        None \<Rightarrow> (let (a, o2) = wrong_code sv inst now address r p o1 in (a, d, o2))
      | Some code \<Rightarrow>
          (case connect_agent sv w (oa_resource o1) now p code d of
             (Inl _, d1) \<Rightarrow> (ServerError, d1, o1)
           | (Inr None, d1) \<Rightarrow> (let (a, o2) = wrong_code sv inst now address r p o1 in (a, d1, o2))
           | (Inr (Some _), d1) \<Rightarrow> (back_to sv (pn_redirect_uri p) (BackWithCode (dw_code w)), d1, o1)))"

definition consent ::
    "sign_env \<Rightarrow> draws \<Rightarrow> rat \<Rightarrow> int \<Rightarrow> string \<Rightarrow> string option \<Rightarrow> string list \<Rightarrow> (string \<times> string) list \<Rightarrow> rules_db \<Rightarrow> oauth_state
     \<Rightarrow> consent_answer \<times> rules_db \<times> oauth_state" where
  "consent sv w inst now address origin cookies body d o1 =
     (case code_posted sv inst now address origin cookies body o1 of
        (Inl a, o2) \<Rightarrow> (a, d, o2)
      | (Inr (r, p, typed), o2) \<Rightarrow> try_code sv w inst now address r p typed d o2)"

section \<open>Wrong codes lock a client out\<close>

datatype consent_request =
    OpenPage draws string "(string \<times> string) list"
  | PostCode draws string "string option" "string list" "(string \<times> string) list"

fun consent_step :: "sign_env \<Rightarrow> rat \<times> int \<times> consent_request \<Rightarrow> rules_db \<times> oauth_state \<Rightarrow> consent_answer \<times> rules_db \<times> oauth_state" where
  "consent_step sv (inst, now, OpenPage w address query) (d, o1) =
     (let (a, o2) = authorize sv w inst now address query d o1 in (a, d, o2))"
| "consent_step sv (inst, now, PostCode w address origin cookies body) (d, o1) =
     consent sv w inst now address origin cookies body d o1"

text \<open>Whether a code as typed is right, and against which client and address a request's wrong one counts.\<close>

definition code_is_right :: "sign_env \<Rightarrow> draws \<Rightarrow> int \<Rightarrow> pending_consent \<Rightarrow> string \<Rightarrow> rules_db \<Rightarrow> oauth_state \<Rightarrow> bool" where
  "code_is_right sv w now p typed d o1 \<longleftrightarrow>
     (case normalize_connect_code typed of
        None \<Rightarrow> False | Some code \<Rightarrow> fst (connect_agent sv w (oa_resource o1) now p code d) \<noteq> Ok None)"

fun wrong_guess :: "sign_env \<Rightarrow> rat \<times> int \<times> consent_request \<Rightarrow> rules_db \<times> oauth_state \<Rightarrow> string option" where
  "wrong_guess sv (inst, now, OpenPage w address query) (d, o1) = None"
| "wrong_guess sv (inst, now, PostCode w address origin cookies body) (d, o1) =
     (case code_posted sv inst now address origin cookies body o1 of
        (Inl _, _) \<Rightarrow> None
      | (Inr (r, p, typed), o2) \<Rightarrow> if code_is_right sv w now p typed d o2 then None else Some (lock_key (pn_client_id p) address))"

text \<open>The wrong codes of a run, with their times.\<close>

fun wrong_guesses :: "sign_env \<Rightarrow> (rat \<times> int \<times> consent_request) list \<Rightarrow> rules_db \<times> oauth_state \<Rightarrow> (int \<times> string) list" where
  "wrong_guesses sv [] s = []"
| "wrong_guesses sv (e # es) s =
     (case wrong_guess sv e s of Some k \<Rightarrow> [(fst (snd e), k)] | None \<Rightarrow> []) @ wrong_guesses sv es (snd (consent_step sv e s))"

definition failures_fit :: "int \<Rightarrow> client_failures \<Rightarrow> bool" where
  "failures_fit now f \<longleftrightarrow> 1 \<le> cf_count f \<and> cf_since f \<le> now \<and> (cf_count f < TRIES_PER_CLIENT \<longrightarrow> cf_locked_until f = None) \<and>
     (TRIES_PER_CLIENT \<le> cf_count f \<longrightarrow> (\<exists>u. cf_locked_until f = Some u \<and> cf_since f + CLIENT_LOCK_MS \<le> u))"

definition failures_ok :: "int \<Rightarrow> oauth_state \<Rightarrow> bool" where
  "failures_ok now o1 \<longleftrightarrow> distinct (map fst (oa_failures o1)) \<and> (\<forall>(k, f) \<in> set (oa_failures o1). failures_fit now f)"

text \<open>How many wrong codes are left before a time: five in a row, and what is left of the row that is being counted.\<close>

definition tries_left :: "int \<Rightarrow> client_failures option \<Rightarrow> nat" where
  "tries_left until x =
     (case x of
        None \<Rightarrow> 5
      | Some f \<Rightarrow>
          if cf_count f < 5 then (if until \<le> cf_since f + CLIENT_LOCK_MS then 5 - cf_count f else 9 - cf_count f)
          else (case cf_locked_until f of Some u \<Rightarrow> if until \<le> u then 0 else 5 | None \<Rightarrow> 5))"

lemma one_more_failure_fits:
  assumes fit: "x = None \<or> (\<exists>f. x = Some f \<and> failures_fit before f)" and time: "before \<le> now" "CLIENT_LOCK_MS \<le> now"
    and free: "case x of Some f \<Rightarrow> \<not> failures_locked now f | None \<Rightarrow> True"
    and f': "one_more_failure now (case x of Some f \<Rightarrow> f | None \<Rightarrow> no_failures) = (hit, f')"
  shows "failures_fit now f'"
    and "now < until \<Longrightarrow> until \<le> now + CLIENT_LOCK_MS \<Longrightarrow> tries_left until (Some f') + 1 \<le> tries_left until x"
proof -
  define f where "f = (case x of Some f \<Rightarrow> f | None \<Rightarrow> no_failures)"
  have row: "failures_fit now f' \<and> (now < until \<longrightarrow> until \<le> now + CLIENT_LOCK_MS \<longrightarrow> tries_left until (Some f') + 1 \<le> tries_left until x)"
  proof (cases "CLIENT_LOCK_MS \<le> now - cf_since f")
    case True
    then have new: "f' = \<lparr>cf_count = 1, cf_since = now, cf_locked_until = None\<rparr>"
      using f' by (simp add: one_more_failure_def f_def [symmetric] Let_def TRIES_PER_CLIENT_def)
    have five: "5 \<le> tries_left until x" if "now < until"
    proof (cases x)
      case (Some g)
      then have "failures_fit before g" "\<not> failures_locked now g" "f = g" using fit free by (auto simp: f_def)
      then show ?thesis using Some True that
        by (auto simp: tries_left_def failures_fit_def failures_locked_def TRIES_PER_CLIENT_def split: option.splits)
    qed (simp add: tries_left_def)
    show ?thesis using five time by (simp add: new failures_fit_def TRIES_PER_CLIENT_def) (simp add: tries_left_def)
  next
    case False
    then obtain g where g: "x = Some g" "f = g" using time by (cases x) (auto simp: f_def no_failures_def)
    then have fit': "failures_fit before g" and "\<not> failures_locked now g" using fit free by auto
    with False g have few: "cf_count g < 5" "cf_locked_until g = None" "1 \<le> cf_count g" "cf_since g \<le> now"
      using time by (auto simp: failures_fit_def failures_locked_def TRIES_PER_CLIENT_def not_less)
    then have f'': "f' = g\<lparr>cf_count := cf_count g + 1, cf_locked_until := (if cf_count g = 4 then Some (now + CLIENT_LOCK_MS) else None)\<rparr>"
      using f' False g by (cases g) (auto simp: one_more_failure_def f_def [symmetric] Let_def TRIES_PER_CLIENT_def split: if_splits)
    show ?thesis
    proof (cases "cf_count g = 4")
      case True
      then show ?thesis using few by (simp add: f'' failures_fit_def TRIES_PER_CLIENT_def) (simp add: tries_left_def g)
    next
      case False
      then show ?thesis using few by (simp add: f'' failures_fit_def TRIES_PER_CLIENT_def) (auto simp: tries_left_def g)
    qed
  qed
  then show "failures_fit now f'" "now < until \<Longrightarrow> until \<le> now + CLIENT_LOCK_MS \<Longrightarrow> tries_left until (Some f') + 1 \<le> tries_left until x"
    by blast+
qed

lemma tries_left_pruned:
  assumes "failures_fit before f" "now < until" "\<not> failures_locked now f" "\<not> now - cf_since f < CLIENT_LOCK_MS"
  shows "tries_left until None \<le> tries_left until (Some f)"
  using assms by (auto simp: tries_left_def failures_fit_def failures_locked_def TRIES_PER_CLIENT_def split: option.splits)

lemma failures_fit_later: "failures_fit before f \<Longrightarrow> before \<le> now \<Longrightarrow> failures_fit now f"
  by (auto simp: failures_fit_def)

lemma failures_ok_later: "failures_ok before o1 \<Longrightarrow> before \<le> now \<Longrightarrow> failures_ok now o1"
  by (auto simp: failures_ok_def intro: failures_fit_later)

lemma failures_ok_entry: "failures_ok now o1 \<Longrightarrow> map_of (oa_failures o1) k = Some f \<Longrightarrow> failures_fit now f"
  by (auto simp: failures_ok_def dest!: map_of_SomeD)

lemma map_of_filter_distinct:
  "distinct (map fst xs) \<Longrightarrow> map_of (filter (\<lambda>(k, v). P v) xs) k = (case map_of xs k of Some v \<Rightarrow> if P v then Some v else None | None \<Rightarrow> None)"
proof (induction xs)
  case (Cons x xs)
  then show ?case by (cases x) (force split: option.splits dest: map_of_SomeD)
qed simp

lemma count_failure_keeps:
  assumes ok: "failures_ok before o1" and time: "before \<le> now" "CLIENT_LOCK_MS \<le> now"
    and free: "\<not> oauth_locked o1 client address now" and o2: "o2 = snd (count_failure o1 client address now)"
  shows "failures_ok now o2"
    and "now < until \<Longrightarrow> until \<le> now + CLIENT_LOCK_MS \<Longrightarrow>
      tries_left until (map_of (oa_failures o2) k) + of_bool (lock_key client address = k) \<le> tries_left until (map_of (oa_failures o1) k)"
proof -
  let ?key = "lock_key client address"
  define keep where "keep = (\<lambda>f. failures_locked now f \<or> now - cf_since f < CLIENT_LOCK_MS)"
  define fs where "fs = (if MAX_PENDING < length (oa_failures o1)
    then filter (\<lambda>(_, f). failures_locked now f \<or> now - cf_since f < CLIENT_LOCK_MS) (oa_failures o1) else oa_failures o1)"
  have fs: "fs = (if MAX_PENDING < length (oa_failures o1) then filter (\<lambda>(_, f). keep f) (oa_failures o1) else oa_failures o1)"
    by (simp add: fs_def keep_def)
  define x where "x = map_of fs ?key"
  obtain hit f' where f': "one_more_failure now (case x of Some f \<Rightarrow> f | None \<Rightarrow> no_failures) = (hit, f')" by fastforce
  have o2': "oa_failures o2 = AList.update ?key f' fs"
    unfolding o2 count_failure_def Let_def fs_def [symmetric] x_def [symmetric] f' by simp
  have dist: "distinct (map fst fs)" using ok by (auto simp: fs failures_ok_def distinct_map_filter)
  have fits: "failures_fit before f" if "(k, f) \<in> set fs" for k f
    using ok that by (auto simp: fs failures_ok_def split: if_splits)
  have pruned: "map_of fs k = map_of (oa_failures o1) k \<or> (\<exists>f. map_of (oa_failures o1) k = Some f \<and> \<not> keep f \<and> map_of fs k = None)" for k
    using ok by (auto simp: fs failures_ok_def map_of_filter_distinct split: option.splits)
  have x: "x = None \<or> (\<exists>f. x = Some f \<and> failures_fit before f)"
    using fits map_of_SomeD [of fs ?key] by (cases x) (auto simp: x_def)
  have free': "case x of Some f \<Rightarrow> \<not> failures_locked now f | None \<Rightarrow> True"
    using pruned [of ?key] free by (auto simp: x_def oauth_locked_def split: option.splits)
  have "set (AList.update ?key f' fs) \<subseteq> insert (?key, f') (set fs)"
    by (induction fs) auto
  then show "failures_ok now o2"
    using dist fits time one_more_failure_fits(1) [OF x time free' f'] unfolding failures_ok_def o2'
    by (auto intro: failures_fit_later distinct_update)
  show "tries_left until (map_of (oa_failures o2) k) + of_bool (?key = k) \<le> tries_left until (map_of (oa_failures o1) k)"
    if until: "now < until" "until \<le> now + CLIENT_LOCK_MS"
  proof -
    have less: "tries_left until (map_of fs k) \<le> tries_left until (map_of (oa_failures o1) k)"
      using pruned [of k] tries_left_pruned [OF failures_ok_entry [OF ok] until(1)] by (auto simp: keep_def)
    show ?thesis
    proof (cases "?key = k")
      case True
      then have "map_of (oa_failures o2) k = Some f'" by (simp add: o2' update_conv')
      with one_more_failure_fits(2) [OF x time free' f' until] less True show ?thesis by (simp add: x_def)
    next
      case False
      then have "map_of (oa_failures o2) k = map_of fs k" by (simp add: o2' update_conv')
      with less False show ?thesis by simp
    qed
  qed
qed

lemma put_pending_failures [simp]: "oa_failures (snd (put_pending o1 now r p)) = oa_failures o1"
  by (simp add: put_pending_def Let_def)

lemma authorize_failures: "oa_failures (snd (authorize sv w inst now address query d o1)) = oa_failures o1"
  by (auto simp: authorize_def open_consent_def Let_def put_pending_def split: sum.splits option.splits prod.splits)

lemma code_posted_keeps:
  assumes "code_posted sv inst now address origin cookies body o1 = (x, o2)"
  shows "oa_failures o2 = oa_failures o1"
    and "x = Inr (r, p, typed) \<Longrightarrow> \<not> oauth_locked o1 (pn_client_id p) address now"
  using assms
  by (auto simp: code_posted_def code_limits_def take_pending_def oauth_locked_def Let_def split: sum.splits option.splits prod.splits if_splits)

lemma consent_step_failures:
  assumes ok: "failures_ok before o1" and time: "before \<le> fst (snd e)" "CLIENT_LOCK_MS \<le> fst (snd e)"
    and step: "consent_step sv e (d, o1) = (a, d', o2)"
  shows "failures_ok (fst (snd e)) o2"
    and "fst (snd e) < until \<Longrightarrow> until \<le> fst (snd e) + CLIENT_LOCK_MS \<Longrightarrow>
      tries_left until (map_of (oa_failures o2) k) + of_bool (wrong_guess sv e (d, o1) = Some k) \<le> tries_left until (map_of (oa_failures o1) k)"
proof -
  obtain inst now q where e: "e = (inst, now, q)" by (cases e)
  have time': "before \<le> now" "CLIENT_LOCK_MS \<le> now" using time by (simp_all add: e)
  have "failures_ok now o2 \<and> (now < until \<longrightarrow> until \<le> now + CLIENT_LOCK_MS \<longrightarrow>
      tries_left until (map_of (oa_failures o2) k) + of_bool (wrong_guess sv e (d, o1) = Some k) \<le> tries_left until (map_of (oa_failures o1) k))"
  proof (cases "oa_failures o2 = oa_failures o1 \<and> wrong_guess sv e (d, o1) = None")
    case True
    with failures_ok_later [OF ok time'(1)] show ?thesis by (simp add: failures_ok_def)
  next
    case changed: False
    then obtain w address origin cookies body where q: "q = PostCode w address origin cookies body"
      using step authorize_failures by (cases q) (auto simp: e Let_def split_beta)
    obtain x o3 where posted: "code_posted sv inst now address origin cookies body o1 = (x, o3)" by fastforce
    note same = code_posted_keeps(1) [OF posted]
    from changed step same obtain r p typed where x: "x = Inr (r, p, typed)"
      by (cases x) (auto simp: e q consent_def posted)
    have free: "\<not> oauth_locked o3 (pn_client_id p) address now"
      using code_posted_keeps(2) [OF posted x] same by (simp add: oauth_locked_def)
    have right: "oa_failures o2 = oa_failures o3" if "code_is_right sv w now p typed d o3"
      using that step by (auto simp: e q consent_def posted x try_code_def code_is_right_def split: option.splits sum.splits prod.splits)
    have tried: "try_code sv w inst now address r p typed d o3 = (a, d', o2)" using step by (simp add: e q consent_def posted x)
    have wrong: "\<not> code_is_right sv w now p typed d o3"
      using changed right same by (auto simp: e q posted x)
    define o4 where "o4 = o3\<lparr>oa_wrong_codes := snd (limit_take ''all'' inst (oa_wrong_codes o3))\<rparr>"
    have "oa_failures o2 = oa_failures (snd (wrong_code sv inst now address r p o3))"
      using tried wrong by (auto simp: try_code_def code_is_right_def Let_def split: option.splits sum.splits prod.splits)
    then have o2: "oa_failures o2 = oa_failures (snd (count_failure o4 (pn_client_id p) address now))"
      by (simp add: wrong_code_def Let_def o4_def split_beta)
    have ok4: "failures_ok before o4" using ok same by (simp add: failures_ok_def o4_def)
    have free4: "\<not> oauth_locked o4 (pn_client_id p) address now" using free by (simp add: oauth_locked_def o4_def)
    note kept = count_failure_keeps [OF ok4 time' free4 refl]
    have key: "wrong_guess sv e (d, o1) = Some (lock_key (pn_client_id p) address)" using wrong by (simp add: e q posted x)
    have "oa_failures o4 = oa_failures o1" using same by (simp add: o4_def)
    with kept(1) kept(2) [of until k] o2 key show ?thesis by (auto simp: failures_ok_def)
  qed
  then show "failures_ok (fst (snd e)) o2"
    "fst (snd e) < until \<Longrightarrow> until \<le> fst (snd e) + CLIENT_LOCK_MS \<Longrightarrow>
      tries_left until (map_of (oa_failures o2) k) + of_bool (wrong_guess sv e (d, o1) = Some k) \<le> tries_left until (map_of (oa_failures o1) k)"
    by (auto simp: e)
qed

definition guesses_between :: "string \<Rightarrow> int \<Rightarrow> int \<Rightarrow> (int \<times> string) list \<Rightarrow> nat" where
  "guesses_between k t until gs = length (filter (\<lambda>(now, g). g = k \<and> t \<le> now \<and> now < until) gs)"

lemma guess_times: "(now, g) \<in> set (wrong_guesses sv es s) \<Longrightarrow> \<exists>e \<in> set es. fst (snd e) = now"
proof (induction es arbitrary: s)
  case (Cons e es)
  show ?case
  proof (cases "(now, g) \<in> set (wrong_guesses sv es (snd (consent_step sv e s)))")
    case True
    from Cons.IH [OF True] show ?thesis by auto
  next
    case False
    with Cons.prems show ?thesis by (auto split: option.splits)
  qed
qed simp

lemma guesses_Cons:
  "guesses_between k t until (wrong_guesses sv (e # es) s) =
     of_bool (wrong_guess sv e s = Some k \<and> t \<le> fst (snd e) \<and> fst (snd e) < until) +
     guesses_between k t until (wrong_guesses sv es (snd (consent_step sv e s)))"
  by (auto simp: guesses_between_def split: option.splits)

lemma guesses_later: "(\<And>e. e \<in> set es \<Longrightarrow> until \<le> fst (snd e)) \<Longrightarrow> guesses_between k t until (wrong_guesses sv es s) = 0"
  using guess_times [of _ _ sv es s] by (fastforce simp: guesses_between_def filter_empty_conv)

lemma guesses_at_most_left:
  assumes "failures_ok before o1" "sorted (before # map (\<lambda>e. fst (snd e)) es)"
    and "\<And>e. e \<in> set es \<Longrightarrow> t \<le> fst (snd e) \<and> CLIENT_LOCK_MS \<le> fst (snd e)"
  shows "guesses_between k t (t + CLIENT_LOCK_MS) (wrong_guesses sv es (d, o1)) \<le> tries_left (t + CLIENT_LOCK_MS) (map_of (oa_failures o1) k)"
  using assms
proof (induction es arbitrary: before d o1)
  case (Cons e es)
  obtain a d' o2 where step: "consent_step sv e (d, o1) = (a, d', o2)" by (metis prod_cases3)
  have time: "before \<le> fst (snd e)" "CLIENT_LOCK_MS \<le> fst (snd e)" "t \<le> fst (snd e)" using Cons.prems by simp_all
  note kept = consent_step_failures [OF Cons.prems(1) time(1,2) step]
  show ?case
  proof (cases "fst (snd e) < t + CLIENT_LOCK_MS")
    case True
    have "guesses_between k t (t + CLIENT_LOCK_MS) (wrong_guesses sv es (d', o2)) \<le> tries_left (t + CLIENT_LOCK_MS) (map_of (oa_failures o2) k)"
      using Cons.prems by (intro Cons.IH [OF kept(1)]) auto
    with kept(2) [of "t + CLIENT_LOCK_MS" k] True time(3) show ?thesis by (simp add: guesses_Cons step del: wrong_guesses.simps)
  next
    case False
    then have "until \<le> fst (snd e')" if "e' \<in> set (e # es)" "until = t + CLIENT_LOCK_MS" for e' until
      using that Cons.prems(2) by auto
    then have "guesses_between k t (t + CLIENT_LOCK_MS) (wrong_guesses sv (e # es) (d, o1)) = 0" by (intro guesses_later) auto
    then show ?thesis by simp
  qed
qed (simp add: guesses_between_def)

lemma tries_left_le: "failures_ok before o1 \<Longrightarrow> tries_left until (map_of (oa_failures o1) k) \<le> 8"
  using failures_ok_entry [of before o1 k] by (fastforce simp: tries_left_def failures_fit_def split: option.splits)

lemma guesses_in_an_hour:
  assumes "failures_ok before o1" "sorted (before # map (\<lambda>e. fst (snd e)) es)" "\<And>e. e \<in> set es \<Longrightarrow> CLIENT_LOCK_MS \<le> fst (snd e)"
  shows "guesses_between k t (t + CLIENT_LOCK_MS) (wrong_guesses sv es (d, o1)) \<le> 8"
  using assms
proof (induction es arbitrary: before d o1)
  case (Cons e es)
  obtain a d' o2 where step: "consent_step sv e (d, o1) = (a, d', o2)" by (metis prod_cases3)
  have time: "before \<le> fst (snd e)" "CLIENT_LOCK_MS \<le> fst (snd e)" using Cons.prems by simp_all
  show ?case
  proof (cases "t \<le> fst (snd e)")
    case True
    then have "t \<le> fst (snd e') \<and> CLIENT_LOCK_MS \<le> fst (snd e')" if "e' \<in> set (e # es)" for e'
      using that Cons.prems(2,3) by auto
    from guesses_at_most_left [OF Cons.prems(1,2) this] tries_left_le [OF Cons.prems(1)] order_trans show ?thesis by blast
  next
    case False
    have "guesses_between k t (t + CLIENT_LOCK_MS) (wrong_guesses sv es (d', o2)) \<le> 8"
      using Cons.prems by (intro Cons.IH [OF consent_step_failures(1) [OF Cons.prems(1) time step]]) auto
    then show ?thesis using False by (simp add: guesses_Cons step del: wrong_guesses.simps)
  qed
qed (simp add: guesses_between_def)


definition page_env :: sign_env where
  "page_env = \<lparr>sv_sha = (\<lambda>s. s), sv_s256 = (\<lambda>s. s), sv_wrap = (\<lambda>n s a k. k), sv_unwrap = (\<lambda>s a k. Some k), sv_public = (\<lambda>k. Some k),
     sv_seal = (\<lambda>n p k a. Some k),
     sv_url = (\<lambda>s. Some \<lparr>wu_scheme = ''https'', wu_host = Some ''h'', wu_path = s, wu_query = None, wu_fragment = None,
       wu_username = '''', wu_password = None, wu_origin = ''o''\<rparr>)\<rparr>"

definition page_draws :: draws where
  "page_draws = \<lparr>dw_access = ''a'', dw_refresh = ''r'', dw_grant_secret = ''s'', dw_agent_key = ''k'', dw_nonce = ''n'', dw_id = ''i'',
     dw_code = ''c'', dw_page = ''p'', dw_csrf = ''x''\<rparr>"

definition one_client :: rules_db where
  "one_client = empty_rules_db\<lparr>rd_clients := [\<lparr>ro_id = ''app'', ro_name = ''App'', ro_redirect_uris = [''v''], ro_created_at = 0\<rparr>]\<rparr>"

definition one_guess :: "(rat \<times> int \<times> consent_request) list" where
  "one_guess =
     [(0, 3600000, OpenPage page_draws ''here'' [(''client_id'', ''app''), (''response_type'', ''code''),
        (''code_challenge'', replicate 43 (CHR ''a'')), (''code_challenge_method'', ''S256'')]),
      (1, 3600001, PostCode page_draws ''here'' None [''oagc_consent_p=x''] [(''request'', ''p''), (''connect_code'', ''2345678923'')])]"

definition page_open :: oauth_state where
  "page_open = (oauth_new ''o'')
     \<lparr>oa_pending := [(''p'', \<lparr>pn_client_id = ''app'', pn_client_name = ''App'', pn_redirect_uri = ''v'', pn_state = None,
        pn_challenge = replicate 43 (CHR ''a''), pn_csrf_hash = ''x'', pn_created_at = 3600000, pn_tries = 0\<rparr>)],
      oa_consents := \<lparr>rl_per_minute = 30, rl_buckets = [(''consent:here'', \<lparr>bk_tokens = 29, bk_last = 0\<rparr>)]\<rparr>,
      oa_consents_all := \<lparr>rl_per_minute = 600, rl_buckets = [(''all'', \<lparr>bk_tokens = 599, bk_last = 0\<rparr>)]\<rparr>\<rparr>"

lemma page_opened: "consent_step page_env (hd one_guess) (one_client, oauth_new ''o'') = (ConsentPage ''p'' None, one_client, page_open)"
  by code_simp

lemma code_guessed: "wrong_guess page_env (one_guess ! 1) (one_client, page_open) = Some ''app here''"
  by code_simp


end
