(* ===== verification/Spec2Isabelle.thy ===== *)
theory Spec2Isabelle
  imports Resync Reachable Runs Matching Unsubscribe Mutations Progress Limit Schedule OneUse Consent
begin

text \<open>
  A verification development for Kaluta (OpenAGC), a mail client whose core is written in Rust
  (\<^verbatim>\<open>src/crates\<close>). The account's store is a SQLite database that one process writes and others read; a
  sync engine keeps it in step with a mail provider, an outbox carries the user's changes back, and
  agents act on it through tools that a permission engine and the user's approvals guard.

  The parts, and the theories that model them (each opens with what it translates):

  \<^item> \<open>Prelude\<close>, \<open>Numbers\<close>: the operations on strings, lists, tables and integers that the source takes
    from Rust and SQL. A table is the list of its rows in the order of their row ids; \<open>keyed_table\<close> is
    the locale of a table with distinct keys, interpreted on each table.
  \<^item> \<open>Domain\<close> (\<^verbatim>\<open>mail-domain\<close>): the data of mail, calendar dates.
  \<^item> \<open>Store\<close>, \<open>Consistency\<close>, \<open>Writer\<close>, \<open>Transactions\<close>, \<open>Changes\<close> (\<^verbatim>\<open>mail-store\<close>: \<^verbatim>\<open>write.rs\<close>,
    \<^verbatim>\<open>consistency.rs\<close>): the mail tables, a transaction that changes messages and labels and recomputes the
    threads it touched, the checker of the redundant counters. The invariant \<open>store_ok\<close> says what the
    checker checks and more; every transaction keeps it, so the checker finds nothing, and the changes
    that a transaction reports are the mailboxes that threads entered, left or changed in.
  \<^item> \<open>Read\<close>, \<open>Messages\<close> (\<^verbatim>\<open>read.rs\<close>): mailboxes, pages of threads by key, one thread or message. Paging is
    proved in the locale \<open>keyset\<close>: every thread is read once, in order.
  \<^item> \<open>Outbox\<close>, \<open>Undo\<close>, \<open>Rollback\<close>, \<open>Queue\<close> (\<^verbatim>\<open>outbox.rs\<close>, \<^verbatim>\<open>drafts.rs\<close>, \<^verbatim>\<open>undo.rs\<close>, \<^verbatim>\<open>queue.rs\<close>): ops waiting
    for the provider with their claims and leases, drafts, recorded changes and their inverses, what a
    permanent failure rolls back, the queue of messages to download as a map from ids to priorities.
  \<^item> \<open>Transport\<close>, \<open>Provider\<close>, \<open>Windows\<close>, \<open>Engine\<close>, \<open>Listing\<close>, \<open>Fetching\<close>, \<open>Drain\<close>, \<open>Incremental\<close>, \<open>Resync\<close>,
    \<open>Reachable\<close> (\<^verbatim>\<open>mail-sync\<close>, \<^verbatim>\<open>provider-api\<close>): the engine with its operations. A provider is a record of
    functions on a state \<open>'w\<close> of the world that the engine does not see; nothing is assumed of it but where a
    theorem names it. The theorems say when draining and downloading end, that the store follows the
    server's history, and that every reachable engine has a well-formed store, queue and outbox.
  \<^item> \<open>Mime\<close>, \<open>Compose\<close> (\<^verbatim>\<open>mail-mime\<close>, \<^verbatim>\<open>compose.rs\<close>): replies, plain text as HTML, outgoing messages,
    sending with the time to undo it. The MIME serializer and the HTML sanitizer are parameters.
  \<^item> \<open>Permissions\<close>, \<open>Json\<close>, \<open>Core\<close>, \<open>Agents\<close>, \<open>Tools\<close>, \<open>Calls\<close> (\<^verbatim>\<open>permissions\<close>, \<^verbatim>\<open>kaluta-core\<close>): risk classes, the
    policy, the limits of an agent's session; arguments and results of tool calls; the core's operations
    on one mailbox; approvals and the audit log; the tools that read, draft and change; a whole call, up to
    where it waits for the user and from there on.
  \<^item> \<open>Quiet\<close>, \<open>Guarded\<close>, \<open>Approved\<close>, \<open>Runs\<close>: what a call leaves alone (\<open>quiet\<close> of a store, \<open>calm\<close> of the
    hub); a draft in review is frozen; the hub as a run of events, in which nothing is sent or trashed
    without the user's approval; two runs that break a promise of \<^verbatim>\<open>docs/security.md\<close>.
  \<^item> \<open>Search\<close>, \<open>Matching\<close> (\<^verbatim>\<open>mail-store/src/search\<close>): the query language, from the characters to the tree, with the
    grammar it is proved to follow; which messages a tree matches and the pages of a search, which visit every
    match once. The recursion of the parser has fuel for four steps per token, which is shown to be enough. The
    full-text index answers phrase by phrase as a parameter.
  \<^item> \<open>Addresses\<close>, \<open>Unsubscribe\<close> (\<^verbatim>\<open>kaluta-core/src/cleanup/unsubscribe.rs\<close>): which addresses are public, and leaving a
    mailing list: no post goes anywhere but to the confirmed site of the list at public addresses. The URL parser, the
    name lookup, HTTP and the query for the newest headers are parameters.
  \<^item> \<open>Calendar\<close>, \<open>CleanupGroups\<close>, \<open>CleanupCounts\<close>, \<open>CleanupApply\<close> (\<^verbatim>\<open>mail-store/src/cleanup.rs\<close>): day numbers and dates; the
    groups of Clean Up and the messages their keys select, whose numbers are proved to agree; what applying an
    action to groups changes, and its undo.
  \<^item> \<open>Mutations\<close>, \<open>Progress\<close> (\<^verbatim>\<open>mutations.rs\<close> and \<^verbatim>\<open>cleanup.rs\<close> of \<^verbatim>\<open>kaluta-core\<close>): the user's actions with the tokens
    that undo them, the toolbar of Clean Up on top of both, whose undo gives every label back; the Inbox Zero card
    with its table of days and its baseline, which it keeps.
  \<^item> \<open>Limit\<close> (\<^verbatim>\<open>rules-server/src/limit.rs\<close>): token buckets, proved to keep every client to its allowance, and the
    address a client behind proxies is counted by. Rationals stand for floating point.
  \<^item> \<open>Schedule\<close> (\<^verbatim>\<open>agent-api/src/routines/schedule.rs\<close>): the reading of a routine's rule, its description and
    its cron expression, proved to fire when the rule says.
  \<^item> \<open>RulesDb\<close>, \<open>OAuth\<close>, \<open>SignIn\<close> (\<^verbatim>\<open>rules-server/src/db.rs\<close>, \<^verbatim>\<open>tokens.rs\<close>, \<^verbatim>\<open>crypto.rs\<close>, \<^verbatim>\<open>oauth.rs\<close>,
    \<^verbatim>\<open>rest.rs\<close>, \<^verbatim>\<open>lib.rs\<close>): how agents sign in to the rules server: tables, tokens, keys, and what each request
    decides in its transaction. \<open>Grants\<close> runs requests in any order and proves what grants hold; \<open>OneUse\<close> proves that
    codes and refresh tokens work once, that a replay revokes for good, and that issued tokens sign their agent in.
    \<open>Consent\<close> is the consent page, where connect codes are typed, with the bound on guessing them.
    Hashing, sealing, the URL parser and chance are parameters.

  How code is read. A SQL statement is a function on the list of rows; a transaction returns the new
  database or leaves the old one. Loops over finite data are structural recursion or have a measure. A
  loop that asks the provider again and again (the pages of a listing, the outbox, the backfill) is a
  \<open>partial_function\<close> whose value \<open>None\<close> is not returning; the theorems that draining and downloading
  return show it is not \<open>None\<close> there, from a weight of the outbox or the length of the queue. Integers are
  \<open>int\<close> or \<open>nat\<close> where the source's range is not reached, and clamped or range-checked where the code does it.
  A panic is \<open>None\<close> or the core's error for a task that panicked. A character is one byte wide here:
  where the source writes typographic quotes or a middle dot, the texts have an ASCII sign instead.

  Not modelled: the macOS app and the interface to it; the providers' HTTP and IMAP clients; MIME
  parsing and HTML sanitizing, which wrap external parsers; facts, writing
  guide, routines and their analyses; the processes of the agents and their sockets; of the rules server the
  HTTP handlers around what is modelled, published snapshots and reports.
  The manifest lists each with its reason. Within the parts modelled, the work of one call is not
  interleaved with others except where a call waits for the user.
\<close>

end
